(* ===== verification/Prelude.thy ===== *)
theory Prelude
  imports Main "HOL-Library.AList"
begin

text \<open>
  The shared prelude: the Python exceptions the code raises and catches, the state-and-exception
  programs in which the stateful services are written (a Python statement sequence with
  \<open>raise\<close>, \<open>try/except\<close> and \<open>try/finally\<close>), the rules that carry invariants and
  relations through such programs, and generic lemmas on lists.
\<close>

section \<open>Exceptions\<close>

text \<open>
  One constructor per exception class the modelled code raises or tests for
  (\<open>common/errors.py\<close>, the built-ins, and the classes of the \<open>sqlite3\<close> driver:
  \<open>SqliteDatabaseError\<close> and \<open>SqliteError\<close> are the errors that are instances of no more
  specific one; \<open>ConfigParserError\<close> is the base class of the errors of \<open>configparser\<close>).
  \<open>RunInterrupted\<close> is an \<open>Exception\<close> but no \<open>CacheError\<close>; \<open>KeyboardInterrupt\<close>
  stands for the exceptions that derive from \<open>BaseException\<close> only and pass every
  \<open>except Exception\<close>.
\<close>

datatype exn_class =
    CacheMiss | UnknownClient | CapabilityUnavailable | ConfigError | ClientNotFound
  | CommandLineTooLong | RunTimedOut | InputFileError | ArtifactBlobMissing
  | WrongEncryptionToken | EncryptionTokenRequired | EncryptionStateError | StoreLocked
  | UnsupportedExecutionMode | MigrationFailed | PersistenceContractOutdated
  | StoreSchemaTooNew | ProviderApiError | ProviderProtocolError | StoreUnavailable
  | StoreCorrupt | StoreConsistencyError | RunInterrupted
  | ValueError | TypeError | AttributeError | PyRuntimeError | OSError
  | SqliteIntegrityError | SqliteOperationalError | SqliteDatabaseError | SqliteError
  | OverflowError | UnicodeDecodeError | ConfigParserError
  | KeyboardInterrupt

datatype exn = Exn (exn_class_of: exn_class) (exn_message: string)

definition is_exception :: "exn \<Rightarrow> bool" where
  "is_exception e \<longleftrightarrow> exn_class_of e \<noteq> KeyboardInterrupt"

lemma is_exception_Exn [simp]: "is_exception (Exn c s) \<longleftrightarrow> c \<noteq> KeyboardInterrupt"
  by (simp add: is_exception_def)

section \<open>Programs over a state with exceptions\<close>

type_synonym ('w, 'a) prog = "'w \<Rightarrow> (exn + 'a) \<times> 'w"

definition ret :: "'a \<Rightarrow> ('w, 'a) prog" where
  "ret a = (\<lambda>w. (Inr a, w))"

definition raise :: "exn \<Rightarrow> ('w, 'a) prog" where
  "raise e = (\<lambda>w. (Inl e, w))"

definition bindP :: "('w, 'a) prog \<Rightarrow> ('a \<Rightarrow> ('w, 'b) prog) \<Rightarrow> ('w, 'b) prog" where
  "bindP m f = (\<lambda>w. case m w of (Inl e, w') \<Rightarrow> (Inl e, w') | (Inr a, w') \<Rightarrow> f a w')"

definition thenP :: "('w, 'a) prog \<Rightarrow> ('w, 'b) prog \<Rightarrow> ('w, 'b) prog" where
  "thenP m n = bindP m (\<lambda>_. n)"

text \<open>\<open>try m except: h\<close>; the handler decides by re-raising which classes it does not take.\<close>

definition catchP :: "('w, 'a) prog \<Rightarrow> (exn \<Rightarrow> ('w, 'a) prog) \<Rightarrow> ('w, 'a) prog" where
  "catchP m h = (\<lambda>w. case m w of (Inl e, w') \<Rightarrow> h e w' | (Inr a, w') \<Rightarrow> (Inr a, w'))"

text \<open>\<open>try m finally: n\<close>; an exception of \<open>n\<close> replaces the outcome of \<open>m\<close>.\<close>

definition finallyP :: "('w, 'a) prog \<Rightarrow> ('w, unit) prog \<Rightarrow> ('w, 'a) prog" where
  "finallyP m n =
     (\<lambda>w. case m w of (r, w') \<Rightarrow> (case n w' of (Inl e, w'') \<Rightarrow> (Inl e, w'') | (Inr _, w'') \<Rightarrow> (r, w'')))"

definition getsP :: "('w \<Rightarrow> 'a) \<Rightarrow> ('w, 'a) prog" where
  "getsP f = (\<lambda>w. (Inr (f w), w))"

definition modifyP :: "('w \<Rightarrow> 'w) \<Rightarrow> ('w, unit) prog" where
  "modifyP f = (\<lambda>w. (Inr (), f w))"

definition whenP :: "bool \<Rightarrow> ('w, unit) prog \<Rightarrow> ('w, unit) prog" where
  "whenP b m = (if b then m else ret ())"

text \<open>A value that is already an outcome (a pure function that may raise).\<close>

definition liftE :: "exn + 'a \<Rightarrow> ('w, 'a) prog" where
  "liftE r = (\<lambda>w. (r, w))"

fun for_each :: "('a \<Rightarrow> ('w, unit) prog) \<Rightarrow> 'a list \<Rightarrow> ('w, unit) prog" where
  "for_each f [] = ret ()"
| "for_each f (x # xs) = thenP (f x) (for_each f xs)"

fun mapP :: "('a \<Rightarrow> ('w, 'b) prog) \<Rightarrow> 'a list \<Rightarrow> ('w, 'b list) prog" where
  "mapP f [] = ret []"
| "mapP f (x # xs) = bindP (f x) (\<lambda>y. bindP (mapP f xs) (\<lambda>ys. ret (y # ys)))"

lemma ret_run [simp]: "ret a w = (Inr a, w)"
  by (simp add: ret_def)

lemma raise_run [simp]: "raise e w = (Inl e, w)"
  by (simp add: raise_def)

lemma getsP_run [simp]: "getsP f w = (Inr (f w), w)"
  by (simp add: getsP_def)

lemma modifyP_run [simp]: "modifyP f w = (Inr (), f w)"
  by (simp add: modifyP_def)

lemma liftE_run [simp]: "liftE r w = (r, w)"
  by (simp add: liftE_def)

lemma whenP_simps [simp]: "whenP True m = m" "whenP False m = ret ()"
  by (simp_all add: whenP_def)

lemma bindP_Inr: "m w = (Inr a, w') \<Longrightarrow> bindP m f w = f a w'"
  by (simp add: bindP_def)

lemma bindP_Inl: "m w = (Inl e, w') \<Longrightarrow> bindP m f w = (Inl e, w')"
  by (simp add: bindP_def)

lemma thenP_Inr: "m w = (Inr a, w') \<Longrightarrow> thenP m n w = n w'"
  by (simp add: thenP_def bindP_def)

lemma thenP_Inl: "m w = (Inl e, w') \<Longrightarrow> thenP m n w = (Inl e, w')"
  by (simp add: thenP_def bindP_def)

lemma catchP_Inr: "m w = (Inr a, w') \<Longrightarrow> catchP m h w = (Inr a, w')"
  by (simp add: catchP_def)

lemma catchP_Inl: "m w = (Inl e, w') \<Longrightarrow> catchP m h w = h e w'"
  by (simp add: catchP_def)

lemma finallyP_Inr: "m w = (r, w') \<Longrightarrow> n w' = (Inr u, w'') \<Longrightarrow> finallyP m n w = (r, w'')"
  by (simp add: finallyP_def)

lemmas run_simps = bindP_Inr bindP_Inl thenP_Inr thenP_Inl catchP_Inr catchP_Inl finallyP_Inr

lemma bindP_ret [simp]: "bindP (ret a) f = f a"
  by (simp add: bindP_def fun_eq_iff)

lemma bindP_raise [simp]: "bindP (raise e) f = raise e"
  by (simp add: bindP_def fun_eq_iff)

lemma liftE_Inr [simp]: "liftE (Inr a) = ret a"
  by (simp add: fun_eq_iff)

section \<open>Two-postcondition triples\<close>

text \<open>
  \<open>triple P m Q E\<close>: from a state with \<open>P\<close>, a normal return satisfies \<open>Q\<close> and an exception
  satisfies \<open>E\<close>. Programs always return, so this is total correctness.
\<close>

definition triple ::
  "('w \<Rightarrow> bool) \<Rightarrow> ('w, 'a) prog \<Rightarrow> ('a \<Rightarrow> 'w \<Rightarrow> bool) \<Rightarrow> (exn \<Rightarrow> 'w \<Rightarrow> bool) \<Rightarrow> bool" where
  "triple P m Q E \<longleftrightarrow>
     (\<forall>w. P w \<longrightarrow> (case m w of (Inl e, w') \<Rightarrow> E e w' | (Inr a, w') \<Rightarrow> Q a w'))"

named_theorems triple_rules "structural rules of triples"

lemma tripleD_Inr: "triple P m Q E \<Longrightarrow> P w \<Longrightarrow> m w = (Inr a, w') \<Longrightarrow> Q a w'"
  by (force simp: triple_def)

lemma tripleD_Inl: "triple P m Q E \<Longrightarrow> P w \<Longrightarrow> m w = (Inl e, w') \<Longrightarrow> E e w'"
  by (force simp: triple_def)

lemma triple_conseq:
  assumes "triple P' m Q' E'"
    and "\<And>w. P w \<Longrightarrow> P' w" and "\<And>a w. Q' a w \<Longrightarrow> Q a w" and "\<And>e w. E' e w \<Longrightarrow> E e w"
  shows "triple P m Q E"
  using assms unfolding triple_def by (fastforce split: prod.splits sum.splits)

lemma triple_ret [triple_rules]: "(\<And>w. P w \<Longrightarrow> Q a w) \<Longrightarrow> triple P (ret a) Q E"
  by (simp add: triple_def)

lemma triple_raise [triple_rules]: "(\<And>w. P w \<Longrightarrow> E e w) \<Longrightarrow> triple P (raise e) Q E"
  by (simp add: triple_def)

lemma triple_bind [triple_rules]:
  "triple P m R E \<Longrightarrow> (\<And>a. triple (R a) (f a) Q E) \<Longrightarrow> triple P (bindP m f) Q E"
  unfolding triple_def bindP_def by (fastforce split: prod.splits sum.splits)

lemma triple_then [triple_rules]:
  "triple P m (\<lambda>_. R) E \<Longrightarrow> triple R n Q E \<Longrightarrow> triple P (thenP m n) Q E"
  unfolding thenP_def by (rule triple_bind) auto

lemma triple_catch [triple_rules]:
  "triple P m Q R \<Longrightarrow> (\<And>e. triple (R e) (h e) Q E) \<Longrightarrow> triple P (catchP m h) Q E"
  unfolding triple_def catchP_def by (fastforce split: prod.splits sum.splits)

section \<open>Invariants and relations kept by a program\<close>

text \<open>
  \<open>steps R m\<close>: whatever the outcome, the state before and the state after are related by
  \<open>R\<close>. With \<open>R\<close> reflexive and transitive the rules below are closed under every statement
  form, so a frame or an invariant of a whole service is proved by its syntax.
\<close>

definition steps :: "('w \<Rightarrow> 'w \<Rightarrow> bool) \<Rightarrow> ('w, 'a) prog \<Rightarrow> bool" where
  "steps R m \<longleftrightarrow> (\<forall>w. R w (snd (m w)))"

definition preorder_rel :: "('w \<Rightarrow> 'w \<Rightarrow> bool) \<Rightarrow> bool" where
  "preorder_rel R \<longleftrightarrow> (\<forall>w. R w w) \<and> (\<forall>u v w. R u v \<longrightarrow> R v w \<longrightarrow> R u w)"

definition keeping :: "('w \<Rightarrow> 'b) \<Rightarrow> 'w \<Rightarrow> 'w \<Rightarrow> bool" where
  "keeping f w w' \<longleftrightarrow> f w' = f w"

definition invariantly :: "('w \<Rightarrow> bool) \<Rightarrow> 'w \<Rightarrow> 'w \<Rightarrow> bool" where
  "invariantly I w w' \<longleftrightarrow> (I w \<longrightarrow> I w')"

lemma preorder_keeping [simp, intro]: "preorder_rel (keeping f)"
  by (simp add: preorder_rel_def keeping_def)

lemma preorder_invariantly [simp, intro]: "preorder_rel (invariantly I)"
  by (simp add: preorder_rel_def invariantly_def)

named_theorems steps_rules "structural rules of steps"

lemma stepsD: "steps R m \<Longrightarrow> m w = (r, w') \<Longrightarrow> R w w'"
  by (metis snd_conv steps_def)

lemma stepsI: "(\<And>w r w'. m w = (r, w') \<Longrightarrow> R w w') \<Longrightarrow> steps R m"
  by (metis prod.collapse steps_def)

lemma steps_ret [steps_rules]: "preorder_rel R \<Longrightarrow> steps R (ret a)"
  by (simp add: steps_def preorder_rel_def)

lemma steps_raise [steps_rules]: "preorder_rel R \<Longrightarrow> steps R (raise e)"
  by (simp add: steps_def preorder_rel_def)

lemma steps_gets [steps_rules]: "preorder_rel R \<Longrightarrow> steps R (getsP f)"
  by (simp add: steps_def preorder_rel_def)

lemma steps_liftE [steps_rules]: "preorder_rel R \<Longrightarrow> steps R (liftE r)"
  by (simp add: steps_def preorder_rel_def)

lemma steps_modify: "(\<And>w. R w (f w)) \<Longrightarrow> steps R (modifyP f)"
  by (simp add: steps_def)

lemma steps_bind [steps_rules]:
  assumes R: "preorder_rel R" and m: "steps R m" and f: "\<And>a. steps R (f a)"
  shows "steps R (bindP m f)"
proof (rule stepsI)
  fix w r w''
  assume run: "bindP m f w = (r, w'')"
  obtain x w' where mw: "m w = (x, w')" by (cases "m w")
  with m have "R w w'" by (rule stepsD)
  show "R w w''"
  proof (cases x)
    case (Inl e)
    with run mw \<open>R w w'\<close> show ?thesis by (simp add: bindP_def)
  next
    case (Inr a)
    with run mw have "f a w' = (r, w'')" by (simp add: bindP_def)
    with f have "R w' w''" by (rule stepsD)
    with \<open>R w w'\<close> R show ?thesis unfolding preorder_rel_def by blast
  qed
qed

lemma steps_then [steps_rules]:
  "preorder_rel R \<Longrightarrow> steps R m \<Longrightarrow> steps R n \<Longrightarrow> steps R (thenP m n)"
  unfolding thenP_def by (rule steps_bind)

lemma steps_catch [steps_rules]:
  assumes R: "preorder_rel R" and m: "steps R m" and h: "\<And>e. steps R (h e)"
  shows "steps R (catchP m h)"
proof (rule stepsI)
  fix w r w''
  assume run: "catchP m h w = (r, w'')"
  obtain x w' where mw: "m w = (x, w')" by (cases "m w")
  with m have "R w w'" by (rule stepsD)
  show "R w w''"
  proof (cases x)
    case (Inr a)
    with run mw \<open>R w w'\<close> show ?thesis by (simp add: catchP_def)
  next
    case (Inl e)
    with run mw have "h e w' = (r, w'')" by (simp add: catchP_def)
    with h have "R w' w''" by (rule stepsD)
    with \<open>R w w'\<close> R show ?thesis unfolding preorder_rel_def by blast
  qed
qed

lemma steps_finally [steps_rules]:
  assumes R: "preorder_rel R" and m: "steps R m" and n: "steps R n"
  shows "steps R (finallyP m n)"
proof (rule stepsI)
  fix w r w''
  assume run: "finallyP m n w = (r, w'')"
  obtain x w1 where mw: "m w = (x, w1)" by (cases "m w")
  obtain y w2 where nw: "n w1 = (y, w2)" by (cases "n w1")
  from run mw nw have "w'' = w2" by (auto simp: finallyP_def split: sum.splits)
  with stepsD [OF m mw] stepsD [OF n nw] R show "R w w''" unfolding preorder_rel_def by blast
qed

lemma steps_when [steps_rules]:
  "preorder_rel R \<Longrightarrow> (b \<Longrightarrow> steps R m) \<Longrightarrow> steps R (whenP b m)"
  by (simp add: whenP_def steps_ret)

lemma steps_if [steps_rules]:
  "(b \<Longrightarrow> steps R m) \<Longrightarrow> (\<not> b \<Longrightarrow> steps R n) \<Longrightarrow> steps R (if b then m else n)"
  by simp

lemma steps_case_option [steps_rules]:
  "(x = None \<Longrightarrow> steps R m) \<Longrightarrow> (\<And>y. x = Some y \<Longrightarrow> steps R (f y)) \<Longrightarrow>
   steps R (case x of None \<Rightarrow> m | Some y \<Rightarrow> f y)"
  by (cases x) auto

lemma steps_case_prod [steps_rules]:
  "(\<And>a b. x = (a, b) \<Longrightarrow> steps R (f a b)) \<Longrightarrow> steps R (case x of (a, b) \<Rightarrow> f a b)"
  by (cases x) auto

lemma steps_Let [steps_rules]: "steps R (f x) \<Longrightarrow> steps R (Let x f)"
  by simp

lemma steps_for_each [steps_rules]:
  "preorder_rel R \<Longrightarrow> (\<And>x. x \<in> set xs \<Longrightarrow> steps R (f x)) \<Longrightarrow> steps R (for_each f xs)"
  by (induction xs) (auto intro!: steps_rules)

lemma steps_mapP [steps_rules]:
  "preorder_rel R \<Longrightarrow> (\<And>x. x \<in> set xs \<Longrightarrow> steps R (f x)) \<Longrightarrow> steps R (mapP f xs)"
  by (induction xs) (auto intro!: steps_rules)

section \<open>A program on a part of the state\<close>

definition zoomP :: "('w \<Rightarrow> 's) \<Rightarrow> ('s \<Rightarrow> 'w \<Rightarrow> 'w) \<Rightarrow> ('s, 'a) prog \<Rightarrow> ('w, 'a) prog" where
  "zoomP get put m = (\<lambda>w. case m (get w) of (r, s) \<Rightarrow> (r, put s w))"

lemma zoomP_run: "m (get w) = (r, s) \<Longrightarrow> zoomP get put m w = (r, put s w)"
  by (simp add: zoomP_def)

lemma zoomP_runD: "zoomP get put m w = (r, w') \<Longrightarrow> \<exists>s. m (get w) = (r, s) \<and> w' = put s w"
  by (auto simp: zoomP_def split: prod.splits)

lemma steps_zoomP:
  assumes "\<And>w r s. m (get w) = (r, s) \<Longrightarrow> R w (put s w)"
  shows "steps R (zoomP get put m)"
  by (rule stepsI) (auto dest!: zoomP_runD intro: assms)

section \<open>Lists\<close>

text \<open>Key of an association list seen as a Python dict: insertion keeps the first position.\<close>

abbreviation dict_set :: "'k \<Rightarrow> 'v \<Rightarrow> ('k \<times> 'v) list \<Rightarrow> ('k \<times> 'v) list" where
  "dict_set \<equiv> AList.update"

abbreviation dict_get :: "('k \<times> 'v) list \<Rightarrow> 'k \<Rightarrow> 'v option" where
  "dict_get \<equiv> map_of"

lemma last_filter_in: "filter P xs \<noteq> [] \<Longrightarrow> last (filter P xs) \<in> set xs \<and> P (last (filter P xs))"
  using last_in_set [of "filter P xs"] by simp

lemma find_append: "find P (xs @ ys) = (case find P xs of None \<Rightarrow> find P ys | Some x \<Rightarrow> Some x)"
  by (induction xs) auto

lemma filter_singleton_eq:
  assumes "distinct xs" and "x \<in> set xs" and "P x" and "\<And>y. y \<in> set xs \<Longrightarrow> P y \<Longrightarrow> y = x"
  shows "filter P xs = [x]"
proof -
  have fs: "set (filter P xs) = {x}"
    using assms(2,3) by (auto dest: assms(4))
  have "length (filter P xs) = card (set (filter P xs))"
    using assms(1) by (metis distinct_card distinct_filter)
  then have "length (filter P xs) = Suc 0" by (simp only: fs) simp
  then obtain y where "filter P xs = [y]" by (auto simp: length_Suc_conv)
  with fs show ?thesis by auto
qed

end
