(* ===== verification/Py_Text.thy ===== *)
theory Py_Text
  imports Prelude "HOL-Library.Char_ord" "HOL-Library.List_Lexorder"
begin

text \<open>
  Python text as the model represents it. A \<open>str\<close> is the list of bytes of its UTF-8 encoding,
  so \<open>s.encode("utf-8")\<close> is the identity, \<open>len(s.encode("utf-8"))\<close> is \<^term>\<open>length\<close>, and
  comparison by code points is the lexicographic order on bytes (UTF-8 preserves it). A
  \<open>bytes\<close> object is a byte list too; \<open>b.decode("utf-8")\<close> succeeds exactly on the
  lists that \<open>is_utf8\<close> accepts. Surrogate code points, which Python cannot encode, have no
  representative.
\<close>

type_synonym text_str = string
type_synonym bytes = string

section \<open>Joining, stripping, decimal numerals\<close>

fun join_str :: "text_str \<Rightarrow> text_str list \<Rightarrow> text_str" where
  "join_str sep [] = []"
| "join_str sep [x] = x"
| "join_str sep (x # y # xs) = x @ sep @ join_str sep (y # xs)"

definition is_space :: "char \<Rightarrow> bool" where
  "is_space c \<longleftrightarrow> of_char c \<in> {9, 10, 11, 12, 13, 28, 29, 30, 31, 32 :: nat}"

definition strip_str :: "text_str \<Rightarrow> text_str" where
  "strip_str s = rev (dropWhile is_space (rev (dropWhile is_space s)))"

definition digit_char :: "nat \<Rightarrow> char" where
  "digit_char n = char_of (48 + n)"

fun dec_str :: "nat \<Rightarrow> text_str" where
  "dec_str n = (if n < 10 then [digit_char n] else dec_str (n div 10) @ [digit_char (n mod 10)])"

declare dec_str.simps [simp del]

definition int_str :: "int \<Rightarrow> text_str" where
  "int_str i = (if i < 0 then CHR ''-'' # dec_str (nat (- i)) else dec_str (nat i))"

definition undec_str :: "text_str \<Rightarrow> nat" where
  "undec_str s = foldl (\<lambda>n c. 10 * n + (of_char c - 48)) 0 s"

lemma of_char_digit_char: "d < 10 \<Longrightarrow> of_char (digit_char d) = (48 + d :: nat)"
  by (simp add: digit_char_def)

lemma undec_dec: "undec_str (dec_str n) = n"
proof (induction n rule: dec_str.induct)
  case (1 n)
  show ?case
  proof (cases "n < 10")
    case True
    then show ?thesis by (subst dec_str.simps) (simp add: undec_str_def of_char_digit_char)
  next
    case False
    then have "undec_str (dec_str (n div 10)) = n div 10" by (rule "1.IH")
    with False show ?thesis
      by (subst dec_str.simps) (simp add: undec_str_def of_char_digit_char)
  qed
qed

lemma dec_str_inject [simp]: "dec_str m = dec_str n \<longleftrightarrow> m = n"
  by (metis undec_dec)

lemma dec_str_digits: "c \<in> set (dec_str n) \<Longrightarrow> 48 \<le> (of_char c :: nat) \<and> (of_char c :: nat) < 58"
proof (induction n rule: dec_str.induct)
  case (1 n)
  show ?case
  proof (cases "n < 10")
    case True
    with "1.prems" show ?thesis by (subst (asm) dec_str.simps) (auto simp: of_char_digit_char)
  next
    case False
    from False "1.prems" have "c \<in> set (dec_str (n div 10)) \<or> c = digit_char (n mod 10)"
      by (subst (asm) dec_str.simps) auto
    with False "1.IH" show ?thesis by (auto simp: of_char_digit_char)
  qed
qed

lemma join_str_append:
  "xs \<noteq> [] \<Longrightarrow> ys \<noteq> [] \<Longrightarrow> join_str sep (xs @ ys) = join_str sep xs @ sep @ join_str sep ys"
proof (induction sep xs rule: join_str.induct)
  case (2 sep x)
  then show ?case by (cases ys) auto
qed auto

text \<open>Splitting at a separator character recovers the joined parts when none contains it.\<close>

fun split_at :: "char \<Rightarrow> text_str \<Rightarrow> text_str list" where
  "split_at c [] = [[]]"
| "split_at c (x # xs) =
     (if x = c then [] # split_at c xs
      else (case split_at c xs of [] \<Rightarrow> [[x]] | y # ys \<Rightarrow> (x # y) # ys))"

lemma split_at_no: "c \<notin> set x \<Longrightarrow> split_at c x = [x]"
  by (induction x) auto

lemma split_at_append: "c \<notin> set x \<Longrightarrow> split_at c (x @ c # r) = x # split_at c r"
  by (induction x) auto

lemma split_join: "xs \<noteq> [] \<Longrightarrow> (\<forall>x \<in> set xs. c \<notin> set x) \<Longrightarrow> split_at c (join_str [c] xs) = xs"
  by (induction "[c]" xs rule: join_str.induct) (auto simp: split_at_no split_at_append)

lemma join_str_inject:
  assumes "\<forall>x \<in> set xs. c \<notin> set x" and "\<forall>y \<in> set ys. c \<notin> set y"
    and "xs \<noteq> []" and "ys \<noteq> []" and "join_str [c] xs = join_str [c] ys"
  shows "xs = ys"
  by (metis assms split_join)

section \<open>UTF-8 validity\<close>

text \<open>
  The strict decoder's automaton: overlong forms, surrogates and values above U+10FFFF are
  refused through the range of the second byte.
\<close>

definition cont_byte :: "nat \<Rightarrow> bool" where
  "cont_byte b \<longleftrightarrow> 128 \<le> b \<and> b < 192"

fun utf8_ok :: "nat list \<Rightarrow> bool" where
  "utf8_ok [] = True"
| "utf8_ok (a # xs) =
     (if a < 128 then utf8_ok xs
      else if 194 \<le> a \<and> a < 224 then
        (case xs of b # ys \<Rightarrow> cont_byte b \<and> utf8_ok ys | _ \<Rightarrow> False)
      else if 224 \<le> a \<and> a < 240 then
        (case xs of b # c # ys \<Rightarrow>
            cont_byte b \<and> (a = 224 \<longrightarrow> 160 \<le> b) \<and> (a = 237 \<longrightarrow> b < 160) \<and> cont_byte c \<and> utf8_ok ys
         | _ \<Rightarrow> False)
      else if 240 \<le> a \<and> a < 245 then
        (case xs of b # c # d # ys \<Rightarrow>
            cont_byte b \<and> (a = 240 \<longrightarrow> 144 \<le> b) \<and> (a = 244 \<longrightarrow> b < 144) \<and> cont_byte c \<and> cont_byte d
            \<and> utf8_ok ys
         | _ \<Rightarrow> False)
      else False)"

definition is_utf8 :: "bytes \<Rightarrow> bool" where
  "is_utf8 s = utf8_ok (map of_char s)"

lemma utf8_ok_ascii: "(\<forall>b \<in> set bs. b < 128) \<Longrightarrow> utf8_ok bs"
  by (induction bs) auto

lemma is_utf8_ascii: "(\<forall>c \<in> set s. (of_char c :: nat) < 128) \<Longrightarrow> is_utf8 s"
  unfolding is_utf8_def by (rule utf8_ok_ascii) auto

section \<open>Sorting and prefixes\<close>

definition starts_with :: "text_str \<Rightarrow> text_str \<Rightarrow> bool" where
  "starts_with p s \<longleftrightarrow> take (length p) s = p"

lemma starts_with_append [simp]: "starts_with p (p @ s)"
  by (simp add: starts_with_def)

lemma starts_with_iff: "starts_with p s \<longleftrightarrow> (\<exists>r. s = p @ r)"
  by (metis append_eq_conv_conj starts_with_def append_take_drop_id)

text \<open>\<open>s.lower()\<close> on ASCII letters, and \<open>p in s\<close>.\<close>

definition lower_char :: "char \<Rightarrow> char" where
  "lower_char c = (if 65 \<le> (of_char c :: nat) \<and> (of_char c :: nat) < 91 then char_of (of_char c + 32 :: nat) else c)"

definition lower_str :: "text_str \<Rightarrow> text_str" where
  "lower_str s = map lower_char s"

fun contains_str :: "text_str \<Rightarrow> text_str \<Rightarrow> bool" where
  "contains_str p [] = (p = [])"
| "contains_str p (c # s) = (starts_with p (c # s) \<or> contains_str p s)"

text \<open>\<open>sorted(set)\<close> of a finite set of strings.\<close>

abbreviation sorted_set :: "text_str set \<Rightarrow> text_str list" where
  "sorted_set \<equiv> sorted_list_of_set"

end
