(* ===== verification/Sha256.thy ===== *)
theory Sha256
  imports Py_Text "HOL-Library.Word"
begin

text \<open>
  \<open>hashlib.sha256(data).hexdigest()\<close>: the SHA-256 function of FIPS 180-4 on 32-bit words, as
  the standard library computes it, and the shape of its result (64 lower-case hexadecimal
  digits). The rest of the development takes the digest as an argument, so that collision
  freedom can be a named hypothesis; the laws it needs of the digest's shape are the locale
  \<open>hex_digest\<close>, which \<open>sha256_hexdigest\<close> satisfies.
\<close>

unbundle bit_operations_syntax

type_synonym w32 = "32 word"

section \<open>The compression function\<close>

definition sha_k :: "w32 list" where
  "sha_k =
    [1116352408, 1899447441, 3049323471, 3921009573, 961987163, 1508970993,
     2453635748, 2870763221, 3624381080, 310598401, 607225278, 1426881987,
     1925078388, 2162078206, 2614888103, 3248222580, 3835390401, 4022224774,
     264347078, 604807628, 770255983, 1249150122, 1555081692, 1996064986,
     2554220882, 2821834349, 2952996808, 3210313671, 3336571891, 3584528711,
     113926993, 338241895, 666307205, 773529912, 1294757372, 1396182291,
     1695183700, 1986661051, 2177026350, 2456956037, 2730485921, 2820302411,
     3259730800, 3345764771, 3516065817, 3600352804, 4094571909, 275423344,
     430227734, 506948616, 659060556, 883997877, 958139571, 1322822218,
     1537002063, 1747873779, 1955562222, 2024104815, 2227730452, 2361852424,
     2428436474, 2756734187, 3204031479, 3329325298]"

definition sha_init :: "w32 list" where
  "sha_init =
    [1779033703, 3144134277, 1013904242, 2773480762, 1359893119, 2600822924,
     528734635, 1541459225]"

definition small_sigma0 :: "w32 \<Rightarrow> w32" where
  "small_sigma0 x = word_rotr 7 x XOR word_rotr 18 x XOR drop_bit 3 x"

definition small_sigma1 :: "w32 \<Rightarrow> w32" where
  "small_sigma1 x = word_rotr 17 x XOR word_rotr 19 x XOR drop_bit 10 x"

definition big_sigma0 :: "w32 \<Rightarrow> w32" where
  "big_sigma0 x = word_rotr 2 x XOR word_rotr 13 x XOR word_rotr 22 x"

definition big_sigma1 :: "w32 \<Rightarrow> w32" where
  "big_sigma1 x = word_rotr 6 x XOR word_rotr 11 x XOR word_rotr 25 x"

text \<open>The message schedule is kept newest word first: \<open>W ! 0\<close> is the last word computed.\<close>

fun schedule :: "nat \<Rightarrow> w32 list \<Rightarrow> w32 list" where
  "schedule 0 ws = rev ws"
| "schedule (Suc n) ws =
     schedule n ((small_sigma1 (ws ! 1) + ws ! 6 + small_sigma0 (ws ! 14) + ws ! 15) # ws)"

datatype sha_state = Sha_State w32 w32 w32 w32 w32 w32 w32 w32

fun sha_round :: "sha_state \<Rightarrow> w32 \<times> w32 \<Rightarrow> sha_state" where
  "sha_round (Sha_State a b c d e f g h) (k, w) =
     (let t1 = h + big_sigma1 e + ((e AND f) XOR (NOT e AND g)) + k + w;
          t2 = big_sigma0 a + ((a AND b) XOR (a AND c) XOR (b AND c))
      in Sha_State (t1 + t2) a b c (d + t1) e f g)"

fun state_of :: "w32 list \<Rightarrow> sha_state" where
  "state_of [a, b, c, d, e, f, g, h] = Sha_State a b c d e f g h"
| "state_of _ = Sha_State 0 0 0 0 0 0 0 0"

fun state_words :: "sha_state \<Rightarrow> w32 list" where
  "state_words (Sha_State a b c d e f g h) = [a, b, c, d, e, f, g, h]"

definition compress :: "sha_state \<Rightarrow> w32 list \<Rightarrow> sha_state" where
  "compress s block =
     (let s' = foldl sha_round s (zip sha_k (schedule 48 (rev block)))
      in state_of (map2 (+) (state_words s) (state_words s')))"

section \<open>Padding and hexadecimal output\<close>

fun words_of_bytes :: "bytes \<Rightarrow> w32 list" where
  "words_of_bytes (a # b # c # d # xs) =
     (push_bit 24 (of_char a) OR push_bit 16 (of_char b) OR push_bit 8 (of_char c) OR of_char d)
     # words_of_bytes xs"
| "words_of_bytes _ = []"

fun be_bytes :: "nat \<Rightarrow> nat \<Rightarrow> bytes" where
  "be_bytes 0 n = []"
| "be_bytes (Suc k) n = be_bytes k (n div 256) @ [char_of n]"

definition sha_pad :: "bytes \<Rightarrow> bytes" where
  "sha_pad m =
     m @ [char_of (128 :: nat)] @ replicate ((119 - length m mod 64) mod 64) (char_of (0 :: nat))
       @ be_bytes 8 (8 * length m)"

function sha_blocks :: "sha_state \<Rightarrow> w32 list \<Rightarrow> sha_state" where
  "sha_blocks s ws = (if ws = [] then s else sha_blocks (compress s (take 16 ws)) (drop 16 ws))"
  by pat_completeness auto
termination
  by (relation "measure (\<lambda>(s, ws). length ws)") auto

declare sha_blocks.simps [simp del]

definition hex_digit :: "nat \<Rightarrow> char" where
  "hex_digit n = (if n < 10 then char_of (48 + n) else char_of (87 + n))"

fun hex_word :: "nat \<Rightarrow> w32 \<Rightarrow> text_str" where
  "hex_word 0 w = []"
| "hex_word (Suc k) w = hex_word k (drop_bit 4 w) @ [hex_digit (unat (w AND 15) mod 16)]"

definition sha256_hexdigest :: "bytes \<Rightarrow> text_str" where
  "sha256_hexdigest m =
     concat (map (hex_word 8) (state_words (sha_blocks (state_of sha_init) (words_of_bytes (sha_pad m)))))"

section \<open>The shape of a digest\<close>

definition is_hex :: "char \<Rightarrow> bool" where
  "is_hex c \<longleftrightarrow> c \<in> set ''0123456789abcdef''"

lemma hex_digit_is_hex: "n < 16 \<Longrightarrow> is_hex (hex_digit n)"
proof -
  assume "n < 16"
  then have "n \<in> set [0 ..< 16]" by simp
  moreover have "list_all (\<lambda>n. is_hex (hex_digit n)) [0 ..< 16]" by code_simp
  ultimately show ?thesis by (simp only: list_all_iff)
qed

lemma length_hex_word [simp]: "length (hex_word k w) = k"
  by (induction k arbitrary: w) auto

lemma hex_word_is_hex: "c \<in> set (hex_word k w) \<Longrightarrow> is_hex c"
  by (induction k arbitrary: w) (auto intro: hex_digit_is_hex)

lemma length_state_words [simp]: "length (state_words s) = 8"
  by (cases s) simp

text \<open>The interface of a digest: a total function to fixed-width lower-case hexadecimal text.\<close>

locale hex_digest =
  fixes digest :: "bytes \<Rightarrow> text_str"
  assumes length_digest: "length (digest m) = 64"
    and digest_hex: "c \<in> set (digest m) \<Longrightarrow> is_hex c"
begin

lemma digest_nonempty: "digest m \<noteq> []"
  using length_digest [of m] by auto

lemma digest_no_char: "\<not> is_hex c \<Longrightarrow> c \<notin> set (digest m)"
  using digest_hex by blast

end

lemma length_concat_const: "(\<forall>x \<in> set xs. length (f x) = k) \<Longrightarrow> length (concat (map f xs)) = k * length xs"
  by (induction xs) auto

interpretation sha256: hex_digest sha256_hexdigest
proof
  show "length (sha256_hexdigest m) = 64" for m
    unfolding sha256_hexdigest_def by (subst length_concat_const [where k = 8]) auto
  show "is_hex c" if "c \<in> set (sha256_hexdigest m)" for c m
    using that unfolding sha256_hexdigest_def by (auto intro: hex_word_is_hex)
qed

end
