(* ===== verification/Checksum.thy ===== *)
theory Checksum
  imports Sha256
begin

text \<open>
  \<open>common/checksum.py\<close>: the fingerprints of texts, files and argument lists, and the
  framed checksum of an input mapping from which every execution key is made. The digest
  (\<open>hashlib.sha256(..).hexdigest()\<close>) is the argument \<open>h\<close>. The lemmas say what the
  framing determines: without unit separators in the keys the framed bytes determine the
  mapping; with them two different mappings share their bytes.
\<close>

section \<open>Definitions\<close>

definition FIELD_SEP :: char where "FIELD_SEP = char_of (31 :: nat)"
definition RECORD_SEP :: char where "RECORD_SEP = char_of (30 :: nat)"
definition ARGUMENT_SEP :: char where "ARGUMENT_SEP = char_of (0 :: nat)"

definition text_checksum :: "(bytes \<Rightarrow> text_str) \<Rightarrow> text_str \<Rightarrow> text_str" where
  "text_checksum h text = h text"

definition file_content_fingerprint :: "(bytes \<Rightarrow> text_str) \<Rightarrow> bytes \<Rightarrow> text_str" where
  "file_content_fingerprint h data = h data"

definition fingerprint_arguments :: "(bytes \<Rightarrow> text_str) \<Rightarrow> text_str list \<Rightarrow> text_str" where
  "fingerprint_arguments h arguments = text_checksum h (join_str [ARGUMENT_SEP] arguments)"

text \<open>The bytes one field feeds to \<open>digest.update\<close>, and the bytes of the whole mapping.\<close>

definition frame_field :: "text_str \<Rightarrow> text_str \<Rightarrow> bytes" where
  "frame_field key encoded =
     key @ [FIELD_SEP] @ dec_str (length encoded) @ [FIELD_SEP] @ encoded @ [RECORD_SEP]"

definition framed_bytes :: "(text_str \<times> text_str) list \<Rightarrow> bytes" where
  "framed_bytes input_data =
     concat (map (\<lambda>(key, value). frame_field key value) (sort_key fst input_data))"

definition checksum_input_data :: "(bytes \<Rightarrow> text_str) \<Rightarrow> (text_str \<times> text_str) list \<Rightarrow> text_str" where
  "checksum_input_data h input_data = h (framed_bytes input_data)"

section \<open>The framing of one field\<close>

lemma FIELD_SEP_not_digit [simp]: "FIELD_SEP \<notin> set (dec_str n)"
  using dec_str_digits [of FIELD_SEP n] by (auto simp: FIELD_SEP_def)

lemma split_first_sep:
  assumes "a @ c # r = b @ c # s" and "c \<notin> set a" and "c \<notin> set b"
  shows "a = b \<and> r = s"
proof -
  have "takeWhile (\<lambda>x. x \<noteq> c) (a @ c # r) = a" "takeWhile (\<lambda>x. x \<noteq> c) (b @ c # s) = b"
    using assms(2,3) by (induction a, auto) (induction b, auto)
  with assms(1) show ?thesis by auto
qed

lemma frame_field_inject:
  assumes eq: "frame_field k v @ r = frame_field k' v' @ s"
    and sep: "FIELD_SEP \<notin> set k" "FIELD_SEP \<notin> set k'"
  shows "k = k' \<and> v = v' \<and> r = s"
proof -
  from eq have "k @ FIELD_SEP # (dec_str (length v) @ FIELD_SEP # (v @ RECORD_SEP # r))
      = k' @ FIELD_SEP # (dec_str (length v') @ FIELD_SEP # (v' @ RECORD_SEP # s))"
    by (simp add: frame_field_def)
  from split_first_sep [OF this sep] have "k = k'"
    and rest: "dec_str (length v) @ FIELD_SEP # (v @ RECORD_SEP # r)
      = dec_str (length v') @ FIELD_SEP # (v' @ RECORD_SEP # s)" by auto
  from split_first_sep [OF rest] have "length v = length v'"
    and "v @ RECORD_SEP # r = v' @ RECORD_SEP # s" by auto
  with \<open>k = k'\<close> show ?thesis by simp
qed

lemma frame_field_not_Nil [simp]: "frame_field k v \<noteq> []"
  by (simp add: frame_field_def)

definition frame_all :: "(text_str \<times> text_str) list \<Rightarrow> bytes" where
  "frame_all ps = concat (map (\<lambda>(key, value). frame_field key value) ps)"

lemma frame_all_simps [simp]:
  "frame_all [] = []" "frame_all (p # ps) = frame_field (fst p) (snd p) @ frame_all ps"
  by (simp_all add: frame_all_def case_prod_beta)

lemma framed_bytes_frame_all: "framed_bytes d = frame_all (sort_key fst d)"
  by (simp add: framed_bytes_def frame_all_def)

definition sep_free :: "(text_str \<times> text_str) list \<Rightarrow> bool" where
  "sep_free d \<longleftrightarrow> (\<forall>p \<in> set d. FIELD_SEP \<notin> set (fst p))"

lemma frame_all_inject:
  "frame_all ps = frame_all qs \<Longrightarrow> sep_free ps \<Longrightarrow> sep_free qs \<Longrightarrow> ps = qs"
proof (induction ps arbitrary: qs)
  case Nil
  then show ?case by (cases qs) auto
next
  case (Cons p ps)
  then obtain q qs' where qs: "qs = q # qs'" by (cases qs) auto
  with Cons.prems have "fst p = fst q \<and> snd p = snd q \<and> frame_all ps = frame_all qs'"
    by (intro frame_field_inject) (auto simp: sep_free_def)
  with Cons qs show ?case by (auto simp: sep_free_def prod_eq_iff)
qed

section \<open>The framing of a mapping\<close>

lemma framed_bytes_inject:
  assumes "framed_bytes d = framed_bytes d'" and "sep_free d" and "sep_free d'"
  shows "sort_key fst d = sort_key fst d'"
  using assms by (intro frame_all_inject) (auto simp: framed_bytes_frame_all sep_free_def)

lemma sort_key_map_of:
  assumes "sort_key fst d = sort_key fst d'" and "distinct (map fst d)" and "distinct (map fst d')"
  shows "map_of d = map_of d'"
proof -
  have "set d = set d'" using assms(1) by (metis set_sort)
  then show ?thesis using assms(2,3) by (simp add: map_of_inject_set)
qed

lemma framed_bytes_map_of:
  assumes "framed_bytes d = framed_bytes d'" and "sep_free d" and "sep_free d'"
    and "distinct (map fst d)" and "distinct (map fst d')"
  shows "map_of d = map_of d'"
  using framed_bytes_inject sort_key_map_of assms by blast

text \<open>The order in which the mapping was built does not matter.\<close>

lemma framed_bytes_perm:
  assumes "set d = set d'" and "distinct (map fst d)" and "distinct (map fst d')"
  shows "framed_bytes d = framed_bytes d'"
proof -
  have "sort_key fst d = sort_key fst d'"
  proof (rule map_sorted_distinct_set_unique [of fst])
    show "inj_on fst (set (sort_key fst d) \<union> set (sort_key fst d'))"
      using assms by (simp add: distinct_map)
    show "distinct (map fst (sort_key fst d))" "distinct (map fst (sort_key fst d'))"
      using assms by (simp_all add: distinct_map)
  qed (simp_all add: assms(1))
  then show ?thesis by (simp add: framed_bytes_def)
qed

text \<open>The smallest key comes first in the bytes, followed by a unit separator.\<close>

lemma framed_bytes_first_key:
  assumes "k \<in> fst ` set d" and "\<And>k'. k' \<in> fst ` set d \<Longrightarrow> k \<le> k'"
  shows "\<exists>r. framed_bytes d = k @ FIELD_SEP # r"
proof -
  have ne: "sort_key fst d \<noteq> []" using assms(1) by (metis empty_iff image_is_empty set_empty set_sort)
  then obtain p ps where ps: "sort_key fst d = p # ps" by (cases "sort_key fst d") auto
  have "sorted (map fst (p # ps))" using sorted_sort_key [of fst d] by (simp add: ps)
  moreover have "k \<in> fst ` set (p # ps)" using assms(1) by (metis ps set_sort)
  ultimately have "fst p \<le> k" by auto
  moreover have "fst p \<in> fst ` set d" by (metis image_eqI list.set_intros(1) ps set_sort)
  ultimately have "fst p = k" using assms(2) by (metis order_antisym)
  then show ?thesis
    by (simp add: framed_bytes_frame_all ps frame_field_def)
qed

section \<open>Argument lists\<close>

lemma fingerprint_arguments_inject:
  assumes "h (join_str [ARGUMENT_SEP] xs) = h (join_str [ARGUMENT_SEP] ys)
             \<Longrightarrow> join_str [ARGUMENT_SEP] xs = join_str [ARGUMENT_SEP] ys"
    and "\<forall>x \<in> set xs. ARGUMENT_SEP \<notin> set x" and "\<forall>y \<in> set ys. ARGUMENT_SEP \<notin> set y"
    and "xs \<noteq> []" and "ys \<noteq> []"
    and "fingerprint_arguments h xs = fingerprint_arguments h ys"
  shows "xs = ys"
proof -
  from assms(1,6) have "join_str [ARGUMENT_SEP] xs = join_str [ARGUMENT_SEP] ys"
    by (simp add: fingerprint_arguments_def text_checksum_def)
  then show ?thesis using assms(2-5) by (intro join_str_inject) auto
qed

text \<open>An empty argument list and one empty argument join to the same text.\<close>

lemma fingerprint_arguments_empty: "fingerprint_arguments h [] = fingerprint_arguments h [[]]"
  by (simp add: fingerprint_arguments_def)

end
