(* ===== verification/Domain_Model.thy ===== *)
theory Domain_Model
  imports Checksum Complex_Main
begin

text \<open>
  The value objects of \<open>application/domain/model\<close>: execution kinds and states, cache modes and
  persistence depths, validated blob keys, artifacts, token usage, failures, client results and
  tags. An enum is a datatype with the \<open>.value\<close> text of each member and the constructor from
  a text (\<open>Enum(value)\<close>), which fails on every other text with \<open>ValueError\<close>.
\<close>

section \<open>Enumerations\<close>

datatype execution_kind = LOCAL_MANAGED | LOCAL_PASSTHROUGH | API | API_PASSTHROUGH

fun kind_value :: "execution_kind \<Rightarrow> text_str" where
  "kind_value LOCAL_MANAGED = ''local_managed''"
| "kind_value LOCAL_PASSTHROUGH = ''local_passthrough''"
| "kind_value API = ''api''"
| "kind_value API_PASSTHROUGH = ''api_passthrough''"

datatype execution_state = IN_PROGRESS | SUCCESS | STATE_FAILED

fun state_value :: "execution_state \<Rightarrow> text_str" where
  "state_value IN_PROGRESS = ''in_progress''"
| "state_value SUCCESS = ''success''"
| "state_value STATE_FAILED = ''failed''"

datatype artifact_status = PENDING | STORED | ARTIFACT_FAILED

fun status_value :: "artifact_status \<Rightarrow> text_str" where
  "status_value PENDING = ''pending''"
| "status_value STORED = ''stored''"
| "status_value ARTIFACT_FAILED = ''failed''"

datatype artifact_type =
    STDOUT | STDERR | OUTPUT_FILE
  | INPUT_CONTEXT | INPUT_PROMPT | INPUT_SYSTEM | INPUT_MESSAGES | INPUT_ARGS

fun type_value :: "artifact_type \<Rightarrow> text_str" where
  "type_value STDOUT = ''stdout''"
| "type_value STDERR = ''stderr''"
| "type_value OUTPUT_FILE = ''output_file''"
| "type_value INPUT_CONTEXT = ''input_context''"
| "type_value INPUT_PROMPT = ''input_prompt''"
| "type_value INPUT_SYSTEM = ''input_system''"
| "type_value INPUT_MESSAGES = ''input_messages''"
| "type_value INPUT_ARGS = ''input_args''"

datatype failure_reason = NONZERO_EXIT | CLIENT_ERROR

fun reason_value :: "failure_reason \<Rightarrow> text_str" where
  "reason_value NONZERO_EXIT = ''nonzero_exit''"
| "reason_value CLIENT_ERROR = ''client_error''"

text \<open>\<open>Enum(value)\<close>: the member with that value, \<open>ValueError\<close> when there is none.\<close>

fun enum_of :: "('e \<Rightarrow> text_str) \<Rightarrow> 'e list \<Rightarrow> text_str \<Rightarrow> exn + 'e" where
  "enum_of val [] v = Inl (Exn ValueError (v @ '' is not a valid member''))"
| "enum_of val (m # ms) v = (if val m = v then Inr m else enum_of val ms v)"

definition execution_kind_of :: "text_str \<Rightarrow> exn + execution_kind" where
  "execution_kind_of = enum_of kind_value [LOCAL_MANAGED, LOCAL_PASSTHROUGH, API, API_PASSTHROUGH]"

definition execution_state_of :: "text_str \<Rightarrow> exn + execution_state" where
  "execution_state_of = enum_of state_value [IN_PROGRESS, SUCCESS, STATE_FAILED]"

definition artifact_status_of :: "text_str \<Rightarrow> exn + artifact_status" where
  "artifact_status_of = enum_of status_value [PENDING, STORED, ARTIFACT_FAILED]"

definition artifact_type_of :: "text_str \<Rightarrow> exn + artifact_type" where
  "artifact_type_of = enum_of type_value
     [STDOUT, STDERR, OUTPUT_FILE, INPUT_CONTEXT, INPUT_PROMPT, INPUT_SYSTEM, INPUT_MESSAGES, INPUT_ARGS]"

definition failure_reason_of :: "text_str \<Rightarrow> exn + failure_reason" where
  "failure_reason_of = enum_of reason_value [NONZERO_EXIT, CLIENT_ERROR]"

lemma execution_kind_of_value [simp]: "execution_kind_of (kind_value k) = Inr k"
  by (cases k) (simp_all add: execution_kind_of_def)

lemma execution_state_of_value [simp]: "execution_state_of (state_value s) = Inr s"
  by (cases s) (simp_all add: execution_state_of_def)

lemma artifact_status_of_value [simp]: "artifact_status_of (status_value s) = Inr s"
  by (cases s) (simp_all add: artifact_status_of_def)

lemma artifact_type_of_value [simp]: "artifact_type_of (type_value t) = Inr t"
  by (cases t) (simp_all add: artifact_type_of_def)

lemma failure_reason_of_value [simp]: "failure_reason_of (reason_value r) = Inr r"
  by (cases r) (simp_all add: failure_reason_of_def)

lemma enum_of_value: "enum_of val ms v = Inr m \<Longrightarrow> val m = v"
  by (induction ms) (auto split: if_splits)

lemma state_value_inject [simp]: "state_value s = state_value t \<longleftrightarrow> s = t"
  by (metis execution_state_of_value sum.inject(2))

lemma status_value_inject [simp]: "status_value s = status_value t \<longleftrightarrow> s = t"
  by (metis artifact_status_of_value sum.inject(2))

lemma type_value_inject [simp]: "type_value s = type_value t \<longleftrightarrow> s = t"
  by (metis artifact_type_of_value sum.inject(2))

lemma kind_value_inject [simp]: "kind_value s = kind_value t \<longleftrightarrow> s = t"
  by (metis execution_kind_of_value sum.inject(2))

definition INPUT_ARTIFACT_TYPES :: "artifact_type list" where
  "INPUT_ARTIFACT_TYPES = [INPUT_CONTEXT, INPUT_PROMPT, INPUT_SYSTEM, INPUT_MESSAGES, INPUT_ARGS]"

datatype cache_mode = MODE_CACHE | MODE_OFFLINE | MODE_REFRESH

fun mode_value :: "cache_mode \<Rightarrow> text_str" where
  "mode_value MODE_CACHE = ''cache''"
| "mode_value MODE_OFFLINE = ''offline''"
| "mode_value MODE_REFRESH = ''refresh''"

text \<open>The persistence depths are one ordered choice, each a superset of the one below.\<close>

datatype persistence_depth = DEPTH_METER | DEPTH_CACHE | DEPTH_DATASET

fun depth_rank :: "persistence_depth \<Rightarrow> nat" where
  "depth_rank DEPTH_METER = 0"
| "depth_rank DEPTH_CACHE = 1"
| "depth_rank DEPTH_DATASET = 2"

instantiation persistence_depth :: linorder
begin

definition less_eq_persistence_depth :: "persistence_depth \<Rightarrow> persistence_depth \<Rightarrow> bool" where
  "less_eq_persistence_depth a b \<longleftrightarrow> depth_rank a \<le> depth_rank b"

definition less_persistence_depth :: "persistence_depth \<Rightarrow> persistence_depth \<Rightarrow> bool" where
  "less_persistence_depth a b \<longleftrightarrow> depth_rank a < depth_rank b"

instance
proof
  fix a b c :: persistence_depth
  show "a < b \<longleftrightarrow> a \<le> b \<and> \<not> b \<le> a"
    by (auto simp: less_eq_persistence_depth_def less_persistence_depth_def)
  show "a \<le> a" by (simp add: less_eq_persistence_depth_def)
  show "a \<le> b \<Longrightarrow> b \<le> c \<Longrightarrow> a \<le> c" by (simp add: less_eq_persistence_depth_def)
  show "a \<le> b \<Longrightarrow> b \<le> a \<Longrightarrow> a = b"
    by (cases a; cases b) (simp_all add: less_eq_persistence_depth_def)
  show "a \<le> b \<or> b \<le> a" by (simp add: less_eq_persistence_depth_def) linarith
qed

end

definition stores_output :: "persistence_depth \<Rightarrow> bool" where
  "stores_output d \<longleftrightarrow> d \<in> {DEPTH_CACHE, DEPTH_DATASET}"

definition stores_input :: "persistence_depth \<Rightarrow> bool" where
  "stores_input d \<longleftrightarrow> d = DEPTH_DATASET"

lemma stores_output_mono: "d \<le> d' \<Longrightarrow> stores_output d \<Longrightarrow> stores_output d'"
  by (cases d; cases d') (auto simp: stores_output_def less_eq_persistence_depth_def)

lemma stores_input_output: "stores_input d \<Longrightarrow> stores_output d"
  by (simp add: stores_input_def stores_output_def)

section \<open>Blob keys\<close>

definition blob_key_char :: "char \<Rightarrow> bool" where
  "blob_key_char c \<longleftrightarrow>
     c \<in> set ''ABCDEFGHIJKLMNOPQRSTUVWXYZabcdefghijklmnopqrstuvwxyz0123456789._-''"

definition blob_key_ok :: "text_str \<Rightarrow> bool" where
  "blob_key_ok v \<longleftrightarrow>
     v \<notin> {''.'', ''..''} \<and> list_all blob_key_char v \<and> 1 \<le> length v \<and> length v \<le> 255"

definition BlobKey :: "text_str \<Rightarrow> exn + text_str" where
  "BlobKey v = (if blob_key_ok v then Inr v else Inl (Exn ValueError (''invalid blob key '' @ v)))"

definition blob_key_for_execution :: "(bytes \<Rightarrow> text_str) \<Rightarrow> text_str \<Rightarrow> bytes \<Rightarrow> exn + text_str" where
  "blob_key_for_execution h execution_id content_bytes =
     BlobKey (execution_id @ ''_'' @ file_content_fingerprint h content_bytes)"

lemma BlobKey_Inr [simp]: "BlobKey v = Inr k \<longleftrightarrow> blob_key_ok v \<and> k = v"
  by (auto simp: BlobKey_def)

lemma is_hex_blob_key_char: "is_hex c \<Longrightarrow> blob_key_char c"
  by (auto simp: is_hex_def blob_key_char_def)

text \<open>
  The shape of a version 4 UUID text (\<open>str(uuid.uuid4())\<close>): 36 characters, hexadecimal digits
  and hyphens.
\<close>

definition uuid_shaped :: "text_str \<Rightarrow> bool" where
  "uuid_shaped u \<longleftrightarrow> length u = 36 \<and> (\<forall>c \<in> set u. is_hex c \<or> c = CHR ''-'')"

context hex_digest
begin

lemma for_execution_ok:
  assumes "uuid_shaped u"
  shows "blob_key_ok (u @ ''_'' @ digest m)"
proof -
  have dash: "blob_key_char (CHR ''-'')" by (simp add: blob_key_char_def)
  have "\<forall>c \<in> set u. blob_key_char c"
    using assms dash is_hex_blob_key_char unfolding uuid_shaped_def by blast
  moreover have "\<forall>c \<in> set (digest m). blob_key_char c"
    using digest_hex is_hex_blob_key_char by blast
  moreover have "blob_key_char (CHR ''_'')" by (simp add: blob_key_char_def)
  ultimately have chars: "\<forall>c \<in> set (u @ ''_'' @ digest m). blob_key_char c" by auto
  have len: "length (u @ ''_'' @ digest m) = 101"
    using assms length_digest by (simp add: uuid_shaped_def)
  have short: "x \<noteq> v" if "length x = 101" "length v < 101" for x v :: text_str
    using that by auto
  have "length ''.'' < (101 :: nat)" "length ''..'' < (101 :: nat)" by simp_all
  with short [OF len] have "u @ ''_'' @ digest m \<notin> {''.'', ''..''}" by blast
  with chars len show ?thesis
    unfolding blob_key_ok_def list_all_iff by (simp only: len) simp
qed

end

text \<open>A key of the store has no path separator, so joined to the root it stays one component.\<close>

lemma blob_key_ok_no_separator:
  "blob_key_ok v \<Longrightarrow> CHR ''/'' \<notin> set v \<and> CHR 0x5C \<notin> set v \<and> v \<noteq> ''..'' \<and> v \<noteq> []"
proof -
  assume ok: "blob_key_ok v"
  have "\<not> blob_key_char (CHR ''/'')" "\<not> blob_key_char (CHR 0x5C)"
    by (simp_all add: blob_key_char_def)
  with ok show ?thesis unfolding blob_key_ok_def list_all_iff by (metis One_nat_def insertI1
    insertI2 list.size(3) not_less_eq_eq zero_le)
qed

section \<open>Artifacts\<close>

record artifact =
  at_type :: artifact_type
  at_blob_key :: text_str
  at_size_bytes :: nat
  at_name :: "text_str option"
  at_encoding :: text_str
  at_content :: "bytes option"
  at_status :: artifact_status
  at_persisted_at :: "text_str option"
  at_status_detail :: "text_str option"

definition encoding_for :: "bytes \<Rightarrow> text_str" where
  "encoding_for content = (if is_utf8 content then ''utf-8'' else ''binary'')"

definition artifact_from_content ::
  "artifact_type \<Rightarrow> text_str \<Rightarrow> bytes \<Rightarrow> text_str option \<Rightarrow> artifact_status \<Rightarrow> artifact" where
  "artifact_from_content artifact_type blob_key content name status =
     \<lparr>at_type = artifact_type, at_blob_key = blob_key, at_size_bytes = length content, at_name = name,
      at_encoding = encoding_for content, at_content = Some content, at_status = status,
      at_persisted_at = None, at_status_detail = None\<rparr>"

definition is_stored :: "artifact \<Rightarrow> bool" where
  "is_stored a \<longleftrightarrow> at_status a = STORED"

definition is_hydrated :: "artifact \<Rightarrow> bool" where
  "is_hydrated a \<longleftrightarrow> at_content a \<noteq> None"

section \<open>Usage, failures, client results, tags\<close>

text \<open>
  The raw usage block is carried opaquely, as the text \<open>json.dumps(thaw(raw))\<close>; \<open>cost_usd\<close> is
  carried and never computed with.
\<close>

record token_usage =
  tu_input_tokens :: "int option"
  tu_output_tokens :: "int option"
  tu_cache_read_tokens :: "int option"
  tu_cache_write_tokens :: "int option"
  tu_reasoning_tokens :: "int option"
  tu_cost_usd :: "rat option"
  tu_raw :: text_str

record execution_failure =
  fl_reason :: failure_reason
  fl_message :: text_str
  fl_exit_code :: "int option"

record generated_file =
  gf_name :: text_str
  gf_content :: bytes

record client_run_result =
  cr_exit_code :: int
  cr_stdout :: text_str
  cr_stderr :: text_str
  cr_files :: "generated_file list"
  cr_token_usage :: "token_usage option"

definition succeeded :: "client_run_result \<Rightarrow> bool" where
  "succeeded r \<longleftrightarrow> cr_exit_code r = 0"

definition outcome :: "client_run_result \<Rightarrow> execution_state" where
  "outcome r = (if succeeded r then SUCCESS else STATE_FAILED)"

definition result_failure :: "client_run_result \<Rightarrow> execution_failure option" where
  "result_failure r =
     (if succeeded r then None
      else Some \<lparr>fl_reason = NONZERO_EXIT,
                 fl_message = ''client exited with status '' @ int_str (cr_exit_code r),
                 fl_exit_code = Some (cr_exit_code r)\<rparr>)"

definition normalize_tags :: "text_str list \<Rightarrow> text_str list" where
  "normalize_tags raw_tags =
     sorted_set (set (map strip_str (filter (\<lambda>tag. tag \<noteq> [] \<and> strip_str tag \<noteq> []) raw_tags)))"

lemma normalize_tags_set [simp]:
  "set (normalize_tags ts) = strip_str ` {t \<in> set ts. strip_str t \<noteq> []}"
  by (auto simp: normalize_tags_def strip_str_def)

lemma normalize_tags_sorted: "sorted (normalize_tags ts)"
  and normalize_tags_distinct: "distinct (normalize_tags ts)"
  by (simp_all add: normalize_tags_def)

end
