(* ===== verification/Call_Identity.thy ===== *)
theory Call_Identity
  imports Domain_Model
begin

text \<open>
  \<open>application/domain/model/identity\<close> and \<open>application/usecase/call_identity_building.py\<close>: the
  four call identities, the key each generates, their assembly from a command's keyed inputs, and
  the opaque codec that stores them. A mapping of input files is an association list (a dict in
  insertion order), a \<open>frozenset\<close> a set of strings. The lemmas show what a key determines:
  the kind always, and every field of a managed call up to the separators its text may hide.
\<close>

section \<open>Identities and their keys\<close>

record managed_call_identity =
  mi_client :: text_str
  mi_model :: text_str
  mi_effort :: text_str
  mi_context_fingerprint :: text_str
  mi_prompt_fingerprint :: text_str
  mi_input_file_fingerprints :: "(text_str \<times> text_str) list"
  mi_client_args_fingerprint :: "text_str option"
  mi_system_fingerprint :: "text_str option"
  mi_grants :: "text_str set"
  mi_allow_paths :: "text_str set"

record passthrough_call_identity =
  pi_client :: text_str
  pi_native_args_fingerprint :: text_str

record api_call_identity =
  ai_provider :: text_str
  ai_model :: text_str
  ai_context_fingerprint :: text_str
  ai_prompt_fingerprint :: text_str
  ai_system_fingerprint :: "text_str option"
  ai_effort :: text_str

record api_passthrough_call_identity =
  bi_client :: text_str
  bi_body_fingerprint :: text_str

datatype call_identity =
    ManagedCallIdentity managed_call_identity
  | PassthroughCallIdentity passthrough_call_identity
  | ApiCallIdentity api_call_identity
  | ApiPassthroughCallIdentity api_passthrough_call_identity

fun summary_client :: "call_identity \<Rightarrow> text_str" where
  "summary_client (ManagedCallIdentity i) = mi_client i"
| "summary_client (PassthroughCallIdentity i) = pi_client i"
| "summary_client (ApiCallIdentity i) = ai_provider i"
| "summary_client (ApiPassthroughCallIdentity i) = bi_client i"

fun summary_model :: "call_identity \<Rightarrow> text_str" where
  "summary_model (ManagedCallIdentity i) = mi_model i"
| "summary_model (PassthroughCallIdentity i) = []"
| "summary_model (ApiCallIdentity i) = ai_model i"
| "summary_model (ApiPassthroughCallIdentity i) = []"

text \<open>A text option that Python tests for truth: absent and empty are the same.\<close>

definition truthy :: "text_str option \<Rightarrow> text_str option" where
  "truthy x = (case x of Some s \<Rightarrow> if s = [] then None else Some s | None \<Rightarrow> None)"

definition set_if_some :: "text_str \<Rightarrow> text_str option \<Rightarrow> (text_str \<times> text_str) list \<Rightarrow> (text_str \<times> text_str) list" where
  "set_if_some k v d = (case v of None \<Rightarrow> d | Some x \<Rightarrow> dict_set k x d)"

definition file_key :: "text_str \<Rightarrow> text_str" where
  "file_key path = ''file:'' @ path"

definition args_key :: "text_str \<Rightarrow> text_str" where
  "args_key fp = ''args:'' @ fp"

definition joined_set :: "text_str set \<Rightarrow> text_str option" where
  "joined_set S = (if S = {} then None else Some (join_str '','' (sorted_set S)))"

definition set_file_keys :: "(text_str \<times> text_str) list \<Rightarrow> (text_str \<times> text_str) list \<Rightarrow> (text_str \<times> text_str) list" where
  "set_file_keys files d = fold (\<lambda>(path, fp). dict_set (file_key path) fp) (sort_key fst files) d"

definition managed_key_data :: "managed_call_identity \<Rightarrow> (text_str \<times> text_str) list" where
  "managed_key_data i =
     (let key_data =
            [(''kind'', kind_value LOCAL_MANAGED), (''client'', mi_client i), (''model'', mi_model i),
             (''effort'', mi_effort i), (''context'', mi_context_fingerprint i),
             (''prompt'', mi_prompt_fingerprint i)];
          key_data = set_if_some ''system'' (truthy (mi_system_fingerprint i)) key_data;
          key_data = set_file_keys (mi_input_file_fingerprints i) key_data;
          key_data = (case mi_client_args_fingerprint i of None \<Rightarrow> key_data
                      | Some fp \<Rightarrow> dict_set (args_key fp) fp key_data);
          key_data = set_if_some ''grants'' (joined_set (mi_grants i)) key_data
      in set_if_some ''allow_paths'' (joined_set (mi_allow_paths i)) key_data)"

definition passthrough_key_data :: "passthrough_call_identity \<Rightarrow> (text_str \<times> text_str) list" where
  "passthrough_key_data i =
     [(''kind'', kind_value LOCAL_PASSTHROUGH), (''client'', pi_client i),
      (''args'', pi_native_args_fingerprint i)]"

definition api_key_data :: "api_call_identity \<Rightarrow> (text_str \<times> text_str) list" where
  "api_key_data i =
     set_if_some ''system'' (truthy (ai_system_fingerprint i))
       [(''kind'', kind_value API), (''provider'', ai_provider i), (''model'', ai_model i),
        (''context'', ai_context_fingerprint i), (''prompt'', ai_prompt_fingerprint i),
        (''effort'', ai_effort i)]"

definition api_passthrough_key_data :: "api_passthrough_call_identity \<Rightarrow> (text_str \<times> text_str) list" where
  "api_passthrough_key_data i =
     [(''kind'', kind_value API_PASSTHROUGH), (''client'', bi_client i),
      (''body'', bi_body_fingerprint i)]"

fun key_data :: "call_identity \<Rightarrow> (text_str \<times> text_str) list" where
  "key_data (ManagedCallIdentity i) = managed_key_data i"
| "key_data (PassthroughCallIdentity i) = passthrough_key_data i"
| "key_data (ApiCallIdentity i) = api_key_data i"
| "key_data (ApiPassthroughCallIdentity i) = api_passthrough_key_data i"

definition generate_key :: "(bytes \<Rightarrow> text_str) \<Rightarrow> call_identity \<Rightarrow> text_str" where
  "generate_key h i = checksum_input_data h (key_data i)"

fun identity_kind :: "call_identity \<Rightarrow> execution_kind" where
  "identity_kind (ManagedCallIdentity i) = LOCAL_MANAGED"
| "identity_kind (PassthroughCallIdentity i) = LOCAL_PASSTHROUGH"
| "identity_kind (ApiCallIdentity i) = API"
| "identity_kind (ApiPassthroughCallIdentity i) = API_PASSTHROUGH"

section \<open>Assembly from a command\<close>

text \<open>The protocol \<open>KeyedCallInputs\<close>; the commands are records that extend it.\<close>

record keyed_inputs =
  ki_client :: text_str
  ki_model :: text_str
  ki_effort :: text_str
  ki_context :: text_str
  ki_prompt :: text_str
  ki_user_system_prompt :: "text_str option"
  ki_input_file_paths :: "text_str list"
  ki_allow_paths :: "text_str list"
  ki_client_args :: "text_str list"
  ki_grants :: "text_str list"

definition from_keyed_inputs ::
  "(bytes \<Rightarrow> text_str) \<Rightarrow> 'a keyed_inputs_scheme \<Rightarrow> (text_str \<times> text_str) list \<Rightarrow> managed_call_identity" where
  "from_keyed_inputs h ki input_file_fingerprints =
     \<lparr>mi_client = ki_client ki,
      mi_model = ki_model ki,
      mi_effort = ki_effort ki,
      mi_context_fingerprint = text_checksum h (ki_context ki),
      mi_prompt_fingerprint = text_checksum h (ki_prompt ki),
      mi_input_file_fingerprints = input_file_fingerprints,
      mi_client_args_fingerprint =
        (if ki_client_args ki = [] then None else Some (fingerprint_arguments h (ki_client_args ki))),
      mi_system_fingerprint = map_option (text_checksum h) (truthy (ki_user_system_prompt ki)),
      mi_grants = set (ki_grants ki),
      mi_allow_paths = set (ki_allow_paths ki)\<rparr>"

text \<open>The dict comprehension over the input paths; the fingerprint port may raise.\<close>

fun fingerprint_files ::
  "(text_str \<Rightarrow> ('w, text_str) prog) \<Rightarrow> text_str list \<Rightarrow> (text_str \<times> text_str) list
     \<Rightarrow> ('w, (text_str \<times> text_str) list) prog" where
  "fingerprint_files fp [] acc = ret acc"
| "fingerprint_files fp (p # ps) acc =
     bindP (fp p) (\<lambda>v. fingerprint_files fp ps (dict_set p v acc))"

definition build_call_identity ::
  "(bytes \<Rightarrow> text_str) \<Rightarrow> (text_str \<Rightarrow> ('w, text_str) prog) \<Rightarrow> 'a keyed_inputs_scheme
     \<Rightarrow> ('w, managed_call_identity) prog" where
  "build_call_identity h fp ki =
     bindP (fingerprint_files fp (ki_input_file_paths ki) []) (\<lambda>fps. ret (from_keyed_inputs h ki fps))"

lemma steps_fingerprint_files [steps_rules]:
  "preorder_rel R \<Longrightarrow> (\<And>p. steps R (fp p)) \<Longrightarrow> steps R (fingerprint_files fp ps acc)"
  by (induction ps arbitrary: acc) (auto intro!: steps_rules)

lemma steps_build_call_identity [steps_rules]:
  "preorder_rel R \<Longrightarrow> (\<And>p. steps R (fp p)) \<Longrightarrow> steps R (build_call_identity h fp ki)"
  unfolding build_call_identity_def by (intro steps_rules) auto

section \<open>The codec\<close>

text \<open>
  JSON values as \<open>json.dumps\<close> and \<open>json.loads\<close> exchange them, for the shapes the codec uses.
  The text form is abstracted: \<open>loads\<close> after \<open>dumps\<close> gives the value back.
\<close>

datatype json = JNull | JString text_str | JArray "json list" | JObject "(text_str \<times> json) list"

definition json_opt :: "text_str option \<Rightarrow> json" where
  "json_opt x = (case x of None \<Rightarrow> JNull | Some s \<Rightarrow> JString s)"

definition json_set :: "text_str set \<Rightarrow> json" where
  "json_set S = JArray (map JString (sorted_set S))"

definition json_dict :: "(text_str \<times> text_str) list \<Rightarrow> json" where
  "json_dict d = JObject (map (\<lambda>(k, v). (k, JString v)) d)"

fun identity_fields :: "call_identity \<Rightarrow> (text_str \<times> json) list" where
  "identity_fields (ManagedCallIdentity i) =
     [(''client'', JString (mi_client i)), (''model'', JString (mi_model i)),
      (''effort'', JString (mi_effort i)),
      (''context_fingerprint'', JString (mi_context_fingerprint i)),
      (''prompt_fingerprint'', JString (mi_prompt_fingerprint i)),
      (''input_file_fingerprints'', json_dict (mi_input_file_fingerprints i)),
      (''client_args_fingerprint'', json_opt (mi_client_args_fingerprint i)),
      (''system_fingerprint'', json_opt (mi_system_fingerprint i)),
      (''grants'', json_set (mi_grants i)), (''allow_paths'', json_set (mi_allow_paths i))]"
| "identity_fields (PassthroughCallIdentity i) =
     [(''client'', JString (pi_client i)),
      (''native_args_fingerprint'', JString (pi_native_args_fingerprint i))]"
| "identity_fields (ApiCallIdentity i) =
     [(''provider'', JString (ai_provider i)), (''model'', JString (ai_model i)),
      (''context_fingerprint'', JString (ai_context_fingerprint i)),
      (''prompt_fingerprint'', JString (ai_prompt_fingerprint i)),
      (''system_fingerprint'', json_opt (ai_system_fingerprint i)),
      (''effort'', JString (ai_effort i))]"
| "identity_fields (ApiPassthroughCallIdentity i) =
     [(''client'', JString (bi_client i)), (''body_fingerprint'', JString (bi_body_fingerprint i))]"

definition effort_field :: "call_identity \<Rightarrow> text_str" where
  "effort_field i = (case map_of (identity_fields i) ''effort'' of Some (JString s) \<Rightarrow> s | _ \<Rightarrow> [])"

definition serialize_call_identity :: "call_identity \<Rightarrow> json" where
  "serialize_call_identity i =
     JObject [(''kind'', JString (kind_value (identity_kind i))),
              (''client'', JString (summary_client i)), (''model'', JString (summary_model i)),
              (''effort'', JString (effort_field i)), (''fields'', JObject (identity_fields i))]"

text \<open>
  Reading a field back. A field of a JSON shape the codec never writes is refused here, where
  Python would build an object with it; stored identities are only ever the codec's own.
\<close>

definition bad_payload :: "exn_class \<Rightarrow> exn" where
  "bad_payload c = Exn c ''cannot deserialize call identity''"

definition get_text :: "(text_str \<times> json) list \<Rightarrow> text_str \<Rightarrow> text_str option" where
  "get_text d k = (case map_of d k of Some (JString s) \<Rightarrow> Some s | _ \<Rightarrow> None)"

definition get_opt :: "(text_str \<times> json) list \<Rightarrow> text_str \<Rightarrow> text_str option option" where
  "get_opt d k =
     (case map_of d k of None \<Rightarrow> Some None | Some JNull \<Rightarrow> Some None
      | Some (JString s) \<Rightarrow> Some (Some s) | _ \<Rightarrow> None)"

definition get_text_default :: "(text_str \<times> json) list \<Rightarrow> text_str \<Rightarrow> text_str \<Rightarrow> text_str option" where
  "get_text_default d k dflt =
     (case map_of d k of None \<Rightarrow> Some dflt | Some (JString s) \<Rightarrow> Some s | _ \<Rightarrow> None)"

fun json_texts :: "json list \<Rightarrow> text_str list option" where
  "json_texts [] = Some []"
| "json_texts (JString s # js) = map_option ((#) s) (json_texts js)"
| "json_texts (_ # js) = None"

fun json_pairs :: "(text_str \<times> json) list \<Rightarrow> (text_str \<times> text_str) list option" where
  "json_pairs [] = Some []"
| "json_pairs ((k, JString s) # js) = map_option ((#) (k, s)) (json_pairs js)"
| "json_pairs (_ # js) = None"

definition get_set :: "(text_str \<times> json) list \<Rightarrow> text_str \<Rightarrow> text_str set option" where
  "get_set d k =
     (case map_of d k of None \<Rightarrow> Some {} | Some (JArray js) \<Rightarrow> map_option set (json_texts js)
      | _ \<Rightarrow> None)"

definition get_dict :: "(text_str \<times> json) list \<Rightarrow> text_str \<Rightarrow> (text_str \<times> text_str) list option" where
  "get_dict d k =
     (case map_of d k of None \<Rightarrow> Some [] | Some (JObject js) \<Rightarrow> json_pairs js | _ \<Rightarrow> None)"

definition option_exn :: "exn \<Rightarrow> 'a option \<Rightarrow> exn + 'a" where
  "option_exn e x = (case x of None \<Rightarrow> Inl e | Some a \<Rightarrow> Inr a)"

lemma option_exn_simps [simp]:
  "option_exn e (Some a) = Inr a" "option_exn e None = Inl e" "option_exn e x = Inr a \<longleftrightarrow> x = Some a"
  by (simp_all add: option_exn_def split: option.splits)

definition construct_identity :: "execution_kind \<Rightarrow> (text_str \<times> json) list \<Rightarrow> call_identity option" where
  "construct_identity k d =
     (case k of
        LOCAL_MANAGED \<Rightarrow>
          Option.bind (get_text d ''client'') (\<lambda>client.
          Option.bind (get_text d ''model'') (\<lambda>model.
          Option.bind (get_text d ''effort'') (\<lambda>effort.
          Option.bind (get_text d ''context_fingerprint'') (\<lambda>context_fingerprint.
          Option.bind (get_text d ''prompt_fingerprint'') (\<lambda>prompt_fingerprint.
          Option.bind (get_dict d ''input_file_fingerprints'') (\<lambda>files.
          Option.bind (get_opt d ''client_args_fingerprint'') (\<lambda>client_args.
          Option.bind (get_opt d ''system_fingerprint'') (\<lambda>system.
          Option.bind (get_set d ''grants'') (\<lambda>grants.
          Option.bind (get_set d ''allow_paths'') (\<lambda>allow_paths.
          Some (ManagedCallIdentity
            \<lparr>mi_client = client, mi_model = model, mi_effort = effort,
             mi_context_fingerprint = context_fingerprint, mi_prompt_fingerprint = prompt_fingerprint,
             mi_input_file_fingerprints = files, mi_client_args_fingerprint = client_args,
             mi_system_fingerprint = system, mi_grants = grants, mi_allow_paths = allow_paths\<rparr>)))))))))))
      | LOCAL_PASSTHROUGH \<Rightarrow>
          Option.bind (get_text d ''client'') (\<lambda>client.
          Option.bind (get_text d ''native_args_fingerprint'') (\<lambda>fp.
          Some (PassthroughCallIdentity \<lparr>pi_client = client, pi_native_args_fingerprint = fp\<rparr>)))
      | API \<Rightarrow>
          Option.bind (get_text d ''provider'') (\<lambda>provider.
          Option.bind (get_text d ''model'') (\<lambda>model.
          Option.bind (get_text d ''context_fingerprint'') (\<lambda>context_fingerprint.
          Option.bind (get_text d ''prompt_fingerprint'') (\<lambda>prompt_fingerprint.
          Option.bind (get_opt d ''system_fingerprint'') (\<lambda>system.
          Option.bind (get_text_default d ''effort'' []) (\<lambda>effort.
          Some (ApiCallIdentity
            \<lparr>ai_provider = provider, ai_model = model, ai_context_fingerprint = context_fingerprint,
             ai_prompt_fingerprint = prompt_fingerprint, ai_system_fingerprint = system,
             ai_effort = effort\<rparr>)))))))
      | API_PASSTHROUGH \<Rightarrow>
          Option.bind (get_text d ''client'') (\<lambda>client.
          Option.bind (get_text d ''body_fingerprint'') (\<lambda>fp.
          Some (ApiPassthroughCallIdentity \<lparr>bi_client = client, bi_body_fingerprint = fp\<rparr>))))"

definition deserialize_call_identity :: "json \<Rightarrow> exn + call_identity" where
  "deserialize_call_identity payload =
     (case payload of
        JObject d \<Rightarrow>
          (case map_of d ''kind'' of
             Some (JString v) \<Rightarrow>
               (case execution_kind_of v of
                  Inl e \<Rightarrow> Inl (bad_payload ValueError)
                | Inr k \<Rightarrow>
                    (case map_of d ''fields'' of
                       None \<Rightarrow> option_exn (bad_payload TypeError) (construct_identity k [])
                     | Some (JObject flds) \<Rightarrow> option_exn (bad_payload TypeError) (construct_identity k flds)
                     | Some _ \<Rightarrow> Inl (bad_payload AttributeError)))
           | Some (JArray _) \<Rightarrow> Inl (bad_payload TypeError)
           | Some (JObject _) \<Rightarrow> Inl (bad_payload TypeError)
           | _ \<Rightarrow> Inl (bad_payload ValueError))
      | _ \<Rightarrow> Inl (bad_payload AttributeError))"

text \<open>The row shape of the SQLite adapter: the query columns and the opaque remainder.\<close>

record serialized_identity =
  si_kind :: text_str
  si_client :: text_str
  si_model :: text_str
  si_effort :: text_str
  si_identity_json :: json

definition json_text_at :: "json \<Rightarrow> text_str \<Rightarrow> text_str" where
  "json_text_at j k =
     (case j of JObject d \<Rightarrow> (case map_of d k of Some (JString s) \<Rightarrow> s | _ \<Rightarrow> []) | _ \<Rightarrow> [])"

definition serialize_identity :: "call_identity \<Rightarrow> serialized_identity" where
  "serialize_identity i =
     (let payload = serialize_call_identity i
      in \<lparr>si_kind = json_text_at payload ''kind'', si_client = json_text_at payload ''client'',
          si_model = json_text_at payload ''model'', si_effort = json_text_at payload ''effort'',
          si_identity_json = payload\<rparr>)"

definition deserialize_identity :: "serialized_identity \<Rightarrow> exn + call_identity" where
  "deserialize_identity s = deserialize_call_identity (si_identity_json s)"

section \<open>Round trip of the codec\<close>

lemma json_texts_map [simp]: "json_texts (map JString xs) = Some xs"
  by (induction xs) auto

lemma json_pairs_map [simp]: "json_pairs (map (\<lambda>(k, v). (k, JString v)) xs) = Some xs"
  by (induction xs) auto

lemmas get_field_defs = get_text_def get_opt_def get_text_default_def get_set_def get_dict_def
  json_opt_def json_set_def json_dict_def

text \<open>A frozenset is finite.\<close>

fun identity_finite :: "call_identity \<Rightarrow> bool" where
  "identity_finite (ManagedCallIdentity i) = (finite (mi_grants i) \<and> finite (mi_allow_paths i))"
| "identity_finite _ = True"

lemma construct_identity_fields:
  "identity_finite i \<Longrightarrow> construct_identity (identity_kind i) (identity_fields i) = Some i"
  by (cases i) (auto simp: construct_identity_def get_field_defs split: option.splits)

lemma deserialize_serialize:
  "identity_finite i \<Longrightarrow> deserialize_call_identity (serialize_call_identity i) = Inr i"
  by (simp add: deserialize_call_identity_def serialize_call_identity_def construct_identity_fields)

lemma deserialize_serialize_identity [simp]:
  "identity_finite i \<Longrightarrow> deserialize_identity (serialize_identity i) = Inr i"
  by (simp add: deserialize_identity_def serialize_identity_def deserialize_serialize Let_def)

lemma serialize_identity_columns [simp]:
  "si_kind (serialize_identity i) = kind_value (identity_kind i)"
  "si_client (serialize_identity i) = summary_client i"
  "si_model (serialize_identity i) = summary_model i"
  "si_identity_json (serialize_identity i) = serialize_call_identity i"
  by (simp_all add: serialize_identity_def serialize_call_identity_def json_text_at_def)

section \<open>What the key data hold\<close>

lemma map_of_dict_set [simp]: "map_of (dict_set k v d) = (map_of d)(k \<mapsto> v)"
  by (rule update_conv')

lemma distinct_dict_set [simp]: "distinct (map fst d) \<Longrightarrow> distinct (map fst (dict_set k v d))"
  by (rule distinct_update)

lemma map_of_set_if_some: "map_of (set_if_some k v d) x = (if x = k \<and> v \<noteq> None then v else map_of d x)"
  by (simp add: set_if_some_def split: option.splits)

lemma distinct_set_if_some: "distinct (map fst d) \<Longrightarrow> distinct (map fst (set_if_some k v d))"
  by (simp add: set_if_some_def split: option.splits)

lemma map_of_fold_files_other:
  "(\<And>p. x \<noteq> file_key p) \<Longrightarrow>
   map_of (fold (\<lambda>(path, fp). dict_set (file_key path) fp) ps d) x = map_of d x"
  by (induction ps arbitrary: d) auto

lemma file_key_inject [simp]: "file_key p = file_key q \<longleftrightarrow> p = q"
  by (simp add: file_key_def)

lemma map_of_fold_files:
  "distinct (map fst ps) \<Longrightarrow>
   map_of (fold (\<lambda>(path, fp). dict_set (file_key path) fp) ps d) (file_key q)
     = (case map_of ps q of Some v \<Rightarrow> Some v | None \<Rightarrow> map_of d (file_key q))"
proof (induction ps arbitrary: d)
  case (Cons p ps)
  then show ?case
    by (cases p; cases "q = fst p") (force simp: map_of_eq_None_iff split: option.splits)+
qed simp

lemma distinct_fold_files:
  "distinct (map fst d) \<Longrightarrow>
   distinct (map fst (fold (\<lambda>(path, fp). dict_set (file_key path) fp) ps d))"
  by (induction ps arbitrary: d) auto

lemma map_of_sort_key: "distinct (map fst d) \<Longrightarrow> map_of (sort_key fst d) = map_of d"
  by (subst map_of_inject_set) (simp_all add: distinct_map)

lemma map_of_set_file_keys:
  "distinct (map fst files) \<Longrightarrow>
   map_of (set_file_keys files d) (file_key q)
     = (case map_of files q of Some v \<Rightarrow> Some v | None \<Rightarrow> map_of d (file_key q))"
  unfolding set_file_keys_def
  by (subst map_of_fold_files) (simp_all add: distinct_map map_of_sort_key)

lemma map_of_set_file_keys_other:
  "(\<And>p. x \<noteq> file_key p) \<Longrightarrow> map_of (set_file_keys files d) x = map_of d x"
  unfolding set_file_keys_def by (rule map_of_fold_files_other)

lemma distinct_set_file_keys:
  "distinct (map fst d) \<Longrightarrow> distinct (map fst (set_file_keys files d))"
  unfolding set_file_keys_def by (rule distinct_fold_files)

lemma key_data_distinct: "distinct (map fst (key_data i))"
  by (cases i)
    (auto simp: managed_key_data_def passthrough_key_data_def api_key_data_def
       api_passthrough_key_data_def Let_def
       intro!: distinct_set_if_some distinct_set_file_keys distinct_dict_set split: option.splits)

text \<open>The lookup of each key a managed identity sets.\<close>

lemma managed_key_data_lookup:
  "map_of (managed_key_data i) ''kind'' = Some ''local_managed''"
  "map_of (managed_key_data i) ''client'' = Some (mi_client i)"
  "map_of (managed_key_data i) ''model'' = Some (mi_model i)"
  "map_of (managed_key_data i) ''effort'' = Some (mi_effort i)"
  "map_of (managed_key_data i) ''context'' = Some (mi_context_fingerprint i)"
  "map_of (managed_key_data i) ''prompt'' = Some (mi_prompt_fingerprint i)"
  "map_of (managed_key_data i) ''system'' = truthy (mi_system_fingerprint i)"
  "map_of (managed_key_data i) ''grants'' = joined_set (mi_grants i)"
  "map_of (managed_key_data i) ''allow_paths'' = joined_set (mi_allow_paths i)"
  by (auto simp: managed_key_data_def Let_def map_of_set_if_some map_of_set_file_keys_other
        args_key_def file_key_def split: option.splits)

lemma managed_key_data_file:
  "distinct (map fst (mi_input_file_fingerprints i)) \<Longrightarrow>
   map_of (managed_key_data i) (file_key q) = map_of (mi_input_file_fingerprints i) q"
  by (auto simp: managed_key_data_def Let_def map_of_set_if_some map_of_set_file_keys
        args_key_def split: option.splits) (simp_all add: file_key_def)

lemma managed_key_data_args:
  "map_of (managed_key_data i) (args_key fp)
     = (if mi_client_args_fingerprint i = Some fp then Some fp else None)"
  by (auto simp: managed_key_data_def Let_def map_of_set_if_some map_of_set_file_keys_other
        args_key_def file_key_def split: option.splits)

section \<open>Keys of two kinds\<close>

definition dkeys :: "(text_str \<times> text_str) list \<Rightarrow> text_str set" where
  "dkeys d = fst ` set d"

lemma FIELD_SEP_char: "FIELD_SEP = CHR 0x1F"
  unfolding FIELD_SEP_def by code_simp

definition min_key :: "(text_str \<times> text_str) list \<Rightarrow> text_str \<Rightarrow> bool" where
  "min_key d k \<longleftrightarrow> k \<in> dkeys d \<and> (\<forall>k' \<in> dkeys d. k \<le> k')"

lemma min_key_exists: "d \<noteq> [] \<Longrightarrow> \<exists>k. min_key d k"
  unfolding min_key_def dkeys_def by (intro exI [of _ "Min (fst ` set d)"]) simp

lemma min_key_bytes: "min_key d k \<Longrightarrow> \<exists>r. framed_bytes d = k @ FIELD_SEP # r"
  unfolding min_key_def dkeys_def by (rule framed_bytes_first_key) auto

lemma in_keys_iff: "k \<in> dkeys d \<longleftrightarrow> map_of d k \<noteq> None"
  by (simp add: dkeys_def map_of_eq_None_iff)

lemma dkeys_simps [simp]: "dkeys [] = {}" "dkeys (p # d) = insert (fst p) (dkeys d)"
  by (simp_all add: dkeys_def)

lemma dkeys_dict_set [simp]: "dkeys (dict_set k v d) = insert k (dkeys d)"
  by (auto simp: in_keys_iff split: if_splits)

lemma dkeys_set_if_some: "dkeys (set_if_some x v d) = (if v = None then dkeys d else insert x (dkeys d))"
  by (auto simp: set_if_some_def split: option.splits)

lemma set_file_keys_keys: "k \<in> dkeys (set_file_keys files d) \<Longrightarrow> k \<in> dkeys d \<or> (\<exists>p. k = file_key p)"
  unfolding in_keys_iff by (metis map_of_set_file_keys_other)

lemma managed_keys:
  "k \<in> dkeys (managed_key_data i) \<Longrightarrow>
   k \<in> {''kind'', ''client'', ''model'', ''effort'', ''context'', ''prompt'', ''system'', ''grants'', ''allow_paths''}
   \<or> (\<exists>p. k = file_key p) \<or> (\<exists>fp. k = args_key fp)"
  unfolding managed_key_data_def Let_def
  by (auto simp: dkeys_set_if_some dest!: set_file_keys_keys split: option.splits if_splits)

lemma min_key_managed:
  assumes "min_key (managed_key_data i) k"
  shows "k = ''client'' \<or> k = ''allow_paths'' \<or> (\<exists>fp. k = args_key fp)"
proof -
  have "''client'' \<in> dkeys (managed_key_data i)"
    by (simp only: in_keys_iff managed_key_data_lookup) simp
  with assms have "k \<le> ''client''" and "k \<in> dkeys (managed_key_data i)"
    by (simp_all only: min_key_def)
  moreover have "\<not> ''kind'' \<le> (''client'' :: text_str)" "\<not> ''model'' \<le> (''client'' :: text_str)"
    "\<not> ''effort'' \<le> (''client'' :: text_str)" "\<not> ''context'' \<le> (''client'' :: text_str)"
    "\<not> ''prompt'' \<le> (''client'' :: text_str)" "\<not> ''system'' \<le> (''client'' :: text_str)"
    "\<not> ''grants'' \<le> (''client'' :: text_str)" by code_simp+
  moreover have "\<not> file_key p \<le> ''client''" for p
    by (simp add: file_key_def less_char_def)
  ultimately show ?thesis using managed_keys by blast
qed

lemma min_keyI:
  "min_key d k \<Longrightarrow> k0 \<in> dkeys d \<Longrightarrow> (\<And>x. x \<in> dkeys d \<Longrightarrow> x = k0 \<or> \<not> x \<le> k0) \<Longrightarrow> k = k0"
  unfolding min_key_def by blast

lemma min_key_passthrough: "min_key (passthrough_key_data i) k \<Longrightarrow> k = ''args''"
proof (erule min_keyI)
  have "\<not> ''kind'' \<le> (''args'' :: text_str)" "\<not> ''client'' \<le> (''args'' :: text_str)" by code_simp+
  then show "x = ''args'' \<or> \<not> x \<le> ''args''" if "x \<in> dkeys (passthrough_key_data i)" for x
    using that unfolding passthrough_key_data_def dkeys_simps fst_conv by blast
qed (simp add: passthrough_key_data_def)

lemma min_key_api: "min_key (api_key_data i) k \<Longrightarrow> k = ''context''"
proof (erule min_keyI)
  have "\<not> ''kind'' \<le> (''context'' :: text_str)" "\<not> ''provider'' \<le> (''context'' :: text_str)"
    "\<not> ''model'' \<le> (''context'' :: text_str)" "\<not> ''prompt'' \<le> (''context'' :: text_str)"
    "\<not> ''effort'' \<le> (''context'' :: text_str)" "\<not> ''system'' \<le> (''context'' :: text_str)" by code_simp+
  then show "x = ''context'' \<or> \<not> x \<le> ''context''" if "x \<in> dkeys (api_key_data i)" for x
    using that unfolding api_key_data_def dkeys_set_if_some dkeys_simps fst_conv
    by (metis empty_iff insert_iff)
qed (simp add: api_key_data_def dkeys_set_if_some)

lemma min_key_api_passthrough: "min_key (api_passthrough_key_data i) k \<Longrightarrow> k = ''body''"
proof (erule min_keyI)
  have "\<not> ''kind'' \<le> (''body'' :: text_str)" "\<not> ''client'' \<le> (''body'' :: text_str)" by code_simp+
  then show "x = ''body'' \<or> \<not> x \<le> ''body''" if "x \<in> dkeys (api_passthrough_key_data i)" for x
    using that unfolding api_passthrough_key_data_def dkeys_simps fst_conv by blast
qed (simp add: api_passthrough_key_data_def)

lemma key_data_not_Nil [simp]: "key_data i \<noteq> []"
proof -
  have "map_of (key_data i) ''kind'' \<noteq> None"
    by (cases i) (simp_all add: passthrough_key_data_def api_key_data_def api_passthrough_key_data_def
      managed_key_data_lookup map_of_set_if_some)
  then show ?thesis by auto
qed
definition key_bytes :: "call_identity \<Rightarrow> bytes" where
  "key_bytes i = framed_bytes (key_data i)"

lemma generate_key_bytes: "generate_key h i = h (key_bytes i)"
  by (simp add: generate_key_def checksum_input_data_def key_bytes_def)

lemma key_bytes_start:
  "\<exists>k r. key_bytes i = k @ FIELD_SEP # r \<and>
     (case i of
        ManagedCallIdentity _ \<Rightarrow> k = ''client'' \<or> k = ''allow_paths'' \<or> (\<exists>fp. k = args_key fp)
      | PassthroughCallIdentity _ \<Rightarrow> k = ''args''
      | ApiCallIdentity _ \<Rightarrow> k = ''context''
      | ApiPassthroughCallIdentity _ \<Rightarrow> k = ''body'')"
proof -
  obtain k where k: "min_key (key_data i) k" using min_key_exists key_data_not_Nil by blast
  with min_key_bytes obtain r where "key_bytes i = k @ FIELD_SEP # r" by (auto simp: key_bytes_def)
  with k show ?thesis
    by (cases i) (auto dest: min_key_managed min_key_passthrough min_key_api min_key_api_passthrough)
qed

text \<open>The kinds never share their bytes, whatever the paths, texts and fingerprints are.\<close>

lemma key_bytes_kind: "key_bytes i = key_bytes j \<Longrightarrow> identity_kind i = identity_kind j"
  using key_bytes_start [of i] key_bytes_start [of j]
  by (cases i; cases j) (auto simp: args_key_def FIELD_SEP_char)

section \<open>What a managed key determines\<close>

definition set_separable :: "text_str set \<Rightarrow> bool" where
  "set_separable S \<longleftrightarrow> finite S \<and> (\<forall>x \<in> S. CHR '','' \<notin> set x)"

definition managed_separable :: "managed_call_identity \<Rightarrow> bool" where
  "managed_separable i \<longleftrightarrow>
     distinct (map fst (mi_input_file_fingerprints i))
     \<and> (\<forall>p \<in> fst ` set (mi_input_file_fingerprints i). FIELD_SEP \<notin> set p)
     \<and> (\<forall>fp. mi_client_args_fingerprint i = Some fp \<longrightarrow> FIELD_SEP \<notin> set fp)
     \<and> mi_system_fingerprint i \<noteq> Some []
     \<and> set_separable (mi_grants i) \<and> set_separable (mi_allow_paths i)"

lemma joined_set_inject:
  assumes "joined_set S = joined_set T" and "set_separable S" and "set_separable T"
  shows "S = T"
proof (cases "S = {} \<or> T = {}")
  case True
  with assms(1) show ?thesis by (auto simp: joined_set_def split: if_splits)
next
  case False
  with assms have "join_str '','' (sorted_set S) = join_str '','' (sorted_set T)"
    by (simp add: joined_set_def)
  then have "sorted_set S = sorted_set T"
    using assms(2,3) False by (intro join_str_inject) (auto simp: set_separable_def)
  then show ?thesis using assms(2,3) by (metis set_separable_def set_sorted_list_of_set)
qed

lemma sep_free_managed:
  assumes "managed_separable i"
  shows "sep_free (managed_key_data i)"
proof -
  have "FIELD_SEP \<notin> set k" if k: "k \<in> dkeys (managed_key_data i)" for k
  proof -
    from managed_keys [OF k] consider (word) "FIELD_SEP \<notin> set k"
      | (path) q where "k = file_key q" | (arg) fp where "k = args_key fp"
      by (auto simp: FIELD_SEP_char)
    then show ?thesis
    proof cases
      case (path q)
      with k assms have "map_of (mi_input_file_fingerprints i) q \<noteq> None"
        by (simp add: in_keys_iff managed_separable_def managed_key_data_file)
      with assms have "FIELD_SEP \<notin> set q"
        unfolding managed_separable_def by (metis in_keys_iff dkeys_def)
      with path show ?thesis by (simp add: file_key_def FIELD_SEP_char)
    next
      case (arg fp)
      with k have "mi_client_args_fingerprint i = Some fp"
        by (simp add: in_keys_iff managed_key_data_args split: if_splits)
      with assms arg show ?thesis by (simp add: managed_separable_def args_key_def FIELD_SEP_char)
    qed simp
  qed
  then show ?thesis by (auto simp: sep_free_def dkeys_def)
qed

text \<open>Two managed identities are the same call: their files agree as mappings.\<close>

definition same_call :: "managed_call_identity \<Rightarrow> managed_call_identity \<Rightarrow> bool" where
  "same_call i j \<longleftrightarrow>
     i = j\<lparr>mi_input_file_fingerprints := mi_input_file_fingerprints i\<rparr>
     \<and> map_of (mi_input_file_fingerprints i) = map_of (mi_input_file_fingerprints j)"

lemma managed_key_bytes_inject:
  assumes eq: "key_bytes (ManagedCallIdentity i) = key_bytes (ManagedCallIdentity j)"
    and i: "managed_separable i" and j: "managed_separable j"
  shows "same_call i j"
proof -
  have m: "map_of (managed_key_data i) x = map_of (managed_key_data j) x" for x
    using framed_bytes_map_of [OF _ sep_free_managed [OF i] sep_free_managed [OF j]] eq
      key_data_distinct [of "ManagedCallIdentity i"] key_data_distinct [of "ManagedCallIdentity j"]
    by (simp add: key_bytes_def)
  have "truthy (mi_system_fingerprint i) = truthy (mi_system_fingerprint j)"
    using m [of "''system''"] by (simp only: managed_key_data_lookup)
  then have sys: "mi_system_fingerprint i = mi_system_fingerprint j"
    using i j by (auto simp: managed_separable_def truthy_def split: option.splits if_splits)
  have sets: "mi_grants i = mi_grants j" "mi_allow_paths i = mi_allow_paths j"
    using m [of "''grants''"] m [of "''allow_paths''"] i j
    by (auto simp only: managed_key_data_lookup managed_separable_def dest: joined_set_inject)
  have files: "map_of (mi_input_file_fingerprints i) = map_of (mi_input_file_fingerprints j)"
    using m [of "file_key _"] i j by (auto simp: managed_separable_def managed_key_data_file fun_eq_iff)
  have args: "mi_client_args_fingerprint i = mi_client_args_fingerprint j"
    using m [of "args_key _"] unfolding managed_key_data_args
    by (metis not_None_eq option.distinct(1))
  have "mi_client i = mi_client j" "mi_model i = mi_model j" "mi_effort i = mi_effort j"
    "mi_context_fingerprint i = mi_context_fingerprint j"
    "mi_prompt_fingerprint i = mi_prompt_fingerprint j"
    using m [of "''client''"] m [of "''model''"] m [of "''effort''"] m [of "''context''"] m [of "''prompt''"]
    by (simp_all only: managed_key_data_lookup option.inject)
  with sys sets files args show ?thesis
    by (cases i; cases j) (simp add: same_call_def)
qed

lemma same_call_key_bytes:
  assumes "same_call i j" and "managed_separable i" and "managed_separable j"
  shows "key_bytes (ManagedCallIdentity i) = key_bytes (ManagedCallIdentity j)"
proof -
  have files: "sort_key fst (mi_input_file_fingerprints i) = sort_key fst (mi_input_file_fingerprints j)"
  proof (rule map_sorted_distinct_set_unique [of fst])
    have "set (mi_input_file_fingerprints i) = set (mi_input_file_fingerprints j)"
      using assms by (metis managed_separable_def map_of_inject_set same_call_def)
    then show "set (sort_key fst (mi_input_file_fingerprints i)) = set (sort_key fst (mi_input_file_fingerprints j))"
      "inj_on fst (set (sort_key fst (mi_input_file_fingerprints i))
         \<union> set (sort_key fst (mi_input_file_fingerprints j)))"
      using assms(2,3) by (simp_all add: managed_separable_def distinct_map)
    show "distinct (map fst (sort_key fst (mi_input_file_fingerprints i)))"
      "distinct (map fst (sort_key fst (mi_input_file_fingerprints j)))"
      using assms(2,3) by (simp_all add: managed_separable_def distinct_map)
  qed simp_all
  have "managed_key_data i = managed_key_data (j\<lparr>mi_input_file_fingerprints := mi_input_file_fingerprints i\<rparr>)"
    using assms(1) by (simp only: same_call_def)
  also have "\<dots> = managed_key_data j"
    by (simp add: managed_key_data_def set_file_keys_def files)
  finally show ?thesis by (simp add: key_bytes_def)
qed

section \<open>Properties\<close>

text \<open>C1: the cache key of a call folds its kind in. If identities of two different kinds ever have
  the same key, the two framed byte strings that were hashed are different and collide under the
  digest; no choice of paths, texts or fingerprints makes the framing itself ambiguous.\<close>

theorem key_kinds_never_shared:
  assumes "identity_kind i \<noteq> identity_kind j"
  shows "key_bytes i \<noteq> key_bytes j
    \<and> (generate_key h i = generate_key h j \<longleftrightarrow> h (key_bytes i) = h (key_bytes j))"
  using key_bytes_kind [of i j] assms by (auto simp: generate_key_bytes)

definition sample_passthrough :: call_identity where
  "sample_passthrough =
     PassthroughCallIdentity \<lparr>pi_client = ''c'', pi_native_args_fingerprint = ''aa''\<rparr>"

definition sample_relay :: call_identity where
  "sample_relay = ApiPassthroughCallIdentity \<lparr>bi_client = ''c'', bi_body_fingerprint = ''aa''\<rparr>"

theorem key_kinds_never_shared_witness:
  "key_bytes sample_passthrough \<noteq> key_bytes sample_relay
   \<and> (generate_key rev sample_passthrough = generate_key rev sample_relay
        \<longleftrightarrow> rev (key_bytes sample_passthrough) = rev (key_bytes sample_relay))"
  by (rule key_kinds_never_shared) (simp add: sample_passthrough_def sample_relay_def)

text \<open>C2: a managed key addresses exactly one call. For identities whose folder and grant names hold
  no comma and whose file paths hold no unit separator, and a digest that does not collide on the
  two framed byte strings, the keys are equal if and only if the calls are the same: equal client,
  model, effort, fingerprints, grant set and folder set, and the same files as a mapping from path
  to fingerprint, whatever the order they were declared in.\<close>

theorem managed_key_iff_same_call:
  assumes "managed_separable i" and "managed_separable j"
    and "h (key_bytes (ManagedCallIdentity i)) = h (key_bytes (ManagedCallIdentity j))
           \<longrightarrow> key_bytes (ManagedCallIdentity i) = key_bytes (ManagedCallIdentity j)"
  shows "generate_key h (ManagedCallIdentity i) = generate_key h (ManagedCallIdentity j)
           \<longleftrightarrow> same_call i j"
  using assms managed_key_bytes_inject same_call_key_bytes by (metis generate_key_bytes)

definition sample_managed :: "text_str list \<Rightarrow> (text_str \<times> text_str) list \<Rightarrow> managed_call_identity" where
  "sample_managed folders files =
     \<lparr>mi_client = ''claude'', mi_model = ''m'', mi_effort = [], mi_context_fingerprint = ''aa'',
      mi_prompt_fingerprint = ''bb'', mi_input_file_fingerprints = files,
      mi_client_args_fingerprint = Some ''cc'', mi_system_fingerprint = None, mi_grants = {},
      mi_allow_paths = set folders\<rparr>"

lemma sample_managed_separable:
  "managed_separable (sample_managed [''/x''] [(''f'', ''11''), (''g'', ''22'')])"
  "managed_separable (sample_managed [''/x''] [(''g'', ''22''), (''f'', ''11'')])"
  by (simp_all add: managed_separable_def sample_managed_def set_separable_def FIELD_SEP_char)

theorem managed_key_iff_same_call_witness:
  "generate_key (\<lambda>b. b) (ManagedCallIdentity (sample_managed [''/x''] [(''f'', ''11''), (''g'', ''22'')]))
     = generate_key (\<lambda>b. b) (ManagedCallIdentity (sample_managed [''/x''] [(''g'', ''22''), (''f'', ''11'')]))
   \<longleftrightarrow> same_call (sample_managed [''/x''] [(''f'', ''11''), (''g'', ''22'')])
         (sample_managed [''/x''] [(''g'', ''22''), (''f'', ''11'')])"
  by (rule managed_key_iff_same_call [OF sample_managed_separable]) simp

lemma managed_key_data_folders:
  "joined_set A = joined_set B \<Longrightarrow>
   managed_key_data (i\<lparr>mi_allow_paths := A\<rparr>) = managed_key_data (i\<lparr>mi_allow_paths := B\<rparr>)"
  by (simp add: managed_key_data_def)

lemma same_call_folders: "same_call i j \<Longrightarrow> mi_allow_paths i = mi_allow_paths j"
  unfolding same_call_def by (metis managed_call_identity.select_convs(10) managed_call_identity.surjective managed_call_identity.update_convs(6))

lemma sample_managed_folders: "sample_managed fs files = (sample_managed [] files)\<lparr>mi_allow_paths := set fs\<rparr>"
  by (simp add: sample_managed_def)

lemma joined_set_comma: "joined_set (set [''/x,/y'']) = joined_set (set [''/x'', ''/y''])"
  by code_simp

text \<open>the comma in a folder name is not escaped in the key: the set of the one folder
  \<open>/x,/y\<close> and the set of the two folders \<open>/x\<close> and \<open>/y\<close> are different calls and have the same
  key, whatever the digest is.\<close>

theorem comma_in_folder_shares_key:
  "generate_key h (ManagedCallIdentity (sample_managed [''/x,/y''] files))
     = generate_key h (ManagedCallIdentity (sample_managed [''/x'', ''/y''] files))
   \<and> \<not> same_call (sample_managed [''/x,/y''] files) (sample_managed [''/x'', ''/y''] files)"
proof -
  have "\<not> same_call (sample_managed [''/x,/y''] files) (sample_managed [''/x'', ''/y''] files)"
    by (auto dest!: same_call_folders simp: sample_managed_def)
  moreover have "managed_key_data (sample_managed [''/x,/y''] files)
      = managed_key_data (sample_managed [''/x'', ''/y''] files)"
    unfolding sample_managed_folders [of "_ # _"] by (rule managed_key_data_folders [OF joined_set_comma])
  ultimately show ?thesis by (simp only: generate_key_def key_data.simps simp_thms)
qed

text \<open>C3: the stored form of an identity reads back as the identity itself, so a key recomputed from
  the store is the key the row was addressed by; the query columns are the ones the identity
  reports.\<close>

theorem identity_codec_round_trip:
  assumes "identity_finite i"
  shows "deserialize_identity (serialize_identity i) = Inr i
    \<and> si_kind (serialize_identity i) = kind_value (identity_kind i)
    \<and> si_client (serialize_identity i) = summary_client i
    \<and> si_model (serialize_identity i) = summary_model i"
  using assms by simp

theorem identity_codec_round_trip_witness:
  "deserialize_identity (serialize_identity (ManagedCallIdentity (sample_managed [''/x''] [])))
     = Inr (ManagedCallIdentity (sample_managed [''/x''] []))
   \<and> si_kind (serialize_identity (ManagedCallIdentity (sample_managed [''/x''] [])))
       = kind_value (identity_kind (ManagedCallIdentity (sample_managed [''/x''] [])))
   \<and> si_client (serialize_identity (ManagedCallIdentity (sample_managed [''/x''] [])))
       = summary_client (ManagedCallIdentity (sample_managed [''/x''] []))
   \<and> si_model (serialize_identity (ManagedCallIdentity (sample_managed [''/x''] [])))
       = summary_model (ManagedCallIdentity (sample_managed [''/x''] []))"
  by (rule identity_codec_round_trip) (simp add: sample_managed_def)

end
