(* ===== verification/Run_Command.thy ===== *)
theory Run_Command
  imports Call_Identity
begin

text \<open>
  The commands of the run and probe use cases and the aggregate they produce:
  \<open>RunMlExecutionCommand\<close>, \<open>ProbeCommand\<close>, the cacheability rule they share
  (\<open>domain/service/cacheability.py\<close>), the requests handed to the client ports, and
  \<open>MlExecution\<close>. The commands extend the record of keyed inputs, as they satisfy its protocol.
\<close>

section \<open>Cacheability and commands\<close>

definition is_call_uncacheable :: "text_str list \<Rightarrow> bool \<Rightarrow> bool" where
  "is_call_uncacheable allow_paths scan_trust \<longleftrightarrow> allow_paths \<noteq> [] \<and> \<not> scan_trust"

record run_command = keyed_inputs +
  rc_execution_kind :: execution_kind
  rc_scan_trust :: bool
  rc_native_args :: "text_str list"
  rc_raw_body :: bytes
  rc_forward_headers :: "(text_str \<times> text_str) list"
  rc_cache_mode :: cache_mode
  rc_persistence_depth :: persistence_depth
  rc_record_on_error :: bool
  rc_tags :: "text_str list"
  rc_session_id :: "text_str option"

definition is_uncacheable :: "run_command \<Rightarrow> bool" where
  "is_uncacheable c =
     (if rc_execution_kind c = API then False
      else if rc_execution_kind c = LOCAL_PASSTHROUGH then False
      else if rc_execution_kind c = API_PASSTHROUGH then False
      else is_call_uncacheable (ki_allow_paths c) (rc_scan_trust c))"

definition should_persist :: "run_command \<Rightarrow> bool \<Rightarrow> bool" where
  "should_persist c success =
     (if \<not> stores_output (rc_persistence_depth c) then False else success \<or> rc_record_on_error c)"

record probe_command = keyed_inputs +
  pc_scan_trust :: bool

definition probe_is_uncacheable :: "probe_command \<Rightarrow> bool" where
  "probe_is_uncacheable c = is_call_uncacheable (ki_allow_paths c) (pc_scan_trust c)"

text \<open>The probe's view of a command: the keyed inputs and the scan trust.\<close>

definition probe_of :: "run_command \<Rightarrow> probe_command" where
  "probe_of c = keyed_inputs.extend (keyed_inputs.truncate c) \<lparr>pc_scan_trust = rc_scan_trust c\<rparr>"

lemma probe_uncacheable_agrees:
  "rc_execution_kind c = LOCAL_MANAGED \<Longrightarrow> probe_is_uncacheable (probe_of c) = is_uncacheable c"
  by (simp add: probe_is_uncacheable_def is_uncacheable_def probe_of_def keyed_inputs.defs)

section \<open>Requests to the client ports\<close>

record managed_local_request =
  ml_model :: text_str
  ml_effort :: text_str
  ml_context :: text_str
  ml_prompt :: text_str
  ml_user_system_prompt :: "text_str option"
  ml_allowed_read_paths :: "text_str list"
  ml_add_dir_paths :: "text_str list"
  ml_client_args :: "text_str list"
  ml_grants :: "text_str set"

record passthrough_request =
  pr_native_args :: "text_str list"

record api_passthrough_request =
  ar_raw_body :: bytes
  ar_forward_headers :: "(text_str \<times> text_str) list"

record ml_request =
  mq_model :: text_str
  mq_effort :: text_str
  mq_context :: text_str
  mq_prompt :: text_str
  mq_input_file_paths :: "text_str list"
  mq_allow_paths :: "text_str list"
  mq_client_args :: "text_str list"
  mq_grants :: "text_str set"
  mq_user_system_prompt :: "text_str option"

section \<open>The execution aggregate\<close>

text \<open>A \<open>datetime\<close> is represented by its ISO text.\<close>

record ml_execution =
  ex_call_identity :: call_identity
  ex_execution_state :: execution_state
  ex_execution_kind :: execution_kind
  ex_output_persisted :: bool
  ex_execution_id :: text_str
  ex_input_persisted :: bool
  ex_artifacts :: "artifact list"
  ex_token_usage :: "token_usage option"
  ex_failure :: "execution_failure option"
  ex_superseded_at :: "text_str option"

definition has_failed_persistence :: "ml_execution \<Rightarrow> bool" where
  "has_failed_persistence e \<longleftrightarrow> (\<exists>a \<in> set (ex_artifacts e). at_status a = ARTIFACT_FAILED)"

end
