(* ===== verification/Execution_Repository.thy ===== *)
theory Execution_Repository
  imports Run_Command
begin

text \<open>
  \<open>persistence/sqlite/execution_repository.py\<close> over the tables of
  \<open>migrations/0001.initial-schema.sql\<close>. A table is the list of its rows in the order of their
  row ids; a fresh row id is one above the largest (SQLite's rule for \<open>INTEGER PRIMARY KEY\<close>).
  Columns that the code parses are texts, so a corrupted row is a value of the model;
  \<open>None\<close> in a JSON column is a text that \<open>json.loads\<close> rejects. A transaction body is a program
  on the tables; \<open>write_transaction\<close> commits it or rolls it back. The environment says which
  connection, statement or commit fails, with which exception, and whether the commit had landed.
\<close>

section \<open>Tables\<close>

record exec_row =
  er_id :: nat
  er_key :: text_str
  er_kind :: text_str
  er_state :: text_str
  er_output_persisted :: bool
  er_superseded_at :: "text_str option"
  er_failure_reason :: "text_str option"
  er_failure_message :: "text_str option"
  er_failure_exit_code :: "int option"
  er_created_at :: text_str
  er_execution_id :: "text_str option"

record artifact_row =
  af_id :: nat
  af_execution_id :: nat
  af_type :: text_str
  af_name :: "text_str option"
  af_encoding :: text_str
  af_blob_key :: text_str
  af_size_bytes :: nat
  af_status :: text_str
  af_persisted_at :: "text_str option"
  af_status_detail :: "text_str option"

record usage_row =
  us_execution_id :: nat
  us_input_tokens :: "int option"
  us_output_tokens :: "int option"
  us_cache_read_tokens :: "int option"
  us_cache_write_tokens :: "int option"
  us_reasoning_tokens :: "int option"
  us_cost_usd :: "rat option"
  us_raw_json :: "text_str option"

record identity_row =
  id_key :: text_str
  id_kind :: text_str
  id_client :: text_str
  id_model :: text_str
  id_effort :: text_str
  id_identity_json :: "json option"

record db =
  db_executions :: "exec_row list"
  db_artifacts :: "artifact_row list"
  db_usage :: "usage_row list"
  db_tags :: "(nat \<times> text_str) list"
  db_identities :: "identity_row list"

definition empty_db :: db where
  "empty_db = \<lparr>db_executions = [], db_artifacts = [], db_usage = [], db_tags = [], db_identities = []\<rparr>"

text \<open>The environment of the repository, and the store with the count of connections made so far.\<close>

datatype db_fault = Connect_Fault exn | Statement_Fault bool exn

record db_env =
  de_digest :: "bytes \<Rightarrow> text_str"
  de_fault :: "nat \<Rightarrow> db_fault option"
  de_now :: "nat \<Rightarrow> text_str"
  de_uuid :: "nat \<Rightarrow> text_str"
  de_iso_ok :: "text_str \<Rightarrow> bool"

record db_store =
  ds_db :: db
  ds_ops :: nat

section \<open>Connections, transactions, error translation\<close>

definition connect_error :: "exn \<Rightarrow> exn" where
  "connect_error e =
     (if exn_class_of e \<in> {SqliteIntegrityError, SqliteOperationalError, SqliteDatabaseError, SqliteError, OSError}
      then Exn StoreUnavailable (''cache database is unavailable: '' @ exn_message e) else e)"

definition raise_translated :: "exn \<Rightarrow> exn" where
  "raise_translated e =
     (case exn_class_of e of
        SqliteIntegrityError \<Rightarrow> Exn StoreConsistencyError (''store integrity violation: '' @ exn_message e)
      | SqliteOperationalError \<Rightarrow>
          if contains_str ''locked'' (lower_str (exn_message e))
          then Exn StoreLocked (''cache database is locked: '' @ exn_message e)
          else Exn StoreUnavailable (''cache database operation failed: '' @ exn_message e)
      | SqliteDatabaseError \<Rightarrow> Exn StoreCorrupt (''cache database image is malformed: '' @ exn_message e)
      | SqliteError \<Rightarrow> Exn StoreUnavailable (''cache database error: '' @ exn_message e)
      | _ \<Rightarrow> e)"

definition write_transaction :: "db_env \<Rightarrow> (nat \<Rightarrow> (db, 'a) prog) \<Rightarrow> (db_store, 'a) prog" where
  "write_transaction E body =
     (\<lambda>s. let n = ds_ops s; s' = s\<lparr>ds_ops := Suc n\<rparr>
          in case de_fault E n of
               Some (Connect_Fault e) \<Rightarrow> (Inl (connect_error e), s')
             | Some (Statement_Fault landed e) \<Rightarrow>
                 (case body n (ds_db s) of
                    (Inl e', _) \<Rightarrow> (Inl (raise_translated e'), s')
                  | (Inr a, d) \<Rightarrow> (Inl (raise_translated e), if landed then s'\<lparr>ds_db := d\<rparr> else s'))
             | None \<Rightarrow>
                 (case body n (ds_db s) of
                    (Inl e', _) \<Rightarrow> (Inl (raise_translated e'), s')
                  | (Inr a, d) \<Rightarrow> (Inr a, s'\<lparr>ds_db := d\<rparr>)))"

definition reading :: "db_env \<Rightarrow> (nat \<Rightarrow> db \<Rightarrow> exn + 'a) \<Rightarrow> (db_store, 'a) prog" where
  "reading E query =
     (\<lambda>s. let n = ds_ops s; s' = s\<lparr>ds_ops := Suc n\<rparr>
          in case de_fault E n of
               Some (Connect_Fault e) \<Rightarrow> (Inl (connect_error e), s')
             | Some (Statement_Fault _ e) \<Rightarrow> (Inl (raise_translated e), s')
             | None \<Rightarrow>
                 (case query n (ds_db s) of
                    Inl e \<Rightarrow> (Inl (raise_translated e), s')
                  | Inr a \<Rightarrow> (Inr a, s')))"

section \<open>Queries\<close>

definition key_rows :: "db \<Rightarrow> text_str \<Rightarrow> exec_row list" where
  "key_rows d key = filter (\<lambda>r. er_key r = key) (db_executions d)"

definition row_current :: "exec_row \<Rightarrow> bool" where
  "row_current r \<longleftrightarrow> er_state r = state_value SUCCESS \<and> er_output_persisted r \<and> er_superseded_at r = None"

definition last_opt :: "'a list \<Rightarrow> 'a option" where
  "last_opt xs = (if xs = [] then None else Some (last xs))"

definition current_row :: "db \<Rightarrow> text_str \<Rightarrow> exec_row option" where
  "current_row d key = last_opt (filter row_current (key_rows d key))"

definition row_artifacts :: "db \<Rightarrow> nat \<Rightarrow> artifact_row list" where
  "row_artifacts d row_id = filter (\<lambda>a. af_execution_id a = row_id) (db_artifacts d)"

definition find_row :: "db \<Rightarrow> text_str \<Rightarrow> exec_row option" where
  "find_row d execution_id = find (\<lambda>r. er_execution_id r = Some execution_id) (db_executions d)"

definition fresh_id :: "nat list \<Rightarrow> nat" where
  "fresh_id ids = Suc (fold max ids 0)"

section \<open>Reconstruction\<close>

definition load_artifact :: "artifact_row \<Rightarrow> exn + artifact" where
  "load_artifact a =
     (case artifact_type_of (af_type a) of Inl e \<Rightarrow> Inl e | Inr t \<Rightarrow>
      case BlobKey (af_blob_key a) of Inl e \<Rightarrow> Inl e | Inr k \<Rightarrow>
      case artifact_status_of (af_status a) of Inl e \<Rightarrow> Inl e | Inr st \<Rightarrow>
      Inr \<lparr>at_type = t, at_blob_key = k, at_size_bytes = af_size_bytes a, at_name = af_name a,
           at_encoding = af_encoding a, at_content = None, at_status = st,
           at_persisted_at = af_persisted_at a, at_status_detail = af_status_detail a\<rparr>)"

fun map_exn :: "('a \<Rightarrow> exn + 'b) \<Rightarrow> 'a list \<Rightarrow> exn + 'b list" where
  "map_exn f [] = Inr []"
| "map_exn f (x # xs) =
     (case f x of Inl e \<Rightarrow> Inl e
      | Inr y \<Rightarrow> (case map_exn f xs of Inl e \<Rightarrow> Inl e | Inr ys \<Rightarrow> Inr (y # ys)))"

definition load_artifacts :: "db \<Rightarrow> nat \<Rightarrow> exn + artifact list" where
  "load_artifacts d row_id =
     (case map_exn load_artifact (row_artifacts d row_id) of
        Inl e \<Rightarrow> if exn_class_of e = ValueError then Inl (Exn StoreCorrupt (''corrupt artifact row'' @ exn_message e))
                 else Inl e
      | Inr as \<Rightarrow> Inr as)"

definition load_identity :: "db \<Rightarrow> text_str \<Rightarrow> exn + call_identity" where
  "load_identity d key =
     (case find (\<lambda>i. id_key i = key) (db_identities d) of
        None \<Rightarrow> Inl (Exn TypeError ''cannot unpack non-iterable NoneType object'')
      | Some i \<Rightarrow>
          (case id_identity_json i of
             None \<Rightarrow> Inl (Exn ValueError ''not JSON'')
           | Some j \<Rightarrow>
               deserialize_identity
                 \<lparr>si_kind = id_kind i, si_client = id_client i, si_model = id_model i,
                  si_effort = id_effort i, si_identity_json = j\<rparr>))"

definition load_token_usage :: "db \<Rightarrow> nat \<Rightarrow> exn + token_usage option" where
  "load_token_usage d row_id =
     (case find (\<lambda>u. us_execution_id u = row_id) (db_usage d) of
        None \<Rightarrow> Inr None
      | Some u \<Rightarrow>
          (case us_raw_json u of
             None \<Rightarrow> Inl (Exn ValueError ''not JSON'')
           | Some raw \<Rightarrow>
               Inr (Some \<lparr>tu_input_tokens = us_input_tokens u, tu_output_tokens = us_output_tokens u,
                          tu_cache_read_tokens = us_cache_read_tokens u,
                          tu_cache_write_tokens = us_cache_write_tokens u,
                          tu_reasoning_tokens = us_reasoning_tokens u, tu_cost_usd = us_cost_usd u,
                          tu_raw = raw\<rparr>)))"

definition load_failure :: "exec_row \<Rightarrow> exn + execution_failure option" where
  "load_failure r =
     (case er_failure_reason r of
        None \<Rightarrow> Inr None
      | Some v \<Rightarrow>
          (case failure_reason_of v of
             Inl e \<Rightarrow> Inl e
           | Inr reason \<Rightarrow>
               Inr (Some \<lparr>fl_reason = reason,
                          fl_message = (case er_failure_message r of None \<Rightarrow> [] | Some t \<Rightarrow> t),
                          fl_exit_code = er_failure_exit_code r\<rparr>)))"

definition load_superseded :: "db_env \<Rightarrow> exec_row \<Rightarrow> exn + text_str option" where
  "load_superseded E r =
     (case truthy (er_superseded_at r) of
        None \<Rightarrow> Inr None
      | Some t \<Rightarrow> if de_iso_ok E t then Inr (Some t) else Inl (Exn ValueError ''Invalid isoformat string''))"

definition load_fields :: "db_env \<Rightarrow> nat \<Rightarrow> db \<Rightarrow> exec_row \<Rightarrow> exn + ml_execution" where
  "load_fields E n d r =
     (case load_artifacts d (er_id r) of Inl e \<Rightarrow> Inl e | Inr artifacts \<Rightarrow>
      case load_identity d (er_key r) of Inl e \<Rightarrow> Inl e | Inr identity \<Rightarrow>
      case execution_state_of (er_state r) of Inl e \<Rightarrow> Inl e | Inr state \<Rightarrow>
      case execution_kind_of (er_kind r) of Inl e \<Rightarrow> Inl e | Inr kind \<Rightarrow>
      case load_token_usage d (er_id r) of Inl e \<Rightarrow> Inl e | Inr usage \<Rightarrow>
      case load_failure r of Inl e \<Rightarrow> Inl e | Inr failure \<Rightarrow>
      case load_superseded E r of Inl e \<Rightarrow> Inl e | Inr superseded \<Rightarrow>
      Inr \<lparr>ex_call_identity = identity, ex_execution_state = state, ex_execution_kind = kind,
           ex_output_persisted = er_output_persisted r,
           ex_execution_id = (case truthy (er_execution_id r) of Some x \<Rightarrow> x | None \<Rightarrow> de_uuid E n),
           ex_input_persisted = (\<exists>a \<in> set artifacts. at_type a \<in> set INPUT_ARTIFACT_TYPES),
           ex_artifacts = artifacts, ex_token_usage = usage, ex_failure = failure,
           ex_superseded_at = superseded\<rparr>)"

definition load_execution :: "db_env \<Rightarrow> nat \<Rightarrow> db \<Rightarrow> exec_row \<Rightarrow> exn + ml_execution" where
  "load_execution E n d r =
     (case load_fields E n d r of
        Inr x \<Rightarrow> Inr x
      | Inl e \<Rightarrow>
          if exn_class_of e \<in> {ValueError, TypeError}
          then Inl (Exn StoreCorrupt (''corrupt execution row for key '' @ er_key r @ exn_message e))
          else Inl e)"

section \<open>Reads\<close>

definition find_current :: "db_env \<Rightarrow> text_str \<Rightarrow> (db_store, ml_execution option) prog" where
  "find_current E key =
     reading E (\<lambda>n d. case current_row d key of
       None \<Rightarrow> Inr None
     | Some r \<Rightarrow> (case load_execution E n d r of Inl e \<Rightarrow> Inl e | Inr x \<Rightarrow> Inr (Some x)))"

definition find_all :: "db_env \<Rightarrow> text_str \<Rightarrow> (db_store, ml_execution list) prog" where
  "find_all E key = reading E (\<lambda>n d. map_exn (load_execution E n d) (key_rows d key))"

record execution_summary =
  es_execution_key :: text_str
  es_kind :: text_str
  es_client :: text_str
  es_model :: text_str

definition current_execution_summaries :: "db_env \<Rightarrow> (db_store, execution_summary list) prog" where
  "current_execution_summaries E =
     reading E (\<lambda>n d. Inr (concat (map (\<lambda>r.
       map (\<lambda>i. \<lparr>es_execution_key = er_key r, es_kind = er_kind r, es_client = id_client i, es_model = id_model i\<rparr>)
         (filter (\<lambda>i. id_key i = er_key r) (db_identities d)))
       (filter row_current (db_executions d)))))"

text \<open>\<open>LIKE\<close>: \<open>%\<close> matches any text, \<open>_\<close> one character, letters without regard to ASCII case.\<close>

fun like :: "text_str \<Rightarrow> text_str \<Rightarrow> bool" where
  "like [] s = (s = [])"
| "like (p # ps) s =
     (if p = CHR ''%'' then (\<exists>i \<in> set [0..<Suc (length s)]. like ps (drop i s))
      else (case s of [] \<Rightarrow> False
            | c # s' \<Rightarrow> (p = CHR ''_'' \<or> lower_char p = lower_char c) \<and> like ps s'))"

definition find_current_by_key_prefix :: "db_env \<Rightarrow> text_str \<Rightarrow> (db_store, ml_execution list) prog" where
  "find_current_by_key_prefix E key_prefix =
     reading E (\<lambda>n d. map_exn (load_execution E n d)
       (filter (\<lambda>r. like (key_prefix @ ''%'') (er_key r) \<and> row_current r) (db_executions d)))"

section \<open>Statements\<close>

definition require_row_id :: "text_str \<Rightarrow> (db, nat) prog" where
  "require_row_id execution_id =
     bindP (getsP (\<lambda>d. find_row d execution_id)) (\<lambda>row.
     case row of
       None \<Rightarrow> raise (Exn StoreConsistencyError (''no execution row for execution_id '' @ execution_id))
     | Some r \<Rightarrow> ret (er_id r))"

definition upsert_identity :: "text_str \<Rightarrow> call_identity \<Rightarrow> (db, unit) prog" where
  "upsert_identity key identity =
     modifyP (\<lambda>d.
       if key \<in> id_key ` set (db_identities d) then d
       else let s = serialize_identity identity
            in d\<lparr>db_identities := db_identities d @
                 [\<lparr>id_key = key, id_kind = si_kind s, id_client = si_client s, id_model = si_model s,
                   id_effort = si_effort s, id_identity_json = Some (si_identity_json s)\<rparr>]\<rparr>)"

definition update_executions :: "(exec_row \<Rightarrow> bool) \<Rightarrow> (exec_row \<Rightarrow> exec_row) \<Rightarrow> (db, unit) prog" where
  "update_executions P f =
     modifyP (\<lambda>d. d\<lparr>db_executions := map (\<lambda>r. if P r then f r else r) (db_executions d)\<rparr>)"

definition supersede_prior_current :: "text_str \<Rightarrow> text_str \<Rightarrow> (db, unit) prog" where
  "supersede_prior_current key stamped_at =
     update_executions (\<lambda>r. er_key r = key \<and> row_current r) (\<lambda>r. r\<lparr>er_superseded_at := Some stamped_at\<rparr>)"

definition execution_row :: "nat \<Rightarrow> text_str \<Rightarrow> ml_execution \<Rightarrow> text_str \<Rightarrow> exec_row" where
  "execution_row row_id key x stamped_at =
     \<lparr>er_id = row_id, er_key = key, er_kind = kind_value (ex_execution_kind x),
      er_state = state_value (ex_execution_state x),
      er_output_persisted = ex_output_persisted x, er_superseded_at = ex_superseded_at x,
      er_failure_reason = map_option (reason_value \<circ> fl_reason) (ex_failure x),
      er_failure_message = map_option fl_message (ex_failure x),
      er_failure_exit_code = Option.bind (ex_failure x) fl_exit_code,
      er_created_at = stamped_at, er_execution_id = Some (ex_execution_id x)\<rparr>"

definition insert_execution :: "text_str \<Rightarrow> ml_execution \<Rightarrow> text_str \<Rightarrow> (db, nat) prog" where
  "insert_execution key x stamped_at =
     bindP (getsP db_executions) (\<lambda>rows.
     if Some (ex_execution_id x) \<in> er_execution_id ` set rows
     then raise (Exn SqliteIntegrityError ''UNIQUE constraint failed: executions.execution_id'')
     else let row_id = fresh_id (map er_id rows)
          in thenP (modifyP (\<lambda>d. d\<lparr>db_executions := db_executions d @ [execution_row row_id key x stamped_at]\<rparr>))
             (ret row_id))"

definition insert_artifact :: "nat \<Rightarrow> artifact \<Rightarrow> (db, unit) prog" where
  "insert_artifact row_id a =
     modifyP (\<lambda>d. d\<lparr>db_artifacts := db_artifacts d @
       [\<lparr>af_id = fresh_id (map af_id (db_artifacts d)), af_execution_id = row_id,
         af_type = type_value (at_type a), af_name = at_name a, af_encoding = at_encoding a,
         af_blob_key = at_blob_key a, af_size_bytes = at_size_bytes a,
         af_status = status_value (at_status a), af_persisted_at = at_persisted_at a,
         af_status_detail = at_status_detail a\<rparr>]\<rparr>)"

definition insert_artifacts :: "nat \<Rightarrow> artifact list \<Rightarrow> (db, unit) prog" where
  "insert_artifacts row_id as = for_each (insert_artifact row_id) as"

definition insert_token_usage :: "nat \<Rightarrow> token_usage option \<Rightarrow> (db, unit) prog" where
  "insert_token_usage row_id usage =
     (case usage of
        None \<Rightarrow> ret ()
      | Some u \<Rightarrow>
          bindP (getsP db_usage) (\<lambda>rows.
          if row_id \<in> us_execution_id ` set rows
          then raise (Exn SqliteIntegrityError ''UNIQUE constraint failed: token_usage.execution_id'')
          else modifyP (\<lambda>d. d\<lparr>db_usage := db_usage d @
            [\<lparr>us_execution_id = row_id, us_input_tokens = tu_input_tokens u,
              us_output_tokens = tu_output_tokens u, us_cache_read_tokens = tu_cache_read_tokens u,
              us_cache_write_tokens = tu_cache_write_tokens u,
              us_reasoning_tokens = tu_reasoning_tokens u, us_cost_usd = tu_cost_usd u,
              us_raw_json = Some (tu_raw u)\<rparr>]\<rparr>)))"

definition is_servable :: "ml_execution \<Rightarrow> bool" where
  "is_servable x \<longleftrightarrow> ex_execution_state x = SUCCESS \<and> ex_output_persisted x \<and> ex_superseded_at x = None"

section \<open>Writes\<close>

text \<open>Each write is a transaction body on the tables and its transaction on the store.\<close>

definition save_body :: "db_env \<Rightarrow> ml_execution \<Rightarrow> nat \<Rightarrow> (db, unit) prog" where
  "save_body E x n =
     (let key = generate_key (de_digest E) (ex_call_identity x); stamped_at = de_now E n
      in thenP (upsert_identity key (ex_call_identity x))
        (thenP (whenP (is_servable x) (supersede_prior_current key stamped_at))
        (bindP (insert_execution key x stamped_at) (\<lambda>row_id.
         thenP (insert_artifacts row_id (ex_artifacts x))
           (insert_token_usage row_id (ex_token_usage x))))))"

definition save :: "db_env \<Rightarrow> ml_execution \<Rightarrow> (db_store, unit) prog" where
  "save E x = write_transaction E (save_body E x)"

definition outcome_row :: "ml_execution \<Rightarrow> exec_row \<Rightarrow> exec_row" where
  "outcome_row x r =
     r\<lparr>er_state := state_value (ex_execution_state x),
       er_failure_reason := map_option (reason_value \<circ> fl_reason) (ex_failure x),
       er_failure_message := map_option fl_message (ex_failure x),
       er_failure_exit_code := Option.bind (ex_failure x) fl_exit_code\<rparr>"

definition record_outcome_body :: "ml_execution \<Rightarrow> (db, unit) prog" where
  "record_outcome_body x =
     bindP (require_row_id (ex_execution_id x)) (\<lambda>row_id.
     thenP (update_executions (\<lambda>r. er_id r = row_id) (outcome_row x))
       (insert_token_usage row_id (ex_token_usage x)))"

definition record_outcome :: "db_env \<Rightarrow> ml_execution \<Rightarrow> (db_store, unit) prog" where
  "record_outcome E x = write_transaction E (\<lambda>_. record_outcome_body x)"

definition persist_artifact_body :: "text_str \<Rightarrow> artifact \<Rightarrow> (db, unit) prog" where
  "persist_artifact_body execution_id a =
     bindP (require_row_id execution_id) (\<lambda>row_id. insert_artifacts row_id [a])"

definition persist_artifact :: "db_env \<Rightarrow> text_str \<Rightarrow> artifact \<Rightarrow> (db_store, unit) prog" where
  "persist_artifact E execution_id a = write_transaction E (\<lambda>_. persist_artifact_body execution_id a)"

text \<open>The update of the artifacts of one execution with one blob key; none matching fails loud.\<close>

definition artifact_match :: "db \<Rightarrow> text_str \<Rightarrow> text_str \<Rightarrow> artifact_row \<Rightarrow> bool" where
  "artifact_match d execution_id blob_key a \<longleftrightarrow>
     af_blob_key a = blob_key
     \<and> (case find_row d execution_id of None \<Rightarrow> False | Some r \<Rightarrow> af_execution_id a = er_id r)"

definition update_artifacts ::
  "text_str \<Rightarrow> text_str \<Rightarrow> (artifact_row \<Rightarrow> artifact_row) \<Rightarrow> (db, unit) prog" where
  "update_artifacts execution_id blob_key f =
     bindP (getsP (\<lambda>d. length (filter (artifact_match d execution_id blob_key) (db_artifacts d)))) (\<lambda>rowcount.
     thenP (modifyP (\<lambda>d. d\<lparr>db_artifacts :=
         map (\<lambda>a. if artifact_match d execution_id blob_key a then f a else a) (db_artifacts d)\<rparr>))
       (whenP (rowcount = 0)
         (raise (Exn StoreConsistencyError (''no artifact row for execution '' @ execution_id)))))"

definition mark_artifacts_stored :: "db_env \<Rightarrow> text_str \<Rightarrow> text_str \<Rightarrow> (db_store, unit) prog" where
  "mark_artifacts_stored E execution_id blob_key =
     write_transaction E (\<lambda>n. update_artifacts execution_id blob_key
       (\<lambda>a. a\<lparr>af_status := status_value STORED, af_persisted_at := Some (de_now E n), af_status_detail := None\<rparr>))"

definition mark_artifacts_failed :: "db_env \<Rightarrow> text_str \<Rightarrow> text_str \<Rightarrow> text_str \<Rightarrow> (db_store, unit) prog" where
  "mark_artifacts_failed E execution_id blob_key detail =
     write_transaction E (\<lambda>_. update_artifacts execution_id blob_key
       (\<lambda>a. a\<lparr>af_status := status_value ARTIFACT_FAILED, af_status_detail := Some detail\<rparr>))"

definition finalize_body :: "db_env \<Rightarrow> text_str \<Rightarrow> nat \<Rightarrow> (db, unit) prog" where
  "finalize_body E execution_id n =
     bindP (getsP (\<lambda>d. find_row d execution_id)) (\<lambda>row.
     case row of
       None \<Rightarrow> raise (Exn StoreConsistencyError (''finalize: no execution row for execution_id '' @ execution_id))
     | Some r \<Rightarrow>
         bindP (getsP (\<lambda>d. filter (\<lambda>a. af_status a \<noteq> status_value STORED) (row_artifacts d (er_id r)))) (\<lambda>not_stored.
         if not_stored \<noteq> []
         then raise (Exn StoreConsistencyError (''finalize: execution '' @ execution_id @ '' still has artifacts not STORED''))
         else thenP (whenP (er_state r = state_value SUCCESS) (supersede_prior_current (er_key r) (de_now E n)))
           (update_executions (\<lambda>q. er_id q = er_id r) (\<lambda>q. q\<lparr>er_output_persisted := True\<rparr>))))"

definition finalize_output_persisted :: "db_env \<Rightarrow> text_str \<Rightarrow> (db_store, unit) prog" where
  "finalize_output_persisted E execution_id = write_transaction E (finalize_body E execution_id)"

definition delete_children :: "(nat \<Rightarrow> bool) \<Rightarrow> (db, unit) prog" where
  "delete_children P =
     modifyP (\<lambda>d. d\<lparr>db_artifacts := filter (\<lambda>a. \<not> P (af_execution_id a)) (db_artifacts d),
                     db_usage := filter (\<lambda>u. \<not> P (us_execution_id u)) (db_usage d),
                     db_tags := filter (\<lambda>t. \<not> P (fst t)) (db_tags d)\<rparr>)"

definition remove_execution_body :: "text_str \<Rightarrow> (db, unit) prog" where
  "remove_execution_body execution_id =
     bindP (getsP (\<lambda>d. find_row d execution_id)) (\<lambda>row.
     case row of
       None \<Rightarrow> ret ()
     | Some r \<Rightarrow>
         thenP (delete_children (\<lambda>i. i = er_id r))
        (thenP (modifyP (\<lambda>d. d\<lparr>db_executions := filter (\<lambda>q. er_id q \<noteq> er_id r) (db_executions d)\<rparr>))
        (bindP (getsP (\<lambda>d. key_rows d (er_key r))) (\<lambda>remaining.
         whenP (remaining = [])
           (modifyP (\<lambda>d. d\<lparr>db_identities := filter (\<lambda>i. id_key i \<noteq> er_key r) (db_identities d)\<rparr>))))))"

definition remove_execution :: "db_env \<Rightarrow> text_str \<Rightarrow> (db_store, unit) prog" where
  "remove_execution E execution_id = write_transaction E (\<lambda>_. remove_execution_body execution_id)"

definition add_tags_body :: "text_str \<Rightarrow> text_str list \<Rightarrow> (db, unit) prog" where
  "add_tags_body key tags =
     bindP (getsP (\<lambda>d. current_row d key)) (\<lambda>row.
     case row of
       None \<Rightarrow> ret ()
     | Some r \<Rightarrow>
         for_each (\<lambda>tag. modifyP (\<lambda>d.
           if (er_id r, tag) \<in> set (db_tags d) then d
           else d\<lparr>db_tags := db_tags d @ [(er_id r, tag)]\<rparr>)) tags)"

definition add_tags :: "db_env \<Rightarrow> text_str \<Rightarrow> text_str list \<Rightarrow> (db_store, unit) prog" where
  "add_tags E key tags =
     (if tags = [] then ret () else write_transaction E (\<lambda>_. add_tags_body key tags))"

definition tags_for :: "db_env \<Rightarrow> text_str \<Rightarrow> (db_store, text_str list) prog" where
  "tags_for E key =
     reading E (\<lambda>n d. case current_row d key of
       None \<Rightarrow> Inr []
     | Some r \<Rightarrow> Inr (sort (map snd (filter (\<lambda>t. fst t = er_id r) (db_tags d)))))"

definition add_input_artifacts_body :: "text_str \<Rightarrow> artifact list \<Rightarrow> (db, unit) prog" where
  "add_input_artifacts_body key as =
     bindP (getsP (\<lambda>d. (current_row d key, d))) (\<lambda>(row, d).
     case row of
       None \<Rightarrow> ret ()
     | Some r \<Rightarrow>
         if \<exists>a \<in> set (row_artifacts d (er_id r)). af_type a \<in> type_value ` set INPUT_ARTIFACT_TYPES
         then ret ()
         else insert_artifacts (er_id r) as)"

definition add_input_artifacts :: "db_env \<Rightarrow> text_str \<Rightarrow> artifact list \<Rightarrow> (db_store, unit) prog" where
  "add_input_artifacts E key as =
     (if as = [] then ret () else write_transaction E (\<lambda>_. add_input_artifacts_body key as))"

section \<open>The repair worklist\<close>

record unpersisted_run =
  ur_execution_key :: text_str
  ur_execution_id :: text_str
  ur_blob_keys :: "text_str list"

definition latest_row :: "db \<Rightarrow> text_str \<Rightarrow> exec_row option" where
  "latest_row d key = last_opt (key_rows d key)"

text \<open>The rows of the join, ordered by key and then by artifact id.\<close>

definition awaiting_rows :: "db \<Rightarrow> (text_str \<times> text_str \<times> text_str) list" where
  "awaiting_rows d =
     sort_key fst (concat (map (\<lambda>a.
       case find (\<lambda>r. er_id r = af_execution_id a) (db_executions d) of
         None \<Rightarrow> []
       | Some r \<Rightarrow>
           (case er_execution_id r of
              None \<Rightarrow> []
            | Some execution_id \<Rightarrow>
                if \<not> er_output_persisted r \<and> af_status a \<noteq> status_value STORED
                   \<and> map_option er_id (latest_row d (er_key r)) = Some (er_id r)
                then [(er_key r, execution_id, af_blob_key a)] else [])) (db_artifacts d)))"

fun group_awaiting ::
  "(text_str \<times> text_str \<times> text_str) list \<Rightarrow> (text_str \<times> text_str \<times> text_str list) list
     \<Rightarrow> exn + (text_str \<times> text_str \<times> text_str list) list" where
  "group_awaiting [] grouped = Inr grouped"
| "group_awaiting ((key, execution_id, blob_key) # rows) grouped =
     (let entry = (case map_of grouped key of None \<Rightarrow> (execution_id, []) | Some e \<Rightarrow> e)
      in case BlobKey blob_key of
           Inl e \<Rightarrow> Inl e
         | Inr k \<Rightarrow>
             group_awaiting rows
               (dict_set key (fst entry, if k \<in> set (snd entry) then snd entry else snd entry @ [k]) grouped))"

text \<open>The grouping runs after the connection is closed: its \<open>ValueError\<close> is not translated.\<close>

definition runs_awaiting_persistence :: "db_env \<Rightarrow> (db_store, unpersisted_run list) prog" where
  "runs_awaiting_persistence E =
     bindP (reading E (\<lambda>n d. Inr (awaiting_rows d))) (\<lambda>rows.
     bindP (liftE (group_awaiting rows [])) (\<lambda>grouped.
     ret (map (\<lambda>(key, execution_id, blob_keys).
       \<lparr>ur_execution_key = key, ur_execution_id = execution_id, ur_blob_keys = blob_keys\<rparr>) grouped)))"

section \<open>Retention and purge\<close>

definition key_row_ids :: "db \<Rightarrow> text_str \<Rightarrow> nat list" where
  "key_row_ids d key = map er_id (key_rows d key)"

definition key_blob_keys :: "db \<Rightarrow> text_str \<Rightarrow> text_str list" where
  "key_blob_keys d key =
     remdups (map af_blob_key (filter (\<lambda>a. af_execution_id a \<in> set (key_row_ids d key)) (db_artifacts d)))"

definition blob_keys_for_execution :: "db_env \<Rightarrow> text_str \<Rightarrow> (db_store, text_str list) prog" where
  "blob_keys_for_execution E key = reading E (\<lambda>n d. map_exn BlobKey (key_blob_keys d key))"

definition soft_purge_body :: "text_str \<Rightarrow> (db, unit) prog" where
  "soft_purge_body key =
     thenP (modifyP (\<lambda>d. d\<lparr>db_artifacts :=
              filter (\<lambda>a. af_execution_id a \<notin> set (key_row_ids d key)) (db_artifacts d)\<rparr>))
       (update_executions (\<lambda>r. er_key r = key) (\<lambda>r. r\<lparr>er_output_persisted := False\<rparr>))"

definition soft_purge_execution :: "db_env \<Rightarrow> text_str \<Rightarrow> (db_store, unit) prog" where
  "soft_purge_execution E key = write_transaction E (\<lambda>_. soft_purge_body key)"

definition hard_delete_body :: "text_str \<Rightarrow> (db, unit) prog" where
  "hard_delete_body key =
     bindP (getsP (\<lambda>d. key_row_ids d key)) (\<lambda>ids.
     thenP (delete_children (\<lambda>i. i \<in> set ids))
    (thenP (modifyP (\<lambda>d. d\<lparr>db_executions := filter (\<lambda>r. er_key r \<noteq> key) (db_executions d)\<rparr>))
       (modifyP (\<lambda>d. d\<lparr>db_identities := filter (\<lambda>i. id_key i \<noteq> key) (db_identities d)\<rparr>))))"

definition hard_delete_execution :: "db_env \<Rightarrow> text_str \<Rightarrow> (db_store, unit) prog" where
  "hard_delete_execution E key = write_transaction E (\<lambda>_. hard_delete_body key)"

definition row_size :: "db \<Rightarrow> exec_row \<Rightarrow> nat" where
  "row_size d r = sum_list (map af_size_bytes (row_artifacts d (er_id r)))"

definition stored_bytes :: "db \<Rightarrow> nat" where
  "stored_bytes d = sum_list (map (row_size d) (filter row_current (db_executions d)))"

definition total_stored_bytes :: "db_env \<Rightarrow> (db_store, nat) prog" where
  "total_stored_bytes E = reading E (\<lambda>n d. Inr (stored_bytes d))"

record execution_size_entry =
  se_execution_key :: text_str
  se_total_size_bytes :: nat
  se_created_at :: text_str

text \<open>Grouped by key and creation time, in the order of the groups' first rows.\<close>

definition size_entries :: "db \<Rightarrow> execution_size_entry list" where
  "size_entries d =
     (let rows = filter row_current (db_executions d)
      in map (\<lambda>(key, created). \<lparr>se_execution_key = key,
              se_total_size_bytes =
                sum_list (map (row_size d) (filter (\<lambda>r. (er_key r, er_created_at r) = (key, created)) rows)),
              se_created_at = created\<rparr>)
           (rev (remdups (rev (map (\<lambda>r. (er_key r, er_created_at r)) rows)))))"

definition current_executions_with_sizes :: "db_env \<Rightarrow> (db_store, execution_size_entry list) prog" where
  "current_executions_with_sizes E = reading E (\<lambda>n d. Inr (size_entries d))"

definition executions_by_tag :: "db_env \<Rightarrow> text_str \<Rightarrow> (db_store, text_str list) prog" where
  "executions_by_tag E tag =
     reading E (\<lambda>n d. Inr (remdups (map er_key
       (filter (\<lambda>r. row_current r \<and> (er_id r, tag) \<in> set (db_tags d)) (db_executions d)))))"

definition all_execution_keys :: "db_env \<Rightarrow> (db_store, text_str list) prog" where
  "all_execution_keys E = reading E (\<lambda>n d. Inr (sort (map id_key (db_identities d))))"

section \<open>The invariant of the tables\<close>

text \<open>
  What the schema declares (primary keys, the unique index on execution ids, foreign keys) and
  what the code keeps (every key of an execution has its identity).
\<close>

definition unique_execution_ids :: "exec_row list \<Rightarrow> bool" where
  "unique_execution_ids rows \<longleftrightarrow>
     (\<forall>r \<in> set rows. \<forall>r' \<in> set rows.
        er_execution_id r \<noteq> None \<longrightarrow> er_execution_id r = er_execution_id r' \<longrightarrow> r = r')"

definition db_ok :: "db \<Rightarrow> bool" where
  "db_ok d \<longleftrightarrow>
     sorted_wrt (<) (map er_id (db_executions d))
     \<and> unique_execution_ids (db_executions d)
     \<and> sorted_wrt (<) (map af_id (db_artifacts d))
     \<and> (\<forall>a \<in> set (db_artifacts d). af_execution_id a \<in> er_id ` set (db_executions d))
     \<and> distinct (map us_execution_id (db_usage d))
     \<and> (\<forall>u \<in> set (db_usage d). us_execution_id u \<in> er_id ` set (db_executions d))
     \<and> distinct (db_tags d)
     \<and> (\<forall>t \<in> set (db_tags d). fst t \<in> er_id ` set (db_executions d))
     \<and> distinct (map id_key (db_identities d))
     \<and> er_key ` set (db_executions d) \<subseteq> id_key ` set (db_identities d)"

definition one_current :: "db \<Rightarrow> bool" where
  "one_current d \<longleftrightarrow>
     (\<forall>r \<in> set (db_executions d). \<forall>r' \<in> set (db_executions d).
        row_current r \<longrightarrow> row_current r' \<longrightarrow> er_key r = er_key r' \<longrightarrow> r = r')"

lemma db_okD:
  assumes "db_ok d"
  shows "\<forall>a \<in> set (db_artifacts d). af_execution_id a \<in> er_id ` set (db_executions d)"
    and "\<forall>u \<in> set (db_usage d). us_execution_id u \<in> er_id ` set (db_executions d)"
    and "\<forall>t \<in> set (db_tags d). fst t \<in> er_id ` set (db_executions d)"
    and "er_key ` set (db_executions d) \<subseteq> id_key ` set (db_identities d)"
    and "unique_execution_ids (db_executions d)"
    and "sorted_wrt (<) (map er_id (db_executions d))"
  using assms unfolding db_ok_def by blast+

end
