(* ===== verification/Repository_Invariant.thy ===== *)
theory Repository_Invariant
  imports Execution_Repository
begin

text \<open>
  The invariant \<open>db_ok\<close> of the execution tables is kept by every operation of the repository,
  whatever connection, statement or commit fails, and at most one execution per key is current.
  A body is judged by what it leaves when it commits (\<open>commits\<close>): when it raises, the
  transaction rolls back.
\<close>

section \<open>Every write keeps the invariant\<close>

lemma fresh_id_greater: "i \<in> set ids \<Longrightarrow> i < fresh_id ids"
proof -
  have "x \<le> fold max ids x \<and> (i \<in> set ids \<longrightarrow> i \<le> fold max ids x)" for x
  proof (induction ids arbitrary: x)
    case (Cons a ids)
    from Cons [of "max a x"] show ?case by auto
  qed simp
  then show "i \<in> set ids \<Longrightarrow> i < fresh_id ids" by (auto simp: fresh_id_def less_Suc_eq_le)
qed

lemma sorted_wrt_fresh: "sorted_wrt (<) ids \<Longrightarrow> sorted_wrt (<) (ids @ [fresh_id ids])"
  by (auto simp: sorted_wrt_append fresh_id_greater)

lemma sorted_wrt_map_filter: "sorted_wrt P (map f xs) \<Longrightarrow> sorted_wrt P (map f (filter Q xs))"
  by (induction xs) auto

lemma distinct_map_filter': "distinct (map f xs) \<Longrightarrow> distinct (map f (filter Q xs))"
  by (simp add: distinct_map_filter)

text \<open>A triple whose errors do not matter: the transaction rolls back.\<close>

abbreviation commits :: "('w \<Rightarrow> bool) \<Rightarrow> ('w, 'a) prog \<Rightarrow> ('a \<Rightarrow> 'w \<Rightarrow> bool) \<Rightarrow> bool" where
  "commits P m Q \<equiv> triple P m Q (\<lambda>_ _. True)"

lemma commits_modify: "(\<And>d. P d \<Longrightarrow> Q () (f d)) \<Longrightarrow> commits P (modifyP f) Q"
  by (simp add: triple_def)

lemma commits_gets: "(\<And>d. P d \<Longrightarrow> Q (f d) d) \<Longrightarrow> commits P (getsP f) Q"
  by (simp add: triple_def)

lemma commits_when: "(b \<Longrightarrow> commits P m (\<lambda>_. Q)) \<Longrightarrow> (\<And>d. P d \<Longrightarrow> Q d) \<Longrightarrow> commits P (whenP b m) (\<lambda>_. Q)"
  by (cases b) (auto simp: triple_def)

lemma commits_for_each:
  "(\<And>x. x \<in> set xs \<Longrightarrow> commits P (f x) (\<lambda>_. P)) \<Longrightarrow> commits P (for_each f xs) (\<lambda>_. P)"
proof (induction xs)
  case (Cons x xs)
  have "commits P (thenP (f x) (for_each f xs)) (\<lambda>_. P)"
    by (rule triple_then [of _ _ P]) (use Cons in auto)
  then show ?case by simp
qed (simp add: triple_def)

lemma write_transaction_inv:
  assumes "\<And>n. commits I (body n) (\<lambda>_. I)"
  shows "steps (invariantly (\<lambda>s. I (ds_db s))) (write_transaction E body)"
proof (rule stepsI)
  fix s r s' assume run: "write_transaction E body s = (r, s')"
  obtain x d where body: "body (ds_ops s) (ds_db s) = (x, d)" by fastforce
  have "I (ds_db s) \<Longrightarrow> x = Inr a \<Longrightarrow> I d" for a
    using tripleD_Inr [OF assms] body by blast
  with run body show "invariantly (\<lambda>s. I (ds_db s)) s s'"
    by (auto simp: write_transaction_def invariantly_def Let_def
        split: option.splits db_fault.splits sum.splits if_splits)
qed

text \<open>A read changes no table.\<close>

lemma reading_keeps: "steps (keeping ds_db) (reading E q)"
  by (auto simp: steps_def keeping_def reading_def Let_def split: option.splits db_fault.splits sum.splits)

definition has_identity :: "text_str \<Rightarrow> db \<Rightarrow> bool" where
  "has_identity key d \<longleftrightarrow> key \<in> id_key ` set (db_identities d)"

definition has_row :: "nat \<Rightarrow> db \<Rightarrow> bool" where
  "has_row row_id d \<longleftrightarrow> row_id \<in> er_id ` set (db_executions d)"

lemma upsert_identity_ok: "commits db_ok (upsert_identity key i) (\<lambda>_ d. db_ok d \<and> has_identity key d)"
  unfolding upsert_identity_def
  by (rule commits_modify) (auto simp: db_ok_def has_identity_def Let_def)

text \<open>An update that keeps the three columns the invariant speaks of.\<close>

definition keeps_columns :: "(exec_row \<Rightarrow> exec_row) \<Rightarrow> bool" where
  "keeps_columns f \<longleftrightarrow>
     (\<forall>r. er_id (f r) = er_id r \<and> er_key (f r) = er_key r \<and> er_execution_id (f r) = er_execution_id r)"

lemma update_rows_columns:
  assumes "keeps_columns f"
  shows "map er_id (map (\<lambda>r. if P r then f r else r) rows) = map er_id rows"
    and "er_id ` (\<lambda>r. if P r then f r else r) ` set rows = er_id ` set rows"
    and "er_key ` (\<lambda>r. if P r then f r else r) ` set rows = er_key ` set rows"
proof -
  have g: "er_id (if P r then f r else r) = er_id r" "er_key (if P r then f r else r) = er_key r" for r
    using assms by (simp_all add: keeps_columns_def)
  show "map er_id (map (\<lambda>r. if P r then f r else r) rows) = map er_id rows"
    by (simp only: map_map comp_def g)
  show "er_id ` (\<lambda>r. if P r then f r else r) ` set rows = er_id ` set rows"
    "er_key ` (\<lambda>r. if P r then f r else r) ` set rows = er_key ` set rows"
    by (simp_all only: image_image g)
qed

lemma update_executions_ok:
  assumes f: "keeps_columns f"
  shows "commits (\<lambda>d. db_ok d \<and> has_identity key d \<and> has_row i d) (update_executions P f)
           (\<lambda>_ d. db_ok d \<and> has_identity key d \<and> has_row i d)"
    and "commits (\<lambda>d. db_ok d \<and> has_identity key d) (update_executions P f) (\<lambda>_ d. db_ok d \<and> has_identity key d)"
    and "commits (\<lambda>d. db_ok d \<and> has_row i d) (update_executions P f) (\<lambda>_ d. db_ok d \<and> has_row i d)"
    and "commits db_ok (update_executions P f) (\<lambda>_. db_ok)"
proof -
  let ?g = "\<lambda>r. if P r then f r else r"
  have "er_execution_id (?g q) = er_execution_id q" for q using f by (simp add: keeps_columns_def)
  then have unique: "unique_execution_ids rows \<Longrightarrow> unique_execution_ids (map ?g rows)" for rows
    unfolding unique_execution_ids_def set_map by (metis (no_types, lifting) imageE)
  have ok: "db_ok (d\<lparr>db_executions := map ?g (db_executions d)\<rparr>)" if "db_ok d" for d
    using that unique [of "db_executions d"]
    unfolding db_ok_def
    by (cases d) (simp only: db.select_convs db.update_convs set_map update_rows_columns [OF f], blast)
  have row: "has_row i (d\<lparr>db_executions := map ?g (db_executions d)\<rparr>) = has_row i d" for d i
    unfolding has_row_def
    by (cases d) (simp only: db.select_convs db.update_convs set_map update_rows_columns [OF f])
  show "commits (\<lambda>d. db_ok d \<and> has_identity key d \<and> has_row i d) (update_executions P f)
           (\<lambda>_ d. db_ok d \<and> has_identity key d \<and> has_row i d)"
    "commits (\<lambda>d. db_ok d \<and> has_identity key d) (update_executions P f) (\<lambda>_ d. db_ok d \<and> has_identity key d)"
    "commits (\<lambda>d. db_ok d \<and> has_row i d) (update_executions P f) (\<lambda>_ d. db_ok d \<and> has_row i d)"
    "commits db_ok (update_executions P f) (\<lambda>_. db_ok)"
    unfolding update_executions_def
    by (rule commits_modify; use ok row in \<open>auto simp: has_identity_def\<close>)+
qed

lemma supersede_columns: "keeps_columns (\<lambda>r. r\<lparr>er_superseded_at := t\<rparr>)"
  by (simp add: keeps_columns_def)

lemma execution_row_columns [simp]:
  "er_id (execution_row i key x t) = i" "er_key (execution_row i key x t) = key"
  "er_execution_id (execution_row i key x t) = Some (ex_execution_id x)"
  "er_state (execution_row i key x t) = state_value (ex_execution_state x)"
  "er_output_persisted (execution_row i key x t) = ex_output_persisted x"
  "er_superseded_at (execution_row i key x t) = ex_superseded_at x"
  "er_kind (execution_row i key x t) = kind_value (ex_execution_kind x)"
  by (simp_all add: execution_row_def)

lemma insert_execution_run:
  "insert_execution key x t d =
     (if Some (ex_execution_id x) \<in> er_execution_id ` set (db_executions d)
      then (Inl (Exn SqliteIntegrityError ''UNIQUE constraint failed: executions.execution_id''), d)
      else (Inr (fresh_id (map er_id (db_executions d))),
            d\<lparr>db_executions := db_executions d @
              [execution_row (fresh_id (map er_id (db_executions d))) key x t]\<rparr>))"
  by (simp add: insert_execution_def bindP_def thenP_def Let_def)

lemma db_ok_add_row:
  assumes d: "db_ok d" and id: "has_identity (er_key row) d"
    and fresh: "er_id row = fresh_id (map er_id (db_executions d))"
    and new: "er_execution_id row \<notin> er_execution_id ` set (db_executions d)"
  shows "db_ok (d\<lparr>db_executions := db_executions d @ [row]\<rparr>)"
proof -
  let ?rows = "db_executions d" and ?d = "d\<lparr>db_executions := db_executions d @ [row]\<rparr>"
  have "sorted_wrt (<) (map er_id (?rows @ [row]))"
    using d fresh by (simp add: db_ok_def sorted_wrt_append fresh_id_greater)
  moreover have "unique_execution_ids (?rows @ [row])"
  proof -
    have "er_execution_id r \<noteq> er_execution_id row" if "r \<in> set ?rows" for r
      using new that by (metis image_eqI)
    with d show ?thesis unfolding db_ok_def unique_execution_ids_def set_append by auto
  qed
  ultimately show ?thesis
    using d id by (simp add: db_ok_def has_identity_def)
qed

lemma insert_execution_ok:
  "commits (\<lambda>d. db_ok d \<and> has_identity key d) (insert_execution key x t) (\<lambda>i d. db_ok d \<and> has_row i d)"
proof -
  let ?i = "\<lambda>d. fresh_id (map er_id (db_executions d))"
  have "db_ok (d\<lparr>db_executions := db_executions d @ [execution_row (?i d) key x t]\<rparr>)"
    if "db_ok d" "has_identity key d" "Some (ex_execution_id x) \<notin> er_execution_id ` set (db_executions d)" for d
    by (rule db_ok_add_row) (use that in simp_all)
  then show ?thesis by (simp add: triple_def insert_execution_run has_row_def)
qed

lemma insert_artifact_ok:
  "commits (\<lambda>d. db_ok d \<and> has_row i d) (insert_artifact i a) (\<lambda>_ d. db_ok d \<and> has_row i d)"
  unfolding insert_artifact_def
  by (rule commits_modify) (auto simp: db_ok_def has_row_def sorted_wrt_append fresh_id_greater)

lemma insert_artifacts_ok:
  "commits (\<lambda>d. db_ok d \<and> has_row i d) (insert_artifacts i as) (\<lambda>_ d. db_ok d \<and> has_row i d)"
  unfolding insert_artifacts_def by (rule commits_for_each) (rule insert_artifact_ok)

lemma insert_token_usage_ok:
  "commits (\<lambda>d. db_ok d \<and> has_row i d) (insert_token_usage i u) (\<lambda>_. db_ok)"
  by (auto simp: insert_token_usage_def triple_def bindP_def db_ok_def has_row_def split: option.splits)

lemma find_row_has_row: "find_row d execution_id = Some r \<Longrightarrow> r \<in> set (db_executions d) \<and> er_execution_id r = Some execution_id"
  unfolding find_row_def by (auto simp: find_Some_iff)

lemma require_row_id_ok: "commits db_ok (require_row_id execution_id) (\<lambda>i d. db_ok d \<and> has_row i d)"
  by (auto simp: require_row_id_def triple_def bindP_def has_row_def split: option.splits
      dest: find_row_has_row)

lemma save_body_ok: "commits db_ok (save_body E x n) (\<lambda>_. db_ok)"
proof -
  let ?key = "generate_key (de_digest E) (ex_call_identity x)"
  have "commits (\<lambda>d. db_ok d \<and> has_identity ?key d)
      (whenP (is_servable x) (supersede_prior_current ?key (de_now E n))) (\<lambda>_ d. db_ok d \<and> has_identity ?key d)"
    unfolding supersede_prior_current_def
    by (intro commits_when update_executions_ok supersede_columns) auto
  note sup = this
  show ?thesis
    unfolding save_body_def Let_def
    by (rule triple_then [OF upsert_identity_ok], rule triple_then [OF sup],
        rule triple_bind [OF insert_execution_ok], rule triple_then [OF insert_artifacts_ok],
        rule insert_token_usage_ok)
qed

lemma record_outcome_body_ok: "commits db_ok (record_outcome_body x) (\<lambda>_. db_ok)"
  unfolding record_outcome_body_def
  by (intro triple_bind [OF require_row_id_ok] triple_then [OF update_executions_ok(3)] insert_token_usage_ok)
    (simp add: keeps_columns_def outcome_row_def)

lemma persist_artifact_body_ok: "commits db_ok (persist_artifact_body e a) (\<lambda>_. db_ok)"
  unfolding persist_artifact_body_def
  by (intro triple_bind [OF require_row_id_ok] triple_conseq [OF insert_artifacts_ok]) auto

lemma update_artifacts_ok:
  assumes "\<And>a. af_id (f a) = af_id a \<and> af_execution_id (f a) = af_execution_id a"
  shows "commits db_ok (update_artifacts e k f) (\<lambda>_. db_ok)"
proof -
  have "map af_id (map (\<lambda>a. if P a then f a else a) as) = map af_id as" for P as
    using assms by (simp add: comp_def if_distrib cong: if_cong)
  moreover have "af_execution_id (if P a then f a else a) = af_execution_id a" for P a
    using assms by simp
  ultimately show ?thesis
    unfolding update_artifacts_def
    by (intro triple_bind [where R = "\<lambda>_. db_ok"] triple_then [where R = db_ok] commits_when commits_gets commits_modify
        triple_raise) (auto simp: db_ok_def assms simp del: map_map)
qed

lemma finalize_body_ok: "commits db_ok (finalize_body E e n) (\<lambda>_. db_ok)"
proof -
  have sup: "commits db_ok (supersede_prior_current key t) (\<lambda>_. db_ok)" for key t
    unfolding supersede_prior_current_def by (rule update_executions_ok(4) [OF supersede_columns])
  have fin: "commits db_ok (update_executions P (\<lambda>q. q\<lparr>er_output_persisted := True\<rparr>)) (\<lambda>_. db_ok)" for P
    by (rule update_executions_ok) (simp add: keeps_columns_def)
  show ?thesis
    unfolding finalize_body_def
    by (intro triple_bind [where R = "\<lambda>_. db_ok"] commits_gets)
      (auto split: option.splits intro!: triple_raise triple_bind [where R = "\<lambda>_. db_ok"] commits_gets
        triple_then [where R = db_ok] commits_when sup fin)
qed

definition childless :: "(nat \<Rightarrow> bool) \<Rightarrow> db \<Rightarrow> bool" where
  "childless P d \<longleftrightarrow>
     (\<forall>a \<in> set (db_artifacts d). \<not> P (af_execution_id a))
     \<and> (\<forall>u \<in> set (db_usage d). \<not> P (us_execution_id u)) \<and> (\<forall>t \<in> set (db_tags d). \<not> P (fst t))"

lemma delete_children_ok: "commits db_ok (delete_children P) (\<lambda>_ d. db_ok d \<and> childless P d)"
  unfolding delete_children_def
  by (rule commits_modify) (auto simp: db_ok_def childless_def sorted_wrt_map_filter distinct_map_filter')

text \<open>Rows without children can go; identities can go once no row has their key.\<close>

lemma delete_rows_ok:
  assumes "db_ok d" and "childless P d" and "\<And>r. r \<in> set (db_executions d) \<Longrightarrow> \<not> Q r \<Longrightarrow> P (er_id r)"
  shows "db_ok (d\<lparr>db_executions := filter Q (db_executions d)\<rparr>)"
proof -
  have keep: "i \<in> er_id ` set (filter Q (db_executions d))"
    if "i \<in> er_id ` set (db_executions d)" and "\<not> P i" for i
    using that assms(3) by auto
  have "unique_execution_ids (filter Q (db_executions d))"
    using assms(1) unfolding db_ok_def unique_execution_ids_def by (metis (lifting) filter_is_subset subsetD)
  moreover have "er_key ` set (filter Q (db_executions d)) \<subseteq> id_key ` set (db_identities d)"
    using assms(1) unfolding db_ok_def by auto
  moreover have "\<forall>a \<in> set (db_artifacts d). af_execution_id a \<in> er_id ` set (filter Q (db_executions d))"
    "\<forall>u \<in> set (db_usage d). us_execution_id u \<in> er_id ` set (filter Q (db_executions d))"
    "\<forall>t \<in> set (db_tags d). fst t \<in> er_id ` set (filter Q (db_executions d))"
    using db_okD(1-3) [OF assms(1)] assms(2) keep by (simp_all only: childless_def) blast+
  ultimately show ?thesis
    using assms(1) unfolding db_ok_def by (simp add: sorted_wrt_map_filter del: set_filter)
qed

lemma delete_identity_ok:
  assumes d: "db_ok d" and none: "key \<notin> er_key ` set (db_executions d)"
  shows "db_ok (d\<lparr>db_identities := filter (\<lambda>i. id_key i \<noteq> key) (db_identities d)\<rparr>)"
proof -
  have keys: "er_key ` set (db_executions d) \<subseteq> id_key ` set (filter (\<lambda>i. id_key i \<noteq> key) (db_identities d))"
  proof
    fix k assume k: "k \<in> er_key ` set (db_executions d)"
    with db_okD(4) [OF d] obtain i where "i \<in> set (db_identities d)" "k = id_key i" by blast
    with k none show "k \<in> id_key ` set (filter (\<lambda>i. id_key i \<noteq> key) (db_identities d))" by auto
  qed
  have "distinct (map id_key (db_identities d))" using d unfolding db_ok_def by (elim conjE)
  then have "distinct (map id_key (filter (\<lambda>i. id_key i \<noteq> key) (db_identities d)))"
    by (rule distinct_map_filter')
  with d keys show ?thesis
    unfolding db_ok_def by (cases d) (simp only: db.select_convs db.update_convs simp_thms, blast)
qed

lemma key_rows_empty: "key_rows d key = [] \<longleftrightarrow> key \<notin> er_key ` set (db_executions d)"
  by (auto simp: key_rows_def filter_empty_conv)

lemma triple_bind_gets: "(\<And>x. commits (\<lambda>d. P d \<and> f d = x) (g x) Q) \<Longrightarrow> commits P (bindP (getsP f) g) Q"
  by (auto simp: triple_def bindP_def)

lemma remove_execution_body_ok: "commits db_ok (remove_execution_body e) (\<lambda>_. db_ok)"
  unfolding remove_execution_body_def
proof (rule triple_bind_gets)
  fix row
  show "commits (\<lambda>d. db_ok d \<and> find_row d e = row)
     (case row of None \<Rightarrow> ret ()
      | Some r \<Rightarrow>
          thenP (delete_children (\<lambda>i. i = er_id r))
         (thenP (modifyP (\<lambda>d. d\<lparr>db_executions := filter (\<lambda>q. er_id q \<noteq> er_id r) (db_executions d)\<rparr>))
         (bindP (getsP (\<lambda>d. key_rows d (er_key r))) (\<lambda>remaining.
          whenP (remaining = [])
            (modifyP (\<lambda>d. d\<lparr>db_identities := filter (\<lambda>i. id_key i \<noteq> er_key r) (db_identities d)\<rparr>))))))
     (\<lambda>_. db_ok)"
  proof (cases row)
    case (Some r)
    have "commits (\<lambda>d. db_ok d \<and> childless (\<lambda>i. i = er_id r) d)
        (modifyP (\<lambda>d. d\<lparr>db_executions := filter (\<lambda>q. er_id q \<noteq> er_id r) (db_executions d)\<rparr>)) (\<lambda>_. db_ok)"
      by (rule commits_modify) (auto intro: delete_rows_ok)
    moreover have "commits (\<lambda>d. db_ok d \<and> key_rows d (er_key r) = x)
        (whenP (x = []) (modifyP (\<lambda>d. d\<lparr>db_identities := filter (\<lambda>i. id_key i \<noteq> er_key r) (db_identities d)\<rparr>)))
        (\<lambda>_. db_ok)" for x
      by (cases "x = []") (auto simp: triple_def key_rows_empty delete_identity_ok)
    moreover have "commits (\<lambda>d. db_ok d \<and> find_row d e = row) (delete_children (\<lambda>i. i = er_id r))
        (\<lambda>_ d. db_ok d \<and> childless (\<lambda>i. i = er_id r) d)"
      by (rule triple_conseq [OF delete_children_ok]) auto
    ultimately show ?thesis
      unfolding Some option.case by (intro triple_then [where R = db_ok] triple_bind_gets triple_then) auto
  qed (simp add: triple_def)
qed

lemma current_row_in: "current_row d key = Some r \<Longrightarrow> r \<in> set (db_executions d) \<and> er_key r = key \<and> row_current r"
  by (auto simp: current_row_def last_opt_def key_rows_def dest!: last_filter_in split: if_splits)

lemma add_tag_ok:
  "commits (\<lambda>d. db_ok d \<and> has_row i d)
     (modifyP (\<lambda>d. if (i, tag) \<in> set (db_tags d) then d else d\<lparr>db_tags := db_tags d @ [(i, tag)]\<rparr>))
     (\<lambda>_ d. db_ok d \<and> has_row i d)"
  by (rule commits_modify) (auto simp: db_ok_def has_row_def)

lemma add_tags_body_ok: "commits db_ok (add_tags_body key tags) (\<lambda>_. db_ok)"
  unfolding add_tags_body_def
proof (rule triple_bind_gets)
  fix row
  show "commits (\<lambda>d. db_ok d \<and> current_row d key = row)
     (case row of None \<Rightarrow> ret ()
      | Some r \<Rightarrow> for_each (\<lambda>tag. modifyP (\<lambda>d.
           if (er_id r, tag) \<in> set (db_tags d) then d
           else d\<lparr>db_tags := db_tags d @ [(er_id r, tag)]\<rparr>)) tags) (\<lambda>_. db_ok)"
  proof (cases row)
    case (Some r)
    show ?thesis
      unfolding Some option.case
      by (rule triple_conseq [OF commits_for_each [where P = "\<lambda>d. db_ok d \<and> has_row (er_id r) d"]])
        (auto intro: add_tag_ok, auto simp: has_row_def dest: current_row_in)
  qed (simp add: triple_def)
qed

lemma add_input_artifacts_body_ok: "commits db_ok (add_input_artifacts_body key as) (\<lambda>_. db_ok)"
  unfolding add_input_artifacts_body_def
proof (rule triple_bind_gets)
  fix x :: "exec_row option \<times> db"
  obtain row d0 where x: "x = (row, d0)" by fastforce
  show "commits (\<lambda>d. db_ok d \<and> (current_row d key, d) = x)
     (case x of (row, d) \<Rightarrow> (case row of None \<Rightarrow> ret ()
      | Some r \<Rightarrow> if \<exists>a \<in> set (row_artifacts d (er_id r)). af_type a \<in> type_value ` set INPUT_ARTIFACT_TYPES
         then ret () else insert_artifacts (er_id r) as)) (\<lambda>_. db_ok)"
  proof (cases row)
    case (Some r)
    show ?thesis
      unfolding x Some prod.case option.case
      by (auto intro!: triple_ret triple_conseq [OF insert_artifacts_ok] simp: has_row_def dest: current_row_in)
  qed (simp add: triple_def x)
qed

lemma soft_purge_body_ok: "commits db_ok (soft_purge_body key) (\<lambda>_. db_ok)"
  unfolding soft_purge_body_def
  by (rule triple_then [where R = db_ok], rule commits_modify)
    (auto simp: db_ok_def sorted_wrt_map_filter keeps_columns_def intro!: update_executions_ok)

lemma hard_delete_body_ok: "commits db_ok (hard_delete_body key) (\<lambda>_. db_ok)"
  unfolding hard_delete_body_def
proof (rule triple_bind_gets)
  fix ids
  let ?norows = "\<lambda>d. db_ok d \<and> key \<notin> er_key ` set (db_executions d)"
  have "commits (\<lambda>d. db_ok d \<and> key_row_ids d key = ids) (delete_children (\<lambda>i. i \<in> set ids))
      (\<lambda>_ d. (db_ok d \<and> childless (\<lambda>i. i \<in> set ids) d) \<and> key_row_ids d key = ids)"
    using delete_children_ok [of "\<lambda>i. i \<in> set ids"]
    by (auto simp: triple_def delete_children_def key_row_ids_def key_rows_def)
  moreover have "commits (\<lambda>d. (db_ok d \<and> childless (\<lambda>i. i \<in> set ids) d) \<and> key_row_ids d key = ids)
      (modifyP (\<lambda>d. d\<lparr>db_executions := filter (\<lambda>r. er_key r \<noteq> key) (db_executions d)\<rparr>)) (\<lambda>_. ?norows)"
    by (rule commits_modify) (auto intro!: delete_rows_ok simp: key_row_ids_def key_rows_def)
  moreover have "commits ?norows
      (modifyP (\<lambda>d. d\<lparr>db_identities := filter (\<lambda>i. id_key i \<noteq> key) (db_identities d)\<rparr>)) (\<lambda>_. db_ok)"
    by (rule commits_modify) (auto intro: delete_identity_ok)
  ultimately show "commits (\<lambda>d. db_ok d \<and> key_row_ids d key = ids)
     (thenP (delete_children (\<lambda>i. i \<in> set ids))
    (thenP (modifyP (\<lambda>d. d\<lparr>db_executions := filter (\<lambda>r. er_key r \<noteq> key) (db_executions d)\<rparr>))
       (modifyP (\<lambda>d. d\<lparr>db_identities := filter (\<lambda>i. id_key i \<noteq> key) (db_identities d)\<rparr>)))) (\<lambda>_. db_ok)"
    by (intro triple_then) auto
qed

section \<open>The operations\<close>

abbreviation keeps_tables :: "(db \<Rightarrow> bool) \<Rightarrow> (db_store, 'a) prog \<Rightarrow> bool" where
  "keeps_tables I m \<equiv> steps (invariantly (\<lambda>s. I (ds_db s))) m"

lemma reading_inv: "keeps_tables I (reading E q)"
proof -
  have "ds_db (snd (reading E q s)) = ds_db s" for s
    using reading_keeps unfolding steps_def keeping_def by blast
  then show ?thesis by (simp add: steps_def invariantly_def)
qed

lemma read_ops_inv:
  "keeps_tables I (find_current E key)" "keeps_tables I (find_all E key)"
  "keeps_tables I (current_execution_summaries E)" "keeps_tables I (find_current_by_key_prefix E key)"
  "keeps_tables I (tags_for E key)" "keeps_tables I (blob_keys_for_execution E key)"
  "keeps_tables I (total_stored_bytes E)" "keeps_tables I (current_executions_with_sizes E)"
  "keeps_tables I (executions_by_tag E tag)" "keeps_tables I (all_execution_keys E)"
  by (simp_all add: find_current_def find_all_def current_execution_summaries_def
      find_current_by_key_prefix_def tags_for_def blob_keys_for_execution_def total_stored_bytes_def
      current_executions_with_sizes_def executions_by_tag_def all_execution_keys_def reading_inv)

lemma runs_awaiting_inv: "keeps_tables I (runs_awaiting_persistence E)"
  unfolding runs_awaiting_persistence_def by (intro steps_rules reading_inv) auto

lemma write_ops_ok:
  "keeps_tables db_ok (save E x)" "keeps_tables db_ok (record_outcome E x)"
  "keeps_tables db_ok (persist_artifact E e a)" "keeps_tables db_ok (mark_artifacts_stored E e k)"
  "keeps_tables db_ok (mark_artifacts_failed E e k t)" "keeps_tables db_ok (finalize_output_persisted E e)"
  "keeps_tables db_ok (remove_execution E e)" "keeps_tables db_ok (add_tags E key tags)"
  "keeps_tables db_ok (add_input_artifacts E key as)" "keeps_tables db_ok (soft_purge_execution E key)"
  "keeps_tables db_ok (hard_delete_execution E key)"
  by (auto simp: save_def record_outcome_def persist_artifact_def mark_artifacts_stored_def
      mark_artifacts_failed_def finalize_output_persisted_def remove_execution_def add_tags_def
      add_input_artifacts_def soft_purge_execution_def hard_delete_execution_def
      intro!: steps_ret write_transaction_inv save_body_ok record_outcome_body_ok persist_artifact_body_ok
        update_artifacts_ok finalize_body_ok remove_execution_body_ok add_tags_body_ok
        add_input_artifacts_body_ok soft_purge_body_ok hard_delete_body_ok)

section \<open>At most one current execution per key\<close>

definition current_in :: "exec_row list \<Rightarrow> bool" where
  "current_in rows \<longleftrightarrow>
     (\<forall>r \<in> set rows. \<forall>r' \<in> set rows. row_current r \<longrightarrow> row_current r' \<longrightarrow> er_key r = er_key r' \<longrightarrow> r = r')"

lemma one_current_in: "one_current d = current_in (db_executions d)"
  by (simp add: one_current_def current_in_def)

lemma current_in_filter: "current_in rows \<Longrightarrow> current_in (filter Q rows)"
  unfolding current_in_def by (metis (lifting) filter_is_subset subsetD)

text \<open>An update that makes no row current, and changes no current row.\<close>

lemma current_in_update:
  assumes "current_in rows" and "\<And>r. P r \<Longrightarrow> \<not> row_current (f r)"
  shows "current_in (map (\<lambda>r. if P r then f r else r) rows)"
  unfolding current_in_def
proof (intro ballI impI)
  fix r r'
  assume r: "r \<in> set (map (\<lambda>r. if P r then f r else r) rows)" "r' \<in> set (map (\<lambda>r. if P r then f r else r) rows)"
    and c: "row_current r" "row_current r'" and k: "er_key r = er_key r'"
  from r c have "r \<in> set rows" "r' \<in> set rows" using assms(2) by (auto split: if_splits)
  with c k show "r = r'" using assms(1) unfolding current_in_def by blast
qed

definition no_current_of :: "text_str \<Rightarrow> exec_row list \<Rightarrow> bool" where
  "no_current_of key rows \<longleftrightarrow> (\<forall>r \<in> set rows. er_key r = key \<longrightarrow> \<not> row_current r)"

lemma superseded_not_current [simp]: "\<not> row_current (r\<lparr>er_superseded_at := Some t\<rparr>)"
  by (simp add: row_current_def)

lemma supersede_clears:
  "no_current_of key (map (\<lambda>r. if er_key r = key \<and> row_current r then r\<lparr>er_superseded_at := Some t\<rparr> else r) rows)"
  unfolding no_current_of_def set_map ball_simps by (simp add: superseded_not_current)

lemma current_in_supersede:
  "current_in rows \<Longrightarrow>
   current_in (map (\<lambda>r. if er_key r = key \<and> row_current r then r\<lparr>er_superseded_at := Some t\<rparr> else r) rows)"
  by (rule current_in_update) simp_all

lemma current_in_append:
  "current_in rows \<Longrightarrow> row_current row \<longrightarrow> no_current_of (er_key row) rows \<Longrightarrow> current_in (rows @ [row])"
  unfolding current_in_def no_current_of_def by auto

lemma commits_conj: "commits P m Q \<Longrightarrow> commits P' m Q' \<Longrightarrow> commits (\<lambda>d. P d \<and> P' d) m (\<lambda>a d. Q a d \<and> Q' a d)"
  by (auto simp: triple_def split: prod.splits sum.splits)

lemma commits_snd: "(\<And>d. P d \<Longrightarrow> Q (snd (m d))) \<Longrightarrow> commits P m (\<lambda>_. Q)"
  by (auto simp: triple_def case_prod_unfold split: sum.split)

lemma commits_keeping:
  assumes "steps (keeping db_executions) m"
  shows "commits one_current m (\<lambda>_. one_current)"
proof (rule commits_snd)
  fix d assume "one_current d"
  moreover have "db_executions (snd (m d)) = db_executions d"
    using assms unfolding steps_def keeping_def by blast
  ultimately show "one_current (snd (m d))" by (simp only: one_current_in)
qed

lemma keeping_modify: "(\<And>d. g (f d) = g d) \<Longrightarrow> steps (keeping g) (modifyP f)"
  by (rule steps_modify) (simp add: keeping_def)

lemma keeping_insert_artifacts: "steps (keeping db_executions) (insert_artifacts i as)"
  unfolding insert_artifacts_def insert_artifact_def
  by (intro steps_rules preorder_keeping keeping_modify) simp

lemma keeping_insert_token_usage: "steps (keeping db_executions) (insert_token_usage i u)"
  unfolding insert_token_usage_def
  by (intro steps_rules preorder_keeping keeping_modify) simp

lemma keeping_upsert_identity: "steps (keeping db_executions) (upsert_identity key idn)"
  unfolding upsert_identity_def by (intro keeping_modify) (simp add: Let_def)

lemma keeping_require_row_id: "steps (keeping db_executions) (require_row_id e)"
  unfolding require_row_id_def by (intro steps_rules preorder_keeping)

lemma keeping_update_artifacts: "steps (keeping db_executions) (update_artifacts e k f)"
  unfolding update_artifacts_def by (intro steps_rules preorder_keeping keeping_modify) simp

lemma keeping_delete_children: "steps (keeping db_executions) (delete_children P)"
  unfolding delete_children_def by (intro keeping_modify) simp

lemmas keeping_statements = keeping_insert_artifacts keeping_insert_token_usage keeping_upsert_identity
  keeping_require_row_id keeping_update_artifacts keeping_delete_children

lemma save_body_current: "commits one_current (save_body E x n) (\<lambda>_. one_current)"
proof -
  let ?key = "generate_key (de_digest E) (ex_call_identity x)" and ?t = "de_now E n"
  let ?mid = "\<lambda>d. one_current d \<and> (is_servable x \<longrightarrow> no_current_of ?key (db_executions d))"
  have up: "commits one_current (upsert_identity ?key (ex_call_identity x)) (\<lambda>_. one_current)"
    by (intro commits_keeping keeping_statements)
  have sup: "commits one_current (whenP (is_servable x) (supersede_prior_current ?key ?t)) (\<lambda>_. ?mid)"
    by (cases "is_servable x")
      (simp_all add: triple_def supersede_prior_current_def update_executions_def one_current_in
        current_in_supersede supersede_clears)
  have "row_current (execution_row i ?key x ?t) = is_servable x" for i
    by (simp add: row_current_def is_servable_def flip: state_value.simps(2))
  then have ins: "commits ?mid (insert_execution ?key x ?t) (\<lambda>_. one_current)"
    by (auto simp: triple_def insert_execution_run one_current_in intro!: current_in_append)
  have rest: "commits one_current (thenP (insert_artifacts i (ex_artifacts x)) (insert_token_usage i (ex_token_usage x)))
      (\<lambda>_. one_current)" for i
    by (intro commits_keeping steps_rules keeping_statements preorder_keeping)
  show ?thesis
    unfolding save_body_def Let_def
    by (rule triple_then [OF up], rule triple_then [OF sup], rule triple_bind [OF ins], rule rest)
qed

text \<open>Promoting one row, once the current one of its key is superseded.\<close>

lemma current_in_promote:
  assumes "current_in rows" and "sorted_wrt (<) (map er_id rows)" and "r \<in> set rows"
    and "er_state r = state_value SUCCESS \<longrightarrow> no_current_of (er_key r) rows"
  shows "current_in (map (\<lambda>q. if er_id q = er_id r then q\<lparr>er_output_persisted := True\<rparr> else q) rows)"
proof -
  have inj: "q = r" if "q \<in> set rows" "er_id q = er_id r" for q
    using assms(2,3) that by (metis distinct_map inj_onD strict_sorted_iff)
  let ?f = "\<lambda>q. if er_id q = er_id r then q\<lparr>er_output_persisted := True\<rparr> else q"
  show ?thesis
    unfolding current_in_def
  proof (intro ballI impI)
    fix a b assume "a \<in> set (map ?f rows)" "b \<in> set (map ?f rows)"
      and c: "row_current a" "row_current b" and k: "er_key a = er_key b"
    then obtain a0 b0 where a: "a0 \<in> set rows" "a = ?f a0" and b: "b0 \<in> set rows" "b = ?f b0" by auto
    have clash: False if "c0 \<in> set rows" "c0 \<noteq> r" "row_current (?f c0)" "row_current (?f r)" "er_key c0 = er_key r" for c0
    proof -
      have "row_current c0" using that inj by (auto split: if_splits)
      moreover have "er_state r = state_value SUCCESS" using that(4) by (simp add: row_current_def)
      ultimately show False using assms(4) that(1,5) unfolding no_current_of_def by blast
    qed
    have keys: "er_key a = er_key a0" "er_key b = er_key b0" using a b by auto
    consider "a0 = b0" | "a0 = r" "b0 \<noteq> r" | "b0 = r" "a0 \<noteq> r" | "a0 \<noteq> r" "b0 \<noteq> r" by blast
    then show "a = b"
    proof cases
      case 1 with a b show ?thesis by simp
    next
      case 2 with clash [of b0] a b c k keys show ?thesis by simp
    next
      case 3 with clash [of a0] a b c k keys show ?thesis by simp
    next
      case 4
      with a b have "a = a0" "b = b0" using inj by auto
      with a(1) b(1) c k assms(1) show ?thesis unfolding current_in_def by blast
    qed
  qed
qed

lemma find_row_Some: "find_row d e = Some r \<Longrightarrow> r \<in> set (db_executions d)"
  by (auto dest: find_row_has_row)

lemma row_update_self:
  "sorted_wrt (<) (map er_id rows) \<Longrightarrow> r \<in> set rows \<Longrightarrow> q \<in> set rows \<Longrightarrow> er_id q = er_id r \<Longrightarrow> q = r"
  by (metis distinct_map inj_onD strict_sorted_iff)

lemma finalize_body_run:
  "finalize_body E e n d = (Inr u, d') \<Longrightarrow>
   \<exists>r rows. find_row d e = Some r \<and> (\<forall>a \<in> set (row_artifacts d (er_id r)). af_status a = status_value STORED)
     \<and> rows = (if er_state r = state_value SUCCESS
               then map (\<lambda>q. if er_key q = er_key r \<and> row_current q then q\<lparr>er_superseded_at := Some (de_now E n)\<rparr> else q) (db_executions d)
               else db_executions d)
     \<and> d' = d\<lparr>db_executions := map (\<lambda>q. if er_id q = er_id r then q\<lparr>er_output_persisted := True\<rparr> else q) rows\<rparr>"
  by (auto simp: finalize_body_def bindP_def thenP_def whenP_def supersede_prior_current_def update_executions_def
      filter_empty_conv split: option.splits if_splits)

definition tables_ok :: "db \<Rightarrow> bool" where
  "tables_ok d \<longleftrightarrow> db_ok d \<and> one_current d"

lemma finalize_keeps_current:
  assumes "tables_ok d" and "finalize_body E e n d = (Inr u, d')"
  shows "one_current d'"
proof -
  let ?sup = "\<lambda>k. map (\<lambda>q. if er_key q = k \<and> row_current q then q\<lparr>er_superseded_at := Some (de_now E n)\<rparr> else q) (db_executions d)"
  obtain r rows where r: "find_row d e = Some r"
    and rows: "rows = (if er_state r = state_value SUCCESS then ?sup (er_key r) else db_executions d)"
    and d': "d' = d\<lparr>db_executions := map (\<lambda>q. if er_id q = er_id r then q\<lparr>er_output_persisted := True\<rparr> else q) rows\<rparr>"
    using finalize_body_run [OF assms(2)] by blast
  have sorted: "sorted_wrt (<) (map er_id (db_executions d))" and cur: "current_in (db_executions d)"
    using assms(1) db_okD(6) by (simp_all add: tables_ok_def one_current_in)
  have rin: "r \<in> set (db_executions d)" using r by (rule find_row_Some)
  have "current_in (map (\<lambda>q. if er_id q = er_id r then q\<lparr>er_output_persisted := True\<rparr> else q) rows)"
  proof (cases "er_state r = state_value SUCCESS")
    case False
    with rows current_in_promote [OF cur sorted rin] show ?thesis by simp
  next
    case True
    have rows': "rows = ?sup (er_key r)" using True rows by simp
    obtain r0 where r0: "r0 \<in> set rows" "er_id r0 = er_id r" "er_key r0 = er_key r"
    proof (cases "row_current r")
      case True
      then have "r\<lparr>er_superseded_at := Some (de_now E n)\<rparr> \<in> set rows"
        using rin unfolding rows' set_map by (intro rev_image_eqI [where x = r]) auto
      then show thesis by (rule that) auto
    next
      case False
      then have "r \<in> set rows"
        using rin unfolding rows' set_map by (intro rev_image_eqI [where x = r]) auto
      then show thesis by (rule that) auto
    qed
    have "current_in rows" "sorted_wrt (<) (map er_id rows)" "no_current_of (er_key r) rows"
      unfolding rows' using cur sorted by (simp_all add: current_in_supersede supersede_clears comp_def if_distrib cong: if_cong)
    then show ?thesis using current_in_promote [of rows r0] r0 by simp
  qed
  then show ?thesis by (simp add: d' one_current_in)
qed

text \<open>Recording an outcome keeps it for a run whose output is not yet persisted.\<close>

lemma record_outcome_keeps_current:
  assumes "one_current d" and "record_outcome_body x d = (Inr u, d')"
    and unpersisted: "\<And>r. r \<in> set (db_executions d) \<Longrightarrow> find_row d (ex_execution_id x) \<noteq> None \<Longrightarrow>
      er_id r = er_id (the (find_row d (ex_execution_id x))) \<Longrightarrow> \<not> er_output_persisted r"
  shows "one_current d'"
proof -
  obtain r where r: "find_row d (ex_execution_id x) = Some r"
    using assms(2) by (auto simp: record_outcome_body_def require_row_id_def bindP_def split: option.splits)
  have f: "db_executions d' = map (\<lambda>q. if er_id q = er_id r then outcome_row x q else q) (db_executions d)"
    using assms(2) r unfolding record_outcome_body_def
    by (auto simp: require_row_id_def bindP_def thenP_def update_executions_def insert_token_usage_def
        split: option.splits if_splits)
  have "current_in (map (\<lambda>q. if er_id q = er_id r \<and> q \<in> set (db_executions d) then outcome_row x q else q) (db_executions d))"
    using assms(1) unpersisted r by (intro current_in_update) (auto simp: one_current_in row_current_def outcome_row_def)
  moreover have "db_executions d' = map (\<lambda>q. if er_id q = er_id r \<and> q \<in> set (db_executions d) then outcome_row x q else q) (db_executions d)"
    unfolding f by simp
  ultimately show ?thesis by (simp add: one_current_in)
qed

lemma write_ops_current:
  "keeps_tables one_current (save E x)" "keeps_tables one_current (persist_artifact E e a)"
  "keeps_tables one_current (mark_artifacts_stored E e k)" "keeps_tables one_current (mark_artifacts_failed E e k t)"
  "keeps_tables one_current (remove_execution E e)" "keeps_tables one_current (add_tags E key tags)"
  "keeps_tables one_current (add_input_artifacts E key as)" "keeps_tables one_current (soft_purge_execution E key)"
  "keeps_tables one_current (hard_delete_execution E key)"
proof -
  have "commits one_current (persist_artifact_body e a) (\<lambda>_. one_current)"
    unfolding persist_artifact_body_def
    by (intro commits_keeping steps_rules keeping_statements preorder_keeping)
  moreover have "commits one_current (update_artifacts e k f) (\<lambda>_. one_current)" for f
    by (intro commits_keeping keeping_statements)
  moreover have "commits one_current (remove_execution_body e) (\<lambda>_. one_current)"
    by (auto simp: triple_def remove_execution_body_def bindP_def thenP_def delete_children_def whenP_def
        one_current_in current_in_filter split: option.splits)
  moreover have "commits one_current (add_tags_body key tags) (\<lambda>_. one_current)"
    unfolding add_tags_body_def
    by (intro commits_keeping steps_rules preorder_keeping steps_modify) (simp add: keeping_def)
  moreover have "commits one_current (add_input_artifacts_body key as) (\<lambda>_. one_current)"
    unfolding add_input_artifacts_body_def
    by (intro commits_keeping steps_rules preorder_keeping keeping_statements)
  moreover have "commits one_current (soft_purge_body key) (\<lambda>_. one_current)"
    unfolding soft_purge_body_def update_executions_def
    by (auto simp: triple_def thenP_def bindP_def one_current_in row_current_def intro!: current_in_update)
  moreover have "commits one_current (hard_delete_body key) (\<lambda>_. one_current)"
    by (auto simp: triple_def hard_delete_body_def bindP_def thenP_def delete_children_def
        one_current_in current_in_filter)
  ultimately show "keeps_tables one_current (save E x)" "keeps_tables one_current (persist_artifact E e a)"
    "keeps_tables one_current (mark_artifacts_stored E e k)" "keeps_tables one_current (mark_artifacts_failed E e k t)"
    "keeps_tables one_current (remove_execution E e)" "keeps_tables one_current (add_tags E key tags)"
    "keeps_tables one_current (add_input_artifacts E key as)" "keeps_tables one_current (soft_purge_execution E key)"
    "keeps_tables one_current (hard_delete_execution E key)"
    unfolding save_def persist_artifact_def mark_artifacts_stored_def mark_artifacts_failed_def
      remove_execution_def add_tags_def add_input_artifacts_def soft_purge_execution_def hard_delete_execution_def
    by (auto intro!: write_transaction_inv save_body_current steps_ret)
qed

lemma finalize_keeps_tables: "keeps_tables tables_ok (finalize_output_persisted E e)"
  unfolding finalize_output_persisted_def
proof (rule write_transaction_inv)
  fix n
  show "commits tables_ok (finalize_body E e n) (\<lambda>_. tables_ok)"
    using finalize_body_ok [of E e n] finalize_keeps_current
    unfolding triple_def tables_ok_def by (fastforce split: prod.splits sum.splits)
qed

end
