(* ===== verification/Cipher.thy ===== *)
theory Cipher
  imports Domain_Model
begin

text \<open>
  \<open>crypto/aesgcm_cipher.py\<close>: the encryption envelope (a random data key wrapped under a key
  derived from the token) and the sealing of content under a fresh subkey per write. The
  \<open>cryptography\<close> library is the parameter \<open>crypto\<close>: HKDF and AES-GCM as functions. What the
  code relies on is \<open>aead_correct\<close>: opening what was sealed under the same key, nonce and
  associated data gives the plaintext back. Random bytes are arguments.
\<close>

record crypto =
  cp_hkdf :: "bytes \<Rightarrow> bytes \<Rightarrow> bytes \<Rightarrow> bytes"
  cp_seal :: "bytes \<Rightarrow> bytes \<Rightarrow> bytes \<Rightarrow> bytes \<Rightarrow> bytes"
  cp_open :: "bytes \<Rightarrow> bytes \<Rightarrow> bytes \<Rightarrow> bytes \<Rightarrow> bytes option"

definition aead_correct :: "crypto \<Rightarrow> bool" where
  "aead_correct C \<longleftrightarrow> (\<forall>k n p a. cp_open C k n (cp_seal C k n p a) a = Some p)"

definition NONCE_BYTES :: nat where "NONCE_BYTES = 12"
definition SALT_BYTES :: nat where "SALT_BYTES = 16"
definition CONTENT_SUBKEY_SALT_BYTES :: nat where "CONTENT_SUBKEY_SALT_BYTES = 32"
definition TOKEN_PREFIX :: text_str where "TOKEN_PREFIX = ''gmlc_''"
definition KEK_INFO :: bytes where "KEK_INFO = ''generic-ml-cache/kek/v1''"
definition WRAP_AAD :: bytes where "WRAP_AAD = ''generic-ml-cache/wrapped-data-key/v1''"
definition CONTENT_AAD :: bytes where "CONTENT_AAD = ''generic-ml-cache/content/v1''"
definition CONTENT_SUBKEY_INFO :: bytes where
  "CONTENT_SUBKEY_INFO = ''generic-ml-cache/content-subkey/v1''"

record encryption_manifest =
  em_kdf_salt :: bytes
  em_wrapped_data_key :: bytes
  em_version :: int

definition removeprefix :: "text_str \<Rightarrow> text_str \<Rightarrow> text_str" where
  "removeprefix p s = (if starts_with p s then drop (length p) s else s)"

definition aead_seal :: "crypto \<Rightarrow> bytes \<Rightarrow> bytes \<Rightarrow> bytes \<Rightarrow> bytes \<Rightarrow> bytes" where
  "aead_seal C nonce key plaintext aad = nonce @ cp_seal C key nonce plaintext aad"

definition aead_open :: "crypto \<Rightarrow> bytes \<Rightarrow> bytes \<Rightarrow> bytes \<Rightarrow> exn + bytes" where
  "aead_open C key blob aad =
     (case cp_open C key (take NONCE_BYTES blob) (drop NONCE_BYTES blob) aad of
        Some p \<Rightarrow> Inr p
      | None \<Rightarrow> Inl (Exn WrongEncryptionToken ''decryption failed: wrong token or tampered data''))"

definition derive_kek :: "crypto \<Rightarrow> text_str \<Rightarrow> bytes \<Rightarrow> bytes" where
  "derive_kek C token salt = cp_hkdf C (removeprefix TOKEN_PREFIX token) salt KEK_INFO"

definition content_subkey :: "crypto \<Rightarrow> bytes \<Rightarrow> bytes \<Rightarrow> bytes" where
  "content_subkey C data_key salt = cp_hkdf C data_key salt CONTENT_SUBKEY_INFO"

text \<open>The random draws are passed in: the salt and the nonce of each sealing.\<close>

definition wrap :: "crypto \<Rightarrow> bytes \<Rightarrow> bytes \<Rightarrow> text_str \<Rightarrow> bytes \<Rightarrow> bytes" where
  "wrap C nonce data_key token salt = aead_seal C nonce (derive_kek C token salt) data_key WRAP_AAD"

definition create_envelope ::
  "crypto \<Rightarrow> bytes \<Rightarrow> bytes \<Rightarrow> bytes \<Rightarrow> text_str \<Rightarrow> encryption_manifest \<times> bytes" where
  "create_envelope C data_key salt nonce token =
     (\<lparr>em_kdf_salt = salt, em_wrapped_data_key = wrap C nonce data_key token salt, em_version = 1\<rparr>, data_key)"

definition open_envelope :: "crypto \<Rightarrow> text_str \<Rightarrow> encryption_manifest \<Rightarrow> exn + bytes" where
  "open_envelope C token manifest =
     aead_open C (derive_kek C token (em_kdf_salt manifest)) (em_wrapped_data_key manifest) WRAP_AAD"

definition rewrap :: "crypto \<Rightarrow> bytes \<Rightarrow> bytes \<Rightarrow> bytes \<Rightarrow> text_str \<Rightarrow> encryption_manifest" where
  "rewrap C salt nonce data_key new_token =
     \<lparr>em_kdf_salt = salt, em_wrapped_data_key = wrap C nonce data_key new_token salt, em_version = 1\<rparr>"

definition encrypt :: "crypto \<Rightarrow> bytes \<Rightarrow> bytes \<Rightarrow> bytes \<Rightarrow> bytes \<Rightarrow> bytes" where
  "encrypt C salt nonce data_key plaintext =
     salt @ aead_seal C nonce (content_subkey C data_key salt) plaintext CONTENT_AAD"

definition decrypt :: "crypto \<Rightarrow> bytes \<Rightarrow> bytes \<Rightarrow> exn + bytes" where
  "decrypt C data_key ciphertext =
     aead_open C (content_subkey C data_key (take CONTENT_SUBKEY_SALT_BYTES ciphertext))
       (drop CONTENT_SUBKEY_SALT_BYTES ciphertext) CONTENT_AAD"

section \<open>Opening what was sealed\<close>

lemma aead_open_seal:
  "aead_correct C \<Longrightarrow> length nonce = NONCE_BYTES \<Longrightarrow>
   aead_open C key (aead_seal C nonce key p aad) aad = Inr p"
  by (simp add: aead_open_def aead_seal_def aead_correct_def)

lemma decrypt_encrypt:
  "aead_correct C \<Longrightarrow> length salt = CONTENT_SUBKEY_SALT_BYTES \<Longrightarrow> length nonce = NONCE_BYTES \<Longrightarrow>
   decrypt C k (encrypt C salt nonce k p) = Inr p"
  by (simp add: decrypt_def encrypt_def aead_open_seal)

lemma open_wrapped:
  "aead_correct C \<Longrightarrow> length nonce = NONCE_BYTES \<Longrightarrow>
   open_envelope C token \<lparr>em_kdf_salt = salt, em_wrapped_data_key = wrap C nonce dk token salt, em_version = v\<rparr> = Inr dk"
  by (simp add: open_envelope_def wrap_def aead_open_seal)

lemma decrypt_error: "decrypt C k c = Inl e \<Longrightarrow> exn_class_of e = WrongEncryptionToken"
  by (auto simp: decrypt_def aead_open_def split: option.splits)

text \<open>The provenance prefix does not enter the derived key.\<close>

lemma derive_kek_prefix:
  "\<not> starts_with TOKEN_PREFIX body \<Longrightarrow>
   derive_kek C (TOKEN_PREFIX @ body) salt = derive_kek C body salt"
  by (simp add: derive_kek_def removeprefix_def)

section \<open>Property\<close>

text \<open>C4: the token opens the envelope it created, with or without its \<open>gmlc_\<close> prefix, and a
  rewrapped envelope opens to the same data key under the new token: rotating the token never
  changes the key that the content is sealed under.\<close>

theorem envelope_round_trip:
  assumes "aead_correct C" and "length nonce = NONCE_BYTES" and "length nonce' = NONCE_BYTES"
    and "\<not> starts_with TOKEN_PREFIX body"
  shows "open_envelope C body (fst (create_envelope C dk salt nonce (TOKEN_PREFIX @ body))) = Inr dk
    \<and> open_envelope C (TOKEN_PREFIX @ body) (fst (create_envelope C dk salt nonce body)) = Inr dk
    \<and> open_envelope C new_token (rewrap C salt' nonce' dk new_token) = Inr dk"
  using assms
  by (simp add: create_envelope_def rewrap_def open_envelope_def wrap_def aead_open_seal derive_kek_prefix)

text \<open>A cipher with the library's documented round trip, for concrete evaluations.\<close>

definition sample_crypto :: crypto where
  "sample_crypto =
     \<lparr>cp_hkdf = (\<lambda>ikm salt info. ikm @ salt @ info),
      cp_seal = (\<lambda>k n p a. k @ n @ a @ p),
      cp_open = (\<lambda>k n c a. if starts_with (k @ n @ a) c then Some (drop (length (k @ n @ a)) c) else None)\<rparr>"

lemma sample_crypto_correct: "aead_correct sample_crypto"
  using starts_with_append [of "_ @ _ @ _"]
  by (simp add: aead_correct_def sample_crypto_def)

theorem envelope_round_trip_witness:
  "open_envelope sample_crypto ''ab''
       (fst (create_envelope sample_crypto ''key'' ''salt'' ''123456789012'' (TOKEN_PREFIX @ ''ab''))) = Inr ''key''
   \<and> open_envelope sample_crypto (TOKEN_PREFIX @ ''ab'')
       (fst (create_envelope sample_crypto ''key'' ''salt'' ''123456789012'' ''ab'')) = Inr ''key''
   \<and> open_envelope sample_crypto ''cd'' (rewrap sample_crypto ''tlas'' ''210987654321'' ''key'' ''cd'') = Inr ''key''"
  by (rule envelope_round_trip [OF sample_crypto_correct])
    (simp_all add: NONCE_BYTES_def TOKEN_PREFIX_def starts_with_def)

end
