(* ===== verification/Blob_Store.thy ===== *)
theory Blob_Store
  imports Cipher
begin

text \<open>
  The blob store port and its three adapters (\<open>storage/filesystem_blob_store.py\<close>,
  \<open>crypto/encrypting_blob_store.py\<close>): a directory of files addressed by validated keys, the
  decorator that encrypts them, and the stand-in of an encrypted store without its token. Every
  filesystem operation may fail: \<open>be_fault\<close> says of the n-th operation whether it raises, what,
  and whether a write or an unlink had already taken effect. Random bytes come from \<open>be_random\<close>.
  The contract of the port is the locale \<open>blob_contract\<close>.
\<close>

type_synonym blob_files = "text_str \<Rightarrow> bytes option"

record blob_fs =
  bf_files :: blob_files
  bf_ops :: nat

record blob_env =
  be_digest :: "bytes \<Rightarrow> text_str"
  be_fault :: "nat \<Rightarrow> (bool \<times> exn) option"
  be_crypto :: crypto
  be_random :: "nat \<Rightarrow> nat \<Rightarrow> bytes"

section \<open>The filesystem store\<close>

definition tick :: "(blob_fs, nat) prog" where
  "tick = (\<lambda>s. (Inr (bf_ops s), s\<lparr>bf_ops := Suc (bf_ops s)\<rparr>))"

definition translate_os_error :: "text_str \<Rightarrow> exn \<Rightarrow> exn" where
  "translate_os_error what e =
     (if exn_class_of e = OSError then Exn StoreUnavailable (what @ exn_message e) else e)"

definition fs_get :: "blob_env \<Rightarrow> text_str \<Rightarrow> (blob_fs, bytes option) prog" where
  "fs_get E key =
     bindP (liftE (BlobKey key)) (\<lambda>path.
     bindP (getsP (\<lambda>s. bf_files s path)) (\<lambda>present.
     case present of
       None \<Rightarrow> ret None
     | Some data \<Rightarrow>
         bindP tick (\<lambda>n. case be_fault E n of
           None \<Rightarrow> ret (Some data)
         | Some (_, e) \<Rightarrow> raise (translate_os_error ''blob store read failed: '' e))))"

definition fs_put :: "blob_env \<Rightarrow> text_str \<Rightarrow> bytes \<Rightarrow> (blob_fs, unit) prog" where
  "fs_put E key output =
     bindP (liftE (BlobKey key)) (\<lambda>path.
     bindP tick (\<lambda>n.
     let write = modifyP (\<lambda>s. s\<lparr>bf_files := (bf_files s)(path \<mapsto> output)\<rparr>)
     in case be_fault E n of
          None \<Rightarrow> write
        | Some (landed, e) \<Rightarrow>
            thenP (whenP landed write) (raise (translate_os_error ''blob store write failed: '' e))))"

definition fs_remove :: "blob_env \<Rightarrow> text_str \<Rightarrow> (blob_fs, unit) prog" where
  "fs_remove E key =
     bindP (liftE (BlobKey key)) (\<lambda>path.
     bindP tick (\<lambda>n.
     let unlink = modifyP (\<lambda>s. s\<lparr>bf_files := (bf_files s)(path := None)\<rparr>)
     in case be_fault E n of
          None \<Rightarrow> unlink
        | Some (landed, e) \<Rightarrow>
            thenP (whenP landed unlink) (raise (translate_os_error ''blob store remove failed: '' e))))"

text \<open>The canary is written under a directory of its own and removed: no blob changes.\<close>

definition fs_is_healthy :: "blob_env \<Rightarrow> (blob_fs, bool) prog" where
  "fs_is_healthy E =
     bindP tick (\<lambda>n. case be_fault E n of
       None \<Rightarrow> ret True
     | Some (_, e) \<Rightarrow> if exn_class_of e = OSError then ret False else raise e)"

section \<open>The stores\<close>

datatype blob_store =
    FilesystemBlobStore
  | EncryptingBlobStore blob_store bytes
  | TokenRequiredBlobStore blob_store

definition token_required :: "text_str \<Rightarrow> exn" where
  "token_required what = Exn EncryptionTokenRequired (''the store is encrypted, provide the token to '' @ what)"

definition random_bytes :: "blob_env \<Rightarrow> nat \<Rightarrow> (blob_fs, bytes) prog" where
  "random_bytes E len = bindP tick (\<lambda>n. ret (be_random E n len))"

fun store_get :: "blob_env \<Rightarrow> blob_store \<Rightarrow> text_str \<Rightarrow> (blob_fs, bytes option) prog" where
  "store_get E FilesystemBlobStore key = fs_get E key"
| "store_get E (EncryptingBlobStore inner data_key) key =
     bindP (liftE (BlobKey key)) (\<lambda>key.
     bindP (store_get E inner key) (\<lambda>blob.
     case blob of
       None \<Rightarrow> ret None
     | Some c \<Rightarrow>
         (case decrypt (be_crypto E) data_key c of
            Inr p \<Rightarrow> ret (Some p)
          | Inl e \<Rightarrow>
              if exn_class_of e = WrongEncryptionToken
              then raise (Exn StoreCorrupt (''blob '' @ key @ '' failed to decrypt with a valid token''))
              else raise e)))"
| "store_get E (TokenRequiredBlobStore inner) key = raise (token_required ''read it'')"

fun store_put :: "blob_env \<Rightarrow> blob_store \<Rightarrow> text_str \<Rightarrow> bytes \<Rightarrow> (blob_fs, unit) prog" where
  "store_put E FilesystemBlobStore key output = fs_put E key output"
| "store_put E (EncryptingBlobStore inner data_key) key output =
     bindP (liftE (BlobKey key)) (\<lambda>key.
     bindP (random_bytes E CONTENT_SUBKEY_SALT_BYTES) (\<lambda>salt.
     bindP (random_bytes E NONCE_BYTES) (\<lambda>nonce.
     store_put E inner key (encrypt (be_crypto E) salt nonce data_key output))))"
| "store_put E (TokenRequiredBlobStore inner) key output = raise (token_required ''record'')"

fun store_remove :: "blob_env \<Rightarrow> blob_store \<Rightarrow> text_str \<Rightarrow> (blob_fs, unit) prog" where
  "store_remove E FilesystemBlobStore key = fs_remove E key"
| "store_remove E (EncryptingBlobStore inner data_key) key =
     bindP (liftE (BlobKey key)) (store_remove E inner)"
| "store_remove E (TokenRequiredBlobStore inner) key =
     bindP (liftE (BlobKey key)) (store_remove E inner)"

fun store_is_healthy :: "blob_env \<Rightarrow> blob_store \<Rightarrow> (blob_fs, bool) prog" where
  "store_is_healthy E FilesystemBlobStore = fs_is_healthy E"
| "store_is_healthy E (EncryptingBlobStore inner data_key) = store_is_healthy E inner"
| "store_is_healthy E (TokenRequiredBlobStore inner) = store_is_healthy E inner"

text \<open>The port's default is a no-op; only the stand-in overrides it.\<close>

fun ensure_available_for_content :: "blob_store \<Rightarrow> exn + unit" where
  "ensure_available_for_content FilesystemBlobStore = Inr ()"
| "ensure_available_for_content (EncryptingBlobStore inner data_key) = Inr ()"
| "ensure_available_for_content (TokenRequiredBlobStore inner) = Inl (token_required ''run a content operation'')"

section \<open>The contract of the port\<close>

text \<open>
  \<open>content s k\<close> is what the store holds under \<open>k\<close>. A read changes nothing and returns it; a
  write or a removal that returns has taken effect on its key alone, and one that raises has
  either taken effect or left everything as it was.
\<close>

locale blob_contract =
  fixes content :: "'s \<Rightarrow> text_str \<Rightarrow> bytes option"
    and get :: "text_str \<Rightarrow> ('s, bytes option) prog"
    and put :: "text_str \<Rightarrow> bytes \<Rightarrow> ('s, unit) prog"
    and remove :: "text_str \<Rightarrow> ('s, unit) prog"
  assumes get_returns: "get k s = (Inr r, s') \<Longrightarrow> r = content s k"
    and get_keeps: "get k s = (x, s') \<Longrightarrow> content s' = content s"
    and put_returns: "put k v s = (Inr u, s') \<Longrightarrow> content s' = (content s)(k \<mapsto> v)"
    and put_raises: "put k v s = (Inl e, s') \<Longrightarrow> content s' = content s \<or> content s' = (content s)(k \<mapsto> v)"
    and remove_returns: "remove k s = (Inr u, s') \<Longrightarrow> content s' = (content s)(k := None)"
    and remove_raises: "remove k s = (Inl e, s') \<Longrightarrow> content s' = content s \<or> content s' = (content s)(k := None)"
begin

lemma get_after_put:
  "put k v s = (Inr u, s1) \<Longrightarrow> get k s1 = (Inr r, s2) \<Longrightarrow> r = Some v"
  by (auto dest!: put_returns get_returns)

lemma put_other: "put k v s = (x, s') \<Longrightarrow> j \<noteq> k \<Longrightarrow> content s' j = content s j"
  by (cases x) (auto dest!: put_returns put_raises)

lemma remove_other: "remove k s = (x, s') \<Longrightarrow> j \<noteq> k \<Longrightarrow> content s' j = content s j"
  by (cases x) (auto dest!: remove_returns remove_raises)

lemma remove_never_adds: "remove k s = (x, s') \<Longrightarrow> content s' j \<noteq> None \<Longrightarrow> content s' j = content s j"
  by (cases x) (auto dest!: remove_returns remove_raises split: if_splits)

lemma removes_all:
  "for_each remove ks s = (Inr u, s') \<Longrightarrow>
   content s' = (\<lambda>k. if k \<in> set ks then None else content s k)"
proof (induction ks arbitrary: s)
  case (Cons k ks)
  then obtain s1 where "remove k s = (Inr (), s1)" and "for_each remove ks s1 = (Inr u, s')"
    by (auto simp: thenP_def bindP_def split: prod.splits sum.splits)
  with Cons.IH show ?case by (auto simp: fun_eq_iff dest!: remove_returns)
qed auto

end

lemmas fs_defs = fs_get_def fs_put_def fs_remove_def tick_def bindP_def thenP_def whenP_def Let_def

interpretation fs: blob_contract bf_files "fs_get E" "fs_put E" "fs_remove E" for E
  by unfold_locales
    (auto simp: fs_defs split: sum.splits option.splits prod.splits if_splits)

section \<open>Every store of the model keeps the contract\<close>

text \<open>What a store holds, read through its decorators.\<close>

fun content_of :: "blob_env \<Rightarrow> blob_store \<Rightarrow> blob_fs \<Rightarrow> text_str \<Rightarrow> bytes option" where
  "content_of E FilesystemBlobStore s = bf_files s"
| "content_of E (EncryptingBlobStore inner data_key) s =
     (\<lambda>k. case content_of E inner s k of
            None \<Rightarrow> None
          | Some c \<Rightarrow> (case decrypt (be_crypto E) data_key c of Inr p \<Rightarrow> Some p | Inl e \<Rightarrow> None))"
| "content_of E (TokenRequiredBlobStore inner) s = content_of E inner s"

definition blob_env_ok :: "blob_env \<Rightarrow> bool" where
  "blob_env_ok E \<longleftrightarrow> aead_correct (be_crypto E) \<and> (\<forall>n len. length (be_random E n len) = len)"

lemma content_of_tick [simp]: "content_of E st (s\<lparr>bf_ops := n\<rparr>) = content_of E st s"
  by (induction st) auto

lemma decrypt_random:
  "blob_env_ok E \<Longrightarrow>
   decrypt (be_crypto E) dk
     (encrypt (be_crypto E) (be_random E n CONTENT_SUBKEY_SALT_BYTES) (be_random E m NONCE_BYTES) dk p) = Inr p"
  by (intro decrypt_encrypt) (simp_all add: blob_env_ok_def)

lemmas store_run = bindP_def tick_def random_bytes_def

lemma encrypting_contract:
  assumes ok: "blob_env_ok E"
    and inner: "blob_contract (content_of E st) (store_get E st) (store_put E st) (store_remove E st)"
  shows "blob_contract (content_of E (EncryptingBlobStore st dk)) (store_get E (EncryptingBlobStore st dk))
           (store_put E (EncryptingBlobStore st dk)) (store_remove E (EncryptingBlobStore st dk))"
proof (unfold_locales, goal_cases)
  case (1 k s r s')
  then show ?case
    by (auto simp: store_run split: prod.splits sum.splits option.splits if_splits
        dest!: blob_contract.get_returns [OF inner])
next
  case (2 k s x s')
  then show ?case
    by (auto simp: store_run split: prod.splits sum.splits option.splits if_splits
        dest!: blob_contract.get_keeps [OF inner])
next
  case (3 k v s u s')
  then show ?case
    by (auto simp: store_run decrypt_random [OF ok] split: prod.splits sum.splits
        dest!: blob_contract.put_returns [OF inner])
next
  case (4 k v s e s')
  then show ?case
    by (auto simp: store_run decrypt_random [OF ok] split: prod.splits sum.splits
        dest!: blob_contract.put_raises [OF inner])
next
  case (5 k s u s')
  then show ?case
    by (auto simp: store_run split: prod.splits sum.splits dest!: blob_contract.remove_returns [OF inner])
next
  case (6 k s e s')
  then show ?case
    by (auto simp: store_run split: prod.splits sum.splits dest!: blob_contract.remove_raises [OF inner])
qed

lemma token_required_contract:
  assumes inner: "blob_contract (content_of E st) (store_get E st) (store_put E st) (store_remove E st)"
  shows "blob_contract (content_of E (TokenRequiredBlobStore st)) (store_get E (TokenRequiredBlobStore st))
           (store_put E (TokenRequiredBlobStore st)) (store_remove E (TokenRequiredBlobStore st))"
proof (unfold_locales, goal_cases)
  case (5 k s u s')
  then show ?case
    by (auto simp: store_run split: prod.splits sum.splits dest!: blob_contract.remove_returns [OF inner])
next
  case (6 k s e s')
  then show ?case
    by (auto simp: store_run split: prod.splits sum.splits dest!: blob_contract.remove_raises [OF inner])
qed auto

lemma store_contract:
  "blob_env_ok E \<Longrightarrow> blob_contract (content_of E st) (store_get E st) (store_put E st) (store_remove E st)"
proof (induction st)
  case FilesystemBlobStore
  show ?case using fs.blob_contract_axioms by (simp add: blob_contract_def fun_eq_iff)
next
  case (EncryptingBlobStore st dk)
  then show ?case by (intro encrypting_contract) auto
next
  case (TokenRequiredBlobStore st)
  then show ?case by (intro token_required_contract) auto
qed

section \<open>Keys that are not valid never reach the directory\<close>

lemma store_invalid_key:
  assumes "\<not> blob_key_ok key"
  shows "\<exists>e. store_get E st key s = (Inl e, s) \<and> exn_class_of e \<in> {ValueError, EncryptionTokenRequired}"
    and "\<exists>e. store_put E st key v s = (Inl e, s) \<and> exn_class_of e \<in> {ValueError, EncryptionTokenRequired}"
    and "\<exists>e. store_remove E st key s = (Inl e, s) \<and> exn_class_of e = ValueError"
  using assms by (cases st; simp add: fs_defs BlobKey_def token_required_def)+

text \<open>Only files with a valid key as their name are ever created.\<close>

definition only_valid_names :: "blob_fs \<Rightarrow> bool" where
  "only_valid_names s \<longleftrightarrow> (\<forall>k. bf_files s k \<noteq> None \<longrightarrow> blob_key_ok k)"

lemma steps_tick: "(\<And>s. R s (s\<lparr>bf_ops := Suc (bf_ops s)\<rparr>)) \<Longrightarrow> steps R tick"
  by (simp add: steps_def tick_def)

lemma store_get_files: "steps (keeping bf_files) (store_get E st key)"
proof (induction st arbitrary: key)
  case FilesystemBlobStore
  show ?case unfolding steps_def keeping_def
    by (simp add: fs_defs split: sum.splits option.splits prod.splits)
next
  case (EncryptingBlobStore st dk)
  show ?case
    unfolding store_get.simps
    by (intro steps_rules EncryptingBlobStore.IH preorder_keeping)
      (auto intro!: steps_rules split: sum.splits)
qed (auto intro!: steps_rules)

lemma store_put_names: "steps (invariantly only_valid_names) (store_put E st key v)"
proof (induction st arbitrary: key v)
  case FilesystemBlobStore
  show ?case unfolding steps_def invariantly_def only_valid_names_def
    by (auto simp: fs_defs split: sum.splits option.splits prod.splits)
next
  case (EncryptingBlobStore st dk)
  have "steps (invariantly only_valid_names) (random_bytes E n)" for n
    unfolding random_bytes_def
    by (intro steps_rules steps_tick) (auto simp: invariantly_def only_valid_names_def)
  then show ?case
    unfolding store_put.simps by (intro steps_rules EncryptingBlobStore.IH preorder_invariantly)
qed (auto intro!: steps_rules)

lemma store_remove_names: "steps (invariantly only_valid_names) (store_remove E st key)"
proof (induction st arbitrary: key)
  case FilesystemBlobStore
  show ?case unfolding steps_def invariantly_def only_valid_names_def
    by (auto simp: fs_defs split: sum.splits option.splits prod.splits)
qed (auto intro!: steps_rules preorder_invariantly)

section \<open>Without faults\<close>

definition no_faults :: "blob_env \<Rightarrow> bool" where
  "no_faults E \<longleftrightarrow> be_fault E = (\<lambda>_. None)"

fun serves_content :: "blob_store \<Rightarrow> bool" where
  "serves_content FilesystemBlobStore = True"
| "serves_content (EncryptingBlobStore inner data_key) = serves_content inner"
| "serves_content (TokenRequiredBlobStore inner) = False"

lemma store_put_no_fault:
  "no_faults E \<Longrightarrow> serves_content st \<Longrightarrow> blob_key_ok k \<Longrightarrow> \<exists>s'. store_put E st k v s = (Inr (), s')"
proof (induction st arbitrary: v s)
  case (EncryptingBlobStore st dk)
  then show ?case by (simp add: store_run BlobKey_def)
qed (auto simp: fs_defs BlobKey_def no_faults_def)

lemma store_get_no_fault:
  assumes "blob_env_ok E" and "no_faults E" and "serves_content st" and "blob_key_ok k"
    and "content_of E st s k = Some v"
  shows "\<exists>s'. store_get E st k s = (Inr (Some v), s')"
  using assms
proof (induction st arbitrary: v s)
  case (EncryptingBlobStore st dk)
  then obtain c where c: "content_of E st s k = Some c" and p: "decrypt (be_crypto E) dk c = Inr v"
    by (auto split: option.splits sum.splits)
  with EncryptingBlobStore show ?case by (fastforce simp: store_run BlobKey_def)
qed (auto simp: fs_defs BlobKey_def no_faults_def)

section \<open>Properties\<close>

text \<open>C5: what is put is what is read. On a store that serves content, plain or encrypted through any
  number of layers, and with no filesystem fault, a put of a valid key returns and the next get of it
  returns exactly the bytes that were put, while every other key still holds what it held.\<close>

theorem store_read_back:
  assumes "blob_env_ok E" and "no_faults E" and "serves_content st" and "blob_key_ok k"
  shows "\<exists>s1 s2. store_put E st k v s = (Inr (), s1) \<and> store_get E st k s1 = (Inr (Some v), s2)
           \<and> (\<forall>j. j \<noteq> k \<longrightarrow> content_of E st s2 j = content_of E st s j)"
proof -
  note contract = store_contract [OF assms(1), of st]
  obtain s1 where s1: "store_put E st k v s = (Inr (), s1)"
    using assms store_put_no_fault by blast
  then have content: "content_of E st s1 = (content_of E st s)(k \<mapsto> v)"
    using blob_contract.put_returns [OF contract] by blast
  then obtain s2 where s2: "store_get E st k s1 = (Inr (Some v), s2)"
    using store_get_no_fault [OF assms] by fastforce
  with content have "content_of E st s2 = (content_of E st s)(k \<mapsto> v)"
    using blob_contract.get_keeps [OF contract] by metis
  with s1 s2 show ?thesis by auto
qed

definition sample_blob_env :: blob_env where
  "sample_blob_env =
     \<lparr>be_digest = sha256_hexdigest, be_fault = (\<lambda>_. None), be_crypto = sample_crypto,
      be_random = (\<lambda>n len. replicate len (digit_char (n mod 10)))\<rparr>"

lemma sample_blob_env_ok: "blob_env_ok sample_blob_env" "no_faults sample_blob_env"
  by (simp_all add: blob_env_ok_def no_faults_def sample_blob_env_def sample_crypto_correct)

definition empty_blob_fs :: blob_fs where
  "empty_blob_fs = \<lparr>bf_files = (\<lambda>_. None), bf_ops = 0\<rparr>"

theorem store_read_back_witness:
  "\<exists>s1 s2. store_put sample_blob_env (EncryptingBlobStore FilesystemBlobStore ''dk'') ''a_1'' ''data'' empty_blob_fs = (Inr (), s1)
     \<and> store_get sample_blob_env (EncryptingBlobStore FilesystemBlobStore ''dk'') ''a_1'' s1 = (Inr (Some ''data''), s2)
     \<and> (\<forall>j. j \<noteq> ''a_1'' \<longrightarrow>
          content_of sample_blob_env (EncryptingBlobStore FilesystemBlobStore ''dk'') s2 j
          = content_of sample_blob_env (EncryptingBlobStore FilesystemBlobStore ''dk'') empty_blob_fs j)"
  by (rule store_read_back [OF sample_blob_env_ok])
    (simp_all add: blob_key_ok_def blob_key_char_def)

text \<open>C6: the store never leaves its directory. A key that is not a valid blob key (a path with a
  separator, \<open>..\<close>, an empty or over-long name) is refused by every operation of every store
  before anything is read or written, and no operation ever creates a file whose name is not a
  valid key, whatever faults occur.\<close>

theorem store_contains_keys:
  "(\<not> blob_key_ok key \<longrightarrow>
      (\<exists>e. store_get E st key s = (Inl e, s)) \<and> (\<exists>e. store_put E st key v s = (Inl e, s))
      \<and> (\<exists>e. store_remove E st key s = (Inl e, s)))
   \<and> (only_valid_names s \<longrightarrow>
      only_valid_names (snd (store_get E st key s)) \<and> only_valid_names (snd (store_put E st key v s))
      \<and> only_valid_names (snd (store_remove E st key s)))
   \<and> (blob_key_ok key \<longrightarrow> CHR ''/'' \<notin> set key \<and> key \<notin> {[], ''.'', ''..''})"
proof (intro conjI impI)
  assume "\<not> blob_key_ok key"
  then show "\<exists>e. store_get E st key s = (Inl e, s)" "\<exists>e. store_put E st key v s = (Inl e, s)"
    "\<exists>e. store_remove E st key s = (Inl e, s)"
    using store_invalid_key by blast+
next
  assume s: "only_valid_names s"
  have "bf_files (snd (store_get E st key s)) = bf_files s"
    using store_get_files unfolding steps_def keeping_def by blast
  with s show "only_valid_names (snd (store_get E st key s))" by (simp only: only_valid_names_def)
  from s show "only_valid_names (snd (store_put E st key v s))"
    using store_put_names unfolding steps_def invariantly_def by blast
  from s show "only_valid_names (snd (store_remove E st key s))"
    using store_remove_names unfolding steps_def invariantly_def by blast
next
  assume "blob_key_ok key"
  then show "CHR ''/'' \<notin> set key" "key \<notin> {[], ''.'', ''..''}"
    using blob_key_ok_no_separator by (blast, auto simp: blob_key_ok_def)
qed

theorem store_contains_keys_witness:
  "\<exists>e. store_put sample_blob_env FilesystemBlobStore ''../x'' ''data'' empty_blob_fs = (Inl e, empty_blob_fs)"
  using store_contains_keys [where key = "''../x''" and E = sample_blob_env and st = FilesystemBlobStore
      and s = empty_blob_fs and v = "''data''"]
  by (simp add: blob_key_ok_def blob_key_char_def)

end
