(* ===== verification/Call_Journal.thy ===== *)
theory Call_Journal
  imports Domain_Model
begin

text \<open>
  \<open>metrics/access_registry.py\<close> and \<open>metrics/journal_metrics.py\<close>: the side log of cache
  accesses, session tags and session specs. Every operation swallows its own errors: the
  environment says which operation fails, with what, and whether its commit had landed. An
  exception that is no \<open>Exception\<close> (\<open>KeyboardInterrupt\<close>) is the only one that leaves it.
\<close>

section \<open>Tables and environment\<close>

text \<open>\<open>common/journal_events.py\<close>.\<close>

definition EV_HIT :: text_str where "EV_HIT = ''hit''"
definition EV_RECORD :: text_str where "EV_RECORD = ''record''"
definition EV_MISS :: text_str where "EV_MISS = ''miss''"
definition EV_RUN :: text_str where "EV_RUN = ''run''"
definition EV_WOULD_HIT :: text_str where "EV_WOULD_HIT = ''would_hit''"
definition EV_WOULD_MISS :: text_str where "EV_WOULD_MISS = ''would_miss''"

record session_spec =
  sp_client :: text_str
  sp_model :: text_str
  sp_effort :: text_str

record access_event =
  ae_ts :: text_str
  ae_event :: text_str
  ae_match_key :: "text_str option"
  ae_client :: text_str
  ae_model :: text_str
  ae_effort :: text_str
  ae_session_id :: "text_str option"

record registry =
  rg_events :: "access_event list"
  rg_tags :: "(text_str \<times> text_str) list"
  rg_specs :: "(text_str \<times> session_spec) list"
  rg_ops :: nat

definition empty_registry :: registry where
  "empty_registry = \<lparr>rg_events = [], rg_tags = [], rg_specs = [], rg_ops = 0\<rparr>"

record registry_env =
  re_fault :: "nat \<Rightarrow> (bool \<times> exn) option"
  re_now :: "nat \<Rightarrow> text_str"
  re_epoch :: "text_str \<Rightarrow> rat option"

text \<open>\<open>try: connect, execute, commit; except Exception: warn\<close>.\<close>

definition reg_write :: "registry_env \<Rightarrow> (nat \<Rightarrow> registry \<Rightarrow> registry) \<Rightarrow> (registry, unit) prog" where
  "reg_write E f =
     (\<lambda>s. let n = rg_ops s; s' = s\<lparr>rg_ops := Suc n\<rparr>
          in case re_fault E n of
               None \<Rightarrow> (Inr (), f n s')
             | Some (landed, e) \<Rightarrow>
                 (if is_exception e then Inr () else Inl e, if landed then f n s' else s'))"

definition reg_read :: "registry_env \<Rightarrow> 'a \<Rightarrow> (registry \<Rightarrow> 'a) \<Rightarrow> (registry, 'a) prog" where
  "reg_read E dflt query =
     (\<lambda>s. let n = rg_ops s; s' = s\<lparr>rg_ops := Suc n\<rparr>
          in case re_fault E n of
               None \<Rightarrow> (Inr (query s'), s')
             | Some (_, e) \<Rightarrow> (if is_exception e then Inr dflt else Inl e, s'))"

section \<open>Operations\<close>

definition record_event ::
  "registry_env \<Rightarrow> text_str \<Rightarrow> text_str option \<Rightarrow> text_str \<Rightarrow> text_str \<Rightarrow> text_str \<Rightarrow> text_str option
     \<Rightarrow> (registry, unit) prog" where
  "record_event E event match_key client model effort session_id =
     reg_write E (\<lambda>n s. s\<lparr>rg_events := rg_events s @
       [\<lparr>ae_ts = re_now E n, ae_event = event, ae_match_key = match_key, ae_client = client,
         ae_model = model, ae_effort = effort, ae_session_id = session_id\<rparr>]\<rparr>)"

definition count_by :: "('e \<Rightarrow> text_str) \<Rightarrow> 'e list \<Rightarrow> (text_str \<times> nat) list" where
  "count_by f es = map (\<lambda>k. (k, length (filter (\<lambda>e. f e = k) es))) (remdups (map f es))"

definition keyed_events :: "access_event list \<Rightarrow> access_event list" where
  "keyed_events es = filter (\<lambda>e. ae_match_key e \<noteq> None) es"

definition hit_counts_by_key :: "registry_env \<Rightarrow> (registry, (text_str \<times> nat) list) prog" where
  "hit_counts_by_key E =
     reg_read E [] (\<lambda>s. count_by (\<lambda>e. the (ae_match_key e))
       (filter (\<lambda>e. ae_event e = EV_HIT) (keyed_events (rg_events s))))"

definition event_counts :: "registry_env \<Rightarrow> (registry, (text_str \<times> nat) list) prog" where
  "event_counts E = reg_read E [] (\<lambda>s. count_by ae_event (rg_events s))"

definition in_session :: "text_str \<Rightarrow> access_event list \<Rightarrow> access_event list" where
  "in_session session_id es = filter (\<lambda>e. ae_session_id e = Some session_id) es"

definition session_event_counts :: "registry_env \<Rightarrow> text_str \<Rightarrow> (registry, (text_str \<times> nat) list) prog" where
  "session_event_counts E session_id =
     reg_read E [] (\<lambda>s. count_by ae_event (in_session session_id (rg_events s)))"

record session_event_row =
  sr_ts :: text_str
  sr_event :: text_str
  sr_client :: text_str
  sr_model :: text_str
  sr_execution_key :: "text_str option"

definition session_events :: "registry_env \<Rightarrow> text_str \<Rightarrow> (registry, session_event_row list) prog" where
  "session_events E session_id =
     reg_read E [] (\<lambda>s. map (\<lambda>e. \<lparr>sr_ts = ae_ts e, sr_event = ae_event e, sr_client = ae_client e,
       sr_model = ae_model e, sr_execution_key = ae_match_key e\<rparr>) (in_session session_id (rg_events s)))"

definition execution_keys_for_session :: "registry_env \<Rightarrow> text_str \<Rightarrow> (registry, text_str list) prog" where
  "execution_keys_for_session E session_id =
     reg_read E [] (\<lambda>s. remdups (map (\<lambda>e. the (ae_match_key e))
       (keyed_events (in_session session_id (rg_events s)))))"

definition delete_events_for_key :: "registry_env \<Rightarrow> text_str \<Rightarrow> (registry, unit) prog" where
  "delete_events_for_key E key =
     reg_write E (\<lambda>n s. s\<lparr>rg_events := filter (\<lambda>e. ae_match_key e \<noteq> Some key) (rg_events s)\<rparr>)"

definition add_session_tag :: "registry_env \<Rightarrow> text_str \<Rightarrow> text_str \<Rightarrow> (registry, unit) prog" where
  "add_session_tag E session_id tag =
     reg_write E (\<lambda>n s. if (session_id, tag) \<in> set (rg_tags s) then s
                        else s\<lparr>rg_tags := rg_tags s @ [(session_id, tag)]\<rparr>)"

definition remove_session_tag :: "registry_env \<Rightarrow> text_str \<Rightarrow> text_str \<Rightarrow> (registry, unit) prog" where
  "remove_session_tag E session_id tag =
     reg_write E (\<lambda>n s. s\<lparr>rg_tags := filter (\<lambda>t. t \<noteq> (session_id, tag)) (rg_tags s)\<rparr>)"

definition session_tags_for_id :: "registry_env \<Rightarrow> text_str \<Rightarrow> (registry, text_str list) prog" where
  "session_tags_for_id E session_id =
     reg_read E [] (\<lambda>s. sort (remdups (map snd (filter (\<lambda>t. fst t = session_id) (rg_tags s)))))"

definition session_ids_for_tag :: "registry_env \<Rightarrow> text_str \<Rightarrow> (registry, text_str list) prog" where
  "session_ids_for_tag E tag =
     reg_read E [] (\<lambda>s. remdups (map fst (filter (\<lambda>t. snd t = tag) (rg_tags s))))"

definition set_session_spec :: "registry_env \<Rightarrow> text_str \<Rightarrow> session_spec \<Rightarrow> (registry, unit) prog" where
  "set_session_spec E session_id spec =
     reg_write E (\<lambda>n s. s\<lparr>rg_specs :=
       if session_id \<in> fst ` set (rg_specs s)
       then map (\<lambda>p. if fst p = session_id then (session_id, spec) else p) (rg_specs s)
       else rg_specs s @ [(session_id, spec)]\<rparr>)"

definition clear_session_spec :: "registry_env \<Rightarrow> text_str \<Rightarrow> (registry, unit) prog" where
  "clear_session_spec E session_id =
     reg_write E (\<lambda>n s. s\<lparr>rg_specs := filter (\<lambda>p. fst p \<noteq> session_id) (rg_specs s)\<rparr>)"

definition session_spec_for_id :: "registry_env \<Rightarrow> text_str \<Rightarrow> (registry, session_spec option) prog" where
  "session_spec_for_id E session_id = reg_read E None (\<lambda>s. map_of (rg_specs s) session_id)"

text \<open>The union of three selects, which SQLite returns without duplicates in sorted order.\<close>

definition list_session_ids :: "registry_env \<Rightarrow> (registry, text_str list) prog" where
  "list_session_ids E =
     reg_read E [] (\<lambda>s. sort (remdups
       (concat (map (\<lambda>e. case ae_session_id e of None \<Rightarrow> [] | Some i \<Rightarrow> [i]) (rg_events s))
        @ map fst (rg_tags s) @ map fst (rg_specs s))))"

text \<open>
  The latest access of each key. \<open>MAX(ts)\<close> compares texts; a timestamp that does not parse is
  skipped, and a failed read is \<open>None\<close>, which the caller can tell from an empty registry.
\<close>

definition latest_ts :: "access_event list \<Rightarrow> text_str \<Rightarrow> text_str" where
  "latest_ts es key = Max (set (map ae_ts (filter (\<lambda>e. ae_match_key e = Some key) es)))"

definition last_access :: "registry_env \<Rightarrow> (registry, (text_str \<times> rat) list option) prog" where
  "last_access E =
     reg_read E None (\<lambda>s. Some (concat (map (\<lambda>key.
       case re_epoch E (latest_ts (rg_events s) key) of None \<Rightarrow> [] | Some t \<Rightarrow> [(key, t)])
       (remdups (map (\<lambda>e. the (ae_match_key e)) (keyed_events (rg_events s)))))))"

section \<open>The registry never fails its caller\<close>

definition only_exceptions :: "(nat \<Rightarrow> (bool \<times> exn) option) \<Rightarrow> bool" where
  "only_exceptions fault \<longleftrightarrow> (\<forall>n landed e. fault n = Some (landed, e) \<longrightarrow> is_exception e)"

lemma reg_write_returns: "only_exceptions (re_fault E) \<Longrightarrow> \<exists>s'. reg_write E f s = (Inr (), s')"
  by (auto simp: reg_write_def Let_def only_exceptions_def split: option.splits)

lemma reg_read_returns: "only_exceptions (re_fault E) \<Longrightarrow> \<exists>a s'. reg_read E d q s = (Inr a, s')"
  by (auto simp: reg_read_def Let_def only_exceptions_def split: option.splits)

lemma reg_read_keeps: "reg_read E d q s = (r, s') \<Longrightarrow> s' = s\<lparr>rg_ops := Suc (rg_ops s)\<rparr>"
  by (auto simp: reg_read_def Let_def split: option.splits prod.splits)

lemma reg_write_error: "reg_write E f s = (Inl e, s') \<Longrightarrow> \<not> is_exception e"
  by (auto simp: reg_write_def Let_def split: option.splits if_splits)

lemma reg_write_cases:
  "reg_write E f s = (r, s') \<Longrightarrow>
   s' = s\<lparr>rg_ops := Suc (rg_ops s)\<rparr> \<or> s' = f (rg_ops s) (s\<lparr>rg_ops := Suc (rg_ops s)\<rparr>)"
  by (auto simp: reg_write_def Let_def split: option.splits if_splits)

text \<open>An event is appended at most once, and exactly once when the operation does not fail.\<close>

lemma record_event_appends:
  assumes "record_event E event key c m ef sid s = (r, s')"
  shows "rg_events s' = rg_events s \<or>
    (\<exists>t. rg_events s' = rg_events s @
      [\<lparr>ae_ts = t, ae_event = event, ae_match_key = key, ae_client = c, ae_model = m, ae_effort = ef,
        ae_session_id = sid\<rparr>])"
  using reg_write_cases assms unfolding record_event_def by fastforce

lemma record_event_no_fault:
  "re_fault E (rg_ops s) = None \<Longrightarrow>
   record_event E event key c m ef sid s =
     (Inr (), s\<lparr>rg_ops := Suc (rg_ops s), rg_events := rg_events s @
       [\<lparr>ae_ts = re_now E (rg_ops s), ae_event = event, ae_match_key = key, ae_client = c, ae_model = m,
         ae_effort = ef, ae_session_id = sid\<rparr>]\<rparr>)"
  by (simp add: record_event_def reg_write_def Let_def)

end
