(* ===== verification/Workspace.thy ===== *)
theory Workspace
  imports Domain_Model
begin

text \<open>
  \<open>workspace/filesystem_workspace.py\<close>: the run folder of a managed call, its baseline and the
  capture of what the client produced. A run folder is the list of its regular files with their
  relative names, in the order the directory walk gives them; names are distinct.
\<close>

type_synonym run_files = "(text_str \<times> bytes) list"
type_synonym snapshot = "(text_str \<times> text_str) list"

definition run_digests :: "(bytes \<Rightarrow> text_str) \<Rightarrow> run_files \<Rightarrow> snapshot" where
  "run_digests h files = map (\<lambda>(rel, content). (rel, h content)) files"

definition take_snapshot :: "(bytes \<Rightarrow> text_str) \<Rightarrow> run_files \<Rightarrow> snapshot" where
  "take_snapshot h files = run_digests h files"

definition capture :: "(bytes \<Rightarrow> text_str) \<Rightarrow> run_files \<Rightarrow> snapshot \<Rightarrow> generated_file list" where
  "capture h files baseline =
     (let after = run_digests h files
      in map (\<lambda>rel. \<lparr>gf_name = rel, gf_content = (case map_of files rel of None \<Rightarrow> [] | Some c \<Rightarrow> c)\<rparr>)
           (filter (\<lambda>rel. map_of baseline rel \<noteq> map_of after rel) (sort (map fst after))))"

lemma map_of_run_digests: "map_of (run_digests h files) rel = map_option h (map_of files rel)"
  by (induction files) (auto simp: run_digests_def)

lemma run_digests_names [simp]: "map fst (run_digests h files) = map fst files"
  by (induction files) (auto simp: run_digests_def)

lemma capture_names:
  "map gf_name (capture h files (take_snapshot h before)) =
     filter (\<lambda>rel. map_option h (map_of before rel) \<noteq> map_option h (map_of files rel)) (sort (map fst files))"
  by (simp add: capture_def take_snapshot_def Let_def comp_def map_of_run_digests)

lemma map_of_distinct_mem: "distinct (map fst files) \<Longrightarrow> (rel, c) \<in> set files \<longleftrightarrow> map_of files rel = Some c"
  by (auto intro: map_of_SomeD)

text \<open>C10: what is captured is what changed. Over run folders with distinct file names and a digest
  that tells the contents at hand apart, the generated files are exactly the files that are new or
  whose bytes differ from the baseline, each with its final bytes, once, in the order of the
  names; a file deleted by the client is not reported.\<close>

theorem capture_changed_files:
  assumes names: "distinct (map fst files)"
    and digests: "\<And>rel c c'. map_of before rel = Some c \<Longrightarrow> map_of files rel = Some c' \<Longrightarrow> h c = h c' \<Longrightarrow> c = c'"
  shows "(\<forall>rel c. \<lparr>gf_name = rel, gf_content = c\<rparr> \<in> set (capture h files (take_snapshot h before))
           \<longleftrightarrow> (rel, c) \<in> set files \<and> map_of before rel \<noteq> Some c)
       \<and> sorted (map gf_name (capture h files (take_snapshot h before)))
       \<and> distinct (map gf_name (capture h files (take_snapshot h before)))"
proof (intro conjI allI)
  fix rel c
  have "map_option h (map_of before rel) \<noteq> Some (h c) \<longleftrightarrow> map_of before rel \<noteq> Some c"
    if "map_of files rel = Some c"
    using digests that by (cases "map_of before rel") auto
  moreover have "rel \<in> fst ` set files" if "map_of files rel = Some c"
    using map_of_SomeD [OF that] by force
  ultimately show "\<lparr>gf_name = rel, gf_content = c\<rparr> \<in> set (capture h files (take_snapshot h before))
      \<longleftrightarrow> (rel, c) \<in> set files \<and> map_of before rel \<noteq> Some c"
    unfolding capture_def take_snapshot_def map_of_distinct_mem [OF names]
    by (auto simp: Let_def map_of_run_digests image_iff dest: weak_map_of_SomeI split: option.splits)
qed (simp_all add: capture_names names sorted_wrt_filter)

theorem capture_changed_files_witness:
  "capture id [(''b'', ''new''), (''a'', ''same''), (''c'', ''after'')]
     (take_snapshot id [(''a'', ''same''), (''c'', ''before''), (''gone'', ''x'')])
   = [\<lparr>gf_name = ''b'', gf_content = ''new''\<rparr>, \<lparr>gf_name = ''c'', gf_content = ''after''\<rparr>]
   \<and> sorted (map gf_name (capture id [(''b'', ''new''), (''a'', ''same''), (''c'', ''after'')]
       (take_snapshot id [(''a'', ''same''), (''c'', ''before''), (''gone'', ''x'')])))"
proof
  show "capture id [(''b'', ''new''), (''a'', ''same''), (''c'', ''after'')]
     (take_snapshot id [(''a'', ''same''), (''c'', ''before''), (''gone'', ''x'')])
   = [\<lparr>gf_name = ''b'', gf_content = ''new''\<rparr>, \<lparr>gf_name = ''c'', gf_content = ''after''\<rparr>]"
    by code_simp
  show "sorted (map gf_name (capture id [(''b'', ''new''), (''a'', ''same''), (''c'', ''after'')]
       (take_snapshot id [(''a'', ''same''), (''c'', ''before''), (''gone'', ''x'')])))"
    by (intro capture_changed_files [THEN conjunct2, THEN conjunct1]) (simp_all, code_simp?)
qed

end
