(* ===== verification/Runtime.thy ===== *)
theory Runtime
  imports Repository_Invariant Blob_Store Call_Journal Workspace
begin

text \<open>
  The state the services share and the environment they run in. The world holds the database, the
  blob directory, the access registry, the key locks held, and counters that index the
  environment's answers: the n-th minted id, the n-th client call, the n-th wait for a key lock
  (during which other processes may change the database and the blobs, \<open>rt_peer\<close>), the n-th
  opening of the store lock, the n-th step of a workspace (with what an adapter stages in the run
  folder, \<open>rt_stage_files\<close>, and what the client leaves there, \<open>rt_run_files\<close>).
\<close>

section \<open>Requests to a client adapter\<close>

record client_answer =
  ca_exit_code :: int
  ca_stdout :: text_str
  ca_stderr :: text_str
  ca_token_usage :: "token_usage option"

datatype client_request =
    Managed_Call text_str managed_local_request
  | Passthrough_Call text_str passthrough_request
  | Relay_Call text_str api_passthrough_request
  | Api_Call text_str ml_request

text \<open>What an adapter registered under a client name can do (its port base classes).\<close>

record adapter_ports =
  ap_managed :: bool
  ap_passthrough :: bool
  ap_relay :: bool
  ap_api :: bool
  ap_config :: bool

section \<open>World and environment\<close>

record world =
  w_db :: db_store
  w_blobs :: blob_fs
  w_reg :: registry
  w_minted :: nat
  w_calls :: nat
  w_held :: "text_str list"
  w_waits :: nat
  w_lock_opens :: nat
  w_ws_ops :: nat
  w_ws_open :: nat

record runtime =
  rt_hash :: "bytes \<Rightarrow> text_str"
  rt_db :: db_env
  rt_blob :: blob_env
  rt_reg :: registry_env
  rt_store :: blob_store
  rt_uuid :: "nat \<Rightarrow> text_str"
  rt_peer :: "nat \<Rightarrow> db \<times> blob_files \<Rightarrow> db \<times> blob_files"
  rt_store_lock :: bool
  rt_purge_lock :: bool
  rt_lock_fault :: "nat \<Rightarrow> exn option"
  rt_runners :: "(text_str \<times> adapter_ports) list"
  rt_client :: "nat \<Rightarrow> client_request \<Rightarrow> exn + client_answer"
  rt_api :: "nat \<Rightarrow> client_request \<Rightarrow> exn + client_run_result"
  rt_fingerprint :: "text_str \<Rightarrow> exn + text_str"
  rt_workspace :: bool
  rt_ws_fault :: "nat \<Rightarrow> exn option"
  rt_stage_files :: "nat \<Rightarrow> managed_local_request \<Rightarrow> run_files"
  rt_run_files :: "nat \<Rightarrow> run_files \<Rightarrow> run_files"

definition on_db :: "(db_store, 'a) prog \<Rightarrow> (world, 'a) prog" where
  "on_db m = zoomP w_db (\<lambda>s w. w\<lparr>w_db := s\<rparr>) m"

definition on_blobs :: "(blob_fs, 'a) prog \<Rightarrow> (world, 'a) prog" where
  "on_blobs m = zoomP w_blobs (\<lambda>s w. w\<lparr>w_blobs := s\<rparr>) m"

definition on_reg :: "(registry, 'a) prog \<Rightarrow> (world, 'a) prog" where
  "on_reg m = zoomP w_reg (\<lambda>s w. w\<lparr>w_reg := s\<rparr>) m"

definition w_tables :: "world \<Rightarrow> db" where
  "w_tables w = ds_db (w_db w)"

definition w_files :: "world \<Rightarrow> blob_files" where
  "w_files w = bf_files (w_blobs w)"

definition w_events :: "world \<Rightarrow> access_event list" where
  "w_events w = rg_events (w_reg w)"

section \<open>Ids, locks, client calls\<close>

text \<open>\<open>ExecutionId.generate()\<close>.\<close>

definition mint_id :: "runtime \<Rightarrow> (world, text_str) prog" where
  "mint_id rt = (\<lambda>w. (Inr (rt_uuid rt (w_minted w)), w\<lparr>w_minted := Suc (w_minted w)\<rparr>))"

text \<open>
  \<open>FilesystemExecutionKeyLock.acquire\<close> as its caller sees it: re-entrant on a key already held;
  otherwise it waits, and whatever the peers did meanwhile is in the store when it is entered. It
  never raises, and the key is released however the body ends.
\<close>

definition enter_lock :: "runtime \<Rightarrow> text_str \<Rightarrow> (world, unit) prog" where
  "enter_lock rt key =
     modifyP (\<lambda>w. let (d, f) = rt_peer rt (w_waits w) (w_tables w, w_files w)
       in w\<lparr>w_db := (w_db w)\<lparr>ds_db := d\<rparr>, w_blobs := (w_blobs w)\<lparr>bf_files := f\<rparr>,
            w_waits := Suc (w_waits w), w_held := key # w_held w\<rparr>)"

definition leave_lock :: "text_str \<Rightarrow> (world, unit) prog" where
  "leave_lock key = modifyP (\<lambda>w. w\<lparr>w_held := remove1 key (w_held w)\<rparr>)"

definition with_key_lock :: "runtime \<Rightarrow> text_str \<Rightarrow> (world, 'a) prog \<Rightarrow> (world, 'a) prog" where
  "with_key_lock rt key m =
     bindP (getsP w_held) (\<lambda>held.
     if key \<in> set held then m else thenP (enter_lock rt key) (finallyP m (leave_lock key)))"

text \<open>
  \<open>_content_write_lock\<close> over \<open>FilesystemStoreLock.acquire_shared\<close>: creating the directory or
  opening the lock file may fail; the lock itself is waited for.
\<close>

definition open_store_lock :: "runtime \<Rightarrow> (world, unit) prog" where
  "open_store_lock rt =
     bindP (getsP w_lock_opens) (\<lambda>n.
     thenP (modifyP (\<lambda>w. w\<lparr>w_lock_opens := Suc n\<rparr>))
       (case rt_lock_fault rt n of None \<Rightarrow> ret () | Some e \<Rightarrow> raise e))"

definition with_content_lock :: "runtime \<Rightarrow> (world, 'a) prog \<Rightarrow> (world, 'a) prog" where
  "with_content_lock rt m = (if rt_store_lock rt then thenP (open_store_lock rt) m else m)"

definition next_call :: "(world, nat) prog" where
  "next_call = (\<lambda>w. (Inr (w_calls w), w\<lparr>w_calls := Suc (w_calls w)\<rparr>))"

section \<open>Rules\<close>

lemma on_db_run: "m (w_db w) = (r, s) \<Longrightarrow> on_db m w = (r, w\<lparr>w_db := s\<rparr>)"
  by (simp add: on_db_def zoomP_run)

lemma on_blobs_run: "m (w_blobs w) = (r, s) \<Longrightarrow> on_blobs m w = (r, w\<lparr>w_blobs := s\<rparr>)"
  by (simp add: on_blobs_def zoomP_run)

lemma on_reg_run: "m (w_reg w) = (r, s) \<Longrightarrow> on_reg m w = (r, w\<lparr>w_reg := s\<rparr>)"
  by (simp add: on_reg_def zoomP_run)

text \<open>A relation between worlds that only looks at one part is kept by the operations on others.\<close>

named_theorems world_steps "steps rules of the runtime's primitives"

lemma steps_on_db: "(\<And>w r s. m (w_db w) = (r, s) \<Longrightarrow> R w (w\<lparr>w_db := s\<rparr>)) \<Longrightarrow> steps R (on_db m)"
  unfolding on_db_def by (rule steps_zoomP)

lemma steps_on_blobs: "(\<And>w r s. m (w_blobs w) = (r, s) \<Longrightarrow> R w (w\<lparr>w_blobs := s\<rparr>)) \<Longrightarrow> steps R (on_blobs m)"
  unfolding on_blobs_def by (rule steps_zoomP)

lemma steps_on_reg: "(\<And>w r s. m (w_reg w) = (r, s) \<Longrightarrow> R w (w\<lparr>w_reg := s\<rparr>)) \<Longrightarrow> steps R (on_reg m)"
  unfolding on_reg_def by (rule steps_zoomP)

lemma steps_on_db_inv:
  assumes "keeps_tables I m"
  shows "steps (invariantly (\<lambda>w. I (w_tables w))) (on_db m)"
proof (rule steps_on_db)
  fix w :: world and r s assume "m (w_db w) = (r, s)"
  with assms have "invariantly (\<lambda>s. I (ds_db s)) (w_db w) s" by (rule stepsD)
  then show "invariantly (\<lambda>w. I (w_tables w)) w (w\<lparr>w_db := s\<rparr>)"
    by (simp add: invariantly_def w_tables_def)
qed

lemma steps_on_db_keeping:
  assumes "steps (keeping ds_db) m"
  shows "steps (keeping w_tables) (on_db m)"
proof (rule steps_on_db)
  fix w :: world and r s assume "m (w_db w) = (r, s)"
  with assms have "keeping ds_db (w_db w) s" by (rule stepsD)
  then show "keeping w_tables w (w\<lparr>w_db := s\<rparr>)" by (simp add: keeping_def w_tables_def)
qed

lemma steps_on_blobs_keeping:
  assumes "steps (keeping bf_files) m"
  shows "steps (keeping w_files) (on_blobs m)"
proof (rule steps_on_blobs)
  fix w :: world and r s assume "m (w_blobs w) = (r, s)"
  with assms have "keeping bf_files (w_blobs w) s" by (rule stepsD)
  then show "keeping w_files w (w\<lparr>w_blobs := s\<rparr>)" by (simp add: keeping_def w_files_def)
qed

lemma steps_mint: "(\<And>w. R w (w\<lparr>w_minted := Suc (w_minted w)\<rparr>)) \<Longrightarrow> steps R (mint_id rt)"
  by (simp add: steps_def mint_id_def)

lemma steps_next_call: "(\<And>w. R w (w\<lparr>w_calls := Suc (w_calls w)\<rparr>)) \<Longrightarrow> steps R next_call"
  by (simp add: steps_def next_call_def)

lemma steps_with_key_lock:
  assumes "preorder_rel R" and "steps R m" and "steps R (enter_lock rt key)" and "steps R (leave_lock key)"
  shows "steps R (with_key_lock rt key m)"
  unfolding with_key_lock_def by (intro steps_rules assms)

lemma steps_with_content_lock:
  assumes "preorder_rel R" and "steps R m" and "\<And>w n. R w (w\<lparr>w_lock_opens := n\<rparr>)"
  shows "steps R (with_content_lock rt m)"
  unfolding with_content_lock_def open_store_lock_def
  by (intro steps_rules steps_modify assms)

text \<open>The lock that is entered is released whatever happens inside.\<close>

lemma leave_lock_run: "leave_lock key w = (Inr (), w\<lparr>w_held := remove1 key (w_held w)\<rparr>)"
  by (simp add: leave_lock_def)

lemma with_key_lock_held:
  assumes m: "steps (keeping w_held) m"
  shows "steps (keeping w_held) (with_key_lock rt key m)"
proof (rule stepsI)
  fix w r w'
  assume run: "with_key_lock rt key m w = (r, w')"
  show "keeping w_held w w'"
  proof (cases "key \<in> set (w_held w)")
    case True
    with run have "m w = (r, w')" by (simp add: with_key_lock_def bindP_def)
    with m show ?thesis by (rule stepsD)
  next
    case False
    obtain w1 where w1: "enter_lock rt key w = (Inr (), w1)" "w_held w1 = key # w_held w"
      by (simp add: enter_lock_def case_prod_beta Let_def)
    obtain x w2 where w2: "m w1 = (x, w2)" by fastforce
    with m have "w_held w2 = w_held w1" by (auto dest: stepsD simp: keeping_def)
    with run False w1 w2 show ?thesis
      by (auto simp: with_key_lock_def bindP_def thenP_def finallyP_def leave_lock_run keeping_def)
  qed
qed

end
