(* ===== verification/Cached_Service.thy ===== *)
theory Cached_Service
  imports Runtime
begin

text \<open>
  \<open>usecase/cached_ml_execution_service.py\<close>: the record-or-replay flow. A concrete kind supplies
  the hooks, as its subclass does; everything else is the base class, statement by statement.
  Diagnostics have no effect and are left out. A \<open>replace\<close> of a dataclass is a record update.
\<close>

record 'c hooks =
  hk_cache_mode :: "'c \<Rightarrow> cache_mode"
  hk_depth :: "'c \<Rightarrow> persistence_depth"
  hk_session_id :: "'c \<Rightarrow> text_str option"
  hk_should_persist :: "'c \<Rightarrow> bool \<Rightarrow> bool"
  hk_build_identity :: "'c \<Rightarrow> (world, call_identity) prog"
  hk_run_client :: "'c \<Rightarrow> (world, client_run_result) prog"
  hk_execution_kind :: "'c \<Rightarrow> execution_kind"
  hk_journal_fields :: "'c \<Rightarrow> text_str \<times> text_str \<times> text_str"
  hk_is_uncacheable :: "'c \<Rightarrow> bool"
  hk_after_record :: "text_str \<Rightarrow> (world, unit) prog"
  hk_execution_tags :: "'c \<Rightarrow> text_str list"
  hk_input_parts :: "'c \<Rightarrow> (artifact_type \<times> text_str option \<times> bytes) list"

section \<open>Artifacts\<close>

definition make_artifact ::
  "runtime \<Rightarrow> text_str \<Rightarrow> artifact_type \<Rightarrow> text_str option \<Rightarrow> bytes \<Rightarrow> artifact_status \<Rightarrow> exn + artifact" where
  "make_artifact rt execution_id artifact_type name content status =
     (case blob_key_for_execution (rt_hash rt) execution_id content of
        Inl e \<Rightarrow> Inl e
      | Inr blob_key \<Rightarrow> Inr (artifact_from_content artifact_type blob_key content name status))"

definition output_parts :: "client_run_result \<Rightarrow> (artifact_type \<times> text_str option \<times> bytes) list" where
  "output_parts result =
     (STDOUT, None, cr_stdout result) # (STDERR, None, cr_stderr result)
     # map (\<lambda>f. (OUTPUT_FILE, Some (gf_name f), gf_content f)) (cr_files result)"

definition make_artifacts ::
  "runtime \<Rightarrow> text_str \<Rightarrow> (artifact_type \<times> text_str option \<times> bytes) list \<Rightarrow> artifact_status
     \<Rightarrow> exn + artifact list" where
  "make_artifacts rt execution_id parts status =
     map_exn (\<lambda>(t, name, content). make_artifact rt execution_id t name content status) parts"

definition build_artifacts ::
  "runtime \<Rightarrow> text_str \<Rightarrow> client_run_result \<Rightarrow> artifact_status \<Rightarrow> exn + artifact list" where
  "build_artifacts rt execution_id result status =
     make_artifacts rt execution_id (output_parts result) status"

definition build_input_artifacts ::
  "runtime \<Rightarrow> 'c hooks \<Rightarrow> text_str \<Rightarrow> 'c \<Rightarrow> artifact_status \<Rightarrow> exn + artifact list" where
  "build_input_artifacts rt hk execution_id c status =
     make_artifacts rt execution_id (hk_input_parts hk c) status"

definition content_or_empty :: "artifact \<Rightarrow> bytes" where
  "content_or_empty a = (case at_content a of None \<Rightarrow> [] | Some b \<Rightarrow> b)"

definition store_blob :: "runtime \<Rightarrow> text_str \<Rightarrow> artifact \<Rightarrow> (world, artifact) prog" where
  "store_blob rt execution_id a =
     bindP (catchP
       (thenP (on_blobs (store_put (rt_blob rt) (rt_store rt) (at_blob_key a) (content_or_empty a))) (ret None))
       (\<lambda>e. if is_exception e
            then thenP (on_db (mark_artifacts_failed (rt_db rt) execution_id (at_blob_key a) (exn_message e)))
                   (ret (Some e))
            else raise e)) (\<lambda>failed.
     case failed of
       Some e \<Rightarrow> ret (a\<lparr>at_status := ARTIFACT_FAILED, at_status_detail := Some (exn_message e)\<rparr>)
     | None \<Rightarrow>
         catchP
           (thenP (on_db (mark_artifacts_stored (rt_db rt) execution_id (at_blob_key a)))
              (ret (a\<lparr>at_status := STORED\<rparr>)))
           (\<lambda>e. if is_exception e
                then ret (a\<lparr>at_status := PENDING, at_status_detail := Some (exn_message e)\<rparr>)
                else raise e))"

text \<open>The loop returns the resolved artifacts and whether every one of them is stored.\<close>

fun persist_documents :: "runtime \<Rightarrow> text_str \<Rightarrow> artifact list \<Rightarrow> (world, artifact list \<times> bool) prog" where
  "persist_documents rt execution_id [] = ret ([], True)"
| "persist_documents rt execution_id (a # as) =
     thenP (on_db (persist_artifact (rt_db rt) execution_id a))
    (bindP (store_blob rt execution_id a) (\<lambda>stored.
     bindP (persist_documents rt execution_id as) (\<lambda>(resolved, all_stored).
     ret (stored # resolved, at_status stored = STORED \<and> all_stored))))"

definition hydrate_artifact :: "runtime \<Rightarrow> artifact \<Rightarrow> (world, artifact) prog" where
  "hydrate_artifact rt a =
     bindP (on_blobs (store_get (rt_blob rt) (rt_store rt) (at_blob_key a))) (\<lambda>content.
     case content of
       None \<Rightarrow> raise (Exn ArtifactBlobMissing (''blob '' @ at_blob_key a @ '' is missing from the blob store''))
     | Some b \<Rightarrow> ret (a\<lparr>at_content := Some b\<rparr>))"

definition hydrate :: "runtime \<Rightarrow> ml_execution \<Rightarrow> (world, ml_execution) prog" where
  "hydrate rt x = bindP (mapP (hydrate_artifact rt) (ex_artifacts x)) (\<lambda>as. ret (x\<lparr>ex_artifacts := as\<rparr>))"

section \<open>Journal and tags\<close>

definition journal :: "runtime \<Rightarrow> 'c hooks \<Rightarrow> text_str \<Rightarrow> text_str \<Rightarrow> 'c \<Rightarrow> (world, unit) prog" where
  "journal rt hk event key c =
     (case hk_journal_fields hk c of (client, model, effort) \<Rightarrow>
        on_reg (record_event (rt_reg rt) event (Some key) client model effort (hk_session_id hk c)))"

definition apply_tags :: "runtime \<Rightarrow> 'c hooks \<Rightarrow> text_str \<Rightarrow> 'c \<Rightarrow> (world, unit) prog" where
  "apply_tags rt hk key c =
     (let tags = hk_execution_tags hk c
      in whenP (tags \<noteq> []) (on_db (add_tags (rt_db rt) key tags)))"

section \<open>Serving a stored execution\<close>

definition accumulate_input :: "runtime \<Rightarrow> 'c hooks \<Rightarrow> 'c \<Rightarrow> text_str \<Rightarrow> ml_execution \<Rightarrow> (world, unit) prog" where
  "accumulate_input rt hk c key current =
     (if \<not> stores_input (hk_depth hk c) \<or> ex_input_persisted current then ret ()
      else with_key_lock rt key
        (bindP (on_db (find_current (rt_db rt) key)) (\<lambda>fresh.
         case fresh of
           None \<Rightarrow> ret ()
         | Some x \<Rightarrow>
             if ex_input_persisted x then ret ()
             else bindP (liftE (build_input_artifacts rt hk (ex_execution_id x) c PENDING)) (\<lambda>input_artifacts.
               if input_artifacts = [] then ret ()
               else thenP (on_db (add_input_artifacts (rt_db rt) key input_artifacts))
                 (with_content_lock rt
                   (for_each (\<lambda>a. bindP (store_blob rt (ex_execution_id x) a) (\<lambda>_. ret ()))
                     input_artifacts))))))"

definition serve_hit :: "runtime \<Rightarrow> 'c hooks \<Rightarrow> 'c \<Rightarrow> text_str \<Rightarrow> ml_execution \<Rightarrow> (world, ml_execution) prog" where
  "serve_hit rt hk c key current =
     bindP (hydrate rt current) (\<lambda>hydrated.
     thenP (journal rt hk EV_HIT key c)
    (thenP (apply_tags rt hk key c)
    (thenP (accumulate_input rt hk c key current)
       (ret hydrated))))"

definition remove_execution_and_blobs :: "runtime \<Rightarrow> ml_execution \<Rightarrow> (world, unit) prog" where
  "remove_execution_and_blobs rt x =
     thenP (for_each (\<lambda>a. on_blobs (store_remove (rt_blob rt) (rt_store rt) (at_blob_key a))) (ex_artifacts x))
       (on_db (remove_execution (rt_db rt) (ex_execution_id x)))"

definition corrupt :: "exn \<Rightarrow> bool" where
  "corrupt e \<longleftrightarrow> exn_class_of e \<in> {StoreCorrupt, ArtifactBlobMissing}"

definition serve_current_if_healthy ::
  "runtime \<Rightarrow> 'c hooks \<Rightarrow> 'c \<Rightarrow> text_str \<Rightarrow> (world, ml_execution option) prog" where
  "serve_current_if_healthy rt hk c key =
     bindP (catchP (on_db (find_current (rt_db rt) key))
       (\<lambda>e. if exn_class_of e = StoreCorrupt then ret None else raise e)) (\<lambda>current.
     case current of
       None \<Rightarrow> ret None
     | Some x \<Rightarrow>
         catchP (bindP (serve_hit rt hk c key x) (\<lambda>served. ret (Some served)))
           (\<lambda>e. if corrupt e then thenP (remove_execution_and_blobs rt x) (ret None) else raise e))"

definition offline_miss :: "runtime \<Rightarrow> 'c hooks \<Rightarrow> 'c \<Rightarrow> text_str \<Rightarrow> text_str \<Rightarrow> (world, ml_execution) prog" where
  "offline_miss rt hk c key why =
     thenP (journal rt hk EV_MISS key c) (raise (Exn CacheMiss (''offline miss: '' @ why)))"

definition serve_offline :: "runtime \<Rightarrow> 'c hooks \<Rightarrow> 'c \<Rightarrow> text_str \<Rightarrow> (world, ml_execution) prog" where
  "serve_offline rt hk c key =
     bindP (catchP
       (bindP (on_db (find_current (rt_db rt) key)) (\<lambda>current.
        case current of
          None \<Rightarrow> ret None
        | Some x \<Rightarrow> bindP (serve_hit rt hk c key x) (\<lambda>r. ret (Some r))))
       (\<lambda>e. if corrupt e
            then bindP (offline_miss rt hk c key ''corrupt stored execution'') (\<lambda>x. ret (Some x))
            else raise e)) (\<lambda>served.
     case served of
       Some r \<Rightarrow> ret r
     | None \<Rightarrow> offline_miss rt hk c key ''no stored execution'')"

section \<open>Running the client\<close>

text \<open>A new execution that holds no stored output, with a freshly minted id.\<close>

definition new_execution ::
  "'c hooks \<Rightarrow> 'c \<Rightarrow> call_identity \<Rightarrow> text_str \<Rightarrow> execution_state \<Rightarrow> token_usage option
     \<Rightarrow> execution_failure option \<Rightarrow> ml_execution" where
  "new_execution hk c identity execution_id state usage failure =
     \<lparr>ex_call_identity = identity, ex_execution_state = state, ex_execution_kind = hk_execution_kind hk c,
      ex_output_persisted = False, ex_execution_id = execution_id, ex_input_persisted = False,
      ex_artifacts = [], ex_token_usage = usage, ex_failure = failure, ex_superseded_at = None\<rparr>"

definition run_unstored :: "runtime \<Rightarrow> 'c hooks \<Rightarrow> 'c \<Rightarrow> call_identity \<Rightarrow> (world, ml_execution) prog" where
  "run_unstored rt hk c identity =
     bindP (hk_run_client hk c) (\<lambda>result.
     bindP (mint_id rt) (\<lambda>execution_id.
     bindP (liftE (build_artifacts rt execution_id result STORED)) (\<lambda>artifacts.
     ret ((new_execution hk c identity execution_id (outcome result) (cr_token_usage result)
             (result_failure result))\<lparr>ex_artifacts := artifacts\<rparr>))))"

definition run_metered :: "runtime \<Rightarrow> 'c hooks \<Rightarrow> 'c \<Rightarrow> call_identity \<Rightarrow> text_str \<Rightarrow> (world, ml_execution) prog" where
  "run_metered rt hk c identity key =
     bindP (on_db (find_current (rt_db rt) key)) (\<lambda>current.
     bindP (run_unstored rt hk c identity) (\<lambda>x.
     thenP (journal rt hk (if current \<noteq> None then EV_WOULD_HIT else EV_WOULD_MISS) key c) (ret x)))"

definition with_outcome :: "ml_execution \<Rightarrow> client_run_result \<Rightarrow> ml_execution" where
  "with_outcome x result =
     x\<lparr>ex_execution_state := outcome result, ex_token_usage := cr_token_usage result,
       ex_failure := result_failure result\<rparr>"

definition record_unstored ::
  "runtime \<Rightarrow> 'c hooks \<Rightarrow> 'c \<Rightarrow> ml_execution \<Rightarrow> text_str \<Rightarrow> client_run_result \<Rightarrow> (world, ml_execution) prog" where
  "record_unstored rt hk c in_progress key result =
     (let x = with_outcome in_progress result
      in thenP (on_db (record_outcome (rt_db rt) x))
        (thenP (journal rt hk EV_RUN key c)
        (bindP (liftE (build_artifacts rt (ex_execution_id x) result STORED)) (\<lambda>artifacts.
         ret (x\<lparr>ex_artifacts := artifacts\<rparr>)))))"

definition record_stored ::
  "runtime \<Rightarrow> 'c hooks \<Rightarrow> 'c \<Rightarrow> ml_execution \<Rightarrow> text_str \<Rightarrow> client_run_result \<Rightarrow> (world, ml_execution) prog" where
  "record_stored rt hk c in_progress key result =
     (let x = with_outcome in_progress result
      in thenP (on_db (record_outcome (rt_db rt) x))
        (bindP (liftE (build_artifacts rt (ex_execution_id x) result PENDING)) (\<lambda>output_artifacts.
         bindP (liftE (if stores_input (hk_depth hk c)
                       then build_input_artifacts rt hk (ex_execution_id x) c PENDING else Inr [])) (\<lambda>input_artifacts.
         bindP (with_content_lock rt
                  (persist_documents rt (ex_execution_id x) (output_artifacts @ input_artifacts))) (\<lambda>(resolved, all_stored).
         thenP (if all_stored
                then thenP (on_db (finalize_output_persisted (rt_db rt) (ex_execution_id x)))
                    (thenP (journal rt hk EV_RECORD key c)
                    (thenP (apply_tags rt hk key c)
                       (hk_after_record hk key)))
                else journal rt hk EV_RUN key c)
           (ret (x\<lparr>ex_output_persisted := all_stored, ex_input_persisted := (input_artifacts \<noteq> []),
                   ex_artifacts := resolved\<rparr>)))))))"

definition abandon_in_progress_as_failed :: "runtime \<Rightarrow> ml_execution \<Rightarrow> exn \<Rightarrow> (world, unit) prog" where
  "abandon_in_progress_as_failed rt in_progress e =
     on_db (record_outcome (rt_db rt)
       (in_progress\<lparr>ex_execution_state := STATE_FAILED,
          ex_failure := Some \<lparr>fl_reason = CLIENT_ERROR, fl_message = exn_message e, fl_exit_code = None\<rparr>\<rparr>))"

text \<open>The client call between its bookends: a requested stop drops the row, another exception marks it failed.\<close>

definition guarded_run_client ::
  "runtime \<Rightarrow> 'c hooks \<Rightarrow> 'c \<Rightarrow> ml_execution \<Rightarrow> (world, client_run_result) prog" where
  "guarded_run_client rt hk c in_progress =
     catchP (hk_run_client hk c)
       (\<lambda>e. if exn_class_of e = RunInterrupted
            then thenP (on_db (remove_execution (rt_db rt) (ex_execution_id in_progress))) (raise e)
            else if is_exception e
            then thenP (abandon_in_progress_as_failed rt in_progress e) (raise e)
            else raise e)"

definition storage_unhealthy :: "runtime \<Rightarrow> 'c hooks \<Rightarrow> 'c \<Rightarrow> (world, bool) prog" where
  "storage_unhealthy rt hk c =
     (if stores_input (hk_depth hk c)
      then bindP (on_blobs (store_is_healthy (rt_blob rt) (rt_store rt))) (\<lambda>healthy. ret (\<not> healthy))
      else ret False)"

definition run_and_record ::
  "runtime \<Rightarrow> 'c hooks \<Rightarrow> 'c \<Rightarrow> call_identity \<Rightarrow> text_str \<Rightarrow> (world, ml_execution) prog" where
  "run_and_record rt hk c identity key =
     bindP (storage_unhealthy rt hk c) (\<lambda>unhealthy.
     if unhealthy then raise (Exn StoreUnavailable ''blob storage is unavailable'')
     else
       bindP (mint_id rt) (\<lambda>execution_id.
       let in_progress = new_execution hk c identity execution_id IN_PROGRESS None None
       in thenP (on_db (save (rt_db rt) in_progress))
         (bindP (guarded_run_client rt hk c in_progress) (\<lambda>result.
          if \<not> hk_should_persist hk c (succeeded result)
          then record_unstored rt hk c in_progress key result
          else record_stored rt hk c in_progress key result))))"

definition run_fresh_locked ::
  "runtime \<Rightarrow> 'c hooks \<Rightarrow> 'c \<Rightarrow> call_identity \<Rightarrow> text_str \<Rightarrow> (world, ml_execution) prog" where
  "run_fresh_locked rt hk c identity key =
     with_key_lock rt key
       (bindP (if hk_cache_mode hk c = MODE_CACHE then serve_current_if_healthy rt hk c key else ret None) (\<lambda>served.
        case served of
          Some r \<Rightarrow> ret r
        | None \<Rightarrow> run_and_record rt hk c identity key))"

definition run_fresh ::
  "runtime \<Rightarrow> 'c hooks \<Rightarrow> 'c \<Rightarrow> call_identity \<Rightarrow> text_str \<Rightarrow> bool \<Rightarrow> (world, ml_execution) prog" where
  "run_fresh rt hk c identity key allow_store =
     (if allow_store then run_fresh_locked rt hk c identity key
      else bindP (run_unstored rt hk c identity) (\<lambda>x. thenP (journal rt hk EV_RUN key c) (ret x)))"

definition run_uncacheable ::
  "runtime \<Rightarrow> 'c hooks \<Rightarrow> 'c \<Rightarrow> call_identity \<Rightarrow> text_str \<Rightarrow> (world, ml_execution) prog" where
  "run_uncacheable rt hk c identity key =
     (if hk_cache_mode hk c = MODE_OFFLINE then offline_miss rt hk c key ''this call is not cacheable''
      else run_fresh rt hk c identity key False)"

section \<open>The resolution\<close>

definition execute :: "runtime \<Rightarrow> 'c hooks \<Rightarrow> 'c \<Rightarrow> (world, ml_execution) prog" where
  "execute rt hk c =
     bindP (hk_build_identity hk c) (\<lambda>identity.
     let key = generate_key (rt_hash rt) identity
     in if hk_is_uncacheable hk c then run_uncacheable rt hk c identity key
        else
          thenP (if stores_output (hk_depth hk c) then liftE (ensure_available_for_content (rt_store rt)) else ret ())
            (if hk_cache_mode hk c = MODE_OFFLINE then serve_offline rt hk c key
             else if \<not> stores_output (hk_depth hk c) then run_metered rt hk c identity key
             else
               bindP (if hk_cache_mode hk c = MODE_CACHE then serve_current_if_healthy rt hk c key else ret None) (\<lambda>served.
               case served of
                 Some r \<Rightarrow> ret r
               | None \<Rightarrow> run_fresh rt hk c identity key True)))"

end
