(* ===== verification/Purge_Service.thy ===== *)
theory Purge_Service
  imports Cached_Service
begin

text \<open>
  \<open>usecase/purge_service.py\<close>: soft and hard purges by key, tag, session, session tag or for all,
  age eviction and quota eviction. Every key is purged under its own lock (when one is injected,
  \<open>rt_purge_lock\<close>). The purge properties follow from what one key's purge does.
\<close>

record purge_report =
  pg_executions_removed :: nat
  pg_bytes_freed :: nat
  pg_blobs_removed :: nat

definition no_purge :: purge_report where
  "no_purge = \<lparr>pg_executions_removed = 0, pg_bytes_freed = 0, pg_blobs_removed = 0\<rparr>"

definition key_lock :: "runtime \<Rightarrow> text_str \<Rightarrow> (world, 'a) prog \<Rightarrow> (world, 'a) prog" where
  "key_lock rt key m = (if rt_purge_lock rt then with_key_lock rt key m else m)"

definition execution_sizes :: "ml_execution list \<Rightarrow> (text_str \<times> nat) list" where
  "execution_sizes xs =
     fold (\<lambda>a. dict_set (at_blob_key a) (at_size_bytes a)) (concat (map ex_artifacts xs)) []"

definition blob_sizes_for :: "runtime \<Rightarrow> text_str \<Rightarrow> (world, (text_str \<times> nat) list) prog" where
  "blob_sizes_for rt key =
     bindP (on_db (find_all (rt_db rt) key)) (\<lambda>xs. ret (execution_sizes xs))"

definition remove_blobs :: "runtime \<Rightarrow> (text_str \<times> nat) list \<Rightarrow> (world, nat \<times> nat) prog" where
  "remove_blobs rt blob_sizes =
     thenP (for_each (\<lambda>(k, _). on_blobs (store_remove (rt_blob rt) (rt_store rt) k)) blob_sizes)
       (ret (length blob_sizes, sum_list (map snd blob_sizes)))"

definition soft_purge_key :: "runtime \<Rightarrow> text_str \<Rightarrow> (world, nat \<times> nat) prog" where
  "soft_purge_key rt key =
     key_lock rt key
       (bindP (blob_sizes_for rt key) (\<lambda>sizes.
        thenP (on_db (soft_purge_execution (rt_db rt) key)) (remove_blobs rt sizes)))"

definition hard_delete_key :: "runtime \<Rightarrow> text_str \<Rightarrow> (world, nat \<times> nat) prog" where
  "hard_delete_key rt key =
     key_lock rt key
       (bindP (blob_sizes_for rt key) (\<lambda>sizes.
        thenP (on_db (hard_delete_execution (rt_db rt) key))
       (thenP (on_reg (delete_events_for_key (rt_reg rt) key)) (remove_blobs rt sizes))))"

definition purge_keys ::
  "(text_str \<Rightarrow> (world, nat \<times> nat) prog) \<Rightarrow> text_str list \<Rightarrow> (world, purge_report) prog" where
  "purge_keys f keys =
     (if keys = [] then ret no_purge
      else bindP (mapP f keys) (\<lambda>counts.
        ret \<lparr>pg_executions_removed = length keys, pg_bytes_freed = sum_list (map snd counts),
             pg_blobs_removed = sum_list (map fst counts)\<rparr>))"

definition soft_purge_keys :: "runtime \<Rightarrow> text_str list \<Rightarrow> (world, purge_report) prog" where
  "soft_purge_keys rt keys = purge_keys (soft_purge_key rt) keys"

definition hard_delete_keys :: "runtime \<Rightarrow> text_str list \<Rightarrow> (world, purge_report) prog" where
  "hard_delete_keys rt keys = purge_keys (hard_delete_key rt) keys"

definition purge :: "runtime \<Rightarrow> text_str list \<Rightarrow> bool \<Rightarrow> (world, purge_report) prog" where
  "purge rt keys hard = (if hard then hard_delete_keys rt keys else soft_purge_keys rt keys)"

section \<open>The scopes\<close>

definition purge_by_key :: "runtime \<Rightarrow> text_str \<Rightarrow> bool \<Rightarrow> (world, purge_report) prog" where
  "purge_by_key rt key hard =
     bindP (on_db (find_all (rt_db rt) key)) (\<lambda>xs. if xs = [] then ret no_purge else purge rt [key] hard)"

definition purge_by_tag :: "runtime \<Rightarrow> text_str \<Rightarrow> bool \<Rightarrow> (world, purge_report) prog" where
  "purge_by_tag rt tag hard =
     bindP (on_db (executions_by_tag (rt_db rt) tag)) (\<lambda>keys. purge rt keys hard)"

definition purge_by_session :: "runtime \<Rightarrow> text_str \<Rightarrow> bool \<Rightarrow> (world, purge_report) prog" where
  "purge_by_session rt session_id hard =
     bindP (on_reg (execution_keys_for_session (rt_reg rt) session_id)) (\<lambda>keys. purge rt keys hard)"

text \<open>The keys of every session with the tag, each once, in the order they are first seen.\<close>

definition add_unseen :: "text_str list \<Rightarrow> text_str list \<Rightarrow> text_str list" where
  "add_unseen seen keys = fold (\<lambda>k seen. if k \<in> set seen then seen else seen @ [k]) keys seen"

fun keys_of_sessions :: "runtime \<Rightarrow> text_str list \<Rightarrow> text_str list \<Rightarrow> (world, text_str list) prog" where
  "keys_of_sessions rt [] seen = ret seen"
| "keys_of_sessions rt (sid # sids) seen =
     bindP (on_reg (execution_keys_for_session (rt_reg rt) sid)) (\<lambda>keys.
     keys_of_sessions rt sids (add_unseen seen keys))"

definition keys_for_session_tag :: "runtime \<Rightarrow> text_str \<Rightarrow> (world, text_str list) prog" where
  "keys_for_session_tag rt tag =
     bindP (on_reg (session_ids_for_tag (rt_reg rt) tag)) (\<lambda>sids. keys_of_sessions rt sids [])"

definition purge_by_session_tag :: "runtime \<Rightarrow> text_str \<Rightarrow> bool \<Rightarrow> (world, purge_report) prog" where
  "purge_by_session_tag rt tag hard =
     bindP (keys_for_session_tag rt tag) (\<lambda>keys. purge rt keys hard)"

definition purge_all :: "runtime \<Rightarrow> bool \<Rightarrow> (world, purge_report) prog" where
  "purge_all rt hard =
     bindP (if hard then on_db (all_execution_keys (rt_db rt))
            else bindP (on_db (current_executions_with_sizes (rt_db rt))) (\<lambda>es. ret (map se_execution_key es)))
       (\<lambda>keys. purge rt keys hard)"

section \<open>Eviction\<close>

definition lru_epoch :: "runtime \<Rightarrow> (text_str \<times> rat) list \<Rightarrow> execution_size_entry \<Rightarrow> rat" where
  "lru_epoch rt access e =
     (case map_of access (se_execution_key e) of
        Some t \<Rightarrow> t
      | None \<Rightarrow> (case re_epoch (rt_reg rt) (se_created_at e) of Some t \<Rightarrow> t | None \<Rightarrow> 0))"

definition access_ordering :: "runtime \<Rightarrow> (world, (text_str \<times> rat) list) prog" where
  "access_ordering rt =
     bindP (on_reg (last_access (rt_reg rt))) (\<lambda>access.
     ret (case access of None \<Rightarrow> [] | Some m \<Rightarrow> m))"

text \<open>\<open>now\<close> is the reading of \<open>time.time()\<close>.\<close>

definition evict_stale :: "runtime \<Rightarrow> rat \<Rightarrow> rat \<Rightarrow> (world, purge_report) prog" where
  "evict_stale rt now max_age_seconds =
     (if max_age_seconds \<le> 0 then ret no_purge
      else bindP (on_db (current_executions_with_sizes (rt_db rt))) (\<lambda>entries.
        bindP (access_ordering rt) (\<lambda>access.
        soft_purge_keys rt (map se_execution_key
          (filter (\<lambda>e. lru_epoch rt access e < now - max_age_seconds) entries)))))"

fun choose_evictions :: "int \<Rightarrow> int \<Rightarrow> execution_size_entry list \<Rightarrow> text_str list" where
  "choose_evictions max_bytes running [] = []"
| "choose_evictions max_bytes running (e # es) =
     (if running \<le> max_bytes then []
      else se_execution_key e # choose_evictions max_bytes (running - int (se_total_size_bytes e)) es)"

definition evict_to_quota :: "runtime \<Rightarrow> int \<Rightarrow> (world, purge_report) prog" where
  "evict_to_quota rt max_bytes =
     bindP (on_db (total_stored_bytes (rt_db rt))) (\<lambda>current.
     if int current \<le> max_bytes then ret no_purge
     else
       bindP (on_db (current_executions_with_sizes (rt_db rt))) (\<lambda>entries.
       bindP (access_ordering rt) (\<lambda>access.
       soft_purge_keys rt
         (choose_evictions max_bytes (int current) (sort_key (lru_epoch rt access) entries)))))"

end
