(* ===== verification/Run_Service.thy ===== *)
theory Run_Service
  imports Purge_Service
begin

text \<open>
  \<open>usecase/run_ml_execution_service.py\<close>: the hooks of \<open>RunMlExecutionService\<close> for its four
  kinds of call (managed, passthrough, API, API passthrough), and the service they make.
\<close>

section \<open>The text of a list of arguments\<close>

text \<open>
  \<open>json.dumps\<close> of a list of strings with its default settings: every character that is not
  printable ASCII is escaped, one above U+FFFF as a surrogate pair.
\<close>

fun code_points :: "nat list \<Rightarrow> nat list" where
  "code_points [] = []"
| "code_points (a # xs) =
     (if a < 128 then a # code_points xs
      else if a < 224 then
        (case xs of b # ys \<Rightarrow> ((a - 192) * 64 + (b - 128)) # code_points ys | _ \<Rightarrow> [])
      else if a < 240 then
        (case xs of b # c # ys \<Rightarrow> ((a - 224) * 4096 + (b - 128) * 64 + (c - 128)) # code_points ys | _ \<Rightarrow> [])
      else
        (case xs of b # c # d # ys \<Rightarrow>
            ((a - 240) * 262144 + (b - 128) * 4096 + (c - 128) * 64 + (d - 128)) # code_points ys
         | _ \<Rightarrow> []))"

definition u_escape :: "nat \<Rightarrow> text_str" where
  "u_escape n = [CHR 0x5C, CHR ''u'', hex_digit (n div 4096 mod 16), hex_digit (n div 256 mod 16),
     hex_digit (n div 16 mod 16), hex_digit (n mod 16)]"

definition json_escape :: "nat \<Rightarrow> text_str" where
  "json_escape n =
     (if n = 34 then [CHR 0x5C, CHR 0x22] else if n = 92 then [CHR 0x5C, CHR 0x5C]
      else if n = 10 then [CHR 0x5C, CHR ''n''] else if n = 13 then [CHR 0x5C, CHR ''r'']
      else if n = 9 then [CHR 0x5C, CHR ''t''] else if n = 8 then [CHR 0x5C, CHR ''b'']
      else if n = 12 then [CHR 0x5C, CHR ''f'']
      else if 32 \<le> n \<and> n < 127 then [char_of n]
      else if n < 65536 then u_escape n
      else u_escape (55296 + (n - 65536) div 1024) @ u_escape (56320 + (n - 65536) mod 1024))"

definition json_string :: "text_str \<Rightarrow> text_str" where
  "json_string s = [CHR 0x22] @ concat (map json_escape (code_points (map of_char s))) @ [CHR 0x22]"

definition json_string_list :: "text_str list \<Rightarrow> text_str" where
  "json_string_list xs = ''['' @ join_str '', '' (map json_string xs) @ '']''"

section \<open>The workspace of a managed call\<close>

text \<open>
  One step of the workspace, or of the adapter in it, that may raise. A run has two directories;
  \<open>w_ws_open\<close> counts the directories that exist.
\<close>

definition ws_step :: "runtime \<Rightarrow> (world, nat) prog" where
  "ws_step rt =
     bindP (getsP w_ws_ops) (\<lambda>n.
     thenP (modifyP (\<lambda>w. w\<lparr>w_ws_ops := Suc n\<rparr>))
       (case rt_ws_fault rt n of None \<Rightarrow> ret n | Some e \<Rightarrow> raise e))"

definition ws_mkdir :: "runtime \<Rightarrow> (world, unit) prog" where
  "ws_mkdir rt = bindP (ws_step rt) (\<lambda>_. modifyP (\<lambda>w. w\<lparr>w_ws_open := Suc (w_ws_open w)\<rparr>))"

definition ws_create :: "runtime \<Rightarrow> (world, unit) prog" where
  "ws_create rt = thenP (ws_mkdir rt) (ws_mkdir rt)"

definition ws_dispose :: "(world, unit) prog" where
  "ws_dispose = modifyP (\<lambda>w. w\<lparr>w_ws_open := w_ws_open w - 2\<rparr>)"

section \<open>Calling the client\<close>

definition client_call :: "runtime \<Rightarrow> client_request \<Rightarrow> (world, nat \<times> client_answer) prog" where
  "client_call rt req =
     bindP next_call (\<lambda>n. bindP (liftE (rt_client rt n req)) (\<lambda>answer. ret (n, answer)))"

definition unsupported :: "text_str \<Rightarrow> text_str \<Rightarrow> exn" where
  "unsupported client what = Exn UnsupportedExecutionMode (''client '' @ client @ '' does not support '' @ what)"

definition managed_request :: "run_command \<Rightarrow> managed_local_request" where
  "managed_request c =
     \<lparr>ml_model = ki_model c, ml_effort = ki_effort c, ml_context = ki_context c, ml_prompt = ki_prompt c,
      ml_user_system_prompt = ki_user_system_prompt c,
      ml_allowed_read_paths = sort (ki_input_file_paths c @ ki_allow_paths c),
      ml_add_dir_paths = sort (ki_allow_paths c), ml_client_args = ki_client_args c,
      ml_grants = set (ki_grants c)\<rparr>"

definition package_answer :: "client_answer \<Rightarrow> generated_file list \<Rightarrow> client_run_result" where
  "package_answer a files =
     \<lparr>cr_exit_code = ca_exit_code a, cr_stdout = ca_stdout a, cr_stderr = ca_stderr a, cr_files = files,
      cr_token_usage = ca_token_usage a\<rparr>"

definition run_managed :: "runtime \<Rightarrow> run_command \<Rightarrow> adapter_ports \<Rightarrow> (world, client_run_result) prog" where
  "run_managed rt c runner =
     (if \<not> rt_workspace rt
      then raise (Exn PyRuntimeError ''managed execution requires a WorkspacePort; none was injected'')
      else if \<not> ap_managed runner then raise (unsupported (ki_client c) ''managed local execution'')
      else
        let request = managed_request c
        in thenP (ws_create rt)
          (bindP (finallyP
             (thenP (whenP (ap_config runner)
                (bindP (ws_step rt) (\<lambda>_. bindP (ws_step rt) (\<lambda>_. ret ()))))
             (bindP (ws_step rt) (\<lambda>k.
              let staged = rt_stage_files rt k request
              in bindP (ws_step rt) (\<lambda>_.
                 let baseline = take_snapshot (rt_hash rt) staged
                 in bindP (client_call rt (Managed_Call (ki_client c) request)) (\<lambda>(n, answer).
                    bindP (ws_step rt) (\<lambda>_.
                    ret (answer, capture (rt_hash rt) (rt_run_files rt n staged) baseline)))))))
             ws_dispose) (\<lambda>(answer, files).
           ret (package_answer answer files))))"

definition run_passthrough :: "runtime \<Rightarrow> run_command \<Rightarrow> adapter_ports \<Rightarrow> (world, client_run_result) prog" where
  "run_passthrough rt c runner =
     (if \<not> ap_passthrough runner then raise (unsupported (ki_client c) ''passthrough local execution'')
      else bindP (client_call rt (Passthrough_Call (ki_client c) \<lparr>pr_native_args = rc_native_args c\<rparr>))
        (\<lambda>(_, answer). ret (package_answer answer [])))"

definition api_request :: "run_command \<Rightarrow> ml_request" where
  "api_request c =
     \<lparr>mq_model = ki_model c, mq_effort = ki_effort c, mq_context = ki_context c, mq_prompt = ki_prompt c,
      mq_input_file_paths = ki_input_file_paths c, mq_allow_paths = ki_allow_paths c,
      mq_client_args = ki_client_args c, mq_grants = set (ki_grants c),
      mq_user_system_prompt = ki_user_system_prompt c\<rparr>"

definition run_api :: "runtime \<Rightarrow> run_command \<Rightarrow> adapter_ports \<Rightarrow> (world, client_run_result) prog" where
  "run_api rt c runner =
     (if \<not> ap_api runner
      then raise (unsupported (ki_client c) (kind_value (rc_execution_kind c) @ '' execution''))
      else bindP next_call (\<lambda>n. liftE (rt_api rt n (Api_Call (ki_client c) (api_request c)))))"

definition run_api_passthrough :: "runtime \<Rightarrow> run_command \<Rightarrow> adapter_ports \<Rightarrow> (world, client_run_result) prog" where
  "run_api_passthrough rt c runner =
     (if \<not> ap_relay runner then raise (unsupported (ki_client c) ''API-passthrough execution'')
      else bindP (client_call rt (Relay_Call (ki_client c)
             \<lparr>ar_raw_body = rc_raw_body c, ar_forward_headers = rc_forward_headers c\<rparr>))
        (\<lambda>(_, answer). ret (package_answer answer [])))"

definition run_client :: "runtime \<Rightarrow> run_command \<Rightarrow> (world, client_run_result) prog" where
  "run_client rt c =
     (case map_of (rt_runners rt) (ki_client c) of
        None \<Rightarrow> raise (Exn UnknownClient (''No runner registered for client '' @ ki_client c))
      | Some runner \<Rightarrow>
          (case rc_execution_kind c of
             LOCAL_MANAGED \<Rightarrow> run_managed rt c runner
           | LOCAL_PASSTHROUGH \<Rightarrow> run_passthrough rt c runner
           | API_PASSTHROUGH \<Rightarrow> run_api_passthrough rt c runner
           | API \<Rightarrow> run_api rt c runner))"

text \<open>A client call only moves the counters of calls and of the workspace.\<close>

lemma run_client_rel:
  assumes pre: "preorder_rel R"
    and counters: "\<And>w n. R w (w\<lparr>w_calls := n\<rparr>)" "\<And>w n. R w (w\<lparr>w_ws_ops := n\<rparr>)" "\<And>w n. R w (w\<lparr>w_ws_open := n\<rparr>)"
  shows "steps R (run_client rt c)"
proof -
  have step: "steps R (ws_step rt)"
    unfolding ws_step_def by (intro steps_rules steps_modify counters pre)
  have ws: "steps R (ws_create rt)" "steps R ws_dispose"
    unfolding ws_create_def ws_mkdir_def ws_dispose_def
    by (intro steps_rules step steps_modify counters pre)+
  have call: "steps R (client_call rt req)" for req
    unfolding client_call_def by (intro steps_rules steps_next_call counters pre)
  have "steps R (run_managed rt c r)" "steps R (run_passthrough rt c r)" "steps R (run_api rt c r)"
    "steps R (run_api_passthrough rt c r)" for r
    unfolding run_managed_def run_passthrough_def run_api_def run_api_passthrough_def
    by (intro steps_rules ws step call steps_next_call counters pre)+
  then show ?thesis unfolding run_client_def
    by (cases "rc_execution_kind c") (auto simp: steps_raise pre split: option.split)
qed

lemma run_client_keeps:
  assumes "\<And>w n. f (w\<lparr>w_calls := n\<rparr>) = f w" "\<And>w n. f (w\<lparr>w_ws_ops := n\<rparr>) = f w" "\<And>w n. f (w\<lparr>w_ws_open := n\<rparr>) = f w"
  shows "steps (keeping f) (run_client rt c)"
  by (rule run_client_rel) (simp_all add: keeping_def assms)

section \<open>The other hooks\<close>

definition build_identity :: "runtime \<Rightarrow> run_command \<Rightarrow> (world, call_identity) prog" where
  "build_identity rt c =
     (case rc_execution_kind c of
        LOCAL_MANAGED \<Rightarrow>
          bindP (build_call_identity (rt_hash rt) (\<lambda>p. liftE (rt_fingerprint rt p)) c)
            (\<lambda>i. ret (ManagedCallIdentity i))
      | LOCAL_PASSTHROUGH \<Rightarrow>
          ret (PassthroughCallIdentity \<lparr>pi_client = ki_client c,
                 pi_native_args_fingerprint = fingerprint_arguments (rt_hash rt) (rc_native_args c)\<rparr>)
      | API_PASSTHROUGH \<Rightarrow>
          ret (ApiPassthroughCallIdentity \<lparr>bi_client = ki_client c,
                 bi_body_fingerprint = file_content_fingerprint (rt_hash rt) (rc_raw_body c)\<rparr>)
      | API \<Rightarrow>
          ret (ApiCallIdentity \<lparr>ai_provider = ki_client c, ai_model = ki_model c,
                 ai_context_fingerprint = text_checksum (rt_hash rt) (ki_context c),
                 ai_prompt_fingerprint = text_checksum (rt_hash rt) (ki_prompt c),
                 ai_system_fingerprint =
                   map_option (text_checksum (rt_hash rt)) (truthy (ki_user_system_prompt c)),
                 ai_effort = ki_effort c\<rparr>))"

definition journal_fields :: "run_command \<Rightarrow> text_str \<times> text_str \<times> text_str" where
  "journal_fields c =
     (if rc_execution_kind c \<in> {LOCAL_PASSTHROUGH, API_PASSTHROUGH} then (ki_client c, [], [])
      else (ki_client c, ki_model c, ki_effort c))"

definition input_parts :: "run_command \<Rightarrow> (artifact_type \<times> text_str option \<times> bytes) list" where
  "input_parts c =
     (if rc_execution_kind c = LOCAL_PASSTHROUGH then [(INPUT_ARGS, None, json_string_list (rc_native_args c))]
      else if rc_execution_kind c = API_PASSTHROUGH then [(INPUT_MESSAGES, None, rc_raw_body c)]
      else
        (if ki_context c \<noteq> [] then [(INPUT_CONTEXT, None, ki_context c)] else [])
        @ [(INPUT_PROMPT, None, ki_prompt c)]
        @ (case truthy (ki_user_system_prompt c) of None \<Rightarrow> [] | Some s \<Rightarrow> [(INPUT_SYSTEM, None, s)]))"

text \<open>The purge service and the size limit are injected together or not at all.\<close>

definition after_record :: "runtime \<Rightarrow> bool \<Rightarrow> int option \<Rightarrow> text_str \<Rightarrow> (world, unit) prog" where
  "after_record rt purge_service max_size key =
     (if purge_service
      then (case max_size of
              None \<Rightarrow> ret ()
            | Some max_bytes \<Rightarrow> bindP (evict_to_quota rt max_bytes) (\<lambda>_. ret ()))
      else ret ())"

definition run_hooks :: "runtime \<Rightarrow> bool \<Rightarrow> int option \<Rightarrow> run_command hooks" where
  "run_hooks rt purge_service max_size =
     \<lparr>hk_cache_mode = rc_cache_mode, hk_depth = rc_persistence_depth, hk_session_id = rc_session_id,
      hk_should_persist = should_persist, hk_build_identity = build_identity rt,
      hk_run_client = run_client rt, hk_execution_kind = rc_execution_kind,
      hk_journal_fields = journal_fields, hk_is_uncacheable = is_uncacheable,
      hk_after_record = after_record rt purge_service max_size,
      hk_execution_tags = (\<lambda>c. normalize_tags (rc_tags c)), hk_input_parts = input_parts\<rparr>"

definition run_execute :: "runtime \<Rightarrow> bool \<Rightarrow> int option \<Rightarrow> run_command \<Rightarrow> (world, ml_execution) prog" where
  "run_execute rt purge_service max_size c = execute rt (run_hooks rt purge_service max_size) c"

section \<open>A concrete system for the witnesses\<close>

text \<open>
  No faults, no peers, the plain blob store, one client that answers every managed and passthrough
  call, and a digest that is cheap to compute.
\<close>

definition sample_digest :: "bytes \<Rightarrow> text_str" where
  "sample_digest m = ''d'' @ dec_str (foldl (\<lambda>n c. (31 * n + of_char c) mod 65521) 7 m)"

definition sample_answer :: client_answer where
  "sample_answer = \<lparr>ca_exit_code = 0, ca_stdout = ''hello'', ca_stderr = [], ca_token_usage = None\<rparr>"

definition sample_runtime :: runtime where
  "sample_runtime =
     \<lparr>rt_hash = sample_digest,
      rt_db = \<lparr>de_digest = sample_digest, de_fault = (\<lambda>_. None), de_now = (\<lambda>n. ''t'' @ dec_str n),
              de_uuid = (\<lambda>n. ''r'' @ dec_str n), de_iso_ok = (\<lambda>_. True)\<rparr>,
      rt_blob = sample_blob_env,
      rt_reg = \<lparr>re_fault = (\<lambda>_. None), re_now = (\<lambda>n. ''t'' @ dec_str n), re_epoch = (\<lambda>_. Some 0)\<rparr>,
      rt_store = FilesystemBlobStore, rt_uuid = (\<lambda>n. ''u'' @ dec_str (n mod 1000)), rt_peer = (\<lambda>_ x. x),
      rt_store_lock = True, rt_purge_lock = True, rt_lock_fault = (\<lambda>_. None),
      rt_runners = [(''claude'', \<lparr>ap_managed = True, ap_passthrough = True, ap_relay = False, ap_api = False,
                                  ap_config = False\<rparr>)],
      rt_client = (\<lambda>_ _. Inr sample_answer),
      rt_api = (\<lambda>_ _. Inl (Exn ProviderApiError [])), rt_fingerprint = (\<lambda>p. Inr p), rt_workspace = True,
      rt_ws_fault = (\<lambda>_. None), rt_stage_files = (\<lambda>_ _. []), rt_run_files = (\<lambda>_ files. files)\<rparr>"

definition sample_world :: world where
  "sample_world =
     \<lparr>w_db = \<lparr>ds_db = empty_db, ds_ops = 0\<rparr>, w_blobs = empty_blob_fs, w_reg = empty_registry, w_minted = 0,
      w_calls = 0, w_held = [], w_waits = 0, w_lock_opens = 0, w_ws_ops = 0, w_ws_open = 0\<rparr>"

definition sample_command :: run_command where
  "sample_command =
     \<lparr>ki_client = ''claude'', ki_model = ''m'', ki_effort = [], ki_context = [], ki_prompt = ''hi'',
      ki_user_system_prompt = None, ki_input_file_paths = [], ki_allow_paths = [], ki_client_args = [],
      ki_grants = [], rc_execution_kind = LOCAL_PASSTHROUGH, rc_scan_trust = False,
      rc_native_args = [''-p'', ''hi''], rc_raw_body = [], rc_forward_headers = [], rc_cache_mode = MODE_CACHE,
      rc_persistence_depth = DEPTH_CACHE, rc_record_on_error = False, rc_tags = [], rc_session_id = None\<rparr>"

end
