(* ===== verification/Repair_Service.thy ===== *)
theory Repair_Service
  imports Cached_Service
begin

text \<open>
  \<open>usecase/repair_store_service.py\<close>: each run that awaits persistence is reconciled with the
  blobs that are present, without running a client. The counters are accumulated in the report.
\<close>

record repair_report =
  rp_runs_recovered :: nat
  rp_runs_unrecoverable :: nat
  rp_blobs_reconciled :: nat
  rp_blobs_missing :: nat

definition no_repair :: repair_report where
  "no_repair = \<lparr>rp_runs_recovered = 0, rp_runs_unrecoverable = 0, rp_blobs_reconciled = 0, rp_blobs_missing = 0\<rparr>"

text \<open>The loop over the blob keys of a run: how many are present, how many are missing.\<close>

fun repair_blobs :: "runtime \<Rightarrow> text_str \<Rightarrow> text_str list \<Rightarrow> (world, nat \<times> nat) prog" where
  "repair_blobs rt execution_id [] = ret (0, 0)"
| "repair_blobs rt execution_id (blob_key # blob_keys) =
     bindP (on_blobs (store_get (rt_blob rt) (rt_store rt) blob_key)) (\<lambda>content.
     if content \<noteq> None
     then thenP (on_db (mark_artifacts_stored (rt_db rt) execution_id blob_key))
       (bindP (repair_blobs rt execution_id blob_keys) (\<lambda>(present, missing). ret (Suc present, missing)))
     else thenP (on_db (mark_artifacts_failed (rt_db rt) execution_id blob_key ''blob missing on repair''))
       (bindP (repair_blobs rt execution_id blob_keys) (\<lambda>(present, missing). ret (present, Suc missing))))"

definition repair_run :: "runtime \<Rightarrow> unpersisted_run \<Rightarrow> repair_report \<Rightarrow> (world, repair_report) prog" where
  "repair_run rt run rep =
     bindP (repair_blobs rt (ur_execution_id run) (ur_blob_keys run)) (\<lambda>(present, missing).
     let rep = rep\<lparr>rp_blobs_reconciled := rp_blobs_reconciled rep + present,
                   rp_blobs_missing := rp_blobs_missing rep + missing\<rparr>
     in if missing = 0
        then thenP (on_db (finalize_output_persisted (rt_db rt) (ur_execution_id run)))
               (ret (rep\<lparr>rp_runs_recovered := Suc (rp_runs_recovered rep)\<rparr>))
        else ret (rep\<lparr>rp_runs_unrecoverable := Suc (rp_runs_unrecoverable rep)\<rparr>))"

fun repair_runs :: "runtime \<Rightarrow> unpersisted_run list \<Rightarrow> repair_report \<Rightarrow> (world, repair_report) prog" where
  "repair_runs rt [] rep = ret rep"
| "repair_runs rt (run # runs) rep = bindP (repair_run rt run rep) (repair_runs rt runs)"

definition repair :: "runtime \<Rightarrow> (world, repair_report) prog" where
  "repair rt =
     bindP (on_db (runs_awaiting_persistence (rt_db rt))) (\<lambda>runs. repair_runs rt runs no_repair)"

end
