(* ===== verification/Service_Frame.thy ===== *)
theory Service_Frame
  imports Run_Service Repair_Service
begin

text \<open>
  What every use case keeps. The interface of the services with their ports is the locale
  \<open>store_frame\<close>: a relation between worlds kept by each port operation on the store. Inside it the
  relation is carried through the serving of a stored execution, the soft purges, the evictions and
  the repair; \<open>port_frame\<close> adds the client call, \<open>service_frame\<close> the hooks of a kind of call and
  with them the whole record-or-replay flow, and \<open>purge_frame\<close> the hard deletions. The interpretations give the invariant of the tables, the release of the locks,
  the append-only journal and the names in the blob directory, each for every service at once.
\<close>

section \<open>The interface\<close>

locale store_frame =
  fixes R :: "world \<Rightarrow> world \<Rightarrow> bool"
    and rt :: runtime
  assumes preorder: "preorder_rel R"
    and find_current: "steps R (on_db (find_current (rt_db rt) key))"
    and find_all: "steps R (on_db (find_all (rt_db rt) key))"
    and total_stored_bytes: "steps R (on_db (total_stored_bytes (rt_db rt)))"
    and current_sizes: "steps R (on_db (current_executions_with_sizes (rt_db rt)))"
    and by_tag: "steps R (on_db (executions_by_tag (rt_db rt) tag))"
    and all_keys: "steps R (on_db (all_execution_keys (rt_db rt)))"
    and runs_awaiting: "steps R (on_db (runs_awaiting_persistence (rt_db rt)))"
    and save: "steps R (on_db (save (rt_db rt) x))"
    and persist_artifact: "steps R (on_db (persist_artifact (rt_db rt) eid a))"
    and mark_stored: "steps R (on_db (mark_artifacts_stored (rt_db rt) eid bk))"
    and mark_failed: "steps R (on_db (mark_artifacts_failed (rt_db rt) eid bk t))"
    and finalize: "steps R (on_db (finalize_output_persisted (rt_db rt) eid))"
    and remove_execution: "steps R (on_db (remove_execution (rt_db rt) eid))"
    and add_tags: "steps R (on_db (add_tags (rt_db rt) key tags))"
    and add_input: "steps R (on_db (add_input_artifacts (rt_db rt) key as))"
    and soft_purge: "steps R (on_db (soft_purge_execution (rt_db rt) key))"
    and blob_get: "steps R (on_blobs (store_get (rt_blob rt) (rt_store rt) bk))"
    and blob_put: "steps R (on_blobs (store_put (rt_blob rt) (rt_store rt) bk v))"
    and blob_remove: "steps R (on_blobs (store_remove (rt_blob rt) (rt_store rt) bk))"
    and blob_healthy: "steps R (on_blobs (store_is_healthy (rt_blob rt) (rt_store rt)))"
    and event: "steps R (on_reg (record_event (rt_reg rt) ev k c m ef sid))"
    and last_access: "steps R (on_reg (last_access (rt_reg rt)))"
    and session_keys: "steps R (on_reg (execution_keys_for_session (rt_reg rt) sess))"
    and tag_sessions: "steps R (on_reg (session_ids_for_tag (rt_reg rt) tag))"
    and mint: "steps R (mint_id rt)"
    and lock_opened: "R w (w\<lparr>w_lock_opens := n\<rparr>)"
    and key_lock: "steps R p \<Longrightarrow> steps R (with_key_lock rt key (p :: (world, ml_execution) prog))"
    and key_lock_unit: "steps R q \<Longrightarrow> steps R (with_key_lock rt key (q :: (world, unit) prog))"
    and key_lock_count: "steps R u \<Longrightarrow> steps R (with_key_lock rt key (u :: (world, nat \<times> nat) prog))"
begin

lemmas port_steps = preorder find_current find_all total_stored_bytes current_sizes by_tag all_keys runs_awaiting
  save persist_artifact mark_stored mark_failed finalize remove_execution add_tags add_input
  soft_purge blob_get blob_put blob_remove blob_healthy event last_access session_keys tag_sessions mint

lemma content_lock_steps: "steps R m \<Longrightarrow> steps R (with_content_lock rt m)"
  by (rule steps_with_content_lock [OF preorder _ lock_opened])

lemma journal_steps: "steps R (journal rt hk ev key cmd)"
  unfolding journal_def by (intro steps_rules port_steps)

lemma apply_tags_steps: "steps R (apply_tags rt hk key cmd)"
  unfolding apply_tags_def by (intro steps_rules port_steps)

lemma store_blob_steps: "steps R (store_blob rt eid a)"
  unfolding store_blob_def by (intro steps_rules port_steps)

lemma persist_documents_steps: "steps R (persist_documents rt eid as)"
  by (induction as; simp only: persist_documents.simps; intro steps_rules port_steps store_blob_steps)

lemma hydrate_steps: "steps R (hydrate rt x)"
  unfolding hydrate_def hydrate_artifact_def by (intro steps_rules port_steps)

lemmas document_steps = journal_steps apply_tags_steps store_blob_steps persist_documents_steps
  hydrate_steps content_lock_steps

lemma accumulate_input_steps: "steps R (accumulate_input rt hk cmd key x)"
  unfolding accumulate_input_def by (intro steps_rules key_lock_unit document_steps port_steps)

lemma serve_hit_steps: "steps R (serve_hit rt hk cmd key x)"
  unfolding serve_hit_def by (intro steps_rules document_steps accumulate_input_steps port_steps)

lemma quarantine_steps: "steps R (remove_execution_and_blobs rt x)"
  unfolding remove_execution_and_blobs_def by (intro steps_rules port_steps)

lemma serve_current_steps: "steps R (serve_current_if_healthy rt hk cmd key)"
  unfolding serve_current_if_healthy_def
  by (intro steps_rules serve_hit_steps quarantine_steps port_steps)

lemma offline_miss_steps: "steps R (offline_miss rt hk cmd key why)"
  unfolding offline_miss_def by (intro steps_rules document_steps port_steps)

lemma serve_offline_steps: "steps R (serve_offline rt hk cmd key)"
  unfolding serve_offline_def by (intro steps_rules serve_hit_steps offline_miss_steps port_steps)

lemma soft_purge_key_steps: "steps R (soft_purge_key rt key)"
  unfolding soft_purge_key_def key_lock_def blob_sizes_for_def remove_blobs_def
  by (intro steps_rules key_lock_count port_steps)

lemma soft_purge_keys_steps: "steps R (soft_purge_keys rt keys)"
  unfolding soft_purge_keys_def purge_keys_def by (intro steps_rules soft_purge_key_steps port_steps)

lemma evict_to_quota_steps: "steps R (evict_to_quota rt max_bytes)"
  unfolding evict_to_quota_def access_ordering_def by (intro steps_rules soft_purge_keys_steps port_steps)

lemma evict_stale_steps: "steps R (evict_stale rt now age)"
  unfolding evict_stale_def access_ordering_def by (intro steps_rules soft_purge_keys_steps port_steps)

lemma repair_steps: "steps R (repair rt)"
proof -
  have blobs: "steps R (repair_blobs rt eid bks)" for eid bks
    by (induction bks; simp only: repair_blobs.simps; intro steps_rules port_steps)
  have "steps R (repair_runs rt rs rep)" for rs rep
    by (induction rs arbitrary: rep; simp only: repair_runs.simps repair_run_def;
        intro steps_rules blobs port_steps)
  then show ?thesis unfolding repair_def by (intro steps_rules port_steps)
qed

lemma build_identity_steps: "steps R (build_identity rt c)"
  unfolding build_identity_def
  by (cases "rc_execution_kind c"; simp only: execution_kind.case; intro steps_rules preorder)

lemma after_record_steps: "steps R (after_record rt ps ms key)"
  unfolding after_record_def by (intro steps_rules evict_to_quota_steps preorder)

end

locale port_frame = store_frame +
  assumes counters: "R w (w\<lparr>w_calls := n\<rparr>)" "R w (w\<lparr>w_ws_ops := n\<rparr>)" "R w (w\<lparr>w_ws_open := n\<rparr>)"
begin

lemma run_client_steps: "steps R (run_client rt c)"
  by (rule run_client_rel [OF preorder counters])

end

locale service_frame = store_frame +
  fixes hk :: "'c hooks"
  assumes build_identity: "steps R (hk_build_identity hk cmd)"
    and run_client: "steps R (hk_run_client hk cmd)"
    and run_and_record: "steps R (run_and_record rt hk cmd idn key)"
begin

lemmas hook_steps = build_identity run_client run_and_record

lemma run_unstored_steps: "steps R (run_unstored rt hk cmd idn)"
  unfolding run_unstored_def by (intro steps_rules port_steps hook_steps)

lemma run_metered_steps: "steps R (run_metered rt hk cmd idn key)"
  unfolding run_metered_def by (intro steps_rules document_steps run_unstored_steps port_steps hook_steps)

lemma run_fresh_steps: "steps R (run_fresh rt hk cmd idn key st)"
  unfolding run_fresh_def run_fresh_locked_def
  by (intro steps_rules key_lock serve_current_steps run_unstored_steps
      document_steps port_steps hook_steps)

lemma execute_steps: "steps R (execute rt hk cmd)"
  unfolding execute_def run_uncacheable_def
  by (intro steps_rules serve_offline_steps offline_miss_steps run_metered_steps serve_current_steps
      run_fresh_steps port_steps hook_steps)

end

text \<open>
  When the relation is kept by \<open>record_outcome\<close> in every state, it is kept by the recording of a
  run; the run service is one of its kinds, whatever purge service and limit are injected.
\<close>

locale world_frame = port_frame +
  assumes record_outcome: "steps R (on_db (record_outcome (rt_db rt) x))"
begin

lemma run_and_record_steps: "steps R (run_and_record rt (run_hooks rt ps ms) cmd idn key)"
proof -
  have client: "steps R (hk_run_client (run_hooks rt ps ms) cmd)" for cmd
    by (simp add: run_hooks_def run_client_steps)
  have after: "steps R (hk_after_record (run_hooks rt ps ms) key)" for key
    by (simp add: run_hooks_def after_record_steps)
  have "steps R (guarded_run_client rt (run_hooks rt ps ms) cmd x)" for x
    unfolding guarded_run_client_def abandon_in_progress_as_failed_def
    by (intro steps_rules client record_outcome port_steps)
  moreover have "steps R (record_unstored rt (run_hooks rt ps ms) cmd x key res)"
    "steps R (record_stored rt (run_hooks rt ps ms) cmd x key res)" for x res
    unfolding record_unstored_def record_stored_def
    by (intro steps_rules document_steps record_outcome after port_steps)+
  ultimately show ?thesis
    unfolding run_and_record_def storage_unhealthy_def by (intro steps_rules port_steps)
qed

end

sublocale world_frame \<subseteq> runs: service_frame R rt "run_hooks rt ps ms" for ps ms
  by unfold_locales
    (simp_all add: run_and_record_steps, simp_all add: run_hooks_def build_identity_steps run_client_steps)

locale purge_frame = store_frame +
  assumes hard_delete: "steps R (on_db (hard_delete_execution (rt_db rt) key))"
    and delete_events: "steps R (on_reg (delete_events_for_key (rt_reg rt) key))"
begin

lemma hard_delete_keys_steps: "steps R (hard_delete_keys rt keys)"
  unfolding hard_delete_keys_def purge_keys_def hard_delete_key_def key_lock_def blob_sizes_for_def remove_blobs_def
  by (intro steps_rules key_lock_count port_steps hard_delete delete_events)

lemma purge_steps: "steps R (purge rt keys hard)"
  unfolding purge_def by (intro steps_rules hard_delete_keys_steps soft_purge_keys_steps)

lemma keys_of_sessions_steps: "steps R (keys_of_sessions rt sids seen)"
  by (induction sids arbitrary: seen; simp only: keys_of_sessions.simps; intro steps_rules port_steps)

lemma purge_scopes_steps:
  "steps R (purge_by_key rt key hard)" "steps R (purge_by_tag rt tag hard)"
  "steps R (purge_by_session rt sid hard)" "steps R (purge_by_session_tag rt tag hard)"
  "steps R (purge_all rt hard)"
  unfolding purge_by_key_def purge_by_tag_def purge_by_session_def purge_by_session_tag_def purge_all_def
    keys_for_session_tag_def
  by (intro steps_rules purge_steps keys_of_sessions_steps port_steps)+

end

end
