(* ===== verification/Row_Lifecycle.thy ===== *)
theory Row_Lifecycle
  imports Repository_Invariant Cached_Service
begin

text \<open>
  The life of the row of a recorded run, from \<open>save\<close> to \<open>finalize_output_persisted\<close>, at the level
  of the transaction bodies: each step succeeds where the flow uses it, and the last one makes the
  row the servable one of its key, with the stored documents as its artifacts.
\<close>

section \<open>The unpersisted row\<close>

definition row_unpersisted :: "text_str \<Rightarrow> db \<Rightarrow> bool" where
  "row_unpersisted execution_id d \<longleftrightarrow> (\<exists>r. find_row d execution_id = Some r \<and> \<not> er_output_persisted r)"

lemma row_unpersisted_executions: "db_executions d' = db_executions d \<Longrightarrow> row_unpersisted e d' = row_unpersisted e d"
  by (simp add: row_unpersisted_def find_row_def)

lemma commits_executions:
  assumes "steps (keeping db_executions) m"
  shows "commits (row_unpersisted e) m (\<lambda>_. row_unpersisted e)"
proof (rule commits_snd)
  fix d assume "row_unpersisted e d"
  moreover have "db_executions (snd (m d)) = db_executions d"
    using assms unfolding steps_def keeping_def by blast
  ultimately show "row_unpersisted e (snd (m d))" using row_unpersisted_executions by blast
qed

lemma save_body_unpersisted:
  assumes "\<not> ex_output_persisted x"
  shows "commits tables_ok (save_body E x n) (\<lambda>_ d. tables_ok d \<and> row_unpersisted (ex_execution_id x) d)"
proof -
  let ?e = "ex_execution_id x"
  have ins: "commits (\<lambda>_. True) (insert_execution key x t) (\<lambda>_. row_unpersisted ?e)" for key t
  proof -
    have "row_unpersisted ?e (d\<lparr>db_executions := db_executions d @ [execution_row i key x t]\<rparr>)"
      if "Some ?e \<notin> er_execution_id ` set (db_executions d)" for d i
    proof -
      have "find (\<lambda>r. er_execution_id r = Some ?e) (db_executions d) = None"
        using that by (force simp: find_None_iff)
      then show ?thesis
        by (simp add: row_unpersisted_def find_row_def find_append execution_row_def assms)
    qed
    then show ?thesis by (auto simp: triple_def insert_execution_run)
  qed
  have "commits (\<lambda>_. True) (save_body E x n) (\<lambda>_. row_unpersisted ?e)"
    unfolding save_body_def Let_def
    by (rule triple_then [where R = "\<lambda>_. True"], simp add: triple_def split: sum.split,
        rule triple_then [where R = "\<lambda>_. True"], simp add: triple_def split: sum.split,
        rule triple_bind [OF ins], rule triple_then [where R = "row_unpersisted ?e"])
      (intro commits_executions keeping_statements)+
  from commits_conj [OF this commits_conj [OF save_body_ok save_body_current]] show ?thesis
    by (rule triple_conseq) (auto simp: tables_ok_def)
qed

lemma record_outcome_body_tables:
  "commits (\<lambda>d. tables_ok d \<and> row_unpersisted (ex_execution_id x) d) (record_outcome_body x) (\<lambda>_. tables_ok)"
proof -
  have "commits (\<lambda>d. tables_ok d \<and> row_unpersisted (ex_execution_id x) d) (record_outcome_body x) (\<lambda>_. one_current)"
    unfolding triple_def
  proof (intro allI impI)
    fix d assume d: "tables_ok d \<and> row_unpersisted (ex_execution_id x) d"
    then obtain r where r: "find_row d (ex_execution_id x) = Some r" "\<not> er_output_persisted r"
      by (auto simp: row_unpersisted_def)
    have unp: "\<not> er_output_persisted q" if "q \<in> set (db_executions d)" "er_id q = er_id (the (find_row d (ex_execution_id x)))" for q
      using row_update_self [of "db_executions d" r q] find_row_Some [OF r(1)] d that r
      by (auto simp: tables_ok_def db_ok_def)
    show "case record_outcome_body x d of (Inl e, w') \<Rightarrow> True | (Inr a, w') \<Rightarrow> one_current w'"
    proof (cases "record_outcome_body x d")
      case (Pair y d')
      then show ?thesis
        using record_outcome_keeps_current [of d x _ d'] d unp by (cases y) (auto simp: tables_ok_def)
    qed
  qed
  from commits_conj [OF this record_outcome_body_ok] show ?thesis
    by (rule triple_conseq) (auto simp: tables_ok_def)
qed

section \<open>Rows of one execution\<close>

lemma find_update:
  assumes "\<And>r. er_execution_id (f r) = er_execution_id r"
  shows "find (\<lambda>r. er_execution_id r = Some e) (map (\<lambda>r. if P r then f r else r) rows)
       = map_option (\<lambda>r. if P r then f r else r) (find (\<lambda>r. er_execution_id r = Some e) rows)"
  using assms by (induction rows) auto

lemma find_row_executions: "db_executions d' = db_executions d \<Longrightarrow> find_row d' e = find_row d e"
  by (simp add: find_row_def)

lemma find_none_new: "Some e \<notin> er_execution_id ` set rows \<Longrightarrow> find (\<lambda>r. er_execution_id r = Some e) rows = None"
  by (force simp: find_None_iff)

lemma current_row_unique:
  assumes "one_current d" and "r \<in> set (db_executions d)" and "row_current r" and "er_key r = key"
  shows "current_row d key = Some r"
proof -
  have mem: "r \<in> set (filter row_current (key_rows d key))" using assms by (simp add: key_rows_def)
  then have ne: "filter row_current (key_rows d key) \<noteq> []" by (metis empty_iff empty_set)
  let ?l = "last (filter row_current (key_rows d key))"
  have "?l \<in> set (filter row_current (key_rows d key))" using ne last_in_set by blast
  then have "?l \<in> set (db_executions d)" "row_current ?l" "er_key ?l = key"
    by (auto simp: key_rows_def)
  with assms have "?l = r" unfolding one_current_def by metis
  with ne show ?thesis by (simp add: current_row_def last_opt_def)
qed

text \<open>The row of the run in hand, with the state it has reached.\<close>

definition run_row :: "db \<Rightarrow> text_str \<Rightarrow> text_str \<Rightarrow> execution_kind \<Rightarrow> execution_state \<Rightarrow> bool \<Rightarrow> nat \<Rightarrow> bool" where
  "run_row d e key kind st persisted i \<longleftrightarrow>
     (\<exists>r. find_row d e = Some r \<and> er_id r = i \<and> er_key r = key \<and> er_kind r = kind_value kind
        \<and> er_state r = state_value st \<and> er_output_persisted r = persisted \<and> er_superseded_at r = None
        \<and> (st = SUCCESS \<longrightarrow> er_failure_reason r = None))"

lemma run_row_executions: "db_executions d' = db_executions d \<Longrightarrow> run_row d' e key kind st p i = run_row d e key kind st p i"
  by (simp add: run_row_def find_row_def)

definition readable_identity :: "db \<Rightarrow> text_str \<Rightarrow> bool" where
  "readable_identity d key \<longleftrightarrow> (\<exists>idn. load_identity d key = Inr idn)"

lemma load_identity_identities: "db_identities d' = db_identities d \<Longrightarrow> load_identity d' key = load_identity d key"
  by (simp add: load_identity_def)

lemma load_usage_same: "db_usage d' = db_usage d \<Longrightarrow> load_token_usage d' i = load_token_usage d i"
  by (simp add: load_token_usage_def)

lemma load_usage_none: "i \<notin> us_execution_id ` set (db_usage d) \<Longrightarrow> load_token_usage d i = Inr None"
proof -
  assume "i \<notin> us_execution_id ` set (db_usage d)"
  then have "find (\<lambda>u. us_execution_id u = i) (db_usage d) = None" by (auto simp: find_None_iff)
  then show ?thesis by (simp add: load_token_usage_def)
qed

text \<open>What a fresh row id has: nothing.\<close>

lemma fresh_children:
  assumes "db_ok d"
  shows "row_artifacts d (fresh_id (map er_id (db_executions d))) = []"
    and "fresh_id (map er_id (db_executions d)) \<notin> us_execution_id ` set (db_usage d)"
proof -
  have new: "fresh_id (map er_id (db_executions d)) \<notin> er_id ` set (db_executions d)"
    using fresh_id_greater [of _ "map er_id (db_executions d)"] by fastforce
  with db_okD(1) [OF assms] have "\<forall>a \<in> set (db_artifacts d). af_execution_id a \<noteq> fresh_id (map er_id (db_executions d))"
    by metis
  then show "row_artifacts d (fresh_id (map er_id (db_executions d))) = []"
    by (simp add: row_artifacts_def filter_empty_conv)
  from new db_okD(2) [OF assms] show "fresh_id (map er_id (db_executions d)) \<notin> us_execution_id ` set (db_usage d)"
    by (metis (no_types, lifting) imageE)
qed

section \<open>The steps\<close>

text \<open>The state of the run: its row, the artifacts of the row, its usage, a readable identity.\<close>

definition run_state ::
  "db \<Rightarrow> text_str \<Rightarrow> text_str \<Rightarrow> execution_kind \<Rightarrow> execution_state \<Rightarrow> bool \<Rightarrow> token_usage option
     \<Rightarrow> artifact_row list \<Rightarrow> bool" where
  "run_state d e key kind st persisted usage arts \<longleftrightarrow>
     tables_ok d \<and> readable_identity d key
     \<and> (\<exists>i. run_row d e key kind st persisted i \<and> row_artifacts d i = arts \<and> load_token_usage d i = Inr usage
            \<and> (usage = None \<longrightarrow> i \<notin> us_execution_id ` set (db_usage d)))"

lemma tables_okD: "tables_ok d \<Longrightarrow> db_ok d" "tables_ok d \<Longrightarrow> one_current d"
  by (simp_all add: tables_ok_def)

lemma find_id_append: "find (\<lambda>i. id_key i = key) (xs @ [y]) =
    (case find (\<lambda>i. id_key i = key) xs of None \<Rightarrow> if id_key y = key then Some y else None | Some x \<Rightarrow> Some x)"
  by (induction xs) auto

lemma upsert_identity_readable:
  assumes "identity_finite idn" and "has_identity key d \<Longrightarrow> readable_identity d key"
  shows "\<exists>ids. upsert_identity key idn d = (Inr (), d\<lparr>db_identities := ids\<rparr>)
    \<and> readable_identity (d\<lparr>db_identities := ids\<rparr>) key \<and> has_identity key (d\<lparr>db_identities := ids\<rparr>)
    \<and> (db_ok d \<longrightarrow> db_ok (d\<lparr>db_identities := ids\<rparr>))"
proof (cases "has_identity key d")
  case True
  with assms(2) have "upsert_identity key idn d = (Inr (), d\<lparr>db_identities := db_identities d\<rparr>)"
    by (simp add: upsert_identity_def has_identity_def)
  with True assms(2) show ?thesis by (intro exI [of _ "db_identities d"]) simp
next
  case False
  let ?s = "serialize_identity idn"
  let ?ids = "db_identities d @ [\<lparr>id_key = key, id_kind = si_kind ?s, id_client = si_client ?s, id_model = si_model ?s,
      id_effort = si_effort ?s, id_identity_json = Some (si_identity_json ?s)\<rparr>]"
  have none: "find (\<lambda>i. id_key i = key) (db_identities d) = None"
    using False by (auto simp: has_identity_def find_None_iff)
  have run: "upsert_identity key idn d = (Inr (), d\<lparr>db_identities := ?ids\<rparr>)"
    using False by (simp add: upsert_identity_def has_identity_def Let_def)
  moreover have "readable_identity (d\<lparr>db_identities := ?ids\<rparr>) key"
    using none assms(1)
    by (simp add: readable_identity_def load_identity_def find_id_append deserialize_identity_def deserialize_serialize)
  moreover have "has_identity key (d\<lparr>db_identities := ?ids\<rparr>)" by (simp add: has_identity_def)
  moreover have "db_ok d \<Longrightarrow> db_ok (d\<lparr>db_identities := ?ids\<rparr>)"
    using tripleD_Inr [OF upsert_identity_ok _ run] by blast
  ultimately show ?thesis by blast
qed

lemma save_step:
  assumes d: "tables_ok d" and fresh: "Some (ex_execution_id x) \<notin> er_execution_id ` set (db_executions d)"
    and idn: "identity_finite (ex_call_identity x)"
    and key: "key = generate_key (de_digest E) (ex_call_identity x)"
    and readable: "has_identity key d \<Longrightarrow> readable_identity d key"
    and x: "ex_output_persisted x = False" "ex_execution_state x = IN_PROGRESS" "ex_artifacts x = []"
      "ex_token_usage x = None" "ex_superseded_at x = None"
  shows "\<exists>d'. save_body E x n d = (Inr (), d')
    \<and> run_state d' (ex_execution_id x) key (ex_execution_kind x) IN_PROGRESS False None []"
proof -
  obtain ids where up: "upsert_identity key (ex_call_identity x) d = (Inr (), d\<lparr>db_identities := ids\<rparr>)"
    and ids: "readable_identity (d\<lparr>db_identities := ids\<rparr>) key"
    using upsert_identity_readable [OF idn] readable by blast
  let ?i = "fresh_id (map er_id (db_executions d))"
  let ?row = "execution_row ?i key x (de_now E n)"
  let ?d = "d\<lparr>db_identities := ids, db_executions := db_executions d @ [?row]\<rparr>"
  have run: "save_body E x n d = (Inr (), ?d)"
    using up fresh x
    by (simp add: save_body_def key [symmetric] Let_def thenP_def bindP_def insert_execution_run is_servable_def
        insert_artifacts_def insert_token_usage_def)
  have ok: "tables_ok ?d"
    using tripleD_Inr [OF save_body_ok _ run] tripleD_Inr [OF save_body_current _ run] d by (simp add: tables_ok_def)
  have "find_row ?d (ex_execution_id x) = Some ?row"
    using find_none_new [OF fresh] by (simp add: find_row_def) (simp add: execution_row_def find_append)
  then have "run_row ?d (ex_execution_id x) key (ex_execution_kind x) IN_PROGRESS False ?i"
    using x by (simp add: run_row_def)
  moreover have "row_artifacts ?d ?i = []" "?i \<notin> us_execution_id ` set (db_usage ?d)"
    using fresh_children [OF tables_okD(1) [OF d]] by (simp_all add: row_artifacts_def)
  moreover from this(2) have "load_token_usage ?d ?i = Inr None"
    by (simp add: load_usage_none)
  moreover have "readable_identity ?d key"
    using ids by (simp add: readable_identity_def load_identity_def)
  ultimately show ?thesis using run ok unfolding run_state_def by blast
qed

lemma require_row_id_run: "find_row d e = Some r \<Longrightarrow> require_row_id e d = (Inr (er_id r), d)"
  by (simp add: require_row_id_def bindP_def)

lemma find_usage_append: "i \<notin> us_execution_id ` set us \<Longrightarrow> find (\<lambda>u. us_execution_id u = i) (us @ [u]) =
    (if us_execution_id u = i then Some u else None)"
  by (induction us) auto

lemma insert_token_usage_run:
  assumes "i \<notin> us_execution_id ` set (db_usage d)"
  shows "\<exists>us. insert_token_usage i usage d = (Inr (), d\<lparr>db_usage := us\<rparr>)
    \<and> load_token_usage (d\<lparr>db_usage := us\<rparr>) i = Inr usage
    \<and> (usage = None \<longrightarrow> i \<notin> us_execution_id ` set us)"
proof (cases usage)
  case None
  with assms show ?thesis by (intro exI [of _ "db_usage d"]) (simp add: insert_token_usage_def load_usage_none)
next
  case (Some u)
  let ?row = "\<lparr>us_execution_id = i, us_input_tokens = tu_input_tokens u,
              us_output_tokens = tu_output_tokens u, us_cache_read_tokens = tu_cache_read_tokens u,
              us_cache_write_tokens = tu_cache_write_tokens u,
              us_reasoning_tokens = tu_reasoning_tokens u, us_cost_usd = tu_cost_usd u,
              us_raw_json = Some (tu_raw u)\<rparr>"
  have "insert_token_usage i usage d = (Inr (), d\<lparr>db_usage := db_usage d @ [?row]\<rparr>)"
    using assms Some by (simp add: insert_token_usage_def bindP_def)
  moreover have "load_token_usage (d\<lparr>db_usage := db_usage d @ [?row]\<rparr>) i = Inr usage"
    using find_usage_append [OF assms, of ?row] Some by (simp add: load_token_usage_def)
  ultimately show ?thesis using Some by blast
qed

lemma record_outcome_step:
  assumes "run_state d e key kind st False None arts"
    and x: "ex_execution_id x = e" "ex_execution_state x = SUCCESS" "ex_failure x = None"
  shows "\<exists>d'. record_outcome_body x d = (Inr (), d') \<and> run_state d' e key kind SUCCESS False (ex_token_usage x) arts"
proof -
  from assms(1) obtain i where ok: "tables_ok d" "readable_identity d key"
    and row: "run_row d e key kind st False i" and arts: "row_artifacts d i = arts"
    and none: "i \<notin> us_execution_id ` set (db_usage d)"
    unfolding run_state_def by blast
  then obtain r where r: "find_row d e = Some r" "er_id r = i" "er_key r = key" "er_kind r = kind_value kind"
    "\<not> er_output_persisted r" "er_superseded_at r = None"
    unfolding run_row_def by blast
  let ?d = "d\<lparr>db_executions := map (\<lambda>q. if er_id q = i then outcome_row x q else q) (db_executions d)\<rparr>"
  have n: "i \<notin> us_execution_id ` set (db_usage ?d)" using none by simp
  obtain us where us_all: "insert_token_usage i (ex_token_usage x) ?d = (Inr (), ?d\<lparr>db_usage := us\<rparr>)
    \<and> load_token_usage (?d\<lparr>db_usage := us\<rparr>) i = Inr (ex_token_usage x)
    \<and> (ex_token_usage x = None \<longrightarrow> i \<notin> us_execution_id ` set us)"
    using insert_token_usage_run [OF n, of "ex_token_usage x"] by (rule exE)
  note us = us_all [THEN conjunct1] us_all [THEN conjunct2, THEN conjunct1] us_all [THEN conjunct2, THEN conjunct2]
  have run: "record_outcome_body x d = (Inr (), ?d\<lparr>db_usage := us\<rparr>)"
    using r us by (simp add: record_outcome_body_def bindP_def thenP_def require_row_id_run x update_executions_def)
  have "row_unpersisted e d" using r by (simp add: row_unpersisted_def)
  then have "tables_ok (?d\<lparr>db_usage := us\<rparr>)"
    using tripleD_Inr [OF record_outcome_body_tables _ run] ok x by simp
  moreover have "find_row (?d\<lparr>db_usage := us\<rparr>) e = Some (outcome_row x r)"
    using r find_update [of "outcome_row x" e "\<lambda>q. er_id q = i" "db_executions d"]
    by (simp add: find_row_def outcome_row_def)
  then have "run_row (?d\<lparr>db_usage := us\<rparr>) e key kind SUCCESS False i"
    using r x by (simp add: run_row_def outcome_row_def)
  moreover have "readable_identity (?d\<lparr>db_usage := us\<rparr>) key" "row_artifacts (?d\<lparr>db_usage := us\<rparr>) i = arts"
    using ok arts by (simp_all add: readable_identity_def load_identity_def row_artifacts_def)
  ultimately show ?thesis using run us unfolding run_state_def by auto
qed

definition pending_row :: "nat \<Rightarrow> nat \<Rightarrow> artifact \<Rightarrow> artifact_row" where
  "pending_row j i a =
     \<lparr>af_id = j, af_execution_id = i, af_type = type_value (at_type a), af_name = at_name a,
      af_encoding = at_encoding a, af_blob_key = at_blob_key a, af_size_bytes = at_size_bytes a,
      af_status = status_value (at_status a), af_persisted_at = at_persisted_at a,
      af_status_detail = at_status_detail a\<rparr>"

lemma persist_artifact_step:
  assumes "run_state d e key kind st p usage arts"
  shows "\<exists>d' i j. persist_artifact_body e a d = (Inr (), d') \<and> run_state d' e key kind st p usage (arts @ [pending_row j i a])"
proof -
  from assms obtain i where ok: "tables_ok d" "readable_identity d key"
    and row: "run_row d e key kind st p i" and arts: "row_artifacts d i = arts"
    and us: "load_token_usage d i = Inr usage" "usage = None \<longrightarrow> i \<notin> us_execution_id ` set (db_usage d)"
    unfolding run_state_def by blast
  then obtain r where r: "find_row d e = Some r" "er_id r = i" unfolding run_row_def by blast
  let ?a = "pending_row (fresh_id (map af_id (db_artifacts d))) i a"
  let ?d = "d\<lparr>db_artifacts := db_artifacts d @ [?a]\<rparr>"
  have run: "persist_artifact_body e a d = (Inr (), ?d)"
    using r by (simp add: persist_artifact_body_def bindP_def require_row_id_run insert_artifacts_def
        insert_artifact_def thenP_def pending_row_def)
  have "commits one_current (persist_artifact_body e a) (\<lambda>_. one_current)"
    unfolding persist_artifact_body_def
    by (intro commits_keeping steps_rules keeping_statements preorder_keeping)
  with tripleD_Inr [OF this _ run] tripleD_Inr [OF persist_artifact_body_ok _ run] ok
  have "tables_ok ?d" by (simp add: tables_ok_def)
  moreover have "run_row ?d e key kind st p i" using row run_row_executions [of ?d d] by simp
  moreover have "row_artifacts ?d i = arts @ [?a]" using arts by (simp add: row_artifacts_def pending_row_def)
  moreover have "readable_identity ?d key" using ok by (simp add: readable_identity_def load_identity_def)
  moreover have "load_token_usage ?d i = Inr usage" using us by (simp add: load_token_usage_def)
  ultimately show ?thesis using run us unfolding run_state_def by fastforce
qed

lemma filter_map_same: "(\<And>x. P (f x) = P x) \<Longrightarrow> filter P (map f xs) = map f (filter P xs)"
  by (induction xs) auto

lemma update_artifacts_step:
  assumes "run_state d e key kind st p usage arts"
    and f: "\<And>a. af_id (f a) = af_id a \<and> af_execution_id (f a) = af_execution_id a"
    and some: "\<exists>a \<in> set arts. af_blob_key a = bk"
  shows "\<exists>d'. update_artifacts e bk f d = (Inr (), d')
    \<and> run_state d' e key kind st p usage (map (\<lambda>a. if af_blob_key a = bk then f a else a) arts)"
proof -
  from assms obtain i where ok: "tables_ok d" "readable_identity d key"
    and row: "run_row d e key kind st p i" and arts: "row_artifacts d i = arts"
    and us: "load_token_usage d i = Inr usage" "usage = None \<longrightarrow> i \<notin> us_execution_id ` set (db_usage d)"
    unfolding run_state_def by blast
  then obtain r where r: "find_row d e = Some r" "er_id r = i" unfolding run_row_def by blast
  have m: "artifact_match d e bk a \<longleftrightarrow> af_blob_key a = bk \<and> af_execution_id a = i" for a
    using r by (auto simp: artifact_match_def)
  let ?g = "\<lambda>a. if artifact_match d e bk a then f a else a"
  let ?d = "d\<lparr>db_artifacts := map ?g (db_artifacts d)\<rparr>"
  have "filter (artifact_match d e bk) (db_artifacts d) \<noteq> []"
    using some arts by (auto simp: filter_empty_conv m row_artifacts_def)
  then have run: "update_artifacts e bk f d = (Inr (), ?d)"
    by (simp add: update_artifacts_def bindP_def thenP_def)
  have "commits one_current (update_artifacts e bk f) (\<lambda>_. one_current)"
    by (intro commits_keeping keeping_statements)
  with tripleD_Inr [OF this _ run] tripleD_Inr [OF update_artifacts_ok [OF f] _ run] ok
  have "tables_ok ?d" by (simp add: tables_ok_def)
  moreover have "run_row ?d e key kind st p i" using row run_row_executions [of ?d d] by simp
  moreover have "row_artifacts ?d i = map (\<lambda>a. if af_blob_key a = bk then f a else a) arts"
  proof -
    have "af_execution_id (?g a) = af_execution_id a" for a using f by simp
    then have "row_artifacts ?d i = map ?g (row_artifacts d i)"
      by (simp add: row_artifacts_def filter_map_same)
    also have "\<dots> = map (\<lambda>a. if af_blob_key a = bk then f a else a) arts"
      using arts by (auto simp: m row_artifacts_def)
    finally show ?thesis .
  qed
  moreover have "readable_identity ?d key" using ok by (simp add: readable_identity_def load_identity_def)
  moreover have "load_token_usage ?d i = Inr usage" using us by (simp add: load_token_usage_def)
  ultimately show ?thesis using run us unfolding run_state_def by fastforce
qed

lemma finalize_step:
  assumes "run_state d e key kind SUCCESS False usage arts"
    and stored: "\<forall>a \<in> set arts. af_status a = status_value STORED"
  shows "\<exists>d'. finalize_body E e n d = (Inr (), d') \<and> run_state d' e key kind SUCCESS True usage arts"
proof -
  from assms obtain i where ok: "tables_ok d" "readable_identity d key"
    and row: "run_row d e key kind SUCCESS False i" and arts: "row_artifacts d i = arts"
    and us: "load_token_usage d i = Inr usage" "usage = None \<longrightarrow> i \<notin> us_execution_id ` set (db_usage d)"
    unfolding run_state_def by blast
  then obtain r where r: "find_row d e = Some r" "er_id r = i" "er_key r = key" "er_kind r = kind_value kind"
    "er_state r = state_value SUCCESS" "\<not> er_output_persisted r" "er_superseded_at r = None" "er_failure_reason r = None"
    unfolding run_row_def by blast
  let ?sup = "\<lambda>q. if er_key q = key \<and> row_current q then q\<lparr>er_superseded_at := Some (de_now E n)\<rparr> else q"
  let ?set = "\<lambda>q. if er_id q = i then q\<lparr>er_output_persisted := True\<rparr> else q"
  let ?d = "d\<lparr>db_executions := map ?set (map ?sup (db_executions d))\<rparr>"
  have all_stored: "filter (\<lambda>a. af_status a \<noteq> status_value STORED) (row_artifacts d i) = []"
    using stored arts by (auto simp: filter_empty_conv)
  have run: "finalize_body E e n d = (Inr (), ?d)"
    unfolding finalize_body_def
    by (simp only: bindP_def thenP_def getsP_run r option.case sum.case prod.case all_stored)
      (simp add: thenP_def bindP_def supersede_prior_current_def update_executions_def r)
  have "tables_ok ?d"
    using finalize_keeps_current [OF ok(1) run] tripleD_Inr [OF finalize_body_ok _ run] ok
    by (simp add: tables_ok_def)
  moreover have "find_row ?d e = Some (r\<lparr>er_output_persisted := True\<rparr>)"
  proof -
    have "find (\<lambda>q. er_execution_id q = Some e) (map ?sup (db_executions d)) = Some (?sup r)"
      using r(1) find_update [of "\<lambda>q. q\<lparr>er_superseded_at := Some (de_now E n)\<rparr>" e "\<lambda>q. er_key q = key \<and> row_current q" "db_executions d"]
      by (simp add: find_row_def)
    moreover have "?sup r = r" using r by (simp add: row_current_def)
    ultimately show ?thesis
      using r(2) find_update [of "\<lambda>q. q\<lparr>er_output_persisted := True\<rparr>" e "\<lambda>q. er_id q = i" "map ?sup (db_executions d)"]
      by (simp add: find_row_def)
  qed
  then have "run_row ?d e key kind SUCCESS True i" using r by (simp add: run_row_def)
  moreover have "row_artifacts ?d i = arts" "readable_identity ?d key" "load_token_usage ?d i = Inr usage"
    using arts ok us by (simp_all add: row_artifacts_def readable_identity_def load_identity_def load_token_usage_def)
  ultimately show ?thesis using run us unfolding run_state_def by auto
qed

section \<open>The finished row is served\<close>

lemma run_state_current:
  assumes "run_state d e key kind SUCCESS True usage arts" and "e \<noteq> []" and "map_exn load_artifact arts = Inr as"
  shows "\<exists>r idn. current_row d key = Some r \<and> (\<forall>n. load_execution E n d r =
     Inr \<lparr>ex_call_identity = idn, ex_execution_state = SUCCESS, ex_execution_kind = kind, ex_output_persisted = True,
          ex_execution_id = e, ex_input_persisted = (\<exists>a \<in> set as. at_type a \<in> set INPUT_ARTIFACT_TYPES),
          ex_artifacts = as, ex_token_usage = usage, ex_failure = None, ex_superseded_at = None\<rparr>)"
proof -
  from assms obtain i idn where ok: "tables_ok d" "load_identity d key = Inr idn"
    and row: "run_row d e key kind SUCCESS True i" and arts: "row_artifacts d i = arts"
    and us: "load_token_usage d i = Inr usage"
    unfolding run_state_def readable_identity_def by blast
  then obtain r where r: "find_row d e = Some r" "er_id r = i" "er_key r = key" "er_kind r = kind_value kind"
    "er_state r = state_value SUCCESS" "er_output_persisted r" "er_superseded_at r = None" "er_failure_reason r = None"
    unfolding run_row_def by blast
  have "current_row d key = Some r"
    using current_row_unique [OF tables_okD(2) [OF ok(1)]] find_row_Some [OF r(1)] r
    by (simp add: row_current_def)
  moreover have "er_execution_id r = Some e" using find_row_has_row [OF r(1)] by simp
  then have "load_fields E n d r =
     Inr \<lparr>ex_call_identity = idn, ex_execution_state = SUCCESS, ex_execution_kind = kind, ex_output_persisted = True,
          ex_execution_id = e, ex_input_persisted = (\<exists>a \<in> set as. at_type a \<in> set INPUT_ARTIFACT_TYPES),
          ex_artifacts = as, ex_token_usage = usage, ex_failure = None, ex_superseded_at = None\<rparr>" for n
    unfolding load_fields_def load_artifacts_def load_failure_def load_superseded_def
    using r ok arts us assms(2,3) execution_state_of_value [of SUCCESS]
    by (simp add: truthy_def)
  ultimately show ?thesis unfolding load_execution_def by simp
qed

text \<open>The stored form of a document, and the loading of it.\<close>

definition stores_part :: "(bytes \<Rightarrow> text_str) \<Rightarrow> text_str \<Rightarrow> artifact_row \<Rightarrow> artifact_type \<times> text_str option \<times> bytes \<Rightarrow> bool" where
  "stores_part h e a p \<longleftrightarrow>
     (case p of (t, name, v) \<Rightarrow>
        af_type a = type_value t \<and> af_name a = name \<and> af_blob_key a = e @ ''_'' @ h v \<and> af_status a = status_value STORED)"

definition part_artifact :: "(bytes \<Rightarrow> text_str) \<Rightarrow> text_str \<Rightarrow> artifact \<Rightarrow> artifact_type \<times> text_str option \<times> bytes \<Rightarrow> bool" where
  "part_artifact h e a p \<longleftrightarrow>
     (case p of (t, name, v) \<Rightarrow> at_type a = t \<and> at_name a = name \<and> at_blob_key a = e @ ''_'' @ h v)"

lemma load_parts:
  assumes "list_all2 (stores_part h e) arts parts" and "\<And>v. blob_key_ok (e @ ''_'' @ h v)"
  shows "\<exists>as. map_exn load_artifact arts = Inr as \<and> list_all2 (part_artifact h e) as parts"
  using assms(1)
proof (induction arts parts rule: list_all2_induct)
  case (Cons a arts p parts)
  then obtain as where as: "map_exn load_artifact arts = Inr as" "list_all2 (part_artifact h e) as parts" by blast
  obtain t name v where p: "p = (t, name, v)" by (cases p)
  let ?a = "\<lparr>at_type = t, at_blob_key = af_blob_key a, at_size_bytes = af_size_bytes a, at_name = af_name a,
           at_encoding = af_encoding a, at_content = None, at_status = STORED,
           at_persisted_at = af_persisted_at a, at_status_detail = af_status_detail a\<rparr>"
  have bk: "BlobKey (af_blob_key a) = Inr (af_blob_key a)"
    using Cons.hyps(1) assms(2) p by (simp add: stores_part_def)
  have st: "artifact_status_of (af_status a) = Inr STORED" and ty: "artifact_type_of (af_type a) = Inr t"
    and nm: "af_name a = name"
    using Cons.hyps(1) p artifact_status_of_value [of STORED] by (simp_all add: stores_part_def)
  have "load_artifact a = Inr ?a" by (simp add: load_artifact_def bk st ty nm)
  moreover have "part_artifact h e ?a p" using Cons.hyps(1) p by (simp add: stores_part_def part_artifact_def)
  ultimately show ?case using as by simp
qed simp

end
