(* ===== verification/Service_Invariants.thy ===== *)
theory Service_Invariants
  imports Service_Frame Row_Lifecycle
begin

text \<open>
  The interpretations of the frame locales on the model, and the properties they give: the table
  invariant under every service and any fault, the release of the locks, the journal that only
  grows, the names in the blob directory.
\<close>

section \<open>Rules for the four relations\<close>

lemma steps_invariantly_imp: "steps (invariantly I) m \<Longrightarrow> steps (invariantly (\<lambda>w. P \<longrightarrow> I w)) m"
  by (auto simp: steps_def invariantly_def)

text \<open>What the peers do while this process waits for a key lock.\<close>

definition peers_keep :: "runtime \<Rightarrow> (db \<Rightarrow> bool) \<Rightarrow> bool" where
  "peers_keep rt I \<longleftrightarrow> (\<forall>n d f. I d \<longrightarrow> I (fst (rt_peer rt n (d, f))))"

definition peers_keep_names :: "runtime \<Rightarrow> bool" where
  "peers_keep_names rt \<longleftrightarrow>
     (\<forall>n d f. (\<forall>k. f k \<noteq> None \<longrightarrow> blob_key_ok k) \<longrightarrow> (\<forall>k. snd (rt_peer rt n (d, f)) k \<noteq> None \<longrightarrow> blob_key_ok k))"

definition tables_inv :: "runtime \<Rightarrow> (db \<Rightarrow> bool) \<Rightarrow> world \<Rightarrow> bool" where
  "tables_inv rt I w \<longleftrightarrow> (peers_keep rt I \<longrightarrow> I (w_tables w))"

lemma tables_inv_op: "keeps_tables I m \<Longrightarrow> steps (invariantly (tables_inv rt I)) (on_db m)"
  unfolding tables_inv_def by (intro steps_invariantly_imp steps_on_db_inv)

lemma tables_inv_same:
  "(\<And>w. w_tables (snd (m w)) = w_tables w) \<Longrightarrow> steps (invariantly (tables_inv rt I)) m"
  by (simp add: steps_def invariantly_def tables_inv_def)

lemma w_tables_simps [simp]:
  "w_tables (w\<lparr>w_blobs := b\<rparr>) = w_tables w" "w_tables (w\<lparr>w_reg := g\<rparr>) = w_tables w"
  "w_tables (w\<lparr>w_minted := n\<rparr>) = w_tables w" "w_tables (w\<lparr>w_calls := n\<rparr>) = w_tables w"
  "w_tables (w\<lparr>w_held := h\<rparr>) = w_tables w" "w_tables (w\<lparr>w_waits := n\<rparr>) = w_tables w"
  "w_tables (w\<lparr>w_lock_opens := n\<rparr>) = w_tables w" "w_tables (w\<lparr>w_ws_ops := n\<rparr>) = w_tables w"
  "w_tables (w\<lparr>w_ws_open := n\<rparr>) = w_tables w" "w_tables (w\<lparr>w_db := s\<rparr>) = ds_db s"
  by (simp_all add: w_tables_def)

lemma on_other_tables [simp]:
  "w_tables (snd (on_blobs mb w)) = w_tables w" "w_tables (snd (on_reg mr w)) = w_tables w"
  "w_tables (snd (mint_id rt w)) = w_tables w"
  by (simp_all add: on_blobs_def on_reg_def zoomP_def mint_id_def case_prod_beta)

lemma enter_lock_tables:
  "w_tables (snd (enter_lock rt key w)) = fst (rt_peer rt (w_waits w) (w_tables w, w_files w))"
  by (simp add: enter_lock_def case_prod_beta Let_def w_tables_def)

lemma tables_inv_lock:
  assumes "steps (invariantly (tables_inv rt I)) m"
  shows "steps (invariantly (tables_inv rt I)) (with_key_lock rt key m)"
proof (rule steps_with_key_lock [OF preorder_invariantly assms])
  show "steps (invariantly (tables_inv rt I)) (enter_lock rt key)"
    by (auto simp: steps_def invariantly_def tables_inv_def peers_keep_def enter_lock_tables)
  show "steps (invariantly (tables_inv rt I)) (leave_lock key)"
    by (rule tables_inv_same) (simp add: leave_lock_def)
qed

lemmas tables_inv_rules = tables_inv_op tables_inv_same tables_inv_lock

section \<open>The tables\<close>

lemma tables_ok_op:
  "keeps_tables db_ok m \<Longrightarrow> keeps_tables one_current m \<Longrightarrow> keeps_tables tables_ok m"
  by (auto simp: steps_def invariantly_def tables_ok_def)

lemma counters_inv:
  "invariantly (tables_inv rt I) w (w\<lparr>w_lock_opens := n\<rparr>)" "invariantly (tables_inv rt I) w (w\<lparr>w_calls := n\<rparr>)"
  "invariantly (tables_inv rt I) w (w\<lparr>w_ws_ops := n\<rparr>)" "invariantly (tables_inv rt I) w (w\<lparr>w_ws_open := n\<rparr>)"
  by (simp_all add: invariantly_def tables_inv_def)

lemma tables_inv_others:
  "steps (invariantly (tables_inv rt I)) (on_blobs mb)" "steps (invariantly (tables_inv rt I)) (on_reg mr)"
  "steps (invariantly (tables_inv rt I)) (mint_id rt')"
  by (rule tables_inv_same, simp)+

interpretation table_ports: port_frame "invariantly (tables_inv rt tables_ok)" rt for rt
  by (unfold_locales; (rule tables_inv_lock, assumption)?;
      intro counters_inv tables_inv_others tables_inv_op preorder_invariantly read_ops_inv runs_awaiting_inv
        finalize_keeps_tables tables_ok_op write_ops_ok write_ops_current)

text \<open>
  The one operation that depends on where it is used: \<open>record_outcome\<close> keeps one servable row per
  key because the row it targets is the unpersisted one that \<open>save\<close> has just inserted.
\<close>

lemma write_transaction_triple:
  assumes "\<And>n. commits P (body n) (\<lambda>_. Q)" and "\<And>d. P d \<Longrightarrow> T d" and "\<And>d. Q d \<Longrightarrow> T d"
  shows "triple (\<lambda>s. P (ds_db s)) (write_transaction E body) (\<lambda>_ s. Q (ds_db s)) (\<lambda>_ s. T (ds_db s))"
  unfolding triple_def
proof (intro allI impI)
  fix s :: db_store assume P: "P (ds_db s)"
  obtain x d where body: "body (ds_ops s) (ds_db s) = (x, d)" by fastforce
  have "x = Inr a \<Longrightarrow> Q d" for a
    using assms(1) [of "ds_ops s"] P body unfolding triple_def by (force split: sum.splits)
  then show "case write_transaction E body s of (Inl e, s') \<Rightarrow> T (ds_db s') | (Inr a, s') \<Rightarrow> Q (ds_db s')"
    using P body assms(2,3)
    by (auto simp: write_transaction_def Let_def split: option.splits db_fault.splits sum.splits if_splits)
qed

lemma triple_on_db:
  "triple (\<lambda>s. P (ds_db s)) m (\<lambda>a s. Q a (ds_db s)) (\<lambda>e s. T (ds_db s)) \<Longrightarrow>
   triple (\<lambda>w. P (w_tables w)) (on_db m) (\<lambda>a w. Q a (w_tables w)) (\<lambda>e w. T (w_tables w))"
  unfolding triple_def on_db_def zoomP_def
  by (fastforce simp: w_tables_def split: prod.splits sum.splits)

lemma triple_of_steps:
  assumes "steps (invariantly I) m"
  shows "triple I m (\<lambda>_. I) (\<lambda>_. I)"
  unfolding triple_def
proof (intro allI impI)
  fix w assume "I w"
  with assms have "I (snd (m w))" unfolding steps_def invariantly_def by blast
  then show "case m w of (Inl e, w') \<Rightarrow> I w' | (Inr a, w') \<Rightarrow> I w'"
    by (cases "m w") (auto split: sum.split)
qed

lemma steps_of_triple: "triple I m (\<lambda>_. I) (\<lambda>_. I) \<Longrightarrow> steps (invariantly I) m"
  unfolding steps_def invariantly_def triple_def by (simp add: case_prod_unfold)

definition tabled :: "world \<Rightarrow> bool" where
  "tabled w \<longleftrightarrow> tables_ok (w_tables w)"

text \<open>The row of the run in hand, between its insertion and its outcome.\<close>

definition recording :: "text_str \<Rightarrow> world \<Rightarrow> bool" where
  "recording e w \<longleftrightarrow> tables_ok (w_tables w) \<and> row_unpersisted e (w_tables w)"

lemma recording_tabled: "recording e w \<Longrightarrow> tabled w"
  by (simp add: recording_def tabled_def)

lemma save_recording:
  "\<not> ex_output_persisted x \<Longrightarrow> ex_execution_id x = e \<Longrightarrow>
   triple tabled (on_db (save E x)) (\<lambda>_. recording e) (\<lambda>_. tabled)"
  using triple_on_db [OF write_transaction_triple [of tables_ok "save_body E x"
      "\<lambda>d. tables_ok d \<and> row_unpersisted (ex_execution_id x) d" tables_ok]] save_body_unpersisted
  unfolding tabled_def recording_def save_def by blast

lemma record_outcome_recording:
  "ex_execution_id x = e \<Longrightarrow> triple (recording e) (on_db (record_outcome E x)) (\<lambda>_. tabled) (\<lambda>_. tabled)"
  using triple_on_db [OF write_transaction_triple [of "\<lambda>d. tables_ok d \<and> row_unpersisted (ex_execution_id x) d"
      "\<lambda>_. record_outcome_body x" tables_ok tables_ok]] record_outcome_body_tables
  unfolding tabled_def recording_def record_outcome_def by blast

lemma triple_keeping:
  assumes "steps (keeping w_tables) m" and "\<And>w w'. w_tables w' = w_tables w \<Longrightarrow> P w \<Longrightarrow> P w'"
  shows "triple P m (\<lambda>_. P) (\<lambda>_. P)"
proof (rule triple_of_steps)
  from assms show "steps (invariantly P) m" by (auto simp: steps_def keeping_def invariantly_def)
qed

lemma run_client_recording: "triple (recording e) (run_client rt c) (\<lambda>_. recording e) (\<lambda>_. recording e)"
  by (rule triple_keeping [OF run_client_keeps]) (simp_all add: recording_def)

lemma tabled_eq: "peers_keep rt tables_ok \<Longrightarrow> tables_inv rt tables_ok = tabled"
  by (simp add: fun_eq_iff tables_inv_def tabled_def)

lemma triple_tabled:
  "peers_keep rt tables_ok \<Longrightarrow> steps (invariantly (tables_inv rt tables_ok)) m \<Longrightarrow>
   triple tabled m (\<lambda>_. tabled) (\<lambda>_. tabled)"
  using triple_of_steps [of tabled m] by (simp add: tabled_eq)

lemma guarded_run_recording:
  assumes rt: "peers_keep rt tables_ok" and x: "ex_execution_id x = e"
  shows "triple (recording e) (guarded_run_client rt (run_hooks rt ps ms) c x) (\<lambda>_. recording e) (\<lambda>_. tabled)"
proof -
  have client: "triple (recording e) (hk_run_client (run_hooks rt ps ms) c) (\<lambda>_. recording e) (\<lambda>_. recording e)"
    using run_client_recording by (simp add: run_hooks_def)
  have drop: "triple (recording e) (on_db (remove_execution (rt_db rt) f)) (\<lambda>_. tabled) (\<lambda>_. tabled)" for f
    using triple_tabled [OF rt table_ports.remove_execution] by (rule triple_conseq) (simp_all add: recording_tabled)
  have fail: "triple (recording e) (on_db (record_outcome (rt_db rt) y)) (\<lambda>_. tabled) (\<lambda>_. tabled)"
    if "ex_execution_id y = e" for y
    using record_outcome_recording [OF that] .
  show ?thesis
    unfolding guarded_run_client_def abandon_in_progress_as_failed_def
  proof (rule triple_catch [OF client])
    fix exn
    show "triple (recording e)
        (if exn_class_of exn = RunInterrupted
         then thenP (on_db (remove_execution (rt_db rt) (ex_execution_id x))) (raise exn)
         else if is_exception exn
         then thenP (on_db (record_outcome (rt_db rt)
                (x\<lparr>ex_execution_state := STATE_FAILED,
                   ex_failure := Some \<lparr>fl_reason = CLIENT_ERROR, fl_message = exn_message exn, fl_exit_code = None\<rparr>\<rparr>)))
              (raise exn)
         else raise exn) (\<lambda>_. recording e) (\<lambda>_. tabled)"
      by (auto intro!: triple_then [OF drop] triple_then [OF fail] triple_raise simp: x recording_tabled)
  qed
qed

lemma record_recording:
  assumes rt: "peers_keep rt tables_ok" and x: "ex_execution_id x = e"
  shows "triple (recording e) (record_unstored rt (run_hooks rt ps ms) c x key res) (\<lambda>_. tabled) (\<lambda>_. tabled)"
    and "triple (recording e) (record_stored rt (run_hooks rt ps ms) c x key res) (\<lambda>_. tabled) (\<lambda>_. tabled)"
proof -
  note T = triple_tabled [OF rt]
  have wo: "ex_execution_id (with_outcome x res) = e" by (simp add: with_outcome_def x)
  have after: "steps (invariantly (tables_inv rt tables_ok)) (hk_after_record (run_hooks rt ps ms) key)" for key
    by (simp add: run_hooks_def table_ports.after_record_steps)
  show "triple (recording e) (record_unstored rt (run_hooks rt ps ms) c x key res) (\<lambda>_. tabled) (\<lambda>_. tabled)"
    unfolding record_unstored_def Let_def
    by (rule triple_then [OF record_outcome_recording [OF wo]])
      (intro T steps_rules table_ports.document_steps table_ports.port_steps)
  show "triple (recording e) (record_stored rt (run_hooks rt ps ms) c x key res) (\<lambda>_. tabled) (\<lambda>_. tabled)"
    unfolding record_stored_def Let_def
    by (rule triple_then [OF record_outcome_recording [OF wo]])
      (intro T steps_rules table_ports.document_steps after table_ports.port_steps)
qed

lemma run_and_record_tables:
  "steps (invariantly (tables_inv rt tables_ok)) (run_and_record rt (run_hooks rt ps ms) c idn key)"
proof (cases "peers_keep rt tables_ok")
  case False
  then show ?thesis by (simp add: steps_def invariantly_def tables_inv_def)
next
  case True
  note T = triple_tabled [OF True]
  have healthy: "triple tabled (storage_unhealthy rt (run_hooks rt ps ms) c) (\<lambda>_. tabled) (\<lambda>_. tabled)"
    unfolding storage_unhealthy_def by (intro T steps_rules table_ports.port_steps)
  have x: "\<not> ex_output_persisted (new_execution hk c idn e st u f)" "ex_execution_id (new_execution hk c idn e st u f) = e"
    for hk :: "run_command hooks" and e st u f
    by (simp_all add: new_execution_def)
  have "triple tabled (run_and_record rt (run_hooks rt ps ms) c idn key) (\<lambda>_. tabled) (\<lambda>_. tabled)"
    unfolding run_and_record_def
  proof (rule triple_bind [OF healthy])
    fix unhealthy
    show "triple tabled (if unhealthy then raise (Exn StoreUnavailable ''blob storage is unavailable'')
      else bindP (mint_id rt) (\<lambda>execution_id.
       let in_progress = new_execution (run_hooks rt ps ms) c idn execution_id IN_PROGRESS None None
       in thenP (on_db (save (rt_db rt) in_progress))
         (bindP (guarded_run_client rt (run_hooks rt ps ms) c in_progress) (\<lambda>result.
          if \<not> hk_should_persist (run_hooks rt ps ms) c (succeeded result)
          then record_unstored rt (run_hooks rt ps ms) c in_progress key result
          else record_stored rt (run_hooks rt ps ms) c in_progress key result)))) (\<lambda>_. tabled) (\<lambda>_. tabled)"
      unfolding Let_def
      by (auto intro!: triple_raise triple_bind [OF T [OF table_ports.mint]] triple_then [OF save_recording [OF x]]
          triple_bind [OF guarded_run_recording [OF True x(2)]] record_recording [OF True x(2)])
  qed
  then show ?thesis
    unfolding tabled_eq [OF True] by (rule steps_of_triple)
qed

interpretation table_service: service_frame "invariantly (tables_inv rt tables_ok)" rt "run_hooks rt ps ms" for rt ps ms
  by unfold_locales
    (simp_all add: run_and_record_tables,
     simp_all add: run_hooks_def table_ports.build_identity_steps table_ports.run_client_steps)

interpretation table_purge: purge_frame "invariantly (tables_inv rt tables_ok)" rt for rt
  by unfold_locales (intro tables_inv_others tables_inv_op tables_ok_op write_ops_ok write_ops_current)+

section \<open>The locks\<close>

lemma on_other_held [simp]:
  "w_held (snd (on_db md w)) = w_held w" "w_held (snd (on_blobs mb w)) = w_held w"
  "w_held (snd (on_reg mr w)) = w_held w" "w_held (snd (mint_id rt w)) = w_held w"
  by (simp_all add: on_db_def on_blobs_def on_reg_def zoomP_def mint_id_def case_prod_beta)

lemma held_same: "(\<And>w. w_held (snd (m w)) = w_held w) \<Longrightarrow> steps (keeping w_held) m"
  by (simp add: steps_def keeping_def)

lemma held_ops:
  "steps (keeping w_held) (on_db md)" "steps (keeping w_held) (on_blobs mb)"
  "steps (keeping w_held) (on_reg mr)" "steps (keeping w_held) (mint_id rt)"
  by (rule held_same, simp)+

interpretation lock_frame: world_frame "keeping w_held" rt for rt
  by (unfold_locales; (rule with_key_lock_held, assumption)?; (intro held_ops preorder_keeping)?; simp add: keeping_def)

interpretation lock_purge: purge_frame "keeping w_held" rt for rt
  by unfold_locales (intro held_ops)+

section \<open>The journal\<close>

definition journal_grows :: "world \<Rightarrow> world \<Rightarrow> bool" where
  "journal_grows w w' \<longleftrightarrow> (\<exists>es. w_events w' = w_events w @ es)"

lemma preorder_journal [simp]: "preorder_rel journal_grows"
  unfolding preorder_rel_def journal_grows_def by auto

lemma on_other_events [simp]:
  "w_events (snd (on_db md w)) = w_events w" "w_events (snd (on_blobs mb w)) = w_events w"
  "w_events (snd (mint_id rt w)) = w_events w" "w_events (snd (enter_lock rt key w)) = w_events w"
  "w_events (snd (leave_lock key w)) = w_events w"
  by (simp_all add: on_db_def on_blobs_def zoomP_def mint_id_def enter_lock_def leave_lock_def case_prod_beta
      w_events_def Let_def)

lemma journal_same: "(\<And>w. w_events (snd (m w)) = w_events w) \<Longrightarrow> steps journal_grows m"
  by (simp add: steps_def journal_grows_def)

lemma journal_reg:
  assumes "steps (\<lambda>s s'. \<exists>es. rg_events s' = rg_events s @ es) m"
  shows "steps journal_grows (on_reg m)"
proof (rule steps_on_reg)
  fix w :: world and r s assume "m (w_reg w) = (r, s)"
  with assms have "\<exists>es. rg_events s = rg_events (w_reg w) @ es" by (rule stepsD)
  then show "journal_grows w (w\<lparr>w_reg := s\<rparr>)" by (simp add: journal_grows_def w_events_def)
qed

lemma reg_read_grows: "steps (\<lambda>s s'. \<exists>es. rg_events s' = rg_events s @ es) (reg_read E d q)"
  by (rule stepsI) (auto dest!: reg_read_keeps)

lemma record_event_grows: "steps (\<lambda>s s'. \<exists>es. rg_events s' = rg_events s @ es) (record_event E ev k c m ef sid)"
  by (rule stepsI) (use record_event_appends in fastforce)

lemma journal_ops:
  "steps journal_grows (on_db md)" "steps journal_grows (on_blobs mb)" "steps journal_grows (mint_id rt)"
  "steps journal_grows (on_reg (record_event E ev k c m ef sid))" "steps journal_grows (on_reg (last_access E))"
  "steps journal_grows (on_reg (execution_keys_for_session E sess))" "steps journal_grows (on_reg (session_ids_for_tag E tag))"
  unfolding last_access_def execution_keys_for_session_def session_ids_for_tag_def
  by (rule journal_same, simp)+ (intro journal_reg reg_read_grows record_event_grows)+

lemma journal_lock: "steps journal_grows m \<Longrightarrow> steps journal_grows (with_key_lock rt key m)"
  by (rule steps_with_key_lock) (auto intro: journal_same)

interpretation journal_frame: world_frame journal_grows rt for rt
  by (unfold_locales; (rule journal_lock, assumption)?; (intro journal_ops preorder_journal)?;
      simp add: journal_grows_def w_events_def)

section \<open>The names in the blob directory\<close>

definition names_inv :: "runtime \<Rightarrow> world \<Rightarrow> bool" where
  "names_inv rt w \<longleftrightarrow> (peers_keep_names rt \<longrightarrow> only_valid_names (w_blobs w))"

lemma on_other_blobs [simp]:
  "w_blobs (snd (on_db md w)) = w_blobs w" "w_blobs (snd (on_reg mr w)) = w_blobs w"
  "w_blobs (snd (mint_id rt w)) = w_blobs w" "w_blobs (snd (leave_lock key w)) = w_blobs w"
  by (simp_all add: on_db_def on_reg_def zoomP_def mint_id_def leave_lock_def case_prod_beta)

lemma names_same: "(\<And>w. w_blobs (snd (m w)) = w_blobs w) \<Longrightarrow> steps (invariantly (names_inv rt)) m"
  by (simp add: steps_def invariantly_def names_inv_def)

lemma names_blobs:
  assumes "steps (invariantly only_valid_names) m"
  shows "steps (invariantly (names_inv rt)) (on_blobs m)"
proof (rule steps_on_blobs)
  fix w :: world and r s assume "m (w_blobs w) = (r, s)"
  with assms have "invariantly only_valid_names (w_blobs w) s" by (rule stepsD)
  then show "invariantly (names_inv rt) w (w\<lparr>w_blobs := s\<rparr>)" by (simp add: invariantly_def names_inv_def)
qed

lemma files_names:
  assumes "steps (keeping bf_files) m"
  shows "steps (invariantly only_valid_names) m"
  using assms by (simp add: steps_def keeping_def invariantly_def only_valid_names_def)

lemma store_is_healthy_files: "steps (keeping bf_files) (store_is_healthy E st)"
proof (induction st)
  case FilesystemBlobStore
  show ?case unfolding steps_def keeping_def
    by (simp add: fs_is_healthy_def tick_def bindP_def split: option.splits prod.splits)
qed simp_all

lemma names_ops:
  "steps (invariantly (names_inv rt)) (on_db md)" "steps (invariantly (names_inv rt)) (on_reg mr)"
  "steps (invariantly (names_inv rt)) (mint_id rt')"
  "steps (invariantly (names_inv rt)) (on_blobs (store_get E st bk))"
  "steps (invariantly (names_inv rt)) (on_blobs (store_put E st bk v))"
  "steps (invariantly (names_inv rt)) (on_blobs (store_remove E st bk))"
  "steps (invariantly (names_inv rt)) (on_blobs (store_is_healthy E st))"
  by (rule names_same, simp)+
    (intro names_blobs files_names store_get_files store_is_healthy_files,
     intro names_blobs store_put_names, intro names_blobs store_remove_names,
     intro names_blobs files_names store_is_healthy_files)

lemma names_lock:
  assumes "steps (invariantly (names_inv rt)) m"
  shows "steps (invariantly (names_inv rt)) (with_key_lock rt key m)"
proof (rule steps_with_key_lock [OF preorder_invariantly assms])
  show "steps (invariantly (names_inv rt)) (enter_lock rt key)"
  proof (rule stepsI)
    fix w r w' assume run: "enter_lock rt key w = (r, w')"
    have files: "bf_files (w_blobs w') = snd (rt_peer rt (w_waits w) (w_tables w, bf_files (w_blobs w)))"
      using run by (auto simp: enter_lock_def modifyP_def Let_def case_prod_beta w_files_def)
    show "invariantly (names_inv rt) w w'"
      unfolding invariantly_def names_inv_def
    proof (intro impI)
      assume "peers_keep_names rt \<longrightarrow> only_valid_names (w_blobs w)" and peers: "peers_keep_names rt"
      then have "\<forall>k. bf_files (w_blobs w) k \<noteq> None \<longrightarrow> blob_key_ok k" unfolding only_valid_names_def by blast
      with peers have "\<forall>k. snd (rt_peer rt (w_waits w) (w_tables w, bf_files (w_blobs w))) k \<noteq> None \<longrightarrow> blob_key_ok k"
        unfolding peers_keep_names_def by blast
      then show "only_valid_names (w_blobs w')" unfolding only_valid_names_def files .
    qed
  qed
qed (rule names_same, simp)

interpretation names_frame: world_frame "invariantly (names_inv rt)" rt for rt
  by (unfold_locales; (rule names_lock, assumption)?; (intro names_ops preorder_invariantly)?;
      simp add: invariantly_def names_inv_def)

interpretation names_purge: purge_frame "invariantly (names_inv rt)" rt for rt
  by unfold_locales (intro names_ops)+

section \<open>The use cases and the states they reach\<close>

datatype use_case =
    Run bool "int option" run_command
  | Purge_By_Key text_str bool
  | Purge_By_Tag text_str bool
  | Purge_By_Session text_str bool
  | Purge_By_Session_Tag text_str bool
  | Purge_All bool
  | Evict_Stale rat rat
  | Evict_To_Quota int
  | Repair_Store

fun perform :: "runtime \<Rightarrow> use_case \<Rightarrow> (world, unit) prog" where
  "perform rt (Run ps ms c) = thenP (run_execute rt ps ms c) (ret ())"
| "perform rt (Purge_By_Key key hard) = thenP (purge_by_key rt key hard) (ret ())"
| "perform rt (Purge_By_Tag tag hard) = thenP (purge_by_tag rt tag hard) (ret ())"
| "perform rt (Purge_By_Session sid hard) = thenP (purge_by_session rt sid hard) (ret ())"
| "perform rt (Purge_By_Session_Tag tag hard) = thenP (purge_by_session_tag rt tag hard) (ret ())"
| "perform rt (Purge_All hard) = thenP (purge_all rt hard) (ret ())"
| "perform rt (Evict_Stale now age) = thenP (evict_stale rt now age) (ret ())"
| "perform rt (Evict_To_Quota max_bytes) = thenP (evict_to_quota rt max_bytes) (ret ())"
| "perform rt Repair_Store = thenP (repair rt) (ret ())"

inductive reachable :: "runtime \<Rightarrow> world \<Rightarrow> world \<Rightarrow> bool" for rt w0 where
  reachable_start: "reachable rt w0 w0"
| reachable_step: "reachable rt w0 w \<Longrightarrow> perform rt u w = (r, w') \<Longrightarrow> reachable rt w0 w'"

inductive_cases reachable_cases: "reachable rt w0 w"

lemma reachable_rel:
  assumes "reachable rt w0 w" and "preorder_rel R" and "\<And>u. steps R (perform rt u)"
  shows "R w0 w"
  using assms(1)
proof induction
  case reachable_start
  from assms(2) show ?case unfolding preorder_rel_def by blast
next
  case (reachable_step w u r w')
  from stepsD [OF assms(3) reachable_step.hyps(2)] reachable_step.IH assms(2)
  show ?case unfolding preorder_rel_def by blast
qed

lemma perform_tables: "steps (invariantly (tables_inv rt tables_ok)) (perform rt u)"
  by (cases u; simp only: perform.simps run_execute_def;
      intro steps_rules table_service.execute_steps table_purge.purge_scopes_steps table_ports.evict_stale_steps
        table_ports.evict_to_quota_steps table_ports.repair_steps preorder_invariantly)

lemma perform_held: "steps (keeping w_held) (perform rt u)"
  by (cases u; simp only: perform.simps run_execute_def;
      intro steps_rules lock_frame.runs.execute_steps lock_purge.purge_scopes_steps lock_frame.evict_stale_steps
        lock_frame.evict_to_quota_steps lock_frame.repair_steps preorder_keeping)

lemma perform_names: "steps (invariantly (names_inv rt)) (perform rt u)"
  by (cases u; simp only: perform.simps run_execute_def;
      intro steps_rules names_frame.runs.execute_steps names_purge.purge_scopes_steps names_frame.evict_stale_steps
        names_frame.evict_to_quota_steps names_frame.repair_steps preorder_invariantly)

lemma sample_peers: "peers_keep sample_runtime I"
  by (simp add: peers_keep_def sample_runtime_def)

lemma sample_tables: "tables_ok (w_tables sample_world)"
  by (simp add: sample_world_def w_tables_def empty_db_def tables_ok_def db_ok_def one_current_def
      unique_execution_ids_def)

section \<open>Properties\<close>

text \<open>C7: no sequence of use cases breaks the store. Starting from tables that satisfy the schema (row
  ids in order, unique execution ids, no artifact, usage or tag without its execution, one identity
  per key) and hold at most one servable execution per key, every state reached by any sequence of
  runs, purges, evictions and repairs satisfies this again, under any connection, statement, commit,
  blob, registry, lock, workspace and client failure, provided the other processes that write while
  a key lock is waited for keep it too.\<close>

theorem reachable_tables_ok:
  assumes "reachable rt w0 w" and "peers_keep rt tables_ok" and "tables_ok (w_tables w0)"
  shows "tables_ok (w_tables w)"
  using reachable_rel [OF assms(1) preorder_invariantly perform_tables] assms(2,3)
  by (simp add: invariantly_def tables_inv_def)

theorem reachable_tables_ok_witness:
  "tables_ok (w_tables (snd (perform sample_runtime (Run False None sample_command) sample_world)))"
proof -
  have "reachable sample_runtime sample_world (snd (perform sample_runtime (Run False None sample_command) sample_world))"
    by (rule reachable_step [OF reachable_start]) (rule prod.collapse [symmetric])
  then show ?thesis by (rule reachable_tables_ok) (rule sample_peers sample_tables)+
qed

text \<open>C8: locks are released. Whatever use case runs, and however it ends, the key locks held
  afterwards are exactly those held before.\<close>

theorem use_case_releases_locks: "w_held (snd (perform rt u w)) = w_held w"
  using perform_held unfolding steps_def keeping_def by blast

text \<open>C9: the journal is append-only for everything but a hard deletion: a run, a soft eviction or a
  repair keeps every recorded event, in order, and only adds behind them.\<close>

theorem journal_append_only:
  "(\<exists>es. w_events (snd (run_execute rt ps ms c w)) = w_events w @ es)
   \<and> (\<exists>es. w_events (snd (evict_stale rt now age w)) = w_events w @ es)
   \<and> (\<exists>es. w_events (snd (evict_to_quota rt max_bytes w)) = w_events w @ es)
   \<and> (\<exists>es. w_events (snd (repair rt w)) = w_events w @ es)"
  using journal_frame.runs.execute_steps journal_frame.evict_stale_steps journal_frame.evict_to_quota_steps
    journal_frame.repair_steps
  unfolding steps_def journal_grows_def run_execute_def by blast

end
