(* ===== verification/Call_Bounds.thy ===== *)
theory Call_Bounds
  imports Service_Invariants
begin

text \<open>
  How often the paid client is called, and which calls leave the store alone. The interpretation of
  \<open>store_frame\<close> with the call counter shows that nothing but the client hook counts.
\<close>

section \<open>What never calls the client\<close>

lemma on_other_calls [simp]:
  "w_calls (snd (on_db md w)) = w_calls w" "w_calls (snd (on_blobs mb w)) = w_calls w"
  "w_calls (snd (on_reg mr w)) = w_calls w" "w_calls (snd (mint_id rt w)) = w_calls w"
  "w_calls (snd (enter_lock rt key w)) = w_calls w" "w_calls (snd (leave_lock key w)) = w_calls w"
  by (simp_all add: on_db_def on_blobs_def on_reg_def zoomP_def mint_id_def enter_lock_def leave_lock_def
      case_prod_beta Let_def)

lemma calls_same: "(\<And>w. w_calls (snd (m w)) = w_calls w) \<Longrightarrow> steps (keeping w_calls) m"
  by (simp add: steps_def keeping_def)

lemma calls_ops:
  "steps (keeping w_calls) (on_db md)" "steps (keeping w_calls) (on_blobs mb)"
  "steps (keeping w_calls) (on_reg mr)" "steps (keeping w_calls) (mint_id rt)"
  by (rule calls_same, simp)+

lemma calls_lock: "steps (keeping w_calls) m \<Longrightarrow> steps (keeping w_calls) (with_key_lock rt key m)"
  by (rule steps_with_key_lock) (auto intro: calls_same)

interpretation call_frame: store_frame "keeping w_calls" rt for rt
  by (unfold_locales; (rule calls_lock, assumption)?; (intro calls_ops preorder_keeping)?; simp add: keeping_def)

interpretation call_purge: purge_frame "keeping w_calls" rt for rt
  by unfold_locales (intro calls_ops)+

lemma build_identity_calls: "steps (keeping w_calls) (build_identity rt c)"
  by (rule call_frame.build_identity_steps)

lemma kept: "steps (keeping f) m \<Longrightarrow> f (snd (m w)) = f w"
  by (simp add: steps_def keeping_def)

section \<open>Counting\<close>

definition costs :: "nat \<Rightarrow> (world, 'a) prog \<Rightarrow> bool" where
  "costs k m \<longleftrightarrow> (\<forall>w. w_calls (snd (m w)) \<le> w_calls w + k)"

named_theorems cost_rules "rules of the cost of a program in client calls"

lemma costs_free: "steps (keeping w_calls) m \<Longrightarrow> costs k m"
  by (simp add: costs_def steps_def keeping_def)

lemma costs_mono: "costs j m \<Longrightarrow> j \<le> k \<Longrightarrow> costs k m"
  unfolding costs_def by (meson add_left_mono le_trans)

lemma costs_bind:
  assumes "costs j m" and "\<And>x. costs k (f x)"
  shows "costs (j + k) (bindP m f)"
  unfolding costs_def
proof
  fix w
  obtain x w1 where m: "m w = (x, w1)" by fastforce
  have w1: "w_calls w1 \<le> w_calls w + j" using assms(1) m unfolding costs_def by (metis snd_conv)
  show "w_calls (snd (bindP m f w)) \<le> w_calls w + (j + k)"
  proof (cases x)
    case (Inl e)
    with m w1 show ?thesis by (simp add: bindP_def)
  next
    case (Inr a)
    have "w_calls (snd (f a w1)) \<le> w_calls w1 + k" using assms(2) unfolding costs_def by blast
    with Inr m w1 show ?thesis by (simp add: bindP_def)
  qed
qed

lemma costs_free_bind [cost_rules]: "steps (keeping w_calls) m \<Longrightarrow> (\<And>x. costs k (f x)) \<Longrightarrow> costs k (bindP m f)"
  using costs_bind [OF costs_free [where k = 0]] by fastforce

lemma costs_bind_free: "costs k m \<Longrightarrow> (\<And>x. steps (keeping w_calls) (f x)) \<Longrightarrow> costs k (bindP m f)"
  using costs_bind [OF _ costs_free [where k = 0], of k m f] by fastforce

lemma costs_free_then [cost_rules]: "steps (keeping w_calls) m \<Longrightarrow> costs k n \<Longrightarrow> costs k (thenP m n)"
  unfolding thenP_def by (rule costs_free_bind)

lemma costs_catch_free: "costs k m \<Longrightarrow> (\<And>e. steps (keeping w_calls) (h e)) \<Longrightarrow> costs k (catchP m h)"
  unfolding costs_def catchP_def steps_def keeping_def
  by (simp add: case_prod_unfold split: sum.split)

lemma costs_finally_free: "costs k m \<Longrightarrow> steps (keeping w_calls) n \<Longrightarrow> costs k (finallyP m n)"
  unfolding costs_def finallyP_def steps_def keeping_def
  by (simp add: case_prod_unfold split: sum.split)

lemma costs_lock: "costs k m \<Longrightarrow> costs k (with_key_lock rt key m)"
  unfolding with_key_lock_def
  by (intro costs_free_bind steps_gets preorder_keeping)
    (auto intro!: costs_free_then costs_finally_free intro: calls_same)

lemma costs_if [cost_rules]: "(b \<Longrightarrow> costs k m) \<Longrightarrow> (\<not> b \<Longrightarrow> costs k n) \<Longrightarrow> costs k (if b then m else n)"
  by simp

lemma costs_case_option [cost_rules]:
  "(x = None \<Longrightarrow> costs k m) \<Longrightarrow> (\<And>y. x = Some y \<Longrightarrow> costs k (f y)) \<Longrightarrow>
   costs k (case x of None \<Rightarrow> m | Some y \<Rightarrow> f y)"
  by (cases x) auto

lemma raise_cost: "costs k (raise e)"
  by (simp add: costs_def)

lemma ret_cost: "costs k (ret x)"
  by (simp add: costs_def)

lemma next_call_cost: "costs 1 next_call"
  by (simp add: costs_def next_call_def)

lemma client_call_cost: "costs 1 (client_call rt req)"
  unfolding client_call_def
  by (intro costs_bind_free next_call_cost) (auto intro!: steps_rules)

lemma ws_calls: "steps (keeping w_calls) (ws_step rt)" "steps (keeping w_calls) (ws_create rt)"
  "steps (keeping w_calls) ws_dispose"
proof -
  show step: "steps (keeping w_calls) (ws_step rt)"
    unfolding ws_step_def by (intro steps_rules steps_modify preorder_keeping) (simp add: keeping_def)
  show "steps (keeping w_calls) (ws_create rt)" "steps (keeping w_calls) ws_dispose"
    unfolding ws_create_def ws_mkdir_def ws_dispose_def
    by (intro steps_rules step steps_modify preorder_keeping; simp add: keeping_def)+
qed

text \<open>One call of the run hook is at most one call of a client.\<close>

lemma run_client_cost: "costs 1 (run_client rt c)"
proof -
  have pre: "preorder_rel (keeping w_calls)" by simp
  have "costs 1 (run_managed rt c r)" for r
    unfolding run_managed_def Let_def
    by (intro cost_rules raise_cost ws_calls costs_bind_free [OF costs_finally_free]
        costs_bind_free [OF client_call_cost] steps_rules pre)
  moreover have "costs 1 (run_passthrough rt c r)" "costs 1 (run_api_passthrough rt c r)" for r
    unfolding run_passthrough_def run_api_passthrough_def
    by (intro cost_rules raise_cost costs_bind_free [OF client_call_cost] steps_rules pre)+
  moreover have "costs 1 (run_api rt c r)" for r
    unfolding run_api_def by (intro cost_rules raise_cost costs_bind_free [OF next_call_cost] steps_rules pre)
  ultimately show ?thesis unfolding run_client_def
    by (cases "rc_execution_kind c") (auto simp: raise_cost split: option.split)
qed

lemma hook_cost: "costs 1 (hk_run_client (run_hooks rt ps ms) c)"
  using run_client_cost by (simp add: run_hooks_def)

lemma after_calls: "steps (keeping w_calls) (hk_after_record (run_hooks rt ps ms) key)"
  by (simp add: run_hooks_def call_frame.after_record_steps)

lemma run_unstored_cost: "costs 1 (run_unstored rt (run_hooks rt ps ms) c idn)"
  unfolding run_unstored_def
  by (intro costs_bind_free hook_cost steps_rules call_frame.port_steps)

lemma guarded_run_client_cost: "costs 1 (guarded_run_client rt (run_hooks rt ps ms) c x)"
  unfolding guarded_run_client_def abandon_in_progress_as_failed_def
  by (intro costs_catch_free hook_cost steps_rules calls_ops preorder_keeping)

lemma record_calls:
  "steps (keeping w_calls) (record_unstored rt (run_hooks rt ps ms) c x key res)"
  "steps (keeping w_calls) (record_stored rt (run_hooks rt ps ms) c x key res)"
  unfolding record_unstored_def record_stored_def
  by (intro steps_rules call_frame.document_steps calls_ops after_calls preorder_keeping)+

lemma run_and_record_cost: "costs 1 (run_and_record rt (run_hooks rt ps ms) c idn key)"
  unfolding run_and_record_def storage_unhealthy_def Let_def
  by (intro cost_rules raise_cost costs_bind_free [OF guarded_run_client_cost] record_calls steps_rules
      calls_ops preorder_keeping)

lemma offline_calls:
  assumes "rc_cache_mode c = MODE_OFFLINE"
  shows "steps (keeping w_calls) (run_execute rt ps ms c)"
proof -
  let ?hk = "run_hooks rt ps ms"
  have mode: "(hk_cache_mode ?hk c = MODE_OFFLINE) = True" by (simp add: run_hooks_def assms)
  have idn: "steps (keeping w_calls) (hk_build_identity ?hk c)"
    by (simp add: run_hooks_def build_identity_calls)
  show ?thesis
    unfolding run_execute_def execute_def run_uncacheable_def mode if_True
    by (intro steps_rules idn call_frame.serve_offline_steps call_frame.offline_miss_steps preorder_keeping)
qed

lemma execute_cost: "costs 1 (run_execute rt ps ms c)"
proof -
  let ?hk = "run_hooks rt ps ms"
  have idn: "steps (keeping w_calls) (hk_build_identity ?hk c)"
    by (simp add: run_hooks_def build_identity_calls)
  have metered: "costs 1 (run_metered rt ?hk c i key)" for i key
    unfolding run_metered_def
    by (intro cost_rules costs_bind_free [OF run_unstored_cost] steps_rules call_frame.document_steps calls_ops
        preorder_keeping)
  have fresh: "costs 1 (run_fresh rt ?hk c i key st)" for i key st
    unfolding run_fresh_def run_fresh_locked_def
    by (intro cost_rules costs_lock costs_bind_free [OF run_unstored_cost] run_and_record_cost ret_cost
        steps_rules call_frame.serve_current_steps call_frame.document_steps calls_ops preorder_keeping)
  show ?thesis
    unfolding run_execute_def execute_def run_uncacheable_def Let_def
    by (intro cost_rules idn metered fresh ret_cost costs_free [OF call_frame.serve_offline_steps]
        costs_free [OF call_frame.offline_miss_steps] steps_rules call_frame.serve_current_steps preorder_keeping)
qed



section \<open>Calls that leave the store alone\<close>

definition stored_state :: "world \<Rightarrow> db \<times> blob_files \<times> nat" where
  "stored_state w = (w_tables w, w_files w, w_waits w)"

abbreviation leaves_store :: "(world, 'a) prog \<Rightarrow> bool" where
  "leaves_store \<equiv> steps (keeping stored_state)"

lemma leaves_store_same:
  "(\<And>w. w_tables (snd (m w)) = w_tables w \<and> w_files (snd (m w)) = w_files w \<and> w_waits (snd (m w)) = w_waits w) \<Longrightarrow>
   leaves_store m"
  by (simp add: steps_def keeping_def stored_state_def)

lemma on_other_files [simp]:
  "w_files (snd (on_db md w)) = w_files w" "w_files (snd (on_reg mr w)) = w_files w"
  "w_files (snd (mint_id rt w)) = w_files w" "w_waits (snd (on_db md w)) = w_waits w"
  "w_waits (snd (on_reg mr w)) = w_waits w" "w_waits (snd (mint_id rt w)) = w_waits w"
  by (simp_all add: w_files_def) (simp_all add: on_db_def on_reg_def zoomP_def mint_id_def case_prod_beta)

lemma leaves_store_ops:
  "leaves_store (on_reg mr)" "leaves_store (mint_id rt)" "leaves_store (on_db (find_current E key))"
proof -
  show "leaves_store (on_reg mr)" "leaves_store (mint_id rt)"
    by (rule leaves_store_same, simp)+
  have "w_tables (snd (on_db (find_current E key) w)) = w_tables w" for w
    by (rule kept, rule steps_on_db_keeping) (simp add: find_current_def reading_keeps)
  then show "leaves_store (on_db (find_current E key))"
    by (intro leaves_store_same) simp
qed

lemma run_client_leaves_store: "leaves_store (run_client rt c)"
  by (rule run_client_keeps) (simp_all add: stored_state_def w_files_def)

lemma journal_leaves_store: "leaves_store (journal rt hk ev key c)"
  unfolding journal_def by (intro steps_rules leaves_store_ops)

lemma run_unstored_leaves_store: "leaves_store (run_unstored rt (run_hooks rt ps ms) c idn)"
proof -
  have "leaves_store (hk_run_client (run_hooks rt ps ms) c)"
    by (simp add: run_hooks_def run_client_leaves_store)
  then show ?thesis
    unfolding run_unstored_def by (intro steps_rules leaves_store_ops preorder_keeping)
qed

text \<open>A call that the cache must not keep: an uncacheable one, or a metered one outside OFFLINE mode.\<close>

definition never_stored :: "run_command \<Rightarrow> bool" where
  "never_stored c \<longleftrightarrow>
     is_uncacheable c \<or> \<not> stores_output (rc_persistence_depth c) \<and> rc_cache_mode c \<noteq> MODE_OFFLINE"



end
