(* ===== verification/Quiet_Runs.thy ===== *)
theory Quiet_Runs
  imports Call_Bounds
begin

text \<open>
  Runs without faults. The services are judged on what they read of a world: the tables, the
  contents the blob store gives, the calls made and the ids minted (\<open>view\<close>). In a quiet runtime
  (no fault, no peer, a store that serves content) each port operation returns and has the effect
  its contract says on the view; the rules below compose these effects along a program.
\<close>

section \<open>Quiet runtimes and views\<close>

definition quiet :: "runtime \<Rightarrow> bool" where
  "quiet rt \<longleftrightarrow>
     de_fault (rt_db rt) = (\<lambda>_. None) \<and> de_digest (rt_db rt) = rt_hash rt
     \<and> blob_env_ok (rt_blob rt) \<and> no_faults (rt_blob rt) \<and> serves_content (rt_store rt)
     \<and> re_fault (rt_reg rt) = (\<lambda>_. None) \<and> rt_lock_fault rt = (\<lambda>_. None) \<and> (\<forall>n x. rt_peer rt n x = x)"

type_synonym contents = "text_str \<Rightarrow> bytes option"
type_synonym view_pred = "db \<Rightarrow> contents \<Rightarrow> nat \<Rightarrow> nat \<Rightarrow> bool"

definition contents_of :: "runtime \<Rightarrow> world \<Rightarrow> contents" where
  "contents_of rt w = content_of (rt_blob rt) (rt_store rt) (w_blobs w)"

definition view :: "runtime \<Rightarrow> view_pred \<Rightarrow> world \<Rightarrow> bool" where
  "view rt I w \<longleftrightarrow> I (w_tables w) (contents_of rt w) (w_calls w) (w_minted w)"

abbreviation returns :: "('w \<Rightarrow> bool) \<Rightarrow> ('w, 'a) prog \<Rightarrow> ('a \<Rightarrow> 'w \<Rightarrow> bool) \<Rightarrow> bool" where
  "returns P m Q \<equiv> triple P m Q (\<lambda>_ _. False)"

named_theorems quiet_rules "effects of the port operations in a quiet runtime"

lemma returnsI: "(\<And>w. P w \<Longrightarrow> \<exists>a w'. m w = (Inr a, w') \<and> Q a w') \<Longrightarrow> returns P m Q"
  unfolding triple_def by fastforce

lemma returnsE:
  assumes "returns P m Q" and "P w"
  obtains a w' where "m w = (Inr a, w')" and "Q a w'"
proof (cases "m w")
  case (Pair x w')
  with assms that show ?thesis by (cases x) (auto dest: tripleD_Inl tripleD_Inr)
qed

lemma returns_pre: "returns P m Q \<Longrightarrow> (\<And>w. P' w \<Longrightarrow> P w) \<Longrightarrow> returns P' m Q"
  by (rule triple_conseq)

lemma returns_post: "returns P m Q \<Longrightarrow> (\<And>a w. Q a w \<Longrightarrow> Q' a w) \<Longrightarrow> returns P m Q'"
  by (rule triple_conseq)

lemma returns_bind: "returns P m R \<Longrightarrow> (\<And>a. returns (R a) (f a) Q) \<Longrightarrow> returns P (bindP m f) Q"
  by (rule triple_bind)

lemma returns_then: "returns P m (\<lambda>_. R) \<Longrightarrow> returns R n Q \<Longrightarrow> returns P (thenP m n) Q"
  by (rule triple_then)

lemma returns_ret: "(\<And>w. P w \<Longrightarrow> Q a w) \<Longrightarrow> returns P (ret a) Q"
  by (rule triple_ret)

lemma returns_catch: "returns P m Q \<Longrightarrow> returns P (catchP m h) Q"
  by (rule triple_catch [where R = "\<lambda>_ _. False"]) (auto simp: triple_def)

lemma returns_liftE: "(\<And>w. P w \<Longrightarrow> \<exists>a. r = Inr a \<and> Q a w) \<Longrightarrow> returns P (liftE r) Q"
  by (rule returnsI) auto

lemma returns_if: "(b \<Longrightarrow> returns P m Q) \<Longrightarrow> (\<not> b \<Longrightarrow> returns P n Q) \<Longrightarrow> returns P (if b then m else n) Q"
  by simp

lemma returns_whenP: "(b \<Longrightarrow> returns P m (\<lambda>_. Q)) \<Longrightarrow> (\<And>w. \<not> b \<Longrightarrow> P w \<Longrightarrow> Q w) \<Longrightarrow> returns P (whenP b m) (\<lambda>_. Q)"
  by (cases b) (auto intro: triple_ret)

lemma returns_False: "returns (\<lambda>_. False) m Q"
  by (simp add: triple_def)

lemma returns_assume: "(\<And>w. P w \<Longrightarrow> A) \<Longrightarrow> (A \<Longrightarrow> returns P m Q) \<Longrightarrow> returns P m Q"
  unfolding triple_def by (meson)

lemma returns_mapP:
  "(\<And>x. x \<in> set xs \<Longrightarrow> returns V (f x) (\<lambda>y w. P y \<and> V w)) \<Longrightarrow>
   returns V (mapP f xs) (\<lambda>ys w. (\<forall>y \<in> set ys. P y) \<and> V w)"
proof (induction xs)
  case Nil
  show ?case unfolding mapP.simps by (rule returns_ret) simp
next
  case (Cons x xs)
  have IH: "returns V (mapP f xs) (\<lambda>ys w. (\<forall>y \<in> set ys. P y) \<and> V w)" using Cons by simp
  have rest: "returns (\<lambda>w. P y \<and> V w) (bindP (mapP f xs) (\<lambda>ys. ret (y # ys))) (\<lambda>ys w. (\<forall>y \<in> set ys. P y) \<and> V w)" for y
  proof (rule returns_assume [where A = "P y"])
    assume "P y"
    then show ?thesis by (intro returns_bind [OF returns_pre [OF IH]] returns_ret) auto
  qed simp
  show ?case unfolding mapP.simps by (rule returns_bind [OF Cons.prems rest]) simp
qed

section \<open>The ports\<close>

lemma view_simps [simp]:
  "view rt I (w\<lparr>w_db := s\<rparr>) = I (ds_db s) (contents_of rt w) (w_calls w) (w_minted w)"
  "view rt I (w\<lparr>w_reg := g\<rparr>) = view rt I w" "view rt I (w\<lparr>w_held := h\<rparr>) = view rt I w"
  "view rt I (w\<lparr>w_waits := n\<rparr>) = view rt I w" "view rt I (w\<lparr>w_lock_opens := n\<rparr>) = view rt I w"
  by (simp_all add: view_def contents_of_def)

lemma write_quiet:
  assumes "quiet rt"
    and "\<And>n d c k i. I d c k i \<Longrightarrow> \<exists>a d'. body n d = (Inr a, d') \<and> J a d' c k i"
  shows "returns (view rt I) (on_db (write_transaction (rt_db rt) body)) (\<lambda>a. view rt (J a))"
proof (rule returnsI)
  fix w assume "view rt I w"
  then obtain a d' where b: "body (ds_ops (w_db w)) (w_tables w) = (Inr a, d')"
    and J: "J a d' (contents_of rt w) (w_calls w) (w_minted w)"
    using assms(2) unfolding view_def by blast
  from b assms(1)
  have "write_transaction (rt_db rt) body (w_db w) = (Inr a, (w_db w)\<lparr>ds_ops := Suc (ds_ops (w_db w)), ds_db := d'\<rparr>)"
    by (simp add: write_transaction_def Let_def quiet_def w_tables_def)
  from on_db_run [of "write_transaction (rt_db rt) body" w, OF this] J
  show "\<exists>a w'. on_db (write_transaction (rt_db rt) body) w = (Inr a, w') \<and> view rt (J a) w'" by auto
qed

lemma read_quiet:
  assumes "quiet rt" and "\<And>n d c k i. I d c k i \<Longrightarrow> \<exists>a. query n d = Inr a \<and> J a d c k i"
  shows "returns (view rt I) (on_db (reading (rt_db rt) query)) (\<lambda>a. view rt (J a))"
proof (rule returnsI)
  fix w assume "view rt I w"
  then obtain a where b: "query (ds_ops (w_db w)) (w_tables w) = Inr a"
    and J: "J a (w_tables w) (contents_of rt w) (w_calls w) (w_minted w)"
    using assms(2) unfolding view_def by blast
  from b assms(1)
  have "reading (rt_db rt) query (w_db w) = (Inr a, (w_db w)\<lparr>ds_ops := Suc (ds_ops (w_db w))\<rparr>)"
    by (simp add: reading_def Let_def quiet_def w_tables_def)
  from on_db_run [of "reading (rt_db rt) query" w, OF this] J
  show "\<exists>a w'. on_db (reading (rt_db rt) query) w = (Inr a, w') \<and> view rt (J a) w'"
    by (auto simp: w_tables_def)
qed

lemma quiet_contract:
  "quiet rt \<Longrightarrow> blob_contract (content_of (rt_blob rt) (rt_store rt)) (store_get (rt_blob rt) (rt_store rt))
     (store_put (rt_blob rt) (rt_store rt)) (store_remove (rt_blob rt) (rt_store rt))"
  by (rule store_contract) (simp add: quiet_def)

lemma view_blobs: "view rt I (w\<lparr>w_blobs := s\<rparr>) = I (w_tables w) (content_of (rt_blob rt) (rt_store rt) s) (w_calls w) (w_minted w)"
  by (simp add: view_def contents_of_def)

lemma put_quiet:
  assumes rt: "quiet rt" and k: "blob_key_ok bk" and I: "\<And>d c k i. I d c k i \<Longrightarrow> J d (c(bk \<mapsto> v)) k i"
  shows "returns (view rt I) (on_blobs (store_put (rt_blob rt) (rt_store rt) bk v)) (\<lambda>_. view rt J)"
proof (rule returnsI)
  fix w assume w: "view rt I w"
  obtain s where s: "store_put (rt_blob rt) (rt_store rt) bk v (w_blobs w) = (Inr (), s)"
    using store_put_no_fault [of "rt_blob rt" "rt_store rt" bk v] rt k unfolding quiet_def by blast
  then have "content_of (rt_blob rt) (rt_store rt) s = (contents_of rt w)(bk \<mapsto> v)"
    using blob_contract.put_returns [OF quiet_contract [OF rt]] by (simp add: contents_of_def)
  with w I on_blobs_run [of "store_put (rt_blob rt) (rt_store rt) bk v" w, OF s]
  show "\<exists>a w'. on_blobs (store_put (rt_blob rt) (rt_store rt) bk v) w = (Inr a, w') \<and> view rt J w'"
    by (auto simp: view_blobs) (simp add: view_def)
qed

lemma get_quiet:
  assumes rt: "quiet rt" and k: "blob_key_ok bk" and I: "\<And>d c k i. I d c k i \<Longrightarrow> c bk = Some v"
  shows "returns (view rt I) (on_blobs (store_get (rt_blob rt) (rt_store rt) bk)) (\<lambda>r w. r = Some v \<and> view rt I w)"
proof (rule returnsI)
  fix w assume w: "view rt I w"
  then have "content_of (rt_blob rt) (rt_store rt) (w_blobs w) bk = Some v"
    using I unfolding view_def contents_of_def by blast
  with rt k obtain s where s: "store_get (rt_blob rt) (rt_store rt) bk (w_blobs w) = (Inr (Some v), s)"
    unfolding quiet_def by (meson store_get_no_fault)
  then have "content_of (rt_blob rt) (rt_store rt) s = contents_of rt w"
    using blob_contract.get_keeps [OF quiet_contract [OF rt]] by (simp add: contents_of_def)
  with w on_blobs_run [of "store_get (rt_blob rt) (rt_store rt) bk" w, OF s]
  show "\<exists>a w'. on_blobs (store_get (rt_blob rt) (rt_store rt) bk) w = (Inr a, w') \<and> a = Some v \<and> view rt I w'"
    by (auto simp: view_blobs) (simp add: view_def)
qed

lemma healthy_quiet:
  assumes rt: "quiet rt"
  shows "returns (view rt I) (on_blobs (store_is_healthy (rt_blob rt) (rt_store rt))) (\<lambda>r w. r \<and> view rt I w)"
proof (rule returnsI)
  fix w assume w: "view rt I w"
  have run: "\<exists>s'. store_is_healthy (rt_blob rt) st s = (Inr True, s') \<and> content_of (rt_blob rt) st' s' = content_of (rt_blob rt) st' s"
    for st st' s
    using rt by (induction st) (auto simp: fs_is_healthy_def bindP_def tick_def quiet_def no_faults_def)
  then obtain s where "store_is_healthy (rt_blob rt) (rt_store rt) (w_blobs w) = (Inr True, s)"
    and "content_of (rt_blob rt) (rt_store rt) s = contents_of rt w"
    by (metis contents_of_def)
  with w on_blobs_run [of "store_is_healthy (rt_blob rt) (rt_store rt)" w]
  show "\<exists>a w'. on_blobs (store_is_healthy (rt_blob rt) (rt_store rt)) w = (Inr a, w') \<and> a \<and> view rt I w'"
    by (auto simp: view_blobs) (simp add: view_def)
qed

lemma event_quiet:
  assumes "quiet rt"
  shows "returns (view rt I) (on_reg (record_event (rt_reg rt) ev k c m ef sid)) (\<lambda>_. view rt I)"
proof (rule returnsI)
  fix w assume "view rt I w"
  moreover have "re_fault (rt_reg rt) (rg_ops (w_reg w)) = None" using assms by (simp add: quiet_def)
  then obtain g where "record_event (rt_reg rt) ev k c m ef sid (w_reg w) = (Inr (), g)"
    using record_event_no_fault by blast
  ultimately show "\<exists>a w'. on_reg (record_event (rt_reg rt) ev k c m ef sid) w = (Inr a, w') \<and> view rt I w'"
    using on_reg_run [of "record_event (rt_reg rt) ev k c m ef sid" w] by auto
qed

lemma journal_quiet: "quiet rt \<Longrightarrow> returns (view rt I) (journal rt hk ev key c) (\<lambda>_. view rt I)"
  unfolding journal_def by (simp add: case_prod_unfold event_quiet)

lemma mint_quiet:
  "(\<And>d c k i. I d c k i \<Longrightarrow> J (rt_uuid rt i) d c k (Suc i)) \<Longrightarrow>
   returns (view rt I) (mint_id rt) (\<lambda>e. view rt (J e))"
  by (rule returnsI) (simp add: mint_id_def view_def contents_of_def)

lemma key_lock_quiet:
  assumes rt: "quiet rt" and m: "returns (view rt I) m (\<lambda>a. view rt (J a))"
  shows "returns (view rt I) (with_key_lock rt key m) (\<lambda>a. view rt (J a))"
proof (rule returnsI)
  fix w assume w: "view rt I w"
  show "\<exists>a w'. with_key_lock rt key m w = (Inr a, w') \<and> view rt (J a) w'"
  proof (cases "key \<in> set (w_held w)")
    case True
    obtain a w' where "m w = (Inr a, w')" "view rt (J a) w'" by (rule returnsE [OF m w])
    with True show ?thesis by (simp add: with_key_lock_def bindP_def)
  next
    case False
    let ?w1 = "w\<lparr>w_waits := Suc (w_waits w), w_held := key # w_held w\<rparr>"
    have w1: "enter_lock rt key w = (Inr (), ?w1)"
      using rt by (simp add: enter_lock_def quiet_def w_tables_def w_files_def)
    have "view rt I ?w1" using w by simp
    with m obtain a w2 where "m ?w1 = (Inr a, w2)" "view rt (J a) w2" by (rule returnsE)
    with False w1 show ?thesis
      by (auto simp: with_key_lock_def bindP_def thenP_def finallyP_def leave_lock_run)
  qed
qed

lemma content_lock_quiet:
  assumes rt: "quiet rt" and m: "returns (view rt I) m Q"
  shows "returns (view rt I) (with_content_lock rt m) Q"
proof -
  have "returns (view rt I) (open_store_lock rt) (\<lambda>_. view rt I)"
    using rt by (intro returnsI) (auto simp: open_store_lock_def bindP_def thenP_def quiet_def)
  with m show ?thesis unfolding with_content_lock_def by (auto intro: returns_then)
qed

text \<open>A client that answers: the call returns the result, counts one call, and changes nothing else.\<close>

definition client_returns :: "runtime \<Rightarrow> run_command \<Rightarrow> client_run_result \<Rightarrow> bool" where
  "client_returns rt c res \<longleftrightarrow> (\<forall>w. \<exists>w'. run_client rt c w = (Inr res, w'))"

lemma client_quiet:
  assumes res: "client_returns rt c res"
    and I: "\<And>d ct k k' i. I d ct k i \<Longrightarrow> k' \<le> Suc k \<Longrightarrow> J d ct k' i"
  shows "returns (view rt I) (hk_run_client (run_hooks rt ps ms) c) (\<lambda>r w. r = res \<and> view rt J w)"
proof (rule returnsI)
  fix w assume w: "view rt I w"
  obtain w' where w': "run_client rt c w = (Inr res, w')" using res unfolding client_returns_def by blast
  have "keeping (\<lambda>w. (w_tables w, w_blobs w, w_minted w)) w w'"
    by (rule stepsD [OF run_client_keeps w']) simp_all
  moreover have "w_calls w' \<le> Suc (w_calls w)"
    using run_client_cost w' unfolding costs_def by (metis Suc_eq_plus1 snd_conv)
  ultimately have "view rt J w'" using w I unfolding keeping_def view_def contents_of_def by fastforce
  with w' show "\<exists>a w'. hk_run_client (run_hooks rt ps ms) c w = (Inr a, w') \<and> a = res \<and> view rt J w'"
    by (simp add: run_hooks_def)
qed

end
