(* ===== verification/Record_Replay.thy ===== *)
theory Record_Replay
  imports Quiet_Runs Row_Lifecycle
begin

text \<open>
  Record once, replay for ever: a successful run that is stored is served to every later call of
  the same identity, byte for byte, without calling the client. The recording is followed step by
  step through the database, the blob store and the locks.
\<close>

type_synonym part = "artifact_type \<times> text_str option \<times> bytes"

lemma run_hooks_simps [simp]:
  "hk_cache_mode (run_hooks rt ps ms) = rc_cache_mode" "hk_depth (run_hooks rt ps ms) = rc_persistence_depth"
  "hk_should_persist (run_hooks rt ps ms) = should_persist" "hk_execution_kind (run_hooks rt ps ms) = rc_execution_kind"
  "hk_is_uncacheable (run_hooks rt ps ms) = is_uncacheable" "hk_input_parts (run_hooks rt ps ms) = input_parts"
  "hk_build_identity (run_hooks rt ps ms) = build_identity rt"
  "hk_after_record (run_hooks rt ps ms) = after_record rt ps ms"
  by (simp_all add: run_hooks_def)

section \<open>Documents\<close>

text \<open>Every execution id of the runtime and every digest make a valid blob key.\<close>

definition keys_ok :: "runtime \<Rightarrow> bool" where
  "keys_ok rt \<longleftrightarrow> (\<forall>i v. blob_key_ok (rt_uuid rt i @ ''_'' @ rt_hash rt v) \<and> rt_uuid rt i \<noteq> [])"

definition document :: "(bytes \<Rightarrow> text_str) \<Rightarrow> text_str \<Rightarrow> artifact_status \<Rightarrow> part \<Rightarrow> artifact" where
  "document h e st p = (case p of (t, name, v) \<Rightarrow> artifact_from_content t (e @ ''_'' @ h v) v name st)"

lemma make_artifacts_documents:
  "(\<And>v. blob_key_ok (e @ ''_'' @ rt_hash rt v)) \<Longrightarrow> make_artifacts rt e parts st = Inr (map (document (rt_hash rt) e st) parts)"
  unfolding make_artifacts_def
  by (induction parts)
    (auto simp: make_artifact_def blob_key_for_execution_def file_content_fingerprint_def document_def BlobKey_def)

definition content_held :: "(bytes \<Rightarrow> text_str) \<Rightarrow> text_str \<Rightarrow> part list \<Rightarrow> contents \<Rightarrow> bool" where
  "content_held h e parts ct \<longleftrightarrow> (\<forall>(t, name, v) \<in> set parts. ct (e @ ''_'' @ h v) = Some v)"

definition parts_contents :: "part list \<Rightarrow> bytes set" where
  "parts_contents parts = (\<lambda>(t, name, v). v) ` set parts"

lemma content_held_put:
  assumes "content_held h e parts ct" and "inj_on h (insert v (parts_contents parts))"
  shows "content_held h e parts (ct(e @ ''_'' @ h v \<mapsto> v))"
  unfolding content_held_def
proof (clarify)
  fix t name u assume u: "(t, name, u) \<in> set parts"
  then have "u \<in> parts_contents parts" by (force simp: parts_contents_def)
  with assms(2) have "h u = h v \<Longrightarrow> u = v" by (meson inj_onD insertI1 insertI2)
  with assms(1) u show "(ct(e @ ''_'' @ h v \<mapsto> v)) (e @ ''_'' @ h u) = Some u"
    by (auto simp: content_held_def)
qed

text \<open>The run after some of its documents: their rows are stored, their blobs are there.\<close>

definition documented ::
  "runtime \<Rightarrow> text_str \<Rightarrow> text_str \<Rightarrow> execution_kind \<Rightarrow> bool \<Rightarrow> token_usage option \<Rightarrow> nat \<Rightarrow> part list \<Rightarrow> view_pred" where
  "documented rt e key kind persisted usage most parts d ct k i \<longleftrightarrow>
     (\<exists>arts. run_state d e key kind SUCCESS persisted usage arts \<and> list_all2 (stores_part (rt_hash rt) e) arts parts)
     \<and> content_held (rt_hash rt) e parts ct \<and> k \<le> most"

text \<open>Its last document pending, its blob written or not.\<close>

definition document_pending ::
  "runtime \<Rightarrow> text_str \<Rightarrow> text_str \<Rightarrow> execution_kind \<Rightarrow> token_usage option \<Rightarrow> nat \<Rightarrow> part list \<Rightarrow> part \<Rightarrow> bool \<Rightarrow> view_pred" where
  "document_pending rt e key kind usage most parts p written d ct k i \<longleftrightarrow>
     (\<exists>arts j l. run_state d e key kind SUCCESS False usage (arts @ [pending_row j l (document (rt_hash rt) e PENDING p)])
        \<and> list_all2 (stores_part (rt_hash rt) e) arts parts)
     \<and> content_held (rt_hash rt) e parts ct \<and> (written \<longrightarrow> content_held (rt_hash rt) e [p] ct) \<and> k \<le> most"

lemma document_simps [simp]:
  "at_blob_key (document h e st (t, name, v)) = e @ ''_'' @ h v" "at_content (document h e st p) = Some (snd (snd p))"
  "at_status (document h e st p) = st" "at_type (document h e st p) = fst p" "at_name (document h e st p) = fst (snd p)"
  by (simp_all add: document_def artifact_from_content_def case_prod_beta)

lemma document_stored [simp]: "document h e PENDING p\<lparr>at_status := STORED\<rparr> = document h e STORED p"
  by (simp add: document_def artifact_from_content_def case_prod_beta)

lemma insert_document_quiet:
  assumes "quiet rt"
  shows "returns (view rt (documented rt e key kind False usage most parts))
    (on_db (persist_artifact (rt_db rt) e (document (rt_hash rt) e PENDING p)))
    (\<lambda>_. view rt (document_pending rt e key kind usage most parts p False))"
  unfolding persist_artifact_def
  by (rule write_quiet [OF assms])
    (use persist_artifact_step in \<open>fastforce simp: documented_def document_pending_def\<close>)

lemma put_document_quiet:
  assumes "quiet rt" and "\<And>v. blob_key_ok (e @ ''_'' @ rt_hash rt v)"
    and "inj_on (rt_hash rt) (insert (snd (snd p)) (parts_contents parts))"
  shows "returns (view rt (document_pending rt e key kind usage most parts p False))
    (on_blobs (store_put (rt_blob rt) (rt_store rt) (at_blob_key (document (rt_hash rt) e PENDING p))
       (content_or_empty (document (rt_hash rt) e PENDING p))))
    (\<lambda>_. view rt (document_pending rt e key kind usage most parts p True))"
proof -
  obtain t name v where p: "p = (t, name, v)" by (cases p)
  have "content_held (rt_hash rt) e parts ct \<Longrightarrow> content_held (rt_hash rt) e parts (ct(e @ ''_'' @ rt_hash rt v \<mapsto> v))" for ct
    using content_held_put assms(3) p by simp
  then show ?thesis
    unfolding p document_simps content_or_empty_def
    by (intro put_quiet assms(1,2)) (auto simp: document_pending_def content_held_def)
qed

lemma stores_part_marked:
  assumes "list_all2 (stores_part h e) arts parts"
    and f: "\<And>a. af_type (f a) = af_type a \<and> af_name (f a) = af_name a \<and> af_blob_key (f a) = af_blob_key a
               \<and> af_status (f a) = status_value STORED"
  shows "list_all2 (stores_part h e) (map (\<lambda>a. if P a then f a else a) arts) parts"
  using assms(1) by (induction rule: list_all2_induct) (auto simp: stores_part_def f)

lemma mark_document_quiet:
  assumes "quiet rt"
  shows "returns (view rt (document_pending rt e key kind usage most parts p True))
    (on_db (mark_artifacts_stored (rt_db rt) e (at_blob_key (document (rt_hash rt) e PENDING p))))
    (\<lambda>_. view rt (documented rt e key kind False usage most (parts @ [p])))"
  unfolding mark_artifacts_stored_def
proof (rule write_quiet [OF assms])
  fix n d ct k i
  obtain t name v where p: "p = (t, name, v)" by (cases p)
  let ?bk = "at_blob_key (document (rt_hash rt) e PENDING p)"
  let ?f = "\<lambda>a. a\<lparr>af_status := status_value STORED, af_persisted_at := Some (de_now (rt_db rt) n), af_status_detail := None\<rparr>"
  assume I: "document_pending rt e key kind usage most parts p True d ct k i"
  then obtain arts j l where run: "run_state d e key kind SUCCESS False usage (arts @ [pending_row j l (document (rt_hash rt) e PENDING p)])"
    and arts: "list_all2 (stores_part (rt_hash rt) e) arts parts"
    and held: "content_held (rt_hash rt) e parts ct" "content_held (rt_hash rt) e [p] ct" "k \<le> most"
    unfolding document_pending_def by blast
  let ?last = "pending_row j l (document (rt_hash rt) e PENDING p)"
  let ?g = "\<lambda>a. if af_blob_key a = ?bk then ?f a else a"
  have "\<exists>a \<in> set (arts @ [?last]). af_blob_key a = ?bk" by (simp add: pending_row_def)
  from update_artifacts_step [OF run _ this, of ?f] obtain d' where
    upd: "update_artifacts e ?bk ?f d = (Inr (), d')"
    and d': "run_state d' e key kind SUCCESS False usage (map ?g (arts @ [?last]))"
    by auto
  have "list_all2 (stores_part (rt_hash rt) e) (map ?g (arts @ [?last])) (parts @ [p])"
    using stores_part_marked [OF arts, of ?f "\<lambda>a. af_blob_key a = ?bk"]
    by (auto simp: list_all2_append stores_part_def pending_row_def p list_all2_lengthD intro!: list_all2_appendI)
  moreover have "content_held (rt_hash rt) e (parts @ [p]) ct" using held by (auto simp: content_held_def)
  ultimately show "\<exists>a d'. update_artifacts e ?bk ?f d = (Inr a, d')
      \<and> documented rt e key kind False usage most (parts @ [p]) d' ct k i"
    using upd d' held unfolding documented_def by blast
qed

lemma store_document_quiet:
  assumes "quiet rt" and "\<And>v. blob_key_ok (e @ ''_'' @ rt_hash rt v)"
    and "inj_on (rt_hash rt) (insert (snd (snd p)) (parts_contents parts))"
  shows "returns (view rt (document_pending rt e key kind usage most parts p False))
    (store_blob rt e (document (rt_hash rt) e PENDING p))
    (\<lambda>a w. a = document (rt_hash rt) e STORED p \<and> view rt (documented rt e key kind False usage most (parts @ [p])) w)"
proof -
  let ?a = "document (rt_hash rt) e PENDING p"
  let ?P = "view rt (document_pending rt e key kind usage most parts p True)"
  have put: "returns (view rt (document_pending rt e key kind usage most parts p False))
     (thenP (on_blobs (store_put (rt_blob rt) (rt_store rt) (at_blob_key ?a) (content_or_empty ?a))) (ret None))
     (\<lambda>r w. r = (None :: exn option) \<and> ?P w)"
    by (rule returns_then [OF put_document_quiet [OF assms]]) (rule returns_ret, simp)
  have mark: "returns ?P (thenP (on_db (mark_artifacts_stored (rt_db rt) e (at_blob_key ?a))) (ret (?a\<lparr>at_status := STORED\<rparr>)))
     (\<lambda>a w. a = document (rt_hash rt) e STORED p \<and> view rt (documented rt e key kind False usage most (parts @ [p])) w)"
    by (rule returns_then [OF mark_document_quiet [OF assms(1)]]) (rule returns_ret, simp)
  show ?thesis
    unfolding store_blob_def
  proof (rule returns_bind [OF returns_catch [OF put]])
    fix failed :: "exn option"
    show "returns (\<lambda>w. failed = None \<and> ?P w)
      (case failed of
         Some x \<Rightarrow> ret (?a\<lparr>at_status := ARTIFACT_FAILED, at_status_detail := Some (exn_message x)\<rparr>)
       | None \<Rightarrow> catchP (thenP (on_db (mark_artifacts_stored (rt_db rt) e (at_blob_key ?a))) (ret (?a\<lparr>at_status := STORED\<rparr>)))
           (\<lambda>x. if is_exception x then ret (?a\<lparr>at_status := PENDING, at_status_detail := Some (exn_message x)\<rparr>) else raise x))
      (\<lambda>a w. a = document (rt_hash rt) e STORED p \<and> view rt (documented rt e key kind False usage most (parts @ [p])) w)"
    proof (cases failed)
      case None
      with returns_catch [OF mark] show ?thesis by simp
    next
      case (Some x)
      then show ?thesis by (simp add: triple_def)
    qed
  qed
qed

lemma persist_documents_quiet:
  assumes "quiet rt" and "\<And>v. blob_key_ok (e @ ''_'' @ rt_hash rt v)"
    and "inj_on (rt_hash rt) (parts_contents (before @ parts))"
  shows "returns (view rt (documented rt e key kind False usage most before))
    (persist_documents rt e (map (document (rt_hash rt) e PENDING) parts))
    (\<lambda>r w. r = (map (document (rt_hash rt) e STORED) parts, True)
       \<and> view rt (documented rt e key kind False usage most (before @ parts)) w)"
  using assms(3)
proof (induction parts arbitrary: before)
  case Nil
  show ?case unfolding list.map persist_documents.simps by (rule returns_ret) simp
next
  case (Cons p parts)
  let ?a = "document (rt_hash rt) e PENDING p"
  have inj: "inj_on (rt_hash rt) (insert (snd (snd p)) (parts_contents before))"
    by (rule inj_on_subset [OF Cons.prems]) (auto simp: parts_contents_def case_prod_beta)
  have IH: "returns (view rt (documented rt e key kind False usage most (before @ [p])))
    (persist_documents rt e (map (document (rt_hash rt) e PENDING) parts))
    (\<lambda>r w. r = (map (document (rt_hash rt) e STORED) parts, True)
       \<and> view rt (documented rt e key kind False usage most (before @ p # parts)) w)"
    using Cons.IH [of "before @ [p]"] Cons.prems by simp
  let ?Q = "\<lambda>r w. r = (document (rt_hash rt) e STORED p # map (document (rt_hash rt) e STORED) parts, True)
       \<and> view rt (documented rt e key kind False usage most (before @ p # parts)) w"
  have rest: "returns (\<lambda>w. stored = document (rt_hash rt) e STORED p \<and> view rt (documented rt e key kind False usage most (before @ [p])) w)
     (bindP (persist_documents rt e (map (document (rt_hash rt) e PENDING) parts)) (\<lambda>(resolved, all_stored).
        ret (stored # resolved, at_status stored = STORED \<and> all_stored))) ?Q" for stored
    by (rule returns_assume [where A = "stored = document (rt_hash rt) e STORED p"], simp,
        rule returns_bind [OF returns_pre [OF IH]], simp) (auto simp: triple_def)
  show ?case
    unfolding list.map persist_documents.simps
    by (rule returns_then [OF insert_document_quiet [OF assms(1)]],
        rule returns_bind [OF store_document_quiet [OF assms(1,2) inj]], rule rest)
qed

section \<open>Recording\<close>

lemma finalize_quiet:
  assumes "quiet rt"
  shows "returns (view rt (documented rt e key kind False usage most parts))
    (on_db (finalize_output_persisted (rt_db rt) e)) (\<lambda>_. view rt (documented rt e key kind True usage most parts))"
  unfolding finalize_output_persisted_def
proof (rule write_quiet [OF assms])
  fix n d ct k i assume "documented rt e key kind False usage most parts d ct k i"
  then obtain arts where run: "run_state d e key kind SUCCESS False usage arts"
    and arts: "list_all2 (stores_part (rt_hash rt) e) arts parts" and rest: "content_held (rt_hash rt) e parts ct" "k \<le> most"
    unfolding documented_def by blast
  from arts have "\<forall>a \<in> set arts. af_status a = status_value STORED"
    by (induction rule: list_all2_induct) (auto simp: stores_part_def)
  with finalize_step [OF run] obtain d' where "finalize_body (rt_db rt) e n d = (Inr (), d')"
    "run_state d' e key kind SUCCESS True usage arts" by blast
  with arts rest show "\<exists>a d'. finalize_body (rt_db rt) e n d = (Inr a, d') \<and> documented rt e key kind True usage most parts d' ct k i"
    unfolding documented_def by blast
qed

lemma documented_executions_tags:
  "documented rt e key kind True usage most parts d ct k i \<Longrightarrow>
   tables_ok (d\<lparr>db_tags := tags\<rparr>) \<Longrightarrow> documented rt e key kind True usage most parts (d\<lparr>db_tags := tags\<rparr>) ct k i"
  unfolding documented_def run_state_def
  by (auto simp: run_row_def find_row_def row_artifacts_def readable_identity_def load_identity_def load_token_usage_def)

lemma add_tags_run:
  assumes "current_row d key = Some r"
  shows "\<exists>tags'. add_tags_body key tags d = (Inr (), d\<lparr>db_tags := tags'\<rparr>)"
proof -
  have "\<exists>tags'. for_each (\<lambda>tag. modifyP (\<lambda>d. if (er_id r, tag) \<in> set (db_tags d) then d
      else d\<lparr>db_tags := db_tags d @ [(er_id r, tag)]\<rparr>)) tags d = (Inr (), d\<lparr>db_tags := tags'\<rparr>)" for d
  proof (induction tags arbitrary: d)
    case Nil
    show ?case by (intro exI [of _ "db_tags d"]) simp
  next
    case (Cons t tags)
    show ?case
    proof (cases "(er_id r, t) \<in> set (db_tags d)")
      case True
      with Cons [of d] show ?thesis by (simp add: thenP_def bindP_def)
    next
      case False
      from Cons [of "d\<lparr>db_tags := db_tags d @ [(er_id r, t)]\<rparr>"] False show ?thesis
        by (simp add: thenP_def bindP_def)
    qed
  qed
  with assms show ?thesis by (simp add: add_tags_body_def bindP_def)
qed

lemma documented_current:
  assumes "documented rt e key kind True usage most parts d ct k i" and "\<And>v. blob_key_ok (e @ ''_'' @ rt_hash rt v)" and "e \<noteq> []"
  shows "\<exists>r idn as. current_row d key = Some r \<and> (\<forall>n. load_execution E n d r =
     Inr \<lparr>ex_call_identity = idn, ex_execution_state = SUCCESS, ex_execution_kind = kind, ex_output_persisted = True,
          ex_execution_id = e, ex_input_persisted = (\<exists>a \<in> set as. at_type a \<in> set INPUT_ARTIFACT_TYPES),
          ex_artifacts = as, ex_token_usage = usage, ex_failure = None, ex_superseded_at = None\<rparr>)
     \<and> list_all2 (part_artifact (rt_hash rt) e) as parts"
proof -
  from assms obtain arts where run: "run_state d e key kind SUCCESS True usage arts"
    and arts: "list_all2 (stores_part (rt_hash rt) e) arts parts" unfolding documented_def by blast
  from load_parts [OF arts assms(2)] obtain as where
    as: "map_exn load_artifact arts = Inr as" "list_all2 (part_artifact (rt_hash rt) e) as parts" by blast
  from run_state_current [OF run assms(3) as(1)] obtain r idn where "current_row d key = Some r"
    and "\<forall>n. load_execution E n d r =
     Inr \<lparr>ex_call_identity = idn, ex_execution_state = SUCCESS, ex_execution_kind = kind, ex_output_persisted = True,
          ex_execution_id = e, ex_input_persisted = (\<exists>a \<in> set as. at_type a \<in> set INPUT_ARTIFACT_TYPES),
          ex_artifacts = as, ex_token_usage = usage, ex_failure = None, ex_superseded_at = None\<rparr>"
    by blast
  with as(2) show ?thesis by blast
qed

lemma apply_tags_documented:
  assumes "quiet rt" and "\<And>v. blob_key_ok (e @ ''_'' @ rt_hash rt v)" and "e \<noteq> []"
  shows "returns (view rt (documented rt e key kind True usage most parts)) (apply_tags rt hk key c)
    (\<lambda>_. view rt (documented rt e key kind True usage most parts))"
proof -
  have "returns (view rt (documented rt e key kind True usage most parts))
     (on_db (write_transaction (rt_db rt) (\<lambda>_. add_tags_body key tags)))
     (\<lambda>_. view rt (documented rt e key kind True usage most parts))" for tags
  proof (rule write_quiet [OF assms(1)])
    fix n d ct k i assume d: "documented rt e key kind True usage most parts d ct k i"
    then obtain r where "current_row d key = Some r" using documented_current [OF _ assms(2,3)] by blast
    with add_tags_run obtain tags' where run: "add_tags_body key tags d = (Inr (), d\<lparr>db_tags := tags'\<rparr>)" by blast
    have "commits one_current (add_tags_body key tags) (\<lambda>_. one_current)"
      unfolding add_tags_body_def
      by (intro commits_keeping steps_rules preorder_keeping keeping_modify) simp
    with tripleD_Inr [OF this _ run] tripleD_Inr [OF add_tags_body_ok _ run] d
    have "tables_ok (d\<lparr>db_tags := tags'\<rparr>)" by (auto simp: documented_def run_state_def tables_ok_def)
    with documented_executions_tags [OF d] run
    show "\<exists>a d'. add_tags_body key tags d = (Inr a, d') \<and> documented rt e key kind True usage most parts d' ct k i"
      by blast
  qed
  then show ?thesis
    unfolding apply_tags_def add_tags_def Let_def
    by (intro returns_whenP) (auto intro: returns_pre)
qed

definition recorded_parts :: "run_command \<Rightarrow> client_run_result \<Rightarrow> part list" where
  "recorded_parts c res = output_parts res @ (if stores_input (rc_persistence_depth c) then input_parts c else [])"

text \<open>The run before its outcome: the inserted row, nothing else.\<close>

definition inserted :: "text_str \<Rightarrow> text_str \<Rightarrow> execution_kind \<Rightarrow> nat \<Rightarrow> view_pred" where
  "inserted e key kind most d ct k i \<longleftrightarrow> run_state d e key kind IN_PROGRESS False None [] \<and> k \<le> most"

lemma record_outcome_quiet:
  assumes "quiet rt" and "ex_execution_id x = e" "ex_execution_state x = SUCCESS" "ex_failure x = None"
  shows "returns (view rt (inserted e key kind most)) (on_db (record_outcome (rt_db rt) x))
    (\<lambda>_. view rt (documented rt e key kind False (ex_token_usage x) most []))"
  unfolding record_outcome_def
  by (rule write_quiet [OF assms(1)])
    (use record_outcome_step [OF _ assms(2,3,4)] in \<open>fastforce simp: inserted_def documented_def content_held_def\<close>)

lemma record_stored_quiet:
  fixes c :: run_command
  assumes rt: "quiet rt" and keys: "\<And>v. blob_key_ok (e @ ''_'' @ rt_hash rt v)" and e: "e \<noteq> []"
    and inj: "inj_on (rt_hash rt) (parts_contents (recorded_parts c res))"
    and res: "succeeded res" and x: "ex_execution_id x = e"
  shows "returns (view rt (inserted e key kind most)) (record_stored rt (run_hooks rt False ms) c x key res)
    (\<lambda>y w. ex_output_persisted y \<and> ex_artifacts y = map (document (rt_hash rt) e STORED) (recorded_parts c res)
       \<and> view rt (documented rt e key kind True (cr_token_usage res) most (recorded_parts c res)) w)"
proof -
  let ?hk = "run_hooks rt False ms" and ?x = "with_outcome x res" and ?h = "rt_hash rt"
  let ?ins = "if stores_input (rc_persistence_depth c) then input_parts c else []"
  let ?D = "\<lambda>p. view rt (documented rt e key kind p (cr_token_usage res) most (recorded_parts c res))"
  have wo: "ex_execution_id ?x = e" "ex_execution_state ?x = SUCCESS" "ex_failure ?x = None"
    "ex_token_usage ?x = cr_token_usage res"
    using res x by (simp_all add: with_outcome_def outcome_def result_failure_def)
  have out: "build_artifacts rt e res PENDING = Inr (map (document ?h e PENDING) (output_parts res))"
    unfolding build_artifacts_def by (rule make_artifacts_documents [OF keys])
  have ins: "(if stores_input (hk_depth ?hk c) then build_input_artifacts rt ?hk e c PENDING else Inr [])
      = Inr (map (document ?h e PENDING) ?ins)"
    using make_artifacts_documents [OF keys] by (simp add: build_input_artifacts_def)
  have docs: "returns (view rt (documented rt e key kind False (cr_token_usage res) most []))
     (with_content_lock rt (persist_documents rt e (map (document ?h e PENDING) (output_parts res) @ map (document ?h e PENDING) ?ins)))
     (\<lambda>r w. r = (map (document ?h e STORED) (recorded_parts c res), True) \<and> ?D False w)"
    unfolding map_append [symmetric]
    using persist_documents_quiet [OF rt keys, of "[]" "recorded_parts c res"] inj
    by (intro content_lock_quiet [OF rt]) (simp add: recorded_parts_def)
  have fin: "returns (?D False)
     (thenP (on_db (finalize_output_persisted (rt_db rt) e))
       (thenP (journal rt ?hk EV_RECORD key c) (thenP (apply_tags rt ?hk key c) (hk_after_record ?hk key))))
     (\<lambda>_. ?D True)"
    unfolding run_hooks_simps after_record_def
    by (intro returns_then [OF finalize_quiet [OF rt]] returns_then [OF journal_quiet [OF rt]]
        returns_then [OF apply_tags_documented [OF rt keys e]]) (simp, rule returns_ret)
  have finish: "returns (\<lambda>w. r = (map (document ?h e STORED) (recorded_parts c res), True) \<and> ?D False w)
     (case r of (resolved, all_stored) \<Rightarrow>
        thenP (if all_stored
               then thenP (on_db (finalize_output_persisted (rt_db rt) e))
                   (thenP (journal rt ?hk EV_RECORD key c) (thenP (apply_tags rt ?hk key c) (hk_after_record ?hk key)))
               else journal rt ?hk EV_RUN key c)
          (ret (?x\<lparr>ex_output_persisted := all_stored, ex_input_persisted := (map (document ?h e PENDING) ?ins \<noteq> []),
                   ex_artifacts := resolved\<rparr>)))
     (\<lambda>y w. ex_output_persisted y \<and> ex_artifacts y = map (document ?h e STORED) (recorded_parts c res) \<and> ?D True w)" for r
  proof (rule returns_assume [where A = "r = (map (document ?h e STORED) (recorded_parts c res), True)"])
    assume r: "r = (map (document ?h e STORED) (recorded_parts c res), True)"
    show ?thesis unfolding r prod.case if_True
      by (rule returns_then [OF returns_pre [OF fin]], simp, rule returns_ret) simp
  qed simp
  show ?thesis
    unfolding record_stored_def Let_def wo(1)
    by (rule returns_then [OF record_outcome_quiet [OF rt wo(1,2,3)]],
        unfold out ins liftE_Inr bindP_ret wo(4), rule returns_bind [OF docs], rule finish)
qed

text \<open>Where a run can be recorded: the next id is new, and an identity the key already has is readable.\<close>

definition recordable :: "runtime \<Rightarrow> text_str \<Rightarrow> nat \<Rightarrow> view_pred" where
  "recordable rt key most d ct k i \<longleftrightarrow>
     tables_ok d \<and> Some (rt_uuid rt i) \<notin> er_execution_id ` set (db_executions d)
     \<and> (has_identity key d \<longrightarrow> readable_identity d key) \<and> k \<le> most"

definition minted :: "runtime \<Rightarrow> text_str \<Rightarrow> nat \<Rightarrow> text_str \<Rightarrow> view_pred" where
  "minted rt key most e d ct k i \<longleftrightarrow>
     e \<in> range (rt_uuid rt) \<and> tables_ok d \<and> Some e \<notin> er_execution_id ` set (db_executions d)
     \<and> (has_identity key d \<longrightarrow> readable_identity d key) \<and> k \<le> most"

text \<open>The outcome of a recording: some execution of the key holds the documents.\<close>

definition recorded ::
  "runtime \<Rightarrow> text_str \<Rightarrow> execution_kind \<Rightarrow> token_usage option \<Rightarrow> nat \<Rightarrow> part list \<Rightarrow> ml_execution \<Rightarrow> view_pred" where
  "recorded rt key kind usage most parts y d ct k i \<longleftrightarrow>
     (\<exists>e \<in> range (rt_uuid rt). ex_output_persisted y \<and> ex_artifacts y = map (document (rt_hash rt) e STORED) parts
        \<and> documented rt e key kind True usage most parts d ct k i)"

lemma save_quiet:
  fixes c :: run_command
  assumes "quiet rt" and "identity_finite idn" and "key = generate_key (rt_hash rt) idn"
  shows "returns (view rt (minted rt key most e))
    (on_db (save (rt_db rt) (new_execution (run_hooks rt ps ms) c idn e IN_PROGRESS None None)))
    (\<lambda>_. view rt (inserted e key (rc_execution_kind c) most))"
proof -
  let ?x = "new_execution (run_hooks rt ps ms) c idn e IN_PROGRESS None None"
  have x: "ex_execution_id ?x = e" "ex_call_identity ?x = idn" "ex_execution_kind ?x = rc_execution_kind c"
    by (simp_all add: new_execution_def)
  have "de_digest (rt_db rt) = rt_hash rt" using assms(1) by (simp add: quiet_def)
  then have "\<exists>d'. save_body (rt_db rt) ?x n d = (Inr (), d') \<and> run_state d' e key (rc_execution_kind c) IN_PROGRESS False None []"
    if "minted rt key most e d ct k i" for n d ct k i
    using save_step [of d ?x key "rt_db rt" n] that assms unfolding x
    by (simp add: minted_def new_execution_def)
  then show ?thesis
    unfolding save_def
    by (intro write_quiet [OF assms(1)]) (fastforce simp: inserted_def minted_def)
qed

lemma run_and_record_quiet:
  assumes rt: "quiet rt" "keys_ok rt" and idn: "identity_finite idn" "key = generate_key (rt_hash rt) idn"
    and c: "stores_output (rc_persistence_depth c)"
    and inj: "inj_on (rt_hash rt) (parts_contents (recorded_parts c res))"
    and res: "client_returns rt c res" "succeeded res"
  shows "returns (view rt (recordable rt key most)) (run_and_record rt (run_hooks rt False ms) c idn key)
    (\<lambda>y. view rt (recorded rt key (rc_execution_kind c) (cr_token_usage res) (Suc most) (recorded_parts c res) y))"
proof -
  let ?hk = "run_hooks rt False ms" and ?kind = "rc_execution_kind c"
  let ?R = "\<lambda>y. view rt (recorded rt key ?kind (cr_token_usage res) (Suc most) (recorded_parts c res) y)"
  have healthy: "returns (view rt (recordable rt key most)) (storage_unhealthy rt ?hk c)
      (\<lambda>r w. \<not> r \<and> view rt (recordable rt key most) w)"
    unfolding storage_unhealthy_def
    by (intro returns_if returns_bind [OF healthy_quiet [OF rt(1)]] returns_ret) auto
  have mint: "returns (view rt (recordable rt key most)) (mint_id rt) (\<lambda>e. view rt (minted rt key most e))"
    by (rule mint_quiet) (auto simp: recordable_def minted_def)
  have store: "returns (view rt (minted rt key most e))
     (thenP (on_db (save (rt_db rt) (new_execution ?hk c idn e IN_PROGRESS None None)))
        (bindP (guarded_run_client rt ?hk c (new_execution ?hk c idn e IN_PROGRESS None None)) (\<lambda>result.
          if \<not> hk_should_persist ?hk c (succeeded result)
          then record_unstored rt ?hk c (new_execution ?hk c idn e IN_PROGRESS None None) key result
          else record_stored rt ?hk c (new_execution ?hk c idn e IN_PROGRESS None None) key result))) ?R" for e
  proof (rule returns_assume [where A = "e \<in> range (rt_uuid rt)"])
    assume e: "e \<in> range (rt_uuid rt)"
    then have keys: "\<And>v. blob_key_ok (e @ ''_'' @ rt_hash rt v)" "e \<noteq> []" using rt(2) by (auto simp: keys_ok_def)
    let ?x = "new_execution ?hk c idn e IN_PROGRESS None None"
    have id: "ex_execution_id ?x = e" by (simp add: new_execution_def)
    have client: "returns (view rt (inserted e key ?kind most)) (guarded_run_client rt ?hk c ?x)
        (\<lambda>r w. r = res \<and> view rt (inserted e key ?kind (Suc most)) w)"
      unfolding guarded_run_client_def
      by (rule returns_catch [OF client_quiet [OF res(1)]]) (simp add: inserted_def)
    have rec: "returns (\<lambda>w. r = res \<and> view rt (inserted e key ?kind (Suc most)) w)
        (if \<not> hk_should_persist ?hk c (succeeded r) then record_unstored rt ?hk c ?x key r
         else record_stored rt ?hk c ?x key r) ?R" for r
    proof (rule returns_assume [where A = "r = res"])
      assume r: "r = res"
      have "hk_should_persist ?hk c (succeeded r)" using c res(2) r by (simp add: should_persist_def)
      moreover have "returns (view rt (inserted e key ?kind (Suc most))) (record_stored rt ?hk c ?x key res) ?R"
        by (rule returns_post [OF record_stored_quiet [OF rt(1) keys inj res(2) id]])
          (unfold recorded_def view_def, rule bexI [OF _ e], blast)
      ultimately show "returns (\<lambda>w. r = res \<and> view rt (inserted e key ?kind (Suc most)) w)
        (if \<not> hk_should_persist ?hk c (succeeded r) then record_unstored rt ?hk c ?x key r
         else record_stored rt ?hk c ?x key r) ?R"
        unfolding r by (simp add: triple_def)
    qed simp
    show ?thesis
      by (rule returns_then [OF save_quiet [OF rt(1) idn]], rule returns_bind [OF client], rule rec)
  qed (simp add: view_def minted_def)
  show ?thesis
    unfolding run_and_record_def Let_def
    by (rule returns_bind [OF healthy], rule returns_if, rule returns_pre [OF returns_False], simp,
        rule returns_pre [OF returns_bind [OF mint store]], simp)
qed

section \<open>Replaying\<close>

definition loads_as ::
  "runtime \<Rightarrow> text_str \<Rightarrow> execution_kind \<Rightarrow> token_usage option \<Rightarrow> part list \<Rightarrow> ml_execution \<Rightarrow> bool" where
  "loads_as rt e kind usage parts x \<longleftrightarrow>
     ex_execution_state x = SUCCESS \<and> ex_execution_kind x = kind \<and> ex_token_usage x = usage
     \<and> (ex_input_persisted x \<longleftrightarrow> (\<exists>p \<in> set parts. fst p \<in> set INPUT_ARTIFACT_TYPES))
     \<and> list_all2 (part_artifact (rt_hash rt) e) (ex_artifacts x) parts"

definition replays :: "execution_kind \<Rightarrow> token_usage option \<Rightarrow> part list \<Rightarrow> ml_execution \<Rightarrow> bool" where
  "replays kind usage parts y \<longleftrightarrow>
     ex_execution_state y = SUCCESS \<and> ex_execution_kind y = kind \<and> ex_token_usage y = usage
     \<and> list_all2 (\<lambda>a (t, name, v). at_type a = t \<and> at_name a = name \<and> at_content a = Some v) (ex_artifacts y) parts"

lemma list_all2_part_types:
  "list_all2 (part_artifact h e) as parts \<Longrightarrow> (\<exists>a \<in> set as. at_type a \<in> T) = (\<exists>p \<in> set parts. fst p \<in> T)"
  by (induction rule: list_all2_induct) (auto simp: part_artifact_def)

lemma find_current_quiet:
  assumes "quiet rt" and "\<And>v. blob_key_ok (e @ ''_'' @ rt_hash rt v)" and "e \<noteq> []"
  shows "returns (view rt (documented rt e key kind True usage most parts)) (on_db (find_current (rt_db rt) key))
    (\<lambda>r w. \<exists>x. r = Some x \<and> loads_as rt e kind usage parts x \<and> view rt (documented rt e key kind True usage most parts) w)"
proof -
  have "returns (view rt (documented rt e key kind True usage most parts)) (on_db (find_current (rt_db rt) key))
     (\<lambda>r. view rt (\<lambda>d ct k i. (\<exists>x. r = Some x \<and> loads_as rt e kind usage parts x)
        \<and> documented rt e key kind True usage most parts d ct k i))"
    unfolding find_current_def
  proof (rule read_quiet [OF assms(1)])
    fix n d ct k i assume d: "documented rt e key kind True usage most parts d ct k i"
    then obtain r idn as where r: "current_row d key = Some r" and load: "\<forall>n. load_execution (rt_db rt) n d r =
     Inr \<lparr>ex_call_identity = idn, ex_execution_state = SUCCESS, ex_execution_kind = kind, ex_output_persisted = True,
          ex_execution_id = e, ex_input_persisted = (\<exists>a \<in> set as. at_type a \<in> set INPUT_ARTIFACT_TYPES),
          ex_artifacts = as, ex_token_usage = usage, ex_failure = None, ex_superseded_at = None\<rparr>"
      and as: "list_all2 (part_artifact (rt_hash rt) e) as parts"
      using documented_current [OF _ assms(2,3)] by blast
    from r load d list_all2_part_types [OF as] as
    show "\<exists>a. (case current_row d key of None \<Rightarrow> Inr None
         | Some r \<Rightarrow> (case load_execution (rt_db rt) n d r of Inl e \<Rightarrow> Inl e | Inr x \<Rightarrow> Inr (Some x))) = Inr a
        \<and> (\<exists>x. a = Some x \<and> loads_as rt e kind usage parts x) \<and> documented rt e key kind True usage most parts d ct k i"
      by (simp add: loads_as_def)
  qed
  then show ?thesis by (rule returns_post) (auto simp: view_def)
qed

lemma find_current_none:
  assumes "quiet rt"
  shows "returns (view rt (\<lambda>d ct k i. I d ct k i \<and> current_row d key = None)) (on_db (find_current (rt_db rt) key))
    (\<lambda>r w. r = None \<and> view rt I w)"
proof -
  have "returns (view rt (\<lambda>d ct k i. I d ct k i \<and> current_row d key = None)) (on_db (find_current (rt_db rt) key))
     (\<lambda>r. view rt (\<lambda>d ct k i. r = None \<and> I d ct k i))"
    unfolding find_current_def by (rule read_quiet [OF assms]) auto
  then show ?thesis by (rule returns_post) (simp add: view_def)
qed

lemma hydrate_quiet:
  assumes rt: "quiet rt" and keys: "\<And>v. blob_key_ok (e @ ''_'' @ rt_hash rt v)"
    and x: "loads_as rt e kind usage parts x"
    and I: "\<And>d ct k i. I d ct k i \<Longrightarrow> content_held (rt_hash rt) e parts ct"
  shows "returns (view rt I) (hydrate rt x) (\<lambda>y w. replays kind usage parts y \<and> view rt I w)"
proof -
  have one: "returns (view rt I) (hydrate_artifact rt a) (\<lambda>b w. b = a\<lparr>at_content := Some v\<rparr> \<and> view rt I w)"
    if p: "part_artifact (rt_hash rt) e a (t, name, v)" and "(t, name, v) \<in> set parts" for a t name v
  proof -
    have bk: "at_blob_key a = e @ ''_'' @ rt_hash rt v" using p by (simp add: part_artifact_def)
    have get: "returns (view rt I) (on_blobs (store_get (rt_blob rt) (rt_store rt) (at_blob_key a)))
        (\<lambda>r w. r = Some v \<and> view rt I w)"
      unfolding bk by (rule get_quiet [OF rt keys]) (use I that(2) in \<open>force simp: content_held_def\<close>)
    show ?thesis unfolding hydrate_artifact_def
      by (rule returns_bind [OF get]) (auto simp: triple_def)
  qed
  have "returns (view rt I) (mapP (hydrate_artifact rt) as)
      (\<lambda>bs w. list_all2 (\<lambda>a (t, name, v). at_type a = t \<and> at_name a = name \<and> at_content a = Some v) bs ps \<and> view rt I w)"
    if "list_all2 (part_artifact (rt_hash rt) e) as ps" and "set ps \<subseteq> set parts" for as ps
    using that
  proof (induction as ps rule: list_all2_induct)
    case Nil
    show ?case unfolding mapP.simps by (rule returns_ret) simp
  next
    case (Cons a as p ps)
    obtain t name v where p: "p = (t, name, v)" by (cases p)
    have IH: "returns (view rt I) (mapP (hydrate_artifact rt) as)
      (\<lambda>bs w. list_all2 (\<lambda>a (t, name, v). at_type a = t \<and> at_name a = name \<and> at_content a = Some v) bs ps \<and> view rt I w)"
      using Cons by simp
    have a: "at_type a = t" "at_name a = name" using Cons.hyps(1) p by (simp_all add: part_artifact_def)
    have hyd: "returns (view rt I) (hydrate_artifact rt a) (\<lambda>b w. b = a\<lparr>at_content := Some v\<rparr> \<and> view rt I w)"
      using one Cons.hyps(1) Cons.prems p by simp
    have rest: "returns (\<lambda>w. b = a\<lparr>at_content := Some v\<rparr> \<and> view rt I w)
        (bindP (mapP (hydrate_artifact rt) as) (\<lambda>ys. ret (b # ys)))
        (\<lambda>bs w. list_all2 (\<lambda>a (t, name, v). at_type a = t \<and> at_name a = name \<and> at_content a = Some v) bs ((t, name, v) # ps)
           \<and> view rt I w)" for b
    proof (rule returns_assume [where A = "b = a\<lparr>at_content := Some v\<rparr>"])
      assume b: "b = a\<lparr>at_content := Some v\<rparr>"
      show ?thesis by (rule returns_bind [OF returns_pre [OF IH]], simp, rule returns_ret) (simp add: a b)
    qed simp
    show ?case unfolding mapP.simps p by (rule returns_bind [OF hyd rest])
  qed
  then have arts: "returns (view rt I) (mapP (hydrate_artifact rt) (ex_artifacts x))
      (\<lambda>bs w. list_all2 (\<lambda>a (t, name, v). at_type a = t \<and> at_name a = name \<and> at_content a = Some v) bs parts \<and> view rt I w)"
    using x by (simp add: loads_as_def)
  show ?thesis unfolding hydrate_def
    by (rule returns_bind [OF arts], rule returns_ret) (use x in \<open>simp add: replays_def loads_as_def\<close>)
qed

text \<open>A hit: the entry is hydrated, the journal and the tags are written, no input is missing.\<close>

lemma serve_hit_quiet:
  fixes c :: run_command
  assumes rt: "quiet rt" and keys: "\<And>v. blob_key_ok (e @ ''_'' @ rt_hash rt v)" "e \<noteq> []"
    and x: "loads_as rt e kind usage parts x"
    and input: "stores_input (rc_persistence_depth c) \<Longrightarrow> \<exists>p \<in> set parts. fst p \<in> set INPUT_ARTIFACT_TYPES"
  shows "returns (view rt (documented rt e key kind True usage most parts)) (serve_hit rt (run_hooks rt ps ms) c key x)
    (\<lambda>y w. replays kind usage parts y \<and> view rt (documented rt e key kind True usage most parts) w)"
proof -
  let ?V = "view rt (documented rt e key kind True usage most parts)"
  have hyd: "returns ?V (hydrate rt x) (\<lambda>y w. replays kind usage parts y \<and> ?V w)"
    by (rule hydrate_quiet [OF rt keys(1) x]) (simp add: documented_def)
  have acc: "accumulate_input rt (run_hooks rt ps ms) c key x = ret ()"
    using input x by (auto simp: accumulate_input_def loads_as_def)
  have rest: "returns (\<lambda>w. replays kind usage parts y \<and> ?V w)
      (thenP (journal rt (run_hooks rt ps ms) EV_HIT key c) (thenP (apply_tags rt (run_hooks rt ps ms) key c) (thenP (ret ()) (ret y))))
      (\<lambda>y w. replays kind usage parts y \<and> ?V w)" for y
  proof (rule returns_assume [where A = "replays kind usage parts y"])
    assume y: "replays kind usage parts y"
    show ?thesis
      by (rule returns_pre [OF returns_then [OF journal_quiet [OF rt] returns_then [OF apply_tags_documented [OF rt keys]]]],
          rule returns_then [OF returns_ret], assumption, rule returns_ret) (simp_all add: y)
  qed simp
  show ?thesis unfolding serve_hit_def acc by (rule returns_bind [OF hyd rest])
qed

lemma serve_current_quiet:
  fixes c :: run_command
  assumes rt: "quiet rt" and keys: "\<And>v. blob_key_ok (e @ ''_'' @ rt_hash rt v)" "e \<noteq> []"
    and input: "stores_input (rc_persistence_depth c) \<Longrightarrow> \<exists>p \<in> set parts. fst p \<in> set INPUT_ARTIFACT_TYPES"
  shows "returns (view rt (documented rt e key kind True usage most parts))
    (serve_current_if_healthy rt (run_hooks rt ps ms) c key)
    (\<lambda>r w. \<exists>y. r = Some y \<and> replays kind usage parts y \<and> view rt (documented rt e key kind True usage most parts) w)"
    and "returns (view rt (documented rt e key kind True usage most parts)) (serve_offline rt (run_hooks rt ps ms) c key)
    (\<lambda>y w. replays kind usage parts y \<and> view rt (documented rt e key kind True usage most parts) w)"
proof -
  let ?V = "view rt (documented rt e key kind True usage most parts)" and ?hk = "run_hooks rt ps ms"
  let ?Q = "\<lambda>r w. \<exists>y. r = Some y \<and> replays kind usage parts y \<and> ?V w"
  note find = find_current_quiet [OF rt keys, where kind = kind and usage = usage and most = most and parts = parts and key = key]
  have hit: "returns (\<lambda>w. \<exists>x. r = Some x \<and> loads_as rt e kind usage parts x \<and> ?V w)
     (case r of None \<Rightarrow> ret None | Some x \<Rightarrow> bindP (serve_hit rt ?hk c key x) (\<lambda>y. ret (Some y))) ?Q" for r
  proof (cases r)
    case None
    then show ?thesis by (simp add: triple_def)
  next
    case (Some x)
    show ?thesis
    proof (rule returns_assume [where A = "loads_as rt e kind usage parts x"])
      assume x: "loads_as rt e kind usage parts x"
      have "returns ?V (bindP (serve_hit rt ?hk c key x) (\<lambda>y. ret (Some y))) ?Q"
        by (rule returns_bind [OF serve_hit_quiet [OF rt keys x input]], assumption, rule returns_ret) simp
      then show "returns (\<lambda>w. \<exists>x. r = Some x \<and> loads_as rt e kind usage parts x \<and> ?V w)
          (case r of None \<Rightarrow> ret None | Some x \<Rightarrow> bindP (serve_hit rt ?hk c key x) (\<lambda>y. ret (Some y))) ?Q"
        using Some by (auto simp: triple_def)
    qed (use Some in auto)
  qed
  have hit': "returns (\<lambda>w. \<exists>x. r = Some x \<and> loads_as rt e kind usage parts x \<and> ?V w)
     (case r of None \<Rightarrow> ret None | Some x \<Rightarrow> catchP (bindP (serve_hit rt ?hk c key x) (\<lambda>y. ret (Some y)))
         (\<lambda>e. if corrupt e then thenP (remove_execution_and_blobs rt x) (ret None) else raise e)) ?Q" for r
    using returns_catch [OF hit [of r]] hit [of r] by (cases r) auto
  show "returns ?V (serve_current_if_healthy rt ?hk c key) ?Q"
    unfolding serve_current_if_healthy_def by (rule returns_bind [OF returns_catch [OF find] hit'])
  have finish: "returns (\<lambda>w. \<exists>y. r = Some y \<and> replays kind usage parts y \<and> ?V w)
     (case r of None \<Rightarrow> offline_miss rt ?hk c key ''no stored execution'' | Some y \<Rightarrow> ret y)
     (\<lambda>y w. replays kind usage parts y \<and> ?V w)" for r
    by (cases r) (auto simp: triple_def)
  show "returns ?V (serve_offline rt ?hk c key) (\<lambda>y w. replays kind usage parts y \<and> ?V w)"
    unfolding serve_offline_def
    by (rule returns_bind [OF returns_catch [OF returns_bind [OF find hit]] finish])
qed

section \<open>The whole resolution\<close>

lemma bindP_liftE: "bindP (liftE r) f = (case r of Inl e \<Rightarrow> liftE (Inl e) | Inr a \<Rightarrow> f a)"
  by (cases r) (simp_all add: bindP_def fun_eq_iff)

lemma fingerprint_files_pure: "\<exists>r. fingerprint_files (\<lambda>p. liftE (f p)) ps acc = liftE r"
proof (induction ps arbitrary: acc)
  case Nil
  show ?case by (intro exI [of _ "Inr acc"]) (simp del: liftE_run)
next
  case (Cons p ps)
  show ?case
  proof (cases "f p")
    case (Inl e)
    then show ?thesis by (intro exI [of _ "Inl e"]) (simp add: bindP_liftE del: liftE_run ret_run)
  next
    case (Inr v)
    with Cons.IH [of "dict_set p v acc"] show ?thesis by (simp add: bindP_liftE del: liftE_run ret_run)
  qed
qed

lemma build_identity_pure: "\<exists>r. build_identity rt c = liftE r"
proof (cases "rc_execution_kind c")
  case LOCAL_MANAGED
  obtain r where r: "fingerprint_files (\<lambda>p. liftE (rt_fingerprint rt p) :: (world, text_str) prog) (ki_input_file_paths c) [] = liftE r"
    using fingerprint_files_pure by blast
  show ?thesis
  proof (cases r)
    case (Inl e)
    with r LOCAL_MANAGED show ?thesis
      by (intro exI [of _ "Inl e"])
        (simp add: build_identity_def build_call_identity_def bindP_liftE del: liftE_run ret_run)
  next
    case (Inr fps)
    with r LOCAL_MANAGED show ?thesis
      by (intro exI [of _ "Inr (ManagedCallIdentity (from_keyed_inputs (rt_hash rt) c fps))"])
        (simp add: build_identity_def build_call_identity_def bindP_liftE del: liftE_run ret_run)
  qed
qed (simp_all add: build_identity_def liftE_Inr [symmetric] del: liftE_run liftE_Inr ret_run, blast+)

text \<open>The identity a command has, whatever the state.\<close>

definition has_call_identity :: "runtime \<Rightarrow> run_command \<Rightarrow> call_identity \<Rightarrow> bool" where
  "has_call_identity rt c idn \<longleftrightarrow> build_identity rt c = ret idn"

lemma ensure_available: "serves_content st \<Longrightarrow> ensure_available_for_content st = Inr ()"
  by (cases st) auto

lemma execute_record_quiet:
  assumes rt: "quiet rt" "keys_ok rt" and idn: "has_call_identity rt c idn" "identity_finite idn" "key = generate_key (rt_hash rt) idn"
    and c: "\<not> is_uncacheable c" "stores_output (rc_persistence_depth c)" "rc_cache_mode c \<noteq> MODE_OFFLINE"
    and inj: "inj_on (rt_hash rt) (parts_contents (recorded_parts c res))"
    and res: "client_returns rt c res" "succeeded res"
  shows "returns (view rt (\<lambda>d ct k i. recordable rt key most d ct k i \<and> (rc_cache_mode c = MODE_CACHE \<longrightarrow> current_row d key = None)))
    (run_execute rt False ms c)
    (\<lambda>y. view rt (recorded rt key (rc_execution_kind c) (cr_token_usage res) (Suc most) (recorded_parts c res) y))"
proof -
  let ?hk = "run_hooks rt False ms"
  let ?I = "\<lambda>d ct k i. recordable rt key most d ct k i \<and> (rc_cache_mode c = MODE_CACHE \<longrightarrow> current_row d key = None)"
  let ?R = "\<lambda>y. view rt (recorded rt key (rc_execution_kind c) (cr_token_usage res) (Suc most) (recorded_parts c res) y)"
  let ?S = "if hk_cache_mode ?hk c = MODE_CACHE then serve_current_if_healthy rt ?hk c key else ret None"
  have none: "returns (view rt ?I) (serve_current_if_healthy rt ?hk c key) (\<lambda>r w. r = None \<and> view rt ?I w)"
    if "rc_cache_mode c = MODE_CACHE"
    unfolding serve_current_if_healthy_def
    by (rule returns_bind [OF returns_catch [OF returns_pre [OF find_current_none [OF rt(1), of ?I key]]]])
      (auto simp: view_def that triple_def)
  have serve: "returns (view rt ?I) ?S (\<lambda>r w. r = None \<and> view rt ?I w)"
    unfolding run_hooks_simps by (intro returns_if none returns_ret) simp_all
  have fresh: "returns (view rt ?I) (run_and_record rt ?hk c idn key)
     (\<lambda>y. ?R y)"
    by (rule returns_pre [OF run_and_record_quiet [OF rt idn(2,3) c(2) inj res]]) (simp add: view_def)
  have case_none: "returns (\<lambda>w. r = None \<and> view rt ?I w) (case r of Some y \<Rightarrow> ret y | None \<Rightarrow> m) Q"
    if "returns (view rt ?I) m Q" for r :: "ml_execution option" and m :: "(world, ml_execution) prog" and Q
    using that by (cases r) (auto simp: triple_def)
  have locked: "returns (view rt ?I) (with_key_lock rt key (bindP ?S (\<lambda>r. case r of Some y \<Rightarrow> ret y | None \<Rightarrow> run_and_record rt ?hk c idn key)))
     (\<lambda>y. ?R y)"
    by (rule key_lock_quiet [OF rt(1)], rule returns_bind [OF serve], rule case_none, rule fresh)
  have miss: "returns (view rt ?I) (bindP ?S (\<lambda>r. case r of Some y \<Rightarrow> ret y | None \<Rightarrow> run_fresh rt ?hk c idn key True)) ?R"
    unfolding run_fresh_def run_fresh_locked_def if_True
    by (rule returns_bind [OF serve], rule case_none, rule locked)
  show ?thesis
    unfolding run_execute_def execute_def run_hooks_simps idn(1)[unfolded has_call_identity_def] bindP_ret Let_def idn(3) [symmetric]
    using miss c rt(1) by (simp add: ensure_available quiet_def thenP_def)
qed

lemma execute_replay_quiet:
  assumes rt: "quiet rt" and keys: "\<And>v. blob_key_ok (e @ ''_'' @ rt_hash rt v)" "e \<noteq> []"
    and idn: "has_call_identity rt c idn" "key = generate_key (rt_hash rt) idn"
    and c: "\<not> is_uncacheable c" "stores_output (rc_persistence_depth c)" "rc_cache_mode c \<noteq> MODE_REFRESH"
    and input: "stores_input (rc_persistence_depth c) \<Longrightarrow> \<exists>p \<in> set parts. fst p \<in> set INPUT_ARTIFACT_TYPES"
  shows "returns (view rt (documented rt e key kind True usage most parts)) (run_execute rt ps ms c)
    (\<lambda>y w. replays kind usage parts y \<and> view rt (documented rt e key kind True usage most parts) w)"
proof -
  let ?V = "view rt (documented rt e key kind True usage most parts)" and ?hk = "run_hooks rt ps ms"
  let ?Q = "\<lambda>y w. replays kind usage parts y \<and> ?V w"
  have served: "returns (\<lambda>w. \<exists>y. r = Some y \<and> ?Q y w) (case r of Some y \<Rightarrow> ret y | None \<Rightarrow> m) ?Q"
    for r :: "ml_execution option" and m
    by (cases r) (auto simp: triple_def)
  have hit: "returns ?V (bindP (serve_current_if_healthy rt ?hk c key) (\<lambda>r. case r of Some y \<Rightarrow> ret y | None \<Rightarrow> m)) ?Q" for m
    by (rule returns_bind [OF serve_current_quiet(1) [OF rt keys input] served])
  have offline: "returns ?V (serve_offline rt ?hk c key) ?Q"
    by (rule serve_current_quiet(2) [OF rt keys input])
  show ?thesis
    unfolding run_execute_def execute_def run_hooks_simps idn(1)[unfolded has_call_identity_def] bindP_ret Let_def idn(2) [symmetric]
    using hit offline c rt by (cases "rc_cache_mode c") (simp_all add: ensure_available quiet_def thenP_def)
qed

section \<open>The properties\<close>

text \<open>
  What the recorded inputs are: at the depth that stores inputs every kind has some, so a replay
  at the same depth has nothing to add.
\<close>

lemma input_parts_types: "\<exists>p \<in> set (input_parts c). fst p \<in> set INPUT_ARTIFACT_TYPES"
  by (cases "rc_execution_kind c") (auto simp: input_parts_def INPUT_ARTIFACT_TYPES_def split: option.splits)

text \<open>A command a recording of \<open>c\<close> answers: the same call, replayed no deeper than it was recorded.\<close>

definition answers :: "runtime \<Rightarrow> call_identity \<Rightarrow> run_command \<Rightarrow> run_command \<Rightarrow> bool" where
  "answers rt idn c c' \<longleftrightarrow>
     has_call_identity rt c' idn \<and> \<not> is_uncacheable c'
     \<and> stores_output (rc_persistence_depth c') \<and> rc_persistence_depth c' \<le> rc_persistence_depth c
     \<and> rc_cache_mode c' \<noteq> MODE_REFRESH"

definition recordable_in :: "runtime \<Rightarrow> call_identity \<Rightarrow> run_command \<Rightarrow> world \<Rightarrow> bool" where
  "recordable_in rt idn c w \<longleftrightarrow>
     tables_ok (w_tables w)
     \<and> Some (rt_uuid rt (w_minted w)) \<notin> er_execution_id ` set (db_executions (w_tables w))
     \<and> (let key = generate_key (rt_hash rt) idn
        in (has_identity key (w_tables w) \<longrightarrow> readable_identity (w_tables w) key)
           \<and> (rc_cache_mode c = MODE_CACHE \<longrightarrow> current_row (w_tables w) key = None))"


section \<open>A concrete recording\<close>

lemma length_dec_str: "n < 10 ^ Suc k \<Longrightarrow> length (dec_str n) \<le> Suc k"
proof (induction k arbitrary: n)
  case 0
  then show ?case by (subst dec_str.simps) simp
next
  case (Suc k)
  show ?case
  proof (cases "n < 10")
    case True
    then show ?thesis by (subst dec_str.simps) simp
  next
    case False
    have "n div 10 < 10 ^ Suc k" using Suc.prems by (simp add: less_mult_imp_div_less)
    with Suc.IH False show ?thesis by (subst dec_str.simps) simp
  qed
qed

lemma dec_str_blob_chars: "c \<in> set (dec_str n) \<Longrightarrow> blob_key_char c"
proof -
  assume "c \<in> set (dec_str n)"
  then have "48 \<le> (of_char c :: nat)" "(of_char c :: nat) < 58" using dec_str_digits by auto
  then have mem: "of_char c \<in> set [48 ..< 58 :: nat]" unfolding set_upt atLeastLessThan_iff by blast
  have "list_all (\<lambda>n. blob_key_char (char_of n)) [48 ..< 58 :: nat]" by code_simp
  with mem have "blob_key_char (char_of (of_char c :: nat))" unfolding list_all_iff by blast
  then show "blob_key_char c" by simp
qed

lemma sample_keys_ok: "keys_ok sample_runtime"
proof -
  have "blob_key_ok ((''u'' @ dec_str (i mod 1000)) @ ''_'' @ ''d'' @ dec_str m)" if "m < 65521" for i m :: nat
  proof -
    have "length (dec_str (i mod 1000)) \<le> Suc 2" "length (dec_str m) \<le> Suc 4"
      by (rule length_dec_str, use that in simp)+
    moreover have "list_all blob_key_char (dec_str n)" for n
      using dec_str_blob_chars by (simp add: list_all_iff)
    moreover have "blob_key_char (CHR ''u'')" "blob_key_char (CHR ''_'')" "blob_key_char (CHR ''d'')"
      by (simp_all add: blob_key_char_def)
    ultimately show ?thesis by (simp add: blob_key_ok_def)
  qed
  moreover have "foldl (\<lambda>n c. (31 * n + of_char c) mod 65521) (7 :: nat) v < 65521" for v :: string
    by (induction v rule: rev_induct) auto
  ultimately show ?thesis by (simp add: keys_ok_def sample_runtime_def sample_digest_def)
qed

lemma sample_quiet: "quiet sample_runtime"
  using sample_blob_env_ok by (simp add: quiet_def sample_runtime_def)

definition sample_result :: client_run_result where
  "sample_result = package_answer sample_answer []"

definition sample_identity :: call_identity where
  "sample_identity = PassthroughCallIdentity \<lparr>pi_client = ''claude'',
     pi_native_args_fingerprint = fingerprint_arguments sample_digest [''-p'', ''hi'']\<rparr>"

lemma sample_client: "client_returns sample_runtime sample_command sample_result"
  unfolding client_returns_def
  by (simp add: run_client_def sample_runtime_def sample_command_def run_passthrough_def client_call_def
      next_call_def bindP_def sample_result_def)

lemma sample_call_identity: "has_call_identity sample_runtime (sample_command\<lparr>rc_cache_mode := m\<rparr>) sample_identity"
  by (simp add: has_call_identity_def build_identity_def sample_command_def sample_identity_def sample_runtime_def)

lemma sample_recordable: "recordable_in sample_runtime sample_identity sample_command sample_world"
  using sample_tables
  by (simp add: recordable_in_def has_identity_def current_row_def key_rows_def last_opt_def Let_def sample_world_def
      w_tables_def empty_db_def)


end
