(* ===== verification/Repository_Refinement.thy ===== *)
theory Repository_Refinement
  imports Row_Lifecycle
begin

text \<open>
  What the repository promises: a partial map from execution keys to their servable execution. The
  abstraction \<open>served\<close> reads it off the tables, and every write of the repository refines its
  one-line abstract counterpart \<open>served_step\<close>, on tables that satisfy the invariant.
\<close>

section \<open>The abstraction\<close>

definition served :: "db \<Rightarrow> text_str \<Rightarrow> nat option" where
  "served d key = map_option er_id (current_row d key)"

lemma served_iff:
  assumes "tables_ok d"
  shows "served d key = Some i \<longleftrightarrow> (\<exists>r \<in> set (db_executions d). row_current r \<and> er_key r = key \<and> er_id r = i)"
proof
  assume "served d key = Some i"
  then show "\<exists>r \<in> set (db_executions d). row_current r \<and> er_key r = key \<and> er_id r = i"
    using current_row_in by (auto simp: served_def)
next
  assume "\<exists>r \<in> set (db_executions d). row_current r \<and> er_key r = key \<and> er_id r = i"
  then show "served d key = Some i"
    using current_row_unique [OF tables_okD(2) [OF assms]] by (auto simp: served_def)
qed

text \<open>The current rows as pairs of key and row id: the graph of the map.\<close>

definition current_pairs :: "exec_row list \<Rightarrow> (text_str \<times> nat) set" where
  "current_pairs rows = {(er_key r, er_id r) | r. r \<in> set rows \<and> row_current r}"

lemma served_pairs: "tables_ok d \<Longrightarrow> served d key = Some i \<longleftrightarrow> (key, i) \<in> current_pairs (db_executions d)"
  by (auto simp: served_iff current_pairs_def)

lemma current_pairs_functional: "tables_ok d \<Longrightarrow> (k, i) \<in> current_pairs (db_executions d) \<Longrightarrow>
    (k, j) \<in> current_pairs (db_executions d) \<Longrightarrow> i = j"
  by (metis option.inject served_pairs)

section \<open>Operations\<close>

datatype repo_op =
    Op_Save ml_execution
  | Op_Record_Outcome ml_execution
  | Op_Persist_Artifact text_str artifact
  | Op_Mark_Stored text_str text_str
  | Op_Mark_Failed text_str text_str text_str
  | Op_Finalize text_str
  | Op_Remove text_str
  | Op_Add_Tags text_str "text_str list"
  | Op_Add_Input text_str "artifact list"
  | Op_Soft_Purge text_str
  | Op_Hard_Delete text_str

fun repo_call :: "db_env \<Rightarrow> repo_op \<Rightarrow> (db_store, unit) prog" where
  "repo_call E (Op_Save x) = save E x"
| "repo_call E (Op_Record_Outcome x) = record_outcome E x"
| "repo_call E (Op_Persist_Artifact e a) = persist_artifact E e a"
| "repo_call E (Op_Mark_Stored e k) = mark_artifacts_stored E e k"
| "repo_call E (Op_Mark_Failed e k t) = mark_artifacts_failed E e k t"
| "repo_call E (Op_Finalize e) = finalize_output_persisted E e"
| "repo_call E (Op_Remove e) = remove_execution E e"
| "repo_call E (Op_Add_Tags key tags) = add_tags E key tags"
| "repo_call E (Op_Add_Input key as) = add_input_artifacts E key as"
| "repo_call E (Op_Soft_Purge key) = soft_purge_execution E key"
| "repo_call E (Op_Hard_Delete key) = hard_delete_execution E key"

text \<open>The abstract operations on the map; \<open>d\<close> gives the row an execution id names.\<close>

fun served_step :: "db_env \<Rightarrow> repo_op \<Rightarrow> db \<Rightarrow> (text_str \<Rightarrow> nat option) \<Rightarrow> text_str \<Rightarrow> nat option" where
  "served_step E (Op_Save x) d m =
     (if is_servable x
      then m(generate_key (de_digest E) (ex_call_identity x) \<mapsto> fresh_id (map er_id (db_executions d))) else m)"
| "served_step E (Op_Finalize e) d m =
     (case find_row d e of
        None \<Rightarrow> m
      | Some r \<Rightarrow>
          if er_state r = state_value SUCCESS
          then m(er_key r := if er_superseded_at r = None \<and> \<not> er_output_persisted r then Some (er_id r) else None)
          else m)"
| "served_step E (Op_Remove e) d m =
     (case find_row d e of None \<Rightarrow> m | Some r \<Rightarrow> if m (er_key r) = Some (er_id r) then m(er_key r := None) else m)"
| "served_step E (Op_Soft_Purge key) d m = m(key := None)"
| "served_step E (Op_Hard_Delete key) d m = m(key := None)"
| "served_step E _ d m = m"

text \<open>The outcome is recorded on a row that is not persisted yet, as its callers do.\<close>

fun op_guard :: "repo_op \<Rightarrow> db \<Rightarrow> bool" where
  "op_guard (Op_Record_Outcome x) d \<longleftrightarrow> row_unpersisted (ex_execution_id x) d"
| "op_guard _ d \<longleftrightarrow> True"

fun op_body :: "db_env \<Rightarrow> repo_op \<Rightarrow> nat \<Rightarrow> (db, unit) prog" where
  "op_body E (Op_Save x) n = save_body E x n"
| "op_body E (Op_Record_Outcome x) n = record_outcome_body x"
| "op_body E (Op_Persist_Artifact e a) n = persist_artifact_body e a"
| "op_body E (Op_Mark_Stored e k) n = update_artifacts e k
     (\<lambda>a. a\<lparr>af_status := status_value STORED, af_persisted_at := Some (de_now E n), af_status_detail := None\<rparr>)"
| "op_body E (Op_Mark_Failed e k t) n = update_artifacts e k
     (\<lambda>a. a\<lparr>af_status := status_value ARTIFACT_FAILED, af_status_detail := Some t\<rparr>)"
| "op_body E (Op_Finalize e) n = finalize_body E e n"
| "op_body E (Op_Remove e) n = remove_execution_body e"
| "op_body E (Op_Add_Tags key tags) n = (if tags = [] then ret () else add_tags_body key tags)"
| "op_body E (Op_Add_Input key as) n = (if as = [] then ret () else add_input_artifacts_body key as)"
| "op_body E (Op_Soft_Purge key) n = soft_purge_body key"
| "op_body E (Op_Hard_Delete key) n = hard_delete_body key"

text \<open>A transaction either commits its body or leaves the tables as they were.\<close>

lemma write_transaction_outcome:
  assumes "write_transaction E body s = (r, s')"
  shows "(\<exists>a. body (ds_ops s) (ds_db s) = (Inr a, ds_db s')) \<or> ds_db s' = ds_db s \<and> (\<exists>e. r = Inl e)"
  using assms by (auto simp: write_transaction_def Let_def split: option.splits db_fault.splits prod.splits sum.splits if_splits)

lemma repo_call_outcome:
  assumes "repo_call E op s = (r, s')"
  shows "op_body E op (ds_ops s) (ds_db s) = (Inr (), ds_db s') \<or> ds_db s' = ds_db s \<and> (\<exists>e. r = Inl e)"
  using assms
  by (cases op)
    (auto simp: save_def record_outcome_def persist_artifact_def mark_artifacts_stored_def mark_artifacts_failed_def
      finalize_output_persisted_def remove_execution_def add_tags_def add_input_artifacts_def soft_purge_execution_def
      hard_delete_execution_def dest!: write_transaction_outcome split: if_splits)

section \<open>Each operation on the current rows\<close>

lemma pairs_member: "(k, i) \<in> current_pairs rows \<longleftrightarrow> (\<exists>r \<in> set rows. row_current r \<and> er_key r = k \<and> er_id r = i)"
  by (auto simp: current_pairs_def)

lemma pairs_update:
  assumes "keeps_columns f"
  shows "(k, i) \<in> current_pairs (map (\<lambda>r. if P r then f r else r) rows)
     \<longleftrightarrow> (\<exists>r \<in> set rows. er_key r = k \<and> er_id r = i \<and> row_current (if P r then f r else r))"
proof -
  have "er_key (if P r then f r else r) = er_key r" "er_id (if P r then f r else r) = er_id r" for r
    using assms by (simp_all add: keeps_columns_def)
  then show ?thesis unfolding pairs_member set_map bex_simps by metis
qed

lemma pairs_same:
  "tables_ok d \<Longrightarrow> tables_ok d' \<Longrightarrow> current_pairs (db_executions d') = current_pairs (db_executions d) \<Longrightarrow> served d' = served d"
proof
  fix k assume t: "tables_ok d" "tables_ok d'" "current_pairs (db_executions d') = current_pairs (db_executions d)"
  show "served d' k = served d k"
    using served_pairs [OF t(1), of k] served_pairs [OF t(2), of k] t(3) by (metis not_Some_eq)
qed

lemma served_executions: "db_executions d' = db_executions d \<Longrightarrow> served d' = served d"
  by (simp add: fun_eq_iff served_def current_row_def key_rows_def)

lemma pairs_put:
  assumes "tables_ok d" and "tables_ok d'"
    and "\<And>k i. (k, i) \<in> current_pairs (db_executions d') \<longleftrightarrow>
      (if k = key then v = Some i else (k, i) \<in> current_pairs (db_executions d))"
  shows "served d' = (served d)(key := v)"
proof
  fix k
  have "served d' k = Some i \<longleftrightarrow> ((served d)(key := v)) k = Some i" for i
    using served_pairs [OF assms(1), of k i] served_pairs [OF assms(2), of k i] assms(3) [of k i] by simp
  then show "served d' k = ((served d)(key := v)) k" by (metis not_Some_eq)
qed

text \<open>The rows after each write.\<close>

definition superseding :: "text_str \<Rightarrow> text_str \<Rightarrow> exec_row list \<Rightarrow> exec_row list" where
  "superseding key t rows =
     map (\<lambda>r. if er_key r = key \<and> row_current r then r\<lparr>er_superseded_at := Some t\<rparr> else r) rows"

lemma commits_rows: "steps (keeping db_executions) m \<Longrightarrow> commits (\<lambda>d. db_executions d = rows) m (\<lambda>_ d. db_executions d = rows)"
  unfolding steps_def keeping_def by (rule commits_snd) metis

lemma save_body_rows:
  fixes E x n
  defines "key \<equiv> generate_key (de_digest E) (ex_call_identity x)"
  defines "base \<equiv> \<lambda>rows. if is_servable x then superseding key (de_now E n) rows else rows"
  shows "commits (\<lambda>d. db_executions d = rows) (save_body E x n)
     (\<lambda>_ d. db_executions d = base rows @ [execution_row (fresh_id (map er_id (base rows))) key x (de_now E n)])"
proof -
  have sup: "commits (\<lambda>d. db_executions d = rows) (whenP (is_servable x) (supersede_prior_current key (de_now E n)))
      (\<lambda>_ d. db_executions d = base rows)"
    by (cases "is_servable x") (simp_all add: triple_def supersede_prior_current_def update_executions_def base_def superseding_def)
  have ins: "commits (\<lambda>d. db_executions d = base rows) (insert_execution key x (de_now E n))
      (\<lambda>_ d. db_executions d = base rows @ [execution_row (fresh_id (map er_id (base rows))) key x (de_now E n)])"
    by (auto simp: triple_def insert_execution_run)
  have up: "commits (\<lambda>d. db_executions d = rows) (upsert_identity key (ex_call_identity x)) (\<lambda>_ d. db_executions d = rows)"
    by (intro commits_rows keeping_statements)
  show ?thesis
    unfolding save_body_def Let_def key_def [symmetric]
    by (rule triple_then [OF up], rule triple_then [OF sup], rule triple_bind [OF ins])
      (intro commits_rows steps_rules keeping_statements preorder_keeping)
qed

lemma superseding_ids [simp]: "map er_id (superseding key t rows) = map er_id rows"
  by (auto simp: superseding_def)

lemma superseding_pairs: "(k, i) \<in> current_pairs (superseding key t rows) \<longleftrightarrow> (k, i) \<in> current_pairs rows \<and> k \<noteq> key"
  unfolding superseding_def pairs_update [OF supersede_columns] pairs_member by auto

lemma pairs_append: "current_pairs (rows @ rows') = current_pairs rows \<union> current_pairs rows'"
  by (auto simp: current_pairs_def)

lemma pairs_keys_filter: "current_pairs (filter P rows) = {(er_key r, er_id r) | r. r \<in> set rows \<and> row_current r \<and> P r}"
  by (auto simp: current_pairs_def)

lemma pairs_single: "current_pairs [r] = (if row_current r then {(er_key r, er_id r)} else {})"
  by (auto simp: current_pairs_def)

lemma execution_row_current: "row_current (execution_row i key x t) = is_servable x"
  by (simp add: row_current_def is_servable_def flip: state_value.simps(2))

section \<open>Each operation refines its abstract step\<close>

lemma conj_invariantly:
  "steps (invariantly I) m \<Longrightarrow> steps (invariantly J) m \<Longrightarrow> steps (invariantly (\<lambda>w. I w \<and> J w)) m"
  unfolding steps_def invariantly_def by blast

lemma keeps_tables_ok: "keeps_tables db_ok m \<Longrightarrow> keeps_tables one_current m \<Longrightarrow> keeps_tables tables_ok m"
  unfolding tables_ok_def by (rule conj_invariantly)

lemma op_tables:
  assumes "tables_ok (ds_db s)" and "op_guard op (ds_db s)" and "repo_call E op s = (r, s')"
  shows "tables_ok (ds_db s')"
proof (cases "\<exists>x. op = Op_Record_Outcome x")
  case True
  with repo_call_outcome [OF assms(3)] assms(1,2) show ?thesis
    using tripleD_Inr [OF record_outcome_body_tables] by auto
next
  case False
  then have "keeps_tables tables_ok (repo_call E op)"
    by (cases op) (auto intro!: keeps_tables_ok write_ops_ok write_ops_current finalize_keeps_tables)
  with assms(1,3) show ?thesis unfolding steps_def invariantly_def by (metis snd_conv)
qed

lemma save_serves:
  assumes "save_body E x n d = (Inr u, d')" and "tables_ok d" and "tables_ok d'"
  shows "served d' = served_step E (Op_Save x) d (served d)"
proof -
  let ?key = "generate_key (de_digest E) (ex_call_identity x)"
  have rows: "db_executions d' = (if is_servable x then superseding ?key (de_now E n) (db_executions d) else db_executions d)
      @ [execution_row (fresh_id (map er_id (db_executions d))) ?key x (de_now E n)]"
    using tripleD_Inr [OF save_body_rows refl assms(1)] by (simp split: if_splits)
  show ?thesis
  proof (cases "is_servable x")
    case True
    have "served d' = (served d)(?key := Some (fresh_id (map er_id (db_executions d))))"
      by (rule pairs_put [OF assms(2,3)])
        (use True in \<open>auto simp: rows pairs_append pairs_single execution_row_current superseding_pairs\<close>)
    with True show ?thesis by simp
  next
    case False
    have "served d' = served d"
      by (rule pairs_same [OF assms(2,3)]) (simp add: rows False pairs_append pairs_single execution_row_current)
    with False show ?thesis by simp
  qed
qed

lemma finalize_serves:
  assumes "finalize_body E e n d = (Inr u, d')" and "tables_ok d" and "tables_ok d'"
  shows "served d' = served_step E (Op_Finalize e) d (served d)"
proof -
  obtain r rows where r: "find_row d e = Some r"
    and base: "rows = (if er_state r = state_value SUCCESS then superseding (er_key r) (de_now E n) (db_executions d) else db_executions d)"
    and d': "d' = d\<lparr>db_executions := map (\<lambda>q. if er_id q = er_id r then q\<lparr>er_output_persisted := True\<rparr> else q) rows\<rparr>"
    using finalize_body_run [OF assms(1)] unfolding superseding_def by blast
  have rin: "r \<in> set (db_executions d)" using r by (rule find_row_Some)
  have self: "q = r" if "q \<in> set (db_executions d)" "er_id q = er_id r" for q
    using row_update_self [of "db_executions d" r q] assms(2) rin that db_okD(6) tables_okD(1) by blast
  have promoted: "(k, i) \<in> current_pairs (db_executions d') \<longleftrightarrow>
      (\<exists>q \<in> set rows. er_key q = k \<and> er_id q = i \<and> row_current (if er_id q = er_id r then q\<lparr>er_output_persisted := True\<rparr> else q))" for k i
    unfolding d' db.select_convs db.update_convs
    by (simp add: pairs_update keeps_columns_def)
  show ?thesis
  proof (cases "er_state r = state_value SUCCESS")
    case False
    have "row_current (if er_id q = er_id r then q\<lparr>er_output_persisted := True\<rparr> else q) = row_current q"
      if "q \<in> set (db_executions d)" for q
      using self [OF that] False by (auto simp: row_current_def)
    then have "current_pairs (db_executions d') = current_pairs (db_executions d)"
      using promoted base False by (auto simp: pairs_member set_eq_iff)
    from pairs_same [OF assms(2,3) this] show ?thesis using False by (simp add: r del: state_value.simps)
  next
    case True
    let ?v = "if er_superseded_at r = None \<and> \<not> er_output_persisted r then Some (er_id r) else None"
    let ?sup = "\<lambda>q. if er_key q = er_key r \<and> row_current q then q\<lparr>er_superseded_at := Some (de_now E n)\<rparr> else q"
    let ?set = "\<lambda>q. if er_id q = er_id r then q\<lparr>er_output_persisted := True\<rparr> else q"
    have current: "row_current (?set (?sup q)) \<longleftrightarrow>
        (if q = r then er_superseded_at r = None \<and> \<not> er_output_persisted r else row_current q \<and> er_key q \<noteq> er_key r)"
      if "q \<in> set (db_executions d)" for q
      using self [OF that] True by (auto simp: row_current_def simp del: state_value.simps)
    have "(k, i) \<in> current_pairs (db_executions d') \<longleftrightarrow>
        (\<exists>q \<in> set (db_executions d). er_key q = k \<and> er_id q = i \<and> row_current (?set (?sup q)))" for k i
    proof -
      have rows: "set rows = ?sup ` set (db_executions d)" unfolding base if_P [OF True] superseding_def set_map ..
      have col: "er_key (?sup q) = er_key q" "er_id (?sup q) = er_id q" for q by simp_all
      show ?thesis unfolding promoted rows bex_simps col ..
    qed
    then have member: "(k, i) \<in> current_pairs (db_executions d') \<longleftrightarrow>
        (\<exists>q \<in> set (db_executions d). er_key q = k \<and> er_id q = i
           \<and> (if q = r then er_superseded_at r = None \<and> \<not> er_output_persisted r else row_current q \<and> er_key q \<noteq> er_key r))" for k i
      using current by (simp cong: bex_cong)
    have "(k, i) \<in> current_pairs (db_executions d') \<longleftrightarrow>
        (if k = er_key r then ?v = Some i else (k, i) \<in> current_pairs (db_executions d))" for k i
    proof (cases "k = er_key r")
      case True
      then show ?thesis unfolding member using rin by (auto split: if_splits)
    next
      case False
      then have "(if q = r then er_superseded_at r = None \<and> \<not> er_output_persisted r else row_current q \<and> er_key q \<noteq> er_key r)
          = row_current q" if "er_key q = k" for q
        using that by auto
      then have "(k, i) \<in> current_pairs (db_executions d') \<longleftrightarrow> (k, i) \<in> current_pairs (db_executions d)"
        unfolding member unfolding pairs_member by blast
      with False show ?thesis by simp
    qed
    from pairs_put [OF assms(2,3) this] show ?thesis using True by (simp add: r del: state_value.simps)
  qed
qed


lemma remove_serves:
  assumes "remove_execution_body e d = (Inr u, d')" and "tables_ok d" and "tables_ok d'"
  shows "served d' = served_step E (Op_Remove e) d (served d)"
proof (cases "find_row d e")
  case None
  then have "d' = d" using assms(1) by (simp add: remove_execution_body_def bindP_def)
  with None show ?thesis by simp
next
  case (Some r)
  then have rows: "db_executions d' = filter (\<lambda>q. er_id q \<noteq> er_id r) (db_executions d)"
    using assms(1)
    by (auto simp: remove_execution_body_def bindP_def thenP_def delete_children_def whenP_def split: if_splits)
  have rin: "r \<in> set (db_executions d)" using Some by (rule find_row_Some)
  have self: "q = r" if "q \<in> set (db_executions d)" "er_id q = er_id r" for q
    using row_update_self [of "db_executions d" r q] assms(2) rin that db_okD(6) tables_okD(1) by blast
  have pairs: "(k, i) \<in> current_pairs (db_executions d') \<longleftrightarrow> (k, i) \<in> current_pairs (db_executions d) \<and> i \<noteq> er_id r" for k i
    unfolding rows pairs_member by auto
  show ?thesis
  proof (cases "served d (er_key r) = Some (er_id r)")
    case True
    then have cur: "(er_key r, er_id r) \<in> current_pairs (db_executions d)" using served_pairs [OF assms(2)] by simp
    have "(k, i) \<in> current_pairs (db_executions d') \<longleftrightarrow>
        (if k = er_key r then None = Some i else (k, i) \<in> current_pairs (db_executions d))" for k i
      using pairs cur current_pairs_functional [OF assms(2)] self by (metis option.distinct(1) pairs_member)
    from pairs_put [OF assms(2,3) this] show ?thesis by (simp add: Some True)
  next
    case False
    then have "(er_key r, er_id r) \<notin> current_pairs (db_executions d)" using served_pairs [OF assms(2)] by simp
    then have "i \<noteq> er_id r" if "(k, i) \<in> current_pairs (db_executions d)" for k i
      using that self by (auto simp: pairs_member)
    then have "current_pairs (db_executions d') = current_pairs (db_executions d)"
      using pairs by (auto simp: set_eq_iff)
    from pairs_same [OF assms(2,3) this] show ?thesis by (simp add: Some False)
  qed
qed

lemma clear_serves:
  assumes "tables_ok d" and "tables_ok d'"
    and "\<And>k i. (k, i) \<in> current_pairs (db_executions d') \<longleftrightarrow> (k, i) \<in> current_pairs (db_executions d) \<and> k \<noteq> key"
  shows "served d' = (served d)(key := None)"
  by (rule pairs_put [OF assms(1,2)]) (simp add: assms(3))

lemma soft_purge_serves:
  assumes "soft_purge_body key d = (Inr u, d')" and "tables_ok d" and "tables_ok d'"
  shows "served d' = (served d)(key := None)"
proof (rule clear_serves [OF assms(2,3)])
  have rows: "db_executions d' = map (\<lambda>r. if er_key r = key then r\<lparr>er_output_persisted := False\<rparr> else r) (db_executions d)"
    using assms(1) by (auto simp: soft_purge_body_def thenP_def bindP_def update_executions_def)
  show "(k, i) \<in> current_pairs (db_executions d') \<longleftrightarrow> (k, i) \<in> current_pairs (db_executions d) \<and> k \<noteq> key" for k i
    unfolding rows by (subst pairs_update) (auto simp: keeps_columns_def pairs_member row_current_def)
qed

lemma hard_delete_serves:
  assumes "hard_delete_body key d = (Inr u, d')" and "tables_ok d" and "tables_ok d'"
  shows "served d' = (served d)(key := None)"
proof (rule clear_serves [OF assms(2,3)])
  have rows: "db_executions d' = filter (\<lambda>r. er_key r \<noteq> key) (db_executions d)"
    using assms(1) by (auto simp: hard_delete_body_def bindP_def thenP_def delete_children_def)
  show "(k, i) \<in> current_pairs (db_executions d') \<longleftrightarrow> (k, i) \<in> current_pairs (db_executions d) \<and> k \<noteq> key" for k i
    unfolding rows pairs_member by auto
qed

lemma keeping_serves: "steps (keeping db_executions) m \<Longrightarrow> m d = (r, d') \<Longrightarrow> served d' = served d"
  unfolding steps_def keeping_def by (rule served_executions) (metis snd_conv)

lemma record_outcome_serves:
  assumes "record_outcome_body x d = (Inr u, d')" and "tables_ok d" and "tables_ok d'" and "row_unpersisted (ex_execution_id x) d"
  shows "served d' = served d"
proof (rule pairs_same [OF assms(2,3)])
  obtain r where r: "find_row d (ex_execution_id x) = Some r" "\<not> er_output_persisted r"
    using assms(4) unfolding row_unpersisted_def by blast
  have rows: "db_executions d' = map (\<lambda>q. if er_id q = er_id r then outcome_row x q else q) (db_executions d)"
    using assms(1) r unfolding record_outcome_body_def
    by (auto simp: require_row_id_def bindP_def thenP_def update_executions_def insert_token_usage_def
        split: option.splits if_splits)
  have self: "q = r" if "q \<in> set (db_executions d)" "er_id q = er_id r" for q
    using row_update_self [of "db_executions d" r q] assms(2) find_row_Some [OF r(1)] that db_okD(6) tables_okD(1) by blast
  have "\<not> row_current (outcome_row x r)" "\<not> row_current r" using r(2) by (simp_all add: row_current_def outcome_row_def)
  then show "current_pairs (db_executions d') = current_pairs (db_executions d)"
    unfolding rows using self
    by (intro set_eqI, clarify, subst pairs_update) (auto simp: keeps_columns_def outcome_row_def pairs_member)
qed

lemma add_tags_body_rows: "steps (keeping db_executions) (add_tags_body key tags)"
  unfolding add_tags_body_def by (intro steps_rules preorder_keeping steps_modify) (simp add: keeping_def)

lemma add_input_artifacts_body_rows: "steps (keeping db_executions) (add_input_artifacts_body key as)"
  unfolding add_input_artifacts_body_def by (intro steps_rules preorder_keeping keeping_statements)

lemma persist_artifact_body_rows: "steps (keeping db_executions) (persist_artifact_body e a)"
  unfolding persist_artifact_body_def by (intro steps_rules keeping_statements preorder_keeping)

lemma op_body_serves:
  assumes run: "op_body E op n d = (Inr (), d')" and ok: "tables_ok d" "tables_ok d'" and guard: "op_guard op d"
  shows "served d' = served_step E op d (served d)"
proof (cases op)
  case (Op_Save x) with assms show ?thesis using save_serves by simp
next
  case (Op_Record_Outcome x) with assms show ?thesis using record_outcome_serves by simp
next
  case (Op_Persist_Artifact e a) with run show ?thesis using keeping_serves [OF persist_artifact_body_rows] by simp
next
  case (Op_Mark_Stored e k) with run show ?thesis using keeping_serves [OF keeping_update_artifacts] by simp
next
  case (Op_Mark_Failed e k t) with run show ?thesis using keeping_serves [OF keeping_update_artifacts] by simp
next
  case (Op_Finalize e) with run ok show ?thesis using finalize_serves by simp
next
  case (Op_Remove e) with run ok show ?thesis using remove_serves by simp
next
  case (Op_Add_Tags key tags) with run show ?thesis
    using keeping_serves [OF add_tags_body_rows] by (simp split: if_splits)
next
  case (Op_Add_Input key as) with run show ?thesis
    using keeping_serves [OF add_input_artifacts_body_rows] by (simp split: if_splits)
next
  case (Op_Soft_Purge key) with run ok show ?thesis using soft_purge_serves by simp
next
  case (Op_Hard_Delete key) with run ok show ?thesis using hard_delete_serves by simp
qed

text \<open>A store with one servable execution, for the witnesses.\<close>

definition sample_env :: db_env where
  "sample_env = \<lparr>de_digest = \<lambda>_. ''0'', de_fault = \<lambda>_. None, de_now = \<lambda>_. ''t1'', de_uuid = \<lambda>_. ''u'', de_iso_ok = \<lambda>_. True\<rparr>"

definition sample_row :: exec_row where
  "sample_row =
     \<lparr>er_id = 1, er_key = ''k'', er_kind = ''passthrough'', er_state = ''success'', er_output_persisted = True,
      er_superseded_at = None, er_failure_reason = None, er_failure_message = None, er_failure_exit_code = None,
      er_created_at = ''t0'', er_execution_id = Some ''e''\<rparr>"

definition sample_store :: db_store where
  "sample_store =
     \<lparr>ds_db = empty_db\<lparr>db_executions := [sample_row],
        db_identities := [\<lparr>id_key = ''k'', id_kind = ''passthrough'', id_client = [], id_model = [], id_effort = [],
          id_identity_json = None\<rparr>]\<rparr>, ds_ops = 0\<rparr>"

lemma sample_store_ok: "tables_ok (ds_db sample_store)"
  by (simp add: sample_store_def sample_row_def empty_db_def tables_ok_def db_ok_def one_current_def
      unique_execution_ids_def)

lemma sample_current: "current_row (ds_db sample_store) ''k'' = Some sample_row" "er_execution_id sample_row = Some ''e''"
  by (simp_all add: sample_store_def sample_row_def current_row_def key_rows_def row_current_def last_opt_def)

lemma sample_find: "find_row (ds_db sample_store) ''e'' = Some sample_row"
  by (simp add: sample_store_def sample_row_def find_row_def)

section \<open>Properties\<close>

text \<open>C14: the repository refines its specification, a partial map from execution keys to the servable
  execution of each. On tables that satisfy the invariant, every write that succeeds changes the map
  exactly as its abstract step says (a servable save and a finalized success put their key, a
  removal, a soft purge and a hard delete clear theirs, finalizing an already persisted row clears
  it, everything else leaves the map alone), and a write that fails, by a connection, a statement or
  a commit whose outcome is lost, has made the whole abstract step or none of it.\<close>

theorem repository_refines_map:
  assumes "repo_call E op s = (r, s')" and "tables_ok (ds_db s)" and "op_guard op (ds_db s)"
  shows "tables_ok (ds_db s')
    \<and> (r = Inr () \<longrightarrow> served (ds_db s') = served_step E op (ds_db s) (served (ds_db s)))
    \<and> (served (ds_db s') = served_step E op (ds_db s) (served (ds_db s)) \<or> served (ds_db s') = served (ds_db s))"
proof -
  note ok = op_tables [OF assms(2,3,1)]
  from repo_call_outcome [OF assms(1)] show ?thesis
  proof
    assume "op_body E op (ds_ops s) (ds_db s) = (Inr (), ds_db s')"
    from op_body_serves [OF this assms(2) ok assms(3)] ok show ?thesis by simp
  next
    assume "ds_db s' = ds_db s \<and> (\<exists>e. r = Inl e)"
    with ok show ?thesis by auto
  qed
qed

theorem repository_refines_map_witness:
  "served (ds_db sample_store) ''k'' = Some 1
    \<and> served (ds_db (snd (repo_call sample_env (Op_Remove ''e'') sample_store))) ''k'' = None"
proof -
  obtain r s' where run: "repo_call sample_env (Op_Remove ''e'') sample_store = (r, s')" by fastforce
  moreover have "r = Inr ()"
    using run sample_find
    by (auto simp: remove_execution_def remove_execution_body_def write_transaction_def sample_env_def bindP_def thenP_def
        delete_children_def whenP_def split: if_splits)
  moreover have served: "served (ds_db sample_store) ''k'' = Some (er_id sample_row)" by (simp add: served_def sample_current)
  moreover have "er_key sample_row = ''k''" "er_id sample_row = 1" by (simp_all add: sample_row_def)
  ultimately show ?thesis
    using repository_refines_map [OF run sample_store_ok] sample_find by simp
qed

lemma find_row_of_row:
  assumes "db_ok d" and "r \<in> set (db_executions d)" and "er_execution_id r = Some e"
  shows "find_row d e = Some r"
proof -
  obtain q where q: "find_row d e = Some q"
    using assms(2,3) unfolding find_row_def by (cases "find (\<lambda>r. er_execution_id r = Some e) (db_executions d)") (auto simp: find_None_iff)
  have "q \<in> set (db_executions d)" "er_execution_id q = er_execution_id r" "er_execution_id q \<noteq> None"
    using find_row_has_row [OF q] assms(3) by simp_all
  with db_okD(5) [OF assms(1)] assms(2) have "q = r" unfolding unique_execution_ids_def by blast
  with q show ?thesis by simp
qed

text \<open>finalizing is not idempotent for the cache. A second \<open>finalize_output_persisted\<close> of the
  execution a key is served from succeeds and leaves the key without a servable execution: the
  supersede of the key's current rows stamps the very row being finalized.\<close>

theorem finalize_twice_uncaches:
  assumes "finalize_output_persisted E e s = (Inr (), s')" and "tables_ok (ds_db s)"
    and "current_row (ds_db s) key = Some r" and "er_execution_id r = Some e"
  shows "current_row (ds_db s') key = None"
proof -
  have r: "er_key r = key" "row_current r" "r \<in> set (db_executions (ds_db s))" using current_row_in [OF assms(3)] by auto
  have "repo_call E (Op_Finalize e) s = (Inr (), s')" using assms(1) by simp
  from repo_call_outcome [OF this]
  have body: "op_body E (Op_Finalize e) (ds_ops s) (ds_db s) = (Inr (), ds_db s')" by auto
  have "find_row (ds_db s) e = Some r" by (rule find_row_of_row [OF tables_okD(1) [OF assms(2)] r(3) assms(4)])
  with op_body_serves [OF body assms(2) op_tables [OF assms(2) _ \<open>repo_call E (Op_Finalize e) s = (Inr (), s')\<close>]] r
  have "served (ds_db s') key = None" by (simp add: row_current_def)
  then show ?thesis by (simp add: served_def)
qed


theorem finalize_twice_uncaches_witness:
  "current_row (ds_db sample_store) ''k'' \<noteq> None
    \<and> current_row (ds_db (snd (finalize_output_persisted sample_env ''e'' sample_store))) ''k'' = None"
proof -
  have "row_artifacts (ds_db sample_store) i = []" for i by (simp add: sample_store_def empty_db_def row_artifacts_def)
  then obtain s' where run: "finalize_output_persisted sample_env ''e'' sample_store = (Inr (), s')"
    using sample_find
    by (simp add: finalize_output_persisted_def finalize_body_def write_transaction_def sample_env_def bindP_def thenP_def
        supersede_prior_current_def update_executions_def sample_row_def)
  from finalize_twice_uncaches [OF run sample_store_ok sample_current] run sample_current show ?thesis by simp
qed

end
