(* ===== verification/Encryption_Manifest.thy ===== *)
theory Encryption_Manifest
  imports Cipher
begin

text \<open>
  The manifest of an encrypted store as it is kept on disk
  (\<open>crypto/filesystem_encryption_manifest_store.py\<close> and the marker of
  \<open>crypto/store_encryptor.py\<close>): base64 texts in a JSON object. The JSON text of the object is not
  represented; both files are replaced atomically, so a reader only ever sees a whole one.
\<close>

section \<open>Base64\<close>

definition b64_char :: "nat \<Rightarrow> char" where
  "b64_char n =
     (if n < 26 then char_of (65 + n) else if n < 52 then char_of (71 + n)
      else if n < 62 then char_of (n - 4) else if n = 62 then CHR ''+'' else CHR ''/'')"

definition b64_value :: "char \<Rightarrow> nat option" where
  "b64_value c =
     (let n = of_char c :: nat
      in if 65 \<le> n \<and> n \<le> 90 then Some (n - 65) else if 97 \<le> n \<and> n \<le> 122 then Some (n - 71)
         else if 48 \<le> n \<and> n \<le> 57 then Some (n + 4) else if c = CHR ''+'' then Some 62
         else if c = CHR ''/'' then Some 63 else None)"

fun b64_sextets :: "nat list \<Rightarrow> nat option list" where
  "b64_sextets [] = []"
| "b64_sextets [a] = [Some (a div 4), Some ((a mod 4) * 16), None, None]"
| "b64_sextets [a, b] = [Some (a div 4), Some ((a mod 4) * 16 + b div 16), Some ((b mod 16) * 4), None]"
| "b64_sextets (a # b # c # bs) =
     Some (a div 4) # Some ((a mod 4) * 16 + b div 16) # Some ((b mod 16) * 4 + c div 64) # Some (c mod 64) # b64_sextets bs"

definition b64encode :: "bytes \<Rightarrow> text_str" where
  "b64encode bs = map (\<lambda>s. case s of None \<Rightarrow> CHR ''='' | Some n \<Rightarrow> b64_char n) (b64_sextets (map of_char bs))"

text \<open>\<open>None\<close> is a padding character; data after a padded group is ignored.\<close>

fun b64_groups :: "nat option list \<Rightarrow> exn + nat list" where
  "b64_groups [] = Inr []"
| "b64_groups (Some a # Some b # None # None # _) = Inr [a * 4 + b div 16]"
| "b64_groups (Some a # Some b # Some c # None # _) = Inr [a * 4 + b div 16, (b mod 16) * 16 + c div 4]"
| "b64_groups (Some a # Some b # Some c # Some d # rest) =
     (case b64_groups rest of
        Inl e \<Rightarrow> Inl e
      | Inr bs \<Rightarrow> Inr ((a * 4 + b div 16) # ((b mod 16) * 16 + c div 4) # ((c mod 4) * 64 + d) # bs))"
| "b64_groups _ = Inl (Exn ValueError ''Incorrect padding'')"

text \<open>Characters outside the alphabet are skipped.\<close>

definition b64decode :: "text_str \<Rightarrow> exn + bytes" where
  "b64decode s =
     map_sum id (map char_of)
       (b64_groups (map b64_value (filter (\<lambda>c. c = CHR ''='' \<or> b64_value c \<noteq> None) s)))"

lemma b64_value_char:
  assumes "n < 64"
  shows "b64_value (b64_char n) = Some n"
proof -
  consider "n < 26" | "26 \<le> n \<and> n < 52" | "52 \<le> n \<and> n < 62" | "n = 62" | "n = 63" using assms by linarith
  then show ?thesis
    by cases (auto simp: b64_value_def b64_char_def Let_def)
qed

lemma b64_value_pad: "b64_value (CHR ''='') = None"
  by (simp add: b64_value_def)

text \<open>The arithmetic of one group.\<close>

lemma sextet_bounds:
  fixes a b c :: nat
  assumes "a < 256" and "b < 256" and "c < 256"
  shows "a div 4 < 64" "a mod 4 * 16 < 64" "a mod 4 * 16 + b div 16 < 64" "b mod 16 * 4 < 64"
    "b mod 16 * 4 + c div 64 < 64" "c mod 64 < 64"
proof -
  have "a mod 4 < 4" "b mod 16 < 16" "c mod 64 < 64" "b div 16 < 16" "c div 64 < 4" using assms by simp_all
  then show "a mod 4 * 16 < 64" "a mod 4 * 16 + b div 16 < 64" "b mod 16 * 4 < 64"
    "b mod 16 * 4 + c div 64 < 64" "c mod 64 < 64"
    by linarith+
  show "a div 4 < 64" using assms by simp
qed

lemma octets_back:
  fixes a b c :: nat
  assumes "a < 256" and "b < 256" and "c < 256"
  shows "a div 4 * 4 + a mod 4 * 16 div 16 = a" "a div 4 * 4 + (a mod 4 * 16 + b div 16) div 16 = a"
    "(a mod 4 * 16 + b div 16) mod 16 * 16 + b mod 16 * 4 div 4 = b"
    "(a mod 4 * 16 + b div 16) mod 16 * 16 + (b mod 16 * 4 + c div 64) div 4 = b"
    "(b mod 16 * 4 + c div 64) mod 4 * 64 + c mod 64 = c"
proof -
  have d: "b div 16 < 16" "c div 64 < 4" using assms by simp_all
  have "(a mod 4 * 16 + b div 16) div 16 = a mod 4" "(a mod 4 * 16 + b div 16) mod 16 = b div 16"
    "(b mod 16 * 4 + c div 64) div 4 = b mod 16" "(b mod 16 * 4 + c div 64) mod 4 = c div 64"
    using d by simp_all
  then show "a div 4 * 4 + a mod 4 * 16 div 16 = a" "a div 4 * 4 + (a mod 4 * 16 + b div 16) div 16 = a"
    "(a mod 4 * 16 + b div 16) mod 16 * 16 + b mod 16 * 4 div 4 = b"
    "(a mod 4 * 16 + b div 16) mod 16 * 16 + (b mod 16 * 4 + c div 64) div 4 = b"
    "(b mod 16 * 4 + c div 64) mod 4 * 64 + c mod 64 = c"
    by simp_all
qed

lemma b64_sextets_small: "\<forall>b \<in> set bs. b < 256 \<Longrightarrow> Some n \<in> set (b64_sextets bs) \<Longrightarrow> n < 64"
proof (induction bs rule: b64_sextets.induct)
  case (2 a)
  with sextet_bounds(1,2) [of a 0 0] show ?case by auto
next
  case (3 a b)
  with sextet_bounds(1,3,4) [of a b 0] show ?case by auto
next
  case (4 a b c bs)
  with sextet_bounds [of a b c] show ?case by auto
qed simp

lemma b64_groups_sextets: "\<forall>b \<in> set bs. b < 256 \<Longrightarrow> b64_groups (b64_sextets bs) = Inr bs"
proof (induction bs rule: b64_sextets.induct)
  case (2 a)
  with octets_back [of a 0 0] show ?case by simp
next
  case (3 a b)
  with octets_back(2,3) [of a b 0] show ?case by simp
next
  case (4 a b c bs)
  then have "a < 256" "b < 256" "c < 256" by simp_all
  note g = octets_back(2,4,5) [OF this]
  have "b64_groups (b64_sextets bs) = Inr bs" using 4 by simp
  then show ?case by (simp only: b64_sextets.simps b64_groups.simps sum.case g)
qed simp

lemma b64_round_trip: "b64decode (b64encode bs) = Inr bs"
proof -
  let ?s = "b64_sextets (map of_char bs)" and ?c = "\<lambda>s. case s of None \<Rightarrow> CHR ''='' | Some n \<Rightarrow> b64_char n"
  have small: "\<forall>b \<in> set (map of_char bs). b < (256 :: nat)" by auto
  have val: "b64_value (?c s) = s" if "s \<in> set ?s" for s
  proof (cases s)
    case None
    then show ?thesis by (simp add: b64_value_pad)
  next
    case (Some n)
    with that have "n < 64" using b64_sextets_small [OF small] by blast
    with Some show ?thesis by (simp add: b64_value_char)
  qed
  have kept: "?c s = CHR ''='' \<or> b64_value (?c s) \<noteq> None" if "s \<in> set ?s" for s
    using val [OF that] by (cases s) auto
  have "filter (\<lambda>c. c = CHR ''='' \<or> b64_value c \<noteq> None) (map ?c ?s) = map ?c ?s"
    using kept by (simp add: filter_id_conv)
  moreover have "map b64_value (map ?c ?s) = ?s"
    using val by (simp add: map_idI)
  ultimately show ?thesis
    by (simp add: b64encode_def b64decode_def b64_groups_sextets [OF small] comp_def)
qed

section \<open>The stored manifest\<close>

record stored_manifest =
  sm_version :: int
  sm_kdf_salt :: text_str
  sm_wrapped_data_key :: text_str

definition dump_manifest :: "encryption_manifest \<Rightarrow> stored_manifest" where
  "dump_manifest m =
     \<lparr>sm_version = em_version m, sm_kdf_salt = b64encode (em_kdf_salt m),
      sm_wrapped_data_key = b64encode (em_wrapped_data_key m)\<rparr>"

definition load_manifest :: "stored_manifest \<Rightarrow> exn + encryption_manifest" where
  "load_manifest d =
     (case b64decode (sm_kdf_salt d) of
        Inl e \<Rightarrow> Inl e
      | Inr salt \<Rightarrow>
          (case b64decode (sm_wrapped_data_key d) of
             Inl e \<Rightarrow> Inl e
           | Inr wrapped \<Rightarrow>
               Inr \<lparr>em_kdf_salt = salt, em_wrapped_data_key = wrapped, em_version = sm_version d\<rparr>))"

lemma load_dump [simp]: "load_manifest (dump_manifest m) = Inr m"
  by (simp add: load_manifest_def dump_manifest_def b64_round_trip)

end
