(* ===== verification/Store_Encryptor.thy ===== *)
theory Store_Encryptor
  imports Encryption_Manifest
begin

text \<open>
  \<open>crypto/store_encryptor.py\<close> and \<open>crypto/filesystem_encryption_manifest_store.py\<close>: switching the
  encryption of a whole store on and off, rotating its token and formatting it. Every effect on the
  filesystem is one step that may fail, before or after it has taken effect; since the code handles no
  failure (only \<open>rmtree(ignore_errors=True)\<close> swallows an \<open>OSError\<close>), a failure and a crash of the
  process leave the same files behind. The store lock is granted or refused; the OS releases it.
\<close>

section \<open>The store directory\<close>

type_synonym files = "(text_str \<times> bytes) list"

datatype marker = Marker_Enable stored_manifest | Marker_Disable

record vault =
  va_blobs :: "files option"
  va_staging :: "files option"
  va_marker :: "marker option"
  va_manifest :: "stored_manifest option"
  va_databases :: "text_str list"
  va_held :: bool
  va_ops :: nat

record vault_env =
  ve_fault :: "nat \<Rightarrow> (bool \<times> exn) option"
  ve_torn :: "nat \<Rightarrow> bytes"
  ve_busy :: "nat \<Rightarrow> bool"
  ve_cipher :: "crypto option"
  ve_random :: "nat \<Rightarrow> nat \<Rightarrow> bytes"

definition KEY_BYTES :: nat where "KEY_BYTES = 32"

definition next_op :: "(vault, nat) prog" where
  "next_op = (\<lambda>s. (Inr (va_ops s), s\<lparr>va_ops := Suc (va_ops s)\<rparr>))"

text \<open>One effect; \<open>g\<close> is what a failing one may leave behind.\<close>

definition effect :: "vault_env \<Rightarrow> (vault \<Rightarrow> vault) \<Rightarrow> (nat \<Rightarrow> vault \<Rightarrow> vault) \<Rightarrow> (vault, unit) prog" where
  "effect E f g =
     bindP next_op (\<lambda>n. case ve_fault E n of
       None \<Rightarrow> modifyP f
     | Some (landed, e) \<Rightarrow> thenP (whenP landed (modifyP (g n))) (raise e))"

abbreviation atomic :: "vault_env \<Rightarrow> (vault \<Rightarrow> vault) \<Rightarrow> (vault, unit) prog" where
  "atomic E f \<equiv> effect E f (\<lambda>_. f)"

text \<open>An effect whose \<open>OSError\<close> is ignored.\<close>

definition tolerant :: "vault_env \<Rightarrow> (vault \<Rightarrow> vault) \<Rightarrow> (vault, unit) prog" where
  "tolerant E f = catchP (atomic E f) (\<lambda>e. if exn_class_of e = OSError then ret () else raise e)"

definition listing :: "files \<Rightarrow> text_str list" where
  "listing d = remdups (map fst d)"

definition unlink_file :: "text_str \<Rightarrow> files \<Rightarrow> files" where
  "unlink_file name d = filter (\<lambda>x. fst x \<noteq> name) d"

definition ends_with :: "text_str \<Rightarrow> text_str \<Rightarrow> bool" where
  "ends_with suffix s \<longleftrightarrow> length suffix \<le> length s \<and> drop (length s - length suffix) s = suffix"

definition is_tmp :: "text_str \<Rightarrow> bool" where
  "is_tmp name = ends_with ''.tmp'' name"

definition plain_files :: "files option \<Rightarrow> text_str list" where
  "plain_files d = (case d of None \<Rightarrow> [] | Some fs \<Rightarrow> filter (\<lambda>name. \<not> is_tmp name) (listing fs))"

definition file_bytes :: "files option \<Rightarrow> text_str \<Rightarrow> bytes option" where
  "file_bytes d name = (case d of None \<Rightarrow> None | Some fs \<Rightarrow> map_of fs name)"

definition mkdir_exist_ok :: "files option \<Rightarrow> files option" where
  "mkdir_exist_ok d = (case d of None \<Rightarrow> Some [] | Some fs \<Rightarrow> Some fs)"

text \<open>\<open>shutil.rmtree(..., ignore_errors=True)\<close>: each file, then the directory if it is empty.\<close>

definition rmtree ::
  "vault_env \<Rightarrow> (vault \<Rightarrow> files option) \<Rightarrow> ((files option \<Rightarrow> files option) \<Rightarrow> vault \<Rightarrow> vault) \<Rightarrow> (vault, unit) prog" where
  "rmtree E get upd =
     bindP (getsP get) (\<lambda>d. case d of
       None \<Rightarrow> ret ()
     | Some fs \<Rightarrow>
         thenP (for_each (\<lambda>name. tolerant E (upd (map_option (unlink_file name)))) (listing fs))
           (tolerant E (upd (\<lambda>d. if d = Some [] then None else d))))"

section \<open>The manifest store\<close>

definition manifest_load :: "vault_env \<Rightarrow> (vault, encryption_manifest option) prog" where
  "manifest_load E =
     bindP (getsP va_manifest) (\<lambda>present. case present of
       None \<Rightarrow> ret None
     | Some data \<Rightarrow> thenP (atomic E id) (bindP (liftE (load_manifest data)) (\<lambda>m. ret (Some m))))"

definition manifest_save :: "vault_env \<Rightarrow> encryption_manifest \<Rightarrow> (vault, unit) prog" where
  "manifest_save E m =
     thenP (atomic E id) (atomic E (\<lambda>s. s\<lparr>va_manifest := Some (dump_manifest m)\<rparr>))"

definition manifest_delete :: "vault_env \<Rightarrow> (vault, unit) prog" where
  "manifest_delete E = atomic E (\<lambda>s. s\<lparr>va_manifest := None\<rparr>)"

section \<open>Staging and committing\<close>

definition read_blob :: "vault_env \<Rightarrow> text_str \<Rightarrow> (vault, bytes) prog" where
  "read_blob E name =
     bindP (getsP (\<lambda>s. file_bytes (va_blobs s) name)) (\<lambda>present. case present of
       None \<Rightarrow> raise (Exn OSError ''No such file or directory'')
     | Some data \<Rightarrow> thenP (atomic E id) (ret data))"

definition stage_blob :: "vault_env \<Rightarrow> (bytes \<Rightarrow> (vault, bytes) prog) \<Rightarrow> text_str \<Rightarrow> (vault, unit) prog" where
  "stage_blob E transform name =
     (let tmp = name @ ''.tmp''
      in bindP (read_blob E name) (\<lambda>data.
         bindP (transform data) (\<lambda>out.
         thenP (effect E (va_staging_update (map_option (dict_set tmp out)))
                  (\<lambda>n. va_staging_update (map_option (dict_set tmp (ve_torn E n)))))
           (atomic E (va_staging_update (map_option (\<lambda>d. dict_set name out (unlink_file tmp d))))))))"

definition stage :: "vault_env \<Rightarrow> (bytes \<Rightarrow> (vault, bytes) prog) \<Rightarrow> (vault, unit) prog" where
  "stage E transform =
     thenP (rmtree E va_staging va_staging_update)
    (thenP (atomic E (va_staging_update mkdir_exist_ok))
    (bindP (getsP (\<lambda>s. plain_files (va_blobs s))) (for_each (stage_blob E transform))))"

definition write_marker :: "vault_env \<Rightarrow> marker \<Rightarrow> (vault, unit) prog" where
  "write_marker E marker = thenP (atomic E id) (atomic E (\<lambda>s. s\<lparr>va_marker := Some marker\<rparr>))"

definition move_staged :: "vault_env \<Rightarrow> text_str \<Rightarrow> (vault, unit) prog" where
  "move_staged E name =
     bindP (getsP (\<lambda>s. file_bytes (va_staging s) name)) (\<lambda>present. case present of
       None \<Rightarrow> raise (Exn OSError ''No such file or directory'')
     | Some data \<Rightarrow>
         atomic E (\<lambda>s. s\<lparr>va_blobs := map_option (dict_set name data) (va_blobs s),
                         va_staging := map_option (unlink_file name) (va_staging s)\<rparr>))"

definition move_all :: "vault_env \<Rightarrow> (vault, unit) prog" where
  "move_all E =
     bindP (getsP va_staging) (\<lambda>st. case st of
       None \<Rightarrow> ret ()
     | Some _ \<Rightarrow>
         thenP (atomic E (va_blobs_update mkdir_exist_ok))
        (thenP (bindP (getsP (\<lambda>s. plain_files (va_staging s))) (for_each (move_staged E)))
           (rmtree E va_staging va_staging_update)))"

definition finish_commit :: "vault_env \<Rightarrow> marker \<Rightarrow> (vault, unit) prog" where
  "finish_commit E marker =
     thenP (move_all E)
    (thenP (case marker of
              Marker_Enable d \<Rightarrow>
                bindP (manifest_load E) (\<lambda>present.
                whenP (present = None) (bindP (liftE (load_manifest d)) (manifest_save E)))
            | Marker_Disable \<Rightarrow> manifest_delete E)
       (atomic E (\<lambda>s. s\<lparr>va_marker := None\<rparr>)))"

definition commit :: "vault_env \<Rightarrow> marker \<Rightarrow> (vault, unit) prog" where
  "commit E marker = thenP (write_marker E marker) (finish_commit E marker)"

definition recover_locked :: "vault_env \<Rightarrow> (vault, unit) prog" where
  "recover_locked E =
     bindP (getsP va_marker) (\<lambda>marker. case marker of
       Some m \<Rightarrow> thenP (atomic E id) (finish_commit E m)
     | None \<Rightarrow>
         bindP (getsP va_staging) (\<lambda>st.
         whenP (st \<noteq> None) (rmtree E va_staging va_staging_update)))"

section \<open>Operations\<close>

definition store_locked :: exn where
  "store_locked = Exn StoreLocked ''the store is locked by another operation''"

definition with_exclusive_lock :: "vault_env \<Rightarrow> (vault, unit) prog \<Rightarrow> (vault, unit) prog" where
  "with_exclusive_lock E m =
     bindP next_op (\<lambda>n.
     bindP (getsP va_held) (\<lambda>held.
     if held \<or> ve_busy E n then raise store_locked
     else thenP (modifyP (\<lambda>s. s\<lparr>va_held := True\<rparr>))
            (finallyP m (modifyP (\<lambda>s. s\<lparr>va_held := False\<rparr>)))))"

definition require_cipher :: "vault_env \<Rightarrow> (vault, crypto) prog" where
  "require_cipher E =
     (case ve_cipher E of
        None \<Rightarrow> raise (Exn EncryptionStateError ''a cipher is required for this operation'')
      | Some C \<Rightarrow> ret C)"

definition draw :: "vault_env \<Rightarrow> nat \<Rightarrow> (vault, bytes) prog" where
  "draw E len = bindP next_op (\<lambda>n. ret (ve_random E n len))"

definition encrypt_blob :: "vault_env \<Rightarrow> crypto \<Rightarrow> bytes \<Rightarrow> bytes \<Rightarrow> (vault, bytes) prog" where
  "encrypt_blob E C data_key blob =
     bindP (draw E CONTENT_SUBKEY_SALT_BYTES) (\<lambda>salt.
     bindP (draw E NONCE_BYTES) (\<lambda>nonce. ret (encrypt C salt nonce data_key blob)))"

definition recover :: "vault_env \<Rightarrow> (vault, unit) prog" where
  "recover E =
     bindP (getsP (\<lambda>s. va_marker s = None \<and> va_staging s = None)) (\<lambda>nothing_pending.
     if nothing_pending then ret () else with_exclusive_lock E (recover_locked E))"

definition enable :: "vault_env \<Rightarrow> text_str \<Rightarrow> (vault, unit) prog" where
  "enable E token =
     bindP (require_cipher E) (\<lambda>C.
     with_exclusive_lock E
       (thenP (recover_locked E)
       (bindP (manifest_load E) (\<lambda>present.
        if present \<noteq> None then raise (Exn EncryptionStateError ''the store is already encrypted'')
        else bindP (draw E KEY_BYTES) (\<lambda>fresh_key.
             bindP (draw E SALT_BYTES) (\<lambda>salt.
             bindP (draw E NONCE_BYTES) (\<lambda>nonce.
             let (manifest, data_key) = create_envelope C fresh_key salt nonce token
             in thenP (stage E (encrypt_blob E C data_key))
                  (commit E (Marker_Enable (dump_manifest manifest))))))))))"

definition opened_manifest :: "vault_env \<Rightarrow> crypto \<Rightarrow> text_str \<Rightarrow> (vault, bytes) prog" where
  "opened_manifest E C token =
     bindP (manifest_load E) (\<lambda>present. case present of
       None \<Rightarrow> raise (Exn EncryptionStateError ''the store is not encrypted'')
     | Some manifest \<Rightarrow> liftE (open_envelope C token manifest))"

definition disable :: "vault_env \<Rightarrow> text_str \<Rightarrow> (vault, unit) prog" where
  "disable E token =
     bindP (require_cipher E) (\<lambda>C.
     with_exclusive_lock E
       (thenP (recover_locked E)
       (bindP (opened_manifest E C token) (\<lambda>data_key.
        thenP (stage E (\<lambda>blob. liftE (decrypt C data_key blob))) (commit E Marker_Disable)))))"

definition rotate :: "vault_env \<Rightarrow> text_str \<Rightarrow> text_str \<Rightarrow> (vault, unit) prog" where
  "rotate E old_token new_token =
     bindP (require_cipher E) (\<lambda>C.
     with_exclusive_lock E
       (thenP (recover_locked E)
       (bindP (opened_manifest E C old_token) (\<lambda>data_key.
        bindP (draw E SALT_BYTES) (\<lambda>salt.
        bindP (draw E NONCE_BYTES) (\<lambda>nonce.
        manifest_save E (rewrap C salt nonce data_key new_token)))))))"

definition WIPE_ON_INVALIDATE :: "text_str list" where
  "WIPE_ON_INVALIDATE = [''executions.sqlite3'', ''registry.sqlite3'']"

definition invalidate :: "vault_env \<Rightarrow> (vault, unit) prog" where
  "invalidate E =
     with_exclusive_lock E
       (thenP (recover_locked E)
       (thenP (manifest_delete E)
       (thenP (rmtree E va_blobs va_blobs_update)
       (thenP (rmtree E va_staging va_staging_update)
       (thenP (atomic E (\<lambda>s. s\<lparr>va_marker := None\<rparr>))
         (for_each (\<lambda>name. atomic E (va_databases_update (filter (\<lambda>x. x \<noteq> name)))) WIPE_ON_INVALIDATE))))))"

end
