(* ===== verification/Migration_Safety.thy ===== *)
theory Migration_Safety
  imports Store_Encryptor
begin

text \<open>
  Crash safety of the encryption migrations. \<open>vault_inv C T content\<close> says that a store, whatever an
  interrupted migration has left in it, still holds every blob of \<open>content\<close>: readable as it is, or
  under the data key of a manifest that a token of \<open>T\<close> opens. Every operation keeps it through any
  failure, and a recovery settles the store.
\<close>

section \<open>Rules for the effects\<close>

text \<open>Predicates that do not look at the step counter, and the lock flag where it changes.\<close>

definition uncounted :: "(vault \<Rightarrow> bool) \<Rightarrow> bool" where
  "uncounted P \<longleftrightarrow> (\<forall>s n. P (s\<lparr>va_ops := n\<rparr>) = P s)"

lemma triple_next_op: "uncounted P \<Longrightarrow> triple P next_op (\<lambda>_. P) Er"
  by (simp add: triple_def next_op_def uncounted_def)

lemma triple_effect:
  assumes "uncounted P" and "\<And>s. P s \<Longrightarrow> Q () (f s)"
    and "\<And>s n l e. P s \<Longrightarrow> ve_fault E n = Some (l, e) \<Longrightarrow> Er e s \<and> Er e (g n s)"
  shows "triple P (effect E f g) Q Er"
proof -
  have "triple P (case ve_fault E n of None \<Rightarrow> modifyP f | Some (l, e) \<Rightarrow> thenP (whenP l (modifyP (g n))) (raise e)) Q Er" for n
    using assms(2,3) by (auto simp: triple_def thenP_def bindP_def whenP_def split: option.splits)
  then show ?thesis unfolding effect_def by (intro triple_bind [OF triple_next_op [OF assms(1)]])
qed

lemma triple_tolerant:
  assumes "uncounted P" and "\<And>s. P s \<Longrightarrow> Q () (f s)"
    and "\<And>s n l e. P s \<Longrightarrow> ve_fault E n = Some (l, e) \<Longrightarrow> (Er e s \<and> Er e (f s)) \<and> (Q () s)"
  shows "triple P (tolerant E f) Q Er"
proof -
  let ?R = "\<lambda>e s. (Er e s \<and> Q () s)"
  have "triple P (atomic E f) Q ?R"
    by (rule triple_effect) (use assms in blast)+
  then show ?thesis
    unfolding tolerant_def
    by (rule triple_catch) (auto simp: triple_def)
qed

lemma triple_for_each:
  assumes "\<And>x xs. triple (I (x # xs)) (f x) (\<lambda>_. I xs) Er"
  shows "triple (I xs) (for_each f xs) (\<lambda>_. I []) Er"
proof (induction xs)
  case Nil
  show ?case by (simp add: triple_def)
next
  case (Cons x xs)
  from triple_then [OF assms Cons] show ?case by simp
qed

lemma triple_gets: "(\<And>x. triple (\<lambda>s. P s \<and> g s = x) (f x) Q Er) \<Longrightarrow> triple P (bindP (getsP g) f) Q Er"
  by (auto simp: triple_def bindP_def)

lemma triple_when: "(b \<Longrightarrow> triple P m (\<lambda>_. Q) Er) \<Longrightarrow> (\<And>s. \<not> b \<Longrightarrow> P s \<Longrightarrow> Q s) \<Longrightarrow> triple P (whenP b m) (\<lambda>_. Q) Er"
  by (cases b) (auto simp: triple_def)

lemma triple_lift: "(\<And>a s. P s \<Longrightarrow> r = Inr a \<Longrightarrow> Q a s) \<Longrightarrow> (\<And>e s. P s \<Longrightarrow> r = Inl e \<Longrightarrow> Er e s) \<Longrightarrow> triple P (liftE r) Q Er"
  by (cases r) (auto simp: triple_def)

lemma triple_pre: "triple P' m Q Er \<Longrightarrow> (\<And>s. P s \<Longrightarrow> P' s) \<Longrightarrow> triple P m Q Er"
  by (rule triple_conseq)

lemma triple_false: "triple (\<lambda>_. False) m Q Er"
  by (simp add: triple_def)

section \<open>Reading the store\<close>

definition visible :: "files option \<Rightarrow> text_str \<Rightarrow> bytes option" where
  "visible d k = (if is_tmp k then None else file_bytes d k)"

text \<open>What a finished commit would hold: the staged files over the blobs.\<close>

definition overlay :: "files option \<Rightarrow> files option \<Rightarrow> text_str \<Rightarrow> bytes option" where
  "overlay st b k = (case visible st k of Some v \<Rightarrow> Some v | None \<Rightarrow> visible b k)"

definition opens :: "crypto \<Rightarrow> bytes option \<Rightarrow> bytes \<Rightarrow> bytes option" where
  "opens C mode c =
     (case mode of None \<Rightarrow> Some c | Some dk \<Rightarrow> (case decrypt C dk c of Inr p \<Rightarrow> Some p | Inl _ \<Rightarrow> None))"

definition holds_content :: "crypto \<Rightarrow> bytes option \<Rightarrow> (text_str \<Rightarrow> bytes option) \<Rightarrow> (text_str \<Rightarrow> bytes option) \<Rightarrow> bool" where
  "holds_content C mode content g \<longleftrightarrow> (\<forall>k v. content k = Some v \<longrightarrow> (\<exists>c. g k = Some c \<and> opens C mode c = Some v))"

definition sealed :: "crypto \<Rightarrow> text_str set \<Rightarrow> stored_manifest \<Rightarrow> bytes \<Rightarrow> bool" where
  "sealed C T d dk \<longleftrightarrow> (\<exists>m token. d = dump_manifest m \<and> token \<in> T \<and> open_envelope C token m = Inr dk)"

text \<open>The mode a manifest gives: public without one, sealed under the data key with one.\<close>

definition manifest_mode :: "crypto \<Rightarrow> text_str set \<Rightarrow> stored_manifest option \<Rightarrow> bytes option \<Rightarrow> bool" where
  "manifest_mode C T d mode \<longleftrightarrow>
     (case d of None \<Rightarrow> mode = None | Some d \<Rightarrow> (\<exists>dk. mode = Some dk \<and> sealed C T d dk))"

definition readable :: "crypto \<Rightarrow> text_str set \<Rightarrow> (text_str \<Rightarrow> bytes option) \<Rightarrow> stored_manifest option \<Rightarrow> files option \<Rightarrow> bool" where
  "readable C T content d b \<longleftrightarrow> (\<exists>mode. manifest_mode C T d mode \<and> holds_content C mode content (visible b))"

definition committing ::
  "crypto \<Rightarrow> text_str set \<Rightarrow> (text_str \<Rightarrow> bytes option) \<Rightarrow> marker \<Rightarrow> stored_manifest option
     \<Rightarrow> (text_str \<Rightarrow> bytes option) \<Rightarrow> bool" where
  "committing C T content m d g \<longleftrightarrow>
     (case m of
        Marker_Enable d' \<Rightarrow> (d = None \<or> d = Some d') \<and> (\<exists>dk. sealed C T d' dk \<and> holds_content C (Some dk) content g)
      | Marker_Disable \<Rightarrow> holds_content C None content g)"

definition vault_inv :: "crypto \<Rightarrow> text_str set \<Rightarrow> (text_str \<Rightarrow> bytes option) \<Rightarrow> vault \<Rightarrow> bool" where
  "vault_inv C T content s \<longleftrightarrow>
     (case va_marker s of
        None \<Rightarrow> readable C T content (va_manifest s) (va_blobs s)
      | Some m \<Rightarrow> committing C T content m (va_manifest s) (overlay (va_staging s) (va_blobs s)))"

definition settled :: "crypto \<Rightarrow> text_str set \<Rightarrow> (text_str \<Rightarrow> bytes option) \<Rightarrow> vault \<Rightarrow> bool" where
  "settled C T content s \<longleftrightarrow>
     va_marker s = None \<and> va_staging s = None \<and> \<not> va_held s \<and> readable C T content (va_manifest s) (va_blobs s)"

lemma map_of_unlink: "map_of (unlink_file name d) k = (if k = name then None else map_of d k)"
  by (induction d) (auto simp: unlink_file_def)

lemma visible_simps [simp]:
  "visible None k = None"
  "visible (Some []) k = None"
  "visible (mkdir_exist_ok d) k = visible d k"
  "visible (map_option (unlink_file name) d) k = (if k = name then None else visible d k)"
  "visible (map_option (dict_set name v) d) k = (if k = name \<and> \<not> is_tmp k \<and> d \<noteq> None then Some v else visible d k)"
  "visible (Some (unlink_file name fs)) k = (if k = name then None else visible (Some fs) k)"
  "visible (Some (dict_set name v fs)) k = (if k = name \<and> \<not> is_tmp k then Some v else visible (Some fs) k)"
  by (auto simp: visible_def file_bytes_def mkdir_exist_ok_def map_of_unlink update_conv split: option.splits)

lemma plain_files_iff: "name \<in> set (plain_files d) \<longleftrightarrow> visible d name \<noteq> None"
proof (cases d)
  case None
  then show ?thesis by (simp add: plain_files_def)
next
  case (Some fs)
  have "map_of fs name \<noteq> None \<longleftrightarrow> name \<in> fst ` set fs" by (simp add: map_of_eq_None_iff)
  with Some show ?thesis by (auto simp: plain_files_def listing_def visible_def file_bytes_def)
qed

text \<open>What a step that may fail has to keep: the invariant.\<close>

abbreviation no_fault :: "vault_env \<Rightarrow> bool" where
  "no_fault E \<equiv> ve_fault E = (\<lambda>_. None)"

definition fault_safe :: "vault_env \<Rightarrow> (vault \<Rightarrow> bool) \<Rightarrow> (exn \<Rightarrow> vault \<Rightarrow> bool) \<Rightarrow> bool" where
  "fault_safe E I Er \<longleftrightarrow> (\<forall>n l e s. ve_fault E n = Some (l, e) \<longrightarrow> I s \<longrightarrow> Er e s)"

lemma fault_safe_inv: "fault_safe E I (\<lambda>_. I)"
  by (simp add: fault_safe_def)

lemma fault_safe_none: "no_fault E \<Longrightarrow> fault_safe E I Er"
  by (simp add: fault_safe_def)

lemma triple_atomic:
  assumes "fault_safe E I Er" and "uncounted P" and "\<And>s. P s \<Longrightarrow> I s" and "\<And>s. P s \<Longrightarrow> Q (f s)" and "\<And>s. P s \<Longrightarrow> I (f s)"
  shows "triple P (atomic E f) (\<lambda>_. Q) Er"
  by (rule triple_effect) (use assms in \<open>auto simp: fault_safe_def\<close>)

section \<open>Removing the staging directory\<close>

definition names_in :: "text_str list \<Rightarrow> files option \<Rightarrow> bool" where
  "names_in names d \<longleftrightarrow> (\<forall>fs n v. d = Some fs \<longrightarrow> (n, v) \<in> set fs \<longrightarrow> n \<in> set names)"

lemma names_in_unlink: "names_in (x # xs) d \<Longrightarrow> names_in xs (map_option (unlink_file x) d)"
  by (fastforce simp: names_in_def unlink_file_def)

lemma names_in_Nil: "names_in [] d \<Longrightarrow> d = None \<or> d = Some []"
  by (cases d; cases "the d") (auto simp: names_in_def)

lemma names_in_listing: "names_in (listing fs) (Some fs)"
  by (force simp: names_in_def listing_def)

lemma rmtree_removes:
  assumes get_upd: "\<And>f s. get (upd f s) = f (get s)" and get_ops: "\<And>n s. get (s\<lparr>va_ops := n\<rparr>) = get s"
    and fs: "fault_safe E I Er" and P: "uncounted P" "\<And>s. P s \<Longrightarrow> I s"
    and unlink: "\<And>s f. P s \<Longrightarrow> P (upd (map_option (unlink_file f)) s)"
    and rmdir: "\<And>s. P s \<Longrightarrow> P (upd (\<lambda>d. if d = Some [] then None else d) s)"
  shows "triple P (rmtree E get upd) (\<lambda>_ s. P s \<and> (no_fault E \<longrightarrow> get s = None)) Er"
proof -
  let ?I = "\<lambda>names s. P s \<and> (no_fault E \<longrightarrow> names_in names (get s))"
  have un: "uncounted (?I names)" for names using P(1) by (simp add: uncounted_def get_ops)
  have step: "triple (?I (x # xs)) (tolerant E (upd (map_option (unlink_file x)))) (\<lambda>_. ?I xs) Er" for x xs
  proof (rule triple_tolerant [OF un])
    let ?u = "upd (map_option (unlink_file x))"
    fix s assume s: "?I (x # xs) s"
    have "get (?u s) = map_option (unlink_file x) (get s)" by (rule get_upd)
    with s unlink show kept: "P (?u s) \<and> (no_fault E \<longrightarrow> names_in xs (get (?u s)))"
      using names_in_unlink by metis
    fix n l e assume fault: "ve_fault E n = Some (l, e)"
    then have "\<not> no_fault E" by auto
    with s kept fault fs P(2) show "(Er e s \<and> Er e (?u s)) \<and> P s \<and> (no_fault E \<longrightarrow> names_in xs (get s))"
      unfolding fault_safe_def by blast
  qed
  have loop: "triple (?I names) (for_each (\<lambda>name. tolerant E (upd (map_option (unlink_file name)))) names) (\<lambda>_. ?I []) Er" for names
    by (rule triple_for_each) (rule step)
  have last: "triple (?I []) (tolerant E (upd (\<lambda>d. if d = Some [] then None else d)))
      (\<lambda>_ s. P s \<and> (no_fault E \<longrightarrow> get s = None)) Er"
  proof (rule triple_tolerant [OF un])
    fix s assume s: "?I [] s"
    then have "no_fault E \<longrightarrow> get s = None \<or> get s = Some []" using names_in_Nil by blast
    with s rmdir [of s] show "P (upd (\<lambda>d. if d = Some [] then None else d) s) \<and>
        (no_fault E \<longrightarrow> get (upd (\<lambda>d. if d = Some [] then None else d) s) = None)"
      by (auto simp: get_upd)
  qed (use fs P(2) rmdir in \<open>auto simp: fault_safe_def\<close>)
  show ?thesis
    unfolding rmtree_def
  proof (rule triple_gets)
    fix d
    show "triple (\<lambda>s. P s \<and> get s = d)
        (case d of None \<Rightarrow> ret ()
         | Some fs \<Rightarrow> thenP (for_each (\<lambda>name. tolerant E (upd (map_option (unlink_file name)))) (listing fs))
             (tolerant E (upd (\<lambda>d. if d = Some [] then None else d))))
        (\<lambda>_ s. P s \<and> (no_fault E \<longrightarrow> get s = None)) Er"
    proof (cases d)
      case None
      then show ?thesis by (simp add: triple_def)
    next
      case (Some fs)
      have "triple (?I (listing fs)) (thenP (for_each (\<lambda>name. tolerant E (upd (map_option (unlink_file name)))) (listing fs))
             (tolerant E (upd (\<lambda>d. if d = Some [] then None else d))))
          (\<lambda>_ s. P s \<and> (no_fault E \<longrightarrow> get s = None)) Er"
        by (rule triple_then [OF loop last])
      then show ?thesis unfolding Some option.case by (rule triple_pre) (simp add: names_in_listing)
    qed
  qed
qed

lemma rmtree_staging:
  assumes "fault_safe E I Er" and "uncounted P" and "\<And>s. P s \<Longrightarrow> I s"
    and "\<And>s f. P s \<Longrightarrow> P (va_staging_update (map_option (unlink_file f)) s)"
    and "\<And>s. P s \<Longrightarrow> P (va_staging_update (\<lambda>d. if d = Some [] then None else d) s)"
  shows "triple P (rmtree E va_staging va_staging_update) (\<lambda>_ s. P s \<and> (no_fault E \<longrightarrow> va_staging s = None)) Er"
  by (rule rmtree_removes [OF _ _ assms]) simp_all

section \<open>Finishing a commit\<close>

lemma overlay_move:
  assumes "visible st name = Some data" and "b \<noteq> None"
  shows "overlay (map_option (unlink_file name) st) (map_option (dict_set name data) b) = overlay st b"
proof
  fix k
  have "\<not> is_tmp name" using assms(1) by (auto simp: visible_def split: if_splits)
  then show "overlay (map_option (unlink_file name) st) (map_option (dict_set name data) b) k = overlay st b k"
    using assms by (auto simp: overlay_def split: option.split)
qed

lemma overlay_mkdir [simp]: "overlay st (mkdir_exist_ok b) = overlay st b"
  by (simp add: overlay_def fun_eq_iff split: option.split)

lemma mkdir_not_none [simp]: "mkdir_exist_ok b \<noteq> None"
  by (simp add: mkdir_exist_ok_def split: option.splits)

lemma uncounted_fields: "uncounted (\<lambda>s. F (va_marker s) (va_manifest s) (va_staging s) (va_blobs s))"
  by (simp add: uncounted_def)

definition pending :: "crypto \<Rightarrow> text_str set \<Rightarrow> (text_str \<Rightarrow> bytes option) \<Rightarrow> marker \<Rightarrow> vault \<Rightarrow> bool" where
  "pending C T content m s \<longleftrightarrow>
     va_marker s = Some m \<and> committing C T content m (va_manifest s) (overlay (va_staging s) (va_blobs s))"

lemma pending_inv: "pending C T content m s \<Longrightarrow> vault_inv C T content s"
  by (simp add: pending_def vault_inv_def)

lemma inv_pending: "vault_inv C T content s \<Longrightarrow> va_marker s = Some m \<Longrightarrow> pending C T content m s"
  by (simp add: pending_def vault_inv_def)

text \<open>The move loop: what is still to be moved is exactly what the staging directory shows.\<close>

definition moving :: "crypto \<Rightarrow> text_str set \<Rightarrow> (text_str \<Rightarrow> bytes option) \<Rightarrow> marker \<Rightarrow> text_str list \<Rightarrow> vault \<Rightarrow> bool" where
  "moving C T content m names s \<longleftrightarrow>
     pending C T content m s \<and> va_blobs s \<noteq> None \<and> distinct names
     \<and> (\<forall>k. k \<in> set names \<longleftrightarrow> visible (va_staging s) k \<noteq> None)"

lemma moving_uncounted: "uncounted (moving C T content m names)" "uncounted (pending C T content m)"
  by (simp_all add: moving_def pending_def uncounted_def)

lemma file_bytes_visible: "visible d k = Some v \<Longrightarrow> file_bytes d k = Some v"
  by (simp add: visible_def split: if_splits)

lemma move_staged_moving:
  assumes fs: "fault_safe E (vault_inv C T content) Er"
  shows "triple (moving C T content m (name # names)) (move_staged E name) (\<lambda>_. moving C T content m names) Er"
  unfolding move_staged_def
proof (rule triple_gets)
  fix present
  let ?P = "\<lambda>s. moving C T content m (name # names) s \<and> file_bytes (va_staging s) name = present"
  show "triple ?P
      (case present of None \<Rightarrow> raise (Exn OSError ''No such file or directory'')
       | Some data \<Rightarrow> atomic E (\<lambda>s. s\<lparr>va_blobs := map_option (dict_set name data) (va_blobs s),
                         va_staging := map_option (unlink_file name) (va_staging s)\<rparr>))
      (\<lambda>_. moving C T content m names) Er"
  proof (cases present)
    case None
    have "\<not> ?P s" for s
    proof
      assume P: "?P s"
      then have "\<forall>k. k \<in> set (name # names) \<longleftrightarrow> visible (va_staging s) k \<noteq> None" unfolding moving_def by blast
      then have "visible (va_staging s) name \<noteq> None" by (metis list.set_intros(1))
      with P None file_bytes_visible [of "va_staging s" name] show False by auto
    qed
    then show ?thesis unfolding triple_def by blast
  next
    case (Some data)
    let ?f = "\<lambda>s. s\<lparr>va_blobs := map_option (dict_set name data) (va_blobs s),
                         va_staging := map_option (unlink_file name) (va_staging s)\<rparr>"
    have moved: "moving C T content m names (?f s)" if s: "?P s" for s
    proof -
      have vis: "visible (va_staging s) name = Some data" and b: "va_blobs s \<noteq> None"
        using s Some file_bytes_visible [of "va_staging s" name] by (auto simp: moving_def)
      with s show ?thesis by (auto simp: moving_def pending_def overlay_move)
    qed
    have inv: "vault_inv C T content s" if "moving C T content m ks s" for s ks
      using that pending_inv unfolding moving_def by blast
    have "triple ?P (atomic E ?f) (\<lambda>_. moving C T content m names) Er"
      by (rule triple_atomic [OF fs]) (use moved inv moving_uncounted in \<open>auto simp: uncounted_def\<close>)
    then show ?thesis by (simp add: Some)
  qed
qed

lemma visible_listing: "distinct (plain_files d)" "k \<in> set (plain_files d) \<longleftrightarrow> visible d k \<noteq> None"
  by (simp add: plain_files_def listing_def split: option.split) (rule plain_files_iff)

definition moved :: "crypto \<Rightarrow> text_str set \<Rightarrow> (text_str \<Rightarrow> bytes option) \<Rightarrow> marker \<Rightarrow> vault \<Rightarrow> bool" where
  "moved C T content m s \<longleftrightarrow> pending C T content m s \<and> (\<forall>k. visible (va_staging s) k = None)"

lemma overlay_moved: "(\<forall>k. visible st k = None) \<Longrightarrow> overlay st b = visible b"
  by (simp add: overlay_def fun_eq_iff)

lemma moved_alt: "moved C T content m s \<longleftrightarrow>
    va_marker s = Some m \<and> (\<forall>k. visible (va_staging s) k = None) \<and> committing C T content m (va_manifest s) (visible (va_blobs s))"
  by (auto simp: moved_def pending_def overlay_moved)

lemma moved_inv: "moved C T content m s \<Longrightarrow> vault_inv C T content s"
  using pending_inv unfolding moved_def by blast

lemma move_all_moved:
  assumes fs: "fault_safe E (vault_inv C T content) Er"
  shows "triple (pending C T content m) (move_all E) (\<lambda>_ s. moved C T content m s \<and> (no_fault E \<longrightarrow> va_staging s = None)) Er"
  unfolding move_all_def
proof (rule triple_gets)
  fix st
  let ?Q = "\<lambda>_ s. moved C T content m s \<and> (no_fault E \<longrightarrow> va_staging s = None)"
  let ?made = "\<lambda>s. pending C T content m s \<and> va_blobs s \<noteq> None"
  have rm: "triple (moved C T content m) (rmtree E va_staging va_staging_update) ?Q Er"
    by (rule rmtree_staging [OF fs]) (use moved_inv in \<open>auto simp: moved_alt uncounted_def\<close>)
  have mk: "triple (pending C T content m) (atomic E (va_blobs_update mkdir_exist_ok)) (\<lambda>_. ?made) Er"
    by (rule triple_atomic [OF fs moving_uncounted(2)]) (auto simp: pending_def vault_inv_def)
  have loop: "triple ?made (bindP (getsP (\<lambda>s. plain_files (va_staging s))) (for_each (move_staged E))) (\<lambda>_. moved C T content m) Er"
  proof (rule triple_gets)
    fix names
    have "triple (moving C T content m names) (for_each (move_staged E) names) (\<lambda>_. moving C T content m []) Er"
      by (rule triple_for_each) (rule move_staged_moving [OF fs])
    then show "triple (\<lambda>s. ?made s \<and> plain_files (va_staging s) = names) (for_each (move_staged E) names)
        (\<lambda>_. moved C T content m) Er"
      by (rule triple_conseq) (auto simp: moving_def moved_def visible_listing)
  qed
  show "triple (\<lambda>s. pending C T content m s \<and> va_staging s = st)
      (case st of None \<Rightarrow> ret () | Some _ \<Rightarrow>
         thenP (atomic E (va_blobs_update mkdir_exist_ok))
        (thenP (bindP (getsP (\<lambda>s. plain_files (va_staging s))) (for_each (move_staged E)))
           (rmtree E va_staging va_staging_update))) ?Q Er"
  proof (cases st)
    case None
    then show ?thesis by (auto simp: triple_def moved_def)
  next
    case (Some fs)
    have "triple (pending C T content m) (thenP (atomic E (va_blobs_update mkdir_exist_ok))
        (thenP (bindP (getsP (\<lambda>s. plain_files (va_staging s))) (for_each (move_staged E)))
           (rmtree E va_staging va_staging_update))) ?Q Er"
      by (rule triple_then [OF mk triple_then [OF loop rm]])
    then show ?thesis by (simp add: Some triple_def)
  qed
qed

text \<open>The manifest is brought in line, then the marker is removed.\<close>

fun marker_manifest :: "marker \<Rightarrow> stored_manifest option" where
  "marker_manifest (Marker_Enable d) = Some d"
| "marker_manifest Marker_Disable = None"

definition closing :: "crypto \<Rightarrow> text_str set \<Rightarrow> (text_str \<Rightarrow> bytes option) \<Rightarrow> marker \<Rightarrow> vault \<Rightarrow> bool" where
  "closing C T content m s \<longleftrightarrow>
     moved C T content m s \<and> va_manifest s = marker_manifest m"

lemma closing_readable: "closing C T content m s \<Longrightarrow> readable C T content (va_manifest s) (va_blobs s)"
  by (cases m) (auto simp: closing_def moved_alt committing_def readable_def manifest_mode_def)

lemma closing_manifest: "closing C T content m s \<Longrightarrow> va_manifest s = marker_manifest m"
  by (simp add: closing_def)

lemma moved_uncounted: "uncounted (moved C T content m)" "uncounted (closing C T content m)"
  by (simp_all add: closing_def moved_alt uncounted_def)

lemma moved_marker: "moved C T content (Marker_Enable d) s \<Longrightarrow> \<exists>m. d = dump_manifest m"
  by (auto simp: moved_alt committing_def sealed_def)

lemma moved_dumped: "moved C T content (Marker_Enable d) s \<Longrightarrow> va_manifest s = Some d' \<Longrightarrow> \<exists>m. d' = dump_manifest m"
  by (auto simp: moved_alt committing_def sealed_def)

lemma conj_staging_uncounted: "uncounted P \<Longrightarrow> uncounted (\<lambda>s. P s \<and> (b \<longrightarrow> va_staging s = None))"
  by (simp add: uncounted_def)

lemma set_manifest_closing:
  assumes "moved C T content m s"
  shows "closing C T content m (s\<lparr>va_manifest := marker_manifest m\<rparr>)"
  using assms by (cases m) (auto simp: closing_def moved_alt committing_def)

lemma closing_inv: "closing C T content m s \<Longrightarrow> vault_inv C T content s"
  using moved_inv unfolding closing_def by blast

lemmas set_manifest_inv = closing_inv [OF set_manifest_closing]

lemma manifest_loaded:
  assumes fs: "fault_safe E I Er" and P: "uncounted P" "\<And>s. P s \<Longrightarrow> I s"
    and ok: "\<And>s d. P s \<Longrightarrow> va_manifest s = Some d \<Longrightarrow> \<exists>m. d = dump_manifest m"
  shows "triple P (manifest_load E) (\<lambda>present s. P s \<and> va_manifest s = map_option dump_manifest present) Er"
  unfolding manifest_load_def
proof (rule triple_gets)
  fix present
  let ?P = "\<lambda>s. P s \<and> va_manifest s = present"
  show "triple ?P (case present of None \<Rightarrow> ret None
      | Some data \<Rightarrow> thenP (atomic E id) (bindP (liftE (load_manifest data)) (\<lambda>m. ret (Some m))))
      (\<lambda>present s. P s \<and> va_manifest s = map_option dump_manifest present) Er"
  proof (cases present)
    case None
    then show ?thesis by (simp add: triple_def)
  next
    case (Some data)
    have "triple ?P (atomic E id) (\<lambda>_. ?P) Er"
      by (rule triple_atomic [OF fs]) (use P in \<open>auto simp: uncounted_def\<close>)
    moreover have "triple ?P (bindP (liftE (load_manifest data)) (\<lambda>m. ret (Some m)))
        (\<lambda>present s. P s \<and> va_manifest s = map_option dump_manifest present) Er"
      unfolding triple_def
    proof (intro allI impI)
      fix s assume s: "?P s"
      then obtain m where "data = dump_manifest m" using ok Some by blast
      with s Some show "case bindP (liftE (load_manifest data)) (\<lambda>m. ret (Some m)) s of (Inl e, w') \<Rightarrow> Er e w'
          | (Inr a, w') \<Rightarrow> P w' \<and> va_manifest w' = map_option dump_manifest a" by simp
    qed
    ultimately show ?thesis unfolding Some option.case by (rule triple_then)
  qed
qed

lemma finish_commit_settles:
  assumes fs: "fault_safe E (vault_inv C T content) Er"
  shows "triple (pending C T content m) (finish_commit E m)
    (\<lambda>_ s. va_marker s = None \<and> vault_inv C T content s \<and> va_manifest s = marker_manifest m
       \<and> (no_fault E \<longrightarrow> va_staging s = None)) Er"
proof -
  let ?st = "\<lambda>P s. P s \<and> (no_fault E \<longrightarrow> va_staging s = None)"
  let ?moved = "?st (moved C T content m)" and ?closing = "?st (closing C T content m)"
  have un: "uncounted ?moved" "uncounted ?closing" by (intro conj_staging_uncounted moved_uncounted)+
  have manifest: "triple ?moved
      (case m of Marker_Enable d \<Rightarrow> bindP (manifest_load E) (\<lambda>present.
                whenP (present = None) (bindP (liftE (load_manifest d)) (manifest_save E)))
            | Marker_Disable \<Rightarrow> manifest_delete E) (\<lambda>_. ?closing) Er"
  proof (cases m)
    case Marker_Disable
    have "triple ?moved (manifest_delete E) (\<lambda>_. ?closing) Er"
      unfolding manifest_delete_def
      by (rule triple_atomic [OF fs un(1)])
        (use set_manifest_closing [of C T content m] set_manifest_inv [of C T content m] Marker_Disable moved_inv
          in \<open>auto simp del: not_None_eq\<close>)
    then show ?thesis by (simp add: Marker_Disable)
  next
    case (Marker_Enable d)
    have dumped: "\<exists>m'. d = dump_manifest m'" if "?moved s" for s
      using that moved_marker Marker_Enable by blast
    have "triple ?moved (manifest_load E) (\<lambda>present s. ?moved s \<and> va_manifest s = map_option dump_manifest present) Er"
    proof (rule manifest_loaded [OF fs un(1)])
      show "?moved s \<Longrightarrow> vault_inv C T content s" for s using moved_inv by blast
      show "?moved s \<Longrightarrow> va_manifest s = Some d' \<Longrightarrow> \<exists>m. d' = dump_manifest m" for s d'
        using moved_dumped Marker_Enable by blast
    qed
    moreover have "triple (\<lambda>s. ?moved s \<and> va_manifest s = map_option dump_manifest present)
        (whenP (present = None) (bindP (liftE (load_manifest d)) (manifest_save E))) (\<lambda>_. ?closing) Er" for present
    proof (rule triple_when)
      fix s assume "present \<noteq> None" "?moved s \<and> va_manifest s = map_option dump_manifest present"
      then show "?closing s" using Marker_Enable by (auto simp: closing_def moved_alt committing_def)
    next
      have save: "triple ?moved (manifest_save E m') (\<lambda>_. ?closing) Er" if d: "d = dump_manifest m'" for m'
        unfolding manifest_save_def
        by (rule triple_then [where R = ?moved]; rule triple_atomic [OF fs un(1)])
          (use set_manifest_closing [of C T content m] set_manifest_inv [of C T content m] Marker_Enable d moved_inv
            in \<open>auto simp del: not_None_eq\<close>)
      show "triple (\<lambda>s. ?moved s \<and> va_manifest s = map_option dump_manifest present)
          (bindP (liftE (load_manifest d)) (manifest_save E)) (\<lambda>_. ?closing) Er"
        unfolding triple_def
      proof (intro allI impI)
        fix s assume s: "?moved s \<and> va_manifest s = map_option dump_manifest present"
        then obtain m' where d: "d = dump_manifest m'" using dumped by blast
        from save [OF d] s show "case bindP (liftE (load_manifest d)) (manifest_save E) s of (Inl e, w') \<Rightarrow> Er e w' | (Inr a, w') \<Rightarrow> ?closing w'"
          by (simp add: triple_def bindP_def d)
      qed
    qed
    ultimately show ?thesis unfolding Marker_Enable marker.case by (rule triple_bind)
  qed
  have unmark: "triple ?closing (atomic E (\<lambda>s. s\<lparr>va_marker := None\<rparr>))
      (\<lambda>_ s. va_marker s = None \<and> vault_inv C T content s \<and> va_manifest s = marker_manifest m
       \<and> (no_fault E \<longrightarrow> va_staging s = None)) Er"
    by (rule triple_atomic [OF fs un(2)])
      (use closing_readable closing_inv closing_manifest in \<open>auto simp: vault_inv_def [where s = "va_marker_update _ _"]\<close>)
  show ?thesis
    unfolding finish_commit_def
    by (rule triple_then [OF move_all_moved [OF fs] triple_then [OF manifest unmark]])
qed

section \<open>Recovery\<close>

lemma settled_iff: "settled C T content s \<longleftrightarrow>
    vault_inv C T content s \<and> va_marker s = None \<and> va_staging s = None \<and> \<not> va_held s"
  by (auto simp: settled_def vault_inv_def)

lemma inv_counters [simp]:
  "vault_inv C T content (s\<lparr>va_held := b\<rparr>) = vault_inv C T content s"
  "vault_inv C T content (s\<lparr>va_ops := n\<rparr>) = vault_inv C T content s"
  by (simp_all add: vault_inv_def split: option.split)

lemma inv_uncounted: "uncounted (vault_inv C T content)" "uncounted (\<lambda>s. va_marker s = None \<and> vault_inv C T content s)"
  by (simp_all add: uncounted_def)

lemma recover_locked_settles:
  assumes fs: "fault_safe E (vault_inv C T content) Er"
  shows "triple (vault_inv C T content) (recover_locked E)
    (\<lambda>_ s. va_marker s = None \<and> vault_inv C T content s \<and> (no_fault E \<longrightarrow> va_staging s = None)) Er"
  unfolding recover_locked_def
proof (rule triple_gets)
  fix marker
  let ?Q = "\<lambda>_ s. va_marker s = None \<and> vault_inv C T content s \<and> (no_fault E \<longrightarrow> va_staging s = None)"
  show "triple (\<lambda>s. vault_inv C T content s \<and> va_marker s = marker)
      (case marker of Some m \<Rightarrow> thenP (atomic E id) (finish_commit E m)
       | None \<Rightarrow> bindP (getsP va_staging) (\<lambda>st. whenP (st \<noteq> None) (rmtree E va_staging va_staging_update))) ?Q Er"
  proof (cases marker)
    case None
    let ?P = "\<lambda>s. va_marker s = None \<and> vault_inv C T content s"
    have rm: "triple ?P (rmtree E va_staging va_staging_update) (\<lambda>_ s. ?P s \<and> (no_fault E \<longrightarrow> va_staging s = None)) Er"
      by (rule rmtree_staging [OF fs inv_uncounted(2)]) (auto simp: vault_inv_def)
    have "triple ?P (bindP (getsP va_staging) (\<lambda>st. whenP (st \<noteq> None) (rmtree E va_staging va_staging_update))) ?Q Er"
      by (rule triple_gets, rule triple_when) (use rm in \<open>auto intro: triple_conseq\<close>)
    then show ?thesis by (simp add: None conj_commute)
  next
    case (Some m)
    have "triple (pending C T content m) (atomic E id) (\<lambda>_. pending C T content m) Er"
      by (rule triple_atomic [OF fs moving_uncounted(2)]) (use pending_inv in auto)
    from triple_then [OF this finish_commit_settles [OF fs]]
    have "triple (pending C T content m) (thenP (atomic E id) (finish_commit E m)) ?Q Er"
      by (rule triple_conseq) auto
    then show ?thesis by (simp add: Some) (erule triple_pre, simp add: inv_pending)
  qed
qed

lemma triple_exclusive:
  assumes "uncounted P" and "\<And>s n. P s \<Longrightarrow> va_held s \<or> ve_busy E n \<Longrightarrow> Er store_locked s"
    and "\<And>s. P s \<Longrightarrow> P' (s\<lparr>va_held := True\<rparr>)" and "triple P' m (\<lambda>_. Q') R"
    and "\<And>s. Q' s \<Longrightarrow> Q (s\<lparr>va_held := False\<rparr>)" and "\<And>e s. R e s \<Longrightarrow> Er e (s\<lparr>va_held := False\<rparr>)"
  shows "triple P (with_exclusive_lock E m) (\<lambda>_ s. Q s \<and> \<not> va_held s) Er"
proof -
  have "triple P' (finallyP m (modifyP (\<lambda>s. s\<lparr>va_held := False\<rparr>))) (\<lambda>_ s. Q s \<and> \<not> va_held s) Er"
    using assms(4-6) unfolding triple_def finallyP_def by (auto split: prod.splits sum.splits)
  with assms(3) have body: "triple P (thenP (modifyP (\<lambda>s. s\<lparr>va_held := True\<rparr>))
      (finallyP m (modifyP (\<lambda>s. s\<lparr>va_held := False\<rparr>)))) (\<lambda>_ s. Q s \<and> \<not> va_held s) Er"
    by (auto simp: triple_def thenP_def bindP_def)
  show ?thesis
    unfolding with_exclusive_lock_def
    by (rule triple_bind [OF triple_next_op [OF assms(1)]], rule triple_gets)
      (use body assms(2) in \<open>auto simp: triple_def\<close>)
qed

lemma triple_recover:
  assumes locked: "triple P (with_exclusive_lock E (recover_locked E)) (\<lambda>_. Q) Er"
    and none: "\<And>s. P s \<Longrightarrow> va_marker s = None \<Longrightarrow> va_staging s = None \<Longrightarrow> Q s"
  shows "triple P (recover E) (\<lambda>_. Q) Er"
  unfolding recover_def
proof (rule triple_gets)
  fix nothing
  let ?P = "\<lambda>s. P s \<and> (va_marker s = None \<and> va_staging s = None) = nothing"
  show "triple ?P (if nothing then ret () else with_exclusive_lock E (recover_locked E)) (\<lambda>_. Q) Er"
  proof (cases nothing)
    case True
    then show ?thesis using none by (simp add: triple_def)
  next
    case False
    from locked have "triple ?P (with_exclusive_lock E (recover_locked E)) (\<lambda>_. Q) Er" by (rule triple_pre) blast
    with False show ?thesis by simp
  qed
qed

lemma recover_keeps: "triple (vault_inv C T content) (recover E) (\<lambda>_. vault_inv C T content) (\<lambda>_. vault_inv C T content)"
proof (rule triple_recover)
  have "triple (vault_inv C T content) (with_exclusive_lock E (recover_locked E))
      (\<lambda>_ s. vault_inv C T content s \<and> \<not> va_held s) (\<lambda>_. vault_inv C T content)"
    by (rule triple_exclusive [OF inv_uncounted(1) _ _ recover_locked_settles [OF fault_safe_inv]]) auto
  then show "triple (vault_inv C T content) (with_exclusive_lock E (recover_locked E))
      (\<lambda>_. vault_inv C T content) (\<lambda>_. vault_inv C T content)"
    by (rule triple_conseq) auto
qed

text \<open>A recovery that nothing interrupts returns and settles the store.\<close>

lemma recover_settles:
  assumes "no_fault E" and "\<forall>n. \<not> ve_busy E n"
  shows "triple (\<lambda>s. vault_inv C T content s \<and> \<not> va_held s) (recover E) (\<lambda>_. settled C T content) (\<lambda>_ _. False)"
proof (rule triple_recover)
  let ?P = "\<lambda>s. vault_inv C T content s \<and> \<not> va_held s"
  have un: "uncounted ?P" by (simp add: uncounted_def)
  have "triple ?P (with_exclusive_lock E (recover_locked E))
      (\<lambda>_ s. (va_marker s = None \<and> vault_inv C T content s \<and> va_staging s = None) \<and> \<not> va_held s) (\<lambda>_ _. False)"
    by (rule triple_exclusive [OF un _ _ recover_locked_settles [OF fault_safe_none [OF assms(1)]]])
      (use assms in auto)
  then show "triple ?P (with_exclusive_lock E (recover_locked E)) (\<lambda>_. settled C T content) (\<lambda>_ _. False)"
    by (rule triple_conseq) (auto simp: settled_iff)
qed (simp add: settled_iff)

section \<open>Staging\<close>

definition converted :: "crypto \<Rightarrow> bytes option \<Rightarrow> bytes option \<Rightarrow> text_str list \<Rightarrow> files option \<Rightarrow> files option \<Rightarrow> bool" where
  "converted C mode mode' names b st \<longleftrightarrow>
     (\<forall>k c v. visible b k = Some c \<longrightarrow> k \<notin> set names \<longrightarrow> opens C mode c = Some v \<longrightarrow>
        (\<exists>c'. visible st k = Some c' \<and> opens C mode' c' = Some v))"

text \<open>The state while the blobs of \<open>names\<close> are still to be staged.\<close>

definition staging ::
  "crypto \<Rightarrow> bytes option \<Rightarrow> bytes option \<Rightarrow> stored_manifest option \<Rightarrow> files option \<Rightarrow> text_str list \<Rightarrow> vault \<Rightarrow> bool" where
  "staging C mode mode' d b names s \<longleftrightarrow>
     va_marker s = None \<and> va_manifest s = d \<and> va_blobs s = b \<and> va_staging s \<noteq> None
     \<and> converted C mode mode' names b (va_staging s)"

lemma staging_uncounted: "uncounted (staging C mode mode' d b names)"
  by (simp add: staging_def uncounted_def)

lemma is_tmp_suffix [simp]: "is_tmp (name @ ''.tmp'')"
  by (simp add: is_tmp_def ends_with_def)

lemma staging_tmp:
  "staging C mode mode' d b names s \<Longrightarrow>
   staging C mode mode' d b names (va_staging_update (map_option (dict_set (name @ ''.tmp'') out)) s)"
  by (auto simp: staging_def converted_def)

lemma staging_done:
  assumes "staging C mode mode' d b (name # names) s"
    and "\<And>c v. visible b name = Some c \<Longrightarrow> opens C mode c = Some v \<Longrightarrow> opens C mode' out = Some v"
  shows "staging C mode mode' d b names
    (va_staging_update (map_option (\<lambda>fs. dict_set name out (unlink_file (name @ ''.tmp'') fs))) s)"
proof -
  obtain fs where fs: "va_staging s = Some fs" using assms(1) by (auto simp: staging_def)
  let ?new = "Some (dict_set name out (unlink_file (name @ ''.tmp'') fs))"
  have "\<exists>c'. visible ?new k = Some c' \<and> opens C mode' c' = Some v"
    if k: "visible b k = Some c" "k \<notin> set names" "opens C mode c = Some v" for k c v
  proof (cases "k = name")
    case True
    moreover have "\<not> is_tmp k" using k(1) by (auto simp: visible_def split: if_splits)
    ultimately show ?thesis using assms(2) k by simp
  next
    case False
    moreover have "k \<noteq> name @ ''.tmp''" using k(1) by (auto simp: visible_def)
    moreover have "\<exists>c'. visible (Some fs) k = Some c' \<and> opens C mode' c' = Some v"
      using assms(1) k False fs by (simp add: staging_def converted_def)
    ultimately show ?thesis by simp
  qed
  then show ?thesis using assms(1) fs by (simp add: staging_def converted_def)
qed

text \<open>What a transform has to do: turn content readable in the old mode into content of the new one.\<close>

definition converts ::
  "vault_env \<Rightarrow> crypto \<Rightarrow> bytes option \<Rightarrow> bytes option \<Rightarrow> (vault \<Rightarrow> bool) \<Rightarrow> files option \<Rightarrow> (exn \<Rightarrow> vault \<Rightarrow> bool)
     \<Rightarrow> (bytes \<Rightarrow> (vault, bytes) prog) \<Rightarrow> bool" where
  "converts E C mode mode' I b Er transform \<longleftrightarrow>
     (\<forall>P name data. uncounted P \<longrightarrow> (\<forall>s. P s \<longrightarrow> I s) \<longrightarrow> name \<in> set (plain_files b) \<longrightarrow> file_bytes b name = Some data \<longrightarrow>
        triple P (transform data)
          (\<lambda>out s. P s \<and> (\<forall>v. opens C mode data = Some v \<longrightarrow> opens C mode' out = Some v)) Er)"

lemma stage_blob_staging:
  assumes fs: "fault_safe E (vault_inv C T content) Er" and tr: "converts E C mode mode' (vault_inv C T content) b Er transform"
    and inv: "\<And>s names. staging C mode mode' d b names s \<Longrightarrow> vault_inv C T content s"
    and name: "name \<in> set (plain_files b)"
  shows "triple (staging C mode mode' d b (name # names)) (stage_blob E transform name)
    (\<lambda>_. staging C mode mode' d b names) Er"
proof -
  let ?P = "staging C mode mode' d b (name # names)"
  obtain data where data: "file_bytes b name = Some data"
    using name by (auto simp: plain_files_iff visible_def split: if_splits)
  have atom: "triple ?P (atomic E id) (\<lambda>_. ?P) Er"
    by (rule triple_atomic [OF fs staging_uncounted]) (use inv in auto)
  have read: "triple ?P (read_blob E name) (\<lambda>x s. ?P s \<and> x = data) Er"
    unfolding read_blob_def
  proof (rule triple_gets)
    fix present
    have "triple ?P (thenP (atomic E id) (ret data)) (\<lambda>x s. ?P s \<and> x = data) Er"
      by (rule triple_then [OF atom]) (simp add: triple_def)
    then show "triple (\<lambda>s. ?P s \<and> file_bytes (va_blobs s) name = present)
        (case present of None \<Rightarrow> raise (Exn OSError ''No such file or directory'')
         | Some data \<Rightarrow> thenP (atomic E id) (ret data)) (\<lambda>x s. ?P s \<and> x = data) Er"
      using data by (cases present) (auto simp: triple_def staging_def)
  qed
  have trans: "triple ?P (transform data)
      (\<lambda>out s. ?P s \<and> (\<forall>v. opens C mode data = Some v \<longrightarrow> opens C mode' out = Some v)) Er"
    using tr inv staging_uncounted name data unfolding converts_def by blast
  have tmp: "triple (\<lambda>s. ?P s \<and> G) (effect E (va_staging_update (map_option (dict_set (name @ ''.tmp'') out)))
        (\<lambda>n. va_staging_update (map_option (dict_set (name @ ''.tmp'') (ve_torn E n))))) (\<lambda>_ s. ?P s \<and> G) Er" for out G
  proof (rule triple_effect)
    show "uncounted (\<lambda>s. ?P s \<and> G)" using staging_uncounted [of C mode mode' d b "name # names"] by (simp add: uncounted_def)
    show "?P (va_staging_update (map_option (dict_set (name @ ''.tmp'') out)) s) \<and> G" if "?P s \<and> G" for s
      using that staging_tmp by blast
    show "Er e s \<and> Er e (va_staging_update (map_option (dict_set (name @ ''.tmp'') (ve_torn E n))) s)"
      if "?P s \<and> G" "ve_fault E n = Some (l, e)" for s n l e
      using that fs inv [of "name # names" s] inv [OF staging_tmp, of "name # names" s name] unfolding fault_safe_def by blast
  qed
  have put: "triple (\<lambda>s. ?P s \<and> (\<forall>v. opens C mode data = Some v \<longrightarrow> opens C mode' out = Some v))
      (atomic E (va_staging_update (map_option (\<lambda>fs. dict_set name out (unlink_file (name @ ''.tmp'') fs)))))
      (\<lambda>_. staging C mode mode' d b names) Er" for out
  proof (rule triple_atomic [OF fs])
    let ?G = "\<forall>v. opens C mode data = Some v \<longrightarrow> opens C mode' out = Some v"
    show "uncounted (\<lambda>s. ?P s \<and> ?G)"
      using staging_uncounted [of C mode mode' d b "name # names"] by (simp add: uncounted_def)
    fix s assume s: "?P s \<and> ?G"
    then show "vault_inv C T content s" using inv by blast
    show step: "staging C mode mode' d b names
        (va_staging_update (map_option (\<lambda>fs. dict_set name out (unlink_file (name @ ''.tmp'') fs))) s)"
      by (rule staging_done [of C mode mode' d b name names s out]) (use s data file_bytes_visible in auto)
    then show "vault_inv C T content
        (va_staging_update (map_option (\<lambda>fs. dict_set name out (unlink_file (name @ ''.tmp'') fs))) s)" by (rule inv)
  qed
  let ?rest = "\<lambda>x. bindP (transform x) (\<lambda>out. thenP
      (effect E (va_staging_update (map_option (dict_set (name @ ''.tmp'') out)))
        (\<lambda>n. va_staging_update (map_option (dict_set (name @ ''.tmp'') (ve_torn E n)))))
      (atomic E (va_staging_update (map_option (\<lambda>fs. dict_set name out (unlink_file (name @ ''.tmp'') fs))))))"
  have rest: "triple ?P (?rest data) (\<lambda>_. staging C mode mode' d b names) Er"
    by (rule triple_bind [OF trans], rule triple_then [OF tmp put])
  have "triple (\<lambda>s. ?P s \<and> x = data) (?rest x) (\<lambda>_. staging C mode mode' d b names) Er" for x
    by (cases "x = data") (use rest in \<open>auto simp: triple_def\<close>)
  then show ?thesis unfolding stage_blob_def Let_def by (rule triple_bind [OF read])
qed

lemma stage_staging:
  assumes fs: "fault_safe E (vault_inv C T content) Er" and tr: "converts E C mode mode' (vault_inv C T content) b Er transform"
    and content: "readable C T content d b"
  shows "triple (\<lambda>s. va_marker s = None \<and> va_manifest s = d \<and> va_blobs s = b) (stage E transform)
    (\<lambda>_. staging C mode mode' d b []) Er"
proof -
  let ?P = "\<lambda>s. va_marker s = None \<and> va_manifest s = d \<and> va_blobs s = b"
  have inv: "vault_inv C T content s" if "?P s" for s using that content by (simp add: vault_inv_def)
  have un: "uncounted ?P" by (simp add: uncounted_def)
  have rm: "triple ?P (rmtree E va_staging va_staging_update) (\<lambda>_. ?P) Er"
    by (rule triple_conseq [OF rmtree_staging [OF fs un inv]]) auto
  have mk: "triple ?P (atomic E (va_staging_update mkdir_exist_ok)) (\<lambda>_ s. ?P s \<and> va_staging s \<noteq> None) Er"
    by (rule triple_atomic [OF fs un inv]) (use inv in auto)
  have loop: "triple (\<lambda>s. ?P s \<and> va_staging s \<noteq> None) (bindP (getsP (\<lambda>s. plain_files (va_blobs s))) (for_each (stage_blob E transform)))
      (\<lambda>_. staging C mode mode' d b []) Er"
  proof (rule triple_gets)
    fix names
    let ?I = "\<lambda>names s. staging C mode mode' d b names s \<and> set names \<subseteq> set (plain_files b)"
    have "triple (?I (x # xs)) (stage_blob E transform x) (\<lambda>_. ?I xs) Er" for x xs
    proof (cases "set (x # xs) \<subseteq> set (plain_files b)")
      case True
      have "triple (staging C mode mode' d b (x # xs)) (stage_blob E transform x) (\<lambda>_. staging C mode mode' d b xs) Er"
        by (rule stage_blob_staging [OF fs tr]) (use inv True in \<open>auto simp: staging_def\<close>)
      then show ?thesis by (rule triple_conseq) (use True in auto)
    qed (auto simp: triple_def)
    then have "triple (?I names) (for_each (stage_blob E transform) names) (\<lambda>_. ?I []) Er" by (rule triple_for_each)
    then show "triple (\<lambda>s. (?P s \<and> va_staging s \<noteq> None) \<and> plain_files (va_blobs s) = names)
        (for_each (stage_blob E transform) names) (\<lambda>_. staging C mode mode' d b []) Er"
      by (rule triple_conseq) (auto simp: staging_def converted_def plain_files_iff)
  qed
  show ?thesis unfolding stage_def by (rule triple_then [OF rm triple_then [OF mk loop]])
qed

text \<open>What has been staged is what a commit needs.\<close>

lemma staged_content:
  assumes "converted C mode mode' [] b st" and "holds_content C mode content (visible b)"
  shows "holds_content C mode' content (overlay st b)"
  unfolding holds_content_def
proof (intro allI impI)
  fix k v assume "content k = Some v"
  then obtain c where "visible b k = Some c" "opens C mode c = Some v" using assms(2) unfolding holds_content_def by blast
  then obtain c' where "visible st k = Some c'" "opens C mode' c' = Some v" using assms(1) unfolding converted_def by (metis empty_iff empty_set)
  then show "\<exists>c. overlay st b k = Some c \<and> opens C mode' c = Some v" by (simp add: overlay_def)
qed

lemma commit_settles:
  assumes fs: "fault_safe E (vault_inv C T content) Er"
    and P: "uncounted P" "\<And>s. P s \<Longrightarrow> vault_inv C T content s"
    and ready: "\<And>s. P s \<Longrightarrow> pending C T content m (s\<lparr>va_marker := Some m\<rparr>)"
  shows "triple P (commit E m) (\<lambda>_ s. va_marker s = None \<and> vault_inv C T content s \<and> va_manifest s = marker_manifest m
       \<and> (no_fault E \<longrightarrow> va_staging s = None)) Er"
proof -
  have "triple P (write_marker E m) (\<lambda>_. pending C T content m) Er"
    unfolding write_marker_def
    by (rule triple_then [where R = P]; rule triple_atomic [OF fs P]) (use P(2) ready pending_inv in \<open>auto, blast?\<close>)
  then show ?thesis unfolding commit_def by (rule triple_then [OF _ finish_commit_settles [OF fs]])
qed

lemma uncounted_conj: "uncounted P \<Longrightarrow> uncounted (\<lambda>s. P s \<and> G)"
  by (simp add: uncounted_def)

section \<open>The operations\<close>

text \<open>
  What the code relies on of the cipher: opening gives back what was sealed, and one envelope opens
  to one data key only (a wrong token is refused).
\<close>

definition cipher_sound :: "crypto \<Rightarrow> bool" where
  "cipher_sound C \<longleftrightarrow> aead_correct C
     \<and> (\<forall>m t t' k k'. open_envelope C t m = Inr k \<longrightarrow> open_envelope C t' m = Inr k' \<longrightarrow> k = k')"

definition vault_env_ok :: "crypto \<Rightarrow> vault_env \<Rightarrow> bool" where
  "vault_env_ok C E \<longleftrightarrow>
     (ve_cipher E = None \<or> ve_cipher E = Some C) \<and> (\<forall>n len. length (ve_random E n len) = len)"

lemma triple_ghost: "(\<And>x. triple (\<lambda>s. P s \<and> g s = x) m Q Er) \<Longrightarrow> triple P m Q Er"
  by (simp add: triple_def)

lemma triple_fact: "(G \<Longrightarrow> triple P m Q Er) \<Longrightarrow> triple (\<lambda>s. P s \<and> G) m Q Er"
  by (cases G) (auto simp: triple_def)

lemma triple_draw:
  "uncounted P \<Longrightarrow> vault_env_ok C E \<Longrightarrow> triple P (draw E len) (\<lambda>bs s. P s \<and> length bs = len) Er"
  unfolding draw_def by (rule triple_bind [OF triple_next_op]) (auto simp: triple_def vault_env_ok_def)

lemma converts_encrypt:
  assumes "cipher_sound C" and "vault_env_ok C E"
  shows "converts E C None (Some dk) I b Er (encrypt_blob E C dk)"
  unfolding converts_def
proof (intro allI impI)
  fix P name data assume P: "uncounted P"
  let ?salt = "\<lambda>salt s. P s \<and> length salt = CONTENT_SUBKEY_SALT_BYTES"
  have un: "uncounted (?salt salt)" for salt using P by (simp add: uncounted_def)
  have out: "opens C (Some dk) (encrypt C salt nonce dk data) = Some data"
    if "length salt = CONTENT_SUBKEY_SALT_BYTES" "length nonce = NONCE_BYTES" for salt nonce
    using decrypt_encrypt [of C salt nonce dk data] assms(1) that by (simp add: opens_def cipher_sound_def)
  show "triple P (encrypt_blob E C dk data)
      (\<lambda>out s. P s \<and> (\<forall>v. opens C None data = Some v \<longrightarrow> opens C (Some dk) out = Some v)) Er"
    unfolding encrypt_blob_def
    by (rule triple_bind [OF triple_draw [OF P assms(2)]], rule triple_bind [OF triple_draw [OF un assms(2)]],
        rule triple_ret) (use out in \<open>auto simp: opens_def [where mode = None]\<close>)
qed

lemma converts_decrypt:
  assumes "\<And>name data e s. name \<in> set (plain_files b) \<Longrightarrow> file_bytes b name = Some data \<Longrightarrow>
      decrypt C dk data = Inl e \<Longrightarrow> I s \<Longrightarrow> Er e s"
  shows "converts E C (Some dk) None I b Er (\<lambda>blob. liftE (decrypt C dk blob))"
  unfolding converts_def
proof (intro allI impI)
  fix P name data
  assume P: "uncounted P" "\<forall>s. P s \<longrightarrow> I s" and name: "name \<in> set (plain_files b)" "file_bytes b name = Some data"
  show "triple P (liftE (decrypt C dk data))
      (\<lambda>out s. P s \<and> (\<forall>v. opens C (Some dk) data = Some v \<longrightarrow> opens C None out = Some v)) Er"
    by (rule triple_lift) (use P assms [OF name] in \<open>auto simp: opens_def\<close>)
qed

lemma enable_body_settles:
  assumes fs: "fault_safe E (vault_inv C T content) Er" and C: "cipher_sound C" "vault_env_ok C E" and T: "token \<in> T"
    and content: "holds_content C None content (visible b)"
  shows "triple (\<lambda>s. va_marker s = None \<and> va_manifest s = None \<and> va_blobs s = b)
      (bindP (draw E KEY_BYTES) (\<lambda>fresh_key. bindP (draw E SALT_BYTES) (\<lambda>salt. bindP (draw E NONCE_BYTES) (\<lambda>nonce.
         let (manifest, data_key) = create_envelope C fresh_key salt nonce token
         in thenP (stage E (encrypt_blob E C data_key)) (commit E (Marker_Enable (dump_manifest manifest)))))))
      (\<lambda>_ s. va_marker s = None \<and> vault_inv C T content s \<and> va_manifest s \<noteq> None \<and> (no_fault E \<longrightarrow> va_staging s = None)) Er"
    (is "triple ?P _ ?Q Er")
proof -
  have un: "uncounted ?P" "\<And>G. uncounted (\<lambda>s. ?P s \<and> G)" by (simp_all add: uncounted_def)
  have readable: "readable C T content None b" using content by (auto simp: readable_def manifest_mode_def)
  have run: "triple ?P (thenP (stage E (encrypt_blob E C dk))
      (commit E (Marker_Enable (dump_manifest (fst (create_envelope C dk salt nonce token)))))) ?Q Er"
    if nonce: "length nonce = NONCE_BYTES" for dk salt nonce
  proof -
    let ?d = "dump_manifest (fst (create_envelope C dk salt nonce token))"
    let ?S = "staging C None (Some dk) None b []"
    have "sealed C T ?d dk"
      unfolding sealed_def using T open_wrapped [OF _ nonce] C(1) by (fastforce simp: create_envelope_def cipher_sound_def)
    then have ready: "pending C T content (Marker_Enable ?d) (s\<lparr>va_marker := Some (Marker_Enable ?d)\<rparr>)" if "?S s" for s
      using that staged_content [OF _ content, of "Some dk"] by (auto simp: pending_def committing_def staging_def)
    have inv: "vault_inv C T content s" if "?S s" for s using that readable by (simp add: vault_inv_def staging_def)
    have "triple ?P (stage E (encrypt_blob E C dk)) (\<lambda>_. ?S) Er"
      by (rule stage_staging [OF fs converts_encrypt [OF C] readable])
    moreover have "triple ?S (commit E (Marker_Enable ?d)) ?Q Er"
      by (rule triple_conseq [OF commit_settles [OF fs staging_uncounted inv ready]]) auto
    ultimately show ?thesis by (rule triple_then)
  qed
  have run': "triple (\<lambda>s. ?P s \<and> length nonce = NONCE_BYTES) (let (manifest, data_key) = create_envelope C dk salt nonce token
      in thenP (stage E (encrypt_blob E C data_key)) (commit E (Marker_Enable (dump_manifest manifest)))) ?Q Er" for dk salt nonce
    by (rule triple_fact) (use run in \<open>simp add: create_envelope_def\<close>)
  show ?thesis
    by (rule triple_bind [OF triple_draw [OF un(1) C(2)]], rule triple_bind [OF triple_draw [OF un(2) C(2)]],
        rule triple_bind [OF triple_draw [OF uncounted_conj [OF un(2)] C(2)]])
      (rule triple_pre [OF run'], blast)
qed

lemma opened_manifest_key:
  assumes fs: "fault_safe E (vault_inv C T content) Er" and content: "readable C T content d b"
    and err: "\<And>e s. (d = None \<or> (\<exists>m. d = Some (dump_manifest m) \<and> open_envelope C token m = Inl e)) \<Longrightarrow>
      vault_inv C T content s \<Longrightarrow> Er e s"
  shows "triple (\<lambda>s. va_marker s = None \<and> va_manifest s = d \<and> va_blobs s = b) (opened_manifest E C token)
    (\<lambda>key s. (va_marker s = None \<and> va_manifest s = d \<and> va_blobs s = b)
       \<and> (\<exists>m. d = Some (dump_manifest m) \<and> open_envelope C token m = Inr key)) Er"
    (is "triple ?P _ ?Q Er")
proof -
  have inv: "vault_inv C T content s" if "?P s" for s using that content by (simp add: vault_inv_def)
  have un: "uncounted ?P" by (simp add: uncounted_def)
  have load: "triple ?P (manifest_load E) (\<lambda>present s. ?P s \<and> va_manifest s = map_option dump_manifest present) Er"
    by (rule manifest_loaded [OF fs un inv])
      (use content in \<open>auto simp: readable_def manifest_mode_def sealed_def split: option.splits\<close>)
  have "triple (\<lambda>s. ?P s \<and> va_manifest s = map_option dump_manifest present)
      (case present of None \<Rightarrow> raise (Exn EncryptionStateError ''the store is not encrypted'')
       | Some manifest \<Rightarrow> liftE (open_envelope C token manifest)) ?Q Er" for present
  proof (cases present)
    case None
    then show ?thesis using err inv by (auto simp: triple_def)
  next
    case (Some m)
    have "triple (\<lambda>s. ?P s \<and> va_manifest s = Some (dump_manifest m)) (liftE (open_envelope C token m)) ?Q Er"
      by (rule triple_lift) (use err inv in auto)
    then show ?thesis by (simp add: Some)
  qed
  then show ?thesis unfolding opened_manifest_def by (rule triple_bind [OF load])
qed

lemma readable_sealed: "readable C T content (Some d) b \<Longrightarrow> \<exists>dk. sealed C T d dk \<and> holds_content C (Some dk) content (visible b)"
  by (auto simp: readable_def manifest_mode_def)

lemma dump_inject: "dump_manifest m = dump_manifest m' \<longleftrightarrow> m = m'"
  using load_dump by (metis sum.inject(2))

lemma sealed_key:
  "cipher_sound C \<Longrightarrow> sealed C T (dump_manifest m) dk \<Longrightarrow> open_envelope C token m = Inr key \<Longrightarrow> key = dk"
  unfolding sealed_def cipher_sound_def by (metis dump_inject)

lemma disable_body_settles:
  assumes fs: "fault_safe E (vault_inv C T content) Er" and C: "cipher_sound C" and content: "readable C T content d b"
    and err: "\<And>e s. (d = None \<or> (\<exists>m. d = Some (dump_manifest m) \<and> open_envelope C token m = Inl e)) \<Longrightarrow>
      vault_inv C T content s \<Longrightarrow> Er e s"
    and dec: "\<And>dk name data e s. sealed C T (the d) dk \<Longrightarrow> name \<in> set (plain_files b) \<Longrightarrow> file_bytes b name = Some data \<Longrightarrow>
      decrypt C dk data = Inl e \<Longrightarrow> vault_inv C T content s \<Longrightarrow> Er e s"
  shows "triple (\<lambda>s. va_marker s = None \<and> va_manifest s = d \<and> va_blobs s = b)
      (bindP (opened_manifest E C token) (\<lambda>data_key.
        thenP (stage E (\<lambda>blob. liftE (decrypt C data_key blob))) (commit E Marker_Disable)))
      (\<lambda>_ s. va_marker s = None \<and> vault_inv C T content s \<and> va_manifest s = None \<and> (no_fault E \<longrightarrow> va_staging s = None)) Er"
    (is "triple ?P _ ?Q Er")
proof -
  have run: "triple ?P (thenP (stage E (\<lambda>blob. liftE (decrypt C key blob))) (commit E Marker_Disable)) ?Q Er"
    if key: "\<exists>m. d = Some (dump_manifest m) \<and> open_envelope C token m = Inr key" for key
  proof -
    obtain m where m: "d = Some (dump_manifest m)" "open_envelope C token m = Inr key" using key by blast
    then obtain dk where dk: "sealed C T (dump_manifest m) dk" "holds_content C (Some dk) content (visible b)"
      using readable_sealed content by blast
    then have key: "key = dk" using sealed_key C m(2) by blast
    let ?S = "staging C (Some dk) None d b []"
    have inv: "vault_inv C T content s" if "?S s" for s using that content by (simp add: vault_inv_def staging_def)
    have ready: "pending C T content Marker_Disable (s\<lparr>va_marker := Some Marker_Disable\<rparr>)" if "?S s" for s
      using that staged_content [OF _ dk(2), of None] by (auto simp: pending_def committing_def staging_def)
    have "triple ?P (stage E (\<lambda>blob. liftE (decrypt C dk blob))) (\<lambda>_. ?S) Er"
      by (rule stage_staging [OF fs converts_decrypt content]) (use dec dk(1) m(1) in auto)
    moreover have "triple ?S (commit E Marker_Disable) ?Q Er"
      by (rule triple_conseq [OF commit_settles [OF fs staging_uncounted inv ready]]) auto
    ultimately show ?thesis unfolding key by (rule triple_then)
  qed
  have opened: "triple ?P (opened_manifest E C token)
      (\<lambda>key s. ?P s \<and> (\<exists>m. d = Some (dump_manifest m) \<and> open_envelope C token m = Inr key)) Er"
    by (rule opened_manifest_key [OF fs content]) (rule err)
  show ?thesis by (rule triple_bind [OF opened], rule triple_fact, rule run)
qed

lemma rotate_body_settles:
  assumes fs: "fault_safe E (vault_inv C T content) Er" and C: "cipher_sound C" "vault_env_ok C E" and T: "new_token \<in> T"
    and content: "readable C T content d b"
    and err: "\<And>e s. (d = None \<or> (\<exists>m. d = Some (dump_manifest m) \<and> open_envelope C old_token m = Inl e)) \<Longrightarrow>
      vault_inv C T content s \<Longrightarrow> Er e s"
  shows "triple (\<lambda>s. va_marker s = None \<and> va_manifest s = d \<and> va_blobs s = b)
      (bindP (opened_manifest E C old_token) (\<lambda>data_key.
        bindP (draw E SALT_BYTES) (\<lambda>salt. bindP (draw E NONCE_BYTES) (\<lambda>nonce.
        manifest_save E (rewrap C salt nonce data_key new_token)))))
      (\<lambda>_ s. va_marker s = None \<and> va_blobs s = b
         \<and> (\<exists>m key. va_manifest s = Some (dump_manifest m) \<and> open_envelope C new_token m = Inr key
              \<and> holds_content C (Some key) content (visible b))) Er"
    (is "triple ?P _ ?Q Er")
proof -
  have inv: "vault_inv C T content s" if "?P s" for s using that content by (simp add: vault_inv_def)
  have un: "uncounted ?P" by (simp add: uncounted_def)
  have run: "triple ?P (manifest_save E (rewrap C salt nonce key new_token)) ?Q Er"
    if key: "\<exists>m. d = Some (dump_manifest m) \<and> open_envelope C old_token m = Inr key" and nonce: "length nonce = NONCE_BYTES"
    for key salt nonce
  proof -
    obtain m where m: "d = Some (dump_manifest m)" "open_envelope C old_token m = Inr key" using key by blast
    then obtain dk where dk: "sealed C T (dump_manifest m) dk" "holds_content C (Some dk) content (visible b)"
      using readable_sealed content by blast
    then have held: "holds_content C (Some key) content (visible b)" using sealed_key C m(2) by blast
    let ?m = "rewrap C salt nonce key new_token"
    have opened: "open_envelope C new_token ?m = Inr key"
      using open_wrapped [OF _ nonce] C(1) by (simp add: rewrap_def cipher_sound_def)
    then have "sealed C T (dump_manifest ?m) key" using T by (auto simp: sealed_def)
    then have inv': "vault_inv C T content (s\<lparr>va_manifest := Some (dump_manifest ?m)\<rparr>)" if "?P s" for s
      using that held by (auto simp: vault_inv_def readable_def manifest_mode_def)
    show ?thesis
      unfolding manifest_save_def
      by (rule triple_then [where R = ?P]; rule triple_atomic [OF fs un inv])
        (use inv inv' opened held in auto)
  qed
  have opened: "triple ?P (opened_manifest E C old_token)
      (\<lambda>key s. ?P s \<and> (\<exists>m. d = Some (dump_manifest m) \<and> open_envelope C old_token m = Inr key)) Er"
    by (rule opened_manifest_key [OF fs content]) (rule err)
  have "triple ?P (bindP (draw E SALT_BYTES) (\<lambda>salt. bindP (draw E NONCE_BYTES) (\<lambda>nonce.
      manifest_save E (rewrap C salt nonce key new_token)))) ?Q Er"
    if key: "\<exists>m. d = Some (dump_manifest m) \<and> open_envelope C old_token m = Inr key" for key
    by (rule triple_bind [OF triple_draw [OF un C(2)]], rule triple_bind [OF triple_draw [OF uncounted_conj [OF un] C(2)]],
        rule triple_fact, rule triple_pre [OF run [OF key]], assumption, blast)
  then show ?thesis by (intro triple_bind [OF opened] triple_fact)
qed

section \<open>Every operation keeps the content\<close>

datatype vault_op = Enable text_str | Disable text_str | Rotate text_str text_str | Recover

fun run_vault_op :: "vault_env \<Rightarrow> vault_op \<Rightarrow> (vault, unit) prog" where
  "run_vault_op E (Enable token) = enable E token"
| "run_vault_op E (Disable token) = disable E token"
| "run_vault_op E (Rotate old_token new_token) = rotate E old_token new_token"
| "run_vault_op E Recover = recover E"

text \<open>The tokens an operation may seal the store under.\<close>

fun op_tokens :: "vault_op \<Rightarrow> text_str set" where
  "op_tokens (Enable token) = {token}"
| "op_tokens (Rotate old_token new_token) = {new_token}"
| "op_tokens _ = {}"

lemma triple_total:
  fixes m :: "(vault, unit) prog"
  assumes "triple P m (\<lambda>_. Q) (\<lambda>_ _. False)" and "P s"
  shows "\<exists>s'. m s = (Inr (), s') \<and> Q s'"
proof (cases "m s")
  case (Pair r s')
  with assms show ?thesis unfolding triple_def by (cases r) force+
qed

lemma triple_recovered:
  assumes "\<And>d b. readable C T content d b \<Longrightarrow> triple (\<lambda>s. va_marker s = None \<and> va_manifest s = d \<and> va_blobs s = b) m Q Er"
  shows "triple (\<lambda>s. va_marker s = None \<and> vault_inv C T content s) m Q Er"
  unfolding triple_def
proof (intro allI impI)
  fix s assume s: "va_marker s = None \<and> vault_inv C T content s"
  then have "readable C T content (va_manifest s) (va_blobs s)" by (auto simp: vault_inv_def)
  from assms [OF this] s show "case m s of (Inl e, w') \<Rightarrow> Er e w' | (Inr a, w') \<Rightarrow> Q a w'"
    by (simp add: triple_def)
qed

lemma triple_require_cipher:
  assumes "vault_env_ok C E" and "triple P (f C) Q Er" and "\<And>e s. P s \<Longrightarrow> Er e s"
  shows "triple P (bindP (require_cipher E) f) Q Er"
  using assms by (auto simp: require_cipher_def vault_env_ok_def triple_def bindP_def split: option.splits)

lemma exclusive_keeps:
  assumes "triple (\<lambda>s. va_marker s = None \<and> vault_inv C T content s) m (\<lambda>_. vault_inv C T content) (\<lambda>_. vault_inv C T content)"
  shows "triple (vault_inv C T content) (with_exclusive_lock E (thenP (recover_locked E) m))
    (\<lambda>_. vault_inv C T content) (\<lambda>_. vault_inv C T content)"
proof -
  have "triple (vault_inv C T content) (recover_locked E) (\<lambda>_ s. va_marker s = None \<and> vault_inv C T content s)
      (\<lambda>_. vault_inv C T content)"
    by (rule triple_conseq [OF recover_locked_settles [OF fault_safe_inv]]) auto
  from triple_then [OF this assms]
  have "triple (vault_inv C T content) (with_exclusive_lock E (thenP (recover_locked E) m))
      (\<lambda>_ s. vault_inv C T content s \<and> \<not> va_held s) (\<lambda>_. vault_inv C T content)"
    by (rule triple_exclusive [OF inv_uncounted(1), rotated 2]) auto
  then show ?thesis by (rule triple_conseq) auto
qed

lemma run_vault_op_keeps:
  assumes C: "cipher_sound C" "vault_env_ok C E" and T: "op_tokens op \<subseteq> T"
  shows "triple (vault_inv C T content) (run_vault_op E op) (\<lambda>_. vault_inv C T content) (\<lambda>_. vault_inv C T content)"
proof (cases op)
  case Recover
  then show ?thesis using recover_keeps by simp
next
  case (Disable token)
  have "triple (vault_inv C T content) (disable E token) (\<lambda>_. vault_inv C T content) (\<lambda>_. vault_inv C T content)"
    unfolding disable_def
    by (rule triple_require_cipher [OF C(2)], rule exclusive_keeps, rule triple_recovered,
        rule triple_conseq [OF disable_body_settles [OF fault_safe_inv C(1)]]) auto
  then show ?thesis by (simp add: Disable)
next
  case (Rotate old_token new_token)
  have T': "new_token \<in> T" using T Rotate by simp
  have inv: "vault_inv C T content s"
    if h: "va_marker s = None \<and> va_blobs s = b \<and> (\<exists>m key. va_manifest s = Some (dump_manifest m)
      \<and> open_envelope C new_token m = Inr key \<and> holds_content C (Some key) content (visible b))" for s b
  proof -
    obtain m key where m: "va_manifest s = Some (dump_manifest m)" "open_envelope C new_token m = Inr key"
      "holds_content C (Some key) content (visible b)" using h by blast
    then have "sealed C T (dump_manifest m) key" using T' unfolding sealed_def by blast
    with m h show ?thesis by (auto simp: vault_inv_def readable_def manifest_mode_def)
  qed
  have "triple (vault_inv C T content) (rotate E old_token new_token) (\<lambda>_. vault_inv C T content) (\<lambda>_. vault_inv C T content)"
    unfolding rotate_def
    by (rule triple_require_cipher [OF C(2)], rule exclusive_keeps, rule triple_recovered,
        rule triple_conseq [OF rotate_body_settles [OF fault_safe_inv C T']]) (use inv in auto)
  then show ?thesis by (simp add: Rotate)
next
  case (Enable token)
  have T': "token \<in> T" using T Enable by simp
  have body: "triple (\<lambda>s. va_marker s = None \<and> va_manifest s = d \<and> va_blobs s = b)
      (bindP (manifest_load E) (\<lambda>present.
        if present \<noteq> None then raise (Exn EncryptionStateError ''the store is already encrypted'')
        else bindP (draw E KEY_BYTES) (\<lambda>fresh_key. bindP (draw E SALT_BYTES) (\<lambda>salt. bindP (draw E NONCE_BYTES) (\<lambda>nonce.
         let (manifest, data_key) = create_envelope C fresh_key salt nonce token
         in thenP (stage E (encrypt_blob E C data_key)) (commit E (Marker_Enable (dump_manifest manifest))))))))
      (\<lambda>_. vault_inv C T content) (\<lambda>_. vault_inv C T content)"
    if content: "readable C T content d b" for d b
  proof -
    let ?P = "\<lambda>s. va_marker s = None \<and> va_manifest s = d \<and> va_blobs s = b"
    have inv: "vault_inv C T content s" if "?P s" for s using that content by (simp add: vault_inv_def)
    have load: "triple ?P (manifest_load E) (\<lambda>present s. ?P s \<and> va_manifest s = map_option dump_manifest present) (\<lambda>_. vault_inv C T content)"
      by (rule manifest_loaded [OF fault_safe_inv _ inv])
        (use content in \<open>auto simp: uncounted_def readable_def manifest_mode_def sealed_def split: option.splits\<close>)
    have "triple (\<lambda>s. ?P s \<and> va_manifest s = map_option dump_manifest present)
      (if present \<noteq> None then raise (Exn EncryptionStateError ''the store is already encrypted'')
        else bindP (draw E KEY_BYTES) (\<lambda>fresh_key. bindP (draw E SALT_BYTES) (\<lambda>salt. bindP (draw E NONCE_BYTES) (\<lambda>nonce.
         let (manifest, data_key) = create_envelope C fresh_key salt nonce token
         in thenP (stage E (encrypt_blob E C data_key)) (commit E (Marker_Enable (dump_manifest manifest)))))))
      (\<lambda>_. vault_inv C T content) (\<lambda>_. vault_inv C T content)" for present
    proof (cases "present = None \<and> d = None")
      case True
      then have "holds_content C None content (visible b)" using content by (simp add: readable_def manifest_mode_def)
      note sealing = enable_body_settles [OF fault_safe_inv C T' this]
      show ?thesis
        unfolding True [THEN conjunct1] True [THEN conjunct2] by simp (rule triple_conseq [OF sealing [unfolded Let_def]], auto)
    next
      case False
      then show ?thesis using inv by (auto simp: triple_def)
    qed
    then show ?thesis by (rule triple_bind [OF load])
  qed
  have "triple (vault_inv C T content) (enable E token) (\<lambda>_. vault_inv C T content) (\<lambda>_. vault_inv C T content)"
    unfolding enable_def
    by (rule triple_require_cipher [OF C(2)], rule exclusive_keeps, rule triple_recovered, rule body)
  then show ?thesis by (simp add: Enable)
qed

lemma exclusive_held: "va_held (snd (with_exclusive_lock E m s)) = va_held s"
  by (auto simp: with_exclusive_lock_def next_op_def bindP_def thenP_def finallyP_def split: prod.splits sum.splits)

lemma run_vault_op_held: "va_held (snd (run_vault_op E op s)) = va_held s"
proof -
  have "va_held (snd (bindP (require_cipher E) (\<lambda>C. with_exclusive_lock E (m C)) s)) = va_held s" for m
    using exclusive_held by (auto simp: require_cipher_def bindP_def split: option.splits)
  then show ?thesis
    by (cases op) (auto simp: enable_def disable_def rotate_def recover_def bindP_def exclusive_held)
qed

text \<open>A history of operations, each in its own environment, any of them cut short anywhere.\<close>

fun run_vault_ops :: "(vault_env \<times> vault_op) list \<Rightarrow> vault \<Rightarrow> vault" where
  "run_vault_ops [] s = s"
| "run_vault_ops ((E, op) # ops) s = run_vault_ops ops (snd (run_vault_op E op s))"

lemma run_vault_ops_keep:
  assumes "cipher_sound C" and "\<forall>(E, op) \<in> set ops. vault_env_ok C E \<and> op_tokens op \<subseteq> T"
    and "vault_inv C T content s"
  shows "vault_inv C T content (run_vault_ops ops s) \<and> va_held (run_vault_ops ops s) = va_held s"
  using assms(2,3)
proof (induction ops arbitrary: s)
  case (Cons x ops)
  obtain E op where x: "x = (E, op)" by fastforce
  obtain r s' where run: "run_vault_op E op s = (r, s')" by fastforce
  have "vault_env_ok C E" "op_tokens op \<subseteq> T" using Cons.prems x by auto
  from run_vault_op_keeps [OF assms(1) this] run Cons.prems(2) have "vault_inv C T content s'"
    unfolding triple_def by (fastforce split: sum.splits)
  with Cons x run run_vault_op_held [of E op s] show ?case by simp
qed simp

section \<open>Properties\<close>

text \<open>C15: no migration loses a blob. Start from a settled store (no commit pending, nothing staged)
  whose blobs read as \<open>content\<close>, in the clear or under the key of its manifest; run any sequence of
  enables, disables, rotations and recoveries, each of which may be refused the lock, raise, or die
  at any filesystem step, before or after the step took effect, with any torn scratch file; then a
  recovery that nothing interrupts returns, and the store is settled again with every blob of
  \<open>content\<close> readable, under the key of a manifest that one of the tokens used opens, or in the clear.\<close>

theorem migrations_crash_safe:
  assumes "cipher_sound C" and "settled C T content s"
    and "\<forall>(E, op) \<in> set ops. vault_env_ok C E \<and> op_tokens op \<subseteq> T"
    and "ve_fault E = (\<lambda>_. None)" and "\<forall>n. \<not> ve_busy E n"
  shows "\<exists>s'. recover E (run_vault_ops ops s) = (Inr (), s') \<and> settled C T content s'"
proof -
  let ?s = "run_vault_ops ops s"
  have "vault_inv C T content ?s \<and> \<not> va_held ?s"
    using run_vault_ops_keep [OF assms(1,3), of content s] assms(2) by (simp add: settled_iff)
  with triple_total [OF recover_settles [OF assms(4,5)]] show ?thesis by blast
qed

text \<open>An uninterrupted operation on a settled store.\<close>

lemma quiet_exclusive:
  assumes "no_fault E" and "\<forall>n. \<not> ve_busy E n"
    and "triple (\<lambda>s. va_marker s = None \<and> va_manifest s = d \<and> va_blobs s = b) m (\<lambda>_. Q) (\<lambda>_ _. False)"
    and "\<And>s. Q s \<Longrightarrow> Q (s\<lparr>va_held := False\<rparr>)"
  shows "triple (\<lambda>s. va_marker s = None \<and> va_staging s = None \<and> \<not> va_held s \<and> va_manifest s = d \<and> va_blobs s = b)
    (with_exclusive_lock E (thenP (recover_locked E) m)) (\<lambda>_ s. Q s \<and> \<not> va_held s) (\<lambda>_ _. False)"
proof (rule triple_exclusive [where P' = "\<lambda>s. va_marker s = None \<and> va_staging s = None \<and> va_manifest s = d \<and> va_blobs s = b"])
  have "triple (\<lambda>s. va_marker s = None \<and> va_staging s = None \<and> va_manifest s = d \<and> va_blobs s = b) (recover_locked E)
      (\<lambda>_ s. va_marker s = None \<and> va_manifest s = d \<and> va_blobs s = b) (\<lambda>_ _. False)"
    by (auto simp: triple_def recover_locked_def bindP_def)
  then show "triple (\<lambda>s. va_marker s = None \<and> va_staging s = None \<and> va_manifest s = d \<and> va_blobs s = b)
      (thenP (recover_locked E) m) (\<lambda>_. Q) (\<lambda>_ _. False)"
    by (rule triple_then [OF _ assms(3)])
qed (use assms(2,4) in \<open>auto simp: uncounted_def\<close>)

lemma settled_public:
  "settled C T content s \<Longrightarrow> va_manifest s = None \<Longrightarrow>
   va_marker s = None \<and> va_staging s = None \<and> \<not> va_held s \<and> holds_content C None content (visible (va_blobs s))"
  by (auto simp: settled_def readable_def manifest_mode_def)

lemma enable_quiet:
  assumes E: "no_fault E" "\<forall>n. \<not> ve_busy E n" "ve_cipher E = Some C" "\<forall>n len. length (ve_random E n len) = len"
    and C: "cipher_sound C" and s: "settled C T content s" "va_manifest s = None"
  shows "\<exists>s'. enable E token s = (Inr (), s') \<and> settled C {token} content s' \<and> va_manifest s' \<noteq> None"
proof -
  let ?b = "va_blobs s"
  let ?Q = "\<lambda>s. va_marker s = None \<and> vault_inv C {token} content s \<and> va_manifest s \<noteq> None \<and> va_staging s = None"
  have ok: "vault_env_ok C E" using E by (simp add: vault_env_ok_def)
  have pub: "va_marker s = None \<and> va_staging s = None \<and> \<not> va_held s" "holds_content C None content (visible ?b)"
    using settled_public [OF s] by auto
  let ?sealing = "bindP (draw E KEY_BYTES) (\<lambda>fresh_key. bindP (draw E SALT_BYTES) (\<lambda>salt. bindP (draw E NONCE_BYTES) (\<lambda>nonce.
         let (manifest, data_key) = create_envelope C fresh_key salt nonce token
         in thenP (stage E (encrypt_blob E C data_key)) (commit E (Marker_Enable (dump_manifest manifest))))))"
  have sealing: "triple (\<lambda>s. va_marker s = None \<and> va_manifest s = None \<and> va_blobs s = ?b) ?sealing (\<lambda>_. ?Q) (\<lambda>_ _. False)"
    by (rule triple_conseq [OF enable_body_settles [OF fault_safe_none [OF E(1)] C ok _ pub(2)]]) (use E(1) in auto)
  have "triple (\<lambda>s. va_marker s = None \<and> va_manifest s = None \<and> va_blobs s = ?b)
      (bindP (manifest_load E) (\<lambda>present.
        if present \<noteq> None then raise (Exn EncryptionStateError ''the store is already encrypted'') else ?sealing)) (\<lambda>_. ?Q) (\<lambda>_ _. False)"
    using sealing unfolding triple_def by (auto simp: manifest_load_def bindP_def)
  from triple_total [OF quiet_exclusive [OF E(1,2) this], of s] pub s(2)
  show ?thesis by (auto simp: enable_def require_cipher_def E(3) settled_iff)
qed

lemma disable_quiet:
  assumes E: "no_fault E" "\<forall>n. \<not> ve_busy E n" "ve_cipher E = Some C" "\<forall>n len. length (ve_random E n len) = len"
    and C: "cipher_sound C" and s: "settled C T content s" "va_manifest s = Some (dump_manifest m)"
    and token: "open_envelope C token m = Inr key" and all: "\<And>k. visible (va_blobs s) k \<noteq> None \<Longrightarrow> content k \<noteq> None"
  shows "\<exists>s'. disable E token s = (Inr (), s') \<and> settled C T content s' \<and> va_manifest s' = None"
proof -
  let ?b = "va_blobs s" and ?d = "va_manifest s"
  let ?Q = "\<lambda>s. va_marker s = None \<and> vault_inv C T content s \<and> va_manifest s = None \<and> va_staging s = None"
  have settled: "va_marker s = None \<and> va_staging s = None \<and> \<not> va_held s" and content: "readable C T content ?d ?b"
    using s(1) by (auto simp: settled_def)
  obtain dk where dk: "sealed C T (dump_manifest m) dk" "holds_content C (Some dk) content (visible ?b)"
    using readable_sealed content s(2) by metis
  have dec: False if "sealed C T (the ?d) dk'" "name \<in> set (plain_files ?b)" "file_bytes ?b name = Some data" "decrypt C dk' data = Inl e"
    for dk' name data e
  proof -
    have "dk' = dk" using that(1) s(2) dk(1) C unfolding sealed_def cipher_sound_def by (metis dump_inject option.sel)
    moreover have vis: "visible ?b name = Some data" using that(2,3) plain_files_iff [of name ?b] file_bytes_visible by fastforce
    then obtain v where "content name = Some v" using all by fastforce
    then have "opens C (Some dk) data = Some v" using dk(2) vis unfolding holds_content_def by fastforce
    ultimately show False using that(4) by (simp add: opens_def)
  qed
  have "triple (\<lambda>s. va_marker s = None \<and> va_manifest s = ?d \<and> va_blobs s = ?b)
      (bindP (opened_manifest E C token) (\<lambda>data_key.
        thenP (stage E (\<lambda>blob. liftE (decrypt C data_key blob))) (commit E Marker_Disable))) (\<lambda>_. ?Q) (\<lambda>_ _. False)"
    by (rule triple_conseq [OF disable_body_settles [OF fault_safe_none [OF E(1)] C content]])
      (use E(1) s(2) token dec dump_inject in auto)
  from triple_total [OF quiet_exclusive [OF E(1,2) this], of s] settled
  show ?thesis by (auto simp: disable_def require_cipher_def E(3) settled_iff)
qed

text \<open>The environment of an uninterrupted operation.\<close>

definition undisturbed :: "crypto \<Rightarrow> vault_env \<Rightarrow> bool" where
  "undisturbed C E \<longleftrightarrow> no_fault E \<and> (\<forall>n. \<not> ve_busy E n) \<and> ve_cipher E = Some C
     \<and> (\<forall>n len. length (ve_random E n len) = len)"

text \<open>C16: encryption switches on and off. On a settled public store an uninterrupted \<open>enable\<close> returns and
  seals every blob: the manifest it leaves opens under the given token to the key that every blob of
  \<open>content\<close> decrypts under. On a settled encrypted store whose blobs are all part of \<open>content\<close>, an
  uninterrupted \<open>disable\<close> with a token that opens the manifest returns, the manifest is gone and
  every blob is back in the clear.\<close>

theorem encryption_switches:
  assumes "cipher_sound C" and "undisturbed C E" and "settled C T content s"
  shows "(va_manifest s = None \<longrightarrow>
      (\<exists>s'. enable E token s = (Inr (), s') \<and> settled C {token} content s' \<and> va_manifest s' \<noteq> None))
    \<and> (\<forall>m key. va_manifest s = Some (dump_manifest m) \<and> open_envelope C token m = Inr key
         \<and> (\<forall>k. visible (va_blobs s) k \<noteq> None \<longrightarrow> content k \<noteq> None) \<longrightarrow>
      (\<exists>s'. disable E token s = (Inr (), s') \<and> settled C T content s' \<and> va_manifest s' = None))"
  using enable_quiet [OF _ _ _ _ assms(1,3)] disable_quiet [OF _ _ _ _ assms(1,3)] assms(2)
  unfolding undisturbed_def by blast

lemma quiet_effect: "no_fault E \<Longrightarrow> atomic E f s = (Inr (), f (s\<lparr>va_ops := Suc (va_ops s)\<rparr>))"
  by (simp add: effect_def next_op_def bindP_def)

lemma quiet_load: "no_fault E \<Longrightarrow> va_manifest s = Some (dump_manifest m) \<Longrightarrow>
    manifest_load E s = (Inr (Some m), s\<lparr>va_ops := Suc (va_ops s)\<rparr>)"
  by (simp add: manifest_load_def bindP_def thenP_def quiet_effect)

text \<open>A migration that does not apply is refused and touches nothing. On a settled store, enabling
  an encrypted store and disabling or rotating a public one raise \<open>EncryptionStateError\<close>, a token that
  does not open the manifest raises \<open>WrongEncryptionToken\<close>, and no file of the store has changed.\<close>

theorem migration_refusals:
  assumes "undisturbed C E" and "settled C T content s"
  shows "(\<forall>m. va_manifest s = Some (dump_manifest m) \<longrightarrow>
        (\<exists>n. enable E token s = (Inl (Exn EncryptionStateError ''the store is already encrypted''), s\<lparr>va_ops := n\<rparr>)))
    \<and> (va_manifest s = None \<longrightarrow>
        (\<exists>n. disable E token s = (Inl (Exn EncryptionStateError ''the store is not encrypted''), s\<lparr>va_ops := n\<rparr>))
        \<and> (\<exists>n. rotate E token token' s = (Inl (Exn EncryptionStateError ''the store is not encrypted''), s\<lparr>va_ops := n\<rparr>)))
    \<and> (\<forall>m e. va_manifest s = Some (dump_manifest m) \<and> open_envelope C token m = Inl e \<longrightarrow>
        exn_class_of e = WrongEncryptionToken
        \<and> (\<exists>n. disable E token s = (Inl e, s\<lparr>va_ops := n\<rparr>)) \<and> (\<exists>n. rotate E token token' s = (Inl e, s\<lparr>va_ops := n\<rparr>)))"
proof -
  have E: "no_fault E" "\<forall>n. \<not> ve_busy E n" "ve_cipher E = Some C" using assms(1) by (simp_all add: undisturbed_def)
  have s: "va_marker s = None" "va_staging s = None" "\<not> va_held s" using assms(2) by (simp_all add: settled_def)
  have locked: "with_exclusive_lock E (thenP (recover_locked E) m) s = (Inl e, s\<lparr>va_ops := n\<rparr>)"
    if "m (s\<lparr>va_ops := Suc (va_ops s), va_held := True\<rparr>) = (Inl e, s\<lparr>va_ops := n, va_held := True\<rparr>)" for m e n
    using that s E(2)
    by (cases s) (auto simp: with_exclusive_lock_def next_op_def bindP_def thenP_def finallyP_def recover_locked_def)
  have wrong: "exn_class_of e = WrongEncryptionToken" if "open_envelope C token m = Inl e" for m e
    using that by (auto simp: open_envelope_def aead_open_def split: option.splits)
  have encrypted: "\<exists>n. enable E token s = (Inl (Exn EncryptionStateError ''the store is already encrypted''), s\<lparr>va_ops := n\<rparr>)"
    if "va_manifest s = Some (dump_manifest m)" for m
    unfolding enable_def require_cipher_def E(3) option.case bindP_ret
    by (rule exI [where x = "Suc (Suc (va_ops s))"], rule locked) (use that in \<open>simp add: bindP_def quiet_load [OF E(1)]\<close>)
  have opened: "opened_manifest E C token (s\<lparr>va_ops := Suc (va_ops s), va_held := True\<rparr>)
      = (Inl (Exn EncryptionStateError ''the store is not encrypted''), s\<lparr>va_ops := Suc (va_ops s), va_held := True\<rparr>)"
    if "va_manifest s = None"
    using that by (simp add: opened_manifest_def manifest_load_def bindP_def)
  have refused: "opened_manifest E C token (s\<lparr>va_ops := Suc (va_ops s), va_held := True\<rparr>)
      = (Inl e, s\<lparr>va_ops := Suc (Suc (va_ops s)), va_held := True\<rparr>)"
    if "va_manifest s = Some (dump_manifest m)" "open_envelope C token m = Inl e" for m e
    using that by (simp add: opened_manifest_def bindP_def quiet_load [OF E(1)])
  have disabled: "\<exists>n. disable E token s = (Inl e, s\<lparr>va_ops := n\<rparr>)" "\<exists>n. rotate E token token' s = (Inl e, s\<lparr>va_ops := n\<rparr>)"
    if "opened_manifest E C token (s\<lparr>va_ops := Suc (va_ops s), va_held := True\<rparr>) = (Inl e, s\<lparr>va_ops := n, va_held := True\<rparr>)" for e n
    unfolding disable_def rotate_def require_cipher_def E(3) option.case bindP_ret
    by (rule exI [where x = n], rule locked, simp add: bindP_def that)+
  show ?thesis using encrypted disabled [OF opened] disabled [OF refused] wrong by blast
qed

section \<open>Concrete stores\<close>

text \<open>A cipher whose sealed texts carry the key they were sealed under, self-delimited.\<close>

definition seal_header :: "bytes \<Rightarrow> bytes \<Rightarrow> bytes \<Rightarrow> bytes" where
  "seal_header k n a = replicate (length k) (CHR ''1'') @ CHR ''0'' # k @ n @ a"

definition sealing_crypto :: crypto where
  "sealing_crypto =
     \<lparr>cp_hkdf = (\<lambda>ikm salt info. ikm @ salt @ info),
      cp_seal = (\<lambda>k n p a. seal_header k n a @ p),
      cp_open = (\<lambda>k n c a. if starts_with (seal_header k n a) c then Some (drop (length (seal_header k n a)) c) else None)\<rparr>"

lemma seal_header_length:
  assumes "starts_with (seal_header k n a) c"
  shows "length (seal_header k n a) = Suc (2 * length (takeWhile (\<lambda>x. x = CHR ''1'') c)) + length n + length a"
proof -
  obtain r where c: "c = replicate (length k) (CHR ''1'') @ CHR ''0'' # k @ n @ a @ r"
    using assms by (auto simp: starts_with_iff seal_header_def)
  have "takeWhile (\<lambda>x. x = CHR ''1'') (replicate m (CHR ''1'') @ CHR ''0'' # z) = replicate m (CHR ''1'')" for m z
    by (induction m) auto
  then show ?thesis by (simp add: c seal_header_def)
qed

lemma sealing_sound: "cipher_sound sealing_crypto"
proof -
  have one: "p = p'" if "cp_open sealing_crypto k n c a = Some p" "cp_open sealing_crypto k' n c a = Some p'" for k k' n a c p p'
    using that seal_header_length [of k n a c] seal_header_length [of k' n a c]
    by (auto simp: sealing_crypto_def split: if_splits)
  have "aead_correct sealing_crypto"
    by (simp add: aead_correct_def sealing_crypto_def)
  then show ?thesis
    unfolding cipher_sound_def
    by (auto simp: open_envelope_def aead_open_def split: option.splits dest: one)
qed

definition sample_vault :: vault where
  "sample_vault = \<lparr>va_blobs = Some [(''a'', ''x''), (''b.c'', ''y'')], va_staging = None, va_marker = None,
     va_manifest = None, va_databases = [''executions.sqlite3''], va_held = False, va_ops = 0\<rparr>"

definition sample_content :: "text_str \<Rightarrow> bytes option" where
  "sample_content = map_of [(''a'', ''x''), (''b.c'', ''y'')]"

definition sample_vault_env :: "nat option \<Rightarrow> vault_env" where
  "sample_vault_env crash_at =
     \<lparr>ve_fault = (\<lambda>n. if crash_at = Some n then Some (True, Exn KeyboardInterrupt []) else None),
      ve_torn = (\<lambda>_. []), ve_busy = (\<lambda>_. False), ve_cipher = Some sealing_crypto,
      ve_random = (\<lambda>n len. replicate len (digit_char (n mod 10)))\<rparr>"

lemma sample_vault_settled: "settled sealing_crypto T sample_content sample_vault"
proof -
  have "holds_content sealing_crypto None sample_content (visible (va_blobs sample_vault))"
    by (auto simp: holds_content_def sample_content_def sample_vault_def visible_def is_tmp_def ends_with_def
        file_bytes_def opens_def split: if_splits)
  then show ?thesis by (simp add: settled_def sample_vault_def readable_def manifest_mode_def)
qed

lemma sample_undisturbed: "undisturbed sealing_crypto (sample_vault_env None)"
  by (simp add: undisturbed_def sample_vault_env_def)

theorem migrations_crash_safe_witness:
  "\<exists>s'. recover (sample_vault_env None)
      (run_vault_ops [(sample_vault_env (Some 20), Enable ''t''), (sample_vault_env (Some 40), Rotate ''t'' ''u'')] sample_vault) = (Inr (), s')
    \<and> settled sealing_crypto {''t'', ''u''} sample_content s'"
  by (rule migrations_crash_safe [OF sealing_sound sample_vault_settled])
    (auto simp: sample_vault_env_def vault_env_ok_def)

theorem encryption_switches_witness:
  "\<exists>s'. enable (sample_vault_env None) ''t'' sample_vault = (Inr (), s')
    \<and> settled sealing_crypto {''t''} sample_content s' \<and> va_manifest s' \<noteq> None"
proof -
  have "va_manifest sample_vault = None" by (simp add: sample_vault_def)
  with encryption_switches [OF sealing_sound sample_undisturbed sample_vault_settled, where token = "''t''" and T = "{''t''}"] show ?thesis by blast
qed

theorem migration_refusals_witness:
  "\<exists>n. disable (sample_vault_env None) ''t'' sample_vault
     = (Inl (Exn EncryptionStateError ''the store is not encrypted''), sample_vault\<lparr>va_ops := n\<rparr>)"
proof -
  have "va_manifest sample_vault = None" by (simp add: sample_vault_def)
  with migration_refusals [OF sample_undisturbed sample_vault_settled, where token = "''t''"] show ?thesis by blast
qed

end
