(* ===== verification/Key_Lock.thy ===== *)
theory Key_Lock
  imports Complex_Main Sha256
begin

text \<open>
  The record-once lock (\<open>persistence/filesystem_execution_key_lock.py\<close>): the bounded wait for the
  OS lock of one key as a loop over clock readings, and the two levels of \<open>acquire\<close>, the in-process
  stripes and the OS lock files, as a machine of processes and threads. One event is one atomic
  action of a thread; a thread that cannot take its next one is blocked.
\<close>

section \<open>The bounded wait\<close>

definition STRIPE_COUNT :: nat where "STRIPE_COUNT = 64"
definition RETRY_INTERVAL_SECONDS :: rat where "RETRY_INTERVAL_SECONDS = 1 / 20"
definition LOCK_WAIT_MARGIN_SECONDS :: rat where "LOCK_WAIT_MARGIN_SECONDS = 30"
definition UNBOUNDED_CLIENT_WAIT_CEILING_SECONDS :: rat where "UNBOUNDED_CLIENT_WAIT_CEILING_SECONDS = 300"

definition lock_wait_for_client_timeout :: "rat option \<Rightarrow> rat" where
  "lock_wait_for_client_timeout client_timeout =
     (case client_timeout of
        None \<Rightarrow> UNBOUNDED_CLIENT_WAIT_CEILING_SECONDS
      | Some t \<Rightarrow> t + LOCK_WAIT_MARGIN_SECONDS)"

text \<open>\<open>try n\<close> is the answer of the n-th attempt, \<open>clock n\<close> the reading of the clock after it.\<close>

partial_function (option) os_lock_loop :: "(nat \<Rightarrow> bool) \<Rightarrow> (nat \<Rightarrow> rat) \<Rightarrow> rat \<Rightarrow> nat \<Rightarrow> (bool \<times> nat) option" where
  "os_lock_loop try_lock clock deadline n =
     (if try_lock n then Some (True, n)
      else if clock n \<ge> deadline then Some (False, n)
      else os_lock_loop try_lock clock deadline (Suc n))"

definition acquire_os_lock :: "(nat \<Rightarrow> bool) \<Rightarrow> (nat \<Rightarrow> rat) \<Rightarrow> rat \<Rightarrow> rat \<Rightarrow> (bool \<times> nat) option" where
  "acquire_os_lock try_lock clock start timeout = os_lock_loop try_lock clock (start + timeout) 0"

lemma os_lock_loop_returns:
  assumes "\<exists>m \<ge> n. try_lock m \<or> clock m \<ge> deadline"
  shows "\<exists>b m. os_lock_loop try_lock clock deadline n = Some (b, m) \<and> n \<le> m
    \<and> (\<forall>k. n \<le> k \<and> k < m \<longrightarrow> \<not> try_lock k \<and> clock k < deadline)
    \<and> (b \<longleftrightarrow> try_lock m) \<and> (try_lock m \<or> clock m \<ge> deadline)"
proof -
  from assms obtain m where "n \<le> m" "try_lock m \<or> clock m \<ge> deadline" by blast
  then show ?thesis
  proof (induction "m - n" arbitrary: n)
    case 0
    then have "n = m" by simp
    with 0 show ?case by (subst os_lock_loop.simps) (auto simp: not_le)
  next
    case (Suc d)
    show ?case
    proof (cases "try_lock n \<or> clock n \<ge> deadline")
      case True
      then show ?thesis by (subst os_lock_loop.simps) auto
    next
      case False
      have "d = m - Suc n" "Suc n \<le> m" using Suc.hyps(2) by linarith+
      from Suc.hyps(1) [OF this Suc.prems(2)] obtain b m' where
        m': "os_lock_loop try_lock clock deadline (Suc n) = Some (b, m')" "Suc n \<le> m'"
          "\<forall>k. Suc n \<le> k \<and> k < m' \<longrightarrow> \<not> try_lock k \<and> clock k < deadline"
          "b \<longleftrightarrow> try_lock m'" "try_lock m' \<or> clock m' \<ge> deadline" by blast
      have "\<not> try_lock k \<and> clock k < deadline" if "n \<le> k \<and> k < m'" for k
        using that m'(3) False by (cases "k = n") (auto simp: not_le)
      with m' False show ?thesis by (subst os_lock_loop.simps) auto
    qed
  qed
qed

text \<open>Each poll sleeps for the interval, so the readings grow by it at least.\<close>

definition polls :: "rat \<Rightarrow> (nat \<Rightarrow> rat) \<Rightarrow> bool" where
  "polls start clock \<longleftrightarrow> start \<le> clock 0 \<and> (\<forall>n. clock n + RETRY_INTERVAL_SECONDS \<le> clock (Suc n))"

lemma polls_grow: "polls start clock \<Longrightarrow> start + of_nat n * RETRY_INTERVAL_SECONDS \<le> clock n"
proof (induction n)
  case (Suc n)
  then have "clock n + RETRY_INTERVAL_SECONDS \<le> clock (Suc n)" by (simp add: polls_def)
  with Suc show ?case by (simp add: distrib_right)
qed (simp add: polls_def)

section \<open>Threads, stripes and lock files\<close>

type_synonym agent = "nat \<times> nat"

text \<open>
  The \<open>with\<close> blocks a thread is in, the innermost first: waiting for the OS lock of a key, inside
  with the lock file open or not and the OS lock taken or not, or nested inside a block of the same key.
\<close>

datatype frame = Waiting text_str | Inside text_str bool bool | Nested text_str

fun frame_key :: "frame \<Rightarrow> text_str" where
  "frame_key (Waiting key) = key"
| "frame_key (Inside key opened acquired) = key"
| "frame_key (Nested key) = key"

record lock_env =
  le_hash :: "nat \<Rightarrow> text_str \<Rightarrow> nat"
  le_digest :: "text_str \<Rightarrow> text_str"

record lock_state =
  ls_stripes :: "nat \<Rightarrow> nat \<Rightarrow> (nat \<times> nat) option"
  ls_os :: "text_str \<Rightarrow> agent option"
  ls_frames :: "agent \<Rightarrow> frame list"

definition lock_path :: "lock_env \<Rightarrow> text_str \<Rightarrow> text_str" where
  "lock_path L key = ''locks/'' @ le_digest L key @ ''.lock''"

definition stripe_of :: "lock_env \<Rightarrow> nat \<Rightarrow> text_str \<Rightarrow> nat" where
  "stripe_of L p key = le_hash L p key mod STRIPE_COUNT"

fun held_keys :: "frame list \<Rightarrow> text_str set" where
  "held_keys [] = {}"
| "held_keys (Inside key opened acquired # fs) = insert key (held_keys fs)"
| "held_keys (_ # fs) = held_keys fs"

fun waiting :: "frame list \<Rightarrow> bool" where
  "waiting (Waiting key # fs) = True"
| "waiting _ = False"

text \<open>The re-entrant stripe: its owner and how often it has taken it.\<close>

fun take_stripe :: "nat \<Rightarrow> (nat \<times> nat) option \<Rightarrow> (nat \<times> nat) option" where
  "take_stripe t None = Some (t, 1)"
| "take_stripe t (Some (t', c)) = (if t' = t then Some (t, Suc c) else None)"

fun drop_stripe :: "(nat \<times> nat) option \<Rightarrow> (nat \<times> nat) option" where
  "drop_stripe (Some (t, Suc (Suc c))) = Some (t, Suc c)"
| "drop_stripe _ = None"

datatype lock_event =
    Enter agent text_str
  | Open_Denied agent
  | Acquired agent
  | Timed_Out agent
  | Leave agent
  | Crash nat

definition set_stripe :: "nat \<Rightarrow> nat \<Rightarrow> (nat \<times> nat) option \<Rightarrow> lock_state \<Rightarrow> lock_state" where
  "set_stripe p i v s = s\<lparr>ls_stripes := (ls_stripes s)(p := (ls_stripes s p)(i := v))\<rparr>"

definition set_frames :: "agent \<Rightarrow> frame list \<Rightarrow> lock_state \<Rightarrow> lock_state" where
  "set_frames a fs s = s\<lparr>ls_frames := (ls_frames s)(a := fs)\<rparr>"

fun lock_next :: "lock_env \<Rightarrow> lock_event \<Rightarrow> lock_state \<Rightarrow> lock_state option" where
  "lock_next L (Enter (p, t) key) s =
     (let fs = ls_frames s (p, t); i = stripe_of L p key
      in if waiting fs then None
         else case take_stripe t (ls_stripes s p i) of
                None \<Rightarrow> None
              | Some owner \<Rightarrow>
                  Some (set_stripe p i (Some owner)
                    (set_frames (p, t) ((if key \<in> held_keys fs then Nested key else Waiting key) # fs) s)))"
| "lock_next L (Open_Denied a) s =
     (case ls_frames s a of
        Waiting key # fs \<Rightarrow> Some (set_frames a (Inside key False False # fs) s)
      | _ \<Rightarrow> None)"
| "lock_next L (Acquired a) s =
     (case ls_frames s a of
        Waiting key # fs \<Rightarrow>
          if ls_os s (lock_path L key) = None
          then Some (set_frames a (Inside key True True # fs) (s\<lparr>ls_os := (ls_os s)(lock_path L key := Some a)\<rparr>))
          else None
      | _ \<Rightarrow> None)"
| "lock_next L (Timed_Out a) s =
     (case ls_frames s a of
        Waiting key # fs \<Rightarrow> Some (set_frames a (Inside key True False # fs) s)
      | _ \<Rightarrow> None)"
| "lock_next L (Leave (p, t)) s =
     (case ls_frames s (p, t) of
        Nested key # fs \<Rightarrow>
          (let i = stripe_of L p key
           in Some (set_stripe p i (drop_stripe (ls_stripes s p i)) (set_frames (p, t) fs s)))
      | Inside key opened acquired # fs \<Rightarrow>
          (let i = stripe_of L p key;
               s' = (if opened \<and> acquired then s\<lparr>ls_os := (ls_os s)(lock_path L key := None)\<rparr> else s)
           in Some (set_stripe p i (drop_stripe (ls_stripes s p i)) (set_frames (p, t) fs s')))
      | _ \<Rightarrow> None)"
| "lock_next L (Crash p) s =
     Some \<lparr>ls_stripes = (ls_stripes s)(p := \<lambda>_. None),
           ls_os = (\<lambda>path. case ls_os s path of Some a \<Rightarrow> (if fst a = p then None else Some a) | None \<Rightarrow> None),
           ls_frames = (\<lambda>a. if fst a = p then [] else ls_frames s a)\<rparr>"

definition lock_start :: lock_state where
  "lock_start = \<lparr>ls_stripes = (\<lambda>_ _. None), ls_os = (\<lambda>_. None), ls_frames = (\<lambda>_. [])\<rparr>"

inductive lock_reachable :: "lock_env \<Rightarrow> lock_state \<Rightarrow> bool" for L where
  lock_reachable_start: "lock_reachable L lock_start"
| lock_reachable_next: "lock_reachable L s \<Longrightarrow> lock_next L e s = Some s' \<Longrightarrow> lock_reachable L s'"

text \<open>An event of an agent; a crash is one of every thread of the process.\<close>

fun event_of :: "lock_event \<Rightarrow> agent \<Rightarrow> bool" where
  "event_of (Enter a key) b \<longleftrightarrow> a = b"
| "event_of (Open_Denied a) b \<longleftrightarrow> a = b"
| "event_of (Acquired a) b \<longleftrightarrow> a = b"
| "event_of (Timed_Out a) b \<longleftrightarrow> a = b"
| "event_of (Leave a) b \<longleftrightarrow> a = b"
| "event_of (Crash p) b \<longleftrightarrow> p = fst b"

section \<open>The invariant\<close>

definition takes :: "lock_env \<Rightarrow> nat \<Rightarrow> nat \<Rightarrow> frame list \<Rightarrow> nat" where
  "takes L p i fs = length (filter (\<lambda>f. stripe_of L p (frame_key f) = i) fs)"

fun owned_paths :: "lock_env \<Rightarrow> frame list \<Rightarrow> text_str list" where
  "owned_paths L [] = []"
| "owned_paths L (Inside key opened True # fs) = lock_path L key # owned_paths L fs"
| "owned_paths L (_ # fs) = owned_paths L fs"

definition stripe_fit :: "(nat \<times> nat) option \<Rightarrow> (nat \<Rightarrow> nat) \<Rightarrow> bool" where
  "stripe_fit owner n \<longleftrightarrow> (case owner of None \<Rightarrow> n = (\<lambda>_. 0) | Some (t, c) \<Rightarrow> 0 < c \<and> n = (\<lambda>_. 0)(t := c))"

definition stripes_ok :: "lock_env \<Rightarrow> lock_state \<Rightarrow> bool" where
  "stripes_ok L s \<longleftrightarrow> (\<forall>p i. stripe_fit (ls_stripes s p i) (\<lambda>t. takes L p i (ls_frames s (p, t))))"

definition os_ok :: "lock_env \<Rightarrow> lock_state \<Rightarrow> bool" where
  "os_ok L s \<longleftrightarrow>
     (\<forall>a. distinct (owned_paths L (ls_frames s a)))
     \<and> (\<forall>a path. path \<in> set (owned_paths L (ls_frames s a)) \<longleftrightarrow> ls_os s path = Some a)"

definition opened_ok :: "lock_state \<Rightarrow> bool" where
  "opened_ok s \<longleftrightarrow> (\<forall>a key opened. Inside key opened True \<in> set (ls_frames s a) \<longrightarrow> opened)"

lemma takes_simps [simp]:
  "takes L p i [] = 0"
  "takes L p i (f # fs) = (if stripe_of L p (frame_key f) = i then Suc (takes L p i fs) else takes L p i fs)"
  by (simp_all add: takes_def)

lemma fun_upd2_apply: "(f(p := (f p)(i := v))) p' i' = (if p' = p \<and> i' = i then v else f p' i')"
  by auto

lemma set_stripe_simps [simp]:
  "ls_frames (set_stripe p i v s) = ls_frames s" "ls_os (set_stripe p i v s) = ls_os s"
  "ls_stripes (set_stripe p i v s) p' i' = (if p' = p \<and> i' = i then v else ls_stripes s p' i')"
  by (simp_all add: set_stripe_def fun_upd2_apply)

lemma set_frames_simps [simp]:
  "ls_stripes (set_frames a fs s) = ls_stripes s" "ls_os (set_frames a fs s) = ls_os s"
  "ls_frames (set_frames a fs s) b = (if b = a then fs else ls_frames s b)"
  by (simp_all add: set_frames_def)

lemma take_stripe_Some: "take_stripe t o1 = Some v \<longleftrightarrow> (o1 = None \<and> v = (t, 1)) \<or> (\<exists>c. o1 = Some (t, c) \<and> v = (t, Suc c))"
  by (cases "(t, o1)" rule: take_stripe.cases) auto

lemma stripe_fit_take: "stripe_fit owner n \<Longrightarrow> take_stripe t owner = Some v \<Longrightarrow> stripe_fit (Some v) (n(t := Suc (n t)))"
  by (auto simp: stripe_fit_def take_stripe_Some fun_eq_iff)

lemma stripe_fit_drop:
  assumes "stripe_fit owner n" and "n t = Suc m"
  shows "stripe_fit (drop_stripe owner) (n(t := m))"
proof -
  obtain t' c where o: "owner = Some (t', c)" "0 < c" "n = (\<lambda>_. 0)(t' := c)"
    using assms by (auto simp: stripe_fit_def split: option.splits)
  with assms(2) have "t' = t" "c = Suc m" by (auto split: if_splits)
  with o show ?thesis by (cases m) (auto simp: stripe_fit_def fun_eq_iff)
qed

lemma stripe_fit_owner: "stripe_fit owner n \<Longrightarrow> 0 < n t \<Longrightarrow> owner = Some (t, n t)"
  by (auto simp: stripe_fit_def split: option.splits if_splits)

lemma stripes_okD: "stripes_ok L s \<Longrightarrow> stripe_fit (ls_stripes s p i) (\<lambda>t. takes L p i (ls_frames s (p, t)))"
  by (simp add: stripes_ok_def)

lemma stripes_ok_frames:
  assumes "stripes_ok L s" and "ls_stripes s' = ls_stripes s"
    and "\<And>p t i. takes L p i (ls_frames s' (p, t)) = takes L p i (ls_frames s (p, t))"
  shows "stripes_ok L s'"
  using assms by (simp add: stripes_ok_def)

lemma stripes_ok_push:
  assumes ok: "stripes_ok L s" and taken: "take_stripe t (ls_stripes s p i) = Some v" and key: "stripe_of L p (frame_key f) = i"
  shows "stripes_ok L (set_stripe p i (Some v) (set_frames (p, t) (f # ls_frames s (p, t)) s))"
  unfolding stripes_ok_def
proof (intro allI)
  fix p' i'
  let ?s = "set_stripe p i (Some v) (set_frames (p, t) (f # ls_frames s (p, t)) s)"
  let ?n = "\<lambda>t. takes L p' i' (ls_frames s (p', t))"
  have "(\<lambda>t. takes L p' i' (ls_frames ?s (p', t))) = (if p' = p \<and> i' = i then ?n(t := Suc (?n t)) else ?n)"
    using key by (auto simp: fun_eq_iff)
  then show "stripe_fit (ls_stripes ?s p' i') (\<lambda>t. takes L p' i' (ls_frames ?s (p', t)))"
    using stripe_fit_take [OF stripes_okD [OF ok] taken] stripes_okD [OF ok, of p' i'] by auto
qed

lemma stripes_ok_pop:
  assumes ok: "stripes_ok L s" and frames: "ls_frames s (p, t) = f # fs" and key: "stripe_of L p (frame_key f) = i"
    and s': "ls_stripes s' = ls_stripes s" "ls_frames s' = ls_frames s"
  shows "stripes_ok L (set_stripe p i (drop_stripe (ls_stripes s p i)) (set_frames (p, t) fs s'))"
  unfolding stripes_ok_def
proof (intro allI)
  fix p' i'
  let ?s = "set_stripe p i (drop_stripe (ls_stripes s p i)) (set_frames (p, t) fs s')"
  let ?n = "\<lambda>t. takes L p' i' (ls_frames s (p', t))"
  have n: "(\<lambda>t. takes L p' i' (ls_frames ?s (p', t))) = (if p' = p \<and> i' = i then ?n(t := takes L p i fs) else ?n)"
    using key frames s' by (auto simp: fun_eq_iff)
  have "takes L p i (ls_frames s (p, t)) = Suc (takes L p i fs)" using frames key by simp
  then show "stripe_fit (ls_stripes ?s p' i') (\<lambda>t. takes L p' i' (ls_frames ?s (p', t)))"
    unfolding n using stripe_fit_drop [OF stripes_okD [OF ok], of p i t "takes L p i fs"] stripes_okD [OF ok, of p' i'] s'
    by auto
qed

lemma os_okD:
  assumes "os_ok L s"
  shows "distinct (owned_paths L (ls_frames s a))" "path \<in> set (owned_paths L (ls_frames s a)) \<longleftrightarrow> ls_os s path = Some a"
  using assms unfolding os_ok_def by blast+

text \<open>Every event keeps the invariant.\<close>

definition lock_inv :: "lock_env \<Rightarrow> lock_state \<Rightarrow> bool" where
  "lock_inv L s \<longleftrightarrow> stripes_ok L s \<and> os_ok L s \<and> opened_ok s"

lemma lock_start_inv: "lock_inv L lock_start"
  by (simp add: lock_inv_def lock_start_def stripes_ok_def stripe_fit_def os_ok_def opened_ok_def fun_eq_iff)

lemma os_ok_frames:
  assumes "os_ok L s" and "ls_os s' = ls_os s" and "\<And>a. owned_paths L (ls_frames s' a) = owned_paths L (ls_frames s a)"
  shows "os_ok L s'"
  using assms by (simp add: os_ok_def)

lemma opened_ok_frames:
  assumes "opened_ok s"
    and "\<And>b key opened. Inside key opened True \<in> set (ls_frames s' b) \<Longrightarrow> opened \<or> Inside key opened True \<in> set (ls_frames s b)"
  shows "opened_ok s'"
  using assms unfolding opened_ok_def by blast

lemma lock_next_inv:
  assumes "lock_next L e s = Some s'" and "lock_inv L s"
  shows "lock_inv L s'"
proof -
  have st: "stripes_ok L s" and os: "os_ok L s" and op: "opened_ok s" using assms(2) by (simp_all add: lock_inv_def)
  have goal: ?thesis if "stripes_ok L s'" "os_ok L s'" "opened_ok s'" using that by (simp add: lock_inv_def)
  show ?thesis
  proof (cases e)
    case (Enter a key)
    obtain p t where a: "a = (p, t)" by fastforce
    let ?f = "if key \<in> held_keys (ls_frames s (p, t)) then Nested key else Waiting key"
    from assms(1) Enter a obtain v where v: "take_stripe t (ls_stripes s p (stripe_of L p key)) = Some v"
      and s': "s' = set_stripe p (stripe_of L p key) (Some v) (set_frames (p, t) (?f # ls_frames s (p, t)) s)"
      by (auto simp: Let_def split: if_splits option.splits)
    have "stripes_ok L s'" unfolding s' by (rule stripes_ok_push [OF st v]) simp
    moreover have "os_ok L s'" by (rule os_ok_frames [OF os]) (auto simp: s')
    moreover have "opened_ok s'" by (rule opened_ok_frames [OF op]) (auto simp: s' split: if_splits)
    ultimately show ?thesis by (rule goal)
  next
    case (Open_Denied a)
    with assms(1) obtain key fs where f: "ls_frames s a = Waiting key # fs" and s': "s' = set_frames a (Inside key False False # fs) s"
      by (auto split: list.splits frame.splits)
    have "stripes_ok L s'" by (rule stripes_ok_frames [OF st]) (auto simp: s' f)
    moreover have "os_ok L s'" by (rule os_ok_frames [OF os]) (auto simp: s' f)
    moreover have "opened_ok s'" by (rule opened_ok_frames [OF op]) (auto simp: s' f split: if_splits)
    ultimately show ?thesis by (rule goal)
  next
    case (Timed_Out a)
    with assms(1) obtain key fs where f: "ls_frames s a = Waiting key # fs" and s': "s' = set_frames a (Inside key True False # fs) s"
      by (auto split: list.splits frame.splits)
    have "stripes_ok L s'" by (rule stripes_ok_frames [OF st]) (auto simp: s' f)
    moreover have "os_ok L s'" by (rule os_ok_frames [OF os]) (auto simp: s' f)
    moreover have "opened_ok s'" by (rule opened_ok_frames [OF op]) (auto simp: s' f split: if_splits)
    ultimately show ?thesis by (rule goal)
  next
    case (Acquired a)
    with assms(1) obtain key fs where f: "ls_frames s a = Waiting key # fs" and free: "ls_os s (lock_path L key) = None"
      and s': "s' = set_frames a (Inside key True True # fs) (s\<lparr>ls_os := (ls_os s)(lock_path L key := Some a)\<rparr>)"
      by (auto split: list.splits frame.splits if_splits)
    have "stripes_ok L s'" by (rule stripes_ok_frames [OF st]) (auto simp: s' f)
    moreover have "os_ok L s'"
    proof -
      have "lock_path L key \<notin> set (owned_paths L (ls_frames s b))" for b using os_okD(2) [OF os] free by simp
      moreover have "owned_paths L (ls_frames s a) = owned_paths L fs" by (simp add: f)
      ultimately show ?thesis
        using os_okD [OF os] by (simp add: os_ok_def s' del: split_paired_All) (metis option.inject)
    qed
    moreover have "opened_ok s'" by (rule opened_ok_frames [OF op]) (auto simp: s' f split: if_splits)
    ultimately show ?thesis by (rule goal)
  next
    case (Crash p)
    then have s': "s' = \<lparr>ls_stripes = (ls_stripes s)(p := \<lambda>_. None),
           ls_os = (\<lambda>path. case ls_os s path of Some a \<Rightarrow> (if fst a = p then None else Some a) | None \<Rightarrow> None),
           ls_frames = (\<lambda>a. if fst a = p then [] else ls_frames s a)\<rparr>"
      using assms(1) by simp
    have "stripes_ok L s'" using st by (simp add: stripes_ok_def s' stripe_fit_def [where owner = None])
    moreover have "os_ok L s'" using os by (auto simp: os_ok_def s' split: option.splits)
    moreover have "opened_ok s'" by (rule opened_ok_frames [OF op]) (auto simp: s' split: if_splits)
    ultimately show ?thesis by (rule goal)
  next
    case (Leave a)
    obtain p t where a: "a = (p, t)" by fastforce
    from assms(1) Leave a obtain f fs s1 where f: "ls_frames s (p, t) = f # fs"
      and s': "s' = set_stripe p (stripe_of L p (frame_key f)) (drop_stripe (ls_stripes s p (stripe_of L p (frame_key f)))) (set_frames (p, t) fs s1)"
      and s1: "ls_stripes s1 = ls_stripes s" "ls_frames s1 = ls_frames s"
      and cases: "(\<exists>key. f = Nested key \<and> s1 = s) \<or> (\<exists>key opened acquired. f = Inside key opened acquired
        \<and> s1 = (if opened \<and> acquired then s\<lparr>ls_os := (ls_os s)(lock_path L key := None)\<rparr> else s))"
      by (auto simp: Let_def split: list.splits frame.splits)
    have "stripes_ok L s'" unfolding s' by (rule stripes_ok_pop [OF st f refl s1])
    moreover have "os_ok L s'"
    proof (cases "\<exists>key opened. f = Inside key opened True")
      case True
      then obtain key opened where k: "f = Inside key opened True" by blast
      then have opened using op f unfolding opened_ok_def by (metis list.set_intros(1))
      with cases k have s1os: "ls_os s1 = (ls_os s)(lock_path L key := None)" by auto
      have owned: "owned_paths L (ls_frames s (p, t)) = lock_path L key # owned_paths L fs" by (simp add: f k)
      then have mine: "ls_os s (lock_path L key) = Some (p, t)" "lock_path L key \<notin> set (owned_paths L fs)" "distinct (owned_paths L fs)"
        using os unfolding os_ok_def by (metis list.set_intros(1), metis distinct.simps(2), metis distinct.simps(2))
      have "path \<in> set (owned_paths L (ls_frames s' b)) \<longleftrightarrow> ls_os s' path = Some b" for b path
      proof (cases "b = (p, t)")
        case True
        have "path \<in> set (lock_path L key # owned_paths L fs) \<longleftrightarrow> ls_os s path = Some (p, t)"
          using os owned unfolding os_ok_def by metis
        with mine True show ?thesis by (auto simp: s' s1os)
      next
        case False
        have "path \<in> set (owned_paths L (ls_frames s b)) \<longleftrightarrow> ls_os s path = Some b" using os unfolding os_ok_def by blast
        with mine False show ?thesis by (auto simp: s' s1os s1)
      qed
      moreover have "distinct (owned_paths L (ls_frames s' b))" for b
        using mine os_okD(1) [OF os] by (simp add: s' s1)
      ultimately show ?thesis by (simp add: os_ok_def)
    next
      case False
      then have "owned_paths L (f # fs) = owned_paths L fs" "ls_os s1 = ls_os s" using cases by auto
      then show ?thesis by (intro os_ok_frames [OF os]) (auto simp: s' f s1)
    qed
    moreover have "opened_ok s'" by (rule opened_ok_frames [OF op]) (auto simp: s' f s1 split: if_splits)
    ultimately show ?thesis by (rule goal)
  qed
qed

lemma lock_reachable_inv: "lock_reachable L s \<Longrightarrow> lock_inv L s"
  by (induction rule: lock_reachable.induct) (auto intro: lock_start_inv lock_next_inv)

section \<open>Properties\<close>

definition inside :: "lock_state \<Rightarrow> agent \<Rightarrow> text_str \<Rightarrow> bool" where
  "inside s a key \<longleftrightarrow> key \<in> held_keys (ls_frames s a)"

definition has_os_lock :: "lock_state \<Rightarrow> agent \<Rightarrow> text_str \<Rightarrow> bool" where
  "has_os_lock s a key \<longleftrightarrow> (\<exists>opened. Inside key opened True \<in> set (ls_frames s a))"

lemma owned_path: "Inside key opened True \<in> set fs \<Longrightarrow> lock_path L key \<in> set (owned_paths L fs)"
  by (induction L fs rule: owned_paths.induct) auto

lemma held_takes: "key \<in> held_keys fs \<Longrightarrow> 0 < takes L p (stripe_of L p key) fs"
  by (induction fs rule: held_keys.induct) auto

text \<open>C17: at most one holder. In every reachable state of any number of processes and threads, with lock
  files that may not open, waits that may time out and processes that may die, the OS lock of a key
  is held by one thread at most, and two threads of one process are never inside the lock of the
  same key together, not even after a time-out.\<close>

theorem key_lock_exclusive:
  assumes "lock_reachable L s"
  shows "(has_os_lock s a key \<and> has_os_lock s b key \<longrightarrow> a = b)
    \<and> (inside s (p, t) key \<and> inside s (p, t') key \<longrightarrow> t = t')"
proof (intro conjI impI)
  note inv = lock_reachable_inv [OF assms]
  assume "has_os_lock s a key \<and> has_os_lock s b key"
  then have "lock_path L key \<in> set (owned_paths L (ls_frames s a))" "lock_path L key \<in> set (owned_paths L (ls_frames s b))"
    using owned_path unfolding has_os_lock_def by blast+
  then have "ls_os s (lock_path L key) = Some a" "ls_os s (lock_path L key) = Some b"
    using os_okD(2) [of L s] inv unfolding lock_inv_def by blast+
  then show "a = b" by simp
next
  assume "inside s (p, t) key \<and> inside s (p, t') key"
  then have "0 < takes L p (stripe_of L p key) (ls_frames s (p, t))" "0 < takes L p (stripe_of L p key) (ls_frames s (p, t'))"
    using held_takes unfolding inside_def by blast+
  then show "t = t'"
    using stripe_fit_owner [OF stripes_okD, of L s p "stripe_of L p key"] lock_reachable_inv [OF assms]
    unfolding lock_inv_def by (metis option.inject prod.inject)
qed

definition sample_lock_env :: lock_env where
  "sample_lock_env = \<lparr>le_hash = (\<lambda>p key. length key), le_digest = id\<rparr>"

definition sample_lock_state :: lock_state where
  "sample_lock_state =
     (let run = (\<lambda>e s. case s of None \<Rightarrow> None | Some s \<Rightarrow> lock_next sample_lock_env e s)
      in the (fold run [Enter (0, 0) ''a'', Acquired (0, 0), Enter (0, 1) ''bb'', Acquired (0, 1)] (Some lock_start)))"

lemma sample_lock_reachable:
  "lock_reachable sample_lock_env sample_lock_state"
  "inside sample_lock_state (0, 0) ''a''" "inside sample_lock_state (0, 1) ''bb''" "has_os_lock sample_lock_state (0, 0) ''a''"
proof -
  let ?n = "lock_next sample_lock_env"
  have hash: "stripe_of sample_lock_env 0 ''a'' = 1" "stripe_of sample_lock_env 0 ''bb'' = 2"
    by (simp_all add: sample_lock_env_def stripe_of_def STRIPE_COUNT_def)
  have paths: "lock_path sample_lock_env ''a'' \<noteq> lock_path sample_lock_env ''bb''"
    by (simp add: sample_lock_env_def lock_path_def)
  define s1 where "s1 = set_stripe 0 1 (Some (0, 1)) (set_frames (0, 0) [Waiting ''a''] lock_start)"
  define s2 where "s2 = set_frames (0, 0) [Inside ''a'' True True]
    (s1\<lparr>ls_os := (ls_os s1)(lock_path sample_lock_env ''a'' := Some (0, 0))\<rparr>)"
  define s3 where "s3 = set_stripe 0 2 (Some (1, 1)) (set_frames (0, 1) [Waiting ''bb''] s2)"
  define s4 where "s4 = set_frames (0, 1) [Inside ''bb'' True True]
    (s3\<lparr>ls_os := (ls_os s3)(lock_path sample_lock_env ''bb'' := Some (0, 1))\<rparr>)"
  have n1: "?n (Enter (0, 0) ''a'') lock_start = Some s1" by (simp add: s1_def hash lock_start_def)
  have n2: "?n (Acquired (0, 0)) s1 = Some s2" by (simp add: s2_def) (simp add: s1_def lock_start_def)
  have n3: "?n (Enter (0, 1) ''bb'') s2 = Some s3" by (simp add: s3_def hash) (simp add: s2_def s1_def lock_start_def)
  have n4: "?n (Acquired (0, 1)) s3 = Some s4" using paths by (simp add: s4_def) (simp add: s3_def s2_def s1_def lock_start_def)
  have s: "sample_lock_state = s4" by (simp add: sample_lock_state_def n1 n2 n3 [unfolded One_nat_def] n4 [unfolded One_nat_def] del: lock_next.simps)
  show "lock_reachable sample_lock_env sample_lock_state"
    unfolding s
    by (rule lock_reachable_next [OF lock_reachable_next [OF lock_reachable_next [OF lock_reachable_next [OF lock_reachable_start n1] n2] n3] n4])
  show "inside sample_lock_state (0, 0) ''a''" "inside sample_lock_state (0, 1) ''bb''" "has_os_lock sample_lock_state (0, 0) ''a''"
    unfolding s by (auto simp: inside_def has_os_lock_def s4_def s3_def s2_def)
qed

theorem key_lock_exclusive_witness:
  "has_os_lock sample_lock_state (0, 0) ''a'' \<and> \<not> has_os_lock sample_lock_state (0, 1) ''a''"
  using key_lock_exclusive [OF sample_lock_reachable(1), of "(0, 0)" "''a''" "(0, 1)"] sample_lock_reachable(4) by auto

text \<open>C18: the wait for the OS lock ends. When the clock advances by the retry interval between polls, the
  loop returns after at most the time-out divided by the interval polls, having tried the lock at
  every poll; it returns the lock exactly when some attempt succeeded before a reading had reached
  the deadline. The wait sized for a client call outlasts the client's own time-out by the margin.\<close>

theorem key_lock_wait_bounded:
  assumes "polls start clock" and "0 \<le> timeout"
  shows "\<exists>b n. acquire_os_lock try_lock clock start timeout = Some (b, n)
    \<and> n \<le> nat \<lceil>timeout / RETRY_INTERVAL_SECONDS\<rceil>
    \<and> (b \<longleftrightarrow> (\<exists>m. try_lock m \<and> (\<forall>k < m. clock k < start + timeout)))
    \<and> (\<not> b \<longrightarrow> start + timeout \<le> clock n)
    \<and> (\<forall>t. lock_wait_for_client_timeout (Some t) = t + LOCK_WAIT_MARGIN_SECONDS)"
proof -
  let ?d = "start + timeout" and ?N = "nat \<lceil>timeout / RETRY_INTERVAL_SECONDS\<rceil>"
  have pos: "0 < RETRY_INTERVAL_SECONDS" by (simp add: RETRY_INTERVAL_SECONDS_def)
  have "timeout / RETRY_INTERVAL_SECONDS \<le> of_nat ?N" using assms(2) pos by (simp add: of_nat_ceiling)
  then have "timeout \<le> of_nat ?N * RETRY_INTERVAL_SECONDS" using pos by (simp add: pos_divide_le_eq)
  with polls_grow [OF assms(1), of ?N] have late: "?d \<le> clock ?N" by linarith
  then have "\<exists>m \<ge> 0. try_lock m \<or> ?d \<le> clock m" by blast
  from os_lock_loop_returns [OF this] obtain b n where n: "os_lock_loop try_lock clock ?d 0 = Some (b, n)"
    "\<forall>k < n. \<not> try_lock k \<and> clock k < ?d" "b \<longleftrightarrow> try_lock n" "try_lock n \<or> ?d \<le> clock n" by auto
  have "n \<le> ?N" using n(2) late by (metis leD not_le_imp_less)
  moreover have "b \<longleftrightarrow> (\<exists>m. try_lock m \<and> (\<forall>k < m. clock k < ?d))"
  proof
    assume b then show "\<exists>m. try_lock m \<and> (\<forall>k < m. clock k < ?d)" using n by blast
  next
    assume "\<exists>m. try_lock m \<and> (\<forall>k < m. clock k < ?d)"
    then obtain m where m: "try_lock m" "\<forall>k < m. clock k < ?d" by blast
    then have "n \<le> m" using n(2) by (metis not_le_imp_less)
    with m n show b by (metis le_neq_implies_less not_le)
  qed
  moreover have "\<not> b \<longrightarrow> ?d \<le> clock n" using n by blast
  moreover have "acquire_os_lock try_lock clock start timeout = Some (b, n)" using n(1) by (simp add: acquire_os_lock_def)
  ultimately show ?thesis by (intro exI [of _ b] exI [of _ n]) (simp add: lock_wait_for_client_timeout_def)
qed

theorem key_lock_wait_bounded_witness:
  "\<exists>b n. acquire_os_lock (\<lambda>n. n = 3) (\<lambda>n. of_nat n) 0 5 = Some (b, n) \<and> n \<le> 100"
proof -
  have "polls 0 (\<lambda>n. of_nat n)" by (simp add: polls_def RETRY_INTERVAL_SECONDS_def)
  from key_lock_wait_bounded [OF this, of 5 "\<lambda>n. n = 3"] obtain b n
    where "acquire_os_lock (\<lambda>n. n = 3) (\<lambda>n. of_nat n) 0 5 = Some (b, n)" "n \<le> nat \<lceil>5 / RETRY_INTERVAL_SECONDS\<rceil>" by auto
  then show ?thesis by (intro exI [of _ b] exI [of _ n]) (simp add: RETRY_INTERVAL_SECONDS_def)
qed

text \<open>A run of events.\<close>

fun run_events :: "lock_env \<Rightarrow> lock_event list \<Rightarrow> lock_state \<Rightarrow> lock_state option" where
  "run_events L [] s = Some s"
| "run_events L (e # es) s = (case lock_next L e s of None \<Rightarrow> None | Some s' \<Rightarrow> run_events L es s')"

lemma frames_of_others:
  assumes "lock_next L e s = Some s'" and "\<not> event_of e a"
  shows "ls_frames s' a = ls_frames s a"
  using assms by (cases "(L, e, s)" rule: lock_next.cases)
    (auto simp: Let_def split: if_splits option.splits list.splits frame.splits)

lemma run_others:
  assumes "run_events L es s = Some s'" and "\<forall>e \<in> set es. \<not> event_of e a"
  shows "ls_frames s' a = ls_frames s a"
  using assms
proof (induction es arbitrary: s)
  case (Cons e es)
  then obtain s1 where "lock_next L e s = Some s1" "run_events L es s1 = Some s'" by (auto split: option.splits)
  moreover from this(2) Cons.prems(2) have "ls_frames s' a = ls_frames s1 a" by (intro Cons.IH) simp_all
  ultimately show ?case using frames_of_others [of L e s s1 a] Cons.prems(2) by simp
qed simp

lemma run_reachable: "lock_reachable L s \<Longrightarrow> run_events L es s = Some s' \<Longrightarrow> lock_reachable L s'"
proof (induction es arbitrary: s)
  case (Cons e es)
  from Cons.prems(2) obtain s1 where s1: "lock_next L e s = Some s1" "run_events L es s1 = Some s'" by (auto split: option.splits)
  show ?case by (rule Cons.IH [OF lock_reachable_next [OF Cons.prems(1) s1(1)] s1(2)])
qed simp

lemma stripe_blocks:
  assumes "lock_reachable L s" and "inside s (p, t) key" and "t \<noteq> t'" and "stripe_of L p key' = stripe_of L p key"
  shows "lock_next L (Enter (p, t') key') s = None"
proof -
  have "0 < takes L p (stripe_of L p key) (ls_frames s (p, t))" using assms(2) held_takes by (simp add: inside_def)
  then have "\<exists>c. ls_stripes s p (stripe_of L p key) = Some (t, c)"
    using stripe_fit_owner [OF stripes_okD] lock_reachable_inv [OF assms(1)] unfolding lock_inv_def by blast
  with assms(3,4) show ?thesis by (auto simp: Let_def)
qed



end
