(* ===== verification/Session_Report.thy ===== *)
theory Session_Report
  imports Run_Service "HOL-Library.Product_Lexorder"
begin

text \<open>
  The session report: \<open>domain/service/session_report.py\<close> with its value types
  (\<open>domain/model/session/session_report.py\<close>) and \<open>usecase/session_report_service.py\<close>, which feeds it
  from the journal and from the repository; and the delegations of \<open>usecase/session_admin_service.py\<close>,
  \<open>session_tags_service.py\<close> and \<open>execution_query_service.py\<close>. The two dictionaries of the report are
  association lists in insertion order.
\<close>

section \<open>The projection\<close>

definition EXECUTED_EVENTS :: "text_str list" where
  "EXECUTED_EVENTS = [EV_RECORD, EV_RUN, EV_WOULD_HIT, EV_WOULD_MISS]"

definition or_zero :: "int option \<Rightarrow> int" where
  "or_zero n = (case n of None \<Rightarrow> 0 | Some n \<Rightarrow> n)"

definition tokens :: "token_usage option \<Rightarrow> int option" where
  "tokens usage =
     (case usage of
        None \<Rightarrow> None
      | Some u \<Rightarrow>
          if tu_input_tokens u = None \<and> tu_output_tokens u = None then None
          else Some (or_zero (tu_input_tokens u) + or_zero (tu_output_tokens u)))"

record model_counts =
  mc_in :: int
  mc_out :: int
  mc_cache_read :: int
  mc_cache_write :: int
  mc_reasoning :: int
  mc_saved :: int
  mc_executions :: nat
  mc_hits :: nat

record day_counts =
  dc_invocations :: nat
  dc_executions :: nat
  dc_hits :: nat

definition no_model_counts :: model_counts where
  "no_model_counts = \<lparr>mc_in = 0, mc_out = 0, mc_cache_read = 0, mc_cache_write = 0, mc_reasoning = 0,
     mc_saved = 0, mc_executions = 0, mc_hits = 0\<rparr>"

definition no_day_counts :: day_counts where
  "no_day_counts = \<lparr>dc_invocations = 0, dc_executions = 0, dc_hits = 0\<rparr>"

record report_counts =
  rc_models :: "((text_str \<times> text_str) \<times> model_counts) list"
  rc_days :: "(text_str \<times> day_counts) list"
  rc_invocations :: nat
  rc_executions :: nat
  rc_hits :: nat
  rc_unknown :: nat

definition no_report_counts :: report_counts where
  "no_report_counts = \<lparr>rc_models = [], rc_days = [], rc_invocations = 0, rc_executions = 0, rc_hits = 0, rc_unknown = 0\<rparr>"

text \<open>\<open>setdefault\<close> followed by changes of the entry in place.\<close>

definition dict_change :: "'k \<Rightarrow> 'v \<Rightarrow> ('v \<Rightarrow> 'v) \<Rightarrow> ('k \<times> 'v) list \<Rightarrow> ('k \<times> 'v) list" where
  "dict_change k dflt f d = dict_set k (f (case map_of d k of None \<Rightarrow> dflt | Some v \<Rightarrow> v)) d"

definition row_key :: "session_event_row \<Rightarrow> text_str option" where
  "row_key row = (case sr_execution_key row of None \<Rightarrow> None | Some key \<Rightarrow> if key = [] then None else Some key)"

definition row_usage :: "(text_str \<rightharpoonup> token_usage) \<Rightarrow> session_event_row \<Rightarrow> token_usage option" where
  "row_usage usage_by_key row = (case row_key row of None \<Rightarrow> None | Some key \<Rightarrow> usage_by_key key)"

definition is_hit :: "session_event_row \<Rightarrow> bool" where
  "is_hit row \<longleftrightarrow> sr_event row = EV_HIT"

definition is_executed :: "session_event_row \<Rightarrow> bool" where
  "is_executed row \<longleftrightarrow> sr_event row \<noteq> EV_HIT \<and> sr_event row \<in> set EXECUTED_EVENTS"

definition row_day :: "session_event_row \<Rightarrow> text_str" where
  "row_day row = take 10 (sr_ts row)"

definition row_model :: "session_event_row \<Rightarrow> text_str \<times> text_str" where
  "row_model row = (sr_client row, sr_model row)"

definition count_day :: "session_event_row \<Rightarrow> day_counts \<Rightarrow> day_counts" where
  "count_day row c =
     (let c = c\<lparr>dc_invocations := dc_invocations c + 1\<rparr>
      in if is_hit row then c\<lparr>dc_hits := dc_hits c + 1\<rparr>
         else if is_executed row then c\<lparr>dc_executions := dc_executions c + 1\<rparr>
         else c)"

definition count_model :: "token_usage option \<Rightarrow> session_event_row \<Rightarrow> model_counts \<Rightarrow> model_counts" where
  "count_model usage row c =
     (if is_hit row then
        (let c = c\<lparr>mc_hits := mc_hits c + 1\<rparr>
         in case tokens usage of None \<Rightarrow> c | Some saved \<Rightarrow> c\<lparr>mc_saved := mc_saved c + saved\<rparr>)
      else if is_executed row then
        (let c = c\<lparr>mc_executions := mc_executions c + 1\<rparr>
         in case usage of
              None \<Rightarrow> c
            | Some u \<Rightarrow>
                if tokens usage = None then c
                else c\<lparr>mc_in := mc_in c + or_zero (tu_input_tokens u),
                       mc_out := mc_out c + or_zero (tu_output_tokens u),
                       mc_cache_read := mc_cache_read c + or_zero (tu_cache_read_tokens u),
                       mc_cache_write := mc_cache_write c + or_zero (tu_cache_write_tokens u),
                       mc_reasoning := mc_reasoning c + or_zero (tu_reasoning_tokens u)\<rparr>)
      else c)"

definition count_row :: "(text_str \<rightharpoonup> token_usage) \<Rightarrow> session_event_row \<Rightarrow> report_counts \<Rightarrow> report_counts" where
  "count_row usage_by_key row r =
     (let usage = row_usage usage_by_key row;
          r = r\<lparr>rc_invocations := rc_invocations r + 1,
                rc_days := dict_change (row_day row) no_day_counts (count_day row) (rc_days r),
                rc_models := dict_change (row_model row) no_model_counts (count_model usage row) (rc_models r)\<rparr>
      in if is_hit row then r\<lparr>rc_hits := rc_hits r + 1\<rparr>
         else if is_executed row then
           (let r = r\<lparr>rc_executions := rc_executions r + 1\<rparr>
            in if usage \<noteq> None \<and> tokens usage \<noteq> None then r else r\<lparr>rc_unknown := rc_unknown r + 1\<rparr>)
         else r)"

record model_usage =
  mu_client :: text_str
  mu_model :: text_str
  mu_spent_input :: int
  mu_spent_output :: int
  mu_cache_read_tokens :: int
  mu_cache_write_tokens :: int
  mu_reasoning_tokens :: int
  mu_saved_tokens :: int
  mu_executions :: nat
  mu_hits :: nat

definition spent_tokens :: "model_usage \<Rightarrow> int" where
  "spent_tokens u = mu_spent_input u + mu_spent_output u"

record day_activity =
  da_day :: text_str
  da_invocations :: nat
  da_executions :: nat
  da_hits :: nat

record session_report =
  rp_session_id :: text_str
  rp_invocations :: nat
  rp_executions :: nat
  rp_hits :: nat
  rp_unknown_usage :: nat
  rp_span_start :: "text_str option"
  rp_span_end :: "text_str option"
  rp_by_model :: "model_usage list"
  rp_by_day :: "day_activity list"
  rp_runs_with_failed_persistence :: nat

definition day_count :: "session_report \<Rightarrow> nat" where
  "day_count report = length (rp_by_day report)"

definition model_entry :: "(text_str \<times> text_str) \<times> model_counts \<Rightarrow> model_usage" where
  "model_entry e =
     (case e of ((client, model), c) \<Rightarrow>
        \<lparr>mu_client = client, mu_model = model, mu_spent_input = mc_in c, mu_spent_output = mc_out c,
         mu_cache_read_tokens = mc_cache_read c, mu_cache_write_tokens = mc_cache_write c,
         mu_reasoning_tokens = mc_reasoning c, mu_saved_tokens = mc_saved c,
         mu_executions = mc_executions c, mu_hits = mc_hits c\<rparr>)"

definition day_entry :: "text_str \<times> day_counts \<Rightarrow> day_activity" where
  "day_entry e =
     (case e of (day, c) \<Rightarrow>
        \<lparr>da_day = day, da_invocations = dc_invocations c, da_executions = dc_executions c, da_hits = dc_hits c\<rparr>)"

definition build_session_report ::
  "text_str \<Rightarrow> session_event_row list \<Rightarrow> (text_str \<rightharpoonup> token_usage) \<Rightarrow> nat \<Rightarrow> session_report" where
  "build_session_report session_id events usage_by_key failed_persistence_count =
     (let r = fold (count_row usage_by_key) events no_report_counts;
          by_model = map model_entry (sort_key fst (rc_models r));
          by_day = map day_entry (sort_key fst (rc_days r))
      in \<lparr>rp_session_id = session_id, rp_invocations = rc_invocations r, rp_executions = rc_executions r,
          rp_hits = rc_hits r, rp_unknown_usage = rc_unknown r,
          rp_span_start = (if by_day = [] then None else Some (da_day (hd by_day))),
          rp_span_end = (if by_day = [] then None else Some (da_day (last by_day))),
          rp_by_model = by_model, rp_by_day = by_day,
          rp_runs_with_failed_persistence = failed_persistence_count\<rparr>)"

section \<open>The service\<close>

text \<open>
  The set comprehensions over the execution keys; the keys are visited in the order of their first
  event, one of the orders in which Python may visit the set.
\<close>

definition session_keys :: "session_event_row list \<Rightarrow> text_str list" where
  "session_keys events = remdups (List.map_filter row_key events)"

definition failed_persistence_count :: "runtime \<Rightarrow> session_event_row list \<Rightarrow> (world, nat) prog" where
  "failed_persistence_count rt events =
     (if session_keys events = [] then ret 0
      else bindP (on_db (runs_awaiting_persistence (rt_db rt))) (\<lambda>runs.
        ret (card (set (session_keys events) \<inter> ur_execution_key ` set runs))))"

fun usage_of_keys :: "runtime \<Rightarrow> text_str list \<Rightarrow> (text_str \<rightharpoonup> token_usage) \<Rightarrow> (world, text_str \<rightharpoonup> token_usage) prog" where
  "usage_of_keys rt [] usage = ret usage"
| "usage_of_keys rt (key # keys) usage =
     bindP (on_db (find_current (rt_db rt) key)) (\<lambda>execution.
     usage_of_keys rt keys
       (case execution of
          None \<Rightarrow> usage
        | Some x \<Rightarrow> (case ex_token_usage x of None \<Rightarrow> usage | Some u \<Rightarrow> usage(key \<mapsto> u))))"

definition usage_by_key :: "runtime \<Rightarrow> session_event_row list \<Rightarrow> (world, text_str \<rightharpoonup> token_usage) prog" where
  "usage_by_key rt events = usage_of_keys rt (session_keys events) Map.empty"

definition report_of_events :: "runtime \<Rightarrow> text_str \<Rightarrow> session_event_row list \<Rightarrow> (world, session_report) prog" where
  "report_of_events rt name events =
     bindP (usage_by_key rt events) (\<lambda>usage.
     bindP (failed_persistence_count rt events) (\<lambda>failed.
     ret (build_session_report name events usage failed)))"

definition report_for_session :: "runtime \<Rightarrow> text_str \<Rightarrow> (world, session_report) prog" where
  "report_for_session rt session_id =
     bindP (on_reg (session_events (rt_reg rt) session_id)) (report_of_events rt session_id)"

record tag_session_report =
  ts_tag :: text_str
  ts_report :: session_report
  ts_session_count :: nat

definition report_for_tag :: "runtime \<Rightarrow> text_str \<Rightarrow> (world, tag_session_report) prog" where
  "report_for_tag rt tag =
     bindP (on_reg (session_ids_for_tag (rt_reg rt) tag)) (\<lambda>session_ids.
     bindP (mapP (\<lambda>session_id. on_reg (session_events (rt_reg rt) session_id)) session_ids) (\<lambda>events.
     bindP (report_of_events rt tag (concat events)) (\<lambda>report.
     ret \<lparr>ts_tag = tag, ts_report = report, ts_session_count = length session_ids\<rparr>)))"

section \<open>Tallies\<close>

text \<open>A dictionary of counters filled from rows: one entry per key, which is the fold over the rows of that key.\<close>

definition tally :: "('r \<Rightarrow> 'k) \<Rightarrow> 'c \<Rightarrow> ('r \<Rightarrow> 'c \<Rightarrow> 'c) \<Rightarrow> 'r list \<Rightarrow> ('k \<times> 'c) list" where
  "tally key zero count rows = fold (\<lambda>r. dict_change (key r) zero (count r)) rows []"

lemma tally_snoc: "tally key zero count (rows @ [r]) = dict_change (key r) zero (count r) (tally key zero count rows)"
  by (simp add: tally_def)

lemma tally_keys: "fst ` set (tally key zero count rows) = key ` set rows"
  by (induction rows rule: rev_induct) (auto simp: tally_snoc dict_change_def dom_update, simp_all add: tally_def)

lemma tally_distinct: "distinct (map fst (tally key zero count rows))"
  by (induction rows rule: rev_induct) (simp_all add: tally_snoc dict_change_def distinct_update, simp add: tally_def)

lemma tally_lookup:
  "map_of (tally key zero count rows) k =
    (if k \<in> key ` set rows then Some (fold count (filter (\<lambda>r. key r = k) rows) zero) else None)"
proof (induction rows rule: rev_induct)
  case (snoc r rows)
  have "filter (\<lambda>r. key r = k) rows = []" if "k \<notin> key ` set rows" using that by (auto simp: filter_empty_conv)
  with snoc show ?case by (auto simp: tally_snoc dict_change_def update_conv')
qed (simp add: tally_def)

lemma sort_dict:
  fixes d :: "('k :: linorder \<times> 'c) list"
  assumes "distinct (map fst d)"
  shows "sort_key fst d = map (\<lambda>k. (k, the (map_of d k))) (sorted_list_of_set (fst ` set d))"
proof -
  have keys: "map fst (sort_key fst d) = sorted_list_of_set (fst ` set d)"
    using assms by (intro sorted_distinct_set_unique) (auto simp: distinct_map)
  have "e = (fst e, the (map_of d (fst e)))" if "e \<in> set (sort_key fst d)" for e
  proof -
    obtain k c where e: "e = (k, c)" by fastforce
    with that have "map_of d k = Some c" using assms by (intro map_of_is_SomeI) simp_all
    with e show ?thesis by simp
  qed
  then have "map (\<lambda>e. (fst e, the (map_of d (fst e)))) (sort_key fst d) = sort_key fst d" by (intro map_idI) simp
  then show ?thesis unfolding keys [symmetric] by (simp add: comp_def)
qed

lemma tally_sorted:
  fixes key :: "'r \<Rightarrow> 'k :: linorder"
  shows "sort_key fst (tally key zero count rows) =
    map (\<lambda>k. (k, fold count (filter (\<lambda>r. key r = k) rows) zero)) (sorted_list_of_set (key ` set rows))"
  by (simp add: sort_dict [OF tally_distinct] tally_keys tally_lookup cong: map_cong)

lemma tally_empty: "tally key zero count rows = [] \<longleftrightarrow> rows = []"
  using tally_keys [of key zero count rows] by (cases rows) (auto simp: tally_def)

lemma sort_key_empty: "sort_key f xs = [] \<longleftrightarrow> xs = []"
  by (metis length_0_conv length_sort)

text \<open>A measure of the counters to which each row adds its weight.\<close>

locale additive_count =
  fixes zero :: 'c and count :: "'r \<Rightarrow> 'c \<Rightarrow> 'c" and amount :: "'c \<Rightarrow> 'm :: comm_monoid_add" and weight :: "'r \<Rightarrow> 'm"
  assumes amount_zero: "amount zero = 0"
    and amount_count: "amount (count r c) = amount c + weight r"
begin

lemma amount_fold_from: "amount (fold count rows c) = amount c + sum_list (map weight rows)"
  by (induction rows arbitrary: c) (simp_all add: amount_count ac_simps)

lemma amount_fold: "amount (fold count rows zero) = sum_list (map weight rows)"
  by (simp add: amount_fold_from amount_zero)

lemma amount_partition:
  fixes key :: "'r \<Rightarrow> 'k :: linorder"
  shows "(\<Sum>k \<leftarrow> sorted_list_of_set (key ` set rows). amount (fold count (filter (\<lambda>r. key r = k) rows) zero)) = sum_list (map weight rows)"
proof -
  have split: "sum_list (map weight rows) = (\<Sum>k \<in> K. sum_list (map weight (filter (\<lambda>r. key r = k) rows)))"
    if "key ` set rows \<subseteq> K" "finite K" for K
    using that
  proof (induction rows)
    case (Cons r rows)
    have "(\<Sum>k \<in> K. sum_list (map weight (filter (\<lambda>r. key r = k) (r # rows)))) =
      (\<Sum>k \<in> K. (if k = key r then weight r else 0) + sum_list (map weight (filter (\<lambda>r. key r = k) rows)))"
      by (rule sum.cong) auto
    also have "\<dots> = weight r + (\<Sum>k \<in> K. sum_list (map weight (filter (\<lambda>r. key r = k) rows)))"
      using Cons.prems by (simp add: sum.distrib)
    finally show ?case using Cons by simp
  qed simp
  have "(\<Sum>k \<leftarrow> sorted_list_of_set (key ` set rows). amount (fold count (filter (\<lambda>r. key r = k) rows) zero)) =
    (\<Sum>k \<in> key ` set rows. sum_list (map weight (filter (\<lambda>r. key r = k) rows)))"
    by (subst sum_list_distinct_conv_sum_set) (simp_all add: amount_fold)
  then show ?thesis using split [of "key ` set rows"] by simp
qed

end

section \<open>The counters of the report are additive\<close>

definition indicator :: "bool \<Rightarrow> nat" where
  "indicator b = (if b then 1 else 0)"

lemma sum_indicator: "(\<Sum>r \<leftarrow> rows. indicator (P r)) = length (filter P rows)"
  by (induction rows) (simp_all add: indicator_def)

text \<open>The usage that enters the totals: that of a key whose execution reported input or output tokens.\<close>

definition reported_usage :: "(text_str \<rightharpoonup> token_usage) \<Rightarrow> session_event_row \<Rightarrow> token_usage option" where
  "reported_usage u row =
     (if tokens (row_usage u row) = None then None else row_usage u row)"

definition spent_by :: "(token_usage \<Rightarrow> int option) \<Rightarrow> (text_str \<rightharpoonup> token_usage) \<Rightarrow> session_event_row \<Rightarrow> int" where
  "spent_by field u row =
     (if is_executed row then (case reported_usage u row of None \<Rightarrow> 0 | Some t \<Rightarrow> or_zero (field t)) else 0)"

definition saved_by :: "(text_str \<rightharpoonup> token_usage) \<Rightarrow> session_event_row \<Rightarrow> int" where
  "saved_by u row = (if is_hit row then or_zero (tokens (row_usage u row)) else 0)"

lemma executed_not_hit: "is_executed row \<Longrightarrow> \<not> is_hit row"
  by (simp add: is_executed_def is_hit_def)

lemmas weight_defs = indicator_def spent_by_def saved_by_def reported_usage_def or_zero_def tokens_def

interpretation day_invocations: additive_count no_day_counts count_day dc_invocations "\<lambda>_. 1"
  by unfold_locales (simp_all add: no_day_counts_def count_day_def Let_def)

interpretation day_executions: additive_count no_day_counts count_day dc_executions "\<lambda>r. indicator (is_executed r)"
  by unfold_locales (auto simp: no_day_counts_def count_day_def Let_def indicator_def dest: executed_not_hit)

interpretation day_hits: additive_count no_day_counts count_day dc_hits "\<lambda>r. indicator (is_hit r)"
  by unfold_locales (auto simp: no_day_counts_def count_day_def Let_def indicator_def)

interpretation model_in: additive_count no_model_counts "\<lambda>r. count_model (row_usage u r) r" mc_in "spent_by tu_input_tokens u" for u
  by unfold_locales (auto simp: no_model_counts_def count_model_def Let_def weight_defs dest: executed_not_hit split: option.splits)

interpretation model_out: additive_count no_model_counts "\<lambda>r. count_model (row_usage u r) r" mc_out "spent_by tu_output_tokens u" for u
  by unfold_locales (auto simp: no_model_counts_def count_model_def Let_def weight_defs dest: executed_not_hit split: option.splits)

interpretation model_cache_read: additive_count no_model_counts "\<lambda>r. count_model (row_usage u r) r" mc_cache_read "spent_by tu_cache_read_tokens u" for u
  by unfold_locales (auto simp: no_model_counts_def count_model_def Let_def weight_defs dest: executed_not_hit split: option.splits)

interpretation model_cache_write: additive_count no_model_counts "\<lambda>r. count_model (row_usage u r) r" mc_cache_write "spent_by tu_cache_write_tokens u" for u
  by unfold_locales (auto simp: no_model_counts_def count_model_def Let_def weight_defs dest: executed_not_hit split: option.splits)

interpretation model_reasoning: additive_count no_model_counts "\<lambda>r. count_model (row_usage u r) r" mc_reasoning "spent_by tu_reasoning_tokens u" for u
  by unfold_locales (auto simp: no_model_counts_def count_model_def Let_def weight_defs dest: executed_not_hit split: option.splits)

interpretation model_saved: additive_count no_model_counts "\<lambda>r. count_model (row_usage u r) r" mc_saved "saved_by u" for u
  by unfold_locales (auto simp: no_model_counts_def count_model_def Let_def weight_defs dest: executed_not_hit split: option.splits)

interpretation model_executions: additive_count no_model_counts "\<lambda>r. count_model (row_usage u r) r" mc_executions "\<lambda>r. indicator (is_executed r)" for u
  by unfold_locales (auto simp: no_model_counts_def count_model_def Let_def indicator_def dest: executed_not_hit split: option.splits)

interpretation model_hits: additive_count no_model_counts "\<lambda>r. count_model (row_usage u r) r" mc_hits "\<lambda>r. indicator (is_hit r)" for u
  by unfold_locales (auto simp: no_model_counts_def count_model_def Let_def indicator_def dest: executed_not_hit split: option.splits)

section \<open>The report as filters and sums\<close>

definition reference_model :: "(text_str \<rightharpoonup> token_usage) \<Rightarrow> session_event_row list \<Rightarrow> text_str \<times> text_str \<Rightarrow> model_usage" where
  "reference_model u events m =
     (let rows = filter (\<lambda>r. row_model r = m) events
      in \<lparr>mu_client = fst m, mu_model = snd m,
          mu_spent_input = sum_list (map (spent_by tu_input_tokens u) rows),
          mu_spent_output = sum_list (map (spent_by tu_output_tokens u) rows),
          mu_cache_read_tokens = sum_list (map (spent_by tu_cache_read_tokens u) rows),
          mu_cache_write_tokens = sum_list (map (spent_by tu_cache_write_tokens u) rows),
          mu_reasoning_tokens = sum_list (map (spent_by tu_reasoning_tokens u) rows),
          mu_saved_tokens = sum_list (map (saved_by u) rows),
          mu_executions = length (filter is_executed rows), mu_hits = length (filter is_hit rows)\<rparr>)"

definition reference_day :: "session_event_row list \<Rightarrow> text_str \<Rightarrow> day_activity" where
  "reference_day events day =
     (let rows = filter (\<lambda>r. row_day r = day) events
      in \<lparr>da_day = day, da_invocations = length rows,
          da_executions = length (filter is_executed rows), da_hits = length (filter is_hit rows)\<rparr>)"

definition reference_report ::
  "text_str \<Rightarrow> session_event_row list \<Rightarrow> (text_str \<rightharpoonup> token_usage) \<Rightarrow> nat \<Rightarrow> session_report" where
  "reference_report session_id events u failed =
     \<lparr>rp_session_id = session_id, rp_invocations = length events,
      rp_executions = length (filter is_executed events), rp_hits = length (filter is_hit events),
      rp_unknown_usage = length (filter (\<lambda>r. is_executed r \<and> reported_usage u r = None) events),
      rp_span_start = (if events = [] then None else Some (Min (row_day ` set events))),
      rp_span_end = (if events = [] then None else Some (Max (row_day ` set events))),
      rp_by_model = map (reference_model u events) (sorted_list_of_set (row_model ` set events)),
      rp_by_day = map (reference_day events) (sorted_list_of_set (row_day ` set events)),
      rp_runs_with_failed_persistence = failed\<rparr>"

lemma count_row_fields:
  "rc_invocations (count_row u row r) = rc_invocations r + 1"
  "rc_days (count_row u row r) = dict_change (row_day row) no_day_counts (count_day row) (rc_days r)"
  "rc_models (count_row u row r) = dict_change (row_model row) no_model_counts (count_model (row_usage u row) row) (rc_models r)"
  "rc_hits (count_row u row r) = rc_hits r + indicator (is_hit row)"
  "rc_executions (count_row u row r) = rc_executions r + indicator (is_executed row)"
  "rc_unknown (count_row u row r) = rc_unknown r + indicator (is_executed row \<and> reported_usage u row = None)"
  by (auto simp: count_row_def Let_def indicator_def reported_usage_def tokens_def dest: executed_not_hit split: option.splits)

lemma fold_count_row:
  "rc_invocations (fold (count_row u) events no_report_counts) = length events"
  "rc_days (fold (count_row u) events no_report_counts) = tally row_day no_day_counts count_day events"
  "rc_models (fold (count_row u) events no_report_counts) = tally row_model no_model_counts (\<lambda>r. count_model (row_usage u r) r) events"
  "rc_hits (fold (count_row u) events no_report_counts) = length (filter is_hit events)"
  "rc_executions (fold (count_row u) events no_report_counts) = length (filter is_executed events)"
  "rc_unknown (fold (count_row u) events no_report_counts) = length (filter (\<lambda>r. is_executed r \<and> reported_usage u r = None) events)"
  by (induction events rule: rev_induct)
    (simp_all add: count_row_fields tally_snoc indicator_def, simp_all add: no_report_counts_def tally_def)

lemma day_entries:
  "map day_entry (sort_key fst (tally row_day no_day_counts count_day events)) =
    map (reference_day events) (sorted_list_of_set (row_day ` set events))"
  by (simp add: tally_sorted comp_def day_entry_def reference_day_def Let_def day_invocations.amount_fold
      day_executions.amount_fold day_hits.amount_fold sum_indicator sum_list_triv)

lemma model_entries:
  "map model_entry (sort_key fst (tally row_model no_model_counts (\<lambda>r. count_model (row_usage u r) r) events)) =
    map (reference_model u events) (sorted_list_of_set (row_model ` set events))"
  by (simp add: tally_sorted comp_def model_entry_def reference_model_def Let_def case_prod_beta
      model_in.amount_fold model_out.amount_fold model_cache_read.amount_fold model_cache_write.amount_fold
      model_reasoning.amount_fold model_saved.amount_fold model_executions.amount_fold model_hits.amount_fold sum_indicator)

lemma sorted_list_ends:
  assumes "finite A" and "A \<noteq> {}"
  shows "sorted_list_of_set A \<noteq> []" "hd (sorted_list_of_set A) = Min A" "last (sorted_list_of_set A) = Max A"
proof -
  let ?xs = "sorted_list_of_set A"
  show ne: "?xs \<noteq> []" using assms by simp
  have "hd ?xs \<le> a \<and> a \<le> last ?xs" if "a \<in> A" for a
  proof -
    from that assms obtain i where i: "a = ?xs ! i" "i < length ?xs" by (metis in_set_conv_nth set_sorted_list_of_set)
    have "?xs ! 0 \<le> a" "a \<le> ?xs ! (length ?xs - 1)"
      unfolding i(1) using i(2) by (auto intro: sorted_nth_mono)
    with ne show ?thesis by (simp add: hd_conv_nth last_conv_nth)
  qed
  moreover have "hd ?xs \<in> A" "last ?xs \<in> A" using ne assms hd_in_set last_in_set by (metis set_sorted_list_of_set)+
  ultimately show "hd ?xs = Min A" "last ?xs = Max A" using assms by (auto intro!: Min_eqI [symmetric] Max_eqI [symmetric])
qed

text \<open>C20: the report is the projection it claims to be. The dictionaries the code fills in one pass and
  sorts give, for every (client, model) pair of the session in ascending order, exactly the sums and
  counts over the events of that pair, for every day those of the day, and the span from the first
  to the last day; a call without reported usage adds nothing to any total and is counted as unknown.\<close>

theorem session_report_projection:
  "build_session_report session_id events usage failed = reference_report session_id events usage failed"
proof -
  let ?days = "sorted_list_of_set (row_day ` set events)"
  have ends: "hd ?days = Min (row_day ` set events)" "last ?days = Max (row_day ` set events)" "?days \<noteq> []" if "events \<noteq> []"
    using that sorted_list_ends [of "row_day ` set events"] by auto
  have day: "da_day (hd (map (reference_day events) ?days)) = hd ?days" "da_day (last (map (reference_day events) ?days)) = last ?days"
    if "?days \<noteq> []" using that by (simp_all add: hd_map last_map reference_day_def Let_def)
  show ?thesis
  proof (cases "events = []")
    case True
    then show ?thesis
      by (simp add: build_session_report_def reference_report_def Let_def no_report_counts_def sort_key_empty)
  next
    case False
    with ends day show ?thesis
      by (simp add: build_session_report_def reference_report_def Let_def fold_count_row day_entries model_entries
          sort_key_empty tally_empty)
  qed
qed

text \<open>No event is lost or counted twice. Over the days, and over the (client, model) pairs, the counts of
  the report add up to its headline counts, and these to the events of the session: every event is an
  invocation, and an execution or a hit at most once.\<close>

theorem session_report_conserves:
  "let report = build_session_report session_id events usage failed in
     (\<Sum>d \<leftarrow> rp_by_day report. da_invocations d) = length events \<and> rp_invocations report = length events
   \<and> (\<Sum>d \<leftarrow> rp_by_day report. da_executions d) = rp_executions report
   \<and> (\<Sum>d \<leftarrow> rp_by_day report. da_hits d) = rp_hits report
   \<and> (\<Sum>m \<leftarrow> rp_by_model report. mu_executions m) = rp_executions report
   \<and> (\<Sum>m \<leftarrow> rp_by_model report. mu_hits m) = rp_hits report
   \<and> (\<Sum>m \<leftarrow> rp_by_model report. spent_tokens m) =
       (\<Sum>r \<leftarrow> events. spent_by tu_input_tokens usage r + spent_by tu_output_tokens usage r)
   \<and> rp_executions report + rp_hits report \<le> rp_invocations report
   \<and> rp_unknown_usage report \<le> rp_executions report"
proof -
  have days: "rp_by_day (build_session_report session_id events usage failed) = map day_entry (sort_key fst (tally row_day no_day_counts count_day events))"
    and models: "rp_by_model (build_session_report session_id events usage failed) =
      map model_entry (sort_key fst (tally row_model no_model_counts (\<lambda>r. count_model (row_usage usage r) r) events))"
    by (simp_all add: build_session_report_def Let_def fold_count_row)
  have "length (filter is_executed events) + length (filter is_hit events) \<le> length events"
    by (induction events) (auto dest: executed_not_hit)
  moreover have "length (filter (\<lambda>r. is_executed r \<and> reported_usage usage r = None) events) \<le> length (filter is_executed events)"
    by (induction events) auto
  moreover have "(\<Sum>r \<leftarrow> events. spent_by tu_input_tokens usage r + spent_by tu_output_tokens usage r) =
    sum_list (map (spent_by tu_input_tokens usage) events) + sum_list (map (spent_by tu_output_tokens usage) events)"
    by (rule sum_list_addf)
  ultimately show ?thesis
    unfolding Let_def days models
    by (simp add: tally_sorted comp_def day_entry_def model_entry_def case_prod_beta spent_tokens_def sum_list_addf
        day_invocations.amount_partition day_executions.amount_partition day_hits.amount_partition
        model_executions.amount_partition model_hits.amount_partition model_in.amount_partition model_out.amount_partition
        sum_indicator sum_list_triv)
      (simp add: build_session_report_def Let_def fold_count_row)
qed

section \<open>Reports of a tag\<close>

definition event_rows :: "access_event list \<Rightarrow> session_event_row list" where
  "event_rows events = map (\<lambda>e. \<lparr>sr_ts = ae_ts e, sr_event = ae_event e, sr_client = ae_client e,
     sr_model = ae_model e, sr_execution_key = ae_match_key e\<rparr>) events"

lemma reg_read_run:
  "re_fault E (rg_ops (w_reg w)) = None \<Longrightarrow>
   on_reg (reg_read E d query) w =
     (Inr (query ((w_reg w)\<lparr>rg_ops := Suc (rg_ops (w_reg w))\<rparr>)), w\<lparr>w_reg := (w_reg w)\<lparr>rg_ops := Suc (rg_ops (w_reg w))\<rparr>\<rparr>)"
  by (simp add: on_reg_def zoomP_def reg_read_def Let_def)

lemma events_of_sessions_run:
  assumes "\<forall>n. re_fault E n = None"
  shows "\<exists>n. mapP (\<lambda>i. on_reg (session_events E i)) ids w =
    (Inr (map (\<lambda>i. event_rows (in_session i (w_events w))) ids), w\<lparr>w_reg := (w_reg w)\<lparr>rg_ops := n\<rparr>\<rparr>)"
proof (induction ids arbitrary: w)
  case (Cons i ids)
  let ?w = "w\<lparr>w_reg := (w_reg w)\<lparr>rg_ops := Suc (rg_ops (w_reg w))\<rparr>\<rparr>"
  have "on_reg (session_events E i) w = (Inr (event_rows (in_session i (w_events w))), ?w)"
    using assms by (simp add: session_events_def reg_read_run event_rows_def w_events_def)
  moreover obtain n where "mapP (\<lambda>i. on_reg (session_events E i)) ids ?w =
    (Inr (map (\<lambda>i. event_rows (in_session i (w_events ?w))) ids), ?w\<lparr>w_reg := (w_reg ?w)\<lparr>rg_ops := n\<rparr>\<rparr>)"
    using Cons.IH by blast
  ultimately show ?case by (intro exI [of _ n]) (simp add: bindP_def w_events_def)
next
  case Nil
  have "w = w\<lparr>w_reg := (w_reg w)\<lparr>rg_ops := rg_ops (w_reg w)\<rparr>\<rparr>" by simp
  then show ?case by (intro exI [of _ "rg_ops (w_reg w)"]) simp
qed

lemma length_in_sessions:
  "distinct ids \<Longrightarrow>
   (\<Sum>i \<leftarrow> ids. length (in_session i events)) = length (filter (\<lambda>e. \<exists>i \<in> set ids. ae_session_id e = Some i) events)"
proof (induction events)
  case (Cons e events)
  have "(\<Sum>i \<leftarrow> ids. length (in_session i (e # events))) = (\<Sum>i \<leftarrow> ids. indicator (ae_session_id e = Some i)) + (\<Sum>i \<leftarrow> ids. length (in_session i events))"
    by (induction ids) (simp_all add: in_session_def indicator_def)
  moreover have "(\<Sum>i \<leftarrow> ids. indicator (ae_session_id e = Some i)) = indicator (\<exists>i \<in> set ids. ae_session_id e = Some i)"
    using Cons.prems by (induction ids) (auto simp: indicator_def)
  ultimately show ?case using Cons by (simp add: indicator_def)
qed (simp add: in_session_def sum_list_triv)

text \<open>a tag report aggregates the sessions of its tag, each once. When the journal can be read, a report
  for a tag counts the sessions that carry the tag, its invocations are the journal events of those
  sessions, each counted once, and its executions and hits those of these events.\<close>

theorem tag_report_counts:
  assumes quiet: "\<forall>n. re_fault (rt_reg rt) n = None" and run: "report_for_tag rt tag w = (Inr t, w')"
  shows "ts_session_count t = card {i. (i, tag) \<in> set (rg_tags (w_reg w))}
    \<and> rp_invocations (ts_report t) =
        length (filter (\<lambda>e. \<exists>i. ae_session_id e = Some i \<and> (i, tag) \<in> set (rg_tags (w_reg w))) (w_events w))
    \<and> rp_executions (ts_report t) + rp_hits (ts_report t) \<le> rp_invocations (ts_report t)"
proof -
  let ?ids = "remdups (map fst (filter (\<lambda>t. snd t = tag) (rg_tags (w_reg w))))"
  let ?w1 = "w\<lparr>w_reg := (w_reg w)\<lparr>rg_ops := Suc (rg_ops (w_reg w))\<rparr>\<rparr>"
  have ids: "set ?ids = {i. (i, tag) \<in> set (rg_tags (w_reg w))}" by force
  have first: "on_reg (session_ids_for_tag (rt_reg rt) tag) w = (Inr ?ids, ?w1)"
    using quiet by (simp add: session_ids_for_tag_def reg_read_run)
  let ?rows = "concat (map (\<lambda>i. event_rows (in_session i (w_events w))) ?ids)"
  obtain w2 where rows: "mapP (\<lambda>i. on_reg (session_events (rt_reg rt) i)) ?ids ?w1 = (Inr (map (\<lambda>i. event_rows (in_session i (w_events w))) ?ids), w2)"
    using events_of_sessions_run [OF quiet, of ?ids ?w1] by (auto simp: w_events_def)
  from run obtain usage failed where t: "t = \<lparr>ts_tag = tag, ts_report = build_session_report tag ?rows usage failed, ts_session_count = length ?ids\<rparr>"
    by (auto simp: report_for_tag_def report_of_events_def bindP_def first rows simp del: set_remdups split: prod.splits sum.splits)
  have "length ?rows = (\<Sum>i \<leftarrow> ?ids. length (in_session i (w_events w)))"
    by (simp add: length_concat comp_def event_rows_def del: set_remdups)
  also have "\<dots> = length (filter (\<lambda>e. \<exists>i \<in> set ?ids. ae_session_id e = Some i) (w_events w))" by (rule length_in_sessions) simp
  finally have len: "length ?rows = length (filter (\<lambda>e. \<exists>i. ae_session_id e = Some i \<and> (i, tag) \<in> set (rg_tags (w_reg w))) (w_events w))"
    unfolding ids by (auto intro: arg_cong [of _ _ length] filter_cong)
  have "length ?ids = card {i. (i, tag) \<in> set (rg_tags (w_reg w))}" unfolding ids [symmetric] by (simp only: distinct_card distinct_remdups)
  moreover have "rp_invocations (ts_report t) = length ?rows"
    "rp_executions (ts_report t) + rp_hits (ts_report t) \<le> length ?rows"
  proof -
    have "length (filter is_executed xs) + length (filter is_hit xs) \<le> length xs" for xs
      by (induction xs) (auto dest: executed_not_hit)
    then show "rp_invocations (ts_report t) = length ?rows" "rp_executions (ts_report t) + rp_hits (ts_report t) \<le> length ?rows"
      unfolding t by (simp_all add: build_session_report_def Let_def fold_count_row del: length_concat)
  qed
  ultimately show ?thesis using len unfolding t by simp
qed

definition sample_journal :: world where
  "sample_journal = sample_world\<lparr>w_reg := empty_registry\<lparr>rg_tags := [(''s1'', ''nightly''), (''s2'', ''nightly''), (''s3'', ''other'')],
     rg_events := map (\<lambda>i. \<lparr>ae_ts = ''2026-01-02T03:04:05'', ae_event = EV_RUN, ae_match_key = None, ae_client = ''claude'',
       ae_model = ''m'', ae_effort = [], ae_session_id = Some i\<rparr>) [''s1'', ''s3'', ''s2'', ''s1'']\<rparr>\<rparr>"

theorem tag_report_counts_witness:
  "\<exists>t w'. report_for_tag sample_runtime ''nightly'' sample_journal = (Inr t, w')
    \<and> ts_session_count t = 2 \<and> rp_invocations (ts_report t) = 3"
proof -
  have quiet: "\<forall>n. re_fault (rt_reg sample_runtime) n = None" by (simp add: sample_runtime_def)
  have "\<exists>t w'. report_for_tag sample_runtime ''nightly'' sample_journal = (Inr t, w')"
    by (simp add: report_for_tag_def report_of_events_def usage_by_key_def failed_persistence_count_def session_keys_def
        session_ids_for_tag_def session_events_def reg_read_run quiet bindP_def sample_journal_def sample_world_def
        in_session_def row_key_def map_filter_simps)
  then obtain t w' where t: "report_for_tag sample_runtime ''nightly'' sample_journal = (Inr t, w')" by blast
  have "{i. (i, ''nightly'') \<in> set (rg_tags (w_reg sample_journal))} = {''s1'', ''s2''}"
    by (auto simp: sample_journal_def)
  with tag_report_counts [OF quiet t] have "ts_session_count t = 2" by simp
  moreover have "rp_invocations (ts_report t) = 3"
    using tag_report_counts [OF quiet t] by (simp add: sample_journal_def w_events_def)
  ultimately show ?thesis using t by blast
qed

end
