(* ===== verification/Adapter_Catalog.thy ===== *)
theory Adapter_Catalog
  imports Domain_Model "HOL-Library.Product_Lexorder"
begin

text \<open>
  Which adapters there are and which one runs a call: the descriptors and the selection rules of the
  core (\<open>domain/model/catalog\<close>, \<open>usecase/select_adapter_for_execution_service.py\<close>,
  \<open>validate_execution_mode_service.py\<close>, \<open>check_client_availability_service.py\<close>), and the discovery layer
  of the bootstrap package (\<open>discovery/\<close>): the gated scan of the installed entry points, the in-process
  registry, the merged catalog and resolver, and the probes built on them. What is installed, what
  loading an entry point does and what a client answers are parameters; warnings and diagnostics are
  not represented.
\<close>

section \<open>Descriptors\<close>

datatype adapter_boundary = LOCAL_CLI | BOUNDARY_API

datatype client_capability = CAP_RUN | CAP_LIST_MODELS

fun capability_value :: "client_capability \<Rightarrow> text_str" where
  "capability_value CAP_RUN = ''run''"
| "capability_value CAP_LIST_MODELS = ''list-models''"

record descriptor =
  ad_adapter_id :: text_str
  ad_client_name :: text_str
  ad_boundary :: adapter_boundary
  ad_supported_modes :: "execution_kind list"
  ad_capabilities :: "client_capability list"
  ad_display_name :: text_str
  ad_priority :: int

definition local_cli :: "text_str \<Rightarrow> client_capability list \<Rightarrow> text_str \<Rightarrow> int \<Rightarrow> descriptor" where
  "local_cli client_name capabilities display_name priority =
     \<lparr>ad_adapter_id = client_name @ ''.cli'', ad_client_name = client_name, ad_boundary = LOCAL_CLI,
      ad_supported_modes = [LOCAL_MANAGED, LOCAL_PASSTHROUGH], ad_capabilities = capabilities,
      ad_display_name = display_name, ad_priority = priority\<rparr>"

definition api_descriptor :: "text_str \<Rightarrow> client_capability list \<Rightarrow> text_str \<Rightarrow> int \<Rightarrow> descriptor" where
  "api_descriptor client_name capabilities display_name priority =
     \<lparr>ad_adapter_id = client_name @ ''.api'', ad_client_name = client_name, ad_boundary = BOUNDARY_API,
      ad_supported_modes = [API], ad_capabilities = capabilities,
      ad_display_name = display_name, ad_priority = priority\<rparr>"

definition supports_mode :: "descriptor \<Rightarrow> execution_kind \<Rightarrow> bool" where
  "supports_mode d mode \<longleftrightarrow> mode \<in> set (ad_supported_modes d)"

definition has_capability :: "descriptor \<Rightarrow> client_capability \<Rightarrow> bool" where
  "has_capability d capability \<longleftrightarrow> capability \<in> set (ad_capabilities d)"

text \<open>\<open>{name!r}\<close>, for names without quotes and control characters.\<close>

definition quoted :: "text_str \<Rightarrow> text_str" where
  "quoted s = [CHR 0x27] @ s @ [CHR 0x27]"

definition for_client :: "text_str \<Rightarrow> descriptor list \<Rightarrow> descriptor list" where
  "for_client client_name ds = filter (\<lambda>d. ad_client_name d = client_name) ds"

definition any_supports :: "text_str \<Rightarrow> execution_kind \<Rightarrow> descriptor list \<Rightarrow> bool" where
  "any_supports client_name mode ds \<longleftrightarrow> (\<exists>d \<in> set ds. ad_client_name d = client_name \<and> supports_mode d mode)"

section \<open>Selection\<close>

definition rank :: "descriptor \<Rightarrow> int \<times> text_str" where
  "rank d = (ad_priority d, ad_adapter_id d)"

text \<open>\<open>max(..., key=...)\<close>: the first of the maximal ones.\<close>

fun max_rank :: "descriptor \<Rightarrow> descriptor list \<Rightarrow> descriptor" where
  "max_rank best [] = best"
| "max_rank best (d # ds) = max_rank (if rank best < rank d then d else best) ds"

definition select_adapter ::
  "descriptor list \<Rightarrow> text_str \<Rightarrow> execution_kind \<Rightarrow> client_capability list \<Rightarrow> exn + descriptor" where
  "select_adapter candidates client_name mode required =
     (let by_mode = filter (\<lambda>d. supports_mode d mode) candidates;
          capable = filter (\<lambda>d. \<forall>c \<in> set required. has_capability d c) by_mode
      in if candidates = [] then Inl (Exn UnknownClient (''unknown adapter '' @ quoted client_name))
         else if by_mode = [] then
           Inl (Exn UnsupportedExecutionMode (''adapter '' @ quoted client_name @ '' does not support '' @ kind_value mode @ '' execution''))
         else (case capable of
             [] \<Rightarrow> Inl (Exn CapabilityUnavailable (''adapter '' @ quoted client_name @ '' lacks required capability: '' @ join_str '', '' (map capability_value required)))
           | d # ds \<Rightarrow> Inr (max_rank d ds)))"

definition validate_mode :: "bool \<Rightarrow> descriptor list \<Rightarrow> text_str \<Rightarrow> execution_kind \<Rightarrow> exn + unit" where
  "validate_mode supported candidates client_name mode =
     (if supported then Inr ()
      else if candidates = [] then Inl (Exn UnknownClient (''unknown adapter '' @ quoted client_name))
      else Inl (Exn UnsupportedExecutionMode (''adapter '' @ quoted client_name @ '' does not support '' @ kind_value mode @ '' execution'')))"

record client_availability =
  av_client_name :: text_str
  av_available :: bool
  av_candidates :: "descriptor list"

definition check_availability :: "descriptor list \<Rightarrow> text_str \<Rightarrow> client_availability" where
  "check_availability candidates client_name =
     \<lparr>av_client_name = client_name, av_available = (candidates \<noteq> []), av_candidates = candidates\<rparr>"

section \<open>Adapter classes and entry points\<close>

datatype describe = Not_Callable | Describe_Raises exn | Describes descriptor | Describes_Other

text \<open>A loaded class: its declared contract, its \<open>descriptor()\<close>, and what constructing it does.\<close>

record adapter_class =
  ac_name :: text_str
  ac_contract :: "text_str option"
  ac_describe :: describe
  ac_build :: "exn option"

record distribution =
  di_name :: text_str
  di_version :: text_str
  di_metadata :: bool

record entry_point =
  ep_name :: text_str
  ep_value :: text_str
  ep_dist :: "distribution option"
  ep_load :: "exn + adapter_class"

definition ADAPTER_CONTRACT_VERSION :: text_str where "ADAPTER_CONTRACT_VERSION = ''1''"

definition DEFAULT_TRUSTED_DISTRIBUTIONS :: "text_str list" where
  "DEFAULT_TRUSTED_DISTRIBUTIONS = [''generic-ml-cache-adapters'']"

definition distribution_name :: "entry_point \<Rightarrow> text_str" where
  "distribution_name ep = (case ep_dist ep of None \<Rightarrow> [] | Some provider \<Rightarrow> if \<not> di_metadata provider then [] else di_name provider)"

definition describe_source :: "entry_point \<Rightarrow> text_str" where
  "describe_source ep =
     (case ep_dist ep of
        None \<Rightarrow> ep_value ep
      | Some provider \<Rightarrow>
          if di_name provider \<noteq> [] \<and> di_version provider \<noteq> [] then di_name provider @ '' '' @ di_version provider
          else if di_name provider \<noteq> [] then di_name provider else ep_value ep)"

section \<open>The gated scan\<close>

record ep_catalog =
  ec_whitelist :: "text_str list option"
  ec_descriptors :: "descriptor list option"
  ec_sources :: "(text_str \<times> text_str) list"
  ec_classes :: "(text_str \<times> adapter_class) list"

definition fresh_catalog :: "text_str list option \<Rightarrow> ep_catalog" where
  "fresh_catalog whitelist = \<lparr>ec_whitelist = whitelist, ec_descriptors = None, ec_sources = [], ec_classes = []\<rparr>"

text \<open>The entry-point catalog in use, the registry, and every \<open>entry_point.load()\<close> with the whitelist it ran under.\<close>

record universe =
  un_entry :: ep_catalog
  un_registry :: "(text_str \<times> adapter_class) list"
  un_loads :: "(text_str list option \<times> entry_point) list"

definition start_universe :: universe where
  "start_universe = \<lparr>un_entry = fresh_catalog None, un_registry = [], un_loads = []\<rparr>"

definition is_allowed_to_load :: "text_str list option \<Rightarrow> entry_point \<Rightarrow> bool" where
  "is_allowed_to_load whitelist ep \<longleftrightarrow>
     distribution_name ep \<in> set DEFAULT_TRUSTED_DISTRIBUTIONS
     \<or> (case whitelist of None \<Rightarrow> False | Some names \<Rightarrow> ep_name ep \<in> set names)"

definition on_entry :: "(ep_catalog \<Rightarrow> ep_catalog) \<Rightarrow> (universe, unit) prog" where
  "on_entry f = modifyP (\<lambda>s. s\<lparr>un_entry := f (un_entry s)\<rparr>)"

definition load_entry :: "entry_point \<Rightarrow> (universe, adapter_class option) prog" where
  "load_entry ep =
     thenP (modifyP (\<lambda>s. s\<lparr>un_loads := un_loads s @ [(ec_whitelist (un_entry s), ep)]\<rparr>))
       (case ep_load ep of
          Inl e \<Rightarrow> if is_exception e then ret None else raise e
        | Inr cls \<Rightarrow> ret (Some cls))"

definition vet_class :: "adapter_class \<Rightarrow> (universe, descriptor option) prog" where
  "vet_class cls =
     (if (case ac_contract cls of None \<Rightarrow> False | Some declared \<Rightarrow> declared \<noteq> ADAPTER_CONTRACT_VERSION) then ret None
      else (case ac_describe cls of
          Not_Callable \<Rightarrow> ret None
        | Describe_Raises e \<Rightarrow> if is_exception e then ret None else raise e
        | Describes d \<Rightarrow> ret (Some d)
        | Describes_Other \<Rightarrow> raise (Exn AttributeError ''adapter_id'')))"

definition accept_class :: "entry_point \<Rightarrow> adapter_class \<Rightarrow> descriptor \<Rightarrow> (universe, unit) prog" where
  "accept_class ep cls d =
     bindP (getsP un_entry) (\<lambda>c.
     case map_of (ec_classes c) (ad_adapter_id d) of
       Some _ \<Rightarrow> raise (Exn ValueError (''gmlcache: duplicate adapter_id '' @ quoted (ad_adapter_id d)))
     | None \<Rightarrow>
         on_entry (\<lambda>c. c\<lparr>ec_sources := dict_set (ad_adapter_id d) (describe_source ep) (ec_sources c),
                       ec_classes := dict_set (ad_adapter_id d) cls (ec_classes c)\<rparr>))"

fun scan :: "entry_point list \<Rightarrow> descriptor list \<Rightarrow> (universe, descriptor list) prog" where
  "scan [] descriptors = ret descriptors"
| "scan (ep # eps) descriptors =
     bindP (getsP (\<lambda>s. is_allowed_to_load (ec_whitelist (un_entry s)) ep)) (\<lambda>allowed.
     if \<not> allowed then scan eps descriptors
     else bindP (load_entry ep) (\<lambda>loaded. case loaded of
         None \<Rightarrow> scan eps descriptors
       | Some cls \<Rightarrow> bindP (vet_class cls) (\<lambda>described. case described of
             None \<Rightarrow> scan eps descriptors
           | Some d \<Rightarrow> thenP (accept_class ep cls d) (scan eps (descriptors @ [d])))))"

definition ensure_loaded :: "entry_point list \<Rightarrow> (universe, descriptor list) prog" where
  "ensure_loaded installed =
     bindP (getsP (\<lambda>s. ec_descriptors (un_entry s))) (\<lambda>cached. case cached of
       Some ds \<Rightarrow> ret ds
     | None \<Rightarrow> bindP (scan installed []) (\<lambda>ds. thenP (on_entry (\<lambda>c. c\<lparr>ec_descriptors := Some ds\<rparr>)) (ret ds)))"

section \<open>The registry and the merged view\<close>

definition class_descriptor :: "adapter_class \<Rightarrow> exn + descriptor" where
  "class_descriptor cls =
     (case ac_describe cls of
        Not_Callable \<Rightarrow> Inl (Exn AttributeError ''descriptor'')
      | Describe_Raises e \<Rightarrow> Inl e
      | Describes d \<Rightarrow> Inr d
      | Describes_Other \<Rightarrow> Inl (Exn AttributeError ''adapter_id''))"

definition register_class :: "adapter_class \<Rightarrow> (universe, unit) prog" where
  "register_class cls =
     bindP (liftE (class_descriptor cls)) (\<lambda>d.
     modifyP (\<lambda>s. s\<lparr>un_registry := dict_set (ad_adapter_id d) cls (un_registry s)\<rparr>))"

definition clear_registry :: "(universe, unit) prog" where
  "clear_registry = modifyP (\<lambda>s. s\<lparr>un_registry := []\<rparr>)"

definition registry_list :: "(universe, descriptor list) prog" where
  "registry_list = bindP (getsP un_registry) (\<lambda>classes. mapP (\<lambda>e. liftE (class_descriptor (snd e))) classes)"

definition merge_descriptor :: "descriptor \<Rightarrow> (text_str \<times> descriptor) list \<Rightarrow> (text_str \<times> descriptor) list" where
  "merge_descriptor d merged =
     (case map_of merged (ad_adapter_id d) of None \<Rightarrow> dict_set (ad_adapter_id d) d merged | Some _ \<Rightarrow> merged)"

definition merge_descriptors :: "descriptor list \<Rightarrow> descriptor list" where
  "merge_descriptors ds = map snd (fold merge_descriptor ds [])"

definition list_adapters :: "entry_point list \<Rightarrow> (universe, descriptor list) prog" where
  "list_adapters installed =
     bindP (ensure_loaded installed) (\<lambda>entry. bindP registry_list (\<lambda>registered. ret (merge_descriptors (entry @ registered))))"

definition find_by_client_name :: "entry_point list \<Rightarrow> text_str \<Rightarrow> (universe, descriptor list) prog" where
  "find_by_client_name installed client_name =
     bindP (list_adapters installed) (\<lambda>ds. ret (for_client client_name ds))"

definition supports :: "entry_point list \<Rightarrow> text_str \<Rightarrow> execution_kind \<Rightarrow> (universe, bool) prog" where
  "supports installed client_name mode =
     bindP (ensure_loaded installed) (\<lambda>entry.
     if any_supports client_name mode entry then ret True
     else bindP registry_list (\<lambda>registered. ret (any_supports client_name mode registered)))"

text \<open>A resolver constructs the class; the composite one goes on when that raises \<open>UnknownClient\<close>.\<close>

definition construct :: "text_str \<Rightarrow> adapter_class option \<Rightarrow> exn + adapter_class" where
  "construct adapter_id found =
     (case found of
        None \<Rightarrow> Inl (Exn UnknownClient (''no adapter for id '' @ quoted adapter_id))
      | Some cls \<Rightarrow> (case ac_build cls of None \<Rightarrow> Inr cls | Some e \<Rightarrow> Inl e))"

definition unknown_next :: "(universe, 'a) prog \<Rightarrow> (universe, 'a) prog \<Rightarrow> (universe, 'a) prog" where
  "unknown_next m n = catchP m (\<lambda>e. if exn_class_of e = UnknownClient then n else raise e)"

definition resolve_class :: "entry_point list \<Rightarrow> text_str \<Rightarrow> (universe, adapter_class option) prog" where
  "resolve_class installed adapter_id =
     thenP (ensure_loaded installed) (getsP (\<lambda>s. map_of (ec_classes (un_entry s)) adapter_id))"

definition resolve :: "entry_point list \<Rightarrow> text_str \<Rightarrow> (universe, adapter_class) prog" where
  "resolve installed adapter_id =
     unknown_next (bindP (resolve_class installed adapter_id) (\<lambda>found. liftE (construct adapter_id found)))
    (unknown_next (bindP (getsP (\<lambda>s. map_of (un_registry s) adapter_id)) (\<lambda>found. liftE (construct adapter_id found)))
      (raise (Exn UnknownClient (''no resolver for id '' @ quoted adapter_id))))"

text \<open>
  \<open>catalog_and_resolver_for\<close>: without a whitelist the shared default catalog; with one a fresh catalog,
  shared by the listing and the resolving of that call and dropped after it.
\<close>

definition under :: "text_str list option \<Rightarrow> (universe, 'a) prog \<Rightarrow> (universe, 'a) prog" where
  "under whitelist m =
     (case whitelist of
        None \<Rightarrow> m
      | Some names \<Rightarrow>
          (\<lambda>s. case m (s\<lparr>un_entry := fresh_catalog (Some names)\<rparr>) of (r, s') \<Rightarrow> (r, s'\<lparr>un_entry := un_entry s\<rparr>)))"

section \<open>Composition\<close>

definition client_names :: "descriptor list \<Rightarrow> text_str list" where
  "client_names ds = sorted_set (set (map ad_client_name ds))"

definition unknown_adapter :: "text_str \<Rightarrow> descriptor list \<Rightarrow> exn" where
  "unknown_adapter name ds =
     (let known = join_str '', '' (client_names ds)
      in Exn UnknownClient (''unknown adapter '' @ quoted name @ ''; available: '' @ (if known = [] then ''(none)'' else known)))"

definition get_adapter :: "entry_point list \<Rightarrow> text_str \<Rightarrow> text_str list option \<Rightarrow> (universe, adapter_class) prog" where
  "get_adapter installed name whitelist =
     under whitelist
       (bindP (find_by_client_name installed name) (\<lambda>ds. case ds of
          [] \<Rightarrow> bindP (list_adapters installed) (\<lambda>all. raise (unknown_adapter name all))
        | d # _ \<Rightarrow> resolve installed (ad_adapter_id d)))"

fun primary_mode :: "adapter_boundary \<Rightarrow> execution_kind" where
  "primary_mode LOCAL_CLI = LOCAL_MANAGED"
| "primary_mode BOUNDARY_API = API"

definition execution_kind_for :: "entry_point list \<Rightarrow> text_str \<Rightarrow> text_str list option \<Rightarrow> (universe, execution_kind) prog" where
  "execution_kind_for installed client whitelist =
     under whitelist
       (bindP (find_by_client_name installed client) (\<lambda>ds. case ds of
          [] \<Rightarrow> bindP (list_adapters installed) (\<lambda>all. raise (unknown_adapter client all))
        | d # _ \<Rightarrow> ret (primary_mode (ad_boundary d))))"

definition registered_names :: "entry_point list \<Rightarrow> text_str list option \<Rightarrow> (universe, text_str list) prog" where
  "registered_names installed whitelist =
     under whitelist (bindP (list_adapters installed) (\<lambda>ds. ret (client_names ds)))"

definition registered_local_names :: "entry_point list \<Rightarrow> text_str list option \<Rightarrow> (universe, text_str list) prog" where
  "registered_local_names installed whitelist =
     under whitelist (bindP (list_adapters installed) (\<lambda>ds.
       ret (client_names (filter (\<lambda>d. supports_mode d LOCAL_MANAGED) ds))))"

text \<open>The sources come from the default catalog, whatever the whitelist.\<close>

definition adapter_sources :: "entry_point list \<Rightarrow> text_str list option \<Rightarrow> (universe, (text_str \<times> text_str) list) prog" where
  "adapter_sources installed whitelist =
     bindP (thenP (ensure_loaded installed) (getsP (\<lambda>s. ec_sources (un_entry s)))) (\<lambda>sources.
     bindP (under whitelist (list_adapters installed)) (\<lambda>visible.
     bindP (ensure_loaded installed) (\<lambda>ds.
     ret (fold (\<lambda>d out. case map_of sources (ad_adapter_id d) of
            None \<Rightarrow> out
          | Some source \<Rightarrow>
              if ad_client_name d \<in> ad_client_name ` set visible then dict_set (ad_client_name d) source out else out) ds []))))"

section \<open>Probing the clients\<close>

record client_env =
  cl_installed :: "entry_point list"
  cl_resolve_executable :: "adapter_class \<Rightarrow> text_str option \<Rightarrow> exn + text_str"
  cl_version_argv :: "adapter_class \<Rightarrow> text_str \<Rightarrow> text_str list"
  cl_models_argv :: "adapter_class \<Rightarrow> text_str \<Rightarrow> text_str list option"
  cl_parse_models :: "adapter_class \<Rightarrow> text_str \<Rightarrow> text_str list"
  cl_run :: "text_str list \<Rightarrow> exn + (int \<times> text_str \<times> text_str)"

record client_status =
  cs_name :: text_str
  cs_present :: bool
  cs_executable :: "text_str option"
  cs_version :: "text_str option"
  cs_detail :: "text_str option"

record model_listing =
  ml_name :: text_str
  ml_present :: bool
  ml_supported :: bool
  ml_models :: "text_str list option"
  ml_reason :: "text_str option"

definition line_ends :: "text_str list" where
  "line_ends = map (\<lambda>c. [char_of c]) [10 :: nat, 11, 12, 13, 28, 29, 30]
     @ [map char_of [194 :: nat, 133], map char_of [226 :: nat, 128, 168], map char_of [226 :: nat, 128, 169]]"

text \<open>\<open>splitlines()[0]\<close> of a non-empty text.\<close>

fun first_line :: "text_str \<Rightarrow> text_str" where
  "first_line [] = []"
| "first_line (c # cs) = (if \<exists>e \<in> set line_ends. starts_with e (c # cs) then [] else c # first_line cs)"

definition or_text :: "text_str \<Rightarrow> text_str \<Rightarrow> text_str" where
  "or_text a b = (if a = [] then b else a)"

definition resolve_local_client :: "client_env \<Rightarrow> text_str \<Rightarrow> text_str list option \<Rightarrow> (universe, adapter_class) prog" where
  "resolve_local_client E name whitelist =
     under whitelist
       (bindP (find_by_client_name (cl_installed E) name) (\<lambda>ds.
        if ds = [] then raise (Exn UnknownClient (''unknown adapter '' @ quoted name))
        else (case filter (\<lambda>d. supports_mode d LOCAL_MANAGED) ds of
            [] \<Rightarrow> raise (Exn UnknownClient (''not a local managed adapter: '' @ quoted name))
          | d # _ \<Rightarrow> resolve (cl_installed E) (ad_adapter_id d))))"

definition probe_version :: "client_env \<Rightarrow> text_str list \<Rightarrow> exn + text_str option \<times> text_str option" where
  "probe_version E argv =
     (case cl_run E argv of
        Inl e \<Rightarrow> if is_exception e then Inr (None, Some (''version check failed: '' @ exn_message e)) else Inl e
      | Inr (returncode, stdout, stderr) \<Rightarrow>
          (let out = or_text (strip_str stdout) (strip_str stderr);
               first = (if out = [] then [] else strip_str (first_line out))
           in Inr (if first = [] then (None, Some ''no version output'') else (Some first, None))))"

definition probe_client :: "client_env \<Rightarrow> text_str \<Rightarrow> text_str option \<Rightarrow> (universe, client_status) prog" where
  "probe_client E name executable =
     bindP (resolve_local_client E name None) (\<lambda>adapter.
     case cl_resolve_executable E adapter executable of
       Inl e \<Rightarrow>
         if exn_class_of e = ClientNotFound
         then ret \<lparr>cs_name = name, cs_present = False, cs_executable = None, cs_version = None, cs_detail = Some (exn_message e)\<rparr>
         else raise e
     | Inr exe \<Rightarrow>
         bindP (liftE (probe_version E (cl_version_argv E adapter exe))) (\<lambda>(version, detail).
         ret \<lparr>cs_name = name, cs_present = True, cs_executable = Some exe, cs_version = version, cs_detail = detail\<rparr>))"

definition probe_all ::
  "client_env \<Rightarrow> (text_str \<rightharpoonup> text_str) \<Rightarrow> text_str list option \<Rightarrow> (universe, client_status list) prog" where
  "probe_all E executables whitelist =
     bindP (registered_local_names (cl_installed E) whitelist) (\<lambda>names.
     mapP (\<lambda>name. probe_client E name (executables name)) names)"

definition list_models ::
  "client_env \<Rightarrow> text_str \<Rightarrow> text_str option \<Rightarrow> text_str list option \<Rightarrow> (universe, model_listing) prog" where
  "list_models E name executable whitelist =
     bindP (resolve_local_client E name whitelist) (\<lambda>adapter.
     let listing = (\<lambda>supported models reason. \<lparr>ml_name = name, ml_present = True, ml_supported = supported,
                       ml_models = models, ml_reason = reason\<rparr>)
     in case cl_resolve_executable E adapter executable of
       Inl e \<Rightarrow>
         if exn_class_of e = ClientNotFound
         then ret \<lparr>ml_name = name, ml_present = False, ml_supported = False, ml_models = None, ml_reason = Some (exn_message e)\<rparr>
         else raise e
     | Inr exe \<Rightarrow>
         (case cl_models_argv E adapter exe of
            None \<Rightarrow> ret (listing False None (Some ''this client has no model-listing command''))
          | Some argv \<Rightarrow>
              (case cl_run E argv of
                 Inl e \<Rightarrow>
                   if is_exception e then ret (listing True None (Some (''model listing failed: '' @ exn_message e))) else raise e
               | Inr (returncode, stdout, stderr) \<Rightarrow>
                   if returncode \<noteq> 0 then
                     (let err = strip_str (or_text stderr stdout);
                          detail = (if err = [] then ''exit '' @ int_str returncode else strip_str (first_line err))
                      in ret (listing True None (Some (''client exited '' @ int_str returncode @ '': '' @ detail))))
                   else ret (listing True (Some (cl_parse_models E adapter stdout)) None))))"

definition list_models_all ::
  "client_env \<Rightarrow> (text_str \<rightharpoonup> text_str) \<Rightarrow> text_str list option \<Rightarrow> (universe, model_listing list) prog" where
  "list_models_all E executables whitelist =
     bindP (registered_local_names (cl_installed E) whitelist) (\<lambda>names.
     mapP (\<lambda>name. list_models E name (executables name) whitelist) names)"

text \<open>\<open>models cls\<close> is \<open>None\<close> for an adapter without the listing port, else what its \<open>list_models()\<close> gives.\<close>

definition list_api_models ::
  "entry_point list \<Rightarrow> (adapter_class \<Rightarrow> (exn + text_str list) option) \<Rightarrow> text_str \<Rightarrow> text_str list option
     \<Rightarrow> (universe, model_listing) prog" where
  "list_api_models installed models name whitelist =
     bindP
       (catchP
         (bindP (get_adapter installed name whitelist) (\<lambda>adapter. ret (Inr adapter)))
         (\<lambda>e. if exn_class_of e = UnknownClient then ret (Inl e) else raise e))
     (\<lambda>found. case found of
        Inl e \<Rightarrow> ret \<lparr>ml_name = name, ml_present = False, ml_supported = False, ml_models = None, ml_reason = Some (exn_message e)\<rparr>
      | Inr adapter \<Rightarrow>
          (case models adapter of
             None \<Rightarrow> ret \<lparr>ml_name = name, ml_present = True, ml_supported = False, ml_models = None,
                          ml_reason = Some ''this provider has no model-listing endpoint''\<rparr>
           | Some (Inl e) \<Rightarrow>
               if is_exception e
               then ret \<lparr>ml_name = name, ml_present = True, ml_supported = True, ml_models = None,
                         ml_reason = Some (''model listing failed: '' @ exn_message e)\<rparr>
               else raise e
           | Some (Inr found) \<Rightarrow> ret \<lparr>ml_name = name, ml_present = True, ml_supported = True, ml_models = Some found, ml_reason = None\<rparr>))"

end
