(* ===== verification/Adapter_Discovery.thy ===== *)
theory Adapter_Discovery
  imports Adapter_Catalog
begin

text \<open>
  What the adapter catalog guarantees: a plugin that is neither trusted nor whitelisted is never
  loaded, a listed adapter resolves to the class that described it, the selection rule, and three places
  where the discovery layer disagrees with itself.
\<close>

section \<open>The trust gate\<close>

lemma steps_case_sum [steps_rules]:
  "(\<And>y. x = Inl y \<Longrightarrow> steps R (f y)) \<Longrightarrow> (\<And>y. x = Inr y \<Longrightarrow> steps R (g y)) \<Longrightarrow>
   steps R (case x of Inl y \<Rightarrow> f y | Inr y \<Rightarrow> g y)"
  by (cases x) auto

lemma steps_case_list [steps_rules]:
  "(x = [] \<Longrightarrow> steps R m) \<Longrightarrow> (\<And>y ys. x = y # ys \<Longrightarrow> steps R (f y ys)) \<Longrightarrow>
   steps R (case x of [] \<Rightarrow> m | y # ys \<Rightarrow> f y ys)"
  by (cases x) auto

lemma steps_case_describe [steps_rules]:
  "steps R a \<Longrightarrow> (\<And>e. steps R (b e)) \<Longrightarrow> (\<And>d. steps R (c d)) \<Longrightarrow> steps R f \<Longrightarrow>
   steps R (case x of Not_Callable \<Rightarrow> a | Describe_Raises e \<Rightarrow> b e | Describes d \<Rightarrow> c d | Describes_Other \<Rightarrow> f)"
  by (cases x) auto

text \<open>Every load so far ran under a whitelist of \<open>W\<close> that allows it; the catalog in use has the whitelist \<open>wl\<close>.\<close>

definition gated :: "text_str list option set \<Rightarrow> text_str list option \<Rightarrow> universe \<Rightarrow> bool" where
  "gated W wl s \<longleftrightarrow> ec_whitelist (un_entry s) = wl \<and> (\<forall>(w, ep) \<in> set (un_loads s). w \<in> W \<and> is_allowed_to_load w ep)"

lemma gated_entry [steps_rules]:
  "(\<And>c. ec_whitelist (f c) = ec_whitelist c) \<Longrightarrow> steps (invariantly (gated W wl)) (on_entry f)"
  unfolding on_entry_def by (rule steps_modify) (simp add: invariantly_def gated_def)

lemma gated_load:
  assumes "wl \<in> W" and "is_allowed_to_load wl ep"
  shows "steps (invariantly (gated W wl)) (load_entry ep)"
  unfolding load_entry_def
  by (intro steps_rules steps_modify) (use assms in \<open>auto simp: invariantly_def gated_def\<close>)

lemma gated_vet [steps_rules]: "steps (invariantly (gated W wl)) (vet_class cls)"
  unfolding vet_class_def by (intro steps_rules) auto

lemma gated_accept [steps_rules]: "steps (invariantly (gated W wl)) (accept_class ep cls d)"
  unfolding accept_class_def by (intro steps_rules) auto

lemma gated_scan [steps_rules]: "wl \<in> W \<Longrightarrow> steps (invariantly (gated W wl)) (scan eps ds)"
proof (induction eps arbitrary: ds)
  case (Cons ep eps)
  let ?R = "invariantly (gated W wl)"
  note rest = Cons.IH [OF Cons.prems]
  show ?case
  proof (rule stepsI)
    fix s r s'
    assume run: "scan (ep # eps) ds s = (r, s')"
    show "?R s s'"
    proof (cases "gated W wl s")
      case True
      let ?go = "bindP (load_entry ep) (\<lambda>loaded. case loaded of None \<Rightarrow> scan eps ds
        | Some cls \<Rightarrow> bindP (vet_class cls) (\<lambda>described. case described of None \<Rightarrow> scan eps ds
            | Some d \<Rightarrow> thenP (accept_class ep cls d) (scan eps (ds @ [d]))))"
      show ?thesis
      proof (cases "is_allowed_to_load wl ep")
        case True
        have "steps ?R ?go" using True Cons.prems by (intro steps_rules gated_load rest) auto
        moreover have "?go s = (r, s')" using run \<open>gated W wl s\<close> True by (simp add: bindP_def [of "getsP _"] gated_def)
        ultimately show ?thesis by (rule stepsD)
      next
        case False
        then have "scan eps ds s = (r, s')" using run \<open>gated W wl s\<close> by (simp add: bindP_def [of "getsP _"] gated_def)
        with rest show ?thesis by (blast intro: stepsD)
      qed
    qed (simp add: invariantly_def)
  qed
qed (simp add: steps_ret)

lemma gated_registry [steps_rules]:
  "steps (invariantly (gated W wl)) (register_class cls)" "steps (invariantly (gated W wl)) clear_registry"
  "steps (invariantly (gated W wl)) registry_list"
  unfolding register_class_def clear_registry_def registry_list_def
  by (intro steps_rules steps_modify; simp add: invariantly_def gated_def)+

lemma gated_unknown_next [steps_rules]:
  "steps (invariantly (gated W wl)) m \<Longrightarrow> steps (invariantly (gated W wl)) n \<Longrightarrow> steps (invariantly (gated W wl)) (unknown_next m n)"
  unfolding unknown_next_def by (intro steps_rules) auto

lemma gated_views [steps_rules]:
  assumes "wl \<in> W"
  shows "steps (invariantly (gated W wl)) (ensure_loaded installed)"
    and "steps (invariantly (gated W wl)) (list_adapters installed)"
    and "steps (invariantly (gated W wl)) (find_by_client_name installed name)"
    and "steps (invariantly (gated W wl)) (supports installed name mode)"
    and "steps (invariantly (gated W wl)) (resolve installed adapter_id)"
proof -
  show loaded: "steps (invariantly (gated W wl)) (ensure_loaded installed)"
    unfolding ensure_loaded_def using assms by (intro steps_rules) auto
  show listed: "steps (invariantly (gated W wl)) (list_adapters installed)"
    unfolding list_adapters_def by (intro steps_rules loaded) auto
  show "steps (invariantly (gated W wl)) (find_by_client_name installed name)"
    unfolding find_by_client_name_def by (intro steps_rules listed) auto
  show "steps (invariantly (gated W wl)) (supports installed name mode)"
    unfolding supports_def by (intro steps_rules loaded) auto
  show "steps (invariantly (gated W wl)) (resolve installed adapter_id)"
    unfolding resolve_def resolve_class_def by (intro steps_rules loaded) auto
qed

lemma gated_under [steps_rules]:
  assumes "wl \<in> W" and "\<And>w. w = wl \<Longrightarrow> steps (invariantly (gated W w)) m"
  shows "steps (invariantly (gated W None)) (under wl m)"
proof (cases wl)
  case None
  with assms(2) show ?thesis by (simp add: under_def)
next
  case (Some names)
  show ?thesis
  proof (rule stepsI)
    fix s r s'
    assume "under wl m s = (r, s')"
    then obtain s1 where m: "m (s\<lparr>un_entry := fresh_catalog (Some names)\<rparr>) = (r, s1)" and s': "s' = s1\<lparr>un_entry := un_entry s\<rparr>"
      by (auto simp: under_def Some split: prod.splits)
    show "invariantly (gated W None) s s'"
      using stepsD [OF assms(2) m] Some by (auto simp: invariantly_def gated_def s' fresh_catalog_def)
  qed
qed

datatype discovery_op =
    Register adapter_class
  | Clear
  | Get_Adapter text_str "text_str list option"
  | Kind_For text_str "text_str list option"
  | Names "text_str list option"
  | Local_Names "text_str list option"
  | Supports text_str execution_kind "text_str list option"
  | Sources "text_str list option"
  | Probe_All "text_str \<rightharpoonup> text_str" "text_str list option"
  | List_Models_All "text_str \<rightharpoonup> text_str" "text_str list option"
  | List_Api_Models "adapter_class \<Rightarrow> (exn + text_str list) option" text_str "text_str list option"

fun op_whitelist :: "discovery_op \<Rightarrow> text_str list option" where
  "op_whitelist (Get_Adapter n w) = w"
| "op_whitelist (Kind_For n w) = w"
| "op_whitelist (Names w) = w"
| "op_whitelist (Local_Names w) = w"
| "op_whitelist (Supports n m w) = w"
| "op_whitelist (Sources w) = w"
| "op_whitelist (Probe_All x w) = w"
| "op_whitelist (List_Models_All x w) = w"
| "op_whitelist (List_Api_Models x n w) = w"
| "op_whitelist (Register c) = None"
| "op_whitelist Clear = None"

definition no_result :: "(universe, 'a) prog \<Rightarrow> universe \<Rightarrow> universe" where
  "no_result m s = snd (m s)"

fun discover :: "client_env \<Rightarrow> discovery_op \<Rightarrow> universe \<Rightarrow> universe" where
  "discover E (Register cls) = no_result (register_class cls)"
| "discover E Clear = no_result clear_registry"
| "discover E (Get_Adapter n w) = no_result (get_adapter (cl_installed E) n w)"
| "discover E (Kind_For n w) = no_result (execution_kind_for (cl_installed E) n w)"
| "discover E (Names w) = no_result (registered_names (cl_installed E) w)"
| "discover E (Local_Names w) = no_result (registered_local_names (cl_installed E) w)"
| "discover E (Supports n m w) = no_result (under w (supports (cl_installed E) n m))"
| "discover E (Sources w) = no_result (adapter_sources (cl_installed E) w)"
| "discover E (Probe_All x w) = no_result (probe_all E x w)"
| "discover E (List_Models_All x w) = no_result (list_models_all E x w)"
| "discover E (List_Api_Models x n w) = no_result (list_api_models (cl_installed E) x n w)"

lemma gated_composition [steps_rules]:
  assumes "None \<in> W" and "w \<in> W"
  shows "steps (invariantly (gated W None)) (get_adapter installed n w)"
    and "steps (invariantly (gated W None)) (execution_kind_for installed n w)"
    and "steps (invariantly (gated W None)) (registered_names installed w)"
    and "steps (invariantly (gated W None)) (registered_local_names installed w)"
    and "steps (invariantly (gated W None)) (under w (supports installed n k))"
    and "steps (invariantly (gated W None)) (adapter_sources installed w)"
    and "steps (invariantly (gated W None)) (resolve_local_client E n w)"
  unfolding get_adapter_def execution_kind_for_def registered_names_def registered_local_names_def adapter_sources_def
    resolve_local_client_def
  by (intro steps_rules; simp add: assms)+

lemma gated_probes [steps_rules]:
  assumes "None \<in> W" and "w \<in> W"
  shows "steps (invariantly (gated W None)) (probe_client E n x)"
    and "steps (invariantly (gated W None)) (probe_all E xs w)"
    and "steps (invariantly (gated W None)) (list_models E n x w)"
    and "steps (invariantly (gated W None)) (list_models_all E xs w)"
    and "steps (invariantly (gated W None)) (list_api_models installed ms n w)"
proof -
  show p: "steps (invariantly (gated W None)) (probe_client E n x)" for n x
    unfolding probe_client_def by (intro steps_rules; simp add: assms)
  show "steps (invariantly (gated W None)) (probe_all E xs w)"
    unfolding probe_all_def by (intro steps_rules p; simp add: assms)
  show l: "steps (invariantly (gated W None)) (list_models E n x w)" for n x
    unfolding list_models_def Let_def by (intro steps_rules; simp add: assms)
  show "steps (invariantly (gated W None)) (list_models_all E xs w)"
    unfolding list_models_all_def by (intro steps_rules l; simp add: assms)
  show "steps (invariantly (gated W None)) (list_api_models installed ms n w)"
    unfolding list_api_models_def by (intro steps_rules; simp add: assms)
qed

lemma discover_gated:
  assumes "None \<in> W" and "op_whitelist op \<in> W" and "gated W None s"
  shows "gated W None (discover E op s)"
proof -
  have keep: "gated W None (no_result m s)" if "steps (invariantly (gated W None)) m" for m :: "(universe, 'a) prog"
    using that assms(3) unfolding steps_def invariantly_def no_result_def by blast
  show ?thesis
    using assms(1,2) by (cases op) (auto intro!: keep gated_registry gated_composition gated_probes)
qed

lemma discover_all_gated:
  assumes "None \<in> W" and "\<forall>op \<in> set ops. op_whitelist op \<in> W" and "gated W None s"
  shows "gated W None (fold (discover E) ops s)"
  using assms by (induction ops arbitrary: s) (simp_all add: discover_gated)

text \<open>C21: the trust gate. Over any sequence of discovery operations of a process, with any plugins installed, an
  entry point whose distribution is not trusted and whose name no whitelist of the sequence holds is never
  loaded: its module code does not run, neither when adapters are listed nor when one is resolved or probed.\<close>

theorem untrusted_plugin_never_loaded:
  assumes "distribution_name ep \<notin> set DEFAULT_TRUSTED_DISTRIBUTIONS"
    and "\<forall>op \<in> set ops. \<forall>names. op_whitelist op = Some names \<longrightarrow> ep_name ep \<notin> set names"
  shows "ep \<notin> snd ` set (un_loads (fold (discover E) ops start_universe))"
proof -
  let ?W = "insert None (op_whitelist ` set ops)"
  have "gated ?W None start_universe" by (simp add: gated_def start_universe_def fresh_catalog_def)
  then have "gated ?W None (fold (discover E) ops start_universe)" by (intro discover_all_gated) auto
  moreover have "\<not> is_allowed_to_load w ep" if "w \<in> ?W" for w
    using that assms by (auto simp: is_allowed_to_load_def split: option.splits)
  ultimately show ?thesis unfolding gated_def by force
qed

definition sample_class :: "text_str \<Rightarrow> adapter_class" where
  "sample_class name = \<lparr>ac_name = name, ac_contract = Some ''1'', ac_describe = Describes (local_cli name [CAP_RUN] name 0), ac_build = None\<rparr>"

definition trusted_plugin :: "text_str \<Rightarrow> entry_point" where
  "trusted_plugin name = \<lparr>ep_name = name, ep_value = ''m'', ep_dist = Some \<lparr>di_name = ''generic-ml-cache-adapters'', di_version = ''1'', di_metadata = True\<rparr>,
     ep_load = Inr (sample_class name)\<rparr>"

definition foreign_plugin :: "text_str \<Rightarrow> entry_point" where
  "foreign_plugin name = \<lparr>ep_name = name, ep_value = ''m'', ep_dist = Some \<lparr>di_name = ''acme'', di_version = ''1'', di_metadata = True\<rparr>,
     ep_load = Inr (sample_class name)\<rparr>"

definition sample_clients :: client_env where
  "sample_clients = \<lparr>cl_installed = [trusted_plugin ''claude'', foreign_plugin ''acme''], cl_resolve_executable = (\<lambda>_ _. Inr ''/bin/x''),
     cl_version_argv = (\<lambda>_ x. [x, ''--version'']), cl_models_argv = (\<lambda>_ _. None), cl_parse_models = (\<lambda>_ _. []),
     cl_run = (\<lambda>_. Inr (0, ''1.0'', []))\<rparr>"

theorem untrusted_plugin_never_loaded_witness:
  "foreign_plugin ''acme'' \<notin> snd ` set (un_loads (fold (discover sample_clients) [Names (Some [''other'']), Probe_All Map.empty None] start_universe))"
  by (rule untrusted_plugin_never_loaded)
    (simp_all add: distribution_name_def foreign_plugin_def DEFAULT_TRUSTED_DISTRIBUTIONS_def)

section \<open>Selection\<close>

lemma max_rank_result: "max_rank best ds \<in> insert best (set ds) \<and> (\<forall>d \<in> insert best (set ds). rank d \<le> rank (max_rank best ds))"
proof (induction ds arbitrary: best)
  case (Cons d ds)
  let ?b = "if rank best < rank d then d else best"
  have "rank best \<le> rank ?b" "rank d \<le> rank ?b" by auto
  with Cons.IH [of ?b] show ?case by (auto split: if_splits intro: order_trans)
qed simp

text \<open>The selection rule. An adapter is chosen exactly when some candidate supports the mode and has every
  required capability; the chosen one does, and no other such candidate has a higher priority, or the same
  priority and a later id. Otherwise the error names the first requirement nobody meets: no candidate at
  all, none for the mode, none with the capabilities.\<close>

theorem selection_rule:
  "case select_adapter candidates client_name mode required of
     Inr d \<Rightarrow> d \<in> set candidates \<and> supports_mode d mode \<and> (\<forall>c \<in> set required. has_capability d c)
       \<and> (\<forall>d' \<in> set candidates. supports_mode d' mode \<and> (\<forall>c \<in> set required. has_capability d' c) \<longrightarrow>
            ad_priority d' < ad_priority d \<or> ad_priority d' = ad_priority d \<and> ad_adapter_id d' \<le> ad_adapter_id d)
   | Inl e \<Rightarrow> \<not> (\<exists>d \<in> set candidates. supports_mode d mode \<and> (\<forall>c \<in> set required. has_capability d c))
       \<and> (exn_class_of e = UnknownClient \<longleftrightarrow> candidates = [])
       \<and> (exn_class_of e = UnsupportedExecutionMode \<longleftrightarrow> candidates \<noteq> [] \<and> \<not> (\<exists>d \<in> set candidates. supports_mode d mode))
       \<and> (exn_class_of e = CapabilityUnavailable \<longleftrightarrow> (\<exists>d \<in> set candidates. supports_mode d mode))"
proof -
  let ?by = "filter (\<lambda>d. supports_mode d mode) candidates"
  let ?cap = "filter (\<lambda>d. \<forall>c \<in> set required. has_capability d c) ?by"
  have cap: "d \<in> set ?cap \<longleftrightarrow> d \<in> set candidates \<and> supports_mode d mode \<and> (\<forall>c \<in> set required. has_capability d c)" for d
    by auto
  show ?thesis
  proof (cases ?cap)
    case (Cons d ds)
    then have "?by \<noteq> []" by (metis filter.simps(1) list.distinct(1))
    then have "candidates \<noteq> []" by (metis filter.simps(1))
    with Cons \<open>?by \<noteq> []\<close> have sel: "select_adapter candidates client_name mode required = Inr (max_rank d ds)"
      unfolding select_adapter_def Let_def by (simp only: if_False list.case)
    from Cons have ds: "insert d (set ds) = set ?cap" by simp
    have best: "max_rank d ds \<in> set ?cap" "\<forall>d' \<in> set ?cap. rank d' \<le> rank (max_rank d ds)"
      using max_rank_result [of d ds] unfolding ds by blast+
    from best show ?thesis unfolding sel sum.case cap Ball_def by (auto simp: rank_def less_eq_prod_def)
  next
    case Nil
    then have none: "\<not> (\<exists>d \<in> set candidates. supports_mode d mode \<and> (\<forall>c \<in> set required. has_capability d c))"
      by (auto simp: filter_empty_conv)
    consider "candidates = []" | "candidates \<noteq> []" "?by = []" | "?by \<noteq> []" by blast
    then show ?thesis
      by cases (use Nil none in \<open>auto simp: select_adapter_def Let_def filter_empty_conv\<close>)
  qed
qed

theorem selection_rule_witness:
  "\<exists>d. select_adapter [local_cli ''a'' [] ''A'' 1, local_cli ''b'' [CAP_RUN] ''B'' 0] ''a'' LOCAL_MANAGED [CAP_RUN] = Inr d
    \<and> has_capability d CAP_RUN"
  using selection_rule [where candidates = "[local_cli ''a'' [] ''A'' 1, local_cli ''b'' [CAP_RUN] ''B'' 0]" and client_name = "''a''"
      and mode = LOCAL_MANAGED and required = "[CAP_RUN]"]
  by (simp add: select_adapter_def Let_def supports_mode_def has_capability_def local_cli_def)

section \<open>Listing and resolving agree\<close>

text \<open>The classes of a catalog are those of its descriptors, in the same order.\<close>

definition classes_match :: "(text_str \<times> adapter_class) list \<Rightarrow> descriptor list \<Rightarrow> bool" where
  "classes_match classes ds \<longleftrightarrow>
     list_all2 (\<lambda>c d. fst c = ad_adapter_id d \<and> ac_describe (snd c) = Describes d) classes ds \<and> distinct (map fst classes)"

definition catalog_of :: "(text_str \<times> adapter_class) list \<Rightarrow> descriptor list \<Rightarrow> universe \<Rightarrow> bool" where
  "catalog_of registry ds s \<longleftrightarrow> classes_match (ec_classes (un_entry s)) ds \<and> un_registry s = registry"

lemma update_new: "map_of al k = None \<Longrightarrow> AList.update k v al = al @ [(k, v)]"
  by (induction al) (auto split: if_splits)

lemma classes_match_lookup:
  assumes "classes_match classes ds"
  shows "find (\<lambda>d. ad_adapter_id d = i) ds = None \<longleftrightarrow> map_of classes i = None"
    and "find (\<lambda>d. ad_adapter_id d = i) ds = Some d \<Longrightarrow> \<exists>cls. map_of classes i = Some cls \<and> ac_describe cls = Describes d"
proof -
  have l2: "list_all2 (\<lambda>c d. fst c = ad_adapter_id d \<and> ac_describe (snd c) = Describes d) classes ds"
    using assms by (simp add: classes_match_def)
  show "find (\<lambda>d. ad_adapter_id d = i) ds = None \<longleftrightarrow> map_of classes i = None"
    using l2 by (induction rule: list_all2_induct) auto
  show "\<exists>cls. map_of classes i = Some cls \<and> ac_describe cls = Describes d" if "find (\<lambda>d. ad_adapter_id d = i) ds = Some d"
    using l2 that by (induction rule: list_all2_induct) (auto split: if_splits)
qed

lemma load_entry_catalog: "triple (catalog_of registry ds) (load_entry ep) (\<lambda>_. catalog_of registry ds) (\<lambda>_ _. True)"
  by (cases "ep_load ep") (auto simp: triple_def load_entry_def thenP_def bindP_def catalog_of_def)

lemma vet_class_catalog:
  "triple P (vet_class cls) (\<lambda>r s. P s \<and> (\<forall>d. r = Some d \<longrightarrow> ac_describe cls = Describes d)) (\<lambda>_ _. True)"
  by (cases "ac_describe cls"; cases "ac_contract cls") (auto simp: triple_def vet_class_def)

lemma accept_class_catalog:
  "triple (\<lambda>s. catalog_of registry ds s \<and> ac_describe cls = Describes d) (accept_class ep cls d)
     (\<lambda>_. catalog_of registry (ds @ [d])) (\<lambda>_ _. True)"
  unfolding triple_def accept_class_def
  by (auto simp: bindP_def on_entry_def catalog_of_def classes_match_def update_new list_all2_appendI map_of_eq_None_iff
      image_iff split: option.splits)

lemma scan_catalog: "triple (catalog_of registry ds) (scan eps ds) (catalog_of registry) (\<lambda>_ _. True)"
proof (induction eps arbitrary: ds)
  case (Cons ep eps)
  have vetted: "triple (\<lambda>s. catalog_of registry ds s \<and> (\<forall>d. r = Some d \<longrightarrow> ac_describe cls = Describes d))
      (case r of None \<Rightarrow> scan eps ds | Some d \<Rightarrow> thenP (accept_class ep cls d) (scan eps (ds @ [d])))
      (catalog_of registry) (\<lambda>_ _. True)" for r cls
  proof (cases r)
    case None
    show ?thesis unfolding None option.case by (rule triple_conseq [OF Cons.IH]) auto
  next
    case (Some d)
    show ?thesis unfolding Some option.case
      by (rule triple_then [OF triple_conseq [OF accept_class_catalog] Cons.IH]) auto
  qed
  have loaded: "triple (catalog_of registry ds) (case c of None \<Rightarrow> scan eps ds | Some cls \<Rightarrow> bindP (vet_class cls) (\<lambda>described.
      case described of None \<Rightarrow> scan eps ds | Some d \<Rightarrow> thenP (accept_class ep cls d) (scan eps (ds @ [d]))))
      (catalog_of registry) (\<lambda>_ _. True)" for c
    by (cases c) (auto intro: Cons.IH triple_bind [OF vet_class_catalog vetted])
  show ?case
    unfolding scan.simps
  proof (rule triple_bind [where R = "\<lambda>_. catalog_of registry ds"])
    show "triple (catalog_of registry ds) (getsP (\<lambda>s. is_allowed_to_load (ec_whitelist (un_entry s)) ep)) (\<lambda>_. catalog_of registry ds) (\<lambda>_ _. True)"
      by (simp add: triple_def)
  next
    fix allowed
    show "triple (catalog_of registry ds) (if \<not> allowed then scan eps ds else bindP (load_entry ep) (\<lambda>loaded. case loaded of
        None \<Rightarrow> scan eps ds | Some cls \<Rightarrow> bindP (vet_class cls) (\<lambda>described. case described of
          None \<Rightarrow> scan eps ds | Some d \<Rightarrow> thenP (accept_class ep cls d) (scan eps (ds @ [d]))))) (catalog_of registry) (\<lambda>_ _. True)"
      using Cons.IH triple_bind [OF load_entry_catalog loaded] by simp
  qed
qed (auto intro: triple_ret)

definition entry_ready :: "ep_catalog \<Rightarrow> bool" where
  "entry_ready c \<longleftrightarrow> (case ec_descriptors c of None \<Rightarrow> ec_classes c = [] | Some ds \<Rightarrow> classes_match (ec_classes c) ds)"

lemma ensure_loaded_run:
  assumes "ensure_loaded installed s = (Inr ds, s')" and "entry_ready (un_entry s)"
  shows "ec_descriptors (un_entry s') = Some ds \<and> catalog_of (un_registry s) ds s'"
proof (cases "ec_descriptors (un_entry s)")
  case None
  with assms obtain s1 where scan: "scan installed [] s = (Inr ds, s1)"
    and s': "s' = s1\<lparr>un_entry := (un_entry s1)\<lparr>ec_descriptors := Some ds\<rparr>\<rparr>"
    by (auto simp: ensure_loaded_def bindP_def thenP_def on_entry_def split: prod.splits sum.splits)
  have "catalog_of (un_registry s) [] s"
    using assms(2) None by (simp add: catalog_of_def classes_match_def entry_ready_def)
  from tripleD_Inr [OF scan_catalog this scan] show ?thesis by (simp add: s' catalog_of_def)
next
  case (Some ds')
  with assms show ?thesis by (simp add: ensure_loaded_def bindP_def catalog_of_def entry_ready_def)
qed

definition registry_ok :: "(text_str \<times> adapter_class) list \<Rightarrow> bool" where
  "registry_ok registry \<longleftrightarrow> distinct (map fst registry)
     \<and> (\<forall>c \<in> set registry. \<exists>d. fst c = ad_adapter_id d \<and> ac_describe (snd c) = Describes d)"

lemma registry_ok_match: "registry_ok registry \<Longrightarrow> \<exists>ds. classes_match registry ds"
proof (induction registry)
  case (Cons c registry)
  then obtain ds d where "classes_match registry ds" "fst c = ad_adapter_id d" "ac_describe (snd c) = Describes d"
    by (auto simp: registry_ok_def)
  with Cons.prems have "classes_match (c # registry) (d # ds)" by (simp add: classes_match_def registry_ok_def)
  then show ?case by blast
qed (auto simp: classes_match_def intro: exI [of _ "[]"])

lemma set_update_subset: "set (AList.update k v al) \<subseteq> insert (k, v) (set al)"
  by (induction al) auto

lemma registry_list_run:
  assumes "classes_match (un_registry s) ds"
  shows "registry_list s = (Inr ds, s)"
proof -
  have "mapP (\<lambda>e. liftE (class_descriptor (snd e))) classes s = (Inr ds, s)"
    if "list_all2 (\<lambda>c d. fst c = ad_adapter_id d \<and> ac_describe (snd c) = Describes d) classes ds" for classes
    using that by (induction rule: list_all2_induct) (auto simp: bindP_def class_descriptor_def)
  with assms show ?thesis by (simp add: registry_list_def bindP_def classes_match_def)
qed

lemma register_class_ok:
  assumes "registry_ok (un_registry s)"
  shows "registry_ok (un_registry (no_result (register_class cls) s)) \<and> un_entry (no_result (register_class cls) s) = un_entry s"
proof (cases "class_descriptor cls")
  case (Inl e)
  with assms show ?thesis by (simp add: no_result_def register_class_def bindP_def)
next
  case (Inr d)
  then have d: "ac_describe cls = Describes d" by (auto simp: class_descriptor_def split: describe.splits)
  have "\<exists>d. fst c = ad_adapter_id d \<and> ac_describe (snd c) = Describes d"
    if "c \<in> set (dict_set (ad_adapter_id d) cls (un_registry s))" for c
  proof -
    from that set_update_subset have "c = (ad_adapter_id d, cls) \<or> c \<in> set (un_registry s)" by fast
    with d assms show ?thesis unfolding registry_ok_def by auto
  qed
  then have "registry_ok (dict_set (ad_adapter_id d) cls (un_registry s))"
    using assms by (simp add: registry_ok_def distinct_update)
  with Inr show ?thesis by (simp add: no_result_def register_class_def bindP_def)
qed

lemma registered_ok:
  "registry_ok (un_registry s) \<Longrightarrow> registry_ok (un_registry (fold (\<lambda>c. no_result (register_class c)) classes s))"
  by (induction classes arbitrary: s) (simp_all add: register_class_ok)

lemma fold_merge:
  "map_of (fold merge_descriptor ds m) i = (case map_of m i of Some d \<Rightarrow> Some d | None \<Rightarrow> find (\<lambda>d. ad_adapter_id d = i) ds)"
proof (induction ds arbitrary: m)
  case (Cons d ds)
  then show ?case by (auto simp: merge_descriptor_def update_conv' split: option.splits)
qed (simp split: option.splits)

lemma fold_merge_entries:
  assumes "distinct (map fst m)" and "\<forall>e \<in> set m. fst e = ad_adapter_id (snd e)"
  shows "distinct (map fst (fold merge_descriptor ds m)) \<and> (\<forall>e \<in> set (fold merge_descriptor ds m). fst e = ad_adapter_id (snd e))"
  using assms
proof (induction ds arbitrary: m)
  case (Cons d ds)
  have "distinct (map fst (merge_descriptor d m)) \<and> (\<forall>e \<in> set (merge_descriptor d m). fst e = ad_adapter_id (snd e))"
    using Cons.prems set_update_subset [of "ad_adapter_id d" d m]
    by (auto simp: merge_descriptor_def distinct_update split: option.splits)
  from Cons.IH [OF conjunct1 [OF this] conjunct2 [OF this]] show ?case by simp
qed simp

text \<open>The merged view holds, for each id, the first descriptor that claims it.\<close>

lemma merge_descriptors_iff:
  "d \<in> set (merge_descriptors ds) \<longleftrightarrow> find (\<lambda>e. ad_adapter_id e = ad_adapter_id d) ds = Some d"
proof -
  let ?m = "fold merge_descriptor ds []"
  have m: "distinct (map fst ?m)" "\<forall>e \<in> set ?m. fst e = ad_adapter_id (snd e)"
    using fold_merge_entries [of "[]" ds] by simp_all
  have "d \<in> set (merge_descriptors ds) \<longleftrightarrow> (ad_adapter_id d, d) \<in> set ?m"
    using m(2) by (force simp: merge_descriptors_def)
  also have "\<dots> \<longleftrightarrow> map_of ?m (ad_adapter_id d) = Some d" using m(1) by simp
  finally show ?thesis by (simp add: fold_merge)
qed

text \<open>C22: what is listed can be run. After any registrations in a process, list the adapters, under any
  whitelist and with any plugins installed: every listed descriptor resolves, through the resolver that
  shares the catalog, to a class whose own \<open>descriptor()\<close> is that descriptor, or, when constructing
  that class raises, to that error; an in-process class with the id of an installed adapter never takes
  its place.\<close>

theorem listed_adapters_resolve:
  assumes registered: "s = (fold (\<lambda>c. no_result (register_class c)) classes start_universe)\<lparr>un_entry := fresh_catalog whitelist\<rparr>"
    and listed: "list_adapters installed s = (Inr ds, s')" and d: "d \<in> set ds"
  shows "\<exists>cls. ac_describe cls = Describes d
    \<and> (ac_build cls = None \<longrightarrow> fst (resolve installed (ad_adapter_id d) s') = Inr cls)
    \<and> (\<forall>e. ac_build cls = Some e \<and> exn_class_of e \<noteq> UnknownClient \<longrightarrow> fst (resolve installed (ad_adapter_id d) s') = Inl e)"
proof -
  have "registry_ok (un_registry s)"
    unfolding registered using registered_ok [of start_universe classes] by (simp add: registry_ok_def start_universe_def)
  then obtain rs where rs: "classes_match (un_registry s) rs" using registry_ok_match by blast
  from listed obtain es s1 where loaded: "ensure_loaded installed s = (Inr es, s1)"
    and rest: "bindP registry_list (\<lambda>registered. ret (merge_descriptors (es @ registered))) s1 = (Inr ds, s')"
    by (auto simp: list_adapters_def bindP_def [of "ensure_loaded _"] split: prod.splits sum.splits)
  have "entry_ready (un_entry s)" by (simp add: registered entry_ready_def fresh_catalog_def)
  from ensure_loaded_run [OF loaded this]
  have cached: "ec_descriptors (un_entry s1) = Some es" and es: "classes_match (ec_classes (un_entry s1)) es"
    and reg: "un_registry s1 = un_registry s" by (simp_all add: catalog_of_def)
  have "registry_list s1 = (Inr rs, s1)" using registry_list_run rs reg by simp
  with rest have ds: "ds = merge_descriptors (es @ rs)" and s': "s' = s1" by (simp_all add: bindP_def)
  have again: "ensure_loaded installed s' = (Inr es, s')" using cached by (simp add: s' ensure_loaded_def bindP_def)
  let ?i = "ad_adapter_id d"
  from d have first: "find (\<lambda>e. ad_adapter_id e = ?i) (es @ rs) = Some d" by (simp add: ds merge_descriptors_iff)
  show ?thesis
  proof (cases "find (\<lambda>e. ad_adapter_id e = ?i) es")
    case (Some d')
    with first have "find (\<lambda>e. ad_adapter_id e = ?i) es = Some d" by (simp add: find_append)
    with es obtain cls where "map_of (ec_classes (un_entry s')) ?i = Some cls" "ac_describe cls = Describes d"
      using classes_match_lookup(2) unfolding s' by blast
    then show ?thesis
      by (intro exI [of _ cls]) (simp add: resolve_def resolve_class_def unknown_next_def catchP_def bindP_def thenP_def again construct_def)
  next
    case None
    then have absent: "map_of (ec_classes (un_entry s1)) ?i = None" using classes_match_lookup(1) [OF es] by blast
    from None first have "find (\<lambda>e. ad_adapter_id e = ?i) rs = Some d" by (simp add: find_append)
    with rs obtain cls where "map_of (un_registry s') ?i = Some cls" "ac_describe cls = Describes d"
      using classes_match_lookup(2) reg unfolding s' by metis
    moreover have "resolve_class installed ?i s' = (Inr None, s')"
      unfolding resolve_class_def thenP_def bindP_def s' by (simp only: again [unfolded s'] sum.case prod.case getsP_run absent)
    ultimately show ?thesis
      by (intro exI [of _ cls]; cases "ac_build cls") (simp_all add: resolve_def unknown_next_def catchP_def bindP_def construct_def)
  qed
qed

definition sample_universe :: universe where
  "sample_universe = start_universe\<lparr>un_entry := fresh_catalog (Some [''acme''])\<rparr>"

theorem listed_adapters_resolve_witness:
  "\<exists>cls. ac_describe cls = Describes (local_cli ''acme'' [CAP_RUN] ''acme'' 0)
    \<and> (ac_build cls = None \<longrightarrow> fst (resolve (cl_installed sample_clients) ''acme.cli''
          (snd (list_adapters (cl_installed sample_clients) sample_universe))) = Inr cls)"
proof -
  have "fst (list_adapters (cl_installed sample_clients) sample_universe) =
    Inr [local_cli ''claude'' [CAP_RUN] ''claude'' 0, local_cli ''acme'' [CAP_RUN] ''acme'' 0]" by code_simp
  then have "list_adapters (cl_installed sample_clients) sample_universe =
    (Inr [local_cli ''claude'' [CAP_RUN] ''claude'' 0, local_cli ''acme'' [CAP_RUN] ''acme'' 0],
     snd (list_adapters (cl_installed sample_clients) sample_universe))"
    by (metis prod.collapse)
  from listed_adapters_resolve [OF _ this, where classes = "[]" and whitelist = "Some [''acme'']" and d = "local_cli ''acme'' [CAP_RUN] ''acme'' 0"]
  show ?thesis by (auto simp: sample_universe_def local_cli_def)
qed

section \<open>Validation and selection\<close>

lemma classes_match_ids: "classes_match classes ds \<Longrightarrow> map fst classes = map ad_adapter_id ds"
  unfolding classes_match_def by (auto simp: list_all2_conv_all_nth intro: nth_equalityI)

lemma same_id: "classes_match classes ds \<Longrightarrow> d \<in> set ds \<Longrightarrow> e \<in> set ds \<Longrightarrow> ad_adapter_id e = ad_adapter_id d \<Longrightarrow> e = d"
proof -
  assume a: "classes_match classes ds" "d \<in> set ds" "e \<in> set ds" "ad_adapter_id e = ad_adapter_id d"
  then have "distinct (map ad_adapter_id ds)" using classes_match_ids [of classes ds] by (simp add: classes_match_def)
  then have "inj_on ad_adapter_id (set ds)" by (simp add: distinct_map)
  then show "e = d" by (rule inj_onD) (fact a)+
qed

lemma find_unique: "d \<in> set ds \<Longrightarrow> (\<And>e. e \<in> set ds \<Longrightarrow> ad_adapter_id e = ad_adapter_id d \<Longrightarrow> e = d) \<Longrightarrow>
   find (\<lambda>e. ad_adapter_id e = ad_adapter_id d) ds = Some d"
  by (induction ds) auto

lemma merge_unshadowed:
  assumes "classes_match c es" and "classes_match r rs"
    and "\<forall>x \<in> set es. \<forall>y \<in> set rs. ad_adapter_id x = ad_adapter_id y \<longrightarrow> x = y"
  shows "set (merge_descriptors (es @ rs)) = set es \<union> set rs"
proof -
  have "d \<in> set (merge_descriptors (es @ rs)) \<longleftrightarrow> d \<in> set (es @ rs)" for d
  proof
    assume "d \<in> set (merge_descriptors (es @ rs))"
    then have "find (\<lambda>e. ad_adapter_id e = ad_adapter_id d) (es @ rs) = Some d" by (simp only: merge_descriptors_iff)
    then show "d \<in> set (es @ rs)" by (metis find_Some_iff in_set_conv_nth)
  next
    assume d: "d \<in> set (es @ rs)"
    have "e = d" if e: "e \<in> set (es @ rs)" "ad_adapter_id e = ad_adapter_id d" for e
    proof -
      from d e(1) consider "d \<in> set es" "e \<in> set es" | "d \<in> set rs" "e \<in> set rs" | "d \<in> set es" "e \<in> set rs" | "d \<in> set rs" "e \<in> set es"
        unfolding set_append by blast
      then show ?thesis
      proof cases
        case 1 show ?thesis by (rule same_id [OF assms(1) 1 e(2)])
      next
        case 2 show ?thesis by (rule same_id [OF assms(2) 2 e(2)])
      next
        case 3 show ?thesis using assms(3) 3 e(2) by metis
      next
        case 4 show ?thesis using assms(3) 4 e(2) by metis
      qed
    qed
    from find_unique [OF d this] show "d \<in> set (merge_descriptors (es @ rs))" by (simp only: merge_descriptors_iff)
  qed
  then show ?thesis by auto
qed

text \<open>mode validation accepts exactly the modes that selection can serve, in a loaded catalog where no class
  registered in the process has the id of an installed adapter with another descriptor.\<close>

theorem validation_agrees_with_selection:
  assumes loaded: "ec_descriptors (un_entry s) = Some es" "classes_match (ec_classes (un_entry s)) es"
    and registry: "classes_match (un_registry s) rs"
    and unshadowed: "\<forall>e \<in> set es. \<forall>r \<in> set rs. ad_adapter_id e = ad_adapter_id r \<longrightarrow> e = r"
  shows "\<exists>ds b. find_by_client_name installed client_name s = (Inr ds, s)
    \<and> supports installed client_name mode s = (Inr b, s)
    \<and> (validate_mode b ds client_name mode = Inr () \<longleftrightarrow> (\<exists>d. select_adapter ds client_name mode [] = Inr d))"
proof -
  let ?ds = "for_client client_name (merge_descriptors (es @ rs))"
  have run: "ensure_loaded installed s = (Inr es, s)" "registry_list s = (Inr rs, s)"
    using loaded registry_list_run [OF registry] by (simp_all add: ensure_loaded_def bindP_def)
  have find: "find_by_client_name installed client_name s = (Inr ?ds, s)"
    by (simp add: find_by_client_name_def list_adapters_def bindP_def run)
  have all: "set (merge_descriptors (es @ rs)) = set es \<union> set rs" using merge_unshadowed [OF loaded(2) registry unshadowed] .
  let ?b = "any_supports client_name mode es \<or> any_supports client_name mode rs"
  have supp: "supports installed client_name mode s = (Inr ?b, s)"
    by (simp add: supports_def bindP_def run)
  have b: "?b \<longleftrightarrow> filter (\<lambda>d. supports_mode d mode) ?ds \<noteq> []"
    using all by (auto simp: any_supports_def for_client_def filter_empty_conv)
  have "(\<exists>d. select_adapter ?ds client_name mode [] = Inr d) \<longleftrightarrow> filter (\<lambda>d. supports_mode d mode) ?ds \<noteq> []"
    by (cases "filter (\<lambda>d. supports_mode d mode) ?ds") (auto simp: select_adapter_def Let_def)
  moreover have "validate_mode ?b ?ds client_name mode = Inr () \<longleftrightarrow> ?b" by (simp add: validate_mode_def)
  ultimately show ?thesis using find supp b by blast
qed

text \<open>With such a class, validation accepts a client that the listing does not offer.\<close>

definition shadowing_class :: adapter_class where
  "shadowing_class = \<lparr>ac_name = ''x'', ac_contract = None,
     ac_describe = Describes ((local_cli ''claude'' [CAP_RUN] ''x'' 0)\<lparr>ad_client_name := ''other''\<rparr>), ac_build = None\<rparr>"

lemma shadowed_validation:
  "(let s = no_result (register_class shadowing_class) start_universe
    in (fst (supports (cl_installed sample_clients) ''other'' LOCAL_MANAGED s),
        fst (find_by_client_name (cl_installed sample_clients) ''other'' s))) = (Inr True, Inr [])"
  by code_simp

definition loaded_universe :: universe where
  "loaded_universe = \<lparr>un_entry = \<lparr>ec_whitelist = None, ec_descriptors = Some [local_cli ''claude'' [CAP_RUN] ''claude'' 0],
     ec_sources = [], ec_classes = [(''claude.cli'', sample_class ''claude'')]\<rparr>, un_registry = [], un_loads = []\<rparr>"

theorem validation_agrees_with_selection_witness:
  "\<exists>ds b. find_by_client_name [] ''claude'' loaded_universe = (Inr ds, loaded_universe)
    \<and> supports [] ''claude'' API loaded_universe = (Inr b, loaded_universe)
    \<and> (validate_mode b ds ''claude'' API = Inr () \<longleftrightarrow> (\<exists>d. select_adapter ds ''claude'' API [] = Inr d))"
  by (rule validation_agrees_with_selection [where es = "[local_cli ''claude'' [CAP_RUN] ''claude'' 0]" and rs = "[]"])
    (simp_all add: loaded_universe_def classes_match_def sample_class_def, simp add: local_cli_def)

section \<open>Probing under a whitelist\<close>

text \<open>The default catalog does not offer client \<open>x\<close>.\<close>

definition without :: "text_str \<Rightarrow> universe \<Rightarrow> bool" where
  "without x s \<longleftrightarrow> ec_whitelist (un_entry s) = None
     \<and> (case ec_descriptors (un_entry s) of None \<Rightarrow> True | Some ds \<Rightarrow> \<forall>d \<in> set ds. ad_client_name d \<noteq> x)
     \<and> (\<forall>c \<in> set (un_registry s). \<forall>d. ac_describe (snd c) = Describes d \<longrightarrow> ad_client_name d \<noteq> x)"

definition not_offered :: "text_str \<Rightarrow> entry_point list \<Rightarrow> bool" where
  "not_offered x installed \<longleftrightarrow> (\<forall>ep \<in> set installed. is_allowed_to_load None ep \<longrightarrow>
     (\<forall>cls d. ep_load ep = Inr cls \<and> ac_describe cls = Describes d \<longrightarrow> ad_client_name d \<noteq> x))"

lemma not_offeredD:
  "not_offered x installed \<Longrightarrow> ep \<in> set installed \<Longrightarrow> is_allowed_to_load None ep \<Longrightarrow> ep_load ep = Inr cls \<Longrightarrow>
   ac_describe cls = Describes d \<Longrightarrow> ad_client_name d \<noteq> x"
  unfolding not_offered_def by blast

lemma without_loads [simp]: "without x (s\<lparr>un_loads := l\<rparr>) = without x s"
  by (simp add: without_def)

lemma vet_class_state: "snd (vet_class cls s) = s"
proof -
  have "steps (keeping id) (vet_class cls)" unfolding vet_class_def by (intro steps_rules) auto
  then show ?thesis by (simp add: steps_def keeping_def)
qed

lemma scan_without:
  "not_offered x eps \<Longrightarrow> \<forall>d \<in> set ds. ad_client_name d \<noteq> x \<Longrightarrow>
   triple (without x) (scan eps ds) (\<lambda>ds' s. without x s \<and> (\<forall>d \<in> set ds'. ad_client_name d \<noteq> x)) (\<lambda>_. without x)"
proof (induction eps arbitrary: ds)
  case (Cons ep eps)
  have rest: "not_offered x eps" using Cons.prems(1) unfolding not_offered_def by (meson list.set_intros(2))
  show ?case
    unfolding triple_def
  proof (intro allI impI)
    fix s assume s: "without x s"
    let ?Q = "\<lambda>r. case r of (Inl e, s') \<Rightarrow> without x s' | (Inr ds', s') \<Rightarrow> without x s' \<and> (\<forall>d \<in> set ds'. ad_client_name d \<noteq> x)"
    have go: "?Q (scan eps ds' s')" if "without x s'" "\<forall>d \<in> set ds'. ad_client_name d \<noteq> x" for ds' s'
      using Cons.IH [OF rest that(2), unfolded triple_def, rule_format, OF that(1)] .
    show "?Q (scan (ep # eps) ds s)"
    proof (cases "is_allowed_to_load None ep")
      case False
      with s Cons.prems(2) show ?thesis by (simp add: bindP_def [of "getsP _"] without_def go)
    next
      case True
      let ?s = "s\<lparr>un_loads := un_loads s @ [(None, ep)]\<rparr>"
      have wl: "ec_whitelist (un_entry s) = None" using s by (simp add: without_def)
      show ?thesis
      proof (cases "ep_load ep")
        case (Inl e)
        then show ?thesis using s True wl Cons.prems(2)
          by (simp add: bindP_def [of "getsP _"] load_entry_def thenP_def bindP_def go)
      next
        case (Inr cls)
        have load: "load_entry ep s = (Inr (Some cls), ?s)" by (simp add: load_entry_def Inr thenP_def bindP_def wl)
        have run: "scan (ep # eps) ds s = bindP (vet_class cls) (\<lambda>described. case described of None \<Rightarrow> scan eps ds
            | Some d \<Rightarrow> thenP (accept_class ep cls d) (scan eps (ds @ [d]))) ?s"
          using True wl load by (simp add: bindP_def)
        obtain r where vet: "vet_class cls ?s = (r, ?s)" using vet_class_state [of cls ?s] by (metis prod.collapse)
        show ?thesis
        proof (cases r)
          case (Inl e)
          then show ?thesis using s by (simp add: run bindP_def vet del: scan.simps)
        next
          case (Inr described)
          show ?thesis
          proof (cases described)
            case None
            then show ?thesis using s Cons.prems(2) Inr by (simp add: run bindP_def vet go del: scan.simps)
          next
            case (Some d)
            have "ac_describe cls = Describes d"
              using tripleD_Inr [OF vet_class_catalog [where P = "\<lambda>_. True"] _ vet [unfolded Inr]] Some by simp
            then have d: "ad_client_name d \<noteq> x"
              by (rule not_offeredD [OF Cons.prems(1) list.set_intros(1) True \<open>ep_load ep = Inr cls\<close>])
            obtain r' s2 where acc: "accept_class ep cls d ?s = (r', s2)" by fastforce
            then have "without x s2"
              using s by (auto simp: accept_class_def bindP_def on_entry_def without_def split: option.splits)
            then show ?thesis
              using Some Inr d Cons.prems(2) by (cases r') (simp_all add: run bindP_def vet thenP_def acc go del: scan.simps)
          qed
        qed
      qed
    qed
  qed
qed (simp add: triple_def)

lemma ensure_loaded_without:
  assumes "not_offered x installed"
  shows "triple (without x) (ensure_loaded installed) (\<lambda>ds s. without x s \<and> (\<forall>d \<in> set ds. ad_client_name d \<noteq> x)) (\<lambda>_. without x)"
  unfolding triple_def
proof (intro allI impI)
  fix s assume s: "without x s"
  show "case ensure_loaded installed s of (Inl e, s') \<Rightarrow> without x s'
    | (Inr ds, s') \<Rightarrow> without x s' \<and> (\<forall>d \<in> set ds. ad_client_name d \<noteq> x)"
  proof (cases "ec_descriptors (un_entry s)")
    case None
    obtain r s' where run: "scan installed [] s = (r, s')" by fastforce
    show ?thesis
    proof (cases r)
      case (Inl e)
      then show ?thesis using tripleD_Inl [OF scan_without [OF assms, of "[]"] s] run None by (simp add: ensure_loaded_def bindP_def)
    next
      case (Inr ds)
      from tripleD_Inr [OF scan_without [OF assms, of "[]"] s] run Inr
      have "without x s'" "\<forall>d \<in> set ds. ad_client_name d \<noteq> x" by simp_all
      then show ?thesis using run Inr None by (simp add: ensure_loaded_def bindP_def thenP_def on_entry_def without_def)
    qed
  next
    case (Some ds)
    with s show ?thesis by (simp add: ensure_loaded_def bindP_def without_def)
  qed
qed

lemma registry_list_state: "snd (registry_list s) = s"
proof -
  have "steps (keeping id) registry_list" unfolding registry_list_def by (intro steps_rules) auto
  then show ?thesis by (simp add: steps_def keeping_def)
qed

lemma registry_list_without:
  "triple (without x) registry_list (\<lambda>ds s. without x s \<and> (\<forall>d \<in> set ds. ad_client_name d \<noteq> x)) (\<lambda>_. without x)"
  unfolding triple_def
proof (intro allI impI)
  fix s assume s: "without x s"
  have "\<forall>d \<in> set ds. ad_client_name d \<noteq> x"
    if "mapP (\<lambda>e. liftE (class_descriptor (snd e))) classes s = (Inr ds, s')" "set classes \<subseteq> set (un_registry s)" for classes ds s'
    using that
  proof (induction classes arbitrary: ds s')
    case (Cons c classes)
    from Cons.prems(1) obtain d ds' where d: "class_descriptor (snd c) = Inr d" and ds: "ds = d # ds'"
      and rest: "mapP (\<lambda>e. liftE (class_descriptor (snd e))) classes s = (Inr ds', s')"
      by (auto simp: bindP_def liftE_def simp del: liftE_run split: prod.splits sum.splits)
    from d have "ac_describe (snd c) = Describes d" by (auto simp: class_descriptor_def split: describe.splits)
    moreover have "c \<in> set (un_registry s)" using Cons.prems(2) by simp
    ultimately have "ad_client_name d \<noteq> x" using s unfolding without_def by blast
    with Cons.IH [OF rest] Cons.prems(2) ds show ?case by simp
  qed simp
  then have "\<forall>d \<in> set ds. ad_client_name d \<noteq> x" if "registry_list s = (Inr ds, s')" for ds s'
    using that by (simp add: registry_list_def bindP_def)
  then show "case registry_list s of (Inl e, s') \<Rightarrow> without x s' | (Inr ds, s') \<Rightarrow> without x s' \<and> (\<forall>d \<in> set ds. ad_client_name d \<noteq> x)"
    using s registry_list_state [of s] by (cases "registry_list s") (auto split: sum.splits)
qed

lemma find_without:
  assumes "not_offered x installed"
  shows "triple (without x) (find_by_client_name installed n) (\<lambda>ds s. without x s \<and> (n = x \<longrightarrow> ds = [])) (\<lambda>_. without x)"
  unfolding find_by_client_name_def
proof (rule triple_bind)
  show "triple (without x) (list_adapters installed) (\<lambda>ds s. without x s \<and> (\<forall>d \<in> set ds. ad_client_name d \<noteq> x)) (\<lambda>_. without x)"
    unfolding list_adapters_def
  proof (rule triple_bind [OF ensure_loaded_without [OF assms]])
    fix es
    show "triple (\<lambda>s. without x s \<and> (\<forall>d \<in> set es. ad_client_name d \<noteq> x))
      (bindP registry_list (\<lambda>registered. ret (merge_descriptors (es @ registered))))
      (\<lambda>ds s. without x s \<and> (\<forall>d \<in> set ds. ad_client_name d \<noteq> x)) (\<lambda>_. without x)"
      unfolding triple_def
    proof (intro allI impI, elim conjE)
      fix s assume s: "without x s" and es: "\<forall>d \<in> set es. ad_client_name d \<noteq> x"
      obtain r s' where run: "registry_list s = (r, s')" by fastforce
      show "case bindP registry_list (\<lambda>registered. ret (merge_descriptors (es @ registered))) s of (Inl e, s') \<Rightarrow> without x s'
        | (Inr ds, s') \<Rightarrow> without x s' \<and> (\<forall>d \<in> set ds. ad_client_name d \<noteq> x)"
      proof (cases r)
        case (Inl e)
        with tripleD_Inl [OF registry_list_without s] run show ?thesis by (simp add: bindP_def)
      next
        case (Inr rs)
        with tripleD_Inr [OF registry_list_without s] run have "without x s'" "\<forall>d \<in> set rs. ad_client_name d \<noteq> x" by simp_all
        moreover have "set (merge_descriptors (es @ rs)) \<subseteq> set (es @ rs)"
          using merge_descriptors_iff by (metis find_Some_iff in_set_conv_nth subsetI)
        ultimately show ?thesis using run Inr es by (auto simp: bindP_def)
      qed
    qed
  qed
next
  fix ds
  show "triple (\<lambda>s. without x s \<and> (\<forall>d \<in> set ds. ad_client_name d \<noteq> x)) (ret (for_client n ds))
    (\<lambda>ds s. without x s \<and> (n = x \<longrightarrow> ds = [])) (\<lambda>_. without x)"
    by (rule triple_ret) (auto simp: for_client_def filter_empty_conv)
qed

lemma steps_unknown_next: "preorder_rel R \<Longrightarrow> steps R m \<Longrightarrow> steps R n \<Longrightarrow> steps R (unknown_next m n)"
  unfolding unknown_next_def by (intro steps_rules) auto

lemma steps_without:
  assumes "\<And>s r s'. m s = (r, s') \<Longrightarrow> without x s \<Longrightarrow> without x s'"
  shows "steps (invariantly (without x)) m"
  using assms by (intro stepsI) (simp add: invariantly_def)

lemma triple_steps:
  assumes "triple P m (\<lambda>_ s. P s \<and> Q s) (\<lambda>_. P)"
  shows "steps (invariantly P) m"
proof (rule stepsI)
  fix w r w' assume "m w = (r, w')"
  with assms show "invariantly P w w'" by (cases r) (auto simp: invariantly_def dest: tripleD_Inr tripleD_Inl)
qed

lemma resolve_without:
  assumes "not_offered x installed"
  shows "steps (invariantly (without x)) (resolve installed i)"
proof -
  have "steps (invariantly (without x)) (ensure_loaded installed)"
    by (rule triple_steps [where Q = "\<lambda>_. True"], rule triple_conseq [OF ensure_loaded_without [OF assms]]) auto
  then show ?thesis unfolding resolve_def resolve_class_def by (intro steps_unknown_next steps_rules) auto
qed

lemma resolve_local_without:
  assumes "not_offered x (cl_installed E)"
  shows "triple (without x) (resolve_local_client E n None) (\<lambda>_ s. without x s \<and> n \<noteq> x) (\<lambda>_. without x)"
  unfolding resolve_local_client_def under_def option.case
proof (rule triple_bind [OF find_without [OF assms]])
  fix ds
  let ?local = "case filter (\<lambda>d. supports_mode d LOCAL_MANAGED) ds of
      [] \<Rightarrow> raise (Exn UnknownClient (''not a local managed adapter: '' @ quoted n))
    | d # _ \<Rightarrow> resolve (cl_installed E) (ad_adapter_id d)"
  have keep: "steps (invariantly (without x)) ?local"
    by (intro steps_rules resolve_without [OF assms]) auto
  show "triple (\<lambda>s. without x s \<and> (n = x \<longrightarrow> ds = []))
    (if ds = [] then raise (Exn UnknownClient (''unknown adapter '' @ quoted n)) else ?local)
    (\<lambda>_ s. without x s \<and> n \<noteq> x) (\<lambda>_. without x)"
  proof (cases "ds = []")
    case False
    have "case ?local s of (Inl e, s') \<Rightarrow> without x s' | (Inr a, s') \<Rightarrow> without x s' \<and> n \<noteq> x"
      if "without x s" "n \<noteq> x" for s
      using keep that unfolding steps_def invariantly_def by (cases "?local s") (auto split: sum.splits; metis snd_conv)
    with False show ?thesis by (simp add: triple_def)
  qed (auto intro: triple_raise)
qed

lemma probe_without:
  assumes "not_offered x (cl_installed E)"
  shows "triple (without x) (probe_client E n exe) (\<lambda>_ s. without x s \<and> n \<noteq> x) (\<lambda>_. without x)"
  unfolding probe_client_def
proof (rule triple_bind [OF resolve_local_without [OF assms]])
  fix adapter
  show "triple (\<lambda>s. without x s \<and> n \<noteq> x)
    (case cl_resolve_executable E adapter exe of
       Inl e \<Rightarrow> if exn_class_of e = ClientNotFound
         then ret \<lparr>cs_name = n, cs_present = False, cs_executable = None, cs_version = None, cs_detail = Some (exn_message e)\<rparr>
         else raise e
     | Inr exe \<Rightarrow> bindP (liftE (probe_version E (cl_version_argv E adapter exe))) (\<lambda>(version, detail).
         ret \<lparr>cs_name = n, cs_present = True, cs_executable = Some exe, cs_version = version, cs_detail = detail\<rparr>))
    (\<lambda>_ s. without x s \<and> n \<noteq> x) (\<lambda>_. without x)"
    by (auto simp: triple_def bindP_def split: sum.splits prod.splits)
qed

lemma probes_without:
  assumes "not_offered x (cl_installed E)" and "x \<in> set names"
  shows "triple (without x) (mapP (\<lambda>name. probe_client E name (exes name)) names) (\<lambda>_ _. False) (\<lambda>_ _. True)"
  using assms(2)
proof (induction names)
  case (Cons n names)
  show ?case
    unfolding triple_def
  proof (intro allI impI)
    fix s assume s: "without x s"
    obtain r s' where run: "probe_client E n (exes n) s = (r, s')" by fastforce
    show "case mapP (\<lambda>name. probe_client E name (exes name)) (n # names) s of (Inl e, s') \<Rightarrow> True | (Inr a, s') \<Rightarrow> False"
    proof (cases r)
      case (Inl e)
      with run show ?thesis by (simp add: bindP_def)
    next
      case (Inr a)
      with tripleD_Inr [OF probe_without [OF assms(1)] s] run have "without x s'" "n \<noteq> x" by auto
      with Cons have "case mapP (\<lambda>name. probe_client E name (exes name)) names s' of (Inl e, s') \<Rightarrow> True | (Inr a, s') \<Rightarrow> False"
        by (auto simp: triple_def)
      with run Inr show ?thesis by (auto simp: bindP_def split: prod.splits sum.splits)
    qed
  qed
qed simp

lemma registry_kept: "steps (keeping un_registry) (list_adapters installed)"
proof -
  have entry: "steps (keeping un_registry) (on_entry f)" for f
    unfolding on_entry_def by (rule steps_modify) (simp add: keeping_def)
  have load: "steps (keeping un_registry) (load_entry ep)" for ep
    unfolding load_entry_def by (intro steps_rules steps_modify) (auto simp: keeping_def)
  have vet: "steps (keeping un_registry) (vet_class cls)" for cls
    unfolding vet_class_def by (intro steps_rules) auto
  have accept: "steps (keeping un_registry) (accept_class ep cls d)" for ep cls d
    unfolding accept_class_def by (intro steps_rules entry) auto
  have scan: "steps (keeping un_registry) (scan eps ds)" for eps ds
  proof (induction eps arbitrary: ds)
    case (Cons ep eps)
    then show ?case unfolding scan.simps by (intro steps_rules load vet accept) auto
  qed (simp add: steps_ret)
  show ?thesis
    unfolding list_adapters_def ensure_loaded_def registry_list_def by (intro steps_rules entry scan) auto
qed

text \<open>probing the clients fails under a whitelist that names a third-party one. \<open>probe_all\<close> takes its names
  from the catalog of the whitelist and probes each of them in the default catalog: when some listed local
  client comes from a whitelisted plugin only, the call raises instead of reporting any status.\<close>

theorem probe_all_rejects_whitelisted:
  assumes listed: "registered_local_names (cl_installed E) (Some names) s = (Inr xs, s1)" and x: "x \<in> set xs"
    and third_party: "not_offered x (cl_installed E)" and default: "without x s"
  shows "\<exists>e s'. probe_all E executables (Some names) s = (Inl e, s')"
proof -
  from listed obtain r s2 where run: "bindP (list_adapters (cl_installed E)) (\<lambda>ds. ret (client_names (filter (\<lambda>d. supports_mode d LOCAL_MANAGED) ds)))
      (s\<lparr>un_entry := fresh_catalog (Some names)\<rparr>) = (r, s2)" and s1: "s1 = s2\<lparr>un_entry := un_entry s\<rparr>"
    by (auto simp: registered_local_names_def under_def split: prod.splits)
  have "steps (keeping un_registry) (bindP (list_adapters (cl_installed E)) (\<lambda>ds. ret (client_names (filter (\<lambda>d. supports_mode d LOCAL_MANAGED) ds))))"
    by (intro steps_rules registry_kept) auto
  from stepsD [OF this run] have "un_registry s1 = un_registry s" by (simp add: s1 keeping_def)
  with default s1 have "without x s1" by (simp add: without_def)
  moreover obtain r' s' where probes: "mapP (\<lambda>name. probe_client E name (executables name)) xs s1 = (r', s')" by fastforce
  ultimately have "\<not> isl r' \<Longrightarrow> False"
    using tripleD_Inr [OF probes_without [OF third_party x, where exes = executables]] by (cases r') auto
  then obtain e where "r' = Inl e" by (cases r') auto
  then have "probe_all E executables (Some names) s = (Inl e, s')" by (simp add: probe_all_def bindP_def listed probes)
  then show ?thesis by blast
qed

theorem probe_all_rejects_whitelisted_witness:
  "\<exists>e s'. probe_all sample_clients Map.empty (Some [''acme'']) start_universe = (Inl e, s')"
proof -
  have "fst (registered_local_names (cl_installed sample_clients) (Some [''acme'']) start_universe) = Inr [''acme'', ''claude'']" by code_simp
  then have listed: "registered_local_names (cl_installed sample_clients) (Some [''acme'']) start_universe =
    (Inr [''acme'', ''claude''], snd (registered_local_names (cl_installed sample_clients) (Some [''acme'']) start_universe))"
    by (metis prod.collapse)
  have "not_offered ''acme'' (cl_installed sample_clients)"
    by (auto simp: not_offered_def sample_clients_def is_allowed_to_load_def distribution_name_def foreign_plugin_def trusted_plugin_def
        DEFAULT_TRUSTED_DISTRIBUTIONS_def sample_class_def local_cli_def)
  moreover have "without ''acme'' start_universe" by (simp add: without_def start_universe_def fresh_catalog_def)
  ultimately show ?thesis by (intro probe_all_rejects_whitelisted [OF listed, of "''acme''"]) simp_all
qed

end
