(* ===== verification/Probe_Service.thy ===== *)
theory Probe_Service
  imports Record_Replay
begin

text \<open>
  The probe (\<open>usecase/probe_service.py\<close>): the forecast whether a managed call is cached. It shares the
  key building and the cacheability rule with the run, so its verdict is compared with what a run does.
\<close>

section \<open>The service\<close>

datatype probe_status = PROBE_HIT | PROBE_MISS | PROBE_NON_CACHEABLE

record probe_report =
  pb_status :: probe_status
  pb_execution_key :: text_str
  pb_execution :: "ml_execution option"

definition probe_execute :: "runtime \<Rightarrow> probe_command \<Rightarrow> (world, probe_report) prog" where
  "probe_execute rt c =
     bindP (build_call_identity (rt_hash rt) (\<lambda>p. liftE (rt_fingerprint rt p)) c) (\<lambda>identity.
     let key = generate_key (rt_hash rt) (ManagedCallIdentity identity)
     in if probe_is_uncacheable c
        then ret \<lparr>pb_status = PROBE_NON_CACHEABLE, pb_execution_key = key, pb_execution = None\<rparr>
        else bindP (on_db (find_current (rt_db rt) key)) (\<lambda>current. case current of
            None \<Rightarrow> ret \<lparr>pb_status = PROBE_MISS, pb_execution_key = key, pb_execution = None\<rparr>
          | Some x \<Rightarrow> ret \<lparr>pb_status = PROBE_HIT, pb_execution_key = key, pb_execution = Some x\<rparr>))"

section \<open>The same key\<close>

lemma from_keyed_inputs_probe: "from_keyed_inputs h (probe_of c) fps = from_keyed_inputs h c fps"
  by (simp add: from_keyed_inputs_def probe_of_def keyed_inputs.defs)

lemma probe_of_paths: "ki_input_file_paths (probe_of c) = ki_input_file_paths c"
  by (simp add: probe_of_def keyed_inputs.defs)

lemma probe_identity_run:
  assumes "rc_execution_kind c = LOCAL_MANAGED"
  shows "bindP (build_call_identity (rt_hash rt) (\<lambda>p. liftE (rt_fingerprint rt p)) (probe_of c)) (\<lambda>i. ret (ManagedCallIdentity i))
    = build_identity rt c"
  using assms by (simp add: build_identity_def build_call_identity_def from_keyed_inputs_probe probe_of_paths)

lemma probe_identity:
  assumes "rc_execution_kind c = LOCAL_MANAGED" and "has_call_identity rt c idn"
  shows "\<exists>i. idn = ManagedCallIdentity i
    \<and> build_call_identity (rt_hash rt) (\<lambda>p. liftE (rt_fingerprint rt p)) (probe_of c) = (ret i :: (world, managed_call_identity) prog)"
proof -
  let ?m = "build_call_identity (rt_hash rt) (\<lambda>p. liftE (rt_fingerprint rt p)) (probe_of c) :: (world, managed_call_identity) prog"
  have run: "bindP ?m (\<lambda>i. ret (ManagedCallIdentity i)) = ret idn"
    using probe_identity_run [OF assms(1), of rt] assms(2) by (simp add: has_call_identity_def)
  have "\<exists>i. ?m w = (Inr i, w) \<and> idn = ManagedCallIdentity i" for w
  proof -
    have "bindP ?m (\<lambda>i. ret (ManagedCallIdentity i)) w = (Inr idn, w)" by (simp add: run)
    then show ?thesis by (cases "?m w") (auto simp: bindP_def split: sum.splits)
  qed
  then obtain i where i: "idn = ManagedCallIdentity i" by blast
  with \<open>\<And>w. \<exists>i. ?m w = (Inr i, w) \<and> idn = ManagedCallIdentity i\<close> have "?m w = (Inr i, w)" for w by auto
  then have "?m = ret i" by (simp add: fun_eq_iff)
  with i show ?thesis by blast
qed

text \<open>A probe with that identity, step by step.\<close>

lemma probe_run:
  assumes "rc_execution_kind c = LOCAL_MANAGED" and "has_call_identity rt c idn"
  shows "probe_execute rt (probe_of c) =
    (if is_uncacheable c then ret \<lparr>pb_status = PROBE_NON_CACHEABLE, pb_execution_key = generate_key (rt_hash rt) idn, pb_execution = None\<rparr>
     else bindP (on_db (find_current (rt_db rt) (generate_key (rt_hash rt) idn))) (\<lambda>current. case current of
         None \<Rightarrow> ret \<lparr>pb_status = PROBE_MISS, pb_execution_key = generate_key (rt_hash rt) idn, pb_execution = None\<rparr>
       | Some x \<Rightarrow> ret \<lparr>pb_status = PROBE_HIT, pb_execution_key = generate_key (rt_hash rt) idn, pb_execution = Some x\<rparr>))"
proof -
  obtain i where i: "idn = ManagedCallIdentity i"
    and m: "build_call_identity (rt_hash rt) (\<lambda>p. liftE (rt_fingerprint rt p)) (probe_of c) = (ret i :: (world, managed_call_identity) prog)"
    using probe_identity [OF assms] by blast
  show ?thesis
    unfolding probe_execute_def m bindP_ret Let_def i probe_uncacheable_agrees [OF assms(1)] by simp
qed

text \<open>An offline run of a call that is not stored.\<close>

lemma offline_miss_quiet:
  fixes c :: run_command
  assumes rt: "quiet rt" and idn: "has_call_identity rt c idn"
    and c: "\<not> is_uncacheable c" "stores_output (rc_persistence_depth c)" "rc_cache_mode c = MODE_OFFLINE"
    and none: "current_row (w_tables w) (generate_key (rt_hash rt) idn) = None"
  shows "\<exists>e. fst (run_execute rt ps ms c w) = Inl e \<and> exn_class_of e = CacheMiss"
proof -
  let ?key = "generate_key (rt_hash rt) idn" and ?hk = "run_hooks rt ps ms"
  have start: "view rt (\<lambda>d ct k i. True \<and> current_row d ?key = None) w" using none by (simp add: view_def)
  obtain w1 where find: "on_db (find_current (rt_db rt) ?key) w = (Inr None, w1)"
    using returnsE [OF find_current_none [OF rt, of "\<lambda>_ _ _ _. True"] start] by metis
  have view: "view rt (\<lambda>_ _ _ _. True) w1" by (simp add: view_def)
  obtain w2 where j: "journal rt ?hk EV_MISS ?key c w1 = (Inr (), w2)"
    using returnsE [OF journal_quiet [OF rt, of "\<lambda>_ _ _ _. True"] view] by (metis old.unit.exhaust)
  have "fst (serve_offline rt ?hk c ?key w) = Inl (Exn CacheMiss (''offline miss: '' @ ''no stored execution''))"
    unfolding serve_offline_def offline_miss_def by (simp add: bindP_def catchP_def thenP_def find j)
  moreover have "run_execute rt ps ms c = serve_offline rt ?hk c ?key"
    unfolding run_execute_def execute_def run_hooks_simps idn [unfolded has_call_identity_def] bindP_ret Let_def
    using c rt by (simp add: ensure_available quiet_def thenP_def)
  ultimately show ?thesis by auto
qed

lemma mode_identity: "has_call_identity rt (c\<lparr>rc_cache_mode := m\<rparr>) idn \<longleftrightarrow> has_call_identity rt c idn"
  by (simp add: has_call_identity_def build_identity_def build_call_identity_def from_keyed_inputs_def cong: execution_kind.case_cong)

section \<open>Properties\<close>

text \<open>
  A probe only reads. In any runtime, with any faults, it changes no table and no blob, writes no
  journal event, calls no client and takes no lock.
\<close>

theorem probe_reads_only:
  "let w' = snd (probe_execute rt c w)
   in w_tables w' = w_tables w \<and> w_files w' = w_files w \<and> w_reg w' = w_reg w \<and> w_calls w' = w_calls w
    \<and> w_held w' = w_held w \<and> w_waits w' = w_waits w \<and> w_minted w' = w_minted w"
proof -
  have read: "steps (keeping (\<lambda>w. (w_tables w, w_files w, w_reg w, w_calls w, w_held w, w_waits w, w_minted w))) (on_db (reading E q))" for E :: db_env and q :: "nat \<Rightarrow> db \<Rightarrow> exn + 'a"
    by (rule steps_on_db) (auto simp: keeping_def reading_def Let_def w_tables_def w_files_def split: option.splits db_fault.splits sum.splits)
  have "steps (keeping (\<lambda>w. (w_tables w, w_files w, w_reg w, w_calls w, w_held w, w_waits w, w_minted w))) (probe_execute rt c)"
    unfolding probe_execute_def find_current_def Let_def by (intro steps_rules read) auto
  then show ?thesis unfolding steps_def keeping_def by (auto simp: Let_def)
qed

text \<open>
  C23: A probe and a run do not disagree. In a runtime without faults, for a managed call that is cacheable
  and not stored: the probe reports a miss and the key under which the run will store; the run, if it is
  offline, is a miss as well; otherwise, when its client succeeds, it records, and from then on the probe
  reports a hit under the same key, and every run of the call replays the recorded documents.
\<close>

theorem probe_forecasts_run:
  assumes rt: "quiet rt" "keys_ok rt" and managed: "rc_execution_kind c = LOCAL_MANAGED"
    and idn: "has_call_identity rt c idn" "identity_finite idn" and w: "recordable_in rt idn c w"
    and c: "\<not> is_uncacheable c" "stores_output (rc_persistence_depth c)" "rc_cache_mode c = MODE_CACHE"
    and inj: "inj_on (rt_hash rt) (parts_contents (recorded_parts c res))"
    and res: "client_returns rt c res" "succeeded res"
  shows "\<exists>w1 w2 w3 w4 x y y' e. probe_execute rt (probe_of c) w =
        (Inr \<lparr>pb_status = PROBE_MISS, pb_execution_key = generate_key (rt_hash rt) idn, pb_execution = None\<rparr>, w1)
    \<and> fst (run_execute rt False ms (c\<lparr>rc_cache_mode := MODE_OFFLINE\<rparr>) w1) = Inl e \<and> exn_class_of e = CacheMiss
    \<and> run_execute rt False ms c w1 = (Inr y, w2)
    \<and> probe_execute rt (probe_of c) w2 =
        (Inr \<lparr>pb_status = PROBE_HIT, pb_execution_key = generate_key (rt_hash rt) idn, pb_execution = Some x\<rparr>, w3)
    \<and> run_execute rt False ms c w3 = (Inr y', w4)
    \<and> replays LOCAL_MANAGED (cr_token_usage res) (recorded_parts c res) y'
    \<and> w_calls w4 \<le> Suc (w_calls w)"
proof -
  let ?key = "generate_key (rt_hash rt) idn" and ?parts = "recorded_parts c res" and ?u = "cr_token_usage res"
  let ?I = "\<lambda>d ct k i. recordable rt ?key (w_calls w) d ct k i \<and> current_row d ?key = None"
  have start: "view rt (\<lambda>d ct k i. ?I d ct k i \<and> current_row d ?key = None) w"
    using w c(3) by (simp add: view_def recordable_def recordable_in_def Let_def)
  obtain r w1 where "on_db (find_current (rt_db rt) ?key) w = (Inr r, w1)" "r = None \<and> view rt ?I w1"
    by (rule returnsE [OF find_current_none [OF rt(1)] start])
  then have find: "on_db (find_current (rt_db rt) ?key) w = (Inr None, w1)" and w1: "view rt ?I w1" by simp_all
  have miss: "probe_execute rt (probe_of c) w = (Inr \<lparr>pb_status = PROBE_MISS, pb_execution_key = ?key, pb_execution = None\<rparr>, w1)"
    unfolding probe_run [OF managed idn(1)] using c(1) find by (simp add: bindP_def)
  have offline: "\<exists>e. fst (run_execute rt False ms (c\<lparr>rc_cache_mode := MODE_OFFLINE\<rparr>) w1) = Inl e \<and> exn_class_of e = CacheMiss"
  proof (rule offline_miss_quiet [OF rt(1)])
    show "has_call_identity rt (c\<lparr>rc_cache_mode := MODE_OFFLINE\<rparr>) idn" using idn(1) by (simp add: mode_identity)
    show "current_row (w_tables w1) ?key = None" using w1 by (simp add: view_def)
  qed (use c managed in \<open>simp_all add: is_uncacheable_def\<close>)
  obtain y w2 where y: "run_execute rt False ms c w1 = (Inr y, w2)"
    and rec: "view rt (recorded rt ?key (rc_execution_kind c) ?u (Suc (w_calls w)) ?parts y) w2"
  proof (rule returnsE [OF execute_record_quiet [OF rt idn refl c(1,2) _ inj res]])
    show "rc_cache_mode c \<noteq> MODE_OFFLINE" using c(3) by simp
    show "view rt (\<lambda>d ct k i. recordable rt ?key (w_calls w) d ct k i \<and> (rc_cache_mode c = MODE_CACHE \<longrightarrow> current_row d ?key = None)) w1"
      using w1 by (simp add: view_def)
  qed
  from rec obtain e where e: "e \<in> range (rt_uuid rt)"
    and doc: "view rt (documented rt e ?key LOCAL_MANAGED True ?u (Suc (w_calls w)) ?parts) w2"
    unfolding view_def recorded_def managed by blast
  have keys: "\<And>v. blob_key_ok (e @ ''_'' @ rt_hash rt v)" "e \<noteq> []" using e rt(2) by (auto simp: keys_ok_def)
  let ?V = "view rt (documented rt e ?key LOCAL_MANAGED True ?u (Suc (w_calls w)) ?parts)"
  obtain r w3 where "on_db (find_current (rt_db rt) ?key) w2 = (Inr r, w3)"
    "\<exists>x. r = Some x \<and> loads_as rt e LOCAL_MANAGED ?u ?parts x \<and> ?V w3"
    by (rule returnsE [OF find_current_quiet [OF rt(1) keys] doc])
  then obtain x where found: "on_db (find_current (rt_db rt) ?key) w2 = (Inr (Some x), w3)" and w3: "?V w3" by blast
  have hit: "probe_execute rt (probe_of c) w2 = (Inr \<lparr>pb_status = PROBE_HIT, pb_execution_key = ?key, pb_execution = Some x\<rparr>, w3)"
    unfolding probe_run [OF managed idn(1)] using c(1) found by (simp add: bindP_def)
  have input: "\<exists>p \<in> set ?parts. fst p \<in> set INPUT_ARTIFACT_TYPES" if "stores_input (rc_persistence_depth c)"
    using that input_parts_types by (auto simp: recorded_parts_def)
  have mode: "rc_cache_mode c \<noteq> MODE_REFRESH" using c(3) by simp
  obtain y' w4 where y': "run_execute rt False ms c w3 = (Inr y', w4)" and end_state: "replays LOCAL_MANAGED ?u ?parts y' \<and> ?V w4"
    by (rule returnsE [OF execute_replay_quiet [OF rt(1) keys idn(1) refl c(1,2) mode input] w3])
  then have reply: "replays LOCAL_MANAGED ?u ?parts y'" and w4: "?V w4" by blast+
  have "w_calls w4 \<le> Suc (w_calls w)" using w4 by (simp add: view_def documented_def)
  with miss offline y hit y' reply show ?thesis by blast
qed

definition managed_command :: run_command where
  "managed_command = sample_command\<lparr>rc_execution_kind := LOCAL_MANAGED\<rparr>"

definition managed_identity :: managed_call_identity where
  "managed_identity = from_keyed_inputs sample_digest managed_command []"

lemma managed_build: "has_call_identity sample_runtime managed_command (ManagedCallIdentity managed_identity)"
  by (simp add: has_call_identity_def build_identity_def build_call_identity_def managed_identity_def managed_command_def
      sample_command_def sample_runtime_def del: ret_run)

lemma managed_client: "client_returns sample_runtime managed_command sample_result"
  unfolding client_returns_def
  by (simp add: run_client_def sample_runtime_def managed_command_def sample_command_def run_managed_def client_call_def
      next_call_def bindP_def sample_result_def ws_create_def ws_mkdir_def ws_step_def ws_dispose_def thenP_def finallyP_def
      take_snapshot_def capture_def run_digests_def Let_def)

theorem probe_forecasts_run_witness:
  "\<exists>w1 w2 x y w3. probe_execute sample_runtime (probe_of managed_command) sample_world =
        (Inr \<lparr>pb_status = PROBE_MISS, pb_execution_key = generate_key sample_digest (ManagedCallIdentity managed_identity), pb_execution = None\<rparr>, w1)
    \<and> run_execute sample_runtime False None managed_command w1 = (Inr y, w2)
    \<and> probe_execute sample_runtime (probe_of managed_command) w2 =
        (Inr \<lparr>pb_status = PROBE_HIT, pb_execution_key = generate_key sample_digest (ManagedCallIdentity managed_identity), pb_execution = Some x\<rparr>, w3)"
proof -
  have parts: "recorded_parts managed_command sample_result = [(STDOUT, None, ''hello''), (STDERR, None, [])]"
    by (simp add: recorded_parts_def output_parts_def sample_result_def package_answer_def sample_answer_def
        managed_command_def sample_command_def stores_input_def)
  have inj: "inj_on (rt_hash sample_runtime) (parts_contents (recorded_parts managed_command sample_result))"
    unfolding parts by (simp add: parts_contents_def sample_runtime_def sample_digest_def)
  have ok: "succeeded sample_result" by (simp add: sample_result_def succeeded_def package_answer_def sample_answer_def)
  have c: "rc_execution_kind managed_command = LOCAL_MANAGED" "\<not> is_uncacheable managed_command"
    "stores_output (rc_persistence_depth managed_command)" "rc_cache_mode managed_command = MODE_CACHE"
    by (simp_all add: managed_command_def sample_command_def is_uncacheable_def is_call_uncacheable_def stores_output_def)
  have fin: "identity_finite (ManagedCallIdentity managed_identity)"
    by (simp add: managed_identity_def from_keyed_inputs_def)
  have start: "recordable_in sample_runtime (ManagedCallIdentity managed_identity) managed_command sample_world"
    using sample_tables
    by (simp add: recordable_in_def has_identity_def current_row_def key_rows_def last_opt_def Let_def sample_world_def
        w_tables_def empty_db_def)
  have hash: "rt_hash sample_runtime = sample_digest" by (simp add: sample_runtime_def)
  from probe_forecasts_run [OF sample_quiet sample_keys_ok c(1) managed_build fin start c(2,3,4) inj managed_client ok, where ms = None]
  show ?thesis unfolding hash by blast
qed

end
