(* ===== verification/Schema_Migrations.thy ===== *)
theory Schema_Migrations
  imports Py_Text
begin

text \<open>
  The schema of the database: \<open>migration_runner.py\<close> with the blocking store lock it runs under
  (\<open>FilesystemStoreLock.acquire_exclusive_blocking\<close>) and the read-only status of
  \<open>store_status.py\<close>. Each statement, file read and lock call is a step that may fail before or after
  its effect is durable (error messages are shortened); a migration script is atomic, as the runner wraps it in one transaction. The
  tables a script creates are represented by its number: applying it again fails, since it creates
  tables that exist.
\<close>

section \<open>State and steps\<close>

text \<open>The rows of \<open>schema_version\<close> (its versions), \<open>PRAGMA user_version\<close>, the scripts whose tables exist.\<close>

record schema_store =
  ss_rows :: "int list option"
  ss_user_version :: int
  ss_applied :: "int list"
  ss_held :: bool
  ss_open :: nat
  ss_ops :: nat

record schema_env =
  se_current :: int
  se_files :: "int list"
  se_locked :: bool
  se_fault :: "nat \<Rightarrow> (bool \<times> exn) option"

definition CURRENT_VERSION :: int where "CURRENT_VERSION = 1"

definition MIGRATION_IDS :: "text_str list" where "MIGRATION_IDS = [''0001.initial-schema'']"

definition stmt :: "schema_env \<Rightarrow> (schema_store \<Rightarrow> schema_store) \<Rightarrow> (schema_store, unit) prog" where
  "stmt E f =
     (\<lambda>s. let n = ss_ops s; s' = s\<lparr>ss_ops := Suc n\<rparr>
          in case se_fault E n of
               None \<Rightarrow> (Inr (), f s')
             | Some (landed, e) \<Rightarrow> (Inl e, if landed then f s' else s'))"

definition query :: "schema_env \<Rightarrow> (schema_store \<Rightarrow> 'a) \<Rightarrow> (schema_store, 'a) prog" where
  "query E q =
     (\<lambda>s. let n = ss_ops s; s' = s\<lparr>ss_ops := Suc n\<rparr>
          in case se_fault E n of None \<Rightarrow> (Inr (q s'), s') | Some (_, e) \<Rightarrow> (Inl e, s'))"

definition version_rows :: "schema_store \<Rightarrow> int list" where
  "version_rows s = (case ss_rows s of None \<Rightarrow> [] | Some rows \<Rightarrow> rows)"

section \<open>The runner\<close>

definition create_version_table :: "schema_store \<Rightarrow> schema_store" where
  "create_version_table s = s\<lparr>ss_rows := Some (version_rows s)\<rparr>"

text \<open>\<open>INSERT OR IGNORE ... VALUES (1, ?)\<close>, made durable by the commit.\<close>

definition seed_version :: "int \<Rightarrow> schema_store \<Rightarrow> schema_store" where
  "seed_version prior s = s\<lparr>ss_rows := Some (if version_rows s = [] then [prior] else version_rows s)\<rparr>"

definition bootstrap_version :: "schema_env \<Rightarrow> (schema_store, int) prog" where
  "bootstrap_version E =
     thenP (stmt E create_version_table)
       (bindP (query E version_rows) (\<lambda>rows.
        if 1 < length rows
        then raise (Exn StoreCorrupt (''schema_version holds '' @ dec_str (length rows) @ '' rows; expected exactly one''))
        else (case rows of
            v # _ \<Rightarrow> ret v
          | [] \<Rightarrow>
              bindP (catchP (query E ss_user_version) (\<lambda>e. if is_exception e then ret 0 else raise e)) (\<lambda>prior.
              thenP (query E (\<lambda>_. ()))
                (thenP (stmt E (seed_version prior))
                  (bindP (query E version_rows) (\<lambda>rows.
                   ret (case rows of [] \<Rightarrow> prior | v # _ \<Rightarrow> v))))))))"

text \<open>\<open>BEGIN; <script>; UPDATE schema_version SET version = target; COMMIT\<close>.\<close>

definition apply_script :: "int \<Rightarrow> schema_store \<Rightarrow> schema_store" where
  "apply_script target s =
     s\<lparr>ss_rows := map_option (map (\<lambda>_. target)) (ss_rows s), ss_applied := ss_applied s @ [target]\<rparr>"

definition run_script :: "schema_env \<Rightarrow> int \<Rightarrow> (schema_store, unit) prog" where
  "run_script E target =
     bindP (getsP (\<lambda>s. target \<in> set (ss_applied s))) (\<lambda>present.
     if present then thenP (query E (\<lambda>_. ())) (raise (Exn SqliteOperationalError ''table already exists''))
     else stmt E (apply_script target))"

definition migration_failed :: "int \<Rightarrow> exn" where
  "migration_failed target = Exn MigrationFailed (''schema migration to version '' @ int_str target @ '' failed and was rolled back'')"

definition apply_migration :: "schema_env \<Rightarrow> int \<Rightarrow> (schema_store, unit) prog" where
  "apply_migration E target =
     (if target \<notin> set (se_files E)
      then raise (Exn MigrationFailed (''no migration file found for version '' @ int_str target))
      else thenP (query E (\<lambda>_. ()))
        (catchP (run_script E target)
          (\<lambda>e. if is_exception e then thenP (query E (\<lambda>_. ())) (raise (migration_failed target)) else raise e)))"

text \<open>The body of \<open>_run_migrations_locked\<close> under its \<open>try\<close>, and the function.\<close>

definition migrate_body :: "schema_env \<Rightarrow> (schema_store, unit) prog" where
  "migrate_body E =
     thenP (query E (\<lambda>_. ()))
       (bindP (bootstrap_version E) (\<lambda>version.
        if version > se_current E
        then raise (Exn StoreSchemaTooNew (''store schema version '' @ int_str version @ '' is newer than this build supports''))
        else if version = se_current E then ret ()
        else for_each (apply_migration E) [version + 1 .. se_current E]))"

definition run_migrations_locked :: "schema_env \<Rightarrow> (schema_store, unit) prog" where
  "run_migrations_locked E =
     thenP (query E (\<lambda>_. ()))
       (thenP (modifyP (\<lambda>s. s\<lparr>ss_open := Suc (ss_open s)\<rparr>))
         (finallyP (migrate_body E) (modifyP (\<lambda>s. s\<lparr>ss_open := ss_open s - 1\<rparr>))))"

definition acquire_exclusive_blocking :: "schema_env \<Rightarrow> (schema_store, 'a) prog \<Rightarrow> (schema_store, 'a) prog" where
  "acquire_exclusive_blocking E m =
     thenP (query E (\<lambda>_. ())) (thenP (query E (\<lambda>_. ()))
       (thenP (catchP (query E (\<lambda>_. ()))
           (\<lambda>e. if exn_class_of e = OSError
                then raise (Exn StoreLocked ''the store is locked by another operation (a migration may be in progress)'')
                else raise e))
         (thenP (modifyP (\<lambda>s. s\<lparr>ss_held := True\<rparr>)) (finallyP m (modifyP (\<lambda>s. s\<lparr>ss_held := False\<rparr>))))))"

definition run_migrations :: "schema_env \<Rightarrow> (schema_store, unit) prog" where
  "run_migrations E =
     (if se_locked E then acquire_exclusive_blocking E (run_migrations_locked E) else run_migrations_locked E)"

section \<open>The status\<close>

definition applied_ids :: "int \<Rightarrow> text_str list" where
  "applied_ids version = map (\<lambda>v. MIGRATION_IDS ! nat (v - 1)) [1 .. min version (int (length MIGRATION_IDS))]"

definition applied_schema_version :: "schema_env \<Rightarrow> (schema_store, text_str list) prog" where
  "applied_schema_version E =
     thenP (query E (\<lambda>_. ()))
       (thenP (modifyP (\<lambda>s. s\<lparr>ss_open := Suc (ss_open s)\<rparr>))
         (finallyP
           (catchP
             (bindP (query E ss_rows) (\<lambda>rows.
              case rows of
                None \<Rightarrow> raise (Exn SqliteOperationalError ''no such table: schema_version'')
              | Some rows \<Rightarrow> ret (applied_ids (if rows = [] then 0 else Max (set rows)))))
             (\<lambda>e. if is_exception e then ret [] else raise e))
           (modifyP (\<lambda>s. s\<lparr>ss_open := ss_open s - 1\<rparr>))))"

definition applied_migrations :: "schema_env \<Rightarrow> bool \<Rightarrow> (schema_store, text_str list) prog" where
  "applied_migrations E db_exists = (if db_exists then applied_schema_version E else ret [])"

section \<open>Steps of the invariant\<close>

text \<open>The scripts applied are those up to the version, each once; nothing recorded counts as version 0.\<close>

definition recorded_version :: "schema_store \<Rightarrow> int" where
  "recorded_version s = (case version_rows s of [] \<Rightarrow> 0 | v # _ \<Rightarrow> v)"

definition schema_ok :: "int \<Rightarrow> schema_store \<Rightarrow> bool" where
  "schema_ok current s \<longleftrightarrow>
     ss_user_version s = 0 \<and> length (version_rows s) \<le> 1 \<and> 0 \<le> recorded_version s \<and> recorded_version s \<le> current
     \<and> ss_applied s = [1 .. recorded_version s]"

definition faulty :: "schema_env \<Rightarrow> bool" where
  "faulty E \<longleftrightarrow> (\<exists>n. se_fault E n \<noteq> None)"

definition uncounted :: "(schema_store \<Rightarrow> bool) \<Rightarrow> bool" where
  "uncounted P \<longleftrightarrow> (\<forall>s n. P (s\<lparr>ss_ops := n\<rparr>) = P s)"

lemma triple_stmt:
  assumes "uncounted P" and "\<And>s. P s \<Longrightarrow> Q (f s)" and "\<And>s. P s \<Longrightarrow> X s" and "\<And>s. Q s \<Longrightarrow> X s"
  shows "triple P (stmt E f) (\<lambda>_. Q) (\<lambda>_ s. X s \<and> faulty E)"
  unfolding triple_def
proof (intro allI impI)
  fix s assume "P s"
  then have "P (s\<lparr>ss_ops := Suc (ss_ops s)\<rparr>)" using assms(1) by (simp add: uncounted_def)
  with assms(2-4) show "case stmt E f s of (Inl e, w') \<Rightarrow> X w' \<and> faulty E | (Inr a, w') \<Rightarrow> Q w'"
    by (auto simp: stmt_def Let_def faulty_def split: option.splits)
qed

lemma triple_query:
  assumes "uncounted P"
  shows "triple P (query E q) (\<lambda>a s. P s \<and> a = q s) (\<lambda>_ s. P s \<and> faulty E)"
  unfolding triple_def
proof (intro allI impI)
  fix s assume "P s"
  then have "P (s\<lparr>ss_ops := Suc (ss_ops s)\<rparr>)" using assms by (simp add: uncounted_def)
  then show "case query E q s of (Inl e, w') \<Rightarrow> P w' \<and> faulty E | (Inr a, w') \<Rightarrow> P w' \<and> a = q w'"
    by (auto simp: query_def Let_def faulty_def split: option.splits)
qed

lemma tripleD_outcome: "triple P m Q X \<Longrightarrow> P s \<Longrightarrow> m s = (r, s') \<Longrightarrow> (case r of Inl e \<Rightarrow> X e s' | Inr a \<Rightarrow> Q a s')"
  by (auto simp: triple_def split: sum.splits)

lemma triple_if: "triple P m Q X \<Longrightarrow> triple P n Q X \<Longrightarrow> triple P (if b then m else n) Q X"
  by simp

lemma triple_step:
  "uncounted P \<Longrightarrow> triple P (query E (\<lambda>_. ())) (\<lambda>_. P) (\<lambda>_ s. P s \<and> faulty E)"
  by (rule triple_conseq [OF triple_query]) auto

lemma triple_finally:
  assumes "triple P m Q X" and "\<And>a s. Q a s \<Longrightarrow> Q a (f s)" and "\<And>e s. X e s \<Longrightarrow> X e (f s)"
  shows "triple P (finallyP m (modifyP f)) Q X"
  using assms unfolding triple_def finallyP_def by (fastforce split: prod.splits sum.splits)

lemma recorded_uncounted [simp]: "recorded_version (s\<lparr>ss_ops := n\<rparr>) = recorded_version s" "version_rows (s\<lparr>ss_ops := n\<rparr>) = version_rows s"
  by (simp_all add: recorded_version_def version_rows_def)

lemma schema_ok_uncounted [simp]: "uncounted (schema_ok c)" "uncounted (\<lambda>s. schema_ok c s \<and> ss_rows s = r)"
  "uncounted (\<lambda>s. schema_ok c s \<and> version_rows s = l)" "uncounted (\<lambda>s. schema_ok c s \<and> ss_rows s = r \<and> b)"
  by (simp_all add: uncounted_def schema_ok_def)

lemma schema_ok_fields [simp]:
  "schema_ok c (s\<lparr>ss_open := n\<rparr>) = schema_ok c s" "schema_ok c (s\<lparr>ss_held := b\<rparr>) = schema_ok c s"
  by (simp_all add: schema_ok_def recorded_version_def version_rows_def)

text \<open>After the bootstrap the table holds the version, and it is the one returned.\<close>

lemma bootstrap_ok:
  assumes "0 \<le> current"
  shows "triple (schema_ok current) (bootstrap_version E) (\<lambda>v s. schema_ok current s \<and> ss_rows s = Some [v])
    (\<lambda>_ s. schema_ok current s \<and> faulty E)"
proof -
  let ?I = "schema_ok current" and ?X = "\<lambda>(_ :: exn) s. schema_ok current s \<and> faulty E"
  let ?C = "\<lambda>r s. ?I s \<and> ss_rows s = Some r"
  have create: "triple ?I (stmt E create_version_table) (\<lambda>_ s. \<exists>r. ?C r s) ?X"
    by (rule triple_stmt) (auto simp: schema_ok_def create_version_table_def recorded_version_def version_rows_def)
  have rows: "triple (\<lambda>s. \<exists>r. ?C r s) (query E version_rows) (\<lambda>r s. ?C r s) ?X"
    by (rule triple_conseq [OF triple_query]) (auto simp: version_rows_def uncounted_def schema_ok_def)
  have prior: "triple (?C []) (catchP (query E ss_user_version) (\<lambda>e. if is_exception e then ret 0 else raise e))
      (\<lambda>p s. p = 0 \<and> ?C [] s) ?X"
  proof (rule triple_catch)
    show "triple (?C []) (query E ss_user_version) (\<lambda>p s. p = 0 \<and> ?C [] s) (\<lambda>_ s. ?C [] s \<and> faulty E)"
      by (rule triple_conseq [OF triple_query]) (auto simp: uncounted_def schema_ok_def)
    show "triple (\<lambda>s. ?C [] s \<and> faulty E) (if is_exception e then ret 0 else raise e) (\<lambda>p s. p = 0 \<and> ?C [] s) ?X" for e
      by (auto simp: triple_def)
  qed
  have insert: "triple (\<lambda>s. p = 0 \<and> ?C [] s) (query E (\<lambda>_. ())) (\<lambda>_ s. p = 0 \<and> ?C [] s) ?X" for p :: int
    by (rule triple_conseq [OF triple_step [where P = "\<lambda>s. p = 0 \<and> ?C [] s"]]) (auto simp: uncounted_def schema_ok_def)
  have seed: "triple (\<lambda>s. p = 0 \<and> ?C [] s) (stmt E (seed_version p)) (\<lambda>_. ?C [0]) ?X" for p
    by (rule triple_conseq [OF triple_stmt [where P = "\<lambda>s. p = 0 \<and> ?C [] s" and Q = "?C [0]" and X = ?I]])
      (use assms in \<open>auto simp: uncounted_def schema_ok_def seed_version_def recorded_version_def version_rows_def\<close>)
  have last: "triple (?C [0]) (bindP (query E version_rows) (\<lambda>rows. ret (case rows of [] \<Rightarrow> p | v # _ \<Rightarrow> v))) (\<lambda>v. ?C [v]) ?X" for p
    by (rule triple_bind [OF triple_conseq [OF triple_query [where P = "?C [0]"]], where R = "\<lambda>r s. r = [0] \<and> ?C [0] s"])
      (auto simp: uncounted_def schema_ok_def version_rows_def intro!: triple_ret)
  have fresh: "triple (?C []) (bindP (catchP (query E ss_user_version) (\<lambda>e. if is_exception e then ret 0 else raise e)) (\<lambda>prior.
      thenP (query E (\<lambda>_. ())) (thenP (stmt E (seed_version prior))
        (bindP (query E version_rows) (\<lambda>rows. ret (case rows of [] \<Rightarrow> prior | v # _ \<Rightarrow> v)))))) (\<lambda>v. ?C [v]) ?X"
    by (rule triple_bind [OF prior], rule triple_then [OF insert], rule triple_then [OF seed], rule last)
  show ?thesis
    unfolding bootstrap_version_def
  proof (rule triple_then [OF create], rule triple_bind [OF rows])
    fix r
    show "triple (?C r) (if 1 < length r then raise (Exn StoreCorrupt (''schema_version holds '' @ dec_str (length r) @ '' rows; expected exactly one''))
        else (case r of v # _ \<Rightarrow> ret v | [] \<Rightarrow> bindP (catchP (query E ss_user_version) (\<lambda>e. if is_exception e then ret 0 else raise e)) (\<lambda>prior.
          thenP (query E (\<lambda>_. ())) (thenP (stmt E (seed_version prior))
            (bindP (query E version_rows) (\<lambda>rows. ret (case rows of [] \<Rightarrow> prior | v # _ \<Rightarrow> v))))))) (\<lambda>v. ?C [v]) ?X"
    proof (cases r)
      case Nil
      with fresh show ?thesis by simp
    next
      case (Cons v vs)
      then show ?thesis by (auto simp: triple_def schema_ok_def version_rows_def)
    qed
  qed
qed

section \<open>The scripts\<close>

definition at_version :: "int \<Rightarrow> int \<Rightarrow> schema_store \<Rightarrow> bool" where
  "at_version c v s \<longleftrightarrow> schema_ok c s \<and> ss_rows s = Some [v]"

text \<open>What may stop a run: a fault, a script that does not ship, or a store of a later build.\<close>

definition stoppable :: "int \<Rightarrow> schema_env \<Rightarrow> bool" where
  "stoppable c E \<longleftrightarrow> faulty E \<or> \<not> set [1 .. se_current E] \<subseteq> set (se_files E) \<or> se_current E < c"

lemma at_uncounted [simp]: "uncounted (at_version c v)"
  by (simp add: uncounted_def at_version_def schema_ok_def)

lemma at_ok: "at_version c v s \<Longrightarrow> schema_ok c s"
  by (simp add: at_version_def)

lemma faulty_stoppable: "faulty E \<Longrightarrow> stoppable c E"
  by (simp add: stoppable_def)

lemma apply_script_at:
  assumes "at_version c (t - 1) s" and "1 \<le> t" and "t \<le> c"
  shows "at_version c t (apply_script t s)"
proof -
  have "[1 .. t] = [1 .. t - 1] @ [t]" using assms(2) by (simp add: upto_rec2)
  with assms show ?thesis
    by (simp add: at_version_def schema_ok_def apply_script_def recorded_version_def version_rows_def)
qed

lemma run_script_at:
  assumes "1 \<le> t" and "t \<le> c"
  shows "triple (at_version c (t - 1)) (run_script E t) (\<lambda>_. at_version c t) (\<lambda>_ s. schema_ok c s \<and> faulty E)"
proof -
  have same: "run_script E t s = stmt E (apply_script t) s" if "at_version c (t - 1) s" for s
  proof -
    have "t \<notin> set (ss_applied s)"
      using that by (auto simp: at_version_def schema_ok_def recorded_version_def version_rows_def)
    then show ?thesis by (simp add: run_script_def bindP_def getsP_def)
  qed
  have "triple (at_version c (t - 1)) (stmt E (apply_script t)) (\<lambda>_. at_version c t) (\<lambda>_ s. schema_ok c s \<and> faulty E)"
    using assms by (intro triple_stmt) (auto intro: apply_script_at at_ok)
  then show ?thesis using same by (simp add: triple_def)
qed

lemma apply_migration_at:
  assumes "1 \<le> t" and "t \<le> c" and "t \<le> se_current E"
  shows "triple (at_version c (t - 1)) (apply_migration E t) (\<lambda>_. at_version c t) (\<lambda>_ s. schema_ok c s \<and> stoppable c E)"
proof (cases "t \<in> set (se_files E)")
  case False
  with assms have "stoppable c E" by (auto simp: stoppable_def subset_eq)
  with False show ?thesis by (auto simp: apply_migration_def triple_def at_version_def)
next
  case True
  let ?ok = "\<lambda>s. schema_ok c s \<and> faulty E" and ?X = "\<lambda>(_ :: exn) s. schema_ok c s \<and> stoppable c E"
  have handler: "triple ?ok (thenP (query E (\<lambda>_. ())) (raise x)) (\<lambda>_ :: unit. at_version c t) ?X" for x
    by (rule triple_then [OF triple_conseq [OF triple_step [where P = ?ok]], where R = ?ok])
      (auto simp: uncounted_def schema_ok_def intro!: triple_raise faulty_stoppable)
  have script: "triple (at_version c (t - 1)) (catchP (run_script E t)
      (\<lambda>e. if is_exception e then thenP (query E (\<lambda>_. ())) (raise (migration_failed t)) else raise e)) (\<lambda>_. at_version c t) ?X"
  proof (rule triple_catch [OF run_script_at [OF assms(1,2)]])
    fix e
    show "triple ?ok (if is_exception e then thenP (query E (\<lambda>_. ())) (raise (migration_failed t)) else raise e)
        (\<lambda>_ :: unit. at_version c t) ?X"
      by (rule triple_if [OF handler]) (auto intro: triple_raise faulty_stoppable)
  qed
  have "triple (at_version c (t - 1)) (query E (\<lambda>_. ())) (\<lambda>_. at_version c (t - 1)) ?X"
    by (rule triple_conseq [OF triple_step]) (auto intro: at_ok faulty_stoppable)
  from triple_then [OF this script] True show ?thesis by (simp add: apply_migration_def)
qed

lemma apply_all_at:
  assumes "0 \<le> v" and "v \<le> c'" and "c' = se_current E" and "c' \<le> c"
  shows "triple (at_version c v) (for_each (apply_migration E) [v + 1 .. c']) (\<lambda>_. at_version c c')
    (\<lambda>_ s. schema_ok c s \<and> stoppable c E)"
  using assms(1,2)
proof (induction "nat (c' - v)" arbitrary: v)
  case 0
  then have "v = c'" by simp
  then show ?case by (simp add: triple_def)
next
  case (Suc n)
  then have "v + 1 \<le> c'" by simp
  then have list: "[v + 1 .. c'] = (v + 1) # [v + 1 + 1 .. c']" by (simp add: upto_rec1)
  have first: "triple (at_version c v) (apply_migration E (v + 1)) (\<lambda>_. at_version c (v + 1)) (\<lambda>_ s. schema_ok c s \<and> stoppable c E)"
    using apply_migration_at [of "v + 1" c E] Suc.prems \<open>v + 1 \<le> c'\<close> assms(3,4) by simp
  have rest: "triple (at_version c (v + 1)) (for_each (apply_migration E) [v + 1 + 1 .. c']) (\<lambda>_. at_version c c')
      (\<lambda>_ s. schema_ok c s \<and> stoppable c E)"
    using Suc by (intro Suc.hyps(1)) auto
  show ?case unfolding list for_each.simps by (rule triple_then [OF first rest])
qed

section \<open>A whole run\<close>

definition plain :: "(schema_store \<Rightarrow> bool) \<Rightarrow> bool" where
  "plain P \<longleftrightarrow> uncounted P \<and> (\<forall>s n. P (s\<lparr>ss_open := n\<rparr>) = P s) \<and> (\<forall>s b. P (s\<lparr>ss_held := b\<rparr>) = P s)"

lemma plain_rules [simp]: "plain (schema_ok c)" "plain (at_version c v)" "plain P \<Longrightarrow> plain (\<lambda>s. P s \<and> b)"
  by (auto simp: plain_def uncounted_def at_version_def schema_ok_def recorded_version_def version_rows_def)

text \<open>What holds of the body holds of the run: the connection and the lock add only failing steps.\<close>

lemma triple_modify_plain:
  assumes "plain P" and "\<And>s. f s = s\<lparr>ss_open := g s\<rparr> \<or> f s = s\<lparr>ss_held := b\<rparr>"
  shows "triple P (modifyP f) (\<lambda>_. P) X"
  using assms by (auto simp: triple_def plain_def) metis

lemma triple_run_migrations:
  assumes P: "plain P" and Q: "plain Q" and X: "\<And>e. plain (X e)" and fault: "\<And>e s. P s \<Longrightarrow> faulty E \<Longrightarrow> X e s"
    and body: "triple P (migrate_body E) (\<lambda>_. Q) X"
  shows "triple P (run_migrations E) (\<lambda>_. Q) X"
proof -
  have step: "triple P (query E (\<lambda>_. ())) (\<lambda>_. P) (\<lambda>_ s. P s \<and> faulty E)"
    using P by (intro triple_step) (simp add: plain_def)
  have step': "triple P (query E (\<lambda>_. ())) (\<lambda>_. P) X"
    by (rule triple_conseq [OF step]) (auto intro: fault)
  have "triple P (run_migrations_locked E) (\<lambda>_. Q) X"
    unfolding run_migrations_locked_def
  proof (rule triple_then [OF step'], rule triple_then [where R = P])
    show "triple P (modifyP (\<lambda>s. s\<lparr>ss_open := Suc (ss_open s)\<rparr>)) (\<lambda>_. P) X"
      by (rule triple_modify_plain [OF P]) blast
    show "triple P (finallyP (migrate_body E) (modifyP (\<lambda>s. s\<lparr>ss_open := ss_open s - 1\<rparr>))) (\<lambda>_. Q) X"
      using Q X by (intro triple_finally [OF body]) (simp_all add: plain_def)
  qed
  moreover have "triple P (acquire_exclusive_blocking E m) (\<lambda>_. Q) X" if m: "triple P m (\<lambda>_. Q) X" for m :: "(schema_store, unit) prog"
    unfolding acquire_exclusive_blocking_def
  proof (rule triple_then [OF step'], rule triple_then [OF step'], rule triple_then [where R = P])
    show "triple P (catchP (query E (\<lambda>_. ())) (\<lambda>e. if exn_class_of e = OSError
        then raise (Exn StoreLocked ''the store is locked by another operation (a migration may be in progress)'') else raise e)) (\<lambda>_. P) X"
      by (rule triple_catch [OF step]) (auto simp: triple_def intro: fault)
    show "triple P (thenP (modifyP (\<lambda>s. s\<lparr>ss_held := True\<rparr>)) (finallyP m (modifyP (\<lambda>s. s\<lparr>ss_held := False\<rparr>)))) (\<lambda>_. Q) X"
    proof (rule triple_then [where R = P])
      show "triple P (modifyP (\<lambda>s. s\<lparr>ss_held := True\<rparr>)) (\<lambda>_. P) X"
        by (rule triple_modify_plain [OF P]) blast
      show "triple P (finallyP m (modifyP (\<lambda>s. s\<lparr>ss_held := False\<rparr>))) (\<lambda>_. Q) X"
        using Q X by (intro triple_finally [OF m]) (simp_all add: plain_def)
    qed
  qed
  ultimately show ?thesis by (simp add: run_migrations_def)
qed

lemma run_migrations_ok:
  assumes "0 \<le> se_current E" and "se_current E \<le> c"
  shows "triple (schema_ok c) (run_migrations E) (\<lambda>_. at_version c (se_current E)) (\<lambda>_ s. schema_ok c s \<and> stoppable c E)"
proof (rule triple_run_migrations)
  let ?X = "\<lambda>(_ :: exn) s. schema_ok c s \<and> stoppable c E"
  have step: "triple (schema_ok c) (query E (\<lambda>_. ())) (\<lambda>_. schema_ok c) ?X"
    by (rule triple_conseq [OF triple_step]) (auto intro: faulty_stoppable)
  have boot: "triple (schema_ok c) (bootstrap_version E) (\<lambda>v. at_version c v) ?X"
    by (rule triple_conseq [OF bootstrap_ok]) (use assms in \<open>auto simp: at_version_def intro: faulty_stoppable\<close>)
  show "triple (schema_ok c) (migrate_body E) (\<lambda>_. at_version c (se_current E)) ?X"
    unfolding migrate_body_def
  proof (rule triple_then [OF step], rule triple_bind [OF boot])
    fix v
    consider "v > se_current E" | "v = se_current E" | "v < se_current E" by linarith
    then show "triple (at_version c v) (if v > se_current E
        then raise (Exn StoreSchemaTooNew (''store schema version '' @ int_str v @ '' is newer than this build supports''))
        else if v = se_current E then ret () else for_each (apply_migration E) [v + 1 .. se_current E])
        (\<lambda>_. at_version c (se_current E)) ?X"
    proof cases
      case 1
      then show ?thesis
        by (auto simp: triple_def at_version_def stoppable_def schema_ok_def recorded_version_def version_rows_def)
    next
      case 2
      then show ?thesis by (simp add: triple_def)
    next
      case 3
      have "triple (at_version c v) (for_each (apply_migration E) [v + 1 .. se_current E]) (\<lambda>_. at_version c (se_current E)) ?X"
      proof (cases "0 \<le> v")
        case True
        then show ?thesis using 3 assms by (intro apply_all_at) auto
      next
        case False
        then show ?thesis by (auto simp: triple_def at_version_def schema_ok_def recorded_version_def version_rows_def)
      qed
      with 3 show ?thesis by simp
    qed
  qed
qed (auto intro: faulty_stoppable)

definition migration_runs :: "schema_env list \<Rightarrow> schema_store \<Rightarrow> schema_store" where
  "migration_runs Es s = foldl (\<lambda>s E. snd (run_migrations E s)) s Es"

lemma migration_runs_ok:
  assumes "\<And>E. E \<in> set Es \<Longrightarrow> 0 \<le> se_current E \<and> se_current E \<le> c" and "schema_ok c s"
  shows "schema_ok c (migration_runs Es s)"
  using assms
proof (induction Es arbitrary: s)
  case Nil
  then show ?case by (simp add: migration_runs_def)
next
  case (Cons E Es)
  obtain r s' where run: "run_migrations E s = (r, s')" by (cases "run_migrations E s")
  have t: "triple (schema_ok c) (run_migrations E) (\<lambda>_. at_version c (se_current E)) (\<lambda>_ s. schema_ok c s \<and> stoppable c E)"
    using Cons.prems(1) by (intro run_migrations_ok) auto
  have "schema_ok c s'"
    using tripleD_Inr [OF t Cons.prems(2)] tripleD_Inl [OF t Cons.prems(2)] run by (cases r) (auto simp: at_version_def)
  with Cons.IH Cons.prems(1) run show ?case by (simp add: migration_runs_def)
qed

section \<open>A store this build cannot open\<close>

definition schema_data :: "schema_store \<Rightarrow> int list option \<times> int \<times> int list" where
  "schema_data s = (ss_rows s, ss_user_version s, ss_applied s)"

lemma schema_data_plain [simp]: "plain (\<lambda>s. schema_data s = d)"
  by (simp add: plain_def uncounted_def schema_data_def)

lemma bootstrap_populated:
  assumes "rows = v # vs" and "d = (Some rows, u, a)"
  shows "triple (\<lambda>s. schema_data s = d) (bootstrap_version E) (\<lambda>x s. schema_data s = d \<and> x = v \<and> vs = [])
    (\<lambda>e s. schema_data s = d \<and> (faulty E \<or> exn_class_of e = StoreCorrupt \<and> vs \<noteq> []))"
proof -
  let ?I = "\<lambda>s. schema_data s = d" and ?X = "\<lambda>e s. schema_data s = d \<and> (faulty E \<or> exn_class_of e = StoreCorrupt \<and> vs \<noteq> [])"
  have unc: "uncounted ?I" by (simp add: uncounted_def schema_data_def)
  have create: "triple ?I (stmt E create_version_table) (\<lambda>_. ?I) ?X"
    by (rule triple_conseq [OF triple_stmt [OF unc, where Q = ?I and X = ?I]])
      (use assms in \<open>auto simp: schema_data_def create_version_table_def version_rows_def\<close>)
  have rows: "triple ?I (query E version_rows) (\<lambda>r s. ?I s \<and> r = rows) ?X"
    by (rule triple_conseq [OF triple_query [OF unc]]) (use assms in \<open>auto simp: schema_data_def version_rows_def\<close>)
  show ?thesis
    unfolding bootstrap_version_def
  proof (rule triple_then [OF create], rule triple_bind [OF rows])
    fix r
    show "triple (\<lambda>s. ?I s \<and> r = rows) (if 1 < length r
        then raise (Exn StoreCorrupt (''schema_version holds '' @ dec_str (length r) @ '' rows; expected exactly one''))
        else (case r of v # _ \<Rightarrow> ret v | [] \<Rightarrow> bindP (catchP (query E ss_user_version) (\<lambda>e. if is_exception e then ret 0 else raise e)) (\<lambda>prior.
          thenP (query E (\<lambda>_. ())) (thenP (stmt E (seed_version prior))
            (bindP (query E version_rows) (\<lambda>rows. ret (case rows of [] \<Rightarrow> prior | v # _ \<Rightarrow> v))))))) (\<lambda>x s. ?I s \<and> x = v \<and> vs = []) ?X"
      using assms(1) by (cases "r = rows") (auto simp: triple_def)
  qed
qed

definition unsupported :: "int \<Rightarrow> int list \<Rightarrow> exn_class option" where
  "unsupported current rows =
     (case rows of [] \<Rightarrow> None | [v] \<Rightarrow> if current < v then Some StoreSchemaTooNew else None | _ \<Rightarrow> Some StoreCorrupt)"

lemma unsupported_body:
  assumes "unsupported (se_current E) rows = Some cls" and "d = (Some rows, u, a)"
  shows "triple (\<lambda>s. schema_data s = d) (migrate_body E) (\<lambda>_ _. False)
    (\<lambda>e s. schema_data s = d \<and> (faulty E \<or> exn_class_of e = cls))"
proof -
  let ?I = "\<lambda>s. schema_data s = d" and ?X = "\<lambda>e s. schema_data s = d \<and> (faulty E \<or> exn_class_of e = cls)"
  obtain v vs where rows: "rows = v # vs" using assms(1) by (cases rows) (auto simp: unsupported_def)
  have cls: "vs = [] \<Longrightarrow> se_current E < v \<and> cls = StoreSchemaTooNew" "vs \<noteq> [] \<Longrightarrow> cls = StoreCorrupt"
    using assms(1) rows by (auto simp: unsupported_def split: list.splits if_splits)
  have step: "triple ?I (query E (\<lambda>_. ())) (\<lambda>_. ?I) ?X"
    by (rule triple_conseq [OF triple_step]) (auto simp: uncounted_def schema_data_def)
  have boot: "triple ?I (bootstrap_version E) (\<lambda>x s. ?I s \<and> x = v \<and> vs = []) ?X"
    by (rule triple_conseq [OF bootstrap_populated [OF rows assms(2)]]) (use cls in auto)
  show ?thesis
    unfolding migrate_body_def
    by (rule triple_then [OF step], rule triple_bind [OF boot]) (use cls in \<open>auto simp: triple_def\<close>)
qed

text \<open>A version below a script that is applied: the run ends at that script.\<close>

lemma behind_body:
  assumes "v < se_current E" and "v + 1 \<in> set a" and "d = (Some [v], u, a)"
  shows "triple (\<lambda>s. schema_data s = d) (migrate_body E) (\<lambda>_ _. False)
    (\<lambda>e s. schema_data s = d \<and> (faulty E \<or> exn_class_of e = MigrationFailed))"
proof -
  let ?I = "\<lambda>s. schema_data s = d" and ?X = "\<lambda>e s. schema_data s = d \<and> (faulty E \<or> exn_class_of e = MigrationFailed)"
  let ?F = "\<lambda>_ :: unit. \<lambda>_ :: schema_store. False"
  have step: "triple ?I (query E (\<lambda>_. ())) (\<lambda>_. ?I) (\<lambda>_ s. ?I s \<and> faulty E)"
    by (rule triple_step) (simp add: uncounted_def schema_data_def)
  have step': "triple ?I (query E (\<lambda>_. ())) (\<lambda>_. ?I) ?X"
    by (rule triple_conseq [OF step]) auto
  have boot: "triple ?I (bootstrap_version E) (\<lambda>x s. ?I s \<and> x = v) ?X"
    by (rule triple_conseq [OF bootstrap_populated [OF refl assms(3)]]) auto
  let ?R = "\<lambda>e s. ?I s \<and> (faulty E \<or> is_exception e)"
  have exists: "triple ?I (thenP (query E (\<lambda>_. ())) (raise (Exn SqliteOperationalError ''table already exists''))) ?F ?R"
    by (rule triple_then [OF triple_conseq [OF step], where R = ?I]) (auto simp: triple_def)
  have script: "triple ?I (run_script E (v + 1)) ?F ?R"
  proof -
    have "run_script E (v + 1) s = thenP (query E (\<lambda>_. ())) (raise (Exn SqliteOperationalError ''table already exists'')) s"
      if "?I s" for s
      using that assms(2,3) by (simp add: run_script_def bindP_def getsP_def schema_data_def)
    with exists show ?thesis by (simp add: triple_def)
  qed
  have failed: "triple (?R e) (thenP (query E (\<lambda>_. ())) (raise (migration_failed (v + 1)))) ?F ?X" for e
    by (rule triple_then [OF triple_conseq [OF step], where R = ?I]) (auto simp: triple_def migration_failed_def)
  have handler: "triple (?R e) (if is_exception e then thenP (query E (\<lambda>_. ())) (raise (migration_failed (v + 1))) else raise e) ?F ?X" for e
    using failed [of e] by (cases "is_exception e") (simp_all add: triple_def)
  have "triple ?I (apply_migration E (v + 1)) ?F ?X"
  proof (cases "v + 1 \<in> set (se_files E)")
    case True
    with triple_then [OF step' triple_catch [OF script handler]] show ?thesis by (simp add: apply_migration_def)
  next
    case False
    then show ?thesis by (simp add: apply_migration_def triple_def)
  qed
  then have first: "triple ?I (for_each (apply_migration E) [v + 1 .. se_current E]) ?F ?X"
    using assms(1) by (simp add: upto_rec1) (rule triple_then, assumption, simp add: triple_def)
  show ?thesis
    unfolding migrate_body_def
  proof (rule triple_then [OF step'], rule triple_bind [OF boot])
    fix x
    show "triple (\<lambda>s. ?I s \<and> x = v) (if x > se_current E
        then raise (Exn StoreSchemaTooNew (''store schema version '' @ int_str x @ '' is newer than this build supports''))
        else if x = se_current E then ret () else for_each (apply_migration E) [x + 1 .. se_current E]) ?F ?X"
      using first assms(1) by (cases "x = v") (auto simp: triple_def)
  qed
qed

section \<open>Handles\<close>

abbreviation handles :: "schema_store \<Rightarrow> nat \<times> bool" where
  "handles s \<equiv> (ss_open s, ss_held s)"

lemma handles_stmt [steps_rules]: "(\<And>s. handles (f s) = handles s) \<Longrightarrow> steps (keeping handles) (stmt E f)"
  by (auto simp: steps_def keeping_def stmt_def Let_def split: option.splits)

lemma query_steps [steps_rules]: "(\<And>s n. f (s\<lparr>ss_ops := n\<rparr>) = f s) \<Longrightarrow> steps (keeping f) (query E q)"
  by (auto simp: steps_def keeping_def query_def Let_def split: option.splits)

lemma body_handles: "steps (keeping handles) (migrate_body E)"
  unfolding migrate_body_def bootstrap_version_def apply_migration_def run_script_def
  by (auto intro!: steps_rules simp: create_version_table_def seed_version_def apply_script_def split: list.split)

lemma open_finally:
  assumes "steps (keeping handles) m"
  shows "steps (keeping handles) (thenP (modifyP (\<lambda>s. s\<lparr>ss_open := Suc (ss_open s)\<rparr>))
    (finallyP m (modifyP (\<lambda>s. s\<lparr>ss_open := ss_open s - 1\<rparr>))))"
proof (rule stepsI)
  fix s r s'
  assume run: "thenP (modifyP (\<lambda>s. s\<lparr>ss_open := Suc (ss_open s)\<rparr>))
    (finallyP m (modifyP (\<lambda>s. s\<lparr>ss_open := ss_open s - 1\<rparr>))) s = (r, s')"
  obtain x t where m: "m (s\<lparr>ss_open := Suc (ss_open s)\<rparr>) = (x, t)" by fastforce
  from stepsD [OF assms m] have "ss_open t = Suc (ss_open s)" and "ss_held t = ss_held s" by (auto simp: keeping_def)
  moreover have "s' = t\<lparr>ss_open := ss_open t - 1\<rparr>"
    using run m by (auto simp: thenP_def bindP_def finallyP_def)
  ultimately show "keeping handles s s'" by (simp add: keeping_def)
qed

lemma locked_handles: "steps (keeping handles) (run_migrations_locked E)"
  unfolding run_migrations_locked_def by (intro steps_then open_finally body_handles steps_rules) auto


lemma lock_released:
  assumes "steps (keeping handles) m" and "\<not> ss_held s" and "acquire_exclusive_blocking E m s = (r, s')"
  shows "handles s' = handles s"
proof -
  let ?Q = "\<lambda>t. handles t = handles s"
  have step: "triple ?Q (query E (\<lambda>_. ())) (\<lambda>_. ?Q) (\<lambda>_. ?Q)"
    by (rule triple_conseq [OF triple_step]) (auto simp: uncounted_def)
  have under: "triple ?Q (thenP (modifyP (\<lambda>s. s\<lparr>ss_held := True\<rparr>)) (finallyP m (modifyP (\<lambda>s. s\<lparr>ss_held := False\<rparr>)))) (\<lambda>_. ?Q) (\<lambda>_. ?Q)"
    unfolding triple_def
  proof (intro allI impI)
    fix t assume t: "?Q t"
    obtain x u where m: "m (t\<lparr>ss_held := True\<rparr>) = (x, u)" by fastforce
    from stepsD [OF assms(1) m] t have "ss_open u = ss_open s" by (simp add: keeping_def)
    with m assms(2) show "case thenP (modifyP (\<lambda>s. s\<lparr>ss_held := True\<rparr>)) (finallyP m (modifyP (\<lambda>s. s\<lparr>ss_held := False\<rparr>))) t of
        (Inl e, w') \<Rightarrow> ?Q w' | (Inr a, w') \<Rightarrow> ?Q w'"
      by (auto simp: thenP_def bindP_def finallyP_def split: sum.splits)
  qed
  have "triple ?Q (acquire_exclusive_blocking E m) (\<lambda>_. ?Q) (\<lambda>_. ?Q)"
    unfolding acquire_exclusive_blocking_def
    by (rule triple_then [OF step], rule triple_then [OF step], rule triple_then [OF triple_catch [OF step] under])
      (auto simp: triple_def)
  from tripleD_outcome [OF this refl assms(3)] show ?thesis by (simp split: sum.splits)
qed

lemma run_handles:
  assumes "\<not> ss_held s" and "run_migrations E s = (r, s')"
  shows "handles s' = handles s"
proof (cases "se_locked E")
  case True
  then show ?thesis using lock_released [OF locked_handles assms(1)] assms(2) by (simp add: run_migrations_def)
next
  case False
  then show ?thesis using stepsD [OF locked_handles] assms(2) by (simp add: run_migrations_def keeping_def)
qed

lemma status_handles: "steps (keeping handles) (applied_schema_version E)"
  unfolding applied_schema_version_def
  by (rule steps_then, simp, rule query_steps, simp, rule open_finally) (auto intro!: steps_rules split: option.split)

lemma status_data: "steps (keeping schema_data) (applied_schema_version E)"
  unfolding applied_schema_version_def
  by (auto intro!: steps_rules steps_modify simp: keeping_def schema_data_def split: option.split)

section \<open>Properties\<close>

definition fresh_schema :: "schema_store \<Rightarrow> bool" where
  "fresh_schema s \<longleftrightarrow> ss_rows s = None \<and> ss_user_version s = 0 \<and> ss_applied s = []"

lemma fresh_ok: "fresh_schema s \<Longrightarrow> 0 \<le> c \<Longrightarrow> schema_ok c s"
  by (simp add: fresh_schema_def schema_ok_def recorded_version_def version_rows_def)

text \<open>
  C24: Migrating is safe to interrupt and to repeat. On a new store, after any sequence of runs of this
  or of older builds, with and without the lock, each cut short at any statement by any failure (before
  or after the statement became durable), the version row never disagrees with the tables: the scripts
  applied are exactly 1 up to the recorded version, in order, each once. The next run without a failure
  returns, records the current version and has then applied every script exactly once.
\<close>

theorem migrations_resume:
  assumes "fresh_schema s" and "0 \<le> c" and "\<forall>E\<in>set Es. 0 \<le> se_current E \<and> se_current E \<le> c"
    and "se_current F = c" and "set [1 .. c] \<subseteq> set (se_files F)" and "\<not> faulty F"
  shows "ss_applied (migration_runs Es s) = [1 .. recorded_version (migration_runs Es s)]
    \<and> recorded_version (migration_runs Es s) \<le> c
    \<and> (\<exists>s'. run_migrations F (migration_runs Es s) = (Inr (), s') \<and> ss_rows s' = Some [c] \<and> ss_applied s' = [1 .. c])"
proof -
  let ?m = "migration_runs Es s"
  have ok: "schema_ok c ?m" using assms(1,2,3) by (auto intro: migration_runs_ok fresh_ok)
  have final: "triple (schema_ok c) (run_migrations F) (\<lambda>_. at_version c (se_current F)) (\<lambda>_ s. schema_ok c s \<and> stoppable c F)"
    using assms(2,4) by (intro run_migrations_ok) auto
  obtain r s' where run: "run_migrations F ?m = (r, s')" by (cases "run_migrations F ?m")
  have "r = Inr ()"
    using tripleD_Inl [OF final ok] run assms(4-6) by (cases r) (auto simp: stoppable_def)
  moreover from this tripleD_Inr [OF final ok] run assms(4) have "at_version c c s'" by auto
  ultimately show ?thesis
    using ok run by (auto simp: at_version_def schema_ok_def recorded_version_def version_rows_def)
qed

text \<open>
  C25: A store that this build cannot open is refused and left as it is. When the version table holds a
  version above the current one, or more than one row, no run succeeds, whatever fails on the way, and
  none changes the table, the legacy pragma or the tables of the scripts; without a failure the error is
  the one for the case, a schema that is too new or a corrupt store.
\<close>

theorem unsupported_store_refused:
  assumes "ss_rows s = Some rows" and "unsupported (se_current E) rows = Some cls" and "run_migrations E s = (r, s')"
  shows "\<exists>e. r = Inl e \<and> (faulty E \<or> exn_class_of e = cls) \<and> schema_data s' = schema_data s"
proof -
  have d: "schema_data s = (Some rows, ss_user_version s, ss_applied s)" by (simp add: schema_data_def assms(1))
  have t: "triple (\<lambda>t. schema_data t = schema_data s) (run_migrations E) (\<lambda>_ _. False)
      (\<lambda>e t. schema_data t = schema_data s \<and> (faulty E \<or> exn_class_of e = cls))"
    by (rule triple_run_migrations [OF _ _ _ _ unsupported_body [OF assms(2) d]]) (auto simp: plain_def uncounted_def schema_data_def)
  from tripleD_outcome [OF t refl assms(3)] show ?thesis by (cases r) auto
qed

text \<open>
  A version seeded too low is never repaired. When the version table holds one row below the current
  version and the tables of the next script exist, no run succeeds, whatever the files and the failures,
  and none changes the store; without a failure the error is MigrationFailed. The bootstrap makes such a
  store out of a healthy legacy one when its single read of the legacy pragma fails.
\<close>

theorem behind_store_stuck:
  assumes "ss_rows s = Some [v]" and "v < se_current E" and "v + 1 \<in> set (ss_applied s)" and "run_migrations E s = (r, s')"
  shows "\<exists>e. r = Inl e \<and> (faulty E \<or> exn_class_of e = MigrationFailed) \<and> schema_data s' = schema_data s"
proof -
  have d: "schema_data s = (Some [v], ss_user_version s, ss_applied s)" by (simp add: schema_data_def assms(1))
  have t: "triple (\<lambda>t. schema_data t = schema_data s) (run_migrations E) (\<lambda>_ _. False)
      (\<lambda>e t. schema_data t = schema_data s \<and> (faulty E \<or> exn_class_of e = MigrationFailed))"
    by (rule triple_run_migrations [OF _ _ _ _ behind_body [OF assms(2,3) d]]) (auto simp: plain_def uncounted_def schema_data_def)
  from tripleD_outcome [OF t refl assms(4)] show ?thesis by (cases r) auto
qed

text \<open>
  No handle outlives its operation, and the status only reads. Whatever fails, a migration run
  gives back the connection it opened and the store lock it took; the migration status closes its
  connection and changes neither the version table, the legacy pragma nor the tables.
\<close>

theorem schema_handles_released:
  assumes "\<not> ss_held s" and "run_migrations E s = (r, s')" and "applied_migrations E b s = (ids, t)"
  shows "ss_open s' = ss_open s \<and> ss_held s' = ss_held s
    \<and> ss_open t = ss_open s \<and> ss_held t = ss_held s \<and> schema_data t = schema_data s"
  using run_handles [OF assms(1,2)] stepsD [OF status_handles, of E s ids t] stepsD [OF status_data, of E s ids t] assms(3)
  by (auto simp: applied_migrations_def keeping_def split: if_splits)

text \<open>A new store, a run killed once its script had landed, and the next run; a store of a later build.\<close>

definition w_schema :: schema_store where
  "w_schema = \<lparr>ss_rows = None, ss_user_version = 0, ss_applied = [], ss_held = False, ss_open = 0, ss_ops = 0\<rparr>"

definition w_schema_env :: schema_env where
  "w_schema_env = \<lparr>se_current = CURRENT_VERSION, se_files = [1], se_locked = True, se_fault = (\<lambda>_. None)\<rparr>"

definition w_schema_cut :: schema_env where
  "w_schema_cut = w_schema_env\<lparr>se_fault := (\<lambda>n. if n = 12 then Some (True, Exn SqliteOperationalError ''disk I/O error'') else None)\<rparr>"

theorem migrations_resume_witness:
  "\<exists>s'. run_migrations w_schema_env (migration_runs [w_schema_cut] w_schema) = (Inr (), s') \<and> ss_rows s' = Some [1] \<and> ss_applied s' = [1]"
  using migrations_resume [of w_schema 1 "[w_schema_cut]" w_schema_env]
  by (simp add: fresh_schema_def w_schema_def w_schema_env_def w_schema_cut_def CURRENT_VERSION_def faulty_def)

theorem unsupported_store_refused_witness:
  "schema_data (snd (run_migrations w_schema_env (w_schema\<lparr>ss_rows := Some [2]\<rparr>))) = schema_data (w_schema\<lparr>ss_rows := Some [2]\<rparr>)
   \<and> schema_data (snd (run_migrations w_schema_env (w_schema\<lparr>ss_rows := Some [1, 1]\<rparr>))) = schema_data (w_schema\<lparr>ss_rows := Some [1, 1]\<rparr>)"
  using unsupported_store_refused [of "w_schema\<lparr>ss_rows := Some [2]\<rparr>" "[2]" w_schema_env StoreSchemaTooNew]
    unsupported_store_refused [of "w_schema\<lparr>ss_rows := Some [1, 1]\<rparr>" "[1, 1]" w_schema_env StoreCorrupt]
  by (auto simp: unsupported_def w_schema_env_def CURRENT_VERSION_def prod_eq_iff)

theorem schema_handles_released_witness:
  "ss_open (snd (run_migrations w_schema_cut w_schema)) = 0 \<and> \<not> ss_held (snd (run_migrations w_schema_cut w_schema))
   \<and> schema_data (snd (applied_migrations w_schema_cut True w_schema)) = schema_data w_schema"
  using schema_handles_released [of w_schema w_schema_cut "fst (run_migrations w_schema_cut w_schema)"
      "snd (run_migrations w_schema_cut w_schema)" True "fst (applied_migrations w_schema_cut True w_schema)"
      "snd (applied_migrations w_schema_cut True w_schema)"]
  by (simp add: w_schema_def)

text \<open>A legacy store at version 1 whose pragma read fails once, and a run without failures after it.\<close>

definition w_legacy :: schema_store where
  "w_legacy = w_schema\<lparr>ss_user_version := 1, ss_applied := [1]\<rparr>"

definition w_pragma_fails :: schema_env where
  "w_pragma_fails = w_schema_env\<lparr>se_locked := False,
     se_fault := (\<lambda>n. if n = 4 then Some (False, Exn SqliteOperationalError ''database is locked'') else None)\<rparr>"

definition w_behind :: schema_store where
  "w_behind = snd (run_migrations w_pragma_fails w_legacy)"

lemma legacy_healthy: "ss_rows (snd (run_migrations w_schema_env w_legacy)) = Some [1]"
  by code_simp

lemma behind_data: "schema_data w_behind = (Some [0], 1, [1])"
  by code_simp

theorem behind_store_stuck_witness:
  "schema_data w_behind = (Some [0], 1, [1]) \<and> fst (run_migrations w_schema_env w_behind) \<noteq> Inr ()
   \<and> schema_data (snd (run_migrations w_schema_env w_behind)) = (Some [0], 1, [1])"
  using behind_store_stuck [of w_behind 0 w_schema_env "fst (run_migrations w_schema_env w_behind)"
      "snd (run_migrations w_schema_env w_behind)"] behind_data
  by (auto simp: schema_data_def w_schema_env_def CURRENT_VERSION_def)

end
