(* ===== verification/Ini_File.thy ===== *)
theory Ini_File
  imports Py_Text
begin

text \<open>
  The standard library's \<open>configparser.ConfigParser()\<close>, as \<open>config.py\<close> uses it: the reader of
  an INI file (full-line comments with \<open>#\<close> and \<open>;\<close>, sections, options with \<open>=\<close> or
  \<open>:\<close>, indented continuation lines, duplicates refused) and the values it serves, with the
  \<open>DEFAULT\<close> section behind every section and the interpolation of \<open>%\<close>. A file is decoded before
  it is parsed. Every error of the module is a \<open>ConfigParserError\<close>.
\<close>

section \<open>Results\<close>

definition bindE :: "exn + 'a \<Rightarrow> ('a \<Rightarrow> exn + 'b) \<Rightarrow> exn + 'b" where
  "bindE r f = (case r of Inl e \<Rightarrow> Inl e | Inr a \<Rightarrow> f a)"

lemma bindE_simps [simp]: "bindE (Inr a) f = f a" "bindE (Inl e) f = Inl e"
  by (simp_all add: bindE_def)

lemma bindE_Inr: "bindE r f = Inr b \<longleftrightarrow> (\<exists>a. r = Inr a \<and> f a = Inr b)"
  by (cases r) auto

lemma bindE_Inl: "bindE r f = Inl e \<longleftrightarrow> r = Inl e \<or> (\<exists>a. r = Inr a \<and> f a = Inl e)"
  by (cases r) auto

definition the_default :: "'a \<Rightarrow> 'a option \<Rightarrow> 'a" where
  "the_default d x = (case x of None \<Rightarrow> d | Some a \<Rightarrow> a)"

section \<open>Lines\<close>

type_synonym dict = "(text_str \<times> text_str) list"

text \<open>The lines of a text file under universal newlines, without their terminators.\<close>

abbreviation LF :: char where "LF \<equiv> CHR 0x0A"
abbreviation CR :: char where "CR \<equiv> CHR 0x0D"

fun file_lines :: "text_str \<Rightarrow> text_str list" where
  "file_lines [] = []"
| "file_lines (c # s) =
     (if c = LF then [] # file_lines s
      else if c = CR then [] # file_lines (drop (if starts_with [LF] s then 1 else 0) s)
      else (case file_lines s of [] \<Rightarrow> [[c]] | l # ls \<Rightarrow> (c # l) # ls))"

lemma file_lines_line: "LF \<notin> set l \<Longrightarrow> CR \<notin> set l \<Longrightarrow> file_lines (l @ LF # s) = l # file_lines s"
  by (induction l) auto

definition indent_of :: "text_str \<Rightarrow> nat" where
  "indent_of line = (let n = length (takeWhile is_space line) in if n = length line then 0 else n)"

definition is_comment :: "text_str \<Rightarrow> bool" where
  "is_comment line = (case strip_str line of c # _ \<Rightarrow> c \<in> {CHR ''#'', CHR '';''} | [] \<Rightarrow> False)"

text \<open>\<open>SECTCRE.match\<close>: the name reaches to the last bracket.\<close>

definition section_header :: "text_str \<Rightarrow> text_str option" where
  "section_header v = (case v of
     c # r \<Rightarrow> (let name = rev (drop 1 (dropWhile (\<lambda>c. c \<noteq> CHR '']'') (rev r)))
               in if c = CHR ''['' \<and> CHR '']'' \<in> set r \<and> name \<noteq> [] then Some name else None)
   | [] \<Rightarrow> None)"

text \<open>\<open>_optcre.match\<close>: the option reaches to the first delimiter.\<close>

definition is_delimiter :: "char \<Rightarrow> bool" where
  "is_delimiter c \<longleftrightarrow> c \<in> {CHR ''='', CHR '':''}"

definition rstrip_str :: "text_str \<Rightarrow> text_str" where
  "rstrip_str s = rev (dropWhile is_space (rev s))"

definition option_line :: "text_str \<Rightarrow> (text_str \<times> text_str) option" where
  "option_line v =
     (case dropWhile (\<lambda>c. \<not> is_delimiter c) v of
        [] \<Rightarrow> None
      | _ # value \<Rightarrow> Some (rstrip_str (takeWhile (\<lambda>c. \<not> is_delimiter c) v), strip_str value))"

section \<open>The reader\<close>

definition DEFAULT_SECTION :: text_str where "DEFAULT_SECTION = ''DEFAULT''"

text \<open>Values are lists of lines until the end; \<open>rd_opt\<close> empty stands for no option.\<close>

record reader =
  rd_defaults :: "(text_str \<times> text_str list) list"
  rd_sections :: "(text_str \<times> (text_str \<times> text_str list) list) list"
  rd_cur :: "text_str option"
  rd_opt :: text_str
  rd_indent :: nat
  rd_seen :: "(text_str \<times> text_str) list"
  rd_bad :: bool

record ini =
  ini_defaults :: dict
  ini_sections :: "(text_str \<times> dict) list"

definition cur_options :: "reader \<Rightarrow> (text_str \<times> text_str list) list" where
  "cur_options r = (case rd_cur r of None \<Rightarrow> [] | Some sect \<Rightarrow>
     (case map_of (rd_sections r) sect of None \<Rightarrow> rd_defaults r | Some d \<Rightarrow> d))"

definition put_option :: "text_str \<Rightarrow> text_str list \<Rightarrow> reader \<Rightarrow> reader" where
  "put_option opt lines r = (case rd_cur r of None \<Rightarrow> r | Some sect \<Rightarrow>
     let options = dict_set opt lines (cur_options r)
     in if map_of (rd_sections r) sect = None then r\<lparr>rd_defaults := options\<rparr>
        else r\<lparr>rd_sections := dict_set sect options (rd_sections r)\<rparr>)"

definition append_value :: "text_str \<Rightarrow> reader \<Rightarrow> reader" where
  "append_value v r = put_option (rd_opt r) (the_default [] (map_of (cur_options r) (rd_opt r)) @ [v]) r"

definition open_section :: "text_str \<Rightarrow> reader \<Rightarrow> exn + reader" where
  "open_section name r =
     (if map_of (rd_sections r) name \<noteq> None then Inl (Exn ConfigParserError ''DuplicateSectionError'')
      else if name = DEFAULT_SECTION then Inr (r\<lparr>rd_cur := Some name, rd_opt := []\<rparr>)
      else Inr (r\<lparr>rd_sections := rd_sections r @ [(name, [])], rd_cur := Some name, rd_opt := []\<rparr>))"

definition read_option :: "text_str \<Rightarrow> reader \<Rightarrow> exn + reader" where
  "read_option v r = (case rd_cur r of
     None \<Rightarrow> Inl (Exn ConfigParserError ''MissingSectionHeaderError'')
   | Some sect \<Rightarrow> (case option_line v of
       None \<Rightarrow> Inr (r\<lparr>rd_bad := True\<rparr>)
     | Some (opt, value) \<Rightarrow>
         let r = (if opt = [] then r\<lparr>rd_bad := True\<rparr> else r); opt = lower_str opt
         in if (sect, opt) \<in> set (rd_seen r) then Inl (Exn ConfigParserError ''DuplicateOptionError'')
            else Inr (put_option opt [value] (r\<lparr>rd_opt := opt, rd_seen := (sect, opt) # rd_seen r\<rparr>))))"

definition read_line :: "text_str \<Rightarrow> reader \<Rightarrow> exn + reader" where
  "read_line line r =
     (let value = strip_str line; indent = indent_of line
      in if is_comment line then Inr r
         else if value = [] then Inr (if rd_cur r \<noteq> None \<and> rd_opt r \<noteq> [] then append_value [] r else r)
         else if rd_cur r \<noteq> None \<and> rd_opt r \<noteq> [] \<and> rd_indent r < indent then Inr (append_value value r)
         else let r = r\<lparr>rd_indent := indent\<rparr>
              in case section_header value of Some name \<Rightarrow> open_section name r | None \<Rightarrow> read_option value r)"

fun read_lines :: "text_str list \<Rightarrow> reader \<Rightarrow> exn + reader" where
  "read_lines [] r = Inr r"
| "read_lines (l # ls) r = bindE (read_line l r) (read_lines ls)"

definition new_reader :: reader where
  "new_reader = \<lparr>rd_defaults = [], rd_sections = [], rd_cur = None, rd_opt = [], rd_indent = 0, rd_seen = [], rd_bad = False\<rparr>"

definition join_values :: "(text_str \<times> text_str list) list \<Rightarrow> dict" where
  "join_values = map (\<lambda>(k, ls). (k, rstrip_str (join_str [LF] ls)))"

definition finish_read :: "reader \<Rightarrow> exn + ini" where
  "finish_read r =
     (if rd_bad r then Inl (Exn ConfigParserError ''ParsingError'')
      else Inr \<lparr>ini_defaults = join_values (rd_defaults r),
                ini_sections = map (\<lambda>(n, d). (n, join_values d)) (rd_sections r)\<rparr>)"

definition parse_ini :: "text_str \<Rightarrow> exn + ini" where
  "parse_ini s = bindE (read_lines (file_lines s) new_reader) finish_read"

definition decode_ini :: "bytes \<Rightarrow> exn + ini" where
  "decode_ini b = (if is_utf8 b then parse_ini b else Inl (Exn UnicodeDecodeError ''invalid utf-8''))"

definition empty_ini :: ini where
  "empty_ini = \<lparr>ini_defaults = [], ini_sections = []\<rparr>"

section \<open>Served values\<close>

definition has_section :: "ini \<Rightarrow> text_str \<Rightarrow> bool" where
  "has_section c name \<longleftrightarrow> map_of (ini_sections c) name \<noteq> None"

text \<open>\<open>options\<close>: the section's own, then the defaults it lacks.\<close>

definition section_options :: "ini \<Rightarrow> text_str \<Rightarrow> dict" where
  "section_options c name = (let own = the_default [] (map_of (ini_sections c) name)
     in own @ filter (\<lambda>(k, _). map_of own k = None) (ini_defaults c))"

text \<open>\<open>BasicInterpolation\<close>: \<open>%%\<close>, \<open>%(name)s\<close> up to depth 10, anything else after
  \<open>%\<close> is an error.\<close>

fun interpolate :: "nat \<Rightarrow> dict \<Rightarrow> text_str \<Rightarrow> exn + text_str" where
  "interpolate 0 d s = Inl (Exn ConfigParserError ''InterpolationDepthError'')"
| "interpolate (Suc k) d [] = Inr []"
| "interpolate (Suc k) d (c # s) =
     (if c \<noteq> CHR ''%'' then bindE (interpolate (Suc k) d s) (\<lambda>t. Inr (c # t))
      else case s of
        [] \<Rightarrow> Inl (Exn ConfigParserError ''InterpolationSyntaxError'')
      | b # r \<Rightarrow>
          if b = CHR ''%'' then bindE (interpolate (Suc k) d r) (\<lambda>t. Inr (CHR ''%'' # t))
          else if b = CHR ''('' then
            let var = takeWhile (\<lambda>c. c \<noteq> CHR '')'') r; rest = drop (length var) r
            in if var = [] \<or> \<not> starts_with '')s'' rest then Inl (Exn ConfigParserError ''InterpolationSyntaxError'')
               else (case map_of d (lower_str var) of
                   None \<Rightarrow> Inl (Exn ConfigParserError ''InterpolationMissingOptionError'')
                 | Some v \<Rightarrow>
                     bindE (if CHR ''%'' \<in> set v then interpolate k d v else Inr v) (\<lambda>t.
                     bindE (interpolate (Suc k) d (drop 2 rest)) (\<lambda>u. Inr (t @ u))))
          else Inl (Exn ConfigParserError ''InterpolationSyntaxError''))"

definition MAX_INTERPOLATION_DEPTH :: nat where "MAX_INTERPOLATION_DEPTH = 10"

definition section_get :: "ini \<Rightarrow> text_str \<Rightarrow> text_str \<Rightarrow> exn + text_str option" where
  "section_get c name key =
     (let d = section_options c name
      in case map_of d key of
           None \<Rightarrow> Inr None
         | Some v \<Rightarrow> bindE (interpolate MAX_INTERPOLATION_DEPTH d v) (\<lambda>t. Inr (Some t)))"

text \<open>\<open>items()\<close> of a section; the first value that does not interpolate raises.\<close>

fun interpolate_all :: "dict \<Rightarrow> dict \<Rightarrow> exn + dict" where
  "interpolate_all d [] = Inr []"
| "interpolate_all d ((k, v) # kvs) =
     bindE (interpolate MAX_INTERPOLATION_DEPTH d v) (\<lambda>t. bindE (interpolate_all d kvs) (\<lambda>r. Inr ((k, t) # r)))"

definition section_items :: "ini \<Rightarrow> text_str \<Rightarrow> exn + dict" where
  "section_items c name = interpolate_all (section_options c name) (section_options c name)"

lemma interpolate_plain: "CHR ''%'' \<notin> set s \<Longrightarrow> interpolate (Suc k) d s = Inr s"
  by (induction s) auto

end
