(* ===== verification/Py_Float.thy ===== *)
theory Py_Float
  imports Py_Text
begin

text \<open>
  Python floats as the code uses them: the IEEE 754 binary64 values \<open>sign * m * 2 ^ e\<close>, the
  infinities and NaN, rounding to the nearest value with ties to even, \<open>float(text)\<close> on ASCII
  text, multiplication, and \<open>int(x)\<close>, which raises on the infinities and on NaN.
\<close>

section \<open>Values and rounding\<close>

text \<open>\<open>Finite s m e\<close> is \<open>m * 2 ^ e\<close>, negated when \<open>s\<close>; a value has one representation.\<close>

datatype py_float = Finite bool nat int | Infinite bool | NotANumber

fun bit_len :: "nat \<Rightarrow> nat" where
  "bit_len n = (if n = 0 then 0 else Suc (bit_len (n div 2)))"

declare bit_len.simps [simp del]

definition round_div :: "nat \<Rightarrow> nat \<Rightarrow> nat" where
  "round_div n d =
     (let q = n div d; r = n mod d
      in if 2 * r < d then q else if d < 2 * r then q + 1 else if even q then q else q + 1)"

text \<open>\<open>scaled n d e\<close> is \<open>n / d / 2 ^ e\<close> as a fraction.\<close>

definition scaled :: "nat \<Rightarrow> nat \<Rightarrow> int \<Rightarrow> nat \<times> nat" where
  "scaled n d e = (if 0 \<le> e then (n, d * 2 ^ nat e) else (n * 2 ^ nat (- e), d))"

text \<open>The value nearest to \<open>n / d\<close>: 53 bits of mantissa, exponents from -1074 to 971.\<close>

definition nearest :: "bool \<Rightarrow> nat \<Rightarrow> nat \<Rightarrow> py_float" where
  "nearest s n d =
     (if n = 0 then Finite s 0 0
      else let e0 = int (bit_len n) - int (bit_len d) - 53;
               (n0, d0) = scaled n d e0;
               e1 = max (if d0 * 2 ^ 53 \<le> n0 then e0 + 1 else e0) (- 1074);
               (n1, d1) = scaled n d e1;
               m = round_div n1 d1;
               (m, e) = (if m = 2 ^ 53 then (2 ^ 52, e1 + 1) else (m, e1))
           in if m = 0 then Finite s 0 0 else if 971 < e then Infinite s else Finite s m e)"

definition float_of_nat :: "nat \<Rightarrow> py_float" where
  "float_of_nat n = nearest False n 1"

section \<open>Operations\<close>

definition times_pow2 :: "nat \<Rightarrow> int \<Rightarrow> nat \<times> nat" where
  "times_pow2 m e = (if 0 \<le> e then (m * 2 ^ nat e, 1) else (m, 2 ^ nat (- e)))"

fun float_mul :: "py_float \<Rightarrow> py_float \<Rightarrow> py_float" where
  "float_mul (Finite s m e) (Finite s' m' e') =
     (let (n, d) = times_pow2 (m * m') (e + e') in nearest (s \<noteq> s') n d)"
| "float_mul (Finite s m e) (Infinite s') = (if m = 0 then NotANumber else Infinite (s \<noteq> s'))"
| "float_mul (Infinite s) (Finite s' m e) = (if m = 0 then NotANumber else Infinite (s \<noteq> s'))"
| "float_mul (Infinite s) (Infinite s') = Infinite (s \<noteq> s')"
| "float_mul _ _ = NotANumber"

fun float_to_int :: "py_float \<Rightarrow> exn + int" where
  "float_to_int (Finite s m e) = (let (n, d) = times_pow2 m e; i = int (n div d) in Inr (if s then - i else i))"
| "float_to_int (Infinite s) = Inl (Exn OverflowError ''cannot convert float infinity to integer'')"
| "float_to_int NotANumber = Inl (Exn ValueError ''cannot convert float NaN to integer'')"

section \<open>Text\<close>

definition is_digit :: "char \<Rightarrow> bool" where
  "is_digit c \<longleftrightarrow> 48 \<le> (of_char c :: nat) \<and> (of_char c :: nat) < 58"

text \<open>Digits with single underscores between them, as the lexer of \<open>float\<close> accepts them.\<close>

fun digit_groups :: "text_str \<Rightarrow> text_str option" where
  "digit_groups [] = None"
| "digit_groups [c] = (if is_digit c then Some [c] else None)"
| "digit_groups (c # d # s) =
     (if \<not> is_digit c then None
      else map_option ((#) c) (digit_groups (if d = CHR ''_'' then s else d # s)))"

lemma digits_groups: "list_all is_digit t \<Longrightarrow> t \<noteq> [] \<Longrightarrow> digit_groups t = Some t"
proof (induction t rule: digit_groups.induct)
  case (3 c d s)
  then have "d \<noteq> CHR ''_''" by (auto simp: is_digit_def)
  with 3 show ?case by auto
qed auto

text \<open>The decimal \<open>i.f * 10 ^ x\<close>; one of the two digit strings may be empty.\<close>

definition decimal :: "bool \<Rightarrow> text_str \<Rightarrow> text_str \<Rightarrow> int \<Rightarrow> py_float" where
  "decimal s i f x =
     (let n = undec_str (i @ f); y = x - int (length f)
      in if 0 \<le> y then nearest s (n * 10 ^ nat y) 1 else nearest s n (10 ^ nat (- y)))"

definition optional_digits :: "text_str \<Rightarrow> text_str option" where
  "optional_digits s = (if s = [] then Some [] else digit_groups s)"

definition parse_mantissa :: "text_str \<Rightarrow> (text_str \<times> text_str) option" where
  "parse_mantissa s = (case split_at CHR ''.'' s of
       [i] \<Rightarrow> map_option (\<lambda>i. (i, [])) (digit_groups i)
     | [i, f] \<Rightarrow> if i = [] \<and> f = [] then None
         else (case (optional_digits i, optional_digits f) of (Some i, Some f) \<Rightarrow> Some (i, f) | _ \<Rightarrow> None)
     | _ \<Rightarrow> None)"

definition signed_text :: "text_str \<Rightarrow> bool \<times> text_str" where
  "signed_text s = (case s of c # r \<Rightarrow> if c = CHR ''-'' then (True, r) else if c = CHR ''+'' then (False, r) else (False, s) | [] \<Rightarrow> (False, s))"

definition parse_exponent :: "text_str \<Rightarrow> int option" where
  "parse_exponent s = (let (neg, d) = signed_text s
     in map_option (\<lambda>d. if neg then - int (undec_str d) else int (undec_str d)) (digit_groups d))"

definition parse_unsigned :: "bool \<Rightarrow> text_str \<Rightarrow> py_float option" where
  "parse_unsigned s t =
     (if t \<in> {''inf'', ''infinity''} then Some (Infinite s)
      else if t = ''nan'' then Some NotANumber
      else case split_at CHR ''e'' t of
          [m] \<Rightarrow> map_option (\<lambda>(i, f). decimal s i f 0) (parse_mantissa m)
        | [m, x] \<Rightarrow> (case (parse_mantissa m, parse_exponent x) of
              (Some (i, f), Some x) \<Rightarrow> Some (decimal s i f x) | _ \<Rightarrow> None)
        | _ \<Rightarrow> None)"

definition py_float_of :: "text_str \<Rightarrow> exn + py_float" where
  "py_float_of raw = (case signed_text (lower_str (strip_str raw)) of (s, t) \<Rightarrow>
     (case parse_unsigned s t of
        None \<Rightarrow> Inl (Exn ValueError ''could not convert string to float'')
      | Some x \<Rightarrow> Inr x))"

section \<open>Small integers and their binary multiples are exact\<close>

lemma bit_len_0 [simp]: "bit_len 0 = 0"
  by (simp add: bit_len.simps)

lemma bit_len_1 [simp]: "bit_len 1 = 1" "bit_len (Suc 0) = 1"
  by (simp_all add: bit_len.simps)

lemma bit_len_bounds: "0 < n \<Longrightarrow> 2 ^ (bit_len n - 1) \<le> n \<and> n < 2 ^ bit_len n \<and> 0 < bit_len n"
proof (induction n rule: bit_len.induct)
  case (1 n)
  show ?case
  proof (cases "n = 1")
    case True
    then show ?thesis by (simp add: bit_len.simps)
  next
    case False
    with 1 have half: "0 < n div 2" and ih: "2 ^ (bit_len (n div 2) - 1) \<le> n div 2 \<and> n div 2 < 2 ^ bit_len (n div 2) \<and> 0 < bit_len (n div 2)"
      by auto
    have len: "bit_len n = Suc (bit_len (n div 2))" using 1 by (subst bit_len.simps) simp
    have "2 ^ bit_len (n div 2) = 2 * (2 :: nat) ^ (bit_len (n div 2) - 1)"
      using ih by (cases "bit_len (n div 2)") auto
    then have "2 ^ bit_len (n div 2) \<le> n" and "n < 2 * 2 ^ bit_len (n div 2)"
      using ih by linarith+
    then show ?thesis by (simp add: len)
  qed
qed

lemma bit_len_unique:
  assumes "2 ^ k \<le> n" and "n < 2 ^ Suc k"
  shows "bit_len n = Suc k"
proof -
  have "0 < n" using assms(1) by (rule less_le_trans [rotated]) simp
  then have b: "2 ^ (bit_len n - 1) \<le> n" "n < 2 ^ bit_len n" "0 < bit_len n" using bit_len_bounds by auto
  have "(2 :: nat) ^ k < 2 ^ bit_len n" by (rule le_less_trans [OF assms(1) b(2)])
  moreover have "(2 :: nat) ^ (bit_len n - 1) < 2 ^ Suc k" by (rule le_less_trans [OF b(1) assms(2)])
  ultimately have "k < bit_len n" and "bit_len n - 1 < Suc k"
    by (simp_all only: power_strict_increasing_iff one_less_numeral_iff semiring_norm)
  with b(3) show ?thesis by linarith
qed

lemma bit_len_shift: "0 < n \<Longrightarrow> bit_len (n * 2 ^ a) = bit_len n + a"
proof -
  assume "0 < n"
  then have b: "2 ^ (bit_len n - 1) \<le> n" "n < 2 ^ bit_len n" "0 < bit_len n" using bit_len_bounds by auto
  have "2 ^ (bit_len n - 1 + a) \<le> n * 2 ^ a" using b(1) by (simp add: power_add)
  moreover have "n * 2 ^ a < 2 ^ (bit_len n + a)" using b(2) by (simp add: power_add)
  then have "n * 2 ^ a < 2 ^ Suc (bit_len n - 1 + a)" using b(3) by (cases "bit_len n") auto
  ultimately have "bit_len (n * 2 ^ a) = Suc (bit_len n - 1 + a)" by (rule bit_len_unique)
  with b(3) show ?thesis by simp
qed

lemma round_div_exact: "0 < d \<Longrightarrow> round_div (q * d) d = q"
  by (simp add: round_div_def Let_def)

text \<open>\<open>dyadic n k\<close>: the value \<open>n * 2 ^ k\<close> with 53 bits of mantissa.\<close>

definition dyadic :: "nat \<Rightarrow> int \<Rightarrow> py_float" where
  "dyadic n k = Finite False (n * 2 ^ (53 - bit_len n)) (k + int (bit_len n) - 53)"

lemma scaled_pow2:
  "\<exists>a' b'. scaled (n * 2 ^ a) (2 ^ b) e = (n * 2 ^ a', 2 ^ b') \<and> int a' - int b' = int a - int b - e"
proof (cases "0 \<le> e")
  case True
  then show ?thesis
    by (intro exI [of _ a] exI [of _ "b + nat e"]) (simp add: scaled_def power_add)
next
  case False
  then show ?thesis
    by (intro exI [of _ "a + nat (- e)"] exI [of _ b]) (simp add: scaled_def power_add)
qed

lemma nearest_dyadic:
  assumes n: "0 < n" "n < 2 ^ 53" and k: "k = int a - int b" and range: "- 1021 \<le> k" "k + int (bit_len n) \<le> 1024"
  shows "nearest False (n * 2 ^ a) (2 ^ b) = dyadic n k"
proof -
  define L where "L = bit_len n"
  have b: "2 ^ (L - 1) \<le> n" "n < 2 ^ L" "0 < L" using bit_len_bounds [OF n(1)] by (auto simp: L_def)
  have L53: "L \<le> 53"
  proof (rule ccontr)
    assume "\<not> L \<le> 53"
    then have "(2 :: nat) ^ 53 \<le> 2 ^ (L - 1)" by (intro power_increasing) auto
    with b(1) n(2) show False by simp
  qed
  have lens: "bit_len (n * 2 ^ a) = L + a" "bit_len (2 ^ b) = b + 1"
    using bit_len_shift [OF n(1), of a] bit_len_shift [of 1 b] by (simp_all add: L_def)
  define e0 where "e0 = k + int L - 54"
  have e0: "int (bit_len (n * 2 ^ a)) - int (bit_len (2 ^ b)) - 53 = e0"
    using k by (simp add: lens e0_def)
  obtain a0 b0 where s0: "scaled (n * 2 ^ a) (2 ^ b) e0 = (n * 2 ^ a0, 2 ^ b0)" and d0: "int a0 - int b0 = k - e0"
    using scaled_pow2 [of n a b e0] k by auto
  have a0: "a0 = b0 + (54 - L)" using d0 L53 by (simp add: e0_def)
  have top: "2 ^ b0 * 2 ^ 53 \<le> n * 2 ^ a0"
  proof -
    have "b0 + 53 = L - 1 + a0" using b(3) L53 by (simp add: a0)
    then have "(2 :: nat) ^ b0 * 2 ^ 53 = 2 ^ (L - 1) * 2 ^ a0" by (simp only: power_add [symmetric])
    then show ?thesis using b(1) by simp
  qed
  have e1: "max (if 2 ^ b0 * 2 ^ 53 \<le> n * 2 ^ a0 then e0 + 1 else e0) (- 1074) = e0 + 1"
    using top range(1) b(3) by (simp add: e0_def)
  obtain a1 b1 where s1: "scaled (n * 2 ^ a) (2 ^ b) (e0 + 1) = (n * 2 ^ a1, 2 ^ b1)" and d1: "int a1 - int b1 = k - (e0 + 1)"
    using scaled_pow2 [of n a b "e0 + 1"] k by auto
  have "a1 = b1 + (53 - L)" using d1 L53 by (simp add: e0_def)
  then have "n * 2 ^ a1 = n * 2 ^ (53 - L) * 2 ^ b1" by (simp add: power_add)
  then have m: "round_div (n * 2 ^ a1) (2 ^ b1) = n * 2 ^ (53 - L)" by (simp only: round_div_exact zero_less_power zero_less_numeral)
  have "n * 2 ^ (53 - L) < 2 ^ L * 2 ^ (53 - L)" using b(2) by simp
  also have "(2 :: nat) ^ L * 2 ^ (53 - L) = 2 ^ 53" using L53 by (simp flip: power_add)
  finally have small: "n * 2 ^ (53 - L) < 2 ^ 53" .
  show ?thesis
    using n(1) small range(2) e1 unfolding nearest_def Let_def e0 s0 prod.case e1 s1 m
    by (simp add: dyadic_def e0_def flip: L_def)
qed

lemma bit_len_53: "0 < n \<Longrightarrow> n < 2 ^ 53 \<Longrightarrow> 0 < bit_len n \<and> bit_len n \<le> 53"
proof -
  assume n: "0 < n" "n < 2 ^ 53"
  have "\<not> 53 < bit_len n"
  proof
    assume "53 < bit_len n"
    then have "(2 :: nat) ^ 53 \<le> 2 ^ (bit_len n - 1)" by (intro power_increasing) auto
    then show False using bit_len_bounds [OF n(1)] n(2) by simp
  qed
  then show ?thesis using bit_len_bounds [OF n(1)] by simp
qed

lemma float_of_nat_dyadic: "0 < n \<Longrightarrow> n < 2 ^ 53 \<Longrightarrow> a \<le> 900 \<Longrightarrow> float_of_nat (n * 2 ^ a) = dyadic n (int a)"
  using nearest_dyadic [of n "int a" a 0] bit_len_53 [of n] by (simp add: float_of_nat_def)

lemma times_pow2_dyadic: "\<exists>a b. times_pow2 (n * 2 ^ c) e = (n * 2 ^ a, 2 ^ b) \<and> int a - int b = int c + e"
proof (cases "0 \<le> e")
  case True
  then show ?thesis by (intro exI [of _ "c + nat e"] exI [of _ 0]) (simp add: times_pow2_def power_add)
next
  case False
  then show ?thesis by (intro exI [of _ c] exI [of _ "nat (- e)"]) (simp add: times_pow2_def)
qed

lemma mul_dyadic:
  assumes "0 < n" and "n < 2 ^ 53" and "j \<le> 900"
  shows "float_mul (dyadic n 0) (dyadic 1 (int j)) = dyadic n (int j)"
proof -
  define L where "L = bit_len n"
  have L: "0 < L" "L \<le> 53" using bit_len_53 [OF assms(1,2)] by (auto simp: L_def)
  have factors: "dyadic n 0 = Finite False (n * 2 ^ (53 - L)) (int L - 53)" "dyadic 1 (int j) = Finite False (2 ^ 52) (int j - 52)"
    by (simp_all add: dyadic_def L_def)
  have prod: "n * 2 ^ (53 - L) * 2 ^ 52 = n * 2 ^ (53 - L + 52)" by (simp only: power_add mult.assoc)
  obtain a b where t: "times_pow2 (n * 2 ^ (53 - L + 52)) (int L - 53 + (int j - 52)) = (n * 2 ^ a, 2 ^ b)"
    and ab: "int a - int b = int (53 - L + 52) + (int L - 53 + (int j - 52))"
    using times_pow2_dyadic by blast
  have "int j = int a - int b" using ab L by simp
  then have "nearest False (n * 2 ^ a) (2 ^ b) = dyadic n (int j)"
    using nearest_dyadic [OF assms(1,2), of "int j" a b] assms(3) L by (simp add: L_def)
  then show ?thesis unfolding factors float_mul.simps prod t by simp
qed

lemma to_int_dyadic:
  assumes "0 < n" and "n < 2 ^ 53"
  shows "float_to_int (dyadic n (int j)) = Inr (int (n * 2 ^ j))"
proof -
  define L where "L = bit_len n"
  have L: "0 < L" "L \<le> 53" using bit_len_53 [OF assms] by (auto simp: L_def)
  obtain a b where t: "times_pow2 (n * 2 ^ (53 - L)) (int j + int L - 53) = (n * 2 ^ a, 2 ^ b)"
    and ab: "int a - int b = int (53 - L) + (int j + int L - 53)"
    using times_pow2_dyadic by blast
  have "a = j + b" using ab L by simp
  then have "n * 2 ^ a div 2 ^ b = n * 2 ^ j" by (simp add: power_add)
  with t show ?thesis by (simp add: dyadic_def flip: L_def)
qed

text \<open>Text: a decimal numeral is the float nearest to it.\<close>

lemma bit_len_mono: "m \<le> n \<Longrightarrow> bit_len m \<le> bit_len n"
proof (cases "m = 0")
  case False
  assume "m \<le> n"
  with False have b: "2 ^ (bit_len m - 1) \<le> m" "n < 2 ^ bit_len n" "0 < bit_len m" using bit_len_bounds by auto
  have "(2 :: nat) ^ (bit_len m - 1) < 2 ^ bit_len n" using b \<open>m \<le> n\<close> by linarith
  then have "bit_len m - 1 < bit_len n" by (rule power_less_imp_less_exp [rotated]) simp
  with b(3) show ?thesis by linarith
qed simp

lemma nearest_overflow:
  assumes "2 ^ 1026 \<le> n"
  shows "nearest s n 1 = Infinite s"
proof -
  have "bit_len (2 ^ 1026) = 1027" using bit_len_unique [of 1026 "2 ^ 1026"] by simp
  then have len: "1027 \<le> bit_len n" using bit_len_mono [OF assms] by linarith
  have "0 < n" using assms by (rule less_le_trans [rotated]) simp
  define e0 where "e0 = int (bit_len n) - 1 - 53"
  have e0: "973 \<le> e0" using len by (simp add: e0_def)
  have sc: "scaled n 1 e = (n, 2 ^ nat e)" if "0 \<le> e" for e using that by (simp add: scaled_def)
  define e1 where "e1 = max (if 2 ^ nat e0 * 2 ^ 53 \<le> n then e0 + 1 else e0) (- 1074)"
  have e1: "973 \<le> e1" "e1 \<le> e0 + 1" using e0 by (auto simp: e1_def)
  have "nat e1 \<le> bit_len n - 1" using e1 len by (simp add: e0_def)
  then have "(2 :: nat) ^ nat e1 \<le> 2 ^ (bit_len n - 1)" by (intro power_increasing) auto
  also have "\<dots> \<le> n" using bit_len_bounds [OF \<open>0 < n\<close>] by simp
  finally have "1 \<le> n div 2 ^ nat e1" by (simp add: div_greater_zero_iff Suc_le_eq)
  then have "round_div n (2 ^ nat e1) \<noteq> 0" by (auto simp: round_div_def Let_def)
  moreover have "nearest s n 1 = (let m = round_div n (2 ^ nat e1); (m, e) = (if m = 2 ^ 53 then (2 ^ 52, e1 + 1) else (m, e1))
      in if m = 0 then Finite s 0 0 else if 971 < e then Infinite s else Finite s m e)"
    using \<open>0 < n\<close> e0 e1 unfolding nearest_def bit_len_1 Let_def of_nat_1 e0_def [symmetric]
    by (cases "2 ^ nat e0 * 2 ^ 53 \<le> n") (simp_all add: sc [simplified] e1_def)
  ultimately show ?thesis using e1 by (simp add: Let_def)
qed

text \<open>Every result has at most 53 bits: \<open>below n d z\<close> is \<open>n / d < 2 ^ z\<close>.\<close>

definition below :: "nat \<Rightarrow> nat \<Rightarrow> int \<Rightarrow> bool" where
  "below n d z \<longleftrightarrow> n * 2 ^ nat (- z) < d * 2 ^ nat z"

lemma below_iff:
  assumes "int q - int p = z"
  shows "n * 2 ^ p < d * 2 ^ q \<longleftrightarrow> below n d z"
proof -
  define r where "r = min p q"
  have "p = nat (- z) + r" and "q = nat z + r" using assms by (auto simp: r_def min_def)
  then have "n * 2 ^ p = n * 2 ^ nat (- z) * 2 ^ r" and "d * 2 ^ q = d * 2 ^ nat z * 2 ^ r"
    by (simp_all only: power_add mult.assoc)
  then show ?thesis by (simp only: below_def mult_less_cancel2) simp
qed

lemma below_mono:
  assumes "below n d z" and "z \<le> z'"
  shows "below n d z'"
proof -
  have "n * 2 ^ nat (- z') \<le> n * 2 ^ nat (- z)" and "d * 2 ^ nat z \<le> d * 2 ^ nat z'"
    using assms(2) by (auto intro!: mult_le_mono power_increasing)
  with assms(1) show ?thesis unfolding below_def by linarith
qed

lemma scaled_below:
  assumes "scaled n d e = (a, b)"
  shows "a < b * 2 ^ k \<longleftrightarrow> below n d (e + int k)"
proof (cases "0 \<le> e")
  case True
  with assms have "a = n * 2 ^ 0" and "b * 2 ^ k = d * 2 ^ (nat e + k)" by (auto simp: scaled_def power_add)
  with True show ?thesis using below_iff [of "nat e + k" 0 "e + int k" n d] by simp
next
  case False
  with assms have "a = n * 2 ^ nat (- e)" and "b * 2 ^ k = d * 2 ^ k" by (auto simp: scaled_def)
  with False show ?thesis using below_iff [of k "nat (- e)" "e + int k" n d] by simp
qed

lemma below_bit_len:
  assumes "0 < n" and "0 < d"
  shows "below n d (int (bit_len n) - int (bit_len d) + 1)"
proof -
  have n: "n < 2 ^ bit_len n" and d: "2 ^ (bit_len d - 1) \<le> d" "0 < bit_len d"
    using bit_len_bounds assms by auto
  have "n * 2 ^ (bit_len d - 1) < 2 ^ bit_len n * 2 ^ (bit_len d - 1)" using n by simp
  also have "\<dots> \<le> d * 2 ^ bit_len n" using d(1) by (simp add: mult.commute)
  finally show ?thesis using d(2) by (subst (asm) below_iff [OF refl]) (simp add: of_nat_diff algebra_simps)
qed

lemma round_div_below: "a < b * k \<Longrightarrow> round_div a b \<le> k"
proof -
  assume "a < b * k"
  then have "a div b < k" by (simp add: less_mult_imp_div_less mult.commute)
  then show ?thesis by (auto simp: round_div_def Let_def)
qed

lemma nearest_form:
  assumes "0 < d"
  shows "nearest s n d = Infinite s \<or> (\<exists>m e. nearest s n d = Finite s m e \<and> m < 2 ^ 53 \<and> e \<le> 971 \<and> (m = 0 \<longrightarrow> e = 0))"
proof (cases "n = 0")
  case True
  then show ?thesis by (simp add: nearest_def)
next
  case False
  define e0 where "e0 = int (bit_len n) - int (bit_len d) - 53"
  obtain n0 d0 where s0: "scaled n d e0 = (n0, d0)" by fastforce
  define e1 where "e1 = max (if d0 * 2 ^ 53 \<le> n0 then e0 + 1 else e0) (- 1074)"
  obtain n1 d1 where s1: "scaled n d e1 = (n1, d1)" by fastforce
  have "below n d (e1 + 53)"
  proof (cases "d0 * 2 ^ 53 \<le> n0")
    case True
    have "e0 + 54 = int (bit_len n) - int (bit_len d) + 1" by (simp add: e0_def)
    then have "below n d (e0 + 54)" using below_bit_len [of n d] \<open>n \<noteq> 0\<close> assms by (simp only: neq0_conv)
    then show ?thesis by (rule below_mono) (use True in \<open>simp add: e1_def\<close>)
  next
    case False
    then have "below n d (e0 + 53)" using scaled_below [OF s0, of 53] by simp
    then show ?thesis by (rule below_mono) (auto simp: e1_def max_def)
  qed
  then have "n1 < d1 * 2 ^ 53" using scaled_below [OF s1, of 53] by simp
  then have "round_div n1 d1 \<le> 2 ^ 53" by (rule round_div_below)
  moreover have "nearest s n d = (let m = round_div n1 d1; (m, e) = (if m = 2 ^ 53 then (2 ^ 52, e1 + 1) else (m, e1))
      in if m = 0 then Finite s 0 0 else if 971 < e then Infinite s else Finite s m e)"
    using False unfolding nearest_def Let_def e0_def [symmetric] s0 prod.case e1_def [symmetric] s1 by simp
  ultimately show ?thesis by (auto simp: Let_def)
qed

lemma of_int_to_int:
  assumes "m < 2 ^ 53" and "e \<le> 971" and "float_to_int (Finite False m e) = Inr i"
  shows "0 \<le> i \<and> nearest False (nat i) 1 \<noteq> Infinite False \<and> float_to_int (nearest False (nat i) 1) = Inr i"
proof -
  obtain k j where nk: "nat i = k * 2 ^ j" "k < 2 ^ 53" "j \<le> 971" and i: "0 \<le> i"
  proof (cases "0 \<le> e")
    case True
    then have "i = int (m * 2 ^ nat e)" using assms(3) by (simp add: times_pow2_def)
    then have "nat i = m * 2 ^ nat e" and "0 \<le> i" by (simp_all only: nat_int of_nat_0_le_iff)
    with True assms(1,2) show ?thesis by (intro that [of m "nat e"]) simp_all
  next
    case False
    then have "i = int (m div 2 ^ nat (- e))" using assms(3) by (simp add: times_pow2_def)
    moreover have "m div 2 ^ nat (- e) < 2 ^ 53" by (rule le_less_trans [OF div_le_dividend assms(1)])
    ultimately show ?thesis using that [of "m div 2 ^ nat (- e)" 0] assms(1) by simp
  qed
  show ?thesis
  proof (cases "k = 0")
    case True
    with nk i show ?thesis by (simp add: nearest_def times_pow2_def)
  next
    case False
    then have "nearest False (nat i) 1 = dyadic k (int j)"
      using nearest_dyadic [of k "int j" j 0] bit_len_53 [of k] nk by simp
    moreover have "float_to_int (dyadic k (int j)) = Inr (int (k * 2 ^ j))"
      using to_int_dyadic [of k j] nk(2) False by simp
    moreover have "int (k * 2 ^ j) = i" using i nk(1) by linarith
    ultimately show ?thesis using i by (simp add: dyadic_def)
  qed
qed

end
