(* ===== verification/Cli_Config.thy ===== *)
theory Cli_Config
  imports Ini_File Py_Float Domain_Model
begin

text \<open>
  The configuration of the command line (\<open>config.py\<close>): where the file is, reading, checking and
  creating it, and the precedence by which each setting is resolved. The environment is a record: the
  variables, the platform's path operations and the files. Text is ASCII where the code changes its
  case or strips it; the messages of the errors are shortened.
\<close>

section \<open>Environment and constants\<close>

datatype config_file = No_File | Unreadable_File | Text_File bytes

text \<open>\<open>ce_join a b\<close> is \<open>str(Path(a) / b)\<close>; \<open>ce_write p\<close> the failure to create \<open>p\<close>, if any.\<close>

record config_env =
  ce_nt :: bool
  ce_vars :: "text_str \<Rightarrow> text_str option"
  ce_home :: text_str
  ce_join :: "text_str \<Rightarrow> text_str \<Rightarrow> text_str"
  ce_files :: "text_str \<Rightarrow> config_file"
  ce_write :: "text_str \<Rightarrow> exn option"

definition CONFIG_ENV :: text_str where "CONFIG_ENV = ''GMLCACHE_CONFIG''"
definition APP_DIR :: text_str where "APP_DIR = ''generic-ml-cache''"
definition CONFIG_NAME :: text_str where "CONFIG_NAME = ''config.ini''"
definition SECTION :: text_str where "SECTION = ''defaults''"
definition EXECUTABLES_SECTION :: text_str where "EXECUTABLES_SECTION = ''executables''"
definition LOG_FILE_NAME :: text_str where "LOG_FILE_NAME = ''gmlcache.log''"
definition CONFIG_SCHEMA_VERSION :: text_str where "CONFIG_SCHEMA_VERSION = ''1''"

definition MODES :: "text_str list" where
  "MODES = map mode_value [MODE_CACHE, MODE_OFFLINE, MODE_REFRESH]"
fun depth_value :: "persistence_depth \<Rightarrow> text_str" where
  "depth_value DEPTH_METER = ''meter''"
| "depth_value DEPTH_CACHE = ''cache''"
| "depth_value DEPTH_DATASET = ''dataset''"

definition DEPTHS :: "text_str list" where
  "DEPTHS = map depth_value [DEPTH_METER, DEPTH_CACHE, DEPTH_DATASET]"
definition LOG_LEVELS :: "text_str list" where
  "LOG_LEVELS = [''DEBUG'', ''INFO'', ''WARN'', ''ERROR'']"

definition env_or :: "config_env \<Rightarrow> text_str \<Rightarrow> text_str \<Rightarrow> text_str" where
  "env_or E var other = (case ce_vars E var of None \<Rightarrow> other | Some v \<Rightarrow> if v = [] then other else v)"

definition default_config_path :: "config_env \<Rightarrow> text_str" where
  "default_config_path E =
     (let base = (if ce_nt E then env_or E ''APPDATA'' (ce_join E (ce_join E (ce_home E) ''AppData'') ''Roaming'')
                  else env_or E ''XDG_CONFIG_HOME'' (ce_join E (ce_home E) ''.config''))
      in ce_join E (ce_join E base APP_DIR) CONFIG_NAME)"

definition resolve_config_path :: "config_env \<Rightarrow> text_str" where
  "resolve_config_path E = env_or E CONFIG_ENV (default_config_path E)"

definition default_data_dir :: "config_env \<Rightarrow> text_str" where
  "default_data_dir E =
     (let base = (if ce_nt E
                  then env_or E ''LOCALAPPDATA'' (env_or E ''APPDATA'' (ce_join E (ce_join E (ce_home E) ''AppData'') ''Local''))
                  else env_or E ''XDG_DATA_HOME'' (ce_join E (ce_join E (ce_home E) ''.local'') ''share''))
      in ce_join E base APP_DIR)"

definition default_store_path :: "config_env \<Rightarrow> text_str" where
  "default_store_path E = ce_join E (default_data_dir E) ''store''"

record file_config =
  fc_mode :: "text_str option"
  fc_persist :: "text_str option"
  fc_store :: "text_str option"
  fc_timeout :: "py_float option"
  fc_trust_scan :: "bool option"
  fc_max_size :: "int option"
  fc_max_age :: "py_float option"
  fc_adapters :: "text_str set option"
  fc_executables :: dict
  fc_source :: "text_str option"
  fc_log_level :: "text_str option"
  fc_log_file :: "text_str option"
  fc_version :: "text_str option"

definition new_file_config :: file_config where
  "new_file_config = \<lparr>fc_mode = None, fc_persist = None, fc_store = None, fc_timeout = None, fc_trust_scan = None,
     fc_max_size = None, fc_max_age = None, fc_adapters = None, fc_executables = [], fc_source = None,
     fc_log_level = None, fc_log_file = None, fc_version = None\<rparr>"

definition KNOWN_DEFAULTS_KEYS :: "text_str list" where
  "KNOWN_DEFAULTS_KEYS = [''mode'', ''persist'', ''store'', ''timeout'', ''trust_scan'', ''max_size'', ''max_age'',
     ''adapters'', ''log_level'', ''log_file'', ''version'']"

datatype severity = SEV_ERROR | SEV_WARNING

record config_issue =
  ci_severity :: severity
  ci_key :: "text_str option"
  ci_message :: text_str

section \<open>Values\<close>

definition config_error :: "text_str \<Rightarrow> text_str \<Rightarrow> text_str \<Rightarrow> exn" where
  "config_error what raw loc = Exn ConfigError (''invalid '' @ what @ '' '' @ raw @ '' '' @ loc)"

definition parse_timeout :: "text_str \<Rightarrow> text_str \<Rightarrow> exn + py_float" where
  "parse_timeout raw loc = (case py_float_of raw of
     Inl e \<Rightarrow> Inl (if exn_class_of e = ValueError then config_error ''timeout'' raw loc else e)
   | Inr x \<Rightarrow> Inr x)"

definition TRUE_WORDS :: "text_str list" where "TRUE_WORDS = [''true'', ''1'', ''yes'', ''on'']"
definition FALSE_WORDS :: "text_str list" where "FALSE_WORDS = [''false'', ''0'', ''no'', ''off'']"

definition SIZE_UNITS :: "(text_str \<times> nat) list" where
  "SIZE_UNITS = [(''b'', 1), (''kb'', 1024), (''mb'', 1024 ^ 2), (''gb'', 1024 ^ 3), (''tb'', 1024 ^ 4)]"

definition AGE_UNITS :: "(text_str \<times> nat) list" where
  "AGE_UNITS = [(''s'', 1), (''m'', 60), (''h'', 3600), (''d'', 86400), (''w'', 604800)]"

definition is_lower_letter :: "char \<Rightarrow> bool" where
  "is_lower_letter c \<longleftrightarrow> 97 \<le> (of_char c :: nat) \<and> (of_char c :: nat) < 123"

text \<open>\<open>re.fullmatch("([0-9]+(?:\.[0-9]+)?)([a-z]*)", text)\<close>.\<close>

definition match_quantity :: "text_str \<Rightarrow> (text_str \<times> text_str) option" where
  "match_quantity t =
     (let i = takeWhile is_digit t; r = dropWhile is_digit t;
          f = (case r of c # s \<Rightarrow> if c = CHR ''.'' then takeWhile is_digit s else [] | [] \<Rightarrow> []);
          number = (if f = [] then i else i @ CHR ''.'' # f);
          unit = drop (length number) t
      in if i = [] \<or> \<not> list_all is_lower_letter unit then None else Some (number, unit))"

definition quantity_text :: "text_str \<Rightarrow> text_str" where
  "quantity_text raw = filter (\<lambda>c. c \<noteq> CHR '' '') (lower_str (strip_str raw))"

definition parse_quantity ::
  "text_str \<Rightarrow> (text_str \<times> nat) list \<Rightarrow> text_str \<Rightarrow> text_str \<Rightarrow> text_str \<Rightarrow> exn + py_float" where
  "parse_quantity what units dflt raw loc = (case match_quantity (quantity_text raw) of
     None \<Rightarrow> Inl (config_error what raw loc)
   | Some (number, u) \<Rightarrow> (let u = (if u = [] then dflt else u) in case map_of units u of
       None \<Rightarrow> Inl (config_error (what @ '' unit'') u loc)
     | Some k \<Rightarrow> bindE (py_float_of number) (\<lambda>x. Inr (float_mul x (float_of_nat k)))))"

definition parse_size :: "text_str \<Rightarrow> text_str \<Rightarrow> exn + int" where
  "parse_size raw loc = bindE (parse_quantity ''size'' SIZE_UNITS ''b'' raw loc) float_to_int"

definition parse_age :: "text_str \<Rightarrow> text_str \<Rightarrow> exn + py_float" where
  "parse_age raw loc = parse_quantity ''age'' AGE_UNITS ''s'' raw loc"

definition parse_bool :: "text_str \<Rightarrow> text_str \<Rightarrow> exn + bool" where
  "parse_bool raw loc =
     (let v = lower_str (strip_str raw)
      in if v \<in> set TRUE_WORDS then Inr True else if v \<in> set FALSE_WORDS then Inr False
         else Inl (config_error ''boolean'' raw loc))"

definition parse_adapters :: "text_str \<Rightarrow> text_str \<Rightarrow> exn + text_str set option" where
  "parse_adapters raw loc =
     (let t = strip_str raw; names = set (filter (\<lambda>n. n \<noteq> []) (map strip_str (split_at CHR '','' t)))
      in if t = ''*'' then Inr None else if names = {} then Inl (config_error ''adapters'' raw loc) else Inr (Some names))"

section \<open>Reading the file\<close>

definition upper_char :: "char \<Rightarrow> char" where
  "upper_char c = (if is_lower_letter c then char_of (of_char c - 32 :: nat) else c)"

definition upper_str :: "text_str \<Rightarrow> text_str" where
  "upper_str s = map upper_char s"

definition check_member :: "text_str \<Rightarrow> text_str list \<Rightarrow> text_str \<Rightarrow> text_str option \<Rightarrow> exn + unit" where
  "check_member what allowed loc v = (case v of
     None \<Rightarrow> Inr ()
   | Some x \<Rightarrow> if x \<in> set allowed then Inr () else Inl (config_error what x loc))"

definition parse_given :: "(text_str \<Rightarrow> text_str \<Rightarrow> exn + 'a) \<Rightarrow> text_str \<Rightarrow> text_str option \<Rightarrow> exn + 'a option" where
  "parse_given parse loc raw = (case raw of
     None \<Rightarrow> Inr None
   | Some s \<Rightarrow> if s = [] then Inr None else bindE (parse s loc) (\<lambda>x. Inr (Some x)))"

text \<open>\<open>parser.read(p)\<close>: a file that cannot be opened leaves the parser empty.\<close>

definition read_config :: "config_file \<Rightarrow> exn + ini" where
  "read_config f = (case f of Text_File b \<Rightarrow> decode_ini b | _ \<Rightarrow> Inr empty_ini)"

definition get_default :: "ini \<Rightarrow> text_str \<Rightarrow> exn + text_str option" where
  "get_default c key = (if has_section c SECTION then section_get c SECTION key else Inr None)"

definition load_parsed :: "ini \<Rightarrow> text_str \<Rightarrow> exn + file_config" where
  "load_parsed c p =
     (let loc = ''in '' @ p; get = get_default c in
      bindE (get ''mode'') (\<lambda>mode.
      bindE (check_member ''mode'' MODES loc mode) (\<lambda>_.
      bindE (get ''persist'') (\<lambda>persist.
      bindE (check_member ''persist'' DEPTHS loc persist) (\<lambda>_.
      bindE (get ''timeout'') (\<lambda>timeout_raw.
      bindE (parse_given parse_timeout loc timeout_raw) (\<lambda>timeout.
      bindE (get ''trust_scan'') (\<lambda>trust_scan_raw.
      bindE (parse_given parse_bool loc trust_scan_raw) (\<lambda>trust_scan.
      bindE (get ''max_size'') (\<lambda>max_size_raw.
      bindE (parse_given parse_size loc max_size_raw) (\<lambda>max_size.
      bindE (get ''max_age'') (\<lambda>max_age_raw.
      bindE (parse_given parse_age loc max_age_raw) (\<lambda>max_age.
      bindE (get ''adapters'') (\<lambda>adapters_raw.
      bindE (case adapters_raw of None \<Rightarrow> Inr None | Some a \<Rightarrow> parse_adapters a loc) (\<lambda>adapters.
      bindE (get ''log_level'') (\<lambda>log_level.
      let log_level = map_option upper_str log_level in
      bindE (check_member ''log_level'' LOG_LEVELS loc log_level) (\<lambda>_.
      bindE (get ''log_file'') (\<lambda>log_file.
      bindE (if has_section c EXECUTABLES_SECTION then section_items c EXECUTABLES_SECTION else Inr []) (\<lambda>executables.
      bindE (get ''store'') (\<lambda>store.
      bindE (get ''version'') (\<lambda>version.
      Inr \<lparr>fc_mode = mode, fc_persist = persist, fc_store = store, fc_timeout = timeout, fc_trust_scan = trust_scan,
           fc_max_size = max_size, fc_max_age = max_age, fc_adapters = adapters, fc_executables = executables,
           fc_source = Some p, fc_log_level = log_level, fc_log_file = log_file, fc_version = version\<rparr>)))))))))))))))))))))"

definition load_config :: "config_env \<Rightarrow> text_str option \<Rightarrow> exn + file_config" where
  "load_config E path =
     (let p = the_default (resolve_config_path E) path in
      case ce_files E p of
        No_File \<Rightarrow> Inr new_file_config
      | f \<Rightarrow> (case read_config f of
          Inl e \<Rightarrow> Inl (if exn_class_of e = ConfigParserError then Exn ConfigError (''could not parse config at '' @ p) else e)
        | Inr c \<Rightarrow> load_parsed c p))"

section \<open>Creating the file\<close>

definition TEMPLATE_HEAD :: "text_str list" where
  "TEMPLATE_HEAD = [
     ''# generic-ml-cache configuration.'',
     ''#'',
     ''# Precedence for mode/timeout: CLI flag > environment > this file > built-in'',
     ''# default. The STORE location is set only here -- there is no flag and no'',
     ''# environment for it, because the store is the cache's own internal structure,'',
     ''# not a per-call knob. To run a fully isolated cache, point GMLCACHE_CONFIG at a'',
     ''# different config file: that selects a whole separate configuration (its own'',
     ''# store, its own settings), which is a deliberate isolated instance rather than'',
     ''# a per-call redirect.'',
     [],
     ''[defaults]'',
     ''mode = cache'',
     ''# How much each call keeps on disk: meter (usage/metadata only, never replays),'',
     ''# cache (+ output, the default -- replay on hit), or dataset (+ input, for an'',
     ''# exportable (input, output) corpus).'',
     ''persist = cache'',
     ''# Where the store lives. This is the per-user data dir by default; change freely.'']"

definition TEMPLATE_TAIL :: "text_str list" where
  "TEMPLATE_TAIL = [
     ''# timeout = 120'',
     ''trust_scan = false'',
     ''# Optional cache size cap. Off by default = keep every execution forever. When set'',
     ''# (e.g. 5GB / 500MB / a byte count), the cache evicts the least-recently-used'',
     ''# executions to make room as it records new ones.'',
     ''# max_size = 5GB'',
     ''# Optional age cap. Off by default. When set (e.g. 30d, 12h, 2w), the daemon'',
     ''# periodically soft-purges executions not accessed within this window.'',
     ''# max_age = 30d'',
     [],
     ''# Optional: opt third-party adapter plugins into loading, by entry-point name. The'',
     ''# bundled adapters always load; a third-party plugin loads only if named here (so an'',
     ''# untrusted installed plugin never imports on its own). Omit (or *) for bundled only.'',
     ''# adapters = *'',
     ''# adapters = my-org-internal-adapter'',
     [],
     ''# Optional: pin a client's executable (off-PATH installs, or a specific build).'',
     ''# [executables]'',
     ''# claude = /opt/claude/bin/claude'',
     ''# codex  = /usr/local/bin/codex'',
     [],
     ''# Optional: technical diagnostic logging. Off by default.'',
     ''# log_level = INFO       # DEBUG / INFO / WARN / ERROR'',
     ''# log_file = /var/log/gmlcache/gmlcache.log   # default: <store>/gmlcache.log'']"

definition default_config_text :: "text_str \<Rightarrow> text_str" where
  "default_config_text store =
     concat (map (\<lambda>l. l @ [LF]) (TEMPLATE_HEAD @ [''store = '' @ store] @ TEMPLATE_TAIL))"

definition write_default_config :: "text_str option \<Rightarrow> (config_env, text_str \<times> bool) prog" where
  "write_default_config path = (\<lambda>E.
     let p = the_default (resolve_config_path E) path in
     if ce_files E p \<noteq> No_File then (Inr (p, False), E)
     else case ce_write E p of
         Some e \<Rightarrow> (Inl e, E)
       | None \<Rightarrow> (Inr (p, True), E\<lparr>ce_files := (ce_files E)(p := Text_File (default_config_text (default_store_path E)))\<rparr>))"

section \<open>Checking the file\<close>

definition issue :: "severity \<Rightarrow> text_str option \<Rightarrow> text_str \<Rightarrow> config_issue" where
  "issue sev key msg = \<lparr>ci_severity = sev, ci_key = key, ci_message = msg\<rparr>"

definition check_enum :: "text_str \<Rightarrow> text_str list \<Rightarrow> text_str \<Rightarrow> text_str option \<Rightarrow> config_issue list" where
  "check_enum key allowed shown v = (case v of
     None \<Rightarrow> []
   | Some x \<Rightarrow> if x \<in> set allowed then [] else [issue SEV_ERROR (Some key) (''invalid value '' @ shown)])"

definition check_version :: "text_str option \<Rightarrow> config_issue list" where
  "check_version v = (case v of
     None \<Rightarrow> []
   | Some x \<Rightarrow> if strip_str x = CONFIG_SCHEMA_VERSION then []
       else [issue SEV_WARNING (Some ''version'') (''config schema version '' @ x @ '' does not match'')])"

definition check_enum_keys :: "ini \<Rightarrow> exn + config_issue list" where
  "check_enum_keys c =
     bindE (section_get c SECTION ''mode'') (\<lambda>mode.
     bindE (section_get c SECTION ''persist'') (\<lambda>persist.
     bindE (section_get c SECTION ''log_level'') (\<lambda>log_level.
     bindE (section_get c SECTION ''version'') (\<lambda>version.
     Inr (check_enum ''mode'' MODES (the_default [] mode) mode
        @ check_enum ''persist'' DEPTHS (the_default [] persist) persist
        @ check_enum ''log_level'' LOG_LEVELS (the_default [] log_level) (map_option upper_str log_level)
        @ check_version version)))))"

text \<open>One key with its parser; only a \<open>ConfigError\<close> becomes an issue.\<close>

definition check_parsed ::
  "ini \<Rightarrow> text_str \<Rightarrow> (text_str \<Rightarrow> text_str \<Rightarrow> exn + 'a) \<Rightarrow> exn + config_issue list" where
  "check_parsed c key parse =
     bindE (section_get c SECTION key) (\<lambda>raw. case raw of
       None \<Rightarrow> Inr []
     | Some s \<Rightarrow> (case parse s [] of
         Inr _ \<Rightarrow> Inr []
       | Inl e \<Rightarrow> if exn_class_of e = ConfigError then Inr [issue SEV_ERROR (Some key) (exn_message e)] else Inl e))"

definition validate_defaults_section :: "ini \<Rightarrow> exn + config_issue list" where
  "validate_defaults_section c =
     (let unknown = map (\<lambda>(k, _). issue SEV_WARNING (Some k) (''unknown key '' @ k))
            (filter (\<lambda>(k, _). k \<notin> set KNOWN_DEFAULTS_KEYS) (section_options c SECTION)) in
      bindE (check_enum_keys c) (\<lambda>enums.
      bindE (check_parsed c ''timeout'' parse_timeout) (\<lambda>timeout.
      bindE (check_parsed c ''max_size'' parse_size) (\<lambda>max_size.
      bindE (check_parsed c ''max_age'' parse_age) (\<lambda>max_age.
      bindE (check_parsed c ''trust_scan'' parse_bool) (\<lambda>trust.
      Inr (unknown @ enums @ timeout @ max_size @ max_age @ trust)))))))"

definition validate_parsed :: "ini \<Rightarrow> exn + config_issue list" where
  "validate_parsed c =
     (let sections = map (\<lambda>(n, _). issue SEV_WARNING None (''unknown section '' @ n))
            (filter (\<lambda>(n, _). n \<notin> {SECTION, EXECUTABLES_SECTION}) (ini_sections c)) in
      bindE (if has_section c SECTION then validate_defaults_section c else Inr []) (\<lambda>defaults.
      Inr (sections @ defaults)))"

definition validate_config :: "config_env \<Rightarrow> text_str option \<Rightarrow> exn + config_issue list" where
  "validate_config E path =
     (let p = the_default (resolve_config_path E) path in
      case ce_files E p of
        No_File \<Rightarrow> Inr []
      | f \<Rightarrow> (case read_config f of
          Inl e \<Rightarrow> if exn_class_of e = ConfigParserError then Inr [issue SEV_ERROR None (''cannot parse file: '' @ exn_message e)] else Inl e
        | Inr c \<Rightarrow> validate_parsed c))"

section \<open>Resolving the settings\<close>

text \<open>A Python object among those a setting may hold, and where it came from.\<close>

datatype setting_value = VNone | VStr text_str | VFloat py_float | VInt int | VBool bool

datatype provenance = FROM_FLAG | FROM_ENV | FROM_CONFIG | FROM_DEFAULT

type_synonym setting = "setting_value \<times> provenance"

record settings =
  st_mode :: setting
  st_persist :: setting
  st_store :: setting
  st_timeout :: setting
  st_trust_scan :: setting
  st_max_size :: setting
  st_max_age :: setting
  st_log_level :: setting
  st_log_file :: setting

definition optional :: "('a \<Rightarrow> setting_value) \<Rightarrow> 'a option \<Rightarrow> setting_value" where
  "optional con x = (case x of None \<Rightarrow> VNone | Some a \<Rightarrow> con a)"

definition pick :: "setting_value \<Rightarrow> setting_value \<Rightarrow> setting_value \<Rightarrow> setting_value \<Rightarrow> setting" where
  "pick flag env file_value dflt =
     (if flag \<noteq> VNone then (flag, FROM_FLAG)
      else if env \<noteq> VNone \<and> env \<noteq> VStr [] then (env, FROM_ENV)
      else if file_value \<noteq> VNone then (file_value, FROM_CONFIG)
      else (dflt, FROM_DEFAULT))"

record setting_flags =
  sf_mode :: "text_str option"
  sf_persist :: "text_str option"
  sf_timeout :: "py_float option"
  sf_log_level :: "text_str option"
  sf_log_file :: "text_str option"

text \<open>\<open>str\<close> of the store setting, which is always text.\<close>

fun setting_text :: "setting_value \<Rightarrow> text_str" where
  "setting_text (VStr s) = s"
| "setting_text _ = ''None''"

definition check_env_member :: "text_str \<Rightarrow> text_str list \<Rightarrow> text_str \<Rightarrow> text_str option \<Rightarrow> exn + unit" where
  "check_env_member what allowed loc v = (if v = Some [] then Inr () else check_member what allowed loc v)"

definition resolve_settings :: "config_env \<Rightarrow> file_config \<Rightarrow> setting_flags \<Rightarrow> exn + settings" where
  "resolve_settings E cfg flags =
     (let env = ce_vars E; mode_env = env ''GMLCACHE_MODE''; persist_env = env ''GMLCACHE_PERSIST'';
          log_level_env = map_option upper_str (env ''GMLCACHE_LOG_LEVEL'');
          log_level_flag = map_option upper_str (sf_log_level flags);
          log_file_env = (if env ''GMLCACHE_LOG_FILE'' = Some [] then None else env ''GMLCACHE_LOG_FILE'') in
      bindE (check_env_member ''mode'' MODES ''in GMLCACHE_MODE'' mode_env) (\<lambda>_.
      bindE (check_env_member ''persist'' DEPTHS ''in GMLCACHE_PERSIST'' persist_env) (\<lambda>_.
      bindE (parse_given parse_timeout ''in GMLCACHE_TIMEOUT'' (env ''GMLCACHE_TIMEOUT'')) (\<lambda>timeout_env.
      bindE (parse_given parse_bool ''in GMLCACHE_TRUST_SCAN'' (env ''GMLCACHE_TRUST_SCAN'')) (\<lambda>trust_env.
      bindE (parse_given parse_size ''in GMLCACHE_MAX_SIZE'' (env ''GMLCACHE_MAX_SIZE'')) (\<lambda>max_size_env.
      bindE (parse_given parse_age ''in GMLCACHE_MAX_AGE'' (env ''GMLCACHE_MAX_AGE'')) (\<lambda>max_age_env.
      bindE (check_member ''GMLCACHE_LOG_LEVEL'' LOG_LEVELS [] log_level_env) (\<lambda>_.
      let store = pick VNone VNone (optional VStr (fc_store cfg)) (VStr (default_store_path E));
          default_log_file = ce_join E (setting_text (fst store)) LOG_FILE_NAME
      in Inr \<lparr>
        st_mode = pick (optional VStr (sf_mode flags)) (optional VStr mode_env) (optional VStr (fc_mode cfg)) (VStr ''cache''),
        st_persist = pick (optional VStr (sf_persist flags)) (optional VStr persist_env) (optional VStr (fc_persist cfg)) (VStr ''cache''),
        st_store = store,
        st_timeout = pick (optional VFloat (sf_timeout flags)) (optional VFloat timeout_env) (optional VFloat (fc_timeout cfg)) VNone,
        st_trust_scan = pick VNone (optional VBool trust_env) (optional VBool (fc_trust_scan cfg)) (VBool False),
        st_max_size = pick VNone (optional VInt max_size_env) (optional VInt (fc_max_size cfg)) VNone,
        st_max_age = pick VNone (optional VFloat max_age_env) (optional VFloat (fc_max_age cfg)) VNone,
        st_log_level = pick (optional VStr log_level_flag) (optional VStr log_level_env) (optional VStr (fc_log_level cfg)) VNone,
        st_log_file = pick (optional VStr (sf_log_file flags)) (optional VStr log_file_env) (optional VStr (fc_log_file cfg))
          (VStr default_log_file)\<rparr>))))))))"

definition float_of_int :: "int \<Rightarrow> exn + py_float" where
  "float_of_int i = (case nearest (i < 0) (nat \<bar>i\<bar>) 1 of
     Infinite _ \<Rightarrow> Inl (Exn OverflowError ''int too large to convert to float'')
   | x \<Rightarrow> Inr x)"

fun number_or_none :: "setting_value \<Rightarrow> text_str \<Rightarrow> exn + py_float option" where
  "number_or_none VNone key = Inr None"
| "number_or_none (VInt i) key = bindE (float_of_int i) (\<lambda>x. Inr (Some x))"
| "number_or_none (VFloat x) key = Inr (Some x)"
| "number_or_none _ key = Inl (config_error key [] ''expected a number'')"

definition resolved_timeout :: "settings \<Rightarrow> exn + py_float option" where
  "resolved_timeout st = number_or_none (fst (st_timeout st)) ''timeout''"

definition resolved_max_age :: "settings \<Rightarrow> exn + py_float option" where
  "resolved_max_age st = number_or_none (fst (st_max_age st)) ''max_age''"

definition resolved_max_size :: "settings \<Rightarrow> exn + int option" where
  "resolved_max_size st = bindE (number_or_none (fst (st_max_size st)) ''max_size'') (\<lambda>x. case x of
     None \<Rightarrow> Inr None
   | Some x \<Rightarrow> bindE (float_to_int x) (\<lambda>i. Inr (Some i)))"

definition executable_for :: "file_config \<Rightarrow> text_str \<Rightarrow> text_str option \<Rightarrow> text_str option" where
  "executable_for cfg client flag = (case flag of None \<Rightarrow> map_of (fc_executables cfg) client | Some f \<Rightarrow> Some f)"

end
