(* ===== verification/Config_Values.thy ===== *)
theory Config_Values
  imports Cli_Config
begin

text \<open>
  The values of the settings: what the parsers of sizes, ages, numbers and booleans return, and the
  types of the resolved settings.
\<close>

section \<open>Numbers and units\<close>

lemma digit_of_char: "is_digit c \<longleftrightarrow> 48 \<le> (of_char c :: nat) \<and> (of_char c :: nat) < 58"
  by (simp add: is_digit_def)

lemma digit_not:
  "is_digit c \<Longrightarrow> \<not> is_space c" "is_digit c \<Longrightarrow> lower_char c = c" "is_digit c \<Longrightarrow> \<not> is_lower_letter c"
  "is_digit c \<Longrightarrow> c \<notin> {CHR ''-'', CHR ''+'', CHR ''.'', CHR ''e'', CHR ''i'', CHR ''n''}"
  by (auto simp: is_digit_def is_space_def lower_char_def is_lower_letter_def)

text \<open>The text of a number is a run of digits, with or without a fraction.\<close>

definition number_text :: "text_str \<Rightarrow> text_str \<Rightarrow> text_str" where
  "number_text i f = (if f = [] then i else i @ CHR ''.'' # f)"

lemma number_chars: "list_all is_digit i \<Longrightarrow> list_all is_digit f \<Longrightarrow> c \<in> set (number_text i f) \<Longrightarrow> is_digit c \<or> c = CHR ''.''"
  by (auto simp: number_text_def list_all_iff split: if_splits)

lemma strip_no_space: "(\<And>c. c \<in> set s \<Longrightarrow> \<not> is_space c) \<Longrightarrow> strip_str s = s"
proof -
  assume no: "\<And>c. c \<in> set s \<Longrightarrow> \<not> is_space c"
  then have "dropWhile is_space s = s" using hd_in_set [of s] by (auto simp: dropWhile_eq_self_iff)
  moreover have "dropWhile is_space (rev s) = rev s" using no hd_in_set [of "rev s"] by (auto simp: dropWhile_eq_self_iff)
  ultimately show ?thesis by (simp add: strip_str_def)
qed

lemma parse_number:
  assumes "i \<noteq> []" and "list_all is_digit i" and "list_all is_digit f"
  shows "py_float_of (number_text i f) = Inr (decimal False i f 0)"
proof -
  let ?t = "number_text i f"
  have chars: "\<not> is_space c \<and> lower_char c = c \<and> c \<noteq> CHR ''e''" if "c \<in> set ?t" for c
    using number_chars [OF assms(2,3) that] digit_not [of c] by (auto simp: is_space_def lower_char_def)
  have hd: "?t = hd i # tl ?t" "is_digit (hd i)"
    using assms(1,2) by (auto simp: number_text_def neq_Nil_conv)
  have strip: "strip_str ?t = ?t" using chars by (intro strip_no_space) auto
  have lower: "lower_str ?t = ?t" using chars by (simp add: lower_str_def map_idI)
  have sign: "signed_text ?t = (False, ?t)"
    using digit_not(4) [OF hd(2)] by (subst (1 2) hd(1)) (simp add: signed_text_def)
  have words: "?t \<notin> {''inf'', ''infinity''}" "?t \<noteq> ''nan''"
    using digit_not(4) [OF hd(2)] by (subst hd(1), simp)+
  have e: "split_at CHR ''e'' ?t = [?t]" using chars by (intro split_at_no) auto
  have dots: "CHR ''.'' \<notin> set i" "CHR ''.'' \<notin> set f" using assms(2,3) digit_not(4) by (auto simp: list_all_iff)
  have "parse_mantissa ?t = Some (i, f)"
  proof (cases "f = []")
    case True
    then show ?thesis using assms dots by (simp add: parse_mantissa_def number_text_def split_at_no digits_groups)
  next
    case False
    then show ?thesis using assms dots
      by (simp add: parse_mantissa_def number_text_def split_at_append split_at_no optional_digits_def digits_groups)
  qed
  then show ?thesis
    using words by (simp add: py_float_of_def strip lower sign parse_unsigned_def e)
qed

lemma match_quantity_number:
  assumes "match_quantity t = Some (number, u)"
  shows "\<exists>i f. i \<noteq> [] \<and> list_all is_digit i \<and> list_all is_digit f \<and> number = number_text i f"
proof -
  define i where "i = takeWhile is_digit t"
  define f where "f = (case dropWhile is_digit t of c # s \<Rightarrow> if c = CHR ''.'' then takeWhile is_digit s else [] | [] \<Rightarrow> [])"
  have "list_all is_digit i" by (auto simp: i_def list_all_iff dest: set_takeWhileD)
  moreover have "list_all is_digit f" by (auto simp: f_def list_all_iff split: list.splits if_splits dest: set_takeWhileD)
  moreover have "i \<noteq> []" and "number = number_text i f"
    using assms unfolding match_quantity_def Let_def number_text_def i_def [symmetric] f_def [symmetric]
    by (auto split: if_splits)
  ultimately show ?thesis by blast
qed

lemma decimal_form: "\<exists>n d. 0 < d \<and> decimal False i f 0 = nearest False n d"
proof (cases "f = []")
  case True
  then show ?thesis by (intro exI [of _ "undec_str i"] exI [of _ 1]) (simp add: decimal_def)
next
  case False
  then have "decimal False i f 0 = nearest False (undec_str (i @ f)) (10 ^ length f)" by (simp add: decimal_def Let_def)
  then show ?thesis by (metis zero_less_numeral zero_less_power)
qed

text \<open>A parsed size or age is never negative and never NaN.\<close>

definition nonneg_float :: "py_float \<Rightarrow> bool" where
  "nonneg_float x \<longleftrightarrow> x = Infinite False \<or> (\<exists>m e. x = Finite False m e \<and> m < 2 ^ 53 \<and> e \<le> 971)"

lemma nearest_nonneg: "0 < d \<Longrightarrow> nonneg_float (nearest False n d)"
  using nearest_form [of d False n] by (auto simp: nonneg_float_def)

lemma times_pow2_pos: "0 < snd (times_pow2 m e)"
  by (simp add: times_pow2_def)

lemma mul_nonneg:
  assumes "nonneg_float x" and "y = Finite False m e" and "0 < m"
  shows "nonneg_float (float_mul x y)"
proof -
  consider "x = Infinite False" | m' e' where "x = Finite False m' e'" using assms(1) by (auto simp: nonneg_float_def)
  then show ?thesis
  proof cases
    case 1
    with assms show ?thesis by (simp add: nonneg_float_def)
  next
    case 2
    then have "float_mul x y = (case times_pow2 (m' * m) (e' + e) of (n, d) \<Rightarrow> nearest False n d)"
      using assms(2) by simp
    then show ?thesis using nearest_nonneg times_pow2_pos [of "m' * m" "e' + e"] by (auto split: prod.splits)
  qed
qed

lemma small_nat_float: "0 < n \<Longrightarrow> n < 2 ^ 53 \<Longrightarrow> \<exists>m e. float_of_nat n = Finite False m e \<and> 0 < m"
  using float_of_nat_dyadic [of n 0] by (auto simp: dyadic_def)

lemma parse_quantity_nonneg:
  assumes "parse_quantity what units dflt raw loc = Inr x" and "\<And>u k. map_of units u = Some k \<Longrightarrow> 0 < k \<and> k < 2 ^ 53"
  shows "nonneg_float x"
proof -
  obtain number u v k y where q: "match_quantity (quantity_text raw) = Some (number, u)" and v: "map_of units v = Some k"
    and y: "py_float_of number = Inr y" and x: "x = float_mul y (float_of_nat k)"
    using assms(1) by (auto simp: parse_quantity_def Let_def bindE_Inr split: option.splits)
  obtain i f where "i \<noteq> []" "list_all is_digit i" "list_all is_digit f" "number = number_text i f"
    using match_quantity_number [OF q] by blast
  then have "y = decimal False i f 0" using y parse_number by simp
  then have "nonneg_float y" using decimal_form [of i f] nearest_nonneg by metis
  with small_nat_float [of k] assms(2) [OF v] x show ?thesis by (auto intro: mul_nonneg)
qed

lemma units_small:
  "map_of SIZE_UNITS u = Some k \<Longrightarrow> 0 < k \<and> k < 2 ^ 53" "map_of AGE_UNITS u = Some k \<Longrightarrow> 0 < k \<and> k < 2 ^ 53"
  by (auto simp: SIZE_UNITS_def AGE_UNITS_def split: if_splits)

lemma parse_age_nonneg: "parse_age raw loc = Inr x \<Longrightarrow> nonneg_float x"
  unfolding parse_age_def by (rule parse_quantity_nonneg) (auto dest: units_small)

text \<open>A parsed size is an integer that a float represents, so \<open>int(float(size))\<close> is the size.\<close>

definition float_int :: "int \<Rightarrow> bool" where
  "float_int i \<longleftrightarrow> 0 \<le> i \<and> nearest False (nat i) 1 \<noteq> Infinite False \<and> float_to_int (nearest False (nat i) 1) = Inr i"

lemma parse_size_float: "parse_size raw loc = Inr i \<Longrightarrow> float_int i"
proof -
  assume "parse_size raw loc = Inr i"
  then obtain x where x: "parse_quantity ''size'' SIZE_UNITS ''b'' raw loc = Inr x" and i: "float_to_int x = Inr i"
    by (auto simp: parse_size_def bindE_Inr)
  have "nonneg_float x" using x by (rule parse_quantity_nonneg) (auto dest: units_small)
  with i obtain m e where "x = Finite False m e" "m < 2 ^ 53" "e \<le> 971" by (auto simp: nonneg_float_def)
  with i show ?thesis using of_int_to_int unfolding float_int_def by blast
qed

section \<open>Sizes are exact\<close>

lemma dec_digits: "list_all is_digit (dec_str n)" "dec_str n \<noteq> []"
proof -
  show "list_all is_digit (dec_str n)" using dec_str_digits by (auto simp: list_all_iff is_digit_def)
  show "dec_str n \<noteq> []" by (subst dec_str.simps) simp
qed

lemma take_drop_digits:
  assumes "list_all is_digit i" and "u = [] \<or> is_lower_letter (hd u)"
  shows "takeWhile is_digit (i @ u) = i" and "dropWhile is_digit (i @ u) = u"
proof -
  have "u = [] \<or> \<not> is_digit (hd u)" using assms(2) digit_not(3) by blast
  then have "takeWhile is_digit u = []" and "dropWhile is_digit u = u" by (cases u; simp)+
  then show "takeWhile is_digit (i @ u) = i" and "dropWhile is_digit (i @ u) = u"
    using assms(1) by (simp_all add: list_all_iff takeWhile_append2 dropWhile_append2)
qed

lemma match_digits:
  assumes "list_all is_digit i" and "i \<noteq> []" and "list_all is_lower_letter u"
  shows "match_quantity (i @ u) = Some (i, u)"
proof -
  have u: "u = [] \<or> is_lower_letter (hd u)" using assms(3) by (cases u) auto
  moreover have "\<not> is_lower_letter (CHR ''.'')" by (simp add: is_lower_letter_def)
  ultimately show ?thesis
    using assms take_drop_digits [OF assms(1) u]
    by (auto simp: match_quantity_def Let_def split: list.splits)
qed

lemma size_unit_pow: "map_of SIZE_UNITS u = Some k \<Longrightarrow> \<exists>j \<le> 40. k = 2 ^ j"
proof -
  assume "map_of SIZE_UNITS u = Some k"
  then have "k \<in> {2 ^ 0, 2 ^ 10, 2 ^ 20, 2 ^ 30, 2 ^ 40}" by (auto simp: SIZE_UNITS_def split: if_splits)
  then show ?thesis
    by (elim insertE emptyE) (rule exI [of _ 0], simp, rule exI [of _ 10], simp, rule exI [of _ 20], simp,
        rule exI [of _ 30], simp, rule exI [of _ 40], simp)
qed

lemma unit_letters: "map_of SIZE_UNITS u = Some k \<Longrightarrow> list_all is_lower_letter u \<and> u \<noteq> []"
  by (auto simp: SIZE_UNITS_def is_lower_letter_def split: if_splits)

text \<open>A size is a count, a unit and the bytes of the unit.\<close>

definition size_of_unit :: "text_str \<Rightarrow> nat \<Rightarrow> bool" where
  "size_of_unit u k \<longleftrightarrow> map_of SIZE_UNITS (if u = [] then ''b'' else u) = Some k"

lemma parse_size_count:
  assumes "quantity_text raw = dec_str n @ u" and "size_of_unit u k"
  shows "parse_size raw loc = float_to_int (float_mul (float_of_nat n) (float_of_nat k))"
proof -
  have "list_all is_lower_letter u" using assms(2) unit_letters by (cases "u = []") (auto simp: size_of_unit_def)
  then have "match_quantity (quantity_text raw) = Some (dec_str n, u)"
    using assms(1) match_digits dec_digits by metis
  moreover have "py_float_of (dec_str n) = Inr (float_of_nat n)"
    using parse_number [of "dec_str n" "[]"] dec_digits [of n]
    by (simp add: number_text_def decimal_def undec_dec float_of_nat_def)
  ultimately show ?thesis using assms(2) by (simp add: parse_size_def parse_quantity_def size_of_unit_def)
qed

text \<open>
  A configured size is the number of bytes it says. For a count below 2 to the 53 with any unit, in any
  case and with spaces, the size is exactly the count times the power of 1024, although the code
  multiplies floats. A count from 2 to the 1026 is not a ConfigError: it raises OverflowError.
\<close>

theorem parse_size_bounds:
  assumes "quantity_text raw = dec_str n @ u" and "size_of_unit u k"
  shows "(n < 2 ^ 53 \<longrightarrow> parse_size raw loc = Inr (int (n * k)))
    \<and> (2 ^ 1026 \<le> n \<longrightarrow> (\<exists>e. parse_size raw loc = Inl e \<and> exn_class_of e = OverflowError))"
proof -
  obtain j where j: "j \<le> 40" "k = 2 ^ j" using assms(2) size_unit_pow by (auto simp: size_of_unit_def)
  have k: "float_of_nat k = dyadic 1 (int j)" using float_of_nat_dyadic [of 1 j] j by simp
  have "parse_size raw loc = Inr (int (n * k))" if n: "n < 2 ^ 53"
  proof (cases "n = 0")
    case True
    then show ?thesis
      unfolding parse_size_count [OF assms] k by (simp add: float_of_nat_def nearest_def dyadic_def times_pow2_def)
  next
    case False
    then show ?thesis
      unfolding parse_size_count [OF assms] k
      using float_of_nat_dyadic [of n 0] n mul_dyadic [of n j] to_int_dyadic [of n j] j by simp
  qed
  moreover have "parse_size raw loc = Inl (Exn OverflowError ''cannot convert float infinity to integer'')" if "2 ^ 1026 \<le> n"
    unfolding parse_size_count [OF assms] k
    using nearest_overflow [OF that, of False] by (simp add: float_of_nat_def dyadic_def)
  ultimately show ?thesis by auto
qed

theorem parse_size_bounds_witness:
  "parse_size '' 5 GB '' [] = Inr (5 * 1024 ^ 3) \<and> parse_size ''9007199254740991tB'' [] = Inr (9007199254740991 * 1024 ^ 4)"
proof -
  have t: "quantity_text '' 5 GB '' = dec_str 5 @ ''gb''" "quantity_text ''9007199254740991tB'' = dec_str 9007199254740991 @ ''tb''"
    by (simp_all add: quantity_text_def lower_str_def lower_char_def strip_str_def is_space_def dec_str.simps digit_char_def char_of_def bit_0)
  have u: "size_of_unit ''gb'' (1024 ^ 3)" "size_of_unit ''tb'' (1024 ^ 4)" by (simp_all add: size_of_unit_def SIZE_UNITS_def)
  show ?thesis
    using parse_size_bounds [OF t(1) u(1), of "[]"] parse_size_bounds [OF t(2) u(2), of "[]"] by simp
qed

section \<open>Types of the settings\<close>

text \<open>What a loaded file holds; booleans and the other texts are typed by their fields.\<close>

definition typed_file :: "file_config \<Rightarrow> bool" where
  "typed_file cfg \<longleftrightarrow>
     (\<forall>m. fc_mode cfg = Some m \<longrightarrow> m \<in> set MODES) \<and> (\<forall>d. fc_persist cfg = Some d \<longrightarrow> d \<in> set DEPTHS)
     \<and> (\<forall>i. fc_max_size cfg = Some i \<longrightarrow> float_int i) \<and> (\<forall>x. fc_max_age cfg = Some x \<longrightarrow> nonneg_float x)
     \<and> (\<forall>l. fc_log_level cfg = Some l \<longrightarrow> l \<in> set LOG_LEVELS)"

lemma check_member_Some: "check_member what allowed loc (Some x) = Inr u \<Longrightarrow> x \<in> set allowed"
  by (auto simp: check_member_def split: if_splits)

lemma parse_given_Some: "parse_given parse loc raw = Inr (Some x) \<Longrightarrow> \<exists>s. parse s loc = Inr x"
  by (auto simp: parse_given_def bindE_Inr split: option.splits if_splits)

lemma given_size: "parse_given parse_size loc raw = Inr (Some i) \<Longrightarrow> float_int i"
  using parse_given_Some [of parse_size loc raw i] parse_size_float by blast

lemma given_age: "parse_given parse_age loc raw = Inr (Some x) \<Longrightarrow> nonneg_float x"
  using parse_given_Some [of parse_age loc raw x] parse_age_nonneg by blast

lemma load_parsed_typed:
  assumes "load_parsed c p = Inr cfg"
  shows "typed_file cfg"
proof -
  obtain mode persist max_size_raw max_size max_age_raw max_age log_level u1 u2 u3 where
    "check_member ''mode'' MODES (''in '' @ p) mode = Inr u1" "check_member ''persist'' DEPTHS (''in '' @ p) persist = Inr u2"
    "parse_given parse_size (''in '' @ p) max_size_raw = Inr max_size" "parse_given parse_age (''in '' @ p) max_age_raw = Inr max_age"
    "check_member ''log_level'' LOG_LEVELS (''in '' @ p) log_level = Inr u3"
    "fc_mode cfg = mode" "fc_persist cfg = persist" "fc_max_size cfg = max_size" "fc_max_age cfg = max_age" "fc_log_level cfg = log_level"
    using assms unfolding load_parsed_def Let_def bindE_Inr
    by - (elim exE conjE, rule that, assumption, assumption, assumption, assumption, assumption,
        (drule sum.inject(2) [THEN iffD1], drule sym, simp only: file_config.simps)+)
  then show ?thesis
    by (auto simp: typed_file_def intro: check_member_Some given_size given_age)
qed

lemma load_typed: "load_config E path = Inr cfg \<Longrightarrow> typed_file cfg"
  by (auto simp: load_config_def Let_def new_file_config_def typed_file_def split: config_file.splits sum.splits
      dest: load_parsed_typed)

text \<open>What \<open>argparse\<close> admits for the flags.\<close>

definition flags_ok :: "setting_flags \<Rightarrow> bool" where
  "flags_ok flags \<longleftrightarrow> set_option (sf_mode flags) \<subseteq> set MODES \<and> set_option (sf_persist flags) \<subseteq> set DEPTHS
     \<and> set_option (sf_log_level flags) \<subseteq> set LOG_LEVELS"

definition typed_settings :: "settings \<Rightarrow> bool" where
  "typed_settings st \<longleftrightarrow>
     (\<exists>m. fst (st_mode st) = VStr (mode_value m)) \<and> (\<exists>d. fst (st_persist st) = VStr (depth_value d))
     \<and> (\<exists>s. fst (st_store st) = VStr s)
     \<and> (fst (st_timeout st) = VNone \<or> (\<exists>x. fst (st_timeout st) = VFloat x))
     \<and> (\<exists>b. fst (st_trust_scan st) = VBool b)
     \<and> (fst (st_max_size st) = VNone \<or> (\<exists>i. fst (st_max_size st) = VInt i \<and> float_int i))
     \<and> (fst (st_max_age st) = VNone \<or> (\<exists>x. fst (st_max_age st) = VFloat x \<and> nonneg_float x))
     \<and> (fst (st_log_level st) = VNone \<or> (\<exists>l \<in> set LOG_LEVELS. fst (st_log_level st) = VStr l))
     \<and> (\<exists>s. fst (st_log_file st) = VStr s)"

lemma pick_fst:
  "f = VNone \<or> P f \<Longrightarrow> e = VNone \<or> e = VStr [] \<or> P e \<Longrightarrow> c = VNone \<or> P c \<Longrightarrow> P d \<Longrightarrow> P (fst (pick f e c d))"
  by (auto simp: pick_def)

lemma optional_cases: "(\<And>a. x = Some a \<Longrightarrow> P (con a)) \<Longrightarrow> optional con x = VNone \<or> P (optional con x)"
  by (cases x) (auto simp: optional_def)

lemma env_member: "check_env_member what allowed loc v = Inr u \<Longrightarrow> optional VStr v = VNone \<or> optional VStr v = VStr [] \<or> (\<exists>x \<in> set allowed. optional VStr v = VStr x)"
  by (cases v) (auto simp: check_env_member_def check_member_def optional_def split: if_splits)

lemma modes_values: "x \<in> set MODES \<Longrightarrow> \<exists>m. x = mode_value m" "x \<in> set DEPTHS \<Longrightarrow> \<exists>d. x = depth_value d"
  unfolding MODES_def DEPTHS_def set_map by blast+

lemma upper_levels: "l \<in> set LOG_LEVELS \<Longrightarrow> upper_str l = l"
  by (auto simp: LOG_LEVELS_def upper_str_def upper_char_def is_lower_letter_def)

lemma resolved_size:
  assumes "float_int i"
  shows "bindE (number_or_none (VInt i) key) (\<lambda>x. case x of None \<Rightarrow> Inr None | Some x \<Rightarrow> bindE (float_to_int x) (\<lambda>i. Inr (Some i))) = Inr (Some i)"
proof -
  have i: "0 \<le> i" "\<not> i < 0" "nat \<bar>i\<bar> = nat i" using assms by (auto simp: float_int_def)
  obtain m e where "nearest False (nat i) 1 = Finite False m e"
    using nearest_form [of 1 False "nat i"] assms by (auto simp: float_int_def)
  then show ?thesis using assms i by (simp add: float_of_int_def float_int_def)
qed

lemma resolve_fields:
  assumes "resolve_settings E cfg flags = Inr st"
  obtains timeout_env trust_env max_size_env max_age_env u1 u2 u3 f e c where
    "check_env_member ''mode'' MODES ''in GMLCACHE_MODE'' (ce_vars E ''GMLCACHE_MODE'') = Inr u1"
    "check_env_member ''persist'' DEPTHS ''in GMLCACHE_PERSIST'' (ce_vars E ''GMLCACHE_PERSIST'') = Inr u2"
    "parse_given parse_size ''in GMLCACHE_MAX_SIZE'' (ce_vars E ''GMLCACHE_MAX_SIZE'') = Inr max_size_env"
    "parse_given parse_age ''in GMLCACHE_MAX_AGE'' (ce_vars E ''GMLCACHE_MAX_AGE'') = Inr max_age_env"
    "check_member ''GMLCACHE_LOG_LEVEL'' LOG_LEVELS [] (map_option upper_str (ce_vars E ''GMLCACHE_LOG_LEVEL'')) = Inr u3"
    "st_mode st = pick (optional VStr (sf_mode flags)) (optional VStr (ce_vars E ''GMLCACHE_MODE'')) (optional VStr (fc_mode cfg)) (VStr ''cache'')"
    "st_persist st = pick (optional VStr (sf_persist flags)) (optional VStr (ce_vars E ''GMLCACHE_PERSIST'')) (optional VStr (fc_persist cfg)) (VStr ''cache'')"
    "st_store st = pick VNone VNone (optional VStr (fc_store cfg)) (VStr (default_store_path E))"
    "st_timeout st = pick (optional VFloat (sf_timeout flags)) (optional VFloat timeout_env) (optional VFloat (fc_timeout cfg)) VNone"
    "st_trust_scan st = pick VNone (optional VBool trust_env) (optional VBool (fc_trust_scan cfg)) (VBool False)"
    "st_max_size st = pick VNone (optional VInt max_size_env) (optional VInt (fc_max_size cfg)) VNone"
    "st_max_age st = pick VNone (optional VFloat max_age_env) (optional VFloat (fc_max_age cfg)) VNone"
    "st_log_level st = pick (optional VStr (map_option upper_str (sf_log_level flags)))
       (optional VStr (map_option upper_str (ce_vars E ''GMLCACHE_LOG_LEVEL''))) (optional VStr (fc_log_level cfg)) VNone"
    "st_log_file st = pick (optional VStr f) (optional VStr e) (optional VStr c) (VStr (ce_join E (setting_text (fst (st_store st))) LOG_FILE_NAME))"
  using assms unfolding resolve_settings_def Let_def bindE_Inr
  by - (elim exE conjE, rule that, assumption, assumption, assumption, assumption, assumption,
      (drule sum.inject(2) [THEN iffD1], drule sym, simp only: settings.simps)+)

lemma settings_typed:
  assumes "resolve_settings E cfg flags = Inr st" and "typed_file cfg" and "flags_ok flags"
  shows "typed_settings st"
proof (rule resolve_fields [OF assms(1)], goal_cases)
  case (1 timeout_env trust_env max_size_env max_age_env u1 u2 u3 f e c)
  let ?mode = "\<lambda>v. \<exists>m. v = VStr (mode_value m)" and ?depth = "\<lambda>v. \<exists>d. v = VStr (depth_value d)"
  let ?size = "\<lambda>v. \<exists>i. v = VInt i \<and> float_int i" and ?age = "\<lambda>v. \<exists>x. v = VFloat x \<and> nonneg_float x"
  let ?level = "\<lambda>v. \<exists>l \<in> set LOG_LEVELS. v = VStr l" and ?text = "\<lambda>v. \<exists>s. v = VStr s"
  have "?mode (fst (st_mode st))"
    unfolding 1(6)
  proof (rule pick_fst)
    show "optional VStr (sf_mode flags) = VNone \<or> ?mode (optional VStr (sf_mode flags))"
      using assms(3) modes_values(1) by (intro optional_cases) (auto simp: flags_ok_def)
    show "optional VStr (ce_vars E ''GMLCACHE_MODE'') = VNone \<or> optional VStr (ce_vars E ''GMLCACHE_MODE'') = VStr []
        \<or> ?mode (optional VStr (ce_vars E ''GMLCACHE_MODE''))"
      using env_member [OF 1(1)] modes_values(1) by blast
    show "optional VStr (fc_mode cfg) = VNone \<or> ?mode (optional VStr (fc_mode cfg))"
      using assms(2) modes_values(1) by (intro optional_cases) (auto simp: typed_file_def)
    show "?mode (VStr ''cache'')" by (intro exI [of _ MODE_CACHE]) simp
  qed
  moreover have "?depth (fst (st_persist st))"
    unfolding 1(7)
  proof (rule pick_fst)
    show "optional VStr (sf_persist flags) = VNone \<or> ?depth (optional VStr (sf_persist flags))"
      using assms(3) modes_values(2) by (intro optional_cases) (auto simp: flags_ok_def)
    show "optional VStr (ce_vars E ''GMLCACHE_PERSIST'') = VNone \<or> optional VStr (ce_vars E ''GMLCACHE_PERSIST'') = VStr []
        \<or> ?depth (optional VStr (ce_vars E ''GMLCACHE_PERSIST''))"
      using env_member [OF 1(2)] modes_values(2) by blast
    show "optional VStr (fc_persist cfg) = VNone \<or> ?depth (optional VStr (fc_persist cfg))"
      using assms(2) modes_values(2) by (intro optional_cases) (auto simp: typed_file_def)
    show "?depth (VStr ''cache'')" by (intro exI [of _ DEPTH_CACHE]) simp
  qed
  moreover have "?text (fst (st_store st))" and "?text (fst (st_log_file st))"
    unfolding 1(8) 1(14) by (auto simp: pick_def optional_def split: option.splits)
  moreover have "fst (st_timeout st) = VNone \<or> (\<exists>x. fst (st_timeout st) = VFloat x)"
    unfolding 1(9) by (auto simp: pick_def optional_def split: option.splits)
  moreover have "\<exists>b. fst (st_trust_scan st) = VBool b"
    unfolding 1(10) by (auto simp: pick_def optional_def split: option.splits)
  moreover have "fst (st_max_size st) = VNone \<or> ?size (fst (st_max_size st))"
    using given_size [of _ "ce_vars E ''GMLCACHE_MAX_SIZE''"] 1(3) assms(2)
    unfolding 1(11) by (auto simp: pick_def optional_def typed_file_def split: option.splits)
  moreover have "fst (st_max_age st) = VNone \<or> ?age (fst (st_max_age st))"
    using given_age [of _ "ce_vars E ''GMLCACHE_MAX_AGE''"] 1(4) assms(2)
    unfolding 1(12) by (auto simp: pick_def optional_def typed_file_def split: option.splits)
  moreover have "fst (st_log_level st) = VNone \<or> ?level (fst (st_log_level st))"
    unfolding 1(13)
  proof (rule pick_fst [where P = "\<lambda>v. v = VNone \<or> ?level v"])
    show "optional VStr (map_option upper_str (sf_log_level flags)) = VNone
        \<or> optional VStr (map_option upper_str (sf_log_level flags)) = VNone \<or> ?level (optional VStr (map_option upper_str (sf_log_level flags)))"
      using assms(3) upper_levels by (cases "sf_log_level flags") (auto simp: optional_def flags_ok_def)
    show "optional VStr (map_option upper_str (ce_vars E ''GMLCACHE_LOG_LEVEL'')) = VNone
        \<or> optional VStr (map_option upper_str (ce_vars E ''GMLCACHE_LOG_LEVEL'')) = VStr []
        \<or> optional VStr (map_option upper_str (ce_vars E ''GMLCACHE_LOG_LEVEL'')) = VNone
        \<or> ?level (optional VStr (map_option upper_str (ce_vars E ''GMLCACHE_LOG_LEVEL'')))"
      using 1(5) check_member_Some by (cases "ce_vars E ''GMLCACHE_LOG_LEVEL''") (auto simp: optional_def)
    show "optional VStr (fc_log_level cfg) = VNone \<or> optional VStr (fc_log_level cfg) = VNone \<or> ?level (optional VStr (fc_log_level cfg))"
      using assms(2) by (cases "fc_log_level cfg") (auto simp: optional_def typed_file_def)
  qed simp
  ultimately show ?case unfolding typed_settings_def by blast
qed

text \<open>
  C26: The resolved settings are well typed. Whatever the file, the environment and the flags that the
  parser admits: when loading and resolving succeed, every setting holds a value of its declared type (a
  cache mode, a depth, text, a number, a boolean, a log level), sizes and ages are never negative or NaN,
  and the typed readers \<open>resolved_timeout\<close>, \<open>resolved_max_age\<close> and \<open>resolved_max_size\<close> never
  raise; the last returns the size unchanged although it passes through a float.
\<close>

theorem settings_well_typed:
  assumes "load_config E path = Inr cfg" and "flags_ok flags" and "resolve_settings E cfg flags = Inr st"
  shows "typed_settings st
    \<and> resolved_timeout st = Inr (case fst (st_timeout st) of VFloat x \<Rightarrow> Some x | _ \<Rightarrow> None)
    \<and> resolved_max_age st = Inr (case fst (st_max_age st) of VFloat x \<Rightarrow> Some x | _ \<Rightarrow> None)
    \<and> resolved_max_size st = Inr (case fst (st_max_size st) of VInt i \<Rightarrow> Some i | _ \<Rightarrow> None)"
proof -
  note cfg = load_typed [OF assms(1)]
  have typed: "typed_settings st"
    by (rule settings_typed [OF assms(3) cfg assms(2)])
  have num: "resolved_timeout st = Inr (case fst (st_timeout st) of VFloat x \<Rightarrow> Some x | _ \<Rightarrow> None)"
    "resolved_max_age st = Inr (case fst (st_max_age st) of VFloat x \<Rightarrow> Some x | _ \<Rightarrow> None)"
    using typed by (auto simp: typed_settings_def resolved_timeout_def resolved_max_age_def)
  have "resolved_max_size st = Inr (case fst (st_max_size st) of VInt i \<Rightarrow> Some i | _ \<Rightarrow> None)"
    using typed resolved_size by (auto simp: typed_settings_def resolved_max_size_def)
  with typed num show ?thesis by blast
qed

text \<open>A file with three settings, read and resolved.\<close>

definition sample_join :: "text_str \<Rightarrow> text_str \<Rightarrow> text_str" where
  "sample_join a b = a @ CHR ''/'' # b"

definition sample_config_env :: "text_str \<Rightarrow> config_env" where
  "sample_config_env contents = \<lparr>ce_nt = False, ce_vars = (\<lambda>v. if v = ''GMLCACHE_CONFIG'' then Some ''c.ini'' else None),
     ce_home = ''/home/u'', ce_join = sample_join, ce_files = (\<lambda>p. if p = ''c.ini'' then Text_File contents else No_File),
     ce_write = (\<lambda>_. None)\<rparr>"

definition no_flags :: setting_flags where
  "no_flags = \<lparr>sf_mode = None, sf_persist = None, sf_timeout = None, sf_log_level = None, sf_log_file = None\<rparr>"

definition sample_contents :: text_str where
  "sample_contents = ''[defaults]'' @ LF # ''mode = offline'' @ LF # ''trust_scan: Yes'' @ LF # ''log_level = info'' @ [LF]"

lemma sample_loads:
  "load_config (sample_config_env sample_contents) None =
     Inr (new_file_config\<lparr>fc_mode := Some ''offline'', fc_trust_scan := Some True, fc_log_level := Some ''INFO'', fc_source := Some ''c.ini''\<rparr>)"
  by code_simp

theorem settings_well_typed_witness:
  "\<exists>cfg st. load_config (sample_config_env sample_contents) None = Inr cfg
     \<and> resolve_settings (sample_config_env sample_contents) cfg no_flags = Inr st
     \<and> typed_settings st \<and> fst (st_mode st) = VStr ''offline'' \<and> resolved_max_size st = Inr None"
proof -
  let ?E = "sample_config_env sample_contents"
  define cfg where "cfg = new_file_config\<lparr>fc_mode := Some ''offline'', fc_trust_scan := Some True, fc_log_level := Some ''INFO'', fc_source := Some ''c.ini''\<rparr>"
  have load: "load_config ?E None = Inr cfg" unfolding cfg_def by (rule sample_loads)
  have flags: "flags_ok no_flags" by (simp add: flags_ok_def no_flags_def)
  have "\<exists>st. resolve_settings ?E cfg no_flags = Inr st \<and> fst (st_mode st) = VStr ''offline'' \<and> fst (st_max_size st) = VNone"
    by (simp add: resolve_settings_def sample_config_env_def cfg_def new_file_config_def no_flags_def check_env_member_def
        check_member_def parse_given_def optional_def pick_def Let_def)
  then obtain st where st: "resolve_settings ?E cfg no_flags = Inr st" "fst (st_mode st) = VStr ''offline''" "fst (st_max_size st) = VNone"
    by blast
  from settings_well_typed [OF load flags st(1)] load st show ?thesis by auto
qed

end
