(* ===== verification/Config_File.thy ===== *)
theory Config_File
  imports Config_Values
begin

text \<open>
  The configuration file: what the reader makes of the file that \<open>gmlcache init\<close> writes, and how far
  checking a file predicts loading it.
\<close>

section \<open>Reading line by line\<close>

lemma read_lines_append: "read_lines (xs @ ys) r = bindE (read_lines xs r) (read_lines ys)"
  by (induction xs arbitrary: r) (auto simp: bindE_def split: sum.splits)

lemma read_comments: "read_lines ls r = read_lines (filter (\<lambda>l. \<not> is_comment l) ls) r"
proof (induction ls arbitrary: r)
  case (Cons l ls)
  then show ?case by (auto simp: read_line_def bindE_def split: sum.splits)
qed simp

lemma file_lines_concat:
  "(\<And>l. l \<in> set ls \<Longrightarrow> LF \<notin> set l \<and> CR \<notin> set l) \<Longrightarrow> file_lines (concat (map (\<lambda>l. l @ [LF]) ls)) = ls"
  by (induction ls) (auto simp: file_lines_line)

section \<open>The template\<close>

lemma head_lines: "filter (\<lambda>l. \<not> is_comment l) TEMPLATE_HEAD = [[], ''[defaults]'', ''mode = cache'', ''persist = cache'']"
  by code_simp

lemma tail_lines: "filter (\<lambda>l. \<not> is_comment l) TEMPLATE_TAIL = [''trust_scan = false'', [], [], []]"
  by code_simp

lemma template_lines: "list_all (\<lambda>l. LF \<notin> set l \<and> CR \<notin> set l \<and> is_utf8 l) (TEMPLATE_HEAD @ TEMPLATE_TAIL)"
  by code_simp

text \<open>What the reader knows after the head.\<close>

definition head_reader :: reader where
  "head_reader = \<lparr>rd_defaults = [], rd_sections = [(''defaults'', [(''mode'', [''cache'']), (''persist'', [''cache''])])],
     rd_cur = Some ''defaults'', rd_opt = ''persist'', rd_indent = 0,
     rd_seen = [(''defaults'', ''persist''), (''defaults'', ''mode'')], rd_bad = False\<rparr>"

lemma read_head: "read_lines TEMPLATE_HEAD new_reader = Inr head_reader"
  unfolding read_comments [of TEMPLATE_HEAD] head_lines head_reader_def by code_simp

section \<open>The line of the store\<close>

definition stripped :: "text_str \<Rightarrow> bool" where
  "stripped s \<longleftrightarrow> s \<noteq> [] \<and> \<not> is_space (hd s) \<and> \<not> is_space (last s)"

lemma strip_stripped: "stripped s \<Longrightarrow> strip_str s = s"
proof -
  assume "stripped s"
  then have "dropWhile is_space s = s" and "dropWhile is_space (rev s) = rev s"
    by (auto simp: stripped_def dropWhile_eq_self_iff hd_rev)
  then show ?thesis by (simp add: strip_str_def)
qed

lemma rstrip_stripped: "stripped s \<Longrightarrow> rstrip_str s = s"
proof -
  assume "stripped s"
  then have "dropWhile is_space (rev s) = rev s" by (auto simp: stripped_def dropWhile_eq_self_iff hd_rev)
  then show ?thesis by (simp add: rstrip_str_def)
qed

lemma strip_space: "stripped s \<Longrightarrow> strip_str (CHR '' '' # s) = s"
  using strip_stripped [of s] by (simp add: strip_str_def is_space_def)

text \<open>A path as \<open>init\<close> can write it: one line of UTF-8 without outer spaces and without \<open>%\<close>.\<close>

definition plain_path :: "text_str \<Rightarrow> bool" where
  "plain_path s \<longleftrightarrow> stripped s \<and> LF \<notin> set s \<and> CR \<notin> set s \<and> CHR ''%'' \<notin> set s \<and> is_utf8 s"

definition store_reader :: "text_str \<Rightarrow> reader" where
  "store_reader s = \<lparr>rd_defaults = [],
     rd_sections = [(''defaults'', [(''mode'', [''cache'']), (''persist'', [''cache'']), (''store'', [s])])],
     rd_cur = Some ''defaults'', rd_opt = ''store'', rd_indent = 0,
     rd_seen = [(''defaults'', ''store''), (''defaults'', ''persist''), (''defaults'', ''mode'')], rd_bad = False\<rparr>"

lemma store_line:
  assumes "stripped s"
  shows "option_line (''store = '' @ s) = Some (''store'', s)" and "strip_str (''store = '' @ s) = ''store = '' @ s"
proof -
  have "takeWhile (\<lambda>c. \<not> is_delimiter c) (''store = '' @ s) = ''store ''" and
    "dropWhile (\<lambda>c. \<not> is_delimiter c) (''store = '' @ s) = CHR ''='' # CHR '' '' # s"
    by (simp_all add: is_delimiter_def)
  moreover have "rstrip_str ''store '' = ''store''" by code_simp
  ultimately show "option_line (''store = '' @ s) = Some (''store'', s)"
    using strip_space [OF assms] unfolding option_line_def by simp
  have "stripped (''store = '' @ s)" using assms by (simp add: stripped_def is_space_def)
  then show "strip_str (''store = '' @ s) = ''store = '' @ s" by (rule strip_stripped)
qed

lemma read_store: "stripped s \<Longrightarrow> read_line (''store = '' @ s) head_reader = Inr (store_reader s)"
  using store_line [of s]
  by (simp add: read_line_def is_comment_def indent_of_def is_space_def section_header_def read_option_def head_reader_def
      store_reader_def set_option_def put_option_def cur_options_def Let_def lower_str_def lower_char_def)

lemma read_trust:
  "read_line ''trust_scan = false'' (store_reader s) = Inr ((store_reader s)\<lparr>
     rd_sections := [(''defaults'', [(''mode'', [''cache'']), (''persist'', [''cache'']), (''store'', [s]), (''trust_scan'', [''false''])])],
     rd_opt := ''trust_scan'', rd_seen := (''defaults'', ''trust_scan'') # rd_seen (store_reader s)\<rparr>)"
proof -
  have line: "option_line ''trust_scan = false'' = Some (''trust_scan'', ''false'')" "strip_str ''trust_scan = false'' = ''trust_scan = false''"
    by code_simp+
  show ?thesis
    by (simp add: read_line_def line is_comment_def indent_of_def is_space_def section_header_def read_option_def
        store_reader_def put_option_def cur_options_def Let_def lower_str_def lower_char_def)
qed

lemma read_blank:
  "rd_cur r \<noteq> None \<Longrightarrow> rd_opt r \<noteq> [] \<Longrightarrow> read_line [] r = Inr (append_value [] r)"
  by (simp add: read_line_def is_comment_def strip_str_def Let_def)

definition template_reader :: "text_str \<Rightarrow> reader" where
  "template_reader s = (store_reader s)\<lparr>
     rd_sections := [(''defaults'', [(''mode'', [''cache'']), (''persist'', [''cache'']), (''store'', [s]), (''trust_scan'', [''false'', [], [], []])])],
     rd_opt := ''trust_scan'', rd_seen := (''defaults'', ''trust_scan'') # rd_seen (store_reader s)\<rparr>"

lemma read_tail: "read_lines TEMPLATE_TAIL (store_reader s) = Inr (template_reader s)"
  unfolding read_comments [of TEMPLATE_TAIL] tail_lines
  by (simp add: read_trust [unfolded store_reader_def] read_blank append_value_def put_option_def cur_options_def Let_def store_reader_def template_reader_def the_default_def)

definition template_ini :: "text_str \<Rightarrow> ini" where
  "template_ini s = \<lparr>ini_defaults = [], ini_sections = [(''defaults'',
     [(''mode'', ''cache''), (''persist'', ''cache''), (''store'', s), (''trust_scan'', ''false'')])]\<rparr>"

lemma finish_template:
  assumes "stripped s"
  shows "finish_read (template_reader s) = Inr (template_ini s)"
proof -
  have "rstrip_str ''cache'' = ''cache''" "rstrip_str (join_str [LF] [''false'', [], [], []]) = ''false''" by code_simp+
  then show ?thesis using rstrip_stripped [OF assms]
    by (simp add: finish_read_def template_reader_def store_reader_def template_ini_def join_values_def)
qed

lemma utf8_ok_append: "utf8_ok a \<Longrightarrow> utf8_ok (a @ b) = utf8_ok b"
  by (induction a rule: utf8_ok.induct) (auto split: if_splits list.splits)

lemma is_utf8_append: "is_utf8 a \<Longrightarrow> is_utf8 b \<Longrightarrow> is_utf8 (a @ b)"
  by (simp add: is_utf8_def utf8_ok_append)

lemma is_utf8_concat: "(\<And>l. l \<in> set ls \<Longrightarrow> is_utf8 l) \<Longrightarrow> is_utf8 (concat ls)"
proof (induction ls)
  case Nil
  then show ?case by (simp add: is_utf8_def)
next
  case (Cons l ls)
  then show ?case by (simp add: is_utf8_append)
qed

lemma decode_template:
  assumes "plain_path s"
  shows "decode_ini (default_config_text s) = Inr (template_ini s)"
proof -
  let ?ls = "TEMPLATE_HEAD @ [''store = '' @ s] @ TEMPLATE_TAIL"
  have s: "stripped s" "is_utf8 s" "LF \<notin> set s" "CR \<notin> set s" using assms by (auto simp: plain_path_def)
  have "is_utf8 ''store = ''" and nl: "is_utf8 [LF]" by code_simp+
  then have lines: "LF \<notin> set l \<and> CR \<notin> set l \<and> is_utf8 l" if "l \<in> set ?ls" for l
    using template_lines that s is_utf8_append [of "''store = ''" s] by (auto simp: list_all_iff)
  then have contents: "file_lines (default_config_text s) = ?ls"
    unfolding default_config_text_def by (intro file_lines_concat) auto
  have "is_utf8 l" if "l \<in> set (map (\<lambda>l. l @ [LF]) ?ls)" for l
    using that lines nl is_utf8_append unfolding set_map by blast
  then have utf8: "is_utf8 (default_config_text s)"
    unfolding default_config_text_def by (rule is_utf8_concat)
  have "read_lines ?ls new_reader = Inr (template_reader s)"
    unfolding read_lines_append read_head by (simp add: read_store [OF s(1), simplified] read_tail)
  then show ?thesis
    using utf8 finish_template [OF s(1)] unfolding decode_ini_def parse_ini_def contents by simp
qed

section \<open>Loading the template\<close>

lemma plain_literals: "CHR ''%'' \<notin> set ''cache''" "CHR ''%'' \<notin> set ''false''"
  by simp_all

lemma template_get:
  assumes "CHR ''%'' \<notin> set s"
  shows "get_default (template_ini s) key =
    Inr (if key = ''mode'' \<or> key = ''persist'' then Some ''cache'' else if key = ''store'' then Some s
         else if key = ''trust_scan'' then Some ''false'' else None)"
  using interpolate_plain [of s 9] interpolate_plain [of "''cache''" 9] interpolate_plain [of "''false''" 9] assms
  by (auto simp: get_default_def section_get_def section_options_def has_section_def template_ini_def SECTION_def the_default_def
      MAX_INTERPOLATION_DEPTH_def numeral_eq_Suc Let_def)

definition template_config :: "text_str \<Rightarrow> text_str \<Rightarrow> file_config" where
  "template_config s p = new_file_config\<lparr>fc_mode := Some ''cache'', fc_persist := Some ''cache'', fc_store := Some s,
     fc_trust_scan := Some False, fc_source := Some p\<rparr>"

lemma false_word: "parse_bool ''false'' loc = Inr False"
  by (simp add: parse_bool_def TRUE_WORDS_def FALSE_WORDS_def strip_str_def is_space_def lower_str_def lower_char_def Let_def)

lemma cache_words: "''cache'' \<in> set MODES" "''cache'' \<in> set DEPTHS"
  by (simp_all add: MODES_def DEPTHS_def)

lemma load_template:
  assumes "CHR ''%'' \<notin> set s"
  shows "load_parsed (template_ini s) p = Inr (template_config s p)"
proof -
  have "\<not> has_section (template_ini s) EXECUTABLES_SECTION"
    by (simp add: has_section_def template_ini_def EXECUTABLES_SECTION_def)
  then show ?thesis
    using cache_words false_word
    by (simp add: load_parsed_def Let_def template_get [OF assms] check_member_def parse_given_def template_config_def new_file_config_def)
qed

lemma get_defaultD: "has_section c SECTION \<Longrightarrow> section_get c SECTION key = get_default c key"
  by (simp add: get_default_def)

lemma validate_template:
  assumes "CHR ''%'' \<notin> set s"
  shows "validate_parsed (template_ini s) = Inr []"
proof -
  have sect: "has_section (template_ini s) SECTION"
    by (simp add: has_section_def template_ini_def SECTION_def)
  have keys: "list_all (\<lambda>(k, _). k \<in> set KNOWN_DEFAULTS_KEYS) (section_options (template_ini s) SECTION)"
    by (simp add: section_options_def template_ini_def SECTION_def the_default_def KNOWN_DEFAULTS_KEYS_def Let_def)
  then have "filter (\<lambda>(k, _). k \<notin> set KNOWN_DEFAULTS_KEYS) (section_options (template_ini s) SECTION) = []"
    by (auto simp: filter_empty_conv list_all_iff)
  moreover have "filter (\<lambda>(n, _). n \<notin> {SECTION, EXECUTABLES_SECTION}) (ini_sections (template_ini s)) = []"
    by (simp add: template_ini_def SECTION_def)
  ultimately show ?thesis
    using sect cache_words false_word
    by (simp add: validate_parsed_def validate_defaults_section_def check_enum_keys_def check_parsed_def Let_def
        get_defaultD template_get [OF assms] check_enum_def check_version_def)
qed

section \<open>Properties\<close>

text \<open>The values of the settings, without their provenance.\<close>

definition setting_values :: "settings \<Rightarrow> setting_value list" where
  "setting_values st = map fst [st_mode st, st_persist st, st_store st, st_timeout st, st_trust_scan st, st_max_size st,
     st_max_age st, st_log_level st, st_log_file st]"

lemma map_sum_bindE: "map_sum id g (bindE r f) = bindE r (\<lambda>a. map_sum id g (f a))"
  by (cases r) auto

lemma pick_default: "fst (pick f e (optional con (Some x)) d) = fst (pick f e VNone (con x))" if "con x \<noteq> VNone" for con
  using that by (simp add: pick_def optional_def)

lemma resolve_template:
  assumes "ce_vars E' = ce_vars E" and "ce_join E' = ce_join E" and "default_store_path E' = default_store_path E"
  shows "map_sum id setting_values (resolve_settings E' (template_config (default_store_path E) p) flags)
    = map_sum id setting_values (resolve_settings E new_file_config flags)"
  unfolding resolve_settings_def Let_def assms map_sum_bindE
  by (simp add: template_config_def new_file_config_def setting_values_def pick_default) (simp add: optional_def)

text \<open>
  C27: \<open>gmlcache init\<close> changes nothing but the file. Where there was no file and the default store path is
  plain, it creates one that loads as exactly the documented defaults and in which checking finds no
  issue; with it every setting resolves to the value it has without a file, whatever the flags and the
  environment. A second \<open>init\<close> leaves the file alone.
\<close>

theorem init_keeps_settings:
  assumes "ce_files E p = No_File" and "ce_write E p = None" and "plain_path (default_store_path E)"
  shows "\<exists>E'. write_default_config (Some p) E = (Inr (p, True), E') \<and> E' = E\<lparr>ce_files := ce_files E'\<rparr>
    \<and> load_config E' (Some p) = Inr (template_config (default_store_path E) p) \<and> validate_config E' (Some p) = Inr []
    \<and> map_sum id setting_values (resolve_settings E' (template_config (default_store_path E) p) flags)
      = map_sum id setting_values (resolve_settings E new_file_config flags)
    \<and> write_default_config (Some p) E' = (Inr (p, False), E')"
proof -
  let ?s = "default_store_path E"
  define E' where "E' = E\<lparr>ce_files := (ce_files E)(p := Text_File (default_config_text ?s))\<rparr>"
  have written: "write_default_config (Some p) E = (Inr (p, True), E')"
    by (simp add: write_default_config_def Let_def the_default_def assms(1,2) E'_def)
  have again: "write_default_config (Some p) E' = (Inr (p, False), E')"
    by (simp add: write_default_config_def Let_def the_default_def E'_def)
  have percent: "CHR ''%'' \<notin> set ?s" using assms(3) by (simp add: plain_path_def)
  have ini: "read_config (ce_files E' p) = Inr (template_ini ?s)" and there: "ce_files E' p = Text_File (default_config_text ?s)"
    using decode_template [OF assms(3)] by (simp_all add: E'_def read_config_def)
  have load: "load_config E' (Some p) = Inr (template_config ?s p)"
    using ini load_template [OF percent, of p] by (simp add: load_config_def Let_def the_default_def there)
  have check: "validate_config E' (Some p) = Inr []"
    using ini validate_template [OF percent] by (simp add: validate_config_def Let_def the_default_def there)
  have env: "ce_vars E' = ce_vars E" "ce_join E' = ce_join E" "default_store_path E' = ?s" "E' = E\<lparr>ce_files := ce_files E'\<rparr>"
    by (simp_all add: E'_def default_store_path_def default_data_dir_def env_or_def Let_def)
  have "map_sum id setting_values (resolve_settings E' (template_config ?s p) flags) = map_sum id setting_values (resolve_settings E new_file_config flags)"
    by (rule resolve_template [OF env(1-3)])
  with written again load check env(4) show ?thesis by blast
qed

text \<open>No file yet, and the store in the home directory.\<close>

theorem init_keeps_settings_witness:
  "\<exists>E'. write_default_config (Some ''new.ini'') (sample_config_env []) = (Inr (''new.ini'', True), E')
    \<and> load_config E' (Some ''new.ini'') = Inr (template_config ''/home/u/.local/share/generic-ml-cache/store'' ''new.ini'')
    \<and> validate_config E' (Some ''new.ini'') = Inr []"
proof -
  let ?E = "sample_config_env []"
  have store: "default_store_path ?E = ''/home/u/.local/share/generic-ml-cache/store''" by code_simp
  have plain: "plain_path ''/home/u/.local/share/generic-ml-cache/store''" by code_simp
  have "ce_files ?E ''new.ini'' = No_File" and "ce_write ?E ''new.ini'' = None" by (simp_all add: sample_config_env_def)
  from init_keeps_settings [OF this, unfolded store, OF plain, of no_flags] show ?thesis by blast
qed

section \<open>Checking and loading\<close>

definition succeeds :: "exn + 'a \<Rightarrow> bool" where
  "succeeds r \<longleftrightarrow> (\<exists>a. r = Inr a)"

lemma succeeds_simps [simp]: "succeeds (Inr a)" "\<not> succeeds (Inl e)"
  by (simp_all add: succeeds_def)

lemma succeeds_bind: "succeeds (bindE r f) \<longleftrightarrow> (\<exists>a. r = Inr a \<and> succeeds (f a))"
  by (cases r) simp_all

text \<open>The steps of loading that checking leaves out.\<close>

definition unchecked_ok :: "ini \<Rightarrow> text_str \<Rightarrow> bool" where
  "unchecked_ok c loc \<longleftrightarrow>
     succeeds (bindE (get_default c ''adapters'') (\<lambda>a. case a of None \<Rightarrow> Inr None | Some a \<Rightarrow> parse_adapters a loc))
     \<and> succeeds (get_default c ''log_file'') \<and> succeeds (get_default c ''store'')
     \<and> (has_section c EXECUTABLES_SECTION \<longrightarrow> succeeds (section_items c EXECUTABLES_SECTION))"

definition checked_ok :: "ini \<Rightarrow> text_str \<Rightarrow> bool" where
  "checked_ok c loc \<longleftrightarrow>
     succeeds (bindE (get_default c ''mode'') (check_member ''mode'' MODES loc))
     \<and> succeeds (bindE (get_default c ''persist'') (check_member ''persist'' DEPTHS loc))
     \<and> succeeds (bindE (get_default c ''timeout'') (parse_given parse_timeout loc))
     \<and> succeeds (bindE (get_default c ''trust_scan'') (parse_given parse_bool loc))
     \<and> succeeds (bindE (get_default c ''max_size'') (parse_given parse_size loc))
     \<and> succeeds (bindE (get_default c ''max_age'') (parse_given parse_age loc))
     \<and> succeeds (bindE (get_default c ''log_level'') (\<lambda>l. check_member ''log_level'' LOG_LEVELS loc (map_option upper_str l)))
     \<and> succeeds (get_default c ''version'')"

lemma load_succeeds: "succeeds (load_parsed c p) \<longleftrightarrow> checked_ok c (''in '' @ p) \<and> unchecked_ok c (''in '' @ p)"
  unfolding load_parsed_def checked_ok_def unchecked_ok_def Let_def succeeds_bind
  by (auto simp: succeeds_def)

lemma parsers_loc:
  "succeeds (parse_timeout s loc) \<longleftrightarrow> succeeds (parse_timeout s [])" "succeeds (parse_bool s loc) \<longleftrightarrow> succeeds (parse_bool s [])"
  "succeeds (parse_size s loc) \<longleftrightarrow> succeeds (parse_size s [])" "succeeds (parse_age s loc) \<longleftrightarrow> succeeds (parse_age s [])"
  by (auto simp: succeeds_def parse_timeout_def parse_bool_def parse_size_def parse_age_def parse_quantity_def bindE_def Let_def
      split: sum.splits option.splits)

definition is_error :: "config_issue \<Rightarrow> bool" where
  "is_error i \<longleftrightarrow> ci_severity i = SEV_ERROR"

text \<open>One checked key: an error exactly when the step of loading fails, unless the value is empty.\<close>

lemma check_parsed_ok:
  assumes "has_section c SECTION" and "check_parsed c key parse = Inr is" and "get_default c key \<noteq> Inr (Some [])"
    and "\<And>s. succeeds (parse s loc) \<longleftrightarrow> succeeds (parse s [])"
  shows "succeeds (bindE (get_default c key) (parse_given parse loc)) \<longleftrightarrow> (\<forall>i \<in> set is. \<not> is_error i)"
proof -
  obtain raw where raw: "get_default c key = Inr raw" and r: "(case raw of None \<Rightarrow> Inr [] | Some s \<Rightarrow> (case parse s [] of
         Inr _ \<Rightarrow> Inr [] | Inl e \<Rightarrow> if exn_class_of e = ConfigError then Inr [issue SEV_ERROR (Some key) (exn_message e)] else Inl e)) = Inr is"
    using assms(1,2) by (auto simp: check_parsed_def get_defaultD bindE_Inr)
  show ?thesis
  proof (cases raw)
    case None
    with raw r show ?thesis by (simp add: parse_given_def)
  next
    case (Some s)
    with raw assms(3) have "s \<noteq> []" by simp
    then have "succeeds (bindE (get_default c key) (parse_given parse loc)) \<longleftrightarrow> succeeds (parse s loc)"
      using raw Some by (auto simp: parse_given_def succeeds_def bindE_Inr)
    with r Some assms(4) show ?thesis by (auto simp: is_error_def issue_def succeeds_def split: sum.splits if_splits)
  qed
qed

lemma check_enum_ok:
  "succeeds (check_member what allowed loc v) \<longleftrightarrow> (\<forall>i \<in> set (check_enum key allowed shown v). \<not> is_error i)"
  by (auto simp: check_member_def check_enum_def is_error_def issue_def split: option.splits)

definition no_blank_values :: "ini \<Rightarrow> bool" where
  "no_blank_values c \<longleftrightarrow> (\<forall>key \<in> {''timeout'', ''trust_scan'', ''max_size'', ''max_age''}. get_default c key \<noteq> Inr (Some []))"

lemma warnings:
  "\<forall>i \<in> set (map (\<lambda>(n, _). issue SEV_WARNING None (f n)) xs). \<not> is_error i"
  "\<forall>i \<in> set (map (\<lambda>(k, _). issue SEV_WARNING (Some k) (f k)) xs). \<not> is_error i"
  by (auto simp: is_error_def issue_def)

lemma validate_checked:
  assumes "validate_parsed c = Inr issues" and "no_blank_values c"
  shows "checked_ok c loc \<longleftrightarrow> (\<forall>i \<in> set issues. \<not> is_error i)"
proof (cases "has_section c SECTION")
  case False
  then have "checked_ok c loc"
    by (simp add: checked_ok_def get_default_def check_member_def parse_given_def)
  moreover have "\<forall>i \<in> set issues. \<not> is_error i"
    using assms(1) False by (auto simp: validate_parsed_def Let_def is_error_def issue_def)
  ultimately show ?thesis by simp
next
  case True
  then obtain enums timeout max_size max_age trust where
    enums: "check_enum_keys c = Inr enums" and keys: "check_parsed c ''timeout'' parse_timeout = Inr timeout"
      "check_parsed c ''max_size'' parse_size = Inr max_size" "check_parsed c ''max_age'' parse_age = Inr max_age"
      "check_parsed c ''trust_scan'' parse_bool = Inr trust" and
    issues: "issues = map (\<lambda>(n, _). issue SEV_WARNING None (''unknown section '' @ n)) (filter (\<lambda>(n, _). n \<notin> {SECTION, EXECUTABLES_SECTION}) (ini_sections c))
      @ map (\<lambda>(k, _). issue SEV_WARNING (Some k) (''unknown key '' @ k)) (filter (\<lambda>(k, _). k \<notin> set KNOWN_DEFAULTS_KEYS) (section_options c SECTION))
      @ enums @ timeout @ max_size @ max_age @ trust"
    using assms(1) unfolding validate_parsed_def validate_defaults_section_def Let_def bindE_Inr
    by (simp only: if_True) (elim exE conjE, simp only: bindE_Inr sum.inject, elim exE conjE, hypsubst, rule that, (assumption | rule refl)+)
  have errors: "(\<forall>i \<in> set issues. \<not> is_error i) \<longleftrightarrow> (\<forall>i \<in> set (enums @ timeout @ max_size @ max_age @ trust). \<not> is_error i)"
    unfolding issues set_append ball_Un using warnings by blast
  obtain mode persist level version where gets: "get_default c ''mode'' = Inr mode" "get_default c ''persist'' = Inr persist"
      "get_default c ''log_level'' = Inr level" "get_default c ''version'' = Inr version" and
    "enums = check_enum ''mode'' MODES (the_default [] mode) mode @ check_enum ''persist'' DEPTHS (the_default [] persist) persist
      @ check_enum ''log_level'' LOG_LEVELS (the_default [] level) (map_option upper_str level) @ check_version version"
    using enums True by (auto simp: check_enum_keys_def bindE_Inr get_defaultD)
  then have enum_errors: "(\<forall>i \<in> set enums. \<not> is_error i) \<longleftrightarrow> succeeds (check_member ''mode'' MODES loc mode)
      \<and> succeeds (check_member ''persist'' DEPTHS loc persist) \<and> succeeds (check_member ''log_level'' LOG_LEVELS loc (map_option upper_str level))"
    using check_enum_ok [of "''mode''" MODES loc mode "''mode''" "the_default [] mode"]
      check_enum_ok [of "''persist''" DEPTHS loc persist "''persist''" "the_default [] persist"]
      check_enum_ok [of "''log_level''" LOG_LEVELS loc "map_option upper_str level" "''log_level''" "the_default [] level"]
    by (auto simp: check_version_def is_error_def issue_def split: option.splits if_splits)
  have blanks: "get_default c ''timeout'' \<noteq> Inr (Some [])" "get_default c ''trust_scan'' \<noteq> Inr (Some [])"
    "get_default c ''max_size'' \<noteq> Inr (Some [])" "get_default c ''max_age'' \<noteq> Inr (Some [])"
    using assms(2) by (simp_all add: no_blank_values_def)
  note step = check_parsed_ok [OF True keys(1) blanks(1) parsers_loc(1)] check_parsed_ok [OF True keys(4) blanks(2) parsers_loc(2)]
    check_parsed_ok [OF True keys(2) blanks(3) parsers_loc(3)] check_parsed_ok [OF True keys(3) blanks(4) parsers_loc(4)]
  show ?thesis
    unfolding errors checked_ok_def step gets bindE_simps set_append ball_Un enum_errors
    by auto
qed

text \<open>
  C28: Checking predicts loading, up to what it does not look at. When checking a readable file returns its
  issues and no number or boolean in it is empty, loading succeeds exactly when none of the issues is an
  error and the steps that checking leaves out succeed: the list of adapters parses, and the log file, the
  store and the executables have no bad interpolation. A file with a syntax error has an error among its
  issues and does not load.
\<close>

theorem validate_predicts_load:
  assumes "ce_files E p = Text_File b" and "validate_config E (Some p) = Inr issues"
  shows "case decode_ini b of
      Inl _ \<Rightarrow> (\<exists>i \<in> set issues. is_error i) \<and> \<not> succeeds (load_config E (Some p))
    | Inr c \<Rightarrow> no_blank_values c \<longrightarrow>
        (succeeds (load_config E (Some p)) \<longleftrightarrow> (\<forall>i \<in> set issues. \<not> is_error i) \<and> unchecked_ok c (''in '' @ p))"
proof (cases "decode_ini b")
  case (Inl e)
  then show ?thesis using assms
    by (auto simp: validate_config_def load_config_def read_config_def Let_def the_default_def is_error_def issue_def split: if_splits)
next
  case (Inr c)
  then have "validate_parsed c = Inr issues" and "load_config E (Some p) = load_parsed c p"
    using assms by (simp_all add: validate_config_def load_config_def read_config_def Let_def the_default_def)
  then show ?thesis using Inr validate_checked [of c issues "''in '' @ p"] load_succeeds [of c p] by auto
qed

text \<open>A valid file; and three that checking accepts and loading refuses, or the reverse.\<close>

definition ini_line :: "text_str \<Rightarrow> text_str" where
  "ini_line l = ''[defaults]'' @ LF # l @ [LF]"

definition one_value :: "text_str \<Rightarrow> text_str \<Rightarrow> ini" where
  "one_value k v = \<lparr>ini_defaults = [], ini_sections = [(''defaults'', [(k, v)])]\<rparr>"

lemma one_value_get: "get_default (one_value k v) key = (if key = k then bindE (interpolate 10 [(k, v)] v) (\<lambda>t. Inr (Some t)) else Inr None)"
  by (simp add: one_value_def get_default_def has_section_def SECTION_def section_get_def section_options_def the_default_def MAX_INTERPOLATION_DEPTH_def Let_def)

lemma one_value_section: "has_section (one_value k v) SECTION" "\<not> has_section (one_value k v) EXECUTABLES_SECTION"
  "section_options (one_value k v) SECTION = [(k, v)]" "ini_sections (one_value k v) = [(SECTION, [(k, v)])]"
  by (simp_all add: one_value_def has_section_def SECTION_def EXECUTABLES_SECTION_def section_options_def the_default_def Let_def)

lemma interpolate_10: "CHR ''%'' \<notin> set v \<Longrightarrow> interpolate 10 d v = Inr v"
  using interpolate_plain [of v 9 d] by (simp add: numeral_eq_Suc)

lemma sample_file: "ce_files (sample_config_env b) ''c.ini'' = Text_File b" "resolve_config_path (sample_config_env b) = ''c.ini''"
  by (simp_all add: sample_config_env_def resolve_config_path_def env_or_def CONFIG_ENV_def)

lemmas sample_validate = validate_config_def validate_parsed_def validate_defaults_section_def check_enum_keys_def check_parsed_def
  check_enum_def check_version_def KNOWN_DEFAULTS_KEYS_def read_config_def sample_file the_default_def one_value_section
  one_value_get interpolate_10 get_defaultD Let_def

lemmas sample_load = load_config_def load_parsed_def check_member_def parse_given_def read_config_def sample_file the_default_def
  one_value_section one_value_get interpolate_10 Let_def

theorem validate_predicts_load_witness:
  "\<not> succeeds (load_config (sample_config_env (ini_line ''mode = warm'')) (Some ''c.ini''))"
proof -
  let ?E = "sample_config_env (ini_line ''mode = warm'')"
  have c: "decode_ini (ini_line ''mode = warm'') = Inr (one_value ''mode'' ''warm'')" by code_simp
  then have v: "validate_config ?E (Some ''c.ini'') = Inr [issue SEV_ERROR (Some ''mode'') ''invalid value warm'']"
    by (simp add: sample_validate MODES_def)
  have "no_blank_values (one_value ''mode'' ''warm'')" by (simp add: no_blank_values_def one_value_get)
  then show ?thesis using validate_predicts_load [OF sample_file(1) v] c by (simp add: is_error_def issue_def)
qed

lemma checked_but_not_loaded:
  "validate_config (sample_config_env (ini_line ''adapters = ,'')) None = Inr []"
  "\<not> succeeds (load_config (sample_config_env (ini_line ''adapters = ,'')) None)"
  "validate_config (sample_config_env (ini_line ''store = /mnt/100%/x'')) None = Inr []"
  "load_config (sample_config_env (ini_line ''store = /mnt/100%/x'')) None = Inl (Exn ConfigParserError ''InterpolationSyntaxError'')"
proof -
  have a: "decode_ini (ini_line ''adapters = ,'') = Inr (one_value ''adapters'' '','')" by code_simp
  have b: "decode_ini (ini_line ''store = /mnt/100%/x'') = Inr (one_value ''store'' ''/mnt/100%/x'')" by code_simp
  have p: "parse_adapters '','' loc = Inl (config_error ''adapters'' '','' loc)" for loc
    by (simp add: parse_adapters_def strip_str_def is_space_def Let_def)
  have i: "interpolate 10 d ''/mnt/100%/x'' = Inl (Exn ConfigParserError ''InterpolationSyntaxError'')" for d
    by (simp add: numeral_eq_Suc)
  show "validate_config (sample_config_env (ini_line ''adapters = ,'')) None = Inr []" by (simp add: sample_validate a)
  show "\<not> succeeds (load_config (sample_config_env (ini_line ''adapters = ,'')) None)" by (simp add: sample_load a p)
  show "validate_config (sample_config_env (ini_line ''store = /mnt/100%/x'')) None = Inr []" by (simp add: sample_validate b)
  show "load_config (sample_config_env (ini_line ''store = /mnt/100%/x'')) None = Inl (Exn ConfigParserError ''InterpolationSyntaxError'')"
    by (simp add: sample_load b i)
qed

lemma loaded_but_not_checked:
  "load_config (sample_config_env (ini_line ''trust_scan ='')) None = Inr (new_file_config\<lparr>fc_source := Some ''c.ini''\<rparr>)"
  "\<exists>i. validate_config (sample_config_env (ini_line ''trust_scan ='')) None = Inr [i] \<and> is_error i"
proof -
  have c: "decode_ini (ini_line ''trust_scan ='') = Inr (one_value ''trust_scan'' [])" by code_simp
  show "load_config (sample_config_env (ini_line ''trust_scan ='')) None = Inr (new_file_config\<lparr>fc_source := Some ''c.ini''\<rparr>)"
    by (simp add: sample_load c new_file_config_def)
  show "\<exists>i. validate_config (sample_config_env (ini_line ''trust_scan ='')) None = Inr [i] \<and> is_error i"
    by (simp add: sample_validate c parse_bool_def TRUE_WORDS_def FALSE_WORDS_def strip_str_def lower_str_def config_error_def is_error_def issue_def)
qed

text \<open>An empty \<open>GMLCACHE_LOG_LEVEL\<close> is refused, unlike every other empty variable.\<close>

lemma empty_log_level_variable:
  "\<not> succeeds (resolve_settings ((sample_config_env [])\<lparr>ce_vars := (\<lambda>v. if v = ''GMLCACHE_LOG_LEVEL'' then Some [] else None)\<rparr>)
     new_file_config no_flags)"
  by (simp add: resolve_settings_def Let_def check_env_member_def check_member_def parse_given_def LOG_LEVELS_def upper_str_def)

end
