(* ===== verification/Json_Text.thy ===== *)
theory Json_Text
  imports Py_Float
begin

text \<open>
  JSON as the code reads and writes it: \<open>json.loads\<close> on text, with its scanner's strings, numbers and
  constants, and \<open>json.dumps(..., ensure_ascii=False)\<close> for values without floats. A lone surrogate escape
  is kept in its three-byte form. A nesting that exhausts the interpreter's stack is not modelled.
\<close>

datatype json_value =
    JV_Null | JV_Bool bool | JV_Int int | JV_Float py_float | JV_Text text_str
  | JV_List "json_value list" | JV_Dict "(text_str \<times> json_value) list"

text \<open>\<open>Json_Decode\<close> is \<open>JSONDecodeError\<close>; \<open>Int_Digits\<close> is the plain \<open>ValueError\<close> of an integer with more than 4300 digits.\<close>

datatype json_error = Json_Decode | Int_Digits

definition andthen :: "'e + 'a \<Rightarrow> ('a \<Rightarrow> 'e + 'b) \<Rightarrow> 'e + 'b" where
  "andthen m f = (case m of Inl e \<Rightarrow> Inl e | Inr a \<Rightarrow> f a)"

lemma andthen_simps [simp]: "andthen (Inl e) f = Inl e" "andthen (Inr a) f = f a"
  by (simp_all add: andthen_def)

lemma andthen_Inr: "andthen m f = Inr b \<longleftrightarrow> (\<exists>a. m = Inr a \<and> f a = Inr b)"
  by (cases m) auto

section \<open>Strings\<close>

definition hex_digit :: "char \<Rightarrow> nat option" where
  "hex_digit c = (let n = of_char c in if 48 \<le> n \<and> n < 58 then Some (n - 48)
     else if 97 \<le> n \<and> n < 103 then Some (n - 87) else if 65 \<le> n \<and> n < 71 then Some (n - 55) else None)"

definition hex4 :: "text_str \<Rightarrow> (nat \<times> text_str) option" where
  "hex4 s = (case s of a # b # c # d # r \<Rightarrow>
       (case (hex_digit a, hex_digit b, hex_digit c, hex_digit d) of
          (Some a, Some b, Some c, Some d) \<Rightarrow> Some (4096 * a + 256 * b + 16 * c + d, r)
        | _ \<Rightarrow> None)
     | _ \<Rightarrow> None)"

definition utf8_char :: "nat \<Rightarrow> text_str" where
  "utf8_char n = map char_of
     (if n < 128 then [n]
      else if n < 2048 then [192 + n div 64, 128 + n mod 64]
      else if n < 65536 then [224 + n div 4096, 128 + n div 64 mod 64, 128 + n mod 64]
      else [240 + n div 262144, 128 + n div 4096 mod 64, 128 + n div 64 mod 64, 128 + n mod 64])"

definition simple_escapes :: "(char \<times> char) list" where
  "simple_escapes = [(CHR 0x22, CHR 0x22), (CHR 0x5C, CHR 0x5C), (CHR ''/'', CHR ''/''), (CHR ''b'', CHR 0x08), (CHR ''f'', CHR 0x0C),
     (CHR ''n'', CHR 0x0A), (CHR ''r'', CHR 0x0D), (CHR ''t'', CHR 0x09)]"

text \<open>A \<open>\u\<close> escape after its letter, a surrogate pair taken together.\<close>

definition unicode_escape :: "text_str \<Rightarrow> json_error + (text_str \<times> text_str)" where
  "unicode_escape s = (case hex4 s of None \<Rightarrow> Inl Json_Decode | Some (n, r) \<Rightarrow>
     if 55296 \<le> n \<and> n < 56320 \<and> starts_with [CHR 0x5C, CHR ''u''] r
     then (case hex4 (drop 2 r) of None \<Rightarrow> Inl Json_Decode | Some (m, r') \<Rightarrow>
        if 56320 \<le> m \<and> m < 57344 then Inr (utf8_char (65536 + 1024 * (n - 55296) + (m - 56320)), r') else Inr (utf8_char n, r))
     else Inr (utf8_char n, r))"

definition string_item :: "char \<Rightarrow> text_str \<Rightarrow> json_error + (text_str \<times> text_str)" where
  "string_item c s =
     (if c = CHR 0x5C then (case s of [] \<Rightarrow> Inl Json_Decode | e # r \<Rightarrow>
        if e = CHR ''u'' then unicode_escape r
        else (case map_of simple_escapes e of None \<Rightarrow> Inl Json_Decode | Some x \<Rightarrow> Inr ([x], r)))
      else if (of_char c :: nat) < 32 then Inl Json_Decode
      else Inr ([c], s))"

lemma hex4_shorter: "hex4 s = Some (n, r) \<Longrightarrow> length r < length s"
  by (auto simp: hex4_def split: list.splits option.splits)

lemma unicode_escape_shorter: "unicode_escape s = Inr (x, r) \<Longrightarrow> length r < length s"
  by (auto simp: unicode_escape_def split: option.splits if_splits dest!: hex4_shorter)

lemma string_item_shorter: "string_item c s = Inr (x, r) \<Longrightarrow> length r \<le> length s"
  by (auto simp: string_item_def split: list.splits option.splits if_splits dest!: unicode_escape_shorter)

text \<open>\<open>scanstring\<close>, after the opening quote.\<close>

function scan_string :: "text_str \<Rightarrow> json_error + (text_str \<times> text_str)" where
  "scan_string [] = Inl Json_Decode"
| "scan_string (c # s) = (if c = CHR 0x22 then Inr ([], s)
     else case string_item c s of Inl e \<Rightarrow> Inl e | Inr (x, r) \<Rightarrow>
       (case scan_string r of Inl e \<Rightarrow> Inl e | Inr (t, r') \<Rightarrow> Inr (x @ t, r')))"
  by pat_completeness auto
termination by (relation "measure length") (auto dest!: string_item_shorter)

section \<open>Numbers and constants\<close>

definition MAX_INT_DIGITS :: nat where "MAX_INT_DIGITS = 4300"

definition scan_int :: "text_str \<Rightarrow> (text_str \<times> text_str) option" where
  "scan_int s = (let ds = takeWhile is_digit s in
     if ds = [] then None else if hd ds = CHR ''0'' then Some ([CHR ''0''], tl s) else Some (ds, dropWhile is_digit s))"

definition scan_frac :: "text_str \<Rightarrow> text_str \<times> text_str" where
  "scan_frac s = (case s of [] \<Rightarrow> ([], []) | c # r \<Rightarrow>
     if c = CHR ''.'' \<and> takeWhile is_digit r \<noteq> [] then (c # takeWhile is_digit r, dropWhile is_digit r) else ([], s))"

definition scan_exp :: "text_str \<Rightarrow> text_str \<times> text_str" where
  "scan_exp s = (case s of [] \<Rightarrow> ([], []) | c # r \<Rightarrow>
     if c \<noteq> CHR ''e'' \<and> c \<noteq> CHR ''E'' then ([], s)
     else let (sign, d) = (case r of x # r' \<Rightarrow> if x = CHR ''+'' \<or> x = CHR ''-'' then ([x], r') else ([], r) | [] \<Rightarrow> ([], []))
          in if takeWhile is_digit d = [] then ([], s) else (c # sign @ takeWhile is_digit d, dropWhile is_digit d))"

definition scan_number :: "text_str \<Rightarrow> json_error + (json_value \<times> text_str)" where
  "scan_number s = (let neg = starts_with ''-'' s in
     case scan_int (if neg then tl s else s) of None \<Rightarrow> Inl Json_Decode | Some (i, r) \<Rightarrow>
       let (f, r) = scan_frac r; (x, r) = scan_exp r in
       if f = [] \<and> x = []
       then if MAX_INT_DIGITS < length i then Inl Int_Digits
            else Inr (JV_Int (if neg then - int (undec_str i) else int (undec_str i)), r)
       else (case py_float_of ((if neg then ''-'' else []) @ i @ f @ x) of
               Inl e \<Rightarrow> Inl Json_Decode | Inr y \<Rightarrow> Inr (JV_Float y, r)))"

definition json_constants :: "(text_str \<times> json_value) list" where
  "json_constants = [(''null'', JV_Null), (''true'', JV_Bool True), (''false'', JV_Bool False), (''NaN'', JV_Float NotANumber),
     (''Infinity'', JV_Float (Infinite False)), (''-Infinity'', JV_Float (Infinite True))]"

definition scan_atom :: "text_str \<Rightarrow> json_error + (json_value \<times> text_str)" where
  "scan_atom s = (case find (\<lambda>(w, v). starts_with w s) json_constants of
     Some (w, v) \<Rightarrow> Inr (v, drop (length w) s)
   | None \<Rightarrow> scan_number s)"

section \<open>Values\<close>

definition json_ws :: "char \<Rightarrow> bool" where
  "json_ws c \<longleftrightarrow> c = CHR '' '' \<or> c = CHR 0x09 \<or> c = CHR 0x0A \<or> c = CHR 0x0D"

abbreviation skip_ws :: "text_str \<Rightarrow> text_str" where
  "skip_ws \<equiv> dropWhile json_ws"

text \<open>
  \<open>scan_once\<close>; members and items start at their first character, after a brace, bracket or comma and spaces. The
  fuel counts the steps; twice the length of the text is enough, as \<open>parse_fuel\<close> below shows.
\<close>

fun parse_value :: "nat \<Rightarrow> text_str \<Rightarrow> json_error + (json_value \<times> text_str)"
  and parse_members :: "nat \<Rightarrow> (text_str \<times> json_value) list \<Rightarrow> text_str \<Rightarrow> json_error + (json_value \<times> text_str)"
  and parse_items :: "nat \<Rightarrow> json_value list \<Rightarrow> text_str \<Rightarrow> json_error + (json_value \<times> text_str)" where
  "parse_value 0 s = Inl Json_Decode"
| "parse_value (Suc n) s = (case s of [] \<Rightarrow> Inl Json_Decode | c # r \<Rightarrow>
     if c = CHR 0x22 then andthen (scan_string r) (\<lambda>(t, r). Inr (JV_Text t, r))
     else if c = CHR ''{''
     then (if starts_with ''}'' (skip_ws r) then Inr (JV_Dict [], tl (skip_ws r)) else parse_members n [] (skip_ws r))
     else if c = CHR ''[''
     then (if starts_with '']'' (skip_ws r) then Inr (JV_List [], tl (skip_ws r)) else parse_items n [] (skip_ws r))
     else scan_atom s)"
| "parse_members 0 acc s = Inl Json_Decode"
| "parse_members (Suc n) acc s = (case s of [] \<Rightarrow> Inl Json_Decode | c # r \<Rightarrow>
     if c \<noteq> CHR 0x22 then Inl Json_Decode else andthen (scan_string r) (\<lambda>(k, r).
       if \<not> starts_with '':'' (skip_ws r) then Inl Json_Decode
       else andthen (parse_value n (skip_ws (tl (skip_ws r)))) (\<lambda>(v, r).
         if starts_with ''}'' (skip_ws r) then Inr (JV_Dict (dict_set k v acc), tl (skip_ws r))
         else if starts_with '','' (skip_ws r) then parse_members n (dict_set k v acc) (skip_ws (tl (skip_ws r)))
         else Inl Json_Decode)))"
| "parse_items 0 acc s = Inl Json_Decode"
| "parse_items (Suc n) acc s = andthen (parse_value n s) (\<lambda>(v, r).
     if starts_with '']'' (skip_ws r) then Inr (JV_List (acc @ [v]), tl (skip_ws r))
     else if starts_with '','' (skip_ws r) then parse_items n (acc @ [v]) (skip_ws (tl (skip_ws r)))
     else Inl Json_Decode)"

definition BOM :: text_str where "BOM = [CHR 0xEF, CHR 0xBB, CHR 0xBF]"

definition json_loads :: "text_str \<Rightarrow> json_error + json_value" where
  "json_loads s = (if starts_with BOM s then Inl Json_Decode
     else andthen (parse_value (Suc (2 * length s)) (skip_ws s)) (\<lambda>(v, r). if skip_ws r = [] then Inr v else Inl Json_Decode))"

section \<open>What is left gets shorter, and the fuel is enough\<close>

lemma skip_ws_le: "length (skip_ws s) \<le> length s"
  by (rule length_dropWhile_le)

lemma tl_skip_ws_le: "starts_with [c] (skip_ws s) \<Longrightarrow> length (skip_ws (tl (skip_ws s))) < length s"
  using skip_ws_le [of s] skip_ws_le [of "tl (skip_ws s)"] by (cases "skip_ws s") (auto simp: starts_with_def)

lemma scan_string_shorter: "scan_string s = Inr (t, r) \<Longrightarrow> length r < length s"
proof (induction s arbitrary: t rule: scan_string.induct)
  case (2 c s)
  then show ?case
    by (fastforce split: if_splits sum.splits prod.splits dest: string_item_shorter)
qed simp

lemma scan_int_shorter: "scan_int s = Some (i, r) \<Longrightarrow> length r < length s"
  by (cases s) (auto simp: scan_int_def Let_def length_dropWhile_le less_Suc_eq_le split: if_splits)

lemma scan_frac_le: "scan_frac s = (f, r) \<Longrightarrow> length r \<le> length s"
  by (auto simp: scan_frac_def length_dropWhile_le le_Suc_eq split: list.splits if_splits)

lemma scan_exp_le: "scan_exp s = (x, r) \<Longrightarrow> length r \<le> length s"
  by (auto simp: scan_exp_def Let_def split: list.splits if_splits intro: le_trans [OF length_dropWhile_le])

lemma scan_number_shorter: "scan_number s = Inr (v, r) \<Longrightarrow> length r < length s"
  by (auto simp: scan_number_def Let_def split: option.splits prod.splits if_splits sum.splits
      dest!: scan_int_shorter scan_frac_le scan_exp_le)

lemma scan_atom_shorter: "scan_atom s = Inr (v, r) \<Longrightarrow> length r < length s"
  by (auto simp: scan_atom_def json_constants_def starts_with_iff split: option.splits if_splits dest!: scan_number_shorter)

lemma parse_value_cases:
  assumes "parse_value n s = Inr (v, r)"
  obtains (string) m t x where "n = Suc m" "s = CHR 0x22 # t" "scan_string t = Inr (x, r)" "v = JV_Text x"
    | (empty_dict) m t where "n = Suc m" "s = CHR ''{'' # t" "skip_ws t = CHR ''}'' # r" "v = JV_Dict []"
    | (dict) m t where "n = Suc m" "s = CHR ''{'' # t" "\<not> starts_with ''}'' (skip_ws t)" "parse_members m [] (skip_ws t) = Inr (v, r)"
    | (empty_list) m t where "n = Suc m" "s = CHR ''['' # t" "skip_ws t = CHR '']'' # r" "v = JV_List []"
    | (list) m t where "n = Suc m" "s = CHR ''['' # t" "\<not> starts_with '']'' (skip_ws t)" "parse_items m [] (skip_ws t) = Inr (v, r)"
    | (atom) m c t where "n = Suc m" "s = c # t" "c \<notin> {CHR 0x22, CHR ''{'', CHR ''[''}" "scan_atom s = Inr (v, r)"
proof (cases n)
  case (Suc m)
  note n = this
  show ?thesis
  proof (cases s)
    case (Cons c t)
    show ?thesis
      using assms Suc Cons string [OF n, of t] empty_dict [OF n, of t] dict [OF n, of t] empty_list [OF n, of t] list [OF n, of t] atom [OF n, of c t]
      by (auto simp: andthen_Inr starts_with_iff split: if_splits)
  qed (use assms Suc in simp)
qed (use assms in simp)

lemma parse_members_cases:
  assumes "parse_members n acc s = Inr (v, r)"
  obtains (last) m t k u u' w x where "n = Suc m" "s = CHR 0x22 # t" "scan_string t = Inr (k, u)" "skip_ws u = CHR '':'' # u'"
      "parse_value m (skip_ws u') = Inr (w, x)" "skip_ws x = CHR ''}'' # r" "v = JV_Dict (dict_set k w acc)"
    | (more) m t k u u' w x x' where "n = Suc m" "s = CHR 0x22 # t" "scan_string t = Inr (k, u)" "skip_ws u = CHR '':'' # u'"
      "parse_value m (skip_ws u') = Inr (w, x)" "skip_ws x = CHR '','' # x'"
      "parse_members m (dict_set k w acc) (skip_ws x') = Inr (v, r)"
proof (cases n)
  case (Suc m)
  show ?thesis
    using assms Suc last [OF Suc] more [OF Suc]
    by (auto simp: andthen_Inr starts_with_iff split: list.splits if_splits)
qed (use assms in simp)

lemma parse_items_cases:
  assumes "parse_items n items s = Inr (v, r)"
  obtains (last) m w x where "n = Suc m" "parse_value m s = Inr (w, x)" "skip_ws x = CHR '']'' # r" "v = JV_List (items @ [w])"
    | (more) m w x x' where "n = Suc m" "parse_value m s = Inr (w, x)" "skip_ws x = CHR '','' # x'"
      "parse_items m (items @ [w]) (skip_ws x') = Inr (v, r)"
proof (cases n)
  case (Suc m)
  show ?thesis
    using assms Suc last [OF Suc] more [OF Suc] by (auto simp: andthen_Inr starts_with_iff split: if_splits)
qed (use assms in simp)

lemma skip_ws_Cons: "skip_ws s = c # t \<Longrightarrow> length (skip_ws t) < length s"
  using skip_ws_le [of s] skip_ws_le [of t] by simp

lemma parse_shorter:
  "(\<forall>s v r. parse_value n s = Inr (v, r) \<longrightarrow> length r < length s)
   \<and> (\<forall>acc s v r. parse_members n acc s = Inr (v, r) \<longrightarrow> length r < length s)
   \<and> (\<forall>items s v r. parse_items n items s = Inr (v, r) \<longrightarrow> length r < length s)"
proof (induction n)
  case (Suc n)
  have shorter: "length r < length s" if "skip_ws s = c # r" for s c r using that skip_ws_le [of s] by simp
  have "length r < length s" if "parse_value (Suc n) s = Inr (v, r)" for s v r
    using that
  proof (cases rule: parse_value_cases)
    case (dict m t)
    then have "length r < length (skip_ws t)" using Suc by blast
    then show ?thesis using dict(2) skip_ws_le [of t] by simp
  next
    case (list m t)
    then have "length r < length (skip_ws t)" using Suc by blast
    then show ?thesis using list(2) skip_ws_le [of t] by simp
  qed (auto dest: scan_string_shorter shorter scan_atom_shorter)
  moreover have "length r < length s" if "parse_members (Suc n) acc s = Inr (v, r)" for acc s v r
    using that
  proof (cases rule: parse_members_cases)
    case (last m t k u u' w x)
    then have "length x < length (skip_ws u')" using Suc by blast
    then show ?thesis using last scan_string_shorter [OF last(3)] shorter [OF last(6)] skip_ws_Cons [OF last(4)] by simp
  next
    case (more m t k u u' w x x')
    then have "length x < length (skip_ws u')" "length r < length (skip_ws x')" using Suc by blast+
    then show ?thesis using more scan_string_shorter [OF more(3)] skip_ws_Cons [OF more(6)] skip_ws_Cons [OF more(4)] by simp
  qed
  moreover have "length r < length s" if "parse_items (Suc n) items s = Inr (v, r)" for items s v r
    using that
  proof (cases rule: parse_items_cases)
    case (last m w x)
    then have "length x < length s" using Suc by blast
    then show ?thesis using shorter [OF last(3)] by simp
  next
    case (more m w x x')
    then have "length x < length s" "length r < length (skip_ws x')" using Suc by blast+
    then show ?thesis using skip_ws_Cons [OF more(3)] by simp
  qed
  ultimately show ?case by blast
qed simp

lemma andthen_cong: "m = m' \<Longrightarrow> (\<And>x. m' = Inr x \<Longrightarrow> f x = g x) \<Longrightarrow> andthen m f = andthen m' g"
  by (cases m') auto

lemma parse_fuel:
  "(\<forall>s m. 2 * length s < n \<longrightarrow> 2 * length s < m \<longrightarrow> parse_value n s = parse_value m s)
   \<and> (\<forall>acc s m. 2 * length s < n \<longrightarrow> 2 * length s < m \<longrightarrow> parse_members n acc s = parse_members m acc s)
   \<and> (\<forall>items s m. Suc (2 * length s) < n \<longrightarrow> Suc (2 * length s) < m \<longrightarrow> parse_items n items s = parse_items m items s)"
proof (induction n)
  case (Suc n)
  from Suc have IHv: "2 * length s < n \<Longrightarrow> 2 * length s < m \<Longrightarrow> parse_value n s = parse_value m s"
    and IHm: "2 * length s < n \<Longrightarrow> 2 * length s < m \<Longrightarrow> parse_members n acc s = parse_members m acc s"
    and IHi: "Suc (2 * length s) < n \<Longrightarrow> Suc (2 * length s) < m \<Longrightarrow> parse_items n items s = parse_items m items s"
    for s m acc items by blast+
  have vals: "parse_value (Suc n) s = parse_value (Suc m) s" if "2 * length s < Suc n" "2 * length s < Suc m" for s m
  proof (cases s)
    case (Cons c t)
    then have "Suc (2 * length (skip_ws t)) < n" "Suc (2 * length (skip_ws t)) < m" using that skip_ws_le [of t] by auto
    then have "parse_members n [] (skip_ws t) = parse_members m [] (skip_ws t)" "parse_items n [] (skip_ws t) = parse_items m [] (skip_ws t)"
      by (auto intro!: IHm IHi)
    then show ?thesis using Cons by simp
  qed simp
  have members: "parse_members (Suc n) acc s = parse_members (Suc m) acc s"
    if len: "2 * length s < Suc n" "2 * length s < Suc m" for acc s m
  proof (cases s)
    case (Cons c t)
    have "parse_value n (skip_ws (tl (skip_ws u))) = parse_value m (skip_ws (tl (skip_ws u)))"
      and "parse_value m (skip_ws (tl (skip_ws u))) = Inr (v, w) \<Longrightarrow> starts_with '','' (skip_ws w) \<Longrightarrow>
        parse_members n acc' (skip_ws (tl (skip_ws w))) = parse_members m acc' (skip_ws (tl (skip_ws w)))"
      if "scan_string t = Inr (k, u)" "starts_with '':'' (skip_ws u)" for k u v w acc'
    proof -
      have "length u < length t" using that(1) by (rule scan_string_shorter)
      with tl_skip_ws_le [OF that(2)] have short: "length (skip_ws (tl (skip_ws u))) < length t" by simp
      then show "parse_value n (skip_ws (tl (skip_ws u))) = parse_value m (skip_ws (tl (skip_ws u)))"
        using len Cons by (intro IHv) simp_all
      assume "parse_value m (skip_ws (tl (skip_ws u))) = Inr (v, w)" and comma: "starts_with '','' (skip_ws w)"
      then have "length w < length t" using parse_shorter [of m] short by fastforce
      with tl_skip_ws_le [OF comma] have "length (skip_ws (tl (skip_ws w))) < length t" by simp
      then show "parse_members n acc' (skip_ws (tl (skip_ws w))) = parse_members m acc' (skip_ws (tl (skip_ws w)))"
        using len Cons by (intro IHm) simp_all
    qed
    then show ?thesis using Cons by (auto intro!: andthen_cong)
  qed simp
  have items: "parse_items (Suc n) items s = parse_items (Suc m) items s"
    if len: "Suc (2 * length s) < Suc n" "Suc (2 * length s) < Suc m" for items s m
  proof -
    have "parse_items n acc (skip_ws (tl (skip_ws w))) = parse_items m acc (skip_ws (tl (skip_ws w)))"
      if "parse_value m s = Inr (v, w)" "starts_with '','' (skip_ws w)" for v w acc
    proof -
      have "length w < length s" using parse_shorter [of m] that(1) by blast
      with tl_skip_ws_le [OF that(2)] have "length (skip_ws (tl (skip_ws w))) < length s" by simp
      then show ?thesis using len by (intro IHi) simp_all
    qed
    moreover have "parse_value n s = parse_value m s" using len by (intro IHv) simp_all
    ultimately show ?thesis by (auto intro!: andthen_cong)
  qed
  show ?case
  proof (intro conjI allI impI)
    fix s :: text_str and m assume len: "2 * length s < Suc n" "2 * length s < m"
    obtain m' where m: "m = Suc m'" using len(2) by (cases m) auto
    show "parse_value (Suc n) s = parse_value m s" using vals [of s m'] len unfolding m by blast
  next
    fix acc and s :: text_str and m assume len: "2 * length s < Suc n" "2 * length s < m"
    obtain m' where m: "m = Suc m'" using len(2) by (cases m) auto
    show "parse_members (Suc n) acc s = parse_members m acc s" using members [of s m'] len unfolding m by blast
  next
    fix items and s :: text_str and m assume len: "Suc (2 * length s) < Suc n" "Suc (2 * length s) < m"
    obtain m' where m: "m = Suc m'" using len(2) by (cases m) auto
    show "parse_items (Suc n) items s = parse_items m items s" using items [of s m'] len unfolding m by blast
  qed
qed simp

section \<open>Reading on from where a value ends\<close>

text \<open>A value that is read is read the same when more text follows, if what follows it is a delimiter.\<close>

definition delimited :: "text_str \<Rightarrow> bool" where
  "delimited r \<longleftrightarrow> (case r of [] \<Rightarrow> False | c # _ \<Rightarrow> json_ws c \<or> c \<in> {CHR '','', CHR '']'', CHR ''}''})"

lemma starts_with_Cons [simp]: "starts_with (a # p) (b # s) \<longleftrightarrow> a = b \<and> starts_with p s" "starts_with [] s" "\<not> starts_with (a # p) []"
  by (auto simp: starts_with_def)

lemma starts_with_more: "starts_with p s \<Longrightarrow> starts_with p (s @ t)"
  by (auto simp: starts_with_iff)

lemma hex4_more: "hex4 s = Some (n, r) \<Longrightarrow> hex4 (s @ t) = Some (n, r @ t)"
  by (auto simp: hex4_def split: list.splits option.splits)

lemma unicode_escape_more:
  assumes "unicode_escape s = Inr (x, r)" "r \<noteq> []" "r \<noteq> [CHR 0x5C]"
  shows "unicode_escape (s @ t) = Inr (x, r @ t)"
proof -
  from assms(1) obtain n u where u: "hex4 s = Some (n, u)" by (auto simp: unicode_escape_def split: option.splits)
  show ?thesis
  proof (cases "55296 \<le> n \<and> n < 56320 \<and> starts_with [CHR 0x5C, CHR ''u''] u")
    case True
    then obtain u' where u': "u = CHR 0x5C # CHR ''u'' # u'" by (auto simp: starts_with_iff)
    with True u assms(1) obtain m v where "hex4 u' = Some (m, v)" by (auto simp: unicode_escape_def split: option.splits)
    with True u u' assms(1) show ?thesis by (auto simp: unicode_escape_def hex4_more split: if_splits)
  next
    case False
    then have r: "r = u" "x = utf8_char n" using assms(1) u by (auto simp: unicode_escape_def)
    then have "\<not> (55296 \<le> n \<and> n < 56320 \<and> starts_with [CHR 0x5C, CHR ''u''] (u @ t))"
      using False assms(2,3) by (cases u; cases "tl u") (auto simp: starts_with_def)
    then show ?thesis using hex4_more [OF u] r by (auto simp: unicode_escape_def)
  qed
qed

lemma scan_string_open: "scan_string [] = Inl e" "scan_string [CHR 0x5C] = Inl e'" if "e = Json_Decode" "e' = Json_Decode"
  using that by (simp_all add: string_item_def)

lemma string_item_more:
  assumes "string_item c s = Inr (x, r)" "r \<noteq> []" "r \<noteq> [CHR 0x5C]"
  shows "string_item c (s @ t) = Inr (x, r @ t)"
  using assms by (auto simp: string_item_def unicode_escape_more split: list.splits option.splits if_splits)

lemma scan_string_more: "scan_string s = Inr (x, r) \<Longrightarrow> scan_string (s @ t) = Inr (x, r @ t)"
proof (induction s arbitrary: x rule: scan_string.induct)
  case (2 c s)
  show ?case
  proof (cases "c = CHR 0x22")
    case False
    with 2(2) obtain y u z where item: "string_item c s = Inr (y, u)" "scan_string u = Inr (z, r)" "x = y @ z"
      by (auto split: sum.splits)
    then have "u \<noteq> []" "u \<noteq> [CHR 0x5C]" by (auto simp: string_item_def)
    with string_item_more [OF item(1)] 2(1) [OF False item(1) refl item(2)] False item(3) show ?thesis by simp
  qed (use 2(2) in simp)
qed simp

lemma takeWhile_more: "dropWhile P s \<noteq> [] \<Longrightarrow> takeWhile P (s @ t) = takeWhile P s \<and> dropWhile P (s @ t) = dropWhile P s @ t"
  by (induction s) auto

lemma scan_int_more: "scan_int s = Some (i, r) \<Longrightarrow> r \<noteq> [] \<Longrightarrow> scan_int (s @ t) = Some (i, r @ t)"
proof -
  assume i: "scan_int s = Some (i, r)" and r: "r \<noteq> []"
  then obtain c u where s: "s = c # u" by (cases s) (auto simp: scan_int_def)
  show ?thesis
  proof (cases "c = CHR ''0''")
    case True
    then show ?thesis using i s by (auto simp: scan_int_def is_digit_def)
  next
    case False
    then have "dropWhile is_digit s = r" using i s by (auto simp: scan_int_def Let_def split: if_splits)
    with takeWhile_more [of is_digit s t] r have "takeWhile is_digit (s @ t) = takeWhile is_digit s" "dropWhile is_digit (s @ t) = r @ t"
      by auto
    then show ?thesis using i False s by (auto simp: scan_int_def Let_def split: if_splits)
  qed
qed

lemma scan_frac_more: "scan_frac s = (f, r) \<Longrightarrow> r \<noteq> [] \<Longrightarrow> hd r \<noteq> CHR ''.'' \<Longrightarrow> scan_frac (s @ t) = (f, r @ t)"
  using takeWhile_more [of is_digit "tl s" t] by (auto simp: scan_frac_def split: list.splits if_splits)

lemma delimited_simps: "delimited r \<Longrightarrow> r \<noteq> []" "delimited r \<Longrightarrow> hd r \<notin> {CHR ''.'', CHR ''e'', CHR ''E''}"
  by (auto simp: delimited_def json_ws_def split: list.splits)

lemma scan_exp_more: "scan_exp s = (x, r) \<Longrightarrow> delimited r \<Longrightarrow> scan_exp (s @ t) = (x, r @ t)"
proof -
  assume x: "scan_exp s = (x, r)" and r: "delimited r"
  have cut: "takeWhile is_digit (d @ t) = takeWhile is_digit d \<and> dropWhile is_digit (d @ t) = r @ t" if "dropWhile is_digit d = r" for d
    using takeWhile_more [of is_digit d t] delimited_simps(1) [OF r] that by simp
  show ?thesis
  proof (cases s)
    case (Cons c u)
    show ?thesis
      using x delimited_simps [OF r] Cons
      by (cases u) (auto simp: scan_exp_def Let_def cut split: if_splits)
  qed (use x r in \<open>simp add: scan_exp_def delimited_def\<close>)
qed

lemma scan_number_more: "scan_number s = Inr (v, r) \<Longrightarrow> delimited r \<Longrightarrow> scan_number (s @ t) = Inr (v, r @ t)"
proof -
  assume v: "scan_number s = Inr (v, r)" and r: "delimited r"
  define neg where "neg = starts_with ''-'' s"
  obtain i u f w x where i: "scan_int (if neg then tl s else s) = Some (i, u)" and f: "scan_frac u = (f, w)" and x: "scan_exp w = (x, r)"
    using v by (auto simp: scan_number_def neg_def Let_def split: option.splits prod.splits if_splits sum.splits)
  have w: "w \<noteq> []" "hd w \<noteq> CHR ''.''"
    using x delimited_simps [OF r] by (auto simp: scan_exp_def Let_def split: list.splits if_splits)
  then have u: "u \<noteq> []" using f by (auto simp: scan_frac_def split: if_splits)
  have s: "s \<noteq> []" using i by (auto simp: scan_int_def neg_def starts_with_def)
  then have neg: "starts_with ''-'' (s @ t) = neg" by (cases s) (auto simp: neg_def)
  have "scan_int (if neg then tl (s @ t) else s @ t) = Some (i, u @ t)"
    using scan_int_more [OF i u, of t] s by (auto split: if_splits)
  then show ?thesis
    using v scan_frac_more [OF f w] scan_exp_more [OF x r] i f x
    by (auto simp: scan_number_def neg neg_def [symmetric] Let_def split: sum.splits if_splits)
qed

lemma scan_int_start: "scan_int s = Some x \<Longrightarrow> \<exists>d w. s = d # w \<and> is_digit d"
  by (cases s) (auto simp: scan_int_def Let_def split: if_splits)

lemma scan_number_start:
  "scan_number s = Inr (v, r) \<Longrightarrow> \<exists>c u. s = c # u \<and> (is_digit c \<or> c = CHR ''-'' \<and> (\<exists>d w. u = d # w \<and> is_digit d))"
  by (cases s) (auto simp: scan_number_def Let_def split: option.splits if_splits dest!: scan_int_start)

lemma constant_start: "(w, y) \<in> set json_constants \<Longrightarrow> starts_with w (c # s) \<Longrightarrow> \<not> is_digit c \<and> (c = CHR ''-'' \<longrightarrow> starts_with ''I'' s)"
  by (cases s) (auto simp: json_constants_def is_digit_def)

lemma constant_found: "(w, y) \<in> set json_constants \<Longrightarrow> find (\<lambda>(w', v). starts_with w' (w @ u)) json_constants = Some (w, y)"
  unfolding json_constants_def list.set insert_iff empty_iff prod.inject by (elim disjE conjE FalseE; hypsubst; simp)

lemma scan_atom_number:
  assumes "scan_number s = Inr (v, r)"
  shows "scan_atom s = Inr (v, r)"
proof -
  obtain c u where s: "s = c # u" "is_digit c \<or> c = CHR ''-'' \<and> (\<exists>d w. u = d # w \<and> is_digit d)"
    using scan_number_start [OF assms] by blast
  have "\<not> is_digit (CHR ''I'')" by (simp add: is_digit_def)
  then have "find (\<lambda>(w, v). starts_with w s) json_constants = None"
    using s by (auto simp: find_None_iff dest: constant_start)
  then show ?thesis using assms by (simp add: scan_atom_def)
qed

lemma scan_atom_more: "scan_atom s = Inr (v, r) \<Longrightarrow> delimited r \<Longrightarrow> scan_atom (s @ t) = Inr (v, r @ t)"
proof -
  assume a: "scan_atom s = Inr (v, r)" and r: "delimited r"
  show ?thesis
  proof (cases "find (\<lambda>(w, v). starts_with w s) json_constants")
    case None
    then show ?thesis using a scan_atom_number [OF scan_number_more [OF _ r]] by (simp add: scan_atom_def)
  next
    case (Some wv)
    obtain w y where wv: "wv = (w, y)" by force
    obtain k where "k < length json_constants" "json_constants ! k = (w, y)" "starts_with w s"
      using Some wv by (auto simp: find_Some_iff)
    then have s: "starts_with w s" "(w, y) \<in> set json_constants" by (auto dest: nth_mem)
    then obtain u where u: "s = w @ u" by (auto simp: starts_with_iff)
    show ?thesis using a Some wv constant_found [OF s(2), of "u @ t"] by (simp add: scan_atom_def u)
  qed
qed

lemma skip_ws_more: "skip_ws s \<noteq> [] \<Longrightarrow> skip_ws (s @ t) = skip_ws s @ t"
  by (simp add: takeWhile_more)

lemma skip_ws_delimited: "skip_ws s = c # u \<Longrightarrow> c \<in> {CHR '','', CHR '']'', CHR ''}''} \<Longrightarrow> delimited s"
  by (cases s) (auto simp: delimited_def split: if_splits)

definition self_delimiting :: "text_str \<Rightarrow> bool" where
  "self_delimiting s \<longleftrightarrow> (\<exists>c u. s = c # u \<and> c \<in> {CHR 0x22, CHR ''{'', CHR ''[''})"

lemma parse_more:
  "(\<forall>s v r. parse_value n s = Inr (v, r) \<longrightarrow> delimited r \<or> self_delimiting s \<longrightarrow> parse_value n (s @ t) = Inr (v, r @ t))
   \<and> (\<forall>acc s v r. parse_members n acc s = Inr (v, r) \<longrightarrow> parse_members n acc (s @ t) = Inr (v, r @ t))
   \<and> (\<forall>items s v r. parse_items n items s = Inr (v, r) \<longrightarrow> parse_items n items (s @ t) = Inr (v, r @ t))"
proof (induction n)
  case (Suc n)
  from Suc have IHv: "parse_value n s = Inr (v, r) \<Longrightarrow> delimited r \<or> self_delimiting s \<Longrightarrow> parse_value n (s @ t) = Inr (v, r @ t)"
    and IHm: "parse_members n acc s = Inr (v, r) \<Longrightarrow> parse_members n acc (s @ t) = Inr (v, r @ t)"
    and IHi: "parse_items n items s = Inr (v, r) \<Longrightarrow> parse_items n items (s @ t) = Inr (v, r @ t)"
    for s v r acc items by blast+
  have vals: "parse_value (Suc n) (s @ t) = Inr (v, r @ t)"
    if "parse_value (Suc n) s = Inr (v, r)" "delimited r \<or> self_delimiting s" for s v r
    using that(1)
  proof (cases rule: parse_value_cases)
    case (string m u x)
    then show ?thesis by (simp add: scan_string_more)
  next
    case (empty_dict m u)
    then show ?thesis using skip_ws_more [of u t] by simp
  next
    case (dict m u)
    then have "skip_ws u \<noteq> []" using parse_shorter [of n] by fastforce
    with dict show ?thesis using skip_ws_more [of u t] IHm [of "[]" "skip_ws u" v r]
      by (cases "skip_ws u") auto
  next
    case (empty_list m u)
    then show ?thesis using skip_ws_more [of u t] by simp
  next
    case (list m u)
    then have "skip_ws u \<noteq> []" using parse_shorter [of n] by fastforce
    with list show ?thesis using skip_ws_more [of u t] IHi [of "[]" "skip_ws u" v r]
      by (cases "skip_ws u") auto
  next
    case (atom m c u)
    then have "delimited r" using that(2) by (auto simp: self_delimiting_def)
    with atom show ?thesis using scan_atom_more [of s v r t] by simp
  qed
  have members: "parse_members (Suc n) acc (s @ t) = Inr (v, r @ t)" if "parse_members (Suc n) acc s = Inr (v, r)" for acc s v r
    using that
  proof (cases rule: parse_members_cases)
    case (last m u k w w' y x)
    have "parse_value n (skip_ws w' @ t) = Inr (y, x @ t)"
      using last IHv skip_ws_delimited [OF last(6)] by auto
    moreover have "skip_ws w' \<noteq> []" using last parse_shorter [of n] by fastforce
    ultimately show ?thesis
      using last skip_ws_more [of w t] skip_ws_more [of x t] skip_ws_more [of w' t] by (simp add: scan_string_more)
  next
    case (more m u k w w' y x x')
    have "parse_value n (skip_ws w' @ t) = Inr (y, x @ t)"
      using more IHv skip_ws_delimited [OF more(6)] by auto
    moreover have "skip_ws w' \<noteq> []" "skip_ws x' \<noteq> []" using more parse_shorter [of n] by fastforce+
    ultimately show ?thesis
      using more skip_ws_more [of w t] skip_ws_more [of x t] skip_ws_more [of w' t] skip_ws_more [of x' t] IHm
      by (simp add: scan_string_more)
  qed
  have items: "parse_items (Suc n) items (s @ t) = Inr (v, r @ t)" if "parse_items (Suc n) items s = Inr (v, r)" for items s v r
    using that
  proof (cases rule: parse_items_cases)
    case (last m y x)
    then show ?thesis using IHv skip_ws_delimited [OF last(3)] skip_ws_more [of x t] by simp
  next
    case (more m y x x')
    then have "skip_ws x' \<noteq> []" using parse_shorter [of n] by fastforce
    then show ?thesis
      using more IHv skip_ws_delimited [OF more(3)] skip_ws_more [of x t] skip_ws_more [of x' t] IHi by simp
  qed
  show ?case using vals members items by blast
qed simp

lemma parse_value_fuel: "2 * length s < n \<Longrightarrow> 2 * length s < m \<Longrightarrow> parse_value n s = parse_value m s"
  using parse_fuel [of n] by blast

lemma parse_value_more:
  "parse_value n s = Inr (v, r) \<Longrightarrow> delimited r \<or> self_delimiting s \<Longrightarrow> parse_value n (s @ t) = Inr (v, r @ t)"
  using parse_more [of n t] by blast

section \<open>Writing\<close>

definition hex_char :: "nat \<Rightarrow> char" where
  "hex_char n = char_of (if n < 10 then 48 + n else 87 + n)"

definition short_escapes :: "(char \<times> char) list" where
  "short_escapes = [(CHR 0x22, CHR 0x22), (CHR 0x5C, CHR 0x5C), (CHR 0x0A, CHR ''n''), (CHR 0x0D, CHR ''r''), (CHR 0x09, CHR ''t''),
     (CHR 0x0C, CHR ''f''), (CHR 0x08, CHR ''b'')]"

definition escape_char :: "char \<Rightarrow> text_str" where
  "escape_char c = (case map_of short_escapes c of
       Some e \<Rightarrow> [CHR 0x5C, e]
     | None \<Rightarrow> if (of_char c :: nat) < 32
         then [CHR 0x5C, CHR ''u'', CHR ''0'', CHR ''0'', hex_char (of_char c div 16), hex_char (of_char c mod 16)] else [c])"

definition quote_text :: "text_str \<Rightarrow> text_str" where
  "quote_text s = CHR 0x22 # concat (map escape_char s) @ [CHR 0x22]"

text \<open>
  \<open>sp\<close> follows every comma and colon: a space by default. There is no text for a float, whose shortest
  numeral is not modelled, and for an integer of more than 4300 digits, for which Python raises.
\<close>

definition joined :: "text_str \<Rightarrow> text_str option list \<Rightarrow> text_str option" where
  "joined sp ts = map_option (join_str ('','' @ sp)) (those ts)"

definition member_text :: "text_str \<Rightarrow> text_str \<times> text_str option \<Rightarrow> text_str option" where
  "member_text sp kt = map_option (\<lambda>t. quote_text (fst kt) @ '':'' @ sp @ t) (snd kt)"

primrec json_dumps :: "text_str \<Rightarrow> json_value \<Rightarrow> text_str option" where
  "json_dumps sp JV_Null = Some ''null''"
| "json_dumps sp (JV_Bool b) = Some (if b then ''true'' else ''false'')"
| "json_dumps sp (JV_Int i) = (if length (dec_str (nat \<bar>i\<bar>)) \<le> MAX_INT_DIGITS then Some (int_str i) else None)"
| "json_dumps sp (JV_Float x) = None"
| "json_dumps sp (JV_Text s) = Some (quote_text s)"
| "json_dumps sp (JV_List vs) = map_option (\<lambda>b. ''['' @ b @ '']'') (joined sp (map (json_dumps sp) vs))"
| "json_dumps sp (JV_Dict kvs) =
     map_option (\<lambda>b. ''{'' @ b @ ''}'') (joined sp (map (member_text sp) (map (map_prod id (json_dumps sp)) kvs)))"

text \<open>A dict has one value for each key.\<close>

primrec dicts_ok :: "json_value \<Rightarrow> bool" where
  "dicts_ok JV_Null = True"
| "dicts_ok (JV_Bool b) = True"
| "dicts_ok (JV_Int i) = True"
| "dicts_ok (JV_Float x) = True"
| "dicts_ok (JV_Text s) = True"
| "dicts_ok (JV_List vs) = list_all id (map dicts_ok vs)"
| "dicts_ok (JV_Dict kvs) = (distinct (map fst kvs) \<and> list_all snd (map (map_prod id dicts_ok) kvs))"

section \<open>Reading what was written\<close>

lemma hex_digit_char: "n < 16 \<Longrightarrow> hex_digit (hex_char n) = Some n"
  by (simp add: hex_digit_def hex_char_def Let_def)

lemma short_escapes_back: "map_of short_escapes c = Some e \<Longrightarrow> map_of simple_escapes e = Some c \<and> e \<noteq> CHR ''u''"
proof -
  have "list_all (\<lambda>(c, e). map_of simple_escapes e = Some c \<and> e \<noteq> CHR ''u'') short_escapes"
    by (simp add: short_escapes_def simple_escapes_def)
  then show "map_of short_escapes c = Some e \<Longrightarrow> map_of simple_escapes e = Some c \<and> e \<noteq> CHR ''u''"
    by (auto simp: list_all_iff dest!: map_of_SomeD)
qed

lemma short_escapes_none: "map_of short_escapes c = None \<Longrightarrow> c \<noteq> CHR 0x22 \<and> c \<noteq> CHR 0x5C"
  by (auto simp: short_escapes_def)

lemma control_escape:
  assumes "(of_char c :: nat) < 32"
  shows "unicode_escape (CHR ''0'' # CHR ''0'' # hex_char (of_char c div 16) # hex_char (of_char c mod 16) # r) = Inr ([c], r)"
proof -
  have small: "(of_char c :: nat) div 16 < 16" "(of_char c :: nat) mod 16 < 16" using assms by auto
  have "hex_digit (CHR ''0'') = Some 0" by (simp add: hex_digit_def)
  then have hex: "hex4 (CHR ''0'' # CHR ''0'' # hex_char (of_char c div 16) # hex_char (of_char c mod 16) # r) = Some (of_char c, r)"
    using small by (simp add: hex4_def hex_digit_char)
  show ?thesis unfolding unicode_escape_def hex using assms by (simp add: utf8_char_def)
qed

lemma string_item_escape:
  assumes "escape_char c = x # s"
  shows "x \<noteq> CHR 0x22 \<and> string_item x (s @ r) = Inr ([c], r)"
proof (cases "map_of short_escapes c")
  case (Some e)
  with short_escapes_back [OF this] assms show ?thesis by (auto simp: escape_char_def string_item_def)
next
  case None
  with short_escapes_none [OF this] control_escape [of c r] assms show ?thesis
    by (auto simp: escape_char_def string_item_def split: if_splits)
qed

lemma scan_quoted: "scan_string (concat (map escape_char s) @ CHR 0x22 # r) = Inr (s, r)"
proof (induction s)
  case (Cons c s)
  obtain x u where x: "escape_char c = x # u" by (cases "escape_char c") (auto simp: escape_char_def split: option.splits if_splits)
  with string_item_escape [OF x, of "concat (map escape_char s) @ CHR 0x22 # r"] Cons show ?case by simp
qed simp

lemma digit_char_digit: "d < 10 \<Longrightarrow> is_digit (digit_char d) \<and> (d \<noteq> 0 \<longrightarrow> digit_char d \<noteq> CHR ''0'')"
  using of_char_digit_char [of d] by (auto simp: is_digit_def)

lemma dec_str_numeral: "list_all is_digit (dec_str n) \<and> dec_str n \<noteq> [] \<and> (n \<noteq> 0 \<longrightarrow> hd (dec_str n) \<noteq> CHR ''0'')"
proof (induction n rule: dec_str.induct)
  case (1 n)
  show ?case
  proof (cases "n < 10")
    case True
    then show ?thesis using digit_char_digit [of n] by (simp add: dec_str.simps [of n])
  next
    case False
    then show ?thesis using 1 digit_char_digit [of "n mod 10"] by (simp add: dec_str.simps [of n])
  qed
qed

definition ends :: "text_str \<Rightarrow> bool" where
  "ends r \<longleftrightarrow> r = [] \<or> delimited r"

lemma ends_simps: "ends (CHR '','' # r)" "ends (CHR '']'' # r)" "ends (CHR ''}'' # r)" "ends []"
  by (simp_all add: ends_def delimited_def)

lemma ends_hd: "ends (c # r) \<Longrightarrow> \<not> is_digit c \<and> c \<noteq> CHR ''.'' \<and> c \<noteq> CHR ''e'' \<and> c \<noteq> CHR ''E''"
  by (auto simp: ends_def delimited_def json_ws_def is_digit_def)

lemma cut_digits: "list_all is_digit ds \<Longrightarrow> ends r \<Longrightarrow> takeWhile is_digit (ds @ r) = ds \<and> dropWhile is_digit (ds @ r) = r"
proof (induction ds)
  case Nil
  then show ?case by (cases r) (auto dest: ends_hd)
qed simp

lemma dec_str_zero: "dec_str 0 = ''0''"
  by code_simp

lemma scan_int_dec: "ends r \<Longrightarrow> scan_int (dec_str n @ r) = Some (dec_str n, r)"
proof (cases "n = 0")
  case True
  then show ?thesis by (simp add: scan_int_def dec_str_zero Let_def is_digit_def)
next
  case False
  assume "ends r"
  with False show ?thesis using cut_digits [of "dec_str n" r] dec_str_numeral [of n] by (simp add: scan_int_def Let_def)
qed

lemma scan_rest_ends: "ends r \<Longrightarrow> scan_frac r = ([], r) \<and> scan_exp r = ([], r)"
  by (cases r) (auto simp: scan_frac_def scan_exp_def dest: ends_hd)

lemma dec_str_start: "\<not> starts_with ''-'' (dec_str n @ r)"
  using dec_str_numeral [of n] by (cases "dec_str n") (auto simp: is_digit_def)

lemma scan_number_int:
  assumes "ends r" "length (dec_str (nat \<bar>i\<bar>)) \<le> MAX_INT_DIGITS"
  shows "scan_number (int_str i @ r) = Inr (JV_Int i, r)"
  using assms scan_int_dec [OF assms(1)] scan_rest_ends [OF assms(1)] dec_str_start
  by (cases "i < 0") (simp_all add: scan_number_def int_str_def undec_dec Let_def)

text \<open>\<open>t\<close> is a text of \<open>v\<close> wherever it stands.\<close>

definition reads_as :: "text_str \<Rightarrow> json_value \<Rightarrow> bool" where
  "reads_as t v \<longleftrightarrow> (\<exists>c u. t = c # u \<and> \<not> json_ws c \<and> c \<notin> {CHR '']'', CHR 0xEF})
     \<and> (\<forall>n r. ends r \<longrightarrow> 2 * length (t @ r) < n \<longrightarrow> parse_value n (t @ r) = Inr (v, r))"

lemma reads_asD: "reads_as t v \<Longrightarrow> ends r \<Longrightarrow> 2 * length (t @ r) < n \<Longrightarrow> parse_value n (t @ r) = Inr (v, r)"
  by (simp add: reads_as_def)

lemma reads_as_skip: "reads_as t v \<Longrightarrow> list_all json_ws sp \<Longrightarrow> skip_ws (sp @ t @ r) = t @ r"
  by (induction sp) (auto simp: reads_as_def)

lemma skip_sp: "list_all json_ws sp \<Longrightarrow> skip_ws (sp @ x) = skip_ws x"
  by (induction sp) auto

lemma not_ws: "\<not> json_ws (CHR '','')" "\<not> json_ws (CHR '']'')" "\<not> json_ws (CHR ''}'')" "\<not> json_ws (CHR '':'')" "\<not> json_ws (CHR 0x22)"
  by (simp_all add: json_ws_def)

lemma reads_atom:
  assumes "\<And>r. ends r \<Longrightarrow> scan_atom (t @ r) = Inr (v, r)" "\<exists>c u. t = c # u \<and> \<not> json_ws c \<and> c \<notin> {CHR 0x22, CHR ''{'', CHR ''['', CHR '']'', CHR 0xEF}"
  shows "reads_as t v"
  unfolding reads_as_def
proof (intro conjI allI impI)
  show "\<exists>c u. t = c # u \<and> \<not> json_ws c \<and> c \<notin> {CHR '']'', CHR 0xEF}" using assms(2) by auto
  fix n r assume r: "ends r" and n: "2 * length (t @ r) < n"
  then obtain m where "n = Suc m" by (cases n) auto
  then show "parse_value n (t @ r) = Inr (v, r)" using assms(1) [OF r] assms(2) by auto
qed

lemma ends_ws: "list_all json_ws w \<Longrightarrow> ends r \<Longrightarrow> ends (w @ r)"
  by (cases w) (auto simp: ends_def delimited_def)

lemma reads_items:
  assumes "list_all2 (\<lambda>v t. reads_as t v) vs ts" "vs \<noteq> []" "list_all json_ws sp" "list_all json_ws w"
  shows "Suc (2 * length (join_str ('','' @ sp) ts @ w @ CHR '']'' # r)) < n \<Longrightarrow>
    parse_items n acc (join_str ('','' @ sp) ts @ w @ CHR '']'' # r) = Inr (JV_List (acc @ vs), r)"
  using assms(1,2)
proof (induction arbitrary: n acc rule: list_all2_induct)
  case (Cons v vs t ts)
  obtain m where n: "n = Suc m" using Cons.prems(1) by (cases n) auto
  show ?case
  proof (cases ts)
    case Nil
    then have "parse_value m (t @ w @ CHR '']'' # r) = Inr (v, w @ CHR '']'' # r)"
      using Cons.prems(1) Cons.hyps(1) n by (intro reads_asD) (simp_all add: ends_simps ends_ws [OF assms(4)])
    then show ?thesis using n Nil Cons.hyps(2) by (simp add: not_ws skip_sp [OF assms(4)])
  next
    case (Cons u us)
    then obtain w' ws where vs: "vs = w' # ws" "reads_as u w'" using Cons.hyps(2) by (cases vs) auto
    let ?rest = "join_str ('','' @ sp) ts @ w @ CHR '']'' # r"
    have "parse_value m (t @ CHR '','' # sp @ ?rest) = Inr (v, CHR '','' # sp @ ?rest)"
      using Cons.prems(1) Cons.hyps(1) n Cons by (intro reads_asD) (simp_all add: ends_simps)
    moreover have "skip_ws (sp @ ?rest) = ?rest"
    proof -
      have "\<exists>x. ?rest = u @ x" using Cons by (cases us) auto
      then show ?thesis using reads_as_skip [OF vs(2) assms(3)] by auto
    qed
    moreover have "parse_items m (acc @ [v]) ?rest = Inr (JV_List ((acc @ [v]) @ vs), r)"
      using Cons.prems(1) n Cons vs(1) by (intro Cons.IH) simp_all
    ultimately show ?thesis using n Cons by (simp add: not_ws)
  qed
qed simp

text \<open>\<open>q\<close> is a quoted text of the key \<open>k\<close>; a member is such a text, a colon and the text of the value.\<close>

definition key_text :: "text_str \<Rightarrow> text_str \<Rightarrow> bool" where
  "key_text k q \<longleftrightarrow> (\<exists>x. q = CHR 0x22 # x \<and> (\<forall>r. scan_string (x @ r) = Inr (k, r)))"

abbreviation member :: "text_str \<Rightarrow> text_str \<times> text_str \<Rightarrow> text_str" where
  "member sp kt \<equiv> fst kt @ '':'' @ sp @ snd kt"

abbreviation reads_member :: "text_str \<times> json_value \<Rightarrow> text_str \<times> text_str \<Rightarrow> bool" where
  "reads_member kv kt \<equiv> key_text (fst kv) (fst kt) \<and> reads_as (snd kt) (snd kv)"

lemma parse_member:
  assumes "reads_as t v" "key_text k q" "list_all json_ws sp" "ends r" "2 * length (sp @ t @ r) < n"
  shows "parse_members (Suc n) acc (q @ '':'' @ sp @ t @ r) =
    (if starts_with ''}'' (skip_ws r) then Inr (JV_Dict (dict_set k v acc), tl (skip_ws r))
     else if starts_with '','' (skip_ws r) then parse_members n (dict_set k v acc) (skip_ws (tl (skip_ws r)))
     else Inl Json_Decode)"
proof -
  have "parse_value n (skip_ws (sp @ t @ r)) = Inr (v, r)"
    using reads_as_skip [OF assms(1,3)] reads_asD [OF assms(1,4)] assms(5) by simp
  moreover obtain x where "q = CHR 0x22 # x" "\<forall>r. scan_string (x @ r) = Inr (k, r)" using assms(2) by (auto simp: key_text_def)
  ultimately show ?thesis by (simp add: not_ws)
qed

lemma reads_members:
  assumes "list_all2 reads_member kvs kts" "kvs \<noteq> []" "list_all json_ws sp" "list_all json_ws cs" "list_all json_ws w"
  shows "2 * length (join_str ('','' @ sp) (map (member cs) kts) @ w @ CHR ''}'' # r) < n \<Longrightarrow>
    parse_members n acc (join_str ('','' @ sp) (map (member cs) kts) @ w @ CHR ''}'' # r)
      = Inr (JV_Dict (foldl (\<lambda>d (k, v). dict_set k v d) acc kvs), r)"
  using assms(1,2)
proof (induction arbitrary: n acc rule: list_all2_induct)
  case (Cons kv kvs kt kts)
  obtain m where n: "n = Suc m" using Cons.prems(1) by (cases n) auto
  obtain k v t q where kv: "kv = (k, v)" "kt = (q, t)" "reads_as t v" "key_text k q" using Cons.hyps(1) by (cases kv; cases kt) auto
  then obtain x where q: "q = CHR 0x22 # x" by (auto simp: key_text_def)
  show ?case
  proof (cases kts)
    case Nil
    have "parse_members (Suc m) acc (q @ '':'' @ cs @ t @ w @ CHR ''}'' # r) = Inr (JV_Dict (dict_set k v acc), r)"
      using parse_member [OF kv(3,4) assms(4) ends_ws [OF assms(5) ends_simps(3)], of r m acc] Cons.prems(1) n Nil kv
      by (simp add: not_ws q skip_sp [OF assms(5)])
    then show ?thesis using n Nil kv Cons.hyps(2) by simp
  next
    case (Cons lu us)
    then obtain kv' kvs' where kvs: "kvs = kv' # kvs'" using Cons.hyps(2) by (cases kvs) auto
    let ?rest = "join_str ('','' @ sp) (map (member cs) kts) @ w @ CHR ''}'' # r"
    have skip: "skip_ws (sp @ ?rest) = ?rest"
    proof -
      have "\<exists>x. ?rest = CHR 0x22 # x" using Cons Cons.hyps(2) kvs by (cases us) (auto simp: key_text_def)
      then have "skip_ws ?rest = ?rest" by (auto simp: not_ws)
      then show ?thesis using skip_sp [OF assms(3), of ?rest] by simp
    qed
    have "parse_members (Suc m) acc (q @ '':'' @ cs @ t @ CHR '','' # sp @ ?rest) = parse_members m (dict_set k v acc) ?rest"
      using parse_member [OF kv(3,4) assms(4) ends_simps(1), of "sp @ ?rest" m acc] Cons.prems(1) n Cons kv skip
      by (simp add: not_ws q)
    moreover have "parse_members m (dict_set k v acc) ?rest
        = Inr (JV_Dict (foldl (\<lambda>d (k, v). dict_set k v d) (dict_set k v acc) kvs), r)"
      using Cons.prems(1) n Cons kvs kv by (intro Cons.IH) (simp_all add: q)
    ultimately show ?thesis using n Cons kv by simp
  qed
qed simp

lemma dict_set_new: "k \<notin> fst ` set acc \<Longrightarrow> dict_set k v acc = acc @ [(k, v)]"
  by (induction acc) auto

lemma foldl_dict_set: "distinct (map fst (acc @ kvs)) \<Longrightarrow> foldl (\<lambda>d (k, v). dict_set k v d) acc kvs = acc @ kvs"
proof (induction kvs arbitrary: acc)
  case (Cons kv kvs)
  obtain k v where kv: "kv = (k, v)" by force
  have "dict_set k v acc = acc @ [(k, v)]" using Cons.prems kv by (intro dict_set_new) auto
  then show ?case using Cons.IH [of "acc @ [kv]"] Cons.prems kv by simp
qed simp

lemma those_Some: "those xs = Some ys \<longleftrightarrow> xs = map Some ys"
proof (induction xs arbitrary: ys)
  case (Cons x xs)
  show ?case by (cases x; cases ys) (auto simp: Cons.IH)
qed auto

lemma reads_list:
  assumes "list_all2 (\<lambda>v t. reads_as t v) vs ts" "list_all json_ws sp" "list_all json_ws a" "list_all json_ws w"
  shows "reads_as (''['' @ a @ join_str ('','' @ sp) ts @ w @ '']'') (JV_List vs)"
  unfolding reads_as_def
proof (intro conjI allI impI)
  fix n r assume n: "2 * length ((''['' @ a @ join_str ('','' @ sp) ts @ w @ '']'') @ r) < n"
  then obtain m where m: "n = Suc m" by (cases n) auto
  show "parse_value n ((''['' @ a @ join_str ('','' @ sp) ts @ w @ '']'') @ r) = Inr (JV_List vs, r)"
  proof (cases vs)
    case Nil
    then show ?thesis using assms(1) m by (simp add: not_ws skip_sp [OF assms(3)] skip_sp [OF assms(4)])
  next
    case (Cons v vs')
    then obtain t ts' where ts: "ts = t # ts'" "reads_as t v" using assms(1) by (cases ts) auto
    then obtain c u where c: "join_str ('','' @ sp) ts @ w @ CHR '']'' # r = c # u" "\<not> json_ws c" "c \<noteq> CHR '']''"
      by (cases ts') (auto simp: reads_as_def)
    have "parse_items m [] (join_str ('','' @ sp) ts @ w @ CHR '']'' # r) = Inr (JV_List vs, r)"
      using reads_items [OF assms(1) _ assms(2,4), of r m "[]"] n m Cons by simp
    then show ?thesis using m c skip_sp [OF assms(3), of "c # u"] by simp
  qed
qed (simp add: json_ws_def)

lemma reads_dict:
  assumes "list_all2 reads_member kvs kts" "list_all json_ws sp" "list_all json_ws cs"
    "list_all json_ws a" "list_all json_ws w" "distinct (map fst kvs)"
  shows "reads_as (''{'' @ a @ join_str ('','' @ sp) (map (member cs) kts) @ w @ ''}'') (JV_Dict kvs)"
  unfolding reads_as_def
proof (intro conjI allI impI)
  fix n r assume n: "2 * length ((''{'' @ a @ join_str ('','' @ sp) (map (member cs) kts) @ w @ ''}'') @ r) < n"
  then obtain m where m: "n = Suc m" by (cases n) auto
  show "parse_value n ((''{'' @ a @ join_str ('','' @ sp) (map (member cs) kts) @ w @ ''}'') @ r) = Inr (JV_Dict kvs, r)"
  proof (cases kvs)
    case Nil
    then show ?thesis using assms(1) m by (simp add: not_ws skip_sp [OF assms(4)] skip_sp [OF assms(5)])
  next
    case (Cons kv kvs')
    then obtain kt kts' where kts: "kts = kt # kts'" using assms(1) by (cases kts) auto
    then obtain u where u: "join_str ('','' @ sp) (map (member cs) kts) @ w @ CHR ''}'' # r = CHR 0x22 # u"
      using assms(1) Cons by (cases kts') (auto simp: key_text_def)
    have "parse_members m [] (join_str ('','' @ sp) (map (member cs) kts) @ w @ CHR ''}'' # r) = Inr (JV_Dict kvs, r)"
      using reads_members [OF assms(1) _ assms(2,3,5), of r m "[]"] foldl_dict_set [of "[]" kvs] assms(6) n m Cons by simp
    then show ?thesis using m u skip_sp [OF assms(4), of "CHR 0x22 # u"] by (simp add: not_ws)
  qed
qed (simp add: json_ws_def)

lemma int_str_start: "\<exists>c u. int_str i = c # u \<and> (is_digit c \<or> c = CHR ''-'')"
  using dec_str_numeral [of "nat i"] by (cases "dec_str (nat i)") (auto simp: int_str_def)

lemma reads_int: "length (dec_str (nat \<bar>i\<bar>)) \<le> MAX_INT_DIGITS \<Longrightarrow> reads_as (int_str i) (JV_Int i)"
  using int_str_start [of i]
  by (intro reads_atom scan_atom_number scan_number_int) (auto simp: json_ws_def is_digit_def)

lemma reads_constant: "(w, v) \<in> set json_constants \<Longrightarrow> reads_as w v"
proof (rule reads_atom)
  assume w: "(w, v) \<in> set json_constants"
  then show "scan_atom (w @ r) = Inr (v, r)" for r using constant_found [OF w, of r] by (simp add: scan_atom_def)
  show "\<exists>c u. w = c # u \<and> \<not> json_ws c \<and> c \<notin> {CHR 0x22, CHR ''{'', CHR ''['', CHR '']'', CHR 0xEF}"
    using w by (auto simp: json_constants_def json_ws_def)
qed

lemma reads_quoted: "reads_as (quote_text s) (JV_Text s)"
  unfolding reads_as_def
proof (intro conjI allI impI)
  fix n r assume "2 * length (quote_text s @ r) < n"
  then obtain m where "n = Suc m" by (cases n) auto
  then show "parse_value n (quote_text s @ r) = Inr (JV_Text s, r)" using scan_quoted [of s r] by (simp add: quote_text_def)
qed (simp add: quote_text_def json_ws_def)

lemma items_read:
  assumes "map f vs = map Some ts" "\<And>v t. v \<in> set vs \<Longrightarrow> f v = Some t \<Longrightarrow> reads_as t v"
  shows "list_all2 (\<lambda>v t. reads_as t v) vs ts"
proof (rule list_all2_all_nthI)
  show "length vs = length ts" using map_eq_imp_length_eq [OF assms(1)] .
  fix i assume i: "i < length vs"
  then have "f (vs ! i) = Some (ts ! i)" using assms(1) by (metis length_map nth_map)
  then show "reads_as (ts ! i) (vs ! i)" using assms(2) i by simp
qed

lemma key_quoted: "key_text k (quote_text k)"
  by (auto simp: key_text_def quote_text_def scan_quoted)

lemma members_read:
  assumes "map (\<lambda>kv. map_option (\<lambda>t. q (fst kv) @ '':'' @ cs @ t) (g (snd kv))) kvs = map Some ts"
    and "\<And>kv. kv \<in> set kvs \<Longrightarrow> key_text (fst kv) (q (fst kv))"
    and "\<And>kv t. kv \<in> set kvs \<Longrightarrow> g (snd kv) = Some t \<Longrightarrow> reads_as t (snd kv)"
  obtains kts where "ts = map (member cs) kts" "list_all2 reads_member kvs kts"
proof
  define kts where "kts = map (map_prod q (the \<circ> g)) kvs"
  have each: "g (snd kv) \<noteq> None" if "kv \<in> set kvs" for kv
  proof -
    have "map_option (\<lambda>t. q (fst kv) @ '':'' @ cs @ t) (g (snd kv)) \<in> Some ` set ts"
      using arg_cong [OF assms(1), of set] that by auto
    then show ?thesis by auto
  qed
  have "map Some ts = map Some (map (member cs) kts)"
    unfolding assms(1) [symmetric] kts_def map_map using each by auto
  then show "ts = map (member cs) kts" by (metis (no_types) inj_map_eq_map inj_Some)
  show "list_all2 reads_member kvs kts"
    unfolding kts_def list.rel_map list_all2_same using each assms(2,3) by auto
qed

lemma dumps_reads:
  "json_dumps sp v = Some t \<Longrightarrow> dicts_ok v \<Longrightarrow> list_all json_ws sp \<Longrightarrow> reads_as t v"
proof (induction v arbitrary: t)
  case (JV_List vs)
  then obtain ts where ts: "map (json_dumps sp) vs = map Some ts" "t = ''['' @ join_str ('','' @ sp) ts @ '']''"
    by (auto simp: joined_def those_Some)
  have "list_all2 (\<lambda>v t. reads_as t v) vs ts"
    using JV_List by (intro items_read [OF ts(1)]) (auto simp: list_all_iff)
  from reads_list [OF this JV_List.prems(3), of "[]" "[]"] show ?case using ts(2) by simp
next
  case (JV_Dict kvs)
  then obtain ts where ts: "map (\<lambda>kv. map_option (\<lambda>t. quote_text (fst kv) @ '':'' @ sp @ t) (json_dumps sp (snd kv))) kvs = map Some ts"
    "t = ''{'' @ join_str ('','' @ sp) ts @ ''}''"
    by (auto simp: joined_def those_Some comp_def map_prod_def case_prod_beta member_text_def)
  obtain kts where kts: "ts = map (member sp) kts" "list_all2 reads_member kvs kts"
  proof (rule members_read [OF ts(1) key_quoted])
    fix kv t assume "kv \<in> set kvs" "json_dumps sp (snd kv) = Some t"
    then show "reads_as t (snd kv)"
      using JV_Dict.IH [of kv "snd kv"] JV_Dict.prems(2,3) by (auto simp: list_all_iff snds.simps)
  qed
  from reads_dict [OF kts(2) JV_Dict.prems(3) JV_Dict.prems(3), of "[]" "[]"] show ?case using ts(2) kts(1) JV_Dict.prems(2) by simp
qed (auto simp: json_constants_def split: if_splits intro: reads_int reads_quoted reads_constant)

text \<open>What is written is read back, whatever white space surrounds it.\<close>

lemma loads_reads:
  assumes t: "reads_as t v" and "list_all json_ws a" "list_all json_ws b"
  shows "json_loads (a @ t @ b) = Inr v"
proof -
  have "ends b" using assms(3) by (cases b) (auto simp: ends_def delimited_def)
  then have "parse_value (Suc (2 * length (a @ t @ b))) (t @ b) = Inr (v, b)" by (intro reads_asD [OF t]) simp_all
  moreover have "skip_ws b = []" using skip_sp [OF assms(3), of "[]"] by simp
  moreover have "\<not> starts_with BOM (a @ t @ b)"
  proof -
    obtain c u where "t = c # u" "c \<noteq> CHR 0xEF" using t by (auto simp: reads_as_def)
    then show ?thesis using assms(2) by (cases a) (auto simp: BOM_def json_ws_def)
  qed
  ultimately show ?thesis using reads_as_skip [OF t assms(2), of b] by (simp add: json_loads_def)
qed

lemma loads_dumps:
  assumes "json_dumps sp v = Some t" "dicts_ok v" "list_all json_ws sp" "list_all json_ws a" "list_all json_ws b"
  shows "json_loads (a @ t @ b) = Inr v"
  using loads_reads [OF dumps_reads [OF assms(1-3)] assms(4,5)] .

end
