(* ===== verification/Client_Output.thy ===== *)
theory Client_Output
  imports Json_Text
begin

text \<open>
  What the local client adapters read out of a client's output (\<open>output_parsing.py\<close>, \<open>usage.py\<close> and the
  \<open>parse_output\<close> and \<open>stream_event\<close> hooks of claude, codex, cursor and vibe), and the live event file
  (\<open>stream.py\<close>). Text is UTF-8, so the white space and line ends of Python's \<open>str\<close> are byte sequences.
\<close>

section \<open>White space and lines of a str\<close>

definition WHITESPACE :: "text_str list" where
  "WHITESPACE =
     [[CHR 0x09], [CHR 0x0A], [CHR 0x0B], [CHR 0x0C], [CHR 0x0D], [CHR 0x1C], [CHR 0x1D], [CHR 0x1E], [CHR 0x1F], [CHR
     0x20], [CHR 0xC2, CHR 0x85], [CHR 0xC2, CHR 0xA0], [CHR 0xE1, CHR 0x9A, CHR 0x80], [CHR 0xE2, CHR 0x80, CHR 0x80],
     [CHR 0xE2, CHR 0x80, CHR 0x81], [CHR 0xE2, CHR 0x80, CHR 0x82], [CHR 0xE2, CHR 0x80, CHR 0x83], [CHR 0xE2, CHR 0x80,
     CHR 0x84], [CHR 0xE2, CHR 0x80, CHR 0x85], [CHR 0xE2, CHR 0x80, CHR 0x86], [CHR 0xE2, CHR 0x80, CHR 0x87], [CHR 0xE2,
     CHR 0x80, CHR 0x88], [CHR 0xE2, CHR 0x80, CHR 0x89], [CHR 0xE2, CHR 0x80, CHR 0x8A], [CHR 0xE2, CHR 0x80, CHR 0xA8],
     [CHR 0xE2, CHR 0x80, CHR 0xA9], [CHR 0xE2, CHR 0x80, CHR 0xAF], [CHR 0xE2, CHR 0x81, CHR 0x9F], [CHR 0xE3, CHR 0x80,
     CHR 0x80]]"

definition LINE_ENDS :: "text_str list" where
  "LINE_ENDS =
     [[CHR 0x0D, CHR 0x0A], [CHR 0x0A], [CHR 0x0D], [CHR 0x0B], [CHR 0x0C], [CHR 0x1C], [CHR 0x1D], [CHR 0x1E], [CHR 0xC2,
     CHR 0x85], [CHR 0xE2, CHR 0x80, CHR 0xA8], [CHR 0xE2, CHR 0x80, CHR 0xA9]]"

function strip_front :: "text_str list \<Rightarrow> text_str \<Rightarrow> text_str" where
  "strip_front ws s = (case find (\<lambda>w. w \<noteq> [] \<and> starts_with w s) ws of None \<Rightarrow> s | Some w \<Rightarrow> strip_front ws (drop (length w) s))"
  by pat_completeness auto
termination by (relation "measure (length \<circ> snd)") (auto simp: find_Some_iff starts_with_iff)

declare strip_front.simps [simp del]

definition py_strip :: "text_str \<Rightarrow> text_str" where
  "py_strip s = rev (strip_front (map rev WHITESPACE) (rev (strip_front WHITESPACE s)))"

fun take_line :: "text_str \<Rightarrow> text_str \<times> text_str" where
  "take_line [] = ([], [])"
| "take_line (c # s) = (case find (\<lambda>w. starts_with w (c # s)) LINE_ENDS of
     Some w \<Rightarrow> ([], drop (length w) (c # s))
   | None \<Rightarrow> (c # fst (take_line s), snd (take_line s)))"

lemma LINE_ENDS_nonempty: "w \<in> set LINE_ENDS \<Longrightarrow> w \<noteq> []"
  by (auto simp: LINE_ENDS_def)

lemma take_line_shorter: "s \<noteq> [] \<Longrightarrow> length (snd (take_line s)) < length s"
proof (induction s)
  case (Cons c s)
  show ?case
  proof (cases "find (\<lambda>w. starts_with w (c # s)) LINE_ENDS")
    case None
    then show ?thesis using Cons by (cases s) auto
  next
    case (Some w)
    then have "w \<in> set LINE_ENDS" by (auto simp: find_Some_iff)
    then have "0 < length w" using LINE_ENDS_nonempty by auto
    then show ?thesis using Some by (simp del: length_greater_0_conv)
  qed
qed simp

function split_lines :: "text_str \<Rightarrow> text_str list" where
  "split_lines s = (if s = [] then [] else fst (take_line s) # split_lines (snd (take_line s)))"
  by pat_completeness auto
termination by (relation "measure length") (auto simp: take_line_shorter)

declare split_lines.simps [simp del]

section \<open>Counts and amounts\<close>

type_synonym json_dict = "(text_str \<times> json_value) list"

text \<open>\<open>int(text)\<close> on ASCII digits.\<close>

definition py_int_of :: "text_str \<Rightarrow> exn + int" where
  "py_int_of raw = (case signed_text (py_strip raw) of (neg, d) \<Rightarrow>
     (case digit_groups d of
        None \<Rightarrow> Inl (Exn ValueError ''invalid literal for int()'')
      | Some ds \<Rightarrow> if MAX_INT_DIGITS < length ds then Inl (Exn ValueError ''Exceeds the limit for integer string conversion'')
          else Inr (if neg then - int (undec_str ds) else int (undec_str ds))))"

text \<open>\<open>except (TypeError, ValueError): return None\<close>.\<close>

definition value_or_none :: "exn + 'a \<Rightarrow> exn + 'a option" where
  "value_or_none r = (case r of Inr a \<Rightarrow> Inr (Some a)
     | Inl e \<Rightarrow> if exn_class_of e \<in> {TypeError, ValueError} then Inr None else Inl e)"

fun int_or_none :: "json_value option \<Rightarrow> exn + int option" where
  "int_or_none None = Inr None"
| "int_or_none (Some JV_Null) = Inr None"
| "int_or_none (Some (JV_Bool b)) = Inr None"
| "int_or_none (Some (JV_Int i)) = value_or_none (Inr i)"
| "int_or_none (Some (JV_Float x)) = value_or_none (float_to_int x)"
| "int_or_none (Some (JV_Text s)) = value_or_none (py_int_of s)"
| "int_or_none (Some _) = value_or_none (Inl (Exn TypeError ''int() argument must be a string or a number''))"

text \<open>\<open>float(i)\<close> of an integer raises when it is out of range.\<close>

definition int_to_float :: "int \<Rightarrow> exn + py_float" where
  "int_to_float i = (case nearest (i < 0) (nat \<bar>i\<bar>) 1 of
     Infinite s \<Rightarrow> Inl (Exn OverflowError ''int too large to convert to float'') | x \<Rightarrow> Inr x)"

fun float_or_none :: "json_value option \<Rightarrow> exn + py_float option" where
  "float_or_none None = Inr None"
| "float_or_none (Some JV_Null) = Inr None"
| "float_or_none (Some (JV_Bool b)) = Inr None"
| "float_or_none (Some (JV_Int i)) = value_or_none (int_to_float i)"
| "float_or_none (Some (JV_Float x)) = value_or_none (Inr x)"
| "float_or_none (Some (JV_Text s)) = value_or_none (py_float_of s)"
| "float_or_none (Some _) = value_or_none (Inl (Exn TypeError ''float() argument must be a string or a number''))"

record usage =
  us_input_tokens :: "int option"
  us_output_tokens :: "int option"
  us_cache_read_tokens :: "int option"
  us_cache_write_tokens :: "int option"
  us_reasoning_tokens :: "int option"
  us_cost_usd :: "py_float option"
  us_raw :: json_dict

record parsed_output =
  po_text :: text_str
  po_usage :: "usage option"

definition raw_output :: "text_str \<Rightarrow> parsed_output" where
  "raw_output stdout = \<lparr>po_text = stdout, po_usage = None\<rparr>"

section \<open>Shared parsing\<close>

definition ensure_trailing_newline :: "text_str \<Rightarrow> text_str" where
  "ensure_trailing_newline s = (if s \<noteq> [] \<and> last s \<noteq> CHR 0x0A then s @ [CHR 0x0A] else s)"

definition has_type :: "json_dict \<Rightarrow> text_str \<Rightarrow> bool" where
  "has_type d ty \<longleftrightarrow> map_of d ''type'' = Some (JV_Text ty)"

definition result_line :: "json_dict option \<Rightarrow> text_str \<Rightarrow> json_dict option" where
  "result_line found line =
     (if py_strip line = [] then found
      else case json_loads (py_strip line) of
        Inr (JV_Dict d) \<Rightarrow> if has_type d ''result'' then Some d else found
      | _ \<Rightarrow> found)"

definition final_result_object :: "text_str \<Rightarrow> json_dict option" where
  "final_result_object stdout =
     (if py_strip stdout = [] then None
      else case json_loads (py_strip stdout) of
        Inr (JV_Dict d) \<Rightarrow> Some d
      | _ \<Rightarrow> foldl result_line None (split_lines stdout))"

section \<open>The clients\<close>

definition get_int :: "json_dict \<Rightarrow> text_str \<Rightarrow> exn + int option" where
  "get_int d k = int_or_none (map_of d k)"

definition dict_at :: "json_dict \<Rightarrow> text_str \<Rightarrow> json_dict option" where
  "dict_at d k = (case map_of d k of Some (JV_Dict u) \<Rightarrow> Some u | _ \<Rightarrow> None)"

definition keep_keys :: "text_str list \<Rightarrow> json_dict \<Rightarrow> json_dict" where
  "keep_keys ks d = concat (map (\<lambda>k. case map_of d k of None \<Rightarrow> [] | Some v \<Rightarrow> [(k, v)]) ks)"

definition claude_usage :: "json_dict \<Rightarrow> exn + usage" where
  "claude_usage doc = (let block = (case dict_at doc ''usage'' of None \<Rightarrow> [] | Some u \<Rightarrow> u) in
     andthen (get_int block ''input_tokens'') (\<lambda>i.
     andthen (get_int block ''output_tokens'') (\<lambda>out.
     andthen (get_int block ''cache_read_input_tokens'') (\<lambda>rd.
     andthen (get_int block ''cache_creation_input_tokens'') (\<lambda>wr.
     andthen (float_or_none (map_of doc ''total_cost_usd'')) (\<lambda>cost.
       Inr \<lparr>us_input_tokens = i, us_output_tokens = out, us_cache_read_tokens = rd, us_cache_write_tokens = wr,
         us_reasoning_tokens = None, us_cost_usd = cost, us_raw = keep_keys [''usage'', ''modelUsage'', ''total_cost_usd''] doc\<rparr>))))))"

definition claude_parse :: "text_str \<Rightarrow> exn + parsed_output" where
  "claude_parse stdout = (case final_result_object stdout of None \<Rightarrow> Inr (raw_output stdout) | Some doc \<Rightarrow>
     (case map_of doc ''result'' of
        Some (JV_Text answer) \<Rightarrow> andthen (claude_usage doc) (\<lambda>u. Inr \<lparr>po_text = ensure_trailing_newline answer, po_usage = Some u\<rparr>)
      | _ \<Rightarrow> Inr (raw_output stdout)))"

definition cursor_usage :: "json_dict \<Rightarrow> exn + usage" where
  "cursor_usage block =
     andthen (get_int block ''inputTokens'') (\<lambda>i.
     andthen (get_int block ''outputTokens'') (\<lambda>out.
     andthen (get_int block ''cacheReadTokens'') (\<lambda>rd.
     andthen (get_int block ''cacheWriteTokens'') (\<lambda>wr.
       Inr \<lparr>us_input_tokens = i, us_output_tokens = out, us_cache_read_tokens = rd, us_cache_write_tokens = wr,
         us_reasoning_tokens = None, us_cost_usd = None, us_raw = block\<rparr>))))"

definition opt_usage :: "(json_dict \<Rightarrow> exn + usage) \<Rightarrow> json_dict option \<Rightarrow> exn + usage option" where
  "opt_usage f b = (case b of None \<Rightarrow> Inr None | Some block \<Rightarrow> andthen (f block) (\<lambda>u. Inr (Some u)))"

definition cursor_parse :: "text_str \<Rightarrow> exn + parsed_output" where
  "cursor_parse stdout = (case final_result_object stdout of None \<Rightarrow> Inr (raw_output stdout) | Some doc \<Rightarrow>
     (case map_of doc ''result'' of
        Some (JV_Text answer) \<Rightarrow> andthen (opt_usage cursor_usage (dict_at doc ''usage''))
          (\<lambda>u. Inr \<lparr>po_text = ensure_trailing_newline answer, po_usage = u\<rparr>)
      | _ \<Rightarrow> Inr (raw_output stdout)))"

definition codex_usage :: "json_dict \<Rightarrow> exn + usage" where
  "codex_usage block =
     andthen (get_int block ''input_tokens'') (\<lambda>i.
     andthen (get_int block ''output_tokens'') (\<lambda>out.
     andthen (get_int block ''cached_input_tokens'') (\<lambda>rd.
     andthen (get_int block ''reasoning_output_tokens'') (\<lambda>rs.
       Inr \<lparr>us_input_tokens = i, us_output_tokens = out, us_cache_read_tokens = rd, us_cache_write_tokens = None,
         us_reasoning_tokens = rs, us_cost_usd = None, us_raw = block\<rparr>))))"

text \<open>One event of the codex stream: the latest answer and the latest usage block.\<close>

definition codex_event :: "json_dict \<Rightarrow> text_str option \<times> json_dict option \<Rightarrow> text_str option \<times> json_dict option" where
  "codex_event ev st =
     (if has_type ev ''item.completed'' then
        (case dict_at ev ''item'' of
           Some item \<Rightarrow> if has_type item ''agent_message''
             then (case map_of item ''text'' of Some (JV_Text s) \<Rightarrow> (Some s, snd st) | _ \<Rightarrow> st) else st
         | None \<Rightarrow> st)
      else if has_type ev ''turn.completed'' then (case dict_at ev ''usage'' of Some b \<Rightarrow> (fst st, Some b) | None \<Rightarrow> st)
      else st)"

text \<open>Only \<open>JSONDecodeError\<close> is skipped here.\<close>

fun codex_lines :: "text_str list \<Rightarrow> text_str option \<times> json_dict option \<Rightarrow> exn + text_str option \<times> json_dict option" where
  "codex_lines [] st = Inr st"
| "codex_lines (line # lines) st =
     (if py_strip line = [] then codex_lines lines st
      else case json_loads (py_strip line) of
        Inl Json_Decode \<Rightarrow> codex_lines lines st
      | Inl Int_Digits \<Rightarrow> Inl (Exn ValueError ''Exceeds the limit for integer string conversion'')
      | Inr (JV_Dict ev) \<Rightarrow> codex_lines lines (codex_event ev st)
      | Inr _ \<Rightarrow> codex_lines lines st)"

definition codex_parse :: "text_str \<Rightarrow> exn + parsed_output" where
  "codex_parse stdout = andthen (codex_lines (split_lines stdout) (None, None)) (\<lambda>(answer, block).
     case answer of None \<Rightarrow> Inr (raw_output stdout) | Some s \<Rightarrow>
       andthen (opt_usage codex_usage block) (\<lambda>u. Inr \<lparr>po_text = ensure_trailing_newline s, po_usage = u\<rparr>))"

definition vibe_message :: "text_str option \<Rightarrow> json_value \<Rightarrow> text_str option" where
  "vibe_message answer m = (case m of
     JV_Dict d \<Rightarrow> if map_of d ''role'' = Some (JV_Text ''assistant'')
       then (case map_of d ''content'' of Some (JV_Text s) \<Rightarrow> Some s | _ \<Rightarrow> answer) else answer
   | _ \<Rightarrow> answer)"

definition vibe_parse :: "text_str \<Rightarrow> exn + parsed_output" where
  "vibe_parse stdout = (case json_loads stdout of
     Inr (JV_List messages) \<Rightarrow> (case foldl vibe_message None messages of
         None \<Rightarrow> Inr (raw_output stdout)
       | Some s \<Rightarrow> Inr \<lparr>po_text = ensure_trailing_newline s, po_usage = None\<rparr>)
   | _ \<Rightarrow> Inr (raw_output stdout))"

section \<open>Live events\<close>

type_synonym stream_event = "text_str \<times> json_dict"

definition event_object :: "text_str \<Rightarrow> json_dict option" where
  "event_object line = (case json_loads line of Inr (JV_Dict d) \<Rightarrow> Some d | _ \<Rightarrow> None)"

definition plain_event :: "text_str \<Rightarrow> stream_event option" where
  "plain_event kind = Some (kind, [])"

definition tool_event :: "json_value option \<Rightarrow> stream_event option" where
  "tool_event name = Some (''tool'', [(''name'', case name of None \<Rightarrow> JV_Null | Some v \<Rightarrow> v)])"

definition has_subtype :: "json_dict \<Rightarrow> text_str \<Rightarrow> bool" where
  "has_subtype d ty \<longleftrightarrow> map_of d ''subtype'' = Some (JV_Text ty)"

definition claude_event :: "text_str \<Rightarrow> stream_event option" where
  "claude_event line = (case event_object line of None \<Rightarrow> None | Some ev \<Rightarrow>
     if has_type ev ''system'' then
       (if has_subtype ev ''init'' then plain_event ''start''
        else if has_subtype ev ''thinking_tokens'' then plain_event ''thinking'' else None)
     else if has_type ev ''stream_event'' then
       (case dict_at ev ''event'' of None \<Rightarrow> None | Some inner \<Rightarrow>
          if \<not> has_type inner ''content_block_start'' then None
          else (case dict_at inner ''content_block'' of None \<Rightarrow> None | Some block \<Rightarrow>
             if has_type block ''tool_use'' then tool_event (map_of block ''name'') else None))
     else if has_type ev ''result'' then plain_event ''result'' else None)"

fun json_truthy :: "json_value \<Rightarrow> bool" where
  "json_truthy JV_Null = False"
| "json_truthy (JV_Bool b) = b"
| "json_truthy (JV_Int i) = (i \<noteq> 0)"
| "json_truthy (JV_Float x) = (case x of Finite s m e \<Rightarrow> m \<noteq> 0 | _ \<Rightarrow> True)"
| "json_truthy (JV_Text s) = (s \<noteq> [])"
| "json_truthy (JV_List vs) = (vs \<noteq> [])"
| "json_truthy (JV_Dict kvs) = (kvs \<noteq> [])"

definition codex_live :: "text_str \<Rightarrow> stream_event option" where
  "codex_live line = (case event_object line of None \<Rightarrow> None | Some ev \<Rightarrow>
     if has_type ev ''thread.started'' then plain_event ''start''
     else if has_type ev ''turn.completed'' then plain_event ''result''
     else if has_type ev ''error'' \<or> has_type ev ''turn.failed'' then plain_event ''error''
     else if has_type ev ''item.completed'' then
       (case dict_at ev ''item'' of None \<Rightarrow> None | Some item \<Rightarrow>
          if has_type item ''agent_message'' then plain_event ''message''
          else (case map_of item ''type'' of None \<Rightarrow> None
            | Some v \<Rightarrow> if json_truthy v then tool_event (Some v) else None))
     else None)"

definition cursor_event :: "text_str \<Rightarrow> stream_event option" where
  "cursor_event line = (case event_object line of None \<Rightarrow> None | Some ev \<Rightarrow>
     if has_type ev ''system'' \<and> has_subtype ev ''init'' then plain_event ''start''
     else if has_type ev ''assistant'' then plain_event ''message''
     else if has_type ev ''result'' then plain_event ''result'' else None)"

text \<open>
  The event file: \<open>None\<close> once it could not be opened or was closed, else the bytes it holds. \<open>ts\<close> is the numeral
  of the time. An event that cannot be serialized is dropped.
\<close>

type_synonym stream_file = "text_str option"

definition stream_line :: "text_str \<Rightarrow> text_str \<Rightarrow> json_dict \<Rightarrow> text_str option" where
  "stream_line ts kind extra =
     map_option (\<lambda>b. ''{'' @ b @ ''}'' @ [CHR 0x0A])
       (joined '' '' (map (member_text '' '') ((''ts'', Some ts) # (''kind'', Some (quote_text kind))
          # map (map_prod id (json_dumps '' '')) (filter (\<lambda>(k, v). v \<noteq> JV_Null) extra))))"

definition write_event :: "text_str \<Rightarrow> text_str \<Rightarrow> json_dict \<Rightarrow> stream_file \<Rightarrow> stream_file" where
  "write_event ts kind extra f = (case (f, stream_line ts kind extra) of (Some b, Some line) \<Rightarrow> Some (b @ line) | _ \<Rightarrow> f)"

section \<open>Lines of a stream\<close>

definition SEPARATORS :: "text_str list" where
  "SEPARATORS = [[CHR 0xC2, CHR 0x85], [CHR 0xE2, CHR 0x80, CHR 0xA8], [CHR 0xE2, CHR 0x80, CHR 0xA9]]"

abbreviation unlines :: "text_str list \<Rightarrow> text_str" where
  "unlines ls \<equiv> concat (map (\<lambda>l. l @ [CHR 0x0A]) ls)"

text \<open>No line end starts inside \<open>l\<close>.\<close>

definition one_line :: "text_str \<Rightarrow> bool" where
  "one_line l \<longleftrightarrow> (\<forall>x. take_line (l @ CHR 0x0A # x) = (l, x))"

fun no_separator :: "text_str \<Rightarrow> bool" where
  "no_separator [] = True"
| "no_separator (c # s) = (\<not> list_ex (\<lambda>w. starts_with w (c # s)) SEPARATORS \<and> no_separator s)"

definition printable :: "text_str \<Rightarrow> bool" where
  "printable s \<longleftrightarrow> list_all (\<lambda>c. 32 \<le> (of_char c :: nat)) s"

lemma line_end_kinds: "w \<in> set LINE_ENDS \<Longrightarrow> w \<in> set SEPARATORS \<or> (of_char (hd w) :: nat) < 32"
proof -
  have "list_all (\<lambda>w. w \<in> set SEPARATORS \<or> (of_char (hd w) :: nat) < 32) LINE_ENDS"
    by (simp add: LINE_ENDS_def SEPARATORS_def)
  then show "w \<in> set LINE_ENDS \<Longrightarrow> w \<in> set SEPARATORS \<or> (of_char (hd w) :: nat) < 32" by (auto simp: list_all_iff)
qed

text \<open>The first bytes of line ends are not inside a separator.\<close>

lemma separator_inside:
  assumes "w \<in> set SEPARATORS" "starts_with w (s @ c # r)" "s \<noteq> []" "c \<in> {CHR 0x0A, CHR 0xC2, CHR 0xE2}"
  shows "starts_with w s"
  using assms by (cases s; cases "tl s"; cases "tl (tl s)") (auto simp: SEPARATORS_def)

lemma take_line_cut:
  assumes "printable a" "no_separator a" "w \<in> set SEPARATORS \<or> w = [CHR 0x0A]"
  shows "take_line (a @ w @ x) = (a, x)"
  using assms(1,2)
proof (induction a)
  case Nil
  obtain c u where w: "w = c # u" using assms(3) by (auto simp: SEPARATORS_def)
  have "find (\<lambda>w'. starts_with w' (w @ x)) LINE_ENDS = Some w"
    using assms(3) unfolding SEPARATORS_def list.set insert_iff empty_iff
    by (elim disjE FalseE; hypsubst; simp add: LINE_ENDS_def)
  then show ?case using w by simp
next
  case (Cons c a)
  obtain d u where w: "w = d # u" "d \<in> {CHR 0x0A, CHR 0xC2, CHR 0xE2}" using assms(3) by (auto simp: SEPARATORS_def)
  have "\<not> starts_with w' (c # a @ w @ x)" if "w' \<in> set LINE_ENDS" for w'
  proof
    assume w': "starts_with w' (c # a @ w @ x)"
    then have "hd w' = c" using LINE_ENDS_nonempty [OF that] by (cases w') (auto simp: starts_with_iff)
    then have sep: "w' \<in> set SEPARATORS" using line_end_kinds [OF that] Cons.prems(1) by (auto simp: printable_def)
    then have "starts_with w' (c # a)" using separator_inside [of w' "c # a" d "u @ x"] w w' by simp
    then show False using Cons.prems(2) sep by (auto simp: list_ex_iff)
  qed
  then have "find (\<lambda>w'. starts_with w' (c # a @ w @ x)) LINE_ENDS = None" by (auto simp: find_None_iff)
  then show ?case using Cons by (simp add: printable_def)
qed

lemma one_line_clean: "printable a \<Longrightarrow> no_separator a \<Longrightarrow> one_line a"
  using take_line_cut [of a "[CHR 0x0A]"] by (simp add: one_line_def)

lemma split_lines_append: "list_all one_line ls \<Longrightarrow> split_lines (unlines ls @ s) = ls @ split_lines s"
proof (induction ls)
  case (Cons l ls)
  then have "take_line (l @ CHR 0x0A # unlines ls @ s) = (l, unlines ls @ s)"
    by (simp add: one_line_def)
  then show ?case using Cons by (subst split_lines.simps) simp
qed simp

lemma split_lines_stream: "list_all one_line ls \<Longrightarrow> split_lines (unlines ls) = ls"
  using split_lines_append [of ls "[]"] by (simp add: split_lines.simps)

definition results :: "text_str list \<Rightarrow> json_dict list" where
  "results ls = concat (map (\<lambda>l. case json_loads (py_strip l) of
     Inr (JV_Dict d) \<Rightarrow> if py_strip l \<noteq> [] \<and> has_type d ''result'' then [d] else [] | _ \<Rightarrow> []) ls)"

lemma foldl_result_line: "foldl result_line found ls = (if results ls = [] then found else Some (last (results ls)))"
proof (induction ls arbitrary: found)
  case (Cons l ls)
  show ?case
    unfolding foldl_Cons Cons.IH by (auto simp: results_def result_line_def split: sum.splits json_value.splits)
qed (simp add: results_def)

lemma strip_front_stop:
  assumes "33 \<le> (of_char c :: nat)" "(of_char c :: nat) < 128"
  shows "strip_front WHITESPACE (c # s) = c # s" "strip_front (map rev WHITESPACE) (c # s) = c # s"
proof -
  have "list_all (\<lambda>w. w \<noteq> [] \<and> \<not> (33 \<le> (of_char (hd w) :: nat) \<and> (of_char (hd w) :: nat) < 128)
      \<and> \<not> (33 \<le> (of_char (last w) :: nat) \<and> (of_char (last w) :: nat) < 128)) WHITESPACE"
    by (simp add: WHITESPACE_def)
  then have ws: "w \<noteq> []" "hd w \<noteq> c" "last w \<noteq> c" if "w \<in> set WHITESPACE" for w
    using that assms by (auto simp: list_all_iff)
  have "\<not> starts_with w (c # s)" if "w \<in> set WHITESPACE" for w
    using ws [OF that] by (cases w) (auto simp: starts_with_iff)
  then show "strip_front WHITESPACE (c # s) = c # s"
    by (subst strip_front.simps) (auto simp: find_None_iff split: option.split dest!: find_Some_iff [THEN iffD1])
  have "\<not> starts_with (rev w) (c # s)" if "w \<in> set WHITESPACE" for w
    using ws [OF that] by (cases w rule: rev_cases) (auto simp: starts_with_iff)
  then show "strip_front (map rev WHITESPACE) (c # s) = c # s"
    by (subst strip_front.simps) (auto simp: find_None_iff split: option.split dest!: find_Some_iff [THEN iffD1])
qed

text \<open>A text from a brace to a brace has no white space around it; a new line after it goes.\<close>

lemma strip_front_nl: "strip_front (map rev WHITESPACE) (CHR 0x0A # s) = strip_front (map rev WHITESPACE) s"
proof -
  have "find (\<lambda>w. w \<noteq> [] \<and> starts_with w (CHR 0x0A # s)) (map rev WHITESPACE) = Some [CHR 0x0A]"
    by (simp add: WHITESPACE_def)
  then show ?thesis by (subst strip_front.simps) simp
qed

lemma py_strip_clean:
  assumes "s \<noteq> []" "33 \<le> (of_char (hd s) :: nat)" "(of_char (hd s) :: nat) < 128" "33 \<le> (of_char (last s) :: nat)" "(of_char (last s) :: nat) < 128"
  shows "py_strip s = s" "py_strip (s @ [CHR 0x0A]) = s"
proof -
  obtain c u where c: "s = c # u" using assms(1) by (cases s) auto
  obtain d v where d: "rev s = d # v" "last s = d" using assms(1) by (cases s rule: rev_cases) auto
  have front: "strip_front WHITESPACE (s @ r) = s @ r" for r
    using strip_front_stop(1) [of c "u @ r"] assms(2,3) c by simp
  have rear: "strip_front (map rev WHITESPACE) (rev s) = rev s"
    using strip_front_stop(2) [of d v] assms(4,5) d by simp
  show "py_strip s = s" using front [of "[]"] rear by (simp add: py_strip_def)
  show "py_strip (s @ [CHR 0x0A]) = s" using front [of "[CHR 0x0A]"] rear by (simp add: py_strip_def strip_front_nl)
qed

section \<open>The answer of a stream\<close>

text \<open>A line that holds one JSON object, as the clients write their events.\<close>

definition json_line :: "text_str \<Rightarrow> json_dict \<Rightarrow> bool" where
  "json_line l d \<longleftrightarrow> json_loads l = Inr (JV_Dict d) \<and> one_line l \<and> l \<noteq> [] \<and> hd l = CHR ''{'' \<and> last l = CHR ''}''"

lemma json_line_strip: "json_line l d \<Longrightarrow> py_strip l = l" "json_line l d \<Longrightarrow> py_strip (l @ [CHR 0x0A]) = l"
  using py_strip_clean [of l] by (simp_all add: json_line_def)

text \<open>A document followed by another one is not a document.\<close>

lemma loads_two:
  assumes "json_loads l = Inr (JV_Dict d)" "hd l = CHR ''{''" "l \<noteq> []" "skip_ws r \<noteq> []"
  shows "json_loads (l @ r) = Inl Json_Decode"
proof -
  obtain u where l: "l = CHR ''{'' # u" using assms(2,3) by (cases l) auto
  then have ws: "skip_ws (l @ x) = l @ x" for x by (simp add: json_ws_def)
  define n m where "n = Suc (2 * length l)" and "m = Suc (2 * length (l @ r))"
  note nm = this
  obtain w where w: "parse_value n l = Inr (JV_Dict d, w)" "skip_ws w = []"
    using assms(1) ws [of "[]"] by (auto simp: json_loads_def andthen_Inr nm(1) [symmetric] simp del: parse_value.simps split: if_splits)
  have "parse_value m l = Inr (JV_Dict d, w)"
    using w(1) parse_value_fuel [of l n m] by (simp add: nm del: parse_value.simps)
  then have "parse_value m (l @ r) = Inr (JV_Dict d, w @ r)"
    by (rule parse_value_more) (simp add: l self_delimiting_def)
  moreover have "skip_ws (w @ r) \<noteq> []" using assms(4) w(2) by (auto simp: dropWhile_append)
  ultimately show ?thesis using l ws [of r] by (simp add: json_loads_def BOM_def nm(2) del: parse_value.simps)
qed

lemma final_result_single: "json_line l d \<Longrightarrow> final_result_object (l @ [CHR 0x0A]) = Some d"
  using json_line_strip(2) by (auto simp: final_result_object_def json_line_def)

lemma final_result_more:
  assumes "json_line l d" "skip_ws r \<noteq> []" "33 \<le> (of_char (last r) :: nat)" "(of_char (last r) :: nat) < 128"
  shows "final_result_object (l @ r @ [CHR 0x0A]) = foldl result_line None (split_lines (l @ r @ [CHR 0x0A]))"
proof -
  have l: "l \<noteq> []" "hd l = CHR ''{''" using assms(1) by (auto simp: json_line_def)
  have r: "r \<noteq> []" using assms(2) by auto
  have strip: "py_strip (l @ r @ [CHR 0x0A]) = l @ r"
    using py_strip_clean(2) [of "l @ r"] l r assms(3,4) by simp
  have "json_loads (l @ r) = Inl Json_Decode" using assms(1,2) l by (intro loads_two) (auto simp: json_line_def)
  then show ?thesis using strip l by (simp add: final_result_object_def)
qed

lemma final_result_lines:
  assumes "json_line l d" "list_all one_line (l # ls)" "ls \<noteq> []" "last ls \<noteq> []" "skip_ws (last ls) \<noteq> []"
    "33 \<le> (of_char (last (last ls)) :: nat)" "(of_char (last (last ls)) :: nat) < 128"
  shows "final_result_object (unlines (l # ls)) = foldl result_line None (l # ls)"
proof -
  obtain ms m where ls: "ls = ms @ [m]" using assms(3) by (cases ls rule: rev_cases) auto
  define r where "r = CHR 0x0A # unlines ms @ m"
  have whole: "unlines (l # ls) = l @ r @ [CHR 0x0A]" using ls by (simp add: r_def)
  have "skip_ws r \<noteq> []" using assms(5) ls by (auto simp: r_def json_ws_def)
  then show ?thesis
    using final_result_more [OF assms(1), of r] assms(4,6,7) ls split_lines_stream [OF assms(2)]
    unfolding whole [symmetric] by (simp add: r_def)
qed

lemma json_line_ends:
  "json_line l d \<Longrightarrow> skip_ws l \<noteq> [] \<and> l \<noteq> [] \<and> 33 \<le> (of_char (last l) :: nat) \<and> (of_char (last l) :: nat) < 128"
  by (cases l) (auto simp: json_line_def json_ws_def)

lemma results_json: "list_all2 json_line ls ds \<Longrightarrow> results ls = filter (\<lambda>d. has_type d ''result'') ds"
proof (induction rule: list_all2_induct)
  case (Cons l ls d ds)
  then show ?case using json_line_strip(1) [OF Cons.hyps(1)] by (auto simp: results_def json_line_def)
qed (simp add: results_def)

text \<open>The result object of a stream of objects is the last one of type \<open>result\<close>.\<close>

lemma final_result_stream:
  assumes "list_all2 json_line ls ds" "2 \<le> length ls"
  shows "final_result_object (unlines ls)
    = (case filter (\<lambda>d. has_type d ''result'') ds of [] \<Rightarrow> None | r # rs \<Rightarrow> Some (last (r # rs)))"
proof -
  obtain l ls' d ds' where ls: "ls = l # ls'" "ds = d # ds'" "json_line l d" "list_all2 json_line ls' ds'"
    using assms by (cases ls; cases ds) auto
  then have ls': "ls' \<noteq> []" using assms(2) by (cases ls') auto
  have "list_all one_line ls" using assms(1) by (auto simp: list_all_length json_line_def dest: list_all2_nthD)
  moreover obtain e where "json_line (last ls') e"
    using ls(4) ls' by (metis last_conv_nth length_greater_0_conv list_all2_conv_all_nth diff_less zero_less_one)
  ultimately have "final_result_object (unlines ls) = foldl result_line None ls"
    using json_line_ends final_result_lines [OF ls(3), of ls'] ls(1) ls' by blast
  then show ?thesis by (simp add: foldl_result_line results_json [OF assms(1)] split: list.split)
qed

text \<open>
  C32: The live stream does not change what is recorded. For every stream of JSON object lines (at least two) whose last
  \<open>result\<close> object is on line \<open>l\<close> and carries an answer, claude and cursor parse the stream to exactly what they parse
  the one-object output \<open>l\<close> to: the answer with a final new line, and the usage of that object, or the same error.
\<close>
theorem stream_answer_recorded:
  assumes "list_all2 json_line ls ds" "2 \<le> length ls" "i < length ls" "has_type (ds ! i) ''result''"
    and "\<And>j. i < j \<Longrightarrow> j < length ls \<Longrightarrow> \<not> has_type (ds ! j) ''result''" and "map_of (ds ! i) ''result'' = Some (JV_Text answer)"
  shows "claude_parse (unlines ls) = claude_parse (ls ! i @ [CHR 0x0A]) \<and> cursor_parse (unlines ls) = cursor_parse (ls ! i @ [CHR 0x0A])
    \<and> claude_parse (unlines ls) = andthen (claude_usage (ds ! i)) (\<lambda>u. Inr \<lparr>po_text = ensure_trailing_newline answer, po_usage = Some u\<rparr>)"
proof -
  have len: "length ds = length ls" using assms(1) by (simp add: list_all2_lengthD)
  then have "ds = take i ds @ ds ! i # drop (Suc i) ds" using assms(3) by (simp add: id_take_nth_drop)
  moreover have "filter (\<lambda>d. has_type d ''result'') (drop (Suc i) ds) = []"
    using assms(5) len by (auto simp: filter_empty_conv in_set_conv_nth)
  ultimately have "filter (\<lambda>d. has_type d ''result'') ds = filter (\<lambda>d. has_type d ''result'') (take i ds) @ [ds ! i]"
    using assms(4) by (metis (no_types, lifting) append_Cons append_Nil filter.simps(2) filter_append)
  then have "final_result_object (unlines ls) = Some (ds ! i)"
    using final_result_stream [OF assms(1,2)] by (cases "filter (\<lambda>d. has_type d ''result'') (take i ds)") auto
  moreover have "final_result_object (ls ! i @ [CHR 0x0A]) = Some (ds ! i)"
    using assms(1,3) by (intro final_result_single) (simp add: list_all2_nthD)
  ultimately show ?thesis using assms(6) by (simp add: claude_parse_def cursor_parse_def)
qed

section \<open>A separator inside the answer\<close>

abbreviation escaped :: "text_str \<Rightarrow> text_str" where
  "escaped s \<equiv> concat (map escape_char s)"

abbreviation high :: "char \<Rightarrow> bool" where
  "high c \<equiv> 128 \<le> (of_char c :: nat)"

lemma short_escapes_range: "map_of short_escapes c = Some e \<Longrightarrow> \<not> high c \<and> 32 \<le> (of_char e :: nat) \<and> \<not> high e"
proof -
  have "list_all (\<lambda>(c, e). \<not> high c \<and> 32 \<le> (of_char e :: nat) \<and> \<not> high e) short_escapes" by (simp add: short_escapes_def)
  then show "map_of short_escapes c = Some e \<Longrightarrow> \<not> high c \<and> 32 \<le> (of_char e :: nat) \<and> \<not> high e"
    by (auto simp: list_all_iff dest!: map_of_SomeD)
qed

lemma escape_high: "high c \<Longrightarrow> escape_char c = [c]"
  by (cases "map_of short_escapes c") (auto simp: escape_char_def dest: short_escapes_range)

lemma hex_char_range: "n < 16 \<Longrightarrow> 32 \<le> (of_char (hex_char n) :: nat) \<and> \<not> high (hex_char n)"
  by (simp add: hex_char_def)

lemma escape_low: "\<not> high c \<Longrightarrow> list_all (\<lambda>x. 32 \<le> (of_char x :: nat) \<and> \<not> high x) (escape_char c) \<and> escape_char c \<noteq> []"
  by (auto simp: escape_char_def hex_char_range split: option.split dest: short_escapes_range)

lemma escaped_printable: "printable (escaped s)"
proof (induction s)
  case (Cons c s)
  then show ?case using escape_low [of c] by (cases "high c") (auto simp: escape_high printable_def list_all_iff)
qed (simp add: printable_def)

lemma separators_high: "w \<in> set SEPARATORS \<Longrightarrow> list_all high w \<and> w \<noteq> []"
  by (auto simp: SEPARATORS_def)

lemma starts_escaped: "list_all high w \<Longrightarrow> starts_with w (escaped s) \<Longrightarrow> starts_with w s"
proof (induction w arbitrary: s)
  case (Cons a w)
  show ?case
  proof (cases s)
    case (Cons c u)
    show ?thesis
    proof (cases "high c")
      case True
      then show ?thesis using Cons Cons.prems Cons.IH by (simp add: escape_high)
    next
      case False
      then obtain x y where "escape_char c = x # y" "\<not> high x" using escape_low [of c] by (cases "escape_char c") auto
      then show ?thesis using Cons Cons.prems by auto
    qed
  qed (use Cons.prems in simp)
qed simp

lemma low_no_separator: "list_all (\<lambda>x. \<not> high x) u \<Longrightarrow> no_separator (u @ r) = no_separator r"
proof (induction u)
  case (Cons x u)
  have "\<not> starts_with w (x # u @ r)" if "w \<in> set SEPARATORS" for w
    using separators_high [OF that] Cons.prems by (cases w) auto
  then show ?case using Cons by (auto simp: list_ex_iff)
qed simp

lemma escaped_no_separator: "no_separator s \<Longrightarrow> no_separator (escaped s)"
proof (induction s)
  case (Cons c s)
  show ?case
  proof (cases "high c")
    case True
    have "\<not> starts_with w (c # escaped s)" if "w \<in> set SEPARATORS" for w
      using starts_escaped [of w "c # s"] separators_high [OF that] Cons.prems that True by (auto simp: escape_high list_ex_iff)
    then show ?thesis using Cons True by (auto simp: escape_high list_ex_iff)
  next
    case False
    then have "list_all (\<lambda>x. \<not> high x) (escape_char c)" using escape_low [of c] by (auto simp: list_all_iff)
    then show ?thesis using Cons by (simp add: low_no_separator)
  qed
qed simp

lemma scan_unterminated: "scan_string (concat (map escape_char s)) = Inl Json_Decode"
proof (induction s)
  case (Cons c s)
  obtain x u where x: "escape_char c = x # u" by (cases "escape_char c") (auto simp: escape_char_def split: option.splits if_splits)
  with string_item_escape [OF x, of "concat (map escape_char s)"] Cons show ?case by simp
qed simp

text \<open>A result object as a client that writes compact JSON does: its type, its answer, and the rest of the object.\<close>

definition result_text :: "text_str \<Rightarrow> text_str \<Rightarrow> text_str" where
  "result_text answer rest =
     ''{'' @ quote_text ''type'' @ '':'' @ quote_text ''result'' @ '','' @ quote_text ''result'' @ '':'' @ quote_text answer @ rest"

definition cut_text :: "text_str \<Rightarrow> text_str" where
  "cut_text x = ''{'' @ quote_text ''type'' @ '':'' @ quote_text ''result'' @ '','' @ quote_text ''result'' @ '':'' @ CHR 0x22 # escaped x"

lemma result_text_cut: "list_all high w \<Longrightarrow> result_text (x @ w @ y) rest = cut_text x @ w @ escaped y @ CHR 0x22 # rest"
proof -
  assume "list_all high w"
  then have "escaped w = w" by (induction w) (auto simp: escape_high)
  then show ?thesis by (simp add: result_text_def cut_text_def quote_text_def)
qed

lemma cut_text_fails: "json_loads (cut_text x) = Inl Json_Decode"
proof -
  let ?tail = "CHR '','' # quote_text ''result'' @ '':'' @ CHR 0x22 # escaped x"
  have cut: "cut_text x = CHR ''{'' # quote_text ''type'' @ '':'' @ [] @ quote_text ''result'' @ ?tail" by (simp add: cut_text_def)
  define n where "n = 2 * length (cut_text x)"
  obtain k where k: "n = Suc (Suc (Suc k))" "2 * length (quote_text ''result'' @ ?tail) < Suc (Suc k)"
  proof
    have "3 \<le> n \<and> 2 * length (quote_text ''result'' @ ?tail) < n - 1" by (simp add: n_def cut_text_def quote_text_def)
    then show "n = Suc (Suc (Suc (n - 3)))" "2 * length (quote_text ''result'' @ ?tail) < Suc (Suc (n - 3))" by auto
  qed
  have scan: "scan_string (escaped ''result'' @ CHR 0x22 # CHR '':'' # CHR 0x22 # escaped x) = Inr (''result'', CHR '':'' # CHR 0x22 # escaped x)"
    by (rule scan_quoted)
  have "parse_members (Suc (Suc k)) [(''type'', JV_Text ''result'')] (quote_text ''result'' @ '':'' @ CHR 0x22 # escaped x) = Inl Json_Decode"
    using scan scan_unterminated [of x] by (simp add: quote_text_def not_ws)
  then have "parse_members n [] (quote_text ''type'' @ '':'' @ [] @ quote_text ''result'' @ ?tail) = Inl Json_Decode"
    unfolding k(1) using parse_member [OF reads_quoted [of "''result''"] key_quoted [of "''type''"], of "[]" ?tail "Suc (Suc k)" "[]"] k(2)
    by (simp add: ends_simps not_ws) (simp add: quote_text_def not_ws)
  then have "parse_value (Suc n) (cut_text x) = Inl Json_Decode" unfolding cut by (simp add: quote_text_def not_ws)
  moreover have "skip_ws (cut_text x) = cut_text x" "\<not> starts_with BOM (cut_text x)"
    by (simp_all add: cut_text_def json_ws_def BOM_def)
  ultimately show ?thesis by (simp add: json_loads_def n_def [symmetric] del: parse_value.simps)
qed

definition is_letter :: "char \<Rightarrow> bool" where
  "is_letter c \<longleftrightarrow> (65 \<le> (of_char c :: nat) \<and> (of_char c :: nat) < 91) \<or> (97 \<le> (of_char c :: nat) \<and> (of_char c :: nat) < 123)"

lemma letter_escape:
  assumes "is_letter c"
  shows "escape_char c = [c]" "\<not> json_ws c" "c \<notin> {CHR 0x22, CHR ''{'', CHR ''[''}" "33 \<le> (of_char c :: nat)" "\<not> high c"
proof -
  have "list_all (\<lambda>(k, e). \<not> is_letter k) short_escapes" by (simp add: short_escapes_def is_letter_def)
  then have "map_of short_escapes c = None" using assms by (auto simp: map_of_eq_None_iff list_all_iff)
  then show "escape_char c = [c]" using assms by (auto simp: escape_char_def is_letter_def)
qed (use assms in \<open>auto simp: is_letter_def json_ws_def\<close>)

lemma scan_atom_not_dict: "scan_atom s \<noteq> Inr (JV_Dict d, r)"
proof
  assume a: "scan_atom s = Inr (JV_Dict d, r)"
  show False
  proof (cases "find (\<lambda>(w, v). starts_with w s) json_constants")
    case None
    then show False using a by (auto simp: scan_atom_def scan_number_def Let_def split: option.splits prod.splits if_splits sum.splits)
  next
    case (Some wv)
    then have "wv \<in> set json_constants" using nth_mem by (fastforce simp: find_Some_iff)
    then show False using a Some by (auto simp: scan_atom_def json_constants_def)
  qed
qed

lemma letter_not_dict: "is_letter c \<Longrightarrow> json_loads (c # s) \<noteq> Inr (JV_Dict d)"
proof
  assume c: "is_letter c" and d: "json_loads (c # s) = Inr (JV_Dict d)"
  have "skip_ws (c # s) = c # s" using letter_escape(2) [OF c] by simp
  then obtain n r where "parse_value (Suc n) (c # s) = Inr (JV_Dict d, r)"
    using d by (auto simp: json_loads_def andthen_Inr simp del: parse_value.simps split: if_splits)
  then show False using letter_escape(3) [OF c] scan_atom_not_dict [of "c # s" d r] by simp
qed

lemma no_separator_low: "no_separator s \<Longrightarrow> \<not> high c \<Longrightarrow> no_separator r \<Longrightarrow> no_separator (s @ c # r)"
proof (induction s)
  case Nil
  then show ?case using low_no_separator [of "[c]" r] by simp
next
  case (Cons x s)
  have more: "starts_with w (u @ c # r) \<Longrightarrow> list_all high w \<Longrightarrow> starts_with w u" for w u
  proof (induction w arbitrary: u)
    case (Cons a w)
    then show ?case using \<open>\<not> high c\<close> by (cases u) auto
  qed simp
  then have "\<not> starts_with w (x # s @ c # r)" if "w \<in> set SEPARATORS" for w
    using Cons.prems(1) that separators_high [OF that] more [of w "x # s"] by (auto simp: list_ex_iff)
  then show ?case using Cons by (auto simp: list_ex_iff)
qed

lemma printable_append [simp]: "printable (a @ b) = (printable a \<and> printable b)"
  by (simp add: printable_def)

lemma cut_text_line:
  assumes "no_separator x"
  shows "printable (cut_text x) \<and> no_separator (cut_text x)"
proof -
  define h where "h = ''{'' @ quote_text ''type'' @ '':'' @ quote_text ''result'' @ '','' @ quote_text ''result'' @ '':'' @ [CHR 0x22]"
  have "list_all (\<lambda>x. \<not> high x) h \<and> printable h" by (simp add: h_def quote_text_def escape_char_def short_escapes_def printable_def)
  moreover have "cut_text x = h @ escaped x" by (simp add: cut_text_def h_def)
  ultimately show ?thesis using escaped_printable [of x] escaped_no_separator [OF assms] by (simp add: low_no_separator)
qed

text \<open>The second half of the line: from inside the answer to the end of the object.\<close>

lemma tail_line:
  assumes "no_separator y" "y \<noteq> []" "is_letter (hd y)" "printable rest" "no_separator rest" "rest \<noteq> []" "last rest = CHR ''}''"
  shows "one_line (escaped y @ CHR 0x22 # rest)" "py_strip (escaped y @ CHR 0x22 # rest) = escaped y @ CHR 0x22 # rest"
    "json_loads (escaped y @ CHR 0x22 # rest) \<noteq> Inr (JV_Dict d)" "skip_ws (escaped y @ CHR 0x22 # rest) \<noteq> []"
proof -
  let ?b = "escaped y @ CHR 0x22 # rest"
  obtain c u where y: "y = c # u" "is_letter c" using assms(2,3) by (cases y) auto
  note c = letter_escape [OF y(2)]
  have b: "?b = c # escaped u @ CHR 0x22 # rest" using y(1) c(1) by simp
  show "one_line ?b"
    using assms(1,4,5) escaped_printable [of y] escaped_no_separator [of y]
    by (intro one_line_clean) (simp_all add: no_separator_low, simp add: printable_def)
  show "py_strip ?b = ?b" using assms(6,7) b c(4,5) by (intro py_strip_clean(1)) simp_all
  show "json_loads ?b \<noteq> Inr (JV_Dict d)" unfolding b by (rule letter_not_dict [OF y(2)])
  show "skip_ws ?b \<noteq> []" using b c(2) by simp
qed

lemma cut_text_strip: "x \<noteq> [] \<Longrightarrow> is_letter (last x) \<Longrightarrow> py_strip (cut_text x) = cut_text x"
proof -
  assume "x \<noteq> []" "is_letter (last x)"
  then obtain u c where x: "x = u @ [c]" "is_letter c" by (cases x rule: rev_cases) auto
  then have "last (cut_text x) = c" using letter_escape(1) [OF x(2)] by (simp add: cut_text_def)
  then show ?thesis using letter_escape(4,5) [OF x(2)] by (intro py_strip_clean(1)) (simp_all add: cut_text_def)
qed

lemma separator_stream:
  assumes pre: "list_all2 json_line pre ds" "pre \<noteq> []" "\<And>d. d \<in> set ds \<Longrightarrow> \<not> has_type d ''result''"
    and w: "w \<in> set SEPARATORS"
    and x: "no_separator x" "x \<noteq> []" "is_letter (last x)" and y: "no_separator y" "y \<noteq> []" "is_letter (hd y)"
    and rest: "printable rest" "no_separator rest" "rest \<noteq> []" "last rest = CHR ''}''"
  shows "final_result_object (unlines (pre @ [result_text (x @ w @ y) rest])) = None"
proof -
  note t = tail_line [OF y rest]
  let ?b = "escaped y @ CHR 0x22 # rest"
  have cut: "result_text (x @ w @ y) rest = cut_text x @ w @ ?b" using result_text_cut separators_high [OF w] by auto
  obtain l pre' d ds' where l: "pre = l # pre'" "json_line l d" using pre(1,2) by (cases pre; cases ds) auto
  define r where "r = CHR 0x0A # unlines pre' @ cut_text x @ w @ ?b"
  have whole: "unlines (pre @ [result_text (x @ w @ y) rest]) = l @ r @ [CHR 0x0A]" by (simp add: l cut r_def)
  have "skip_ws r \<noteq> []" "last r = CHR ''}''" using rest t(4) by (auto simp: r_def json_ws_def)
  then have scan: "final_result_object (l @ r @ [CHR 0x0A]) = foldl result_line None (split_lines (l @ r @ [CHR 0x0A]))"
    using final_result_more [OF l(2)] by simp
  have "take_line (cut_text x @ w @ ?b @ [CHR 0x0A]) = (cut_text x, ?b @ [CHR 0x0A])"
    using take_line_cut [of "cut_text x" w] cut_text_line [OF x(1)] w by simp
  moreover have "split_lines (?b @ [CHR 0x0A]) = [?b]" using split_lines_stream [of "[?b]"] t(1) by simp
  ultimately have "split_lines (cut_text x @ w @ ?b @ [CHR 0x0A]) = [cut_text x, ?b]"
    by (subst split_lines.simps) (simp add: cut_text_def)
  moreover have "list_all one_line pre" using pre(1) by (auto simp: list_all_length json_line_def dest: list_all2_nthD)
  ultimately have "split_lines (l @ r @ [CHR 0x0A]) = pre @ [cut_text x, ?b]"
    using split_lines_append [of pre "cut_text x @ w @ ?b @ [CHR 0x0A]"] by (simp add: r_def l)
  moreover have "results (pre @ [cut_text x, ?b]) = []"
  proof -
    have "results pre = []" using results_json [OF pre(1)] pre(3) by (auto simp: filter_empty_conv)
    moreover have "results [cut_text x, ?b] = []"
      using cut_text_strip [OF x(2,3)] cut_text_fails [of x] t(2,3) by (auto simp: results_def split: sum.splits json_value.splits)
    ultimately show ?thesis by (simp add: results_def)
  qed
  ultimately show ?thesis unfolding whole scan by (simp only: foldl_result_line simp_thms if_True)
qed

text \<open>
  A line separator inside the answer loses the record. JSON leaves U+0085, U+2028 and U+2029 unescaped in strings,
  and \<open>str.splitlines\<close> ends a line at each of them. When the answer of a stream's result object has one of them between two
  letters, claude and cursor find no result: the raw event stream is recorded as the answer, without usage, although the
  same object on its own is parsed to its answer.
\<close>
theorem separator_loses_answer:
  assumes "list_all2 json_line pre ds" "pre \<noteq> []" "\<And>d. d \<in> set ds \<Longrightarrow> \<not> has_type d ''result''"
    and "w \<in> set SEPARATORS"
    and "no_separator x" "x \<noteq> []" "is_letter (last x)" and "no_separator y" "y \<noteq> []" "is_letter (hd y)"
    and "printable rest" "no_separator rest" "rest \<noteq> []" "last rest = CHR ''}''"
    and "json_loads (result_text (x @ w @ y) rest) = Inr (JV_Dict d)" "map_of d ''result'' = Some (JV_Text (x @ w @ y))"
  shows "(let stream = unlines (pre @ [result_text (x @ w @ y) rest]) in
      claude_parse stream = Inr (raw_output stream) \<and> cursor_parse stream = Inr (raw_output stream))
    \<and> claude_parse (result_text (x @ w @ y) rest @ [CHR 0x0A])
        = andthen (claude_usage d) (\<lambda>u. Inr \<lparr>po_text = ensure_trailing_newline (x @ w @ y), po_usage = Some u\<rparr>)"
proof -
  let ?l = "result_text (x @ w @ y) rest"
  have none: "final_result_object (unlines (pre @ [?l])) = None"
    using assms(1-14) by (rule separator_stream)
  have "py_strip (?l @ [CHR 0x0A]) = ?l"
    using assms(13,14) by (intro py_strip_clean(2)) (simp_all add: result_text_def)
  then have "final_result_object (?l @ [CHR 0x0A]) = Some d"
    using assms(15) by (auto simp: final_result_object_def result_text_def)
  then show ?thesis using none assms(16) by (simp add: claude_parse_def cursor_parse_def Let_def)
qed

text \<open>A sample stream: a start event and a result.\<close>

definition sample_start :: json_dict where
  "sample_start = [(''type'', JV_Text ''system'')]"

definition sample_result :: "text_str \<Rightarrow> json_dict" where
  "sample_result answer = [(''type'', JV_Text ''result''), (''result'', JV_Text answer)]"

definition sample_start_line :: text_str where
  "sample_start_line = ''{'' @ quote_text ''type'' @ '':'' @ quote_text ''system'' @ ''}''"

lemmas sample_text = quote_text_def escape_char_def short_escapes_def printable_def SEPARATORS_def

lemma sample_start_json: "json_line sample_start_line sample_start"
proof -
  have "json_dumps [] (JV_Dict sample_start) = Some sample_start_line"
    by (simp add: sample_start_def sample_start_line_def joined_def member_text_def)
  then have "json_loads sample_start_line = Inr (JV_Dict sample_start)"
    using loads_dumps [of "[]" "JV_Dict sample_start" sample_start_line "[]" "[]"] by (simp add: sample_start_def)
  moreover have "one_line sample_start_line"
    by (rule one_line_clean) (simp_all add: sample_start_line_def sample_text)
  ultimately show ?thesis by (simp add: json_line_def sample_start_line_def quote_text_def)
qed

lemma sample_result_loads: "json_loads (result_text answer ''}'') = Inr (JV_Dict (sample_result answer))"
proof -
  have "json_dumps [] (JV_Dict (sample_result answer)) = Some (result_text answer ''}'')"
    by (simp add: sample_result_def result_text_def joined_def member_text_def)
  then show ?thesis
    using loads_dumps [of "[]" "JV_Dict (sample_result answer)" _ "[]" "[]"] by (simp add: sample_result_def)
qed

lemma sample_result_json: "json_line (result_text ''hi'' ''}'') (sample_result ''hi'')"
proof -
  have "one_line (result_text ''hi'' ''}'')" by (rule one_line_clean) (simp_all add: result_text_def sample_text)
  then show ?thesis using sample_result_loads [of "''hi''"] by (simp add: json_line_def result_text_def quote_text_def)
qed

lemma sample_usage: "claude_usage (sample_result answer)
  = Inr \<lparr>us_input_tokens = None, us_output_tokens = None, us_cache_read_tokens = None, us_cache_write_tokens = None,
      us_reasoning_tokens = None, us_cost_usd = None, us_raw = []\<rparr>"
  by (simp add: claude_usage_def sample_result_def dict_at_def get_int_def keep_keys_def Let_def)

lemma stream_answer_recorded_witness:
  "\<exists>u. claude_parse (unlines [sample_start_line, result_text ''hi'' ''}'']) = Inr \<lparr>po_text = ''hi'' @ [CHR 0x0A], po_usage = Some u\<rparr>"
proof -
  have "claude_parse (unlines [sample_start_line, result_text ''hi'' ''}''])
      = andthen (claude_usage (sample_result ''hi'')) (\<lambda>u. Inr \<lparr>po_text = ensure_trailing_newline ''hi'', po_usage = Some u\<rparr>)"
    using stream_answer_recorded [of "[sample_start_line, result_text ''hi'' ''}'']" "[sample_start, sample_result ''hi'']" 1 "''hi''"]
      sample_start_json sample_result_json by (auto simp: has_type_def sample_result_def)
  then show ?thesis by (simp add: sample_usage ensure_trailing_newline_def)
qed

lemma separator_loses_answer_witness:
  "let stream = unlines [sample_start_line, result_text (''a'' @ [CHR 0xE2, CHR 0x80, CHR 0xA8] @ ''b'') ''}''] in
     claude_parse stream = Inr (raw_output stream)"
proof -
  have "claude_parse (unlines ([sample_start_line] @ [result_text (''a'' @ [CHR 0xE2, CHR 0x80, CHR 0xA8] @ ''b'') ''}'']))
      = Inr (raw_output (unlines ([sample_start_line] @ [result_text (''a'' @ [CHR 0xE2, CHR 0x80, CHR 0xA8] @ ''b'') ''}''])))"
    using separator_loses_answer [of "[sample_start_line]" "[sample_start]" "[CHR 0xE2, CHR 0x80, CHR 0xA8]" "''a''" "''b''" "''}''"
        "sample_result (''a'' @ [CHR 0xE2, CHR 0x80, CHR 0xA8] @ ''b'')"] sample_start_json sample_result_loads
    by (simp add: has_type_def sample_start_def sample_result_def SEPARATORS_def is_letter_def printable_def Let_def)
  then show ?thesis by (simp add: Let_def)
qed

text \<open>A count the client reports as infinite raises out of the parse, although unusable counts are promised to be unknown.\<close>

lemma infinite_count_raises:
  assumes "final_result_object stdout = Some d" "map_of d ''result'' = Some (JV_Text answer)"
    and "dict_at d ''usage'' = Some u" "map_of u ''input_tokens'' = Some (JV_Float (Infinite s))"
  shows "\<exists>m. claude_parse stdout = Inl (Exn OverflowError m)"
  using assms by (simp add: claude_parse_def claude_usage_def get_int_def value_or_none_def Let_def)

end
