(* ===== verification/Cli_Output.thy ===== *)
theory Cli_Output
  imports Run_Command "HOL-Library.Sublist"
begin

text \<open>
  What the commands do with a recorded execution (\<open>presenters/shared.py\<close>,
  \<open>controllers/execution.py\<close>): its texts, its exit code, and writing its output files into a folder.
\<close>

section \<open>Lossy decoding\<close>

text \<open>
  \<open>b.decode("utf-8", errors="replace")\<close>: a byte that starts no character, or the part of a character that
  is there when it breaks off, becomes U+FFFD. The second byte has the ranges of the strict decoder.
\<close>

definition second_ok :: "nat \<Rightarrow> nat \<Rightarrow> bool" where
  "second_ok a b \<longleftrightarrow> cont_byte b \<and> (a = 224 \<longrightarrow> 160 \<le> b) \<and> (a = 237 \<longrightarrow> b < 160)
     \<and> (a = 240 \<longrightarrow> 144 \<le> b) \<and> (a = 244 \<longrightarrow> b < 144)"

definition replacement :: "nat list" where "replacement = [239, 191, 189]"

text \<open>One character: its bytes and what follows it.\<close>

definition decode_char :: "nat \<Rightarrow> nat list \<Rightarrow> nat list \<times> nat list" where
  "decode_char a xs =
     (if a < 128 then ([a], xs)
      else if 194 \<le> a \<and> a < 224 then
        (case xs of b # ys \<Rightarrow> if cont_byte b then ([a, b], ys) else (replacement, xs) | [] \<Rightarrow> (replacement, []))
      else if 224 \<le> a \<and> a < 240 then
        (case xs of b # c # zs \<Rightarrow> if \<not> second_ok a b then (replacement, xs)
              else if cont_byte c then ([a, b, c], zs) else (replacement, c # zs)
         | [b] \<Rightarrow> if second_ok a b then (replacement, []) else (replacement, xs)
         | [] \<Rightarrow> (replacement, []))
      else if 240 \<le> a \<and> a < 245 then
        (case xs of b # c # d # us \<Rightarrow> if \<not> second_ok a b then (replacement, xs)
              else if \<not> cont_byte c then (replacement, c # d # us)
              else if cont_byte d then ([a, b, c, d], us) else (replacement, d # us)
         | [b, c] \<Rightarrow> if \<not> second_ok a b then (replacement, xs) else if cont_byte c then (replacement, []) else (replacement, [c])
         | [b] \<Rightarrow> if second_ok a b then (replacement, []) else (replacement, xs)
         | [] \<Rightarrow> (replacement, []))
      else (replacement, xs))"

lemma decode_char_shorter: "length (snd (decode_char a xs)) \<le> length xs"
  by (simp add: decode_char_def split: list.split)

function replace_bytes :: "nat list \<Rightarrow> nat list" where
  "replace_bytes [] = []"
| "replace_bytes (a # xs) = fst (decode_char a xs) @ replace_bytes (snd (decode_char a xs))"
  by pat_completeness auto
termination by (relation "measure length") (simp_all add: decode_char_shorter le_imp_less_Suc)

definition decode_replace :: "bytes \<Rightarrow> text_str" where
  "decode_replace b = map char_of (replace_bytes (map of_char b))"

declare utf8_ok.simps(2) [simp del]

lemma utf8_chars:
  "a < 128 \<Longrightarrow> utf8_ok (a # xs) = utf8_ok xs"
  "194 \<le> a \<Longrightarrow> a < 224 \<Longrightarrow> cont_byte b \<Longrightarrow> utf8_ok (a # b # xs) = utf8_ok xs"
  "224 \<le> a \<Longrightarrow> a < 240 \<Longrightarrow> second_ok a b \<Longrightarrow> cont_byte c \<Longrightarrow> utf8_ok (a # b # c # xs) = utf8_ok xs"
  "240 \<le> a \<Longrightarrow> a < 245 \<Longrightarrow> second_ok a b \<Longrightarrow> cont_byte c \<Longrightarrow> cont_byte d \<Longrightarrow> utf8_ok (a # b # c # d # xs) = utf8_ok xs"
  by (auto simp: utf8_ok.simps(2) second_ok_def)

lemma utf8_replacement: "utf8_ok (replacement @ xs) = utf8_ok xs" "utf8_ok replacement"
  by (simp_all add: replacement_def utf8_chars second_ok_def cont_byte_def)

lemma utf8_ok_cases:
  assumes "utf8_ok (a # xs)"
  obtains (one) "a < 128" "utf8_ok xs"
    | (two) b ys where "xs = b # ys" "194 \<le> a" "a < 224" "cont_byte b" "utf8_ok ys"
    | (three) b c ys where "xs = b # c # ys" "224 \<le> a" "a < 240" "second_ok a b" "cont_byte c" "utf8_ok ys"
    | (four) b c d ys where "xs = b # c # d # ys" "240 \<le> a" "a < 245" "second_ok a b" "cont_byte c" "cont_byte d" "utf8_ok ys"
  using assms by (simp add: utf8_ok.simps(2) second_ok_def split: list.splits if_splits)

lemma decode_char_valid: "utf8_ok (fst (decode_char a xs) @ ys) = utf8_ok ys"
  by (simp add: decode_char_def utf8_chars utf8_replacement split: list.split)

lemma decode_char_id: "utf8_ok (a # xs) \<Longrightarrow> decode_char a xs = (c, r) \<Longrightarrow> a # xs = c @ r \<and> utf8_ok r"
  by (erule utf8_ok_cases) (auto simp: decode_char_def)

lemma replace_bytes_valid: "utf8_ok (replace_bytes xs)"
  by (induction xs rule: replace_bytes.induct) (simp_all add: decode_char_valid)

lemma replace_bytes_id: "utf8_ok xs \<Longrightarrow> replace_bytes xs = xs"
proof (induction xs rule: replace_bytes.induct)
  case (2 a xs)
  obtain c r where cr: "decode_char a xs = (c, r)" by force
  then have split: "a # xs = c @ r" "utf8_ok r" using decode_char_id [OF 2(2)] by auto
  have "replace_bytes (a # xs) = c @ replace_bytes r" using cr by simp
  also have "\<dots> = c @ r" using 2(1) split(2) cr by simp
  finally show ?case using split(1) by simp
qed simp

lemma decode_char_sets:
  "set (fst (decode_char a xs)) \<union> set (snd (decode_char a xs)) \<subseteq> insert a (set xs) \<union> {239, 191, 189}"
proof -
  consider "a < 128" | "194 \<le> a" "a < 224" | "224 \<le> a" "a < 240" | "240 \<le> a" "a < 245" | "128 \<le> a" "a < 194 \<or> 245 \<le> a" by linarith
  then show ?thesis by cases (auto simp: decode_char_def replacement_def split: list.split)
qed

lemma decode_char_range: "decode_char a xs = (c, r) \<Longrightarrow> set c \<union> set r \<subseteq> insert a (set xs) \<union> {239, 191, 189}"
  using decode_char_sets [of a xs] by simp

lemma replace_bytes_range: "\<forall>x \<in> set xs. x < 256 \<Longrightarrow> \<forall>x \<in> set (replace_bytes xs). x < 256"
proof (induction xs rule: replace_bytes.induct)
  case (2 a xs)
  obtain c r where cr: "decode_char a xs = (c, r)" by force
  have "\<forall>x \<in> set c \<union> set r. x < 256" using decode_char_range [OF cr] 2(2) by auto
  with 2(1) cr show ?case by auto
qed simp

lemma decode_replace_utf8: "is_utf8 (decode_replace b)"
proof -
  have "map (of_char \<circ> char_of) (replace_bytes (map of_char b)) = replace_bytes (map of_char b)"
    by (rule map_idI) (use replace_bytes_range [of "map of_char b"] in \<open>auto simp: take_bit_eq_mod\<close>)
  then show ?thesis by (simp add: is_utf8_def decode_replace_def replace_bytes_valid)
qed

lemma decode_replace_id: "is_utf8 b \<Longrightarrow> decode_replace b = b"
  by (simp add: is_utf8_def decode_replace_def replace_bytes_id comp_def)

section \<open>Texts and exit code\<close>

definition find_artifact :: "ml_execution \<Rightarrow> artifact_type \<Rightarrow> artifact option" where
  "find_artifact e ty = find (\<lambda>a. at_type a = ty) (ex_artifacts e)"

definition artifact_text :: "ml_execution \<Rightarrow> artifact_type \<Rightarrow> text_str" where
  "artifact_text e ty =
     (case find_artifact e ty of None \<Rightarrow> [] | Some a \<Rightarrow> decode_replace (case at_content a of None \<Rightarrow> [] | Some b \<Rightarrow> b))"

text \<open>The content that is there, else the blob; \<open>read_blob\<close> is the artifact-content service.\<close>

definition content_or_blob :: "(text_str \<Rightarrow> exn + bytes) \<Rightarrow> artifact \<Rightarrow> exn + bytes" where
  "content_or_blob read_blob a = (case at_content a of Some b \<Rightarrow> Inr b | None \<Rightarrow> read_blob (at_blob_key a))"

definition stored_artifact_text :: "(text_str \<Rightarrow> exn + bytes) \<Rightarrow> ml_execution \<Rightarrow> artifact_type \<Rightarrow> exn + text_str" where
  "stored_artifact_text read_blob e ty = (case find_artifact e ty of None \<Rightarrow> Inr []
     | Some a \<Rightarrow> (case content_or_blob read_blob a of Inl x \<Rightarrow> Inl x | Inr b \<Rightarrow> Inr (decode_replace b)))"

definition run_exit_code :: "ml_execution \<Rightarrow> int" where
  "run_exit_code e = (case ex_failure e of
      Some f \<Rightarrow> (case fl_exit_code f of Some n \<Rightarrow> n | None \<Rightarrow> if ex_execution_state e = SUCCESS then 0 else 1)
    | None \<Rightarrow> if ex_execution_state e = SUCCESS then 0 else 1)"

section \<open>Output files\<close>

text \<open>
  A resolved path is its components; \<open>resolve\<close> makes a path absolute and follows the links of the file
  system at hand. \<open>a / Path(name)\<close> is the name itself when it is absolute.
\<close>

type_synonym path = "text_str list"

record out_fs =
  of_resolve :: "text_str \<Rightarrow> path"
  of_files :: "(path \<times> bytes) list"

definition path_join :: "text_str \<Rightarrow> text_str \<Rightarrow> text_str" where
  "path_join base name = (if starts_with ''/'' name then name else base @ ''/'' @ name)"

definition output_target :: "out_fs \<Rightarrow> text_str \<Rightarrow> text_str \<Rightarrow> exn + path" where
  "output_target fs out_dir name =
     (let base = of_resolve fs out_dir; target = of_resolve fs (path_join out_dir name)
      in if base \<noteq> target \<and> \<not> strict_prefix base target
         then Inl (Exn ValueError (''refusing to write outside output dir: '' @ name)) else Inr target)"

text \<open>One artifact of the loop: \<open>content\<close> is what the caller reads of it.\<close>

definition write_output :: "(artifact \<Rightarrow> exn + bytes) \<Rightarrow> text_str \<Rightarrow> artifact \<Rightarrow> (out_fs, nat) prog" where
  "write_output content out_dir a = (\<lambda>fs.
     case (at_type a = OUTPUT_FILE, at_name a) of
       (True, Some name) \<Rightarrow>
         (case output_target fs out_dir name of
            Inl e \<Rightarrow> (Inl e, fs)
          | Inr target \<Rightarrow> (case content a of
                Inl e \<Rightarrow> (Inl e, fs)
              | Inr b \<Rightarrow> (Inr 1, fs\<lparr>of_files := dict_set target b (of_files fs)\<rparr>)))
     | _ \<Rightarrow> (Inr 0, fs))"

fun write_outputs :: "(artifact \<Rightarrow> exn + bytes) \<Rightarrow> text_str \<Rightarrow> artifact list \<Rightarrow> (out_fs, nat) prog" where
  "write_outputs content out_dir [] = ret 0"
| "write_outputs content out_dir (a # as) =
     bindP (write_output content out_dir a) (\<lambda>n. bindP (write_outputs content out_dir as) (\<lambda>m. ret (n + m)))"

definition materialize_output_files ::
  "(text_str \<Rightarrow> exn + bytes) \<Rightarrow> ml_execution \<Rightarrow> text_str \<Rightarrow> (out_fs, nat) prog" where
  "materialize_output_files read_blob e out_dir = write_outputs (content_or_blob read_blob) out_dir (ex_artifacts e)"

definition apply_output_files :: "ml_execution \<Rightarrow> text_str \<Rightarrow> (out_fs, unit) prog" where
  "apply_output_files e out_dir =
     bindP (write_outputs (\<lambda>a. Inr (case at_content a of None \<Rightarrow> [] | Some b \<Rightarrow> b)) out_dir (ex_artifacts e)) (\<lambda>_. ret ())"

lemma write_output_contained:
  assumes "write_output content out_dir a fs = (r, fs')" "map_of (of_files fs') p \<noteq> map_of (of_files fs) p"
  shows "prefix (of_resolve fs out_dir) p"
  using assms
  by (auto simp: write_output_def output_target_def Let_def prefix_order.strict_iff_order
      split: bool.splits option.splits sum.splits if_splits)

lemma write_output_frame: "write_output content out_dir a fs = (r, fs') \<Longrightarrow> of_resolve fs' = of_resolve fs"
  by (auto simp: write_output_def split: bool.splits option.splits sum.splits)

lemma write_outputs_contained:
  "write_outputs content out_dir as fs = (r, fs') \<Longrightarrow>
     of_resolve fs' = of_resolve fs \<and> (map_of (of_files fs') p \<noteq> map_of (of_files fs) p \<longrightarrow> prefix (of_resolve fs out_dir) p)"
proof (induction as arbitrary: fs r)
  case (Cons a as)
  obtain r1 fs1 where one: "write_output content out_dir a fs = (r1, fs1)" by force
  note first = write_output_frame [OF one] write_output_contained [OF one, of p]
  show ?case
  proof (cases r1)
    case (Inl e)
    then show ?thesis using Cons.prems one first by (auto simp: bindP_def)
  next
    case (Inr n)
    then obtain r2 where "write_outputs content out_dir as fs1 = (r2, fs')"
      using Cons.prems one by (auto simp: bindP_def ret_def split: sum.splits prod.splits)
    with Cons.IH first show ?thesis by fastforce
  qed
qed (simp add: ret_def)

end
