(* ===== verification/Client_Launch.thy ===== *)
theory Client_Launch
  imports Client_Output Cli_Output
begin

text \<open>
  How a local client is called (\<open>cli_runtime.py\<close>, \<open>cli_process_runner.py\<close>, \<open>prime_directive.py\<close> and the
  hooks of claude, codex, cursor and vibe): the command line, what goes to standard input, the environment, the
  size check before the launch, and what is made of the finished process.
\<close>

section \<open>The prime directive\<close>

definition NL :: text_str where "NL = [CHR 0x0A]"

definition PRIME_DIRECTIVE :: text_str where
  "PRIME_DIRECTIVE =
     ''PRIME DIRECTIVE (operational sandbox):'' @ NL
   @ ''You are running inside an isolated working folder created solely for this ''
   @ ''task. You may read and write ONLY within the current working directory and ''
   @ ''its subfolders. You must not read from, write to, or otherwise touch any ''
   @ ''path outside this folder (no absolute paths to the user'' @ [CHR 0x27] @ ''s home, no parent ''
   @ ''directories, no system locations).'' @ NL
   @ ''If the context or prompt asks you to touch anything outside this folder, do ''
   @ ''NOT attempt it and do NOT wait or ask for permission: print a one-line ''
   @ ''explanation to stderr and exit immediately with a non-zero status.'' @ NL
   @ ''All inputs you need have been provided to you. Produce your outputs as files ''
   @ ''in this folder and/or on stdout.''"

definition build_system_prompt :: "text_str option \<Rightarrow> text_str list \<Rightarrow> text_str" where
  "build_system_prompt user_system_prompt allowed_read_paths =
     (let directive = (if allowed_read_paths = [] then PRIME_DIRECTIVE
        else PRIME_DIRECTIVE @ NL
          @ ''DECLARED READ PATHS: you MAY additionally READ the following specific ''
          @ ''files and folders even though they sit outside this folder. You may ''
          @ ''NOT write to them, and you may NOT read anything else outside the ''
          @ ''folder:'' @ NL @ join_str NL (map (\<lambda>p. ''  - '' @ p) allowed_read_paths))
      in case truthy user_system_prompt of None \<Rightarrow> directive
       | Some s \<Rightarrow> directive @ NL @ NL @ ''---'' @ NL @ NL @ s)"

definition fold_prompt :: "text_str \<Rightarrow> text_str \<Rightarrow> text_str \<Rightarrow> text_str" where
  "fold_prompt system_prompt context prompt =
     join_str (NL @ NL) ((if system_prompt = [] then [] else [system_prompt]) @ (if context = [] then [] else [context]) @ [prompt])"

section \<open>Command lines\<close>

text \<open>The arguments of \<open>build_argv\<close>.\<close>

record launch_call =
  la_executable :: text_str
  la_run_dir :: text_str
  la_model :: text_str
  la_effort :: text_str
  la_context :: text_str
  la_prompt :: text_str
  la_system_prompt :: text_str
  la_client_args :: "text_str list"
  la_grants :: "text_str list"

definition claude_argv :: "launch_call \<Rightarrow> text_str list" where
  "claude_argv c = [la_executable c, ''-p'', ''--model'', la_model c]
     @ (if la_effort c = [] then [] else [''--effort'', la_effort c])
     @ [''--append-system-prompt'', la_system_prompt c, ''--output-format'', ''stream-json'', ''--verbose'', ''--include-partial-messages'']
     @ la_client_args c"

definition codex_argv :: "launch_call \<Rightarrow> text_str list" where
  "codex_argv c = [la_executable c, ''exec'', ''--json'', ''--skip-git-repo-check'', ''-C'', la_run_dir c, ''--model'', la_model c]
     @ (if la_effort c = [] then [] else [''-c'', ''model_reasoning_effort='' @ la_effort c])
     @ [''-c'', ''experimental_instructions='' @ la_system_prompt c]
     @ la_client_args c @ [''-'']"

definition cursor_argv :: "launch_call \<Rightarrow> text_str list" where
  "cursor_argv c = [la_executable c, ''--trust'', ''--model'',
       if la_effort c = [] then la_model c else la_model c @ ''-'' @ la_effort c, ''--print'', ''--output-format'', ''stream-json'']
     @ la_client_args c @ [fold_prompt (la_system_prompt c) (la_context c) (la_prompt c)]"

definition vibe_argv :: "launch_call \<Rightarrow> text_str list" where
  "vibe_argv c = [la_executable c, ''-p'', fold_prompt (la_system_prompt c) (la_context c) (la_prompt c),
       ''--output'', ''json'', ''--yolo'', ''--trust'', ''--workdir'', la_run_dir c] @ la_client_args c"

definition stdin_prompt :: "text_str \<Rightarrow> text_str \<Rightarrow> text_str option" where
  "stdin_prompt context prompt = Some (if context = [] then prompt else context @ NL @ NL @ prompt)"

definition claude_read_access :: "text_str list \<Rightarrow> text_str list" where
  "claude_read_access paths = concat (map (\<lambda>p. [''--add-dir'', p]) paths)"

definition cursor_grant_argv :: "text_str list \<Rightarrow> text_str list" where
  "cursor_grant_argv grants = (if ''net'' \<in> set grants then [''--force''] else [])"

definition vibe_extra_env :: "text_str \<Rightarrow> text_str \<Rightarrow> (text_str \<times> text_str) list" where
  "vibe_extra_env model effort =
     [(''VIBE_ENABLE_TELEMETRY'', ''false''), (''VIBE_ENABLE_UPDATE_CHECKS'', ''false''), (''VIBE_ENABLE_NOTIFICATIONS'', ''false'')]
     @ (if model = [] then [] else [(''VIBE_ACTIVE_MODEL'', model)])"

section \<open>Grant files\<close>

record grant_file =
  gr_file_name :: text_str
  gr_content :: "text_str option"

definition granted :: "text_str list \<Rightarrow> text_str list \<Rightarrow> text_str \<Rightarrow> text_str list" where
  "granted grants names token = (if list_ex (\<lambda>g. g \<in> set names) grants then [token] else [])"

definition claude_allow :: "text_str list \<Rightarrow> text_str list" where
  "claude_allow grants = [''Write(**)'', ''Edit(**)''] @ granted grants [''read''] ''Read(**)'' @ granted grants [''shell''] ''Bash(**)''
     @ granted grants [''net''] ''WebFetch'' @ granted grants [''web-search''] ''WebSearch''"

definition claude_grants_file :: "text_str list \<Rightarrow> grant_file" where
  "claude_grants_file grants = \<lparr>gr_file_name = ''settings.json'',
     gr_content = json_dumps '' '' (JV_Dict [(''permissions'', JV_Dict [(''allow'', JV_List (map JV_Text (claude_allow grants)))]),
       (''defaultMode'', JV_Text ''acceptEdits'')])\<rparr>"

definition codex_grants_file :: "text_str list \<Rightarrow> grant_file" where
  "codex_grants_file grants = \<lparr>gr_file_name = ''config.toml'',
     gr_content = Some (join_str NL ([''approval_policy = '' @ quote_text ''never'', ''sandbox_mode = '' @ quote_text ''workspace-write'']
       @ granted grants [''web-search''] (''web_search = '' @ quote_text ''live'')
       @ (if ''net'' \<in> set grants then [''[sandbox_workspace_write]'', ''network_access = true''] else [])) @ NL)\<rparr>"

definition cursor_allow :: "text_str list \<Rightarrow> text_str list" where
  "cursor_allow grants = [''Write(**)''] @ granted grants [''read''] ''Read(**)'' @ granted grants [''shell'', ''net''] ''Shell(**)''
     @ granted grants [''net'', ''web-search''] ''WebFetch(**)''"

definition keep_first :: "text_str list \<Rightarrow> text_str list" where
  "keep_first xs = foldl (\<lambda>ordered t. if t \<in> set ordered then ordered else ordered @ [t]) [] xs"

definition cursor_grants_file :: "text_str list \<Rightarrow> grant_file" where
  "cursor_grants_file grants = \<lparr>gr_file_name = ''cli-config.json'',
     gr_content = json_dumps '' '' (JV_Dict [(''version'', JV_Int 1),
       (''permissions'', JV_Dict [(''allow'', JV_List (map JV_Text (keep_first (cursor_allow grants))))])])\<rparr>"

section \<open>The size of a command line\<close>

datatype platform = Windows | Linux | Other_OS nat

text \<open>The scope is per argument or total; \<open>Other_OS\<close> carries \<open>SC_ARG_MAX\<close>, or 1 MiB when it is not known.\<close>

fun command_line_limit :: "platform \<Rightarrow> bool \<times> nat" where
  "command_line_limit Windows = (False, 32767)"
| "command_line_limit Linux = (True, 128 * 1024)"
| "command_line_limit (Other_OS n) = (False, n)"

definition measured :: "bool \<Rightarrow> text_str list \<Rightarrow> nat" where
  "measured per_arg argv = (let sizes = map length argv in if per_arg then Max (set sizes) else sum_list sizes + length argv)"

definition check_command_line_size :: "platform \<Rightarrow> text_str list \<Rightarrow> exn + unit" where
  "check_command_line_size os argv = (let (per_arg, limit) = command_line_limit os in
     if int limit - 4096 \<le> int (measured per_arg argv) then Inl (Exn CommandLineTooLong ''the launched command is over the limit'') else Inr ())"

section \<open>The call engine\<close>

record client_hooks =
  ch_name :: text_str
  ch_executable :: text_str
  ch_argv :: "launch_call \<Rightarrow> text_str list"
  ch_read_access :: "text_str list \<Rightarrow> text_str list"
  ch_grant_argv :: "text_str list \<Rightarrow> text_str list"
  ch_home_var :: "text_str option"
  ch_extra_env :: "text_str \<Rightarrow> text_str \<Rightarrow> (text_str \<times> text_str) list"
  ch_stdin :: "text_str \<Rightarrow> text_str \<Rightarrow> text_str option"
  ch_parse :: "text_str \<Rightarrow> exn + parsed_output"
  ch_live :: "text_str \<Rightarrow> stream_event option"

definition claude :: client_hooks where
  "claude = \<lparr>ch_name = ''claude'', ch_executable = ''claude'', ch_argv = claude_argv, ch_read_access = claude_read_access,
     ch_grant_argv = \<lambda>_. [], ch_home_var = Some ''CLAUDE_CONFIG_DIR'', ch_extra_env = \<lambda>_ _. [], ch_stdin = stdin_prompt,
     ch_parse = claude_parse, ch_live = claude_event\<rparr>"

definition codex :: client_hooks where
  "codex = \<lparr>ch_name = ''codex'', ch_executable = ''codex'', ch_argv = codex_argv, ch_read_access = \<lambda>_. [],
     ch_grant_argv = \<lambda>_. [], ch_home_var = Some ''CODEX_HOME'', ch_extra_env = \<lambda>_ _. [], ch_stdin = stdin_prompt,
     ch_parse = codex_parse, ch_live = codex_live\<rparr>"

definition cursor :: client_hooks where
  "cursor = \<lparr>ch_name = ''cursor'', ch_executable = ''cursor-agent'', ch_argv = cursor_argv, ch_read_access = \<lambda>_. [],
     ch_grant_argv = cursor_grant_argv, ch_home_var = Some ''CURSOR_CONFIG_DIR'', ch_extra_env = \<lambda>_ _. [], ch_stdin = \<lambda>_ _. None,
     ch_parse = cursor_parse, ch_live = cursor_event\<rparr>"

definition vibe :: client_hooks where
  "vibe = \<lparr>ch_name = ''vibe'', ch_executable = ''vibe'', ch_argv = vibe_argv, ch_read_access = \<lambda>_. [],
     ch_grant_argv = \<lambda>_. [], ch_home_var = None, ch_extra_env = vibe_extra_env, ch_stdin = \<lambda>_ _. None,
     ch_parse = vibe_parse, ch_live = \<lambda>_. None\<rparr>"

text \<open>The machine: its executables, and the process that a launch becomes.\<close>

datatype process_end = Process_Exits int | Process_Times_Out | Process_Stopped int

record process_run =
  pn_lines :: "text_str list"
  pn_stderr :: text_str
  pn_end :: process_end

record machine =
  mc_platform :: platform
  mc_exists :: "text_str \<Rightarrow> bool"
  mc_which :: "text_str \<Rightarrow> text_str option"
  mc_run :: "text_str list \<Rightarrow> text_str option \<Rightarrow> (text_str \<times> text_str) list \<Rightarrow> process_run"
  mc_native :: "text_str list \<Rightarrow> process_run"

definition resolve_executable :: "machine \<Rightarrow> client_hooks \<Rightarrow> text_str option \<Rightarrow> exn + text_str" where
  "resolve_executable M H override =
     (let candidate = (case truthy override of None \<Rightarrow> ch_executable H | Some p \<Rightarrow> p) in
      if CHR ''/'' \<in> set candidate \<or> CHR 0x5C \<in> set candidate
      then (if mc_exists M candidate then Inr candidate else Inl (Exn ClientNotFound (''executable not found at '' @ candidate)))
      else case mc_which M candidate of
          Some found \<Rightarrow> if found = [] then Inl (Exn ClientNotFound (''could not find '' @ candidate)) else Inr found
        | None \<Rightarrow> Inl (Exn ClientNotFound (''could not find '' @ candidate)))"

record client_answer =
  ca_exit_code :: int
  ca_stdout :: text_str
  ca_stderr :: text_str
  ca_token_usage :: "usage option"

text \<open>\<open>CliProcessRunner.run\<close>; the time-out is translated as the runtime does.\<close>

definition run_process ::
  "machine \<Rightarrow> client_hooks \<Rightarrow> text_str list \<Rightarrow> text_str option \<Rightarrow> (text_str \<times> text_str) list \<Rightarrow> exn + text_str \<times> text_str \<times> int" where
  "run_process M H argv input env = andthen (check_command_line_size (mc_platform M) argv) (\<lambda>_.
     let run = mc_run M argv input env in case pn_end run of
       Process_Exits code \<Rightarrow> Inr (concat (pn_lines run), pn_stderr run, code)
     | Process_Times_Out \<Rightarrow> Inl (Exn RunTimedOut (ch_name H))
     | Process_Stopped signum \<Rightarrow> Inl (Exn RunInterrupted ''client run was stopped''))"

definition launch_call_of :: "managed_local_request \<Rightarrow> text_str \<Rightarrow> text_str \<Rightarrow> launch_call" where
  "launch_call_of q executable run_dir =
     \<lparr>la_executable = executable, la_run_dir = run_dir, la_model = ml_model q, la_effort = ml_effort q, la_context = ml_context q,
      la_prompt = ml_prompt q, la_system_prompt = build_system_prompt (ml_user_system_prompt q) (ml_allowed_read_paths q),
      la_client_args = ml_client_args q, la_grants = sorted_set (ml_grants q)\<rparr>"

definition managed_argv :: "client_hooks \<Rightarrow> managed_local_request \<Rightarrow> text_str \<Rightarrow> text_str \<Rightarrow> text_str list" where
  "managed_argv H q executable run_dir =
     ch_argv H (launch_call_of q executable run_dir) @ ch_read_access H (ml_add_dir_paths q) @ ch_grant_argv H (sorted_set (ml_grants q))"

definition managed_env :: "client_hooks \<Rightarrow> managed_local_request \<Rightarrow> text_str \<Rightarrow> (text_str \<times> text_str) list" where
  "managed_env H q config_home = ch_extra_env H (ml_model q) (ml_effort q)
     @ (case ch_home_var H of None \<Rightarrow> [] | Some var \<Rightarrow> [(var, config_home)])"

definition execute_managed ::
  "machine \<Rightarrow> client_hooks \<Rightarrow> text_str option \<Rightarrow> managed_local_request \<Rightarrow> text_str \<Rightarrow> text_str \<Rightarrow> exn + client_answer" where
  "execute_managed M H override q run_dir config_home =
     andthen (resolve_executable M H override) (\<lambda>executable.
     andthen (run_process M H (managed_argv H q executable run_dir) (ch_stdin H (ml_context q) (ml_prompt q)) (managed_env H q config_home))
       (\<lambda>(out, err, code). andthen (ch_parse H out) (\<lambda>parsed.
          Inr \<lparr>ca_exit_code = code, ca_stdout = po_text parsed, ca_stderr = err, ca_token_usage = po_usage parsed\<rparr>)))"

text \<open>The events a stream file gets, in order, for a run whose client is found.\<close>

definition opt_text :: "text_str \<Rightarrow> json_value" where
  "opt_text s = (if s = [] then JV_Null else JV_Text s)"

definition opt_int :: "int option \<Rightarrow> json_value" where
  "opt_int i = (case i of None \<Rightarrow> JV_Null | Some n \<Rightarrow> JV_Int n)"

definition run_start :: "client_hooks \<Rightarrow> managed_local_request \<Rightarrow> stream_event" where
  "run_start H q = (''run.start'', [(''client'', JV_Text (ch_name H)), (''model'', JV_Text (ml_model q)),
     (''effort'', opt_text (ml_effort q)), (''grants'', opt_text (join_str '','' (sorted_set (ml_grants q))))])"

definition run_end :: "int \<Rightarrow> parsed_output \<Rightarrow> stream_event" where
  "run_end code parsed = (''run.end'', [(''exit'', JV_Int code),
     (''input_tokens'', opt_int (case po_usage parsed of None \<Rightarrow> None | Some u \<Rightarrow> us_input_tokens u)),
     (''output_tokens'', opt_int (case po_usage parsed of None \<Rightarrow> None | Some u \<Rightarrow> us_output_tokens u))])"

definition live_events :: "machine \<Rightarrow> client_hooks \<Rightarrow> managed_local_request \<Rightarrow> text_str \<Rightarrow> text_str \<Rightarrow> text_str \<Rightarrow> stream_event list" where
  "live_events M H q executable run_dir config_home =
     (let argv = managed_argv H q executable run_dir; input = ch_stdin H (ml_context q) (ml_prompt q); env = managed_env H q config_home;
          run = mc_run M argv input env
      in run_start H q #
        (if check_command_line_size (mc_platform M) argv \<noteq> Inr () then []
         else List.map_filter (ch_live H) (pn_lines run)
           @ (case run_process M H argv input env of Inl e \<Rightarrow> []
              | Inr (out, err, code) \<Rightarrow> (case ch_parse H out of Inl e \<Rightarrow> [] | Inr parsed \<Rightarrow> [run_end code parsed]))))"

text \<open>The relay of \<open>alias\<close>: no size check, no stop signals; the bytes are decoded with replacement.\<close>

definition execute_passthrough :: "machine \<Rightarrow> client_hooks \<Rightarrow> text_str option \<Rightarrow> passthrough_request \<Rightarrow> exn + client_answer" where
  "execute_passthrough M H override q =
     andthen (resolve_executable M H override) (\<lambda>executable.
       let run = mc_native M (executable # pr_native_args q) in case pn_end run of
         Process_Exits code \<Rightarrow> Inr \<lparr>ca_exit_code = code, ca_stdout = decode_replace (concat (pn_lines run)),
             ca_stderr = decode_replace (pn_stderr run), ca_token_usage = None\<rparr>
       | Process_Times_Out \<Rightarrow> Inl (Exn RunTimedOut (ch_name H))
       | Process_Stopped signum \<Rightarrow> Inl (Exn KeyboardInterrupt []))"

section \<open>What reaches the client\<close>

lemma directive_first: "\<exists>r. build_system_prompt u paths = PRIME_DIRECTIVE @ r"
  by (auto simp: build_system_prompt_def Let_def split: option.split)

definition tells_directive :: "text_str list \<Rightarrow> bool" where
  "tells_directive argv \<longleftrightarrow> (\<exists>a b. a @ PRIME_DIRECTIVE @ b \<in> set argv)"

lemma tells_directiveI: "a @ PRIME_DIRECTIVE @ b \<in> set argv \<Longrightarrow> tells_directive argv"
  by (auto simp: tells_directive_def)

lemma fold_prompt_starts: "s \<noteq> [] \<Longrightarrow> \<exists>r. fold_prompt s c p = s @ r"
  by (auto simp: fold_prompt_def)

lemma fold_prompt_ends: "\<exists>a. fold_prompt s c p = a @ p"
  by (auto simp: fold_prompt_def)

lemma PRIME_DIRECTIVE_nonempty: "PRIME_DIRECTIVE \<noteq> []"
  by (simp add: PRIME_DIRECTIVE_def)

text \<open>
  The prime directive reaches every client. For every request, system prompt and grant set, the command line of each of
  the four clients has an argument that contains the directive, and the composed system prompt starts with it, so that
  no caller text comes before it.
\<close>
theorem directive_reaches_client:
  "tells_directive (managed_argv claude q exe dir) \<and> tells_directive (managed_argv codex q exe dir)
   \<and> tells_directive (managed_argv cursor q exe dir) \<and> tells_directive (managed_argv vibe q exe dir)
   \<and> take (length PRIME_DIRECTIVE) (build_system_prompt u paths) = PRIME_DIRECTIVE"
proof -
  obtain r where r: "build_system_prompt (ml_user_system_prompt q) (ml_allowed_read_paths q) = PRIME_DIRECTIVE @ r"
    using directive_first by blast
  obtain t where t: "fold_prompt (PRIME_DIRECTIVE @ r) (ml_context q) (ml_prompt q) = PRIME_DIRECTIVE @ r @ t"
    using fold_prompt_starts [of "PRIME_DIRECTIVE @ r"] PRIME_DIRECTIVE_nonempty by auto
  have "tells_directive (managed_argv claude q exe dir)"
    by (rule tells_directiveI [of "[]" r]) (simp add: managed_argv_def claude_def claude_argv_def launch_call_of_def r)
  moreover have "tells_directive (managed_argv codex q exe dir)"
    by (rule tells_directiveI [of "''experimental_instructions=''" r]) (simp add: managed_argv_def codex_def codex_argv_def launch_call_of_def r)
  moreover have "tells_directive (managed_argv cursor q exe dir)"
    by (rule tells_directiveI [of "[]" "r @ t"]) (simp add: managed_argv_def cursor_def cursor_argv_def launch_call_of_def r t)
  moreover have "tells_directive (managed_argv vibe q exe dir)"
    by (rule tells_directiveI [of "[]" "r @ t"]) (simp add: managed_argv_def vibe_def vibe_argv_def launch_call_of_def r t)
  moreover obtain v where "build_system_prompt u paths = PRIME_DIRECTIVE @ v" using directive_first by blast
  ultimately show ?thesis by simp
qed

section \<open>How large a prompt may be\<close>

lemma linux_check: "argv \<noteq> [] \<Longrightarrow> check_command_line_size Linux argv = Inr () \<longleftrightarrow> (\<forall>a \<in> set argv. length a < 126976)"
proof -
  assume "argv \<noteq> []"
  then have "measured True argv < 126976 \<longleftrightarrow> (\<forall>a \<in> set argv. length a < 126976)"
    by (simp add: measured_def Let_def)
  moreover have "check_command_line_size Linux argv = Inr () \<longleftrightarrow> measured True argv < 126976"
    by (auto simp: check_command_line_size_def Let_def)
  ultimately show ?thesis by simp
qed

lemma check_raises: "check_command_line_size os argv \<noteq> Inr () \<Longrightarrow> \<exists>m. check_command_line_size os argv = Inl (Exn CommandLineTooLong m)"
  by (cases "command_line_limit os") (simp add: check_command_line_size_def Let_def split: if_splits)

lemma prompt_argument: "H = cursor \<or> H = vibe \<Longrightarrow> \<exists>a. a @ ml_prompt q \<in> set (managed_argv H q exe dir)"
  using fold_prompt_ends [of "build_system_prompt (ml_user_system_prompt q) (ml_allowed_read_paths q)" "ml_context q" "ml_prompt q"]
  by (auto simp: managed_argv_def cursor_def cursor_argv_def vibe_def vibe_argv_def launch_call_of_def)

text \<open>
  C33: How large a prompt may be, on Linux. The command lines of claude and codex do not depend on prompt and context, which go
  to standard input, so no prompt is too large for them; cursor and vibe carry the prompt in one argument, and a prompt of
  124 KiB or more always ends in \<open>CommandLineTooLong\<close> before anything is launched; and a command line passes the check
  exactly when every argument is shorter than 124 KiB.
\<close>
theorem prompt_size_bounded:
  assumes "mc_platform M = Linux" "resolve_executable M H override = Inr exe"
  shows "(H = claude \<or> H = codex \<longrightarrow>
      (\<forall>context prompt. managed_argv H (q\<lparr>ml_context := context, ml_prompt := prompt\<rparr>) exe dir = managed_argv H q exe dir
         \<and> ch_stdin H context prompt = Some (if context = [] then prompt else context @ NL @ NL @ prompt)))
    \<and> ((H = cursor \<or> H = vibe) \<and> 126976 \<le> length (ml_prompt q) \<longrightarrow>
      (\<exists>m. execute_managed M H override q dir config_home = Inl (Exn CommandLineTooLong m)))
    \<and> (managed_argv H q exe dir \<noteq> [] \<longrightarrow>
      (check_command_line_size (mc_platform M) (managed_argv H q exe dir) = Inr () \<longleftrightarrow> (\<forall>a \<in> set (managed_argv H q exe dir). length a < 126976)))"
proof (intro conjI impI)
  assume "H = claude \<or> H = codex"
  then show "\<forall>context prompt. managed_argv H (q\<lparr>ml_context := context, ml_prompt := prompt\<rparr>) exe dir = managed_argv H q exe dir
         \<and> ch_stdin H context prompt = Some (if context = [] then prompt else context @ NL @ NL @ prompt)"
    by (auto simp: managed_argv_def claude_def codex_def claude_argv_def codex_argv_def launch_call_of_def stdin_prompt_def)
next
  assume big: "(H = cursor \<or> H = vibe) \<and> 126976 \<le> length (ml_prompt q)"
  then obtain a where a: "a @ ml_prompt q \<in> set (managed_argv H q exe dir)" using prompt_argument by blast
  then have "managed_argv H q exe dir \<noteq> []" by auto
  moreover have "\<not> length (a @ ml_prompt q) < 126976" using big by simp
  ultimately have "check_command_line_size Linux (managed_argv H q exe dir) \<noteq> Inr ()" using linux_check a by blast
  from check_raises [OF this] show "\<exists>m. execute_managed M H override q dir config_home = Inl (Exn CommandLineTooLong m)"
    using assms by (auto simp: execute_managed_def run_process_def)
next
  assume "managed_argv H q exe dir \<noteq> []"
  then show "check_command_line_size (mc_platform M) (managed_argv H q exe dir) = Inr () \<longleftrightarrow> (\<forall>a \<in> set (managed_argv H q exe dir). length a < 126976)"
    using linux_check assms(1) by simp
qed

definition sample_request :: "text_str \<Rightarrow> managed_local_request" where
  "sample_request prompt = \<lparr>ml_model = ''m'', ml_effort = [], ml_context = [], ml_prompt = prompt, ml_user_system_prompt = None,
     ml_allowed_read_paths = [], ml_add_dir_paths = [], ml_client_args = [], ml_grants = {''net''}\<rparr>"

definition sample_machine :: machine where
  "sample_machine = \<lparr>mc_platform = Linux, mc_exists = \<lambda>_. True, mc_which = Some,
     mc_run = \<lambda>_ _ _. \<lparr>pn_lines = [], pn_stderr = [], pn_end = Process_Exits 0\<rparr>,
     mc_native = \<lambda>_. \<lparr>pn_lines = [], pn_stderr = [], pn_end = Process_Exits 0\<rparr>\<rparr>"

lemma prompt_size_bounded_witness:
  "\<exists>m. execute_managed sample_machine cursor None (sample_request (replicate 126976 CHR ''x'')) ''d'' ''h'' = Inl (Exn CommandLineTooLong m)"
proof -
  have "resolve_executable sample_machine cursor None = Inr ''cursor-agent''"
    by (simp add: resolve_executable_def sample_machine_def cursor_def truthy_def)
  from prompt_size_bounded [OF _ this, of "sample_request (replicate 126976 CHR ''x'')" "''d''" "''h''"] show ?thesis
    by (auto simp: sample_machine_def sample_request_def)
qed

text \<open>
  The flag that opens the network for cursor comes after the prompt, where, as the comment in \<open>build_argv\<close> has it, the
  client reads prompt text.
\<close>

lemma cursor_force_after_prompt:
  assumes "''net'' \<in> ml_grants q" "finite (ml_grants q)"
  shows "\<exists>pre. managed_argv cursor q exe dir = pre @ [fold_prompt (build_system_prompt (ml_user_system_prompt q) (ml_allowed_read_paths q))
    (ml_context q) (ml_prompt q), ''--force'']"
  using assms by (simp add: managed_argv_def cursor_def cursor_argv_def cursor_grant_argv_def launch_call_of_def)

text \<open>Grants only add: a larger grant set allows everything a smaller one does.\<close>

lemma granted_mono: "set g \<subseteq> set g' \<Longrightarrow> set (granted g names t) \<subseteq> set (granted g' names t)"
  by (auto simp: granted_def list_ex_iff)

lemma grants_only_add:
  assumes "set g \<subseteq> set g'"
  shows "set (claude_allow g) \<subseteq> set (claude_allow g') \<and> set (cursor_allow g) \<subseteq> set (cursor_allow g')"
  using granted_mono [OF assms] unfolding claude_allow_def cursor_allow_def set_append by blast

end
