(* ===== verification/Json_Ascii.thy ===== *)
theory Json_Ascii
  imports Json_Text Cli_Output
begin

text \<open>
  \<open>json.dumps(data, indent=2)\<close>: every character outside the printable ASCII range is written as an escape,
  one beyond the basic plane as a surrogate pair, and the text is laid out over indented lines. What is
  written is read back, for texts that are valid UTF-8 and values without floats.
\<close>

section \<open>Escaped texts\<close>

text \<open>The code point of the first character of valid UTF-8, and what follows it.\<close>

definition code_point :: "nat \<Rightarrow> nat list \<Rightarrow> nat \<times> nat list" where
  "code_point a xs =
     (if a < 128 then (a, xs)
      else if a < 224 then (case xs of b # ys \<Rightarrow> (64 * (a - 192) + (b - 128), ys) | _ \<Rightarrow> (a, xs))
      else if a < 240 then (case xs of b # c # ys \<Rightarrow> (4096 * (a - 224) + 64 * (b - 128) + (c - 128), ys) | _ \<Rightarrow> (a, xs))
      else (case xs of b # c # d # ys \<Rightarrow> (262144 * (a - 240) + 4096 * (b - 128) + 64 * (c - 128) + (d - 128), ys) | _ \<Rightarrow> (a, xs)))"

lemma code_point_shorter: "length (snd (code_point a xs)) \<le> length xs"
  by (auto simp: code_point_def split: list.split)

definition unit_escape :: "nat \<Rightarrow> text_str" where
  "unit_escape n = [CHR 0x5C, CHR ''u'', hex_char (n div 4096), hex_char (n div 256 mod 16), hex_char (n div 16 mod 16), hex_char (n mod 16)]"

definition escape_code :: "nat \<Rightarrow> text_str" where
  "escape_code n =
     (if n < 128
      then (case map_of short_escapes (char_of n) of
          Some e \<Rightarrow> [CHR 0x5C, e] | None \<Rightarrow> if 32 \<le> n \<and> n < 127 then [char_of n] else unit_escape n)
      else if n < 65536 then unit_escape n
      else unit_escape (55296 + (n - 65536) div 1024) @ unit_escape (56320 + (n - 65536) mod 1024))"

function ascii_text :: "nat list \<Rightarrow> text_str" where
  "ascii_text [] = []"
| "ascii_text (a # xs) = escape_code (fst (code_point a xs)) @ ascii_text (snd (code_point a xs))"
  by pat_completeness auto
termination by (relation "measure length") (simp_all add: code_point_shorter le_imp_less_Suc)

definition quote_ascii :: "text_str \<Rightarrow> text_str" where
  "quote_ascii s = CHR 0x22 # ascii_text (map of_char s) @ [CHR 0x22]"

lemma cont_range: "cont_byte b \<Longrightarrow> \<exists>d. b = 128 + d \<and> d < 64"
  by (auto simp: cont_byte_def intro!: exI [of _ "b - 128"])

lemma digits64:
  assumes "f < 64" shows "(64 * x + f) div 64 = (x::nat)" "(64 * x + f) mod 64 = f"
  using assms by simp_all

lemma code_point_utf8:
  assumes "utf8_ok (a # xs)" "code_point a xs = (n, r)"
  shows "map of_char (utf8_char n) @ r = a # xs \<and> utf8_ok r \<and> n < 1114112 \<and> \<not> (55296 \<le> n \<and> n < 57344)"
  using assms(1)
proof (cases rule: utf8_ok_cases)
  case one
  then show ?thesis using assms(2) by (auto simp: code_point_def utf8_char_def take_bit_eq_mod)
next
  case (two b ys)
  obtain d where d: "b = 128 + d" "d < 64" using cont_range [OF two(4)] by auto
  obtain e where e: "a = 192 + e" "2 \<le> e" "e < 32" using two(2,3) by (intro that [of "a - 192"]) auto
  have "n = 64 * e + d" "r = ys" using assms(2) two(1) d e by (auto simp: code_point_def)
  moreover have "(64 * e + d) div 64 = e" "(64 * e + d) mod 64 = d" using d by auto
  ultimately show ?thesis using two d e by (auto simp: utf8_char_def take_bit_eq_mod)
next
  case (three b c ys)
  obtain d where d: "b = 128 + d" "d < 64" using cont_range three(4) by (auto simp: second_ok_def)
  obtain f where f: "c = 128 + f" "f < 64" using cont_range three(5) by auto
  obtain e where e: "a = 224 + e" "e < 16" using three(2,3) by (intro that [of "a - 224"]) auto
  have n: "n = 4096 * e + 64 * d + f" "r = ys" using assms(2) three(1) d e f by (auto simp: code_point_def)
  have sec: "e = 0 \<Longrightarrow> 32 \<le> d" "e = 13 \<Longrightarrow> d < 32" using three(4) d e by (auto simp: second_ok_def)
  have "n = 64 * (64 * e + d) + f" using n by simp
  then have "n div 64 = 64 * e + d" "n mod 64 = f" using digits64 [OF f(2), of "64 * e + d"] by (simp_all only:)
  moreover from this have "n div 4096 = e" "n div 64 mod 64 = d" using digits64 [OF d(2), of e] div_mult2_eq [of n 64 64] by simp_all
  moreover have "2048 \<le> n" "n < 65536" "\<not> (55296 \<le> n \<and> n < 57344)"
    using n d f e sec by (cases "e = 0"; cases "e = 13"; cases "e < 13"; auto)+
  ultimately show ?thesis using three d e f n by (auto simp: utf8_char_def take_bit_eq_mod)
next
  case (four b c d' ys)
  obtain d where d: "b = 128 + d" "d < 64" using cont_range four(4) by (auto simp: second_ok_def)
  obtain f where f: "c = 128 + f" "f < 64" using cont_range four(5) by auto
  obtain g where g: "d' = 128 + g" "g < 64" using cont_range four(6) by auto
  obtain e where e: "a = 240 + e" "e < 5" using four(2,3) by (intro that [of "a - 240"]) auto
  have n: "n = 262144 * e + 4096 * d + 64 * f + g" "r = ys" using assms(2) four(1) d e f g by (auto simp: code_point_def)
  have sec: "e = 0 \<Longrightarrow> 16 \<le> d" "e = 4 \<Longrightarrow> d < 16" using four(4) d e by (auto simp: second_ok_def)
  have "n = 64 * (64 * (64 * e + d) + f) + g" using n by simp
  then have low: "n div 64 = 64 * (64 * e + d) + f" "n mod 64 = g"
    using digits64 [OF g(2), of "64 * (64 * e + d) + f"] by (simp_all only:)
  then have mid: "n div 4096 = 64 * e + d" "n div 64 mod 64 = f"
    using digits64 [OF f(2), of "64 * e + d"] div_mult2_eq [of n 64 64] by simp_all
  then have high: "n div 262144 = e" "n div 4096 mod 64 = d" using digits64 [OF d(2), of e] div_mult2_eq [of n 4096 64] by simp_all
  have "65536 \<le> n" using n(1) sec(1) by (cases "e = 0") simp_all
  moreover have "n < 1114112"
  proof (cases "e = 4")
    case True
    then show ?thesis using n(1) sec(2) f(2) g(2) by simp
  next
    case False
    then have "e \<le> 3" using e by simp
    then show ?thesis using n(1) d(2) f(2) g(2) by linarith
  qed
  moreover have "utf8_char n = map char_of [240 + e, 128 + d, 128 + f, 128 + g]"
    using \<open>65536 \<le> n\<close> low(2) mid(2) high by (simp add: utf8_char_def)
  ultimately show ?thesis using four(1,7) d e f(1,2) g(1,2) n(2) by (simp add: take_bit_eq_mod)
qed

section \<open>Reading them back\<close>

lemma hex4_unit: "n < 65536 \<Longrightarrow> hex4 (drop 2 (unit_escape n) @ r) = Some (n, r)"
proof -
  assume n: "n < 65536"
  have "n div 16 = 16 * (n div 256) + n div 16 mod 16" "n div 256 = 16 * (n div 4096) + n div 256 mod 16"
    using mult_div_mod_eq [of 16 "n div 16"] mult_div_mod_eq [of 16 "n div 256"] div_mult2_eq [of n 16 16] div_mult2_eq [of n 256 16]
    by simp_all
  moreover have "n = 16 * (n div 16) + n mod 16" by simp
  ultimately have "n = 4096 * (n div 4096) + 256 * (n div 256 mod 16) + 16 * (n div 16 mod 16) + n mod 16" by linarith
  moreover have "n div 4096 < 16" using n by auto
  ultimately show ?thesis by (simp add: unit_escape_def hex4_def hex_digit_char)
qed

lemma unit_escape_split: "unit_escape n = CHR 0x5C # CHR ''u'' # drop 2 (unit_escape n)"
  by (simp add: unit_escape_def)

lemma escape_code_item:
  assumes "n < 1114112" "\<not> (55296 \<le> n \<and> n < 57344)"
  obtains x s where "escape_code n = x # s" "x \<noteq> CHR 0x22" "\<And>r. string_item x (s @ r) = Inr (utf8_char n, r)"
proof (cases "n < 65536")
  case True
  have unit: "string_item (CHR 0x5C) (CHR ''u'' # drop 2 (unit_escape n) @ r) = Inr (utf8_char n, r)" for r
    using hex4_unit [OF True, of r] assms(2) by (auto simp: string_item_def unicode_escape_def)
  show thesis
  proof (cases "n < 128 \<and> (map_of short_escapes (char_of n) \<noteq> None \<or> 32 \<le> n \<and> n < 127)")
    case True
    then have code: "of_char (char_of n) = n" "utf8_char n = [char_of n]" by (auto simp: utf8_char_def take_bit_eq_mod)
    show thesis
    proof (cases "map_of short_escapes (char_of n)")
      case None
      then have "escape_code n = [char_of n]" using True by (simp add: escape_code_def)
      moreover have "char_of n \<noteq> CHR 0x22" "char_of n \<noteq> CHR 0x5C" using short_escapes_none [OF None] by auto
      moreover have "string_item (char_of n) r = Inr (utf8_char n, r)" for r
        using calculation(3) None True code by (simp add: string_item_def)
      ultimately show thesis by (intro that [of "char_of n" "[]"]) auto
    next
      case (Some e)
      then have "escape_code n = [CHR 0x5C, e]" using True by (simp add: escape_code_def)
      moreover have "string_item (CHR 0x5C) ([e] @ r) = Inr (utf8_char n, r)" for r
        using short_escapes_back [OF Some] code by (simp add: string_item_def)
      ultimately show thesis by (intro that [of "CHR 0x5C" "[e]"]) auto
    qed
  next
    case False
    then have "escape_code n = unit_escape n" using True by (auto simp: escape_code_def split: option.split)
    then show thesis using unit unit_escape_split [of n] by (intro that [of "CHR 0x5C" "CHR ''u'' # drop 2 (unit_escape n)"]) auto
  qed
next
  case False
  define hi lo where "hi = 55296 + (n - 65536) div 1024" and "lo = 56320 + (n - 65536) mod 1024"
  have hi: "hi < 65536" "55296 \<le> hi" "hi < 56320" using assms(1) by (auto simp: hi_def)
  have lo: "lo < 65536" "56320 \<le> lo" "lo < 57344" by (auto simp: lo_def)
  have join: "65536 + 1024 * (hi - 55296) + (lo - 56320) = n" using False by (simp add: hi_def lo_def)
  obtain v where v: "unit_escape lo = CHR 0x5C # CHR ''u'' # v" using unit_escape_split by blast
  then have low: "hex4 (v @ r) = Some (lo, r)" for r using hex4_unit [OF lo(1), of r] by simp
  have "string_item (CHR 0x5C) (CHR ''u'' # drop 2 (unit_escape hi) @ unit_escape lo @ r) = Inr (utf8_char n, r)" for r
    unfolding v using hi lo join low [of r] by (simp add: string_item_def unicode_escape_def hex4_unit [OF hi(1)] starts_with_def)
  moreover have "escape_code n = CHR 0x5C # CHR ''u'' # drop 2 (unit_escape hi) @ unit_escape lo"
    using False unit_escape_split [of hi] by (auto simp: escape_code_def hi_def lo_def)
  ultimately show thesis by (intro that [of "CHR 0x5C" "CHR ''u'' # drop 2 (unit_escape hi) @ unit_escape lo"]) auto
qed

lemma scan_ascii: "utf8_ok bs \<Longrightarrow> scan_string (ascii_text bs @ CHR 0x22 # r) = Inr (map char_of bs, r)"
proof (induction bs rule: ascii_text.induct)
  case (2 a xs)
  obtain n u where n: "code_point a xs = (n, u)" by force
  note ok = code_point_utf8 [OF 2(2) n]
  obtain x s where x: "escape_code n = x # s" "x \<noteq> CHR 0x22" "\<And>r. string_item x (s @ r) = Inr (utf8_char n, r)"
    using escape_code_item [of n] ok by blast
  have "a # xs = map of_char (utf8_char n) @ u" using ok by simp
  then have "map char_of (a # xs) = utf8_char n @ map char_of u" by (simp add: comp_def)
  moreover have "scan_string (ascii_text u @ CHR 0x22 # r) = Inr (map char_of u, r)" using 2(1) ok n by simp
  ultimately show ?case using x n by simp
qed simp

lemma key_ascii: "is_utf8 s \<Longrightarrow> key_text s (quote_ascii s)"
  using scan_ascii [of "map of_char s"] by (simp add: key_text_def quote_ascii_def is_utf8_def comp_def)

lemma reads_ascii: "is_utf8 s \<Longrightarrow> reads_as (quote_ascii s) (JV_Text s)"
  unfolding reads_as_def
proof (intro conjI allI impI)
  fix n r assume "is_utf8 s" "2 * length (quote_ascii s @ r) < n"
  then obtain m where "n = Suc m" by (cases n) auto
  then show "parse_value n (quote_ascii s @ r) = Inr (JV_Text s, r)"
    using scan_ascii [of "map of_char s" r] \<open>is_utf8 s\<close> by (simp add: quote_ascii_def is_utf8_def comp_def)
qed (simp add: quote_ascii_def json_ws_def)

section \<open>Indented values\<close>

text \<open>An empty list or dict stays on its line.\<close>

definition new_line :: "nat \<Rightarrow> text_str" where
  "new_line k = CHR 0x0A # replicate k (CHR '' '')"

definition bracketed :: "char \<Rightarrow> char \<Rightarrow> nat \<Rightarrow> text_str option list \<Rightarrow> text_str option" where
  "bracketed c d k ts = (if ts = [] then Some [c, d]
     else map_option (\<lambda>b. c # new_line (k + 2) @ b @ new_line k @ [d]) (joined (new_line (k + 2)) ts))"

definition ascii_member :: "text_str \<times> text_str option \<Rightarrow> text_str option" where
  "ascii_member kt = map_option (\<lambda>t. quote_ascii (fst kt) @ '':'' @ '' '' @ t) (snd kt)"

primrec json_indented :: "json_value \<Rightarrow> nat \<Rightarrow> text_str option" where
  "json_indented JV_Null k = json_dumps '' '' JV_Null"
| "json_indented (JV_Bool b) k = json_dumps '' '' (JV_Bool b)"
| "json_indented (JV_Int i) k = json_dumps '' '' (JV_Int i)"
| "json_indented (JV_Float x) k = json_dumps '' '' (JV_Float x)"
| "json_indented (JV_Text s) k = Some (quote_ascii s)"
| "json_indented (JV_List vs) k = bracketed (CHR ''['') (CHR '']'') k (map (\<lambda>f. f (k + 2)) (map json_indented vs))"
| "json_indented (JV_Dict kvs) k = bracketed (CHR ''{'') (CHR ''}'') k
     (map ascii_member (map (map_prod id (\<lambda>f. f (k + 2))) (map (map_prod id json_indented) kvs)))"

text \<open>The texts of a value are valid UTF-8, and a dict has one value for each key.\<close>

primrec texts_ok :: "json_value \<Rightarrow> bool" where
  "texts_ok JV_Null = True"
| "texts_ok (JV_Bool b) = True"
| "texts_ok (JV_Int i) = True"
| "texts_ok (JV_Float x) = True"
| "texts_ok (JV_Text s) = is_utf8 s"
| "texts_ok (JV_List vs) = list_all id (map texts_ok vs)"
| "texts_ok (JV_Dict kvs) = (distinct (map fst kvs) \<and> list_all (\<lambda>(k, ok). is_utf8 k \<and> ok) (map (map_prod id texts_ok) kvs))"

lemma new_line_ws: "list_all json_ws (new_line k)"
  by (auto simp: new_line_def json_ws_def list_all_iff)

lemma bracketed_Some:
  "bracketed c d k ts = Some t \<longleftrightarrow> (ts = [] \<and> t = [c, d] \<or> (\<exists>us. ts = map Some us \<and> us \<noteq> []
     \<and> t = c # new_line (k + 2) @ join_str ('','' @ new_line (k + 2)) us @ new_line k @ [d]))"
  by (auto simp: bracketed_def joined_def those_Some)

lemma indented_reads: "json_indented v k = Some t \<Longrightarrow> texts_ok v \<Longrightarrow> reads_as t v"
proof (induction v arbitrary: k t)
  case (JV_List vs)
  then consider "vs = []" "t = ''[]''"
    | us where "map (\<lambda>v. json_indented v (k + 2)) vs = map Some us"
      "t = CHR ''['' # new_line (k + 2) @ join_str ('','' @ new_line (k + 2)) us @ new_line k @ [CHR '']'']"
    by (auto simp: bracketed_Some comp_def)
  then show ?case
  proof cases
    case 1
    then show ?thesis using reads_list [of "[]" "[]" "[]" "[]" "[]"] by simp
  next
    case 2
    have "list_all2 (\<lambda>v t. reads_as t v) vs us"
      using JV_List by (intro items_read [OF 2(1)]) (auto simp: list_all_iff)
    from reads_list [OF this new_line_ws new_line_ws new_line_ws] show ?thesis using 2(2) by simp
  qed
next
  case (JV_Dict kvs)
  then consider "kvs = []" "t = ''{}''"
    | us where "map (\<lambda>kv. map_option (\<lambda>t. quote_ascii (fst kv) @ '':'' @ '' '' @ t) (json_indented (snd kv) (k + 2))) kvs = map Some us"
      "t = CHR ''{'' # new_line (k + 2) @ join_str ('','' @ new_line (k + 2)) us @ new_line k @ [CHR ''}'']"
    by (auto simp: bracketed_Some comp_def map_prod_def case_prod_beta ascii_member_def)
  then show ?case
  proof cases
    case 1
    then show ?thesis using reads_dict [of "[]" "[]" "[]" "[]" "[]" "[]"] by simp
  next
    case 2
    obtain kts where kts: "us = map (member '' '') kts" "list_all2 reads_member kvs kts"
    proof (rule members_read [OF 2(1)])
      fix kv assume kv: "kv \<in> set kvs"
      show "key_text (fst kv) (quote_ascii (fst kv))" using JV_Dict.prems(2) kv by (intro key_ascii) (auto simp: list_all_iff map_prod_def case_prod_beta)
      fix t assume "json_indented (snd kv) (k + 2) = Some t"
      with kv show "reads_as t (snd kv)"
        using JV_Dict.IH [of kv "snd kv" "k + 2"] JV_Dict.prems(2) by (auto simp: list_all_iff snds.simps map_prod_def case_prod_beta)
    qed
    have "list_all json_ws '' ''" by (simp add: json_ws_def)
    from reads_dict [OF kts(2) new_line_ws this new_line_ws new_line_ws] show ?thesis using 2(2) kts(1) JV_Dict.prems(2) by simp
  qed
qed (auto simp: json_constants_def split: if_splits intro: reads_int reads_ascii reads_constant)

lemma loads_indented: "json_indented v k = Some t \<Longrightarrow> texts_ok v \<Longrightarrow> json_loads t = Inr v"
  using loads_reads [OF indented_reads, of v k t "[]" "[]"] by simp

end
