(* ===== verification/Detached_Jobs.thy ===== *)
theory Detached_Jobs
  imports Domain_Model "HOL-Library.Sublist"
begin

text \<open>
  Detached jobs (\<open>async_jobs.py\<close>, \<open>controllers/execution.py\<close> and the submission in
  \<open>controllers/run.py\<close>): the job directory, the liveness lock, and the processes that use them, each a
  program counter whose steps interleave and which may be killed anywhere: the submitting command, the
  workers, and the commands that ask for the state. The run itself is an outcome of the environment.
\<close>

section \<open>Names and paths\<close>

definition is_job_char :: "char \<Rightarrow> bool" where
  "is_job_char c \<longleftrightarrow> (97 \<le> (of_char c :: nat) \<and> (of_char c :: nat) < 123) \<or> (48 \<le> (of_char c :: nat) \<and> (of_char c :: nat) < 58)"

definition safe_job_id :: "text_str \<Rightarrow> exn + text_str" where
  "safe_job_id i =
     (if i \<noteq> [] \<and> length i \<le> 64 \<and> list_all is_job_char i then Inr i else Inl (Exn ValueError (''invalid job id: '' @ i)))"

text \<open>A path is its components; \<open>resolve\<close> follows the links of the file system.\<close>

type_synonym job_path = "text_str list"

record job_layout =
  jl_jobs :: job_path
  jl_resolve :: "job_path \<Rightarrow> job_path"

definition within_jobs :: "job_layout \<Rightarrow> job_path \<Rightarrow> text_str \<Rightarrow> exn + job_path" where
  "within_jobs L candidate i =
     (let resolved = jl_resolve L candidate; base = jl_resolve L (jl_jobs L)
      in if base \<noteq> resolved \<and> \<not> strict_prefix base resolved
         then Inl (Exn ValueError (''job id escapes the jobs directory: '' @ i)) else Inr resolved)"

definition job_dir :: "job_layout \<Rightarrow> text_str \<Rightarrow> exn + job_path" where
  "job_dir L i = (case safe_job_id i of Inl e \<Rightarrow> Inl e | Inr s \<Rightarrow> within_jobs L (jl_jobs L @ [s]) i)"

definition lock_path_of :: "job_layout \<Rightarrow> text_str \<Rightarrow> exn + job_path" where
  "lock_path_of L i = (case safe_job_id i of Inl e \<Rightarrow> Inl e | Inr s \<Rightarrow> within_jobs L (jl_jobs L @ [''locks'', s @ ''.lock'']) i)"

definition job_file :: "job_layout \<Rightarrow> text_str \<Rightarrow> text_str \<Rightarrow> exn + job_path" where
  "job_file L name i = (case job_dir L i of Inl e \<Rightarrow> Inl e | Inr d \<Rightarrow> Inr (d @ [name]))"

lemma job_paths_contained:
  "job_dir L i = Inr p \<or> lock_path_of L i = Inr p \<or> job_file L name i = Inr p \<Longrightarrow> prefix (jl_resolve L (jl_jobs L)) p"
  by (auto simp: job_dir_def lock_path_of_def job_file_def within_jobs_def Let_def prefix_order.strict_iff_order
      split: sum.splits if_splits)

section \<open>The status file\<close>

definition SUBMITTED :: text_str where "SUBMITTED = ''submitted''"
definition RUNNING :: text_str where "RUNNING = ''running''"
definition SUCCEEDED :: text_str where "SUCCEEDED = ''succeeded''"
definition FAILED :: text_str where "FAILED = ''failed''"
definition INTERRUPTED :: text_str where "INTERRUPTED = ''interrupted''"

lemmas job_states = SUBMITTED_def RUNNING_def SUCCEEDED_def FAILED_def INTERRUPTED_def

datatype status_value = SV_Text text_str | SV_Int int

type_synonym job_status = "(text_str \<times> status_value) list"

text \<open>\<open>str(value)\<close>; the state is always written as text.\<close>

fun status_text :: "status_value \<Rightarrow> text_str" where
  "status_text (SV_Text s) = s"
| "status_text (SV_Int i) = int_str i"

definition stored_state :: "job_status option \<Rightarrow> text_str" where
  "stored_state st = (case st of None \<Rightarrow> ''unknown'' | Some d \<Rightarrow>
     (case map_of d ''state'' of None \<Rightarrow> ''unknown'' | Some v \<Rightarrow> status_text v))"

definition derived_state :: "job_status option \<Rightarrow> bool \<Rightarrow> text_str" where
  "derived_state st lock_held =
     (if st \<noteq> None \<and> stored_state st = RUNNING \<and> \<not> lock_held then INTERRUPTED else stored_state st)"

text \<open>\<open>update_status\<close>: what it writes, given what it read.\<close>

definition merge_status :: "text_str \<Rightarrow> job_status option \<Rightarrow> job_status \<Rightarrow> job_status" where
  "merge_status i old upd =
     foldl (\<lambda>d (k, v). dict_set k v d) (case old of None \<Rightarrow> [(''job'', SV_Text i)] | Some d \<Rightarrow> if d = [] then [(''job'', SV_Text i)] else d) upd"

lemma map_of_merge:
  "map_of (merge_status i old upd) k = (case map_of (rev upd) k of Some v \<Rightarrow> Some v
     | None \<Rightarrow> map_of (case old of None \<Rightarrow> [(''job'', SV_Text i)] | Some d \<Rightarrow> if d = [] then [(''job'', SV_Text i)] else d) k)"
proof -
  have "map_of (foldl (\<lambda>d (k, v). dict_set k v d) d upd) k = (case map_of (rev upd) k of Some v \<Rightarrow> Some v | None \<Rightarrow> map_of d k)" for d
    by (induction upd arbitrary: d) (auto simp: update_conv' map_add_def split: option.splits)
  then show ?thesis by (simp add: merge_status_def)
qed

section \<open>Disk and processes\<close>

type_synonym pid = nat

text \<open>The fields of \<open>spec.json\<close> that the worker itself reads.\<close>

type_synonym job_spec = "(text_str \<times> text_str) list"

record job_env =
  je_id :: text_str
  je_spec :: job_spec

record job_disk =
  jd_spec :: "job_spec option"
  jd_status :: "job_status option"
  jd_lock_file :: bool
  jd_lock :: "pid option"
  jd_events :: "text_str list"

datatype submit_pc = SB_Spec | SB_Read | SB_Write "job_status option" | SB_Event | SB_Spawn

datatype worker_update = MARK_RUNNING | MARK_FAILED text_str | MARK_SUCCEEDED text_str int

datatype worker_pc =
    WK_Read_Spec | WK_Connect job_spec | WK_Begin job_spec
  | WK_Read worker_update job_spec | WK_Write worker_update job_spec "job_status option" | WK_Event worker_update job_spec
  | WK_Execute job_spec | WK_Release "int option"

datatype reader_pc = RD_Read | RD_Exists "job_status option" | RD_Begin "job_status option" | RD_Rollback "job_status option"

text \<open>\<open>Exited None\<close> is an exception that leaves the process.\<close>

datatype job_proc =
    Submitter submit_pc | Worker worker_pc | Reader reader_pc | Exited "int option" | Answered text_str | Killed

datatype run_outcome = Run_Returns text_str int | Run_Raises text_str

fun mark_fields :: "text_str \<Rightarrow> worker_update \<Rightarrow> job_status" where
  "mark_fields now MARK_RUNNING = [(''state'', SV_Text RUNNING), (''started_at'', SV_Text now)]"
| "mark_fields now (MARK_FAILED err) = [(''state'', SV_Text FAILED), (''ended_at'', SV_Text now), (''error'', SV_Text err)]"
| "mark_fields now (MARK_SUCCEEDED key code) =
     [(''state'', SV_Text SUCCEEDED), (''ended_at'', SV_Text now), (''execution_key'', SV_Text key), (''exit_code'', SV_Int code)]"

fun mark_event :: "worker_update \<Rightarrow> text_str" where
  "mark_event MARK_RUNNING = RUNNING"
| "mark_event (MARK_FAILED err) = FAILED"
| "mark_event (MARK_SUCCEEDED key code) = SUCCEEDED"

text \<open>\<open>spec["client"]\<close> and \<open>spec["model"]\<close>, a \<open>KeyError\<close> when either is missing.\<close>

definition names_call :: "job_spec \<Rightarrow> bool" where
  "names_call spec \<longleftrightarrow> map_of spec ''client'' \<noteq> None \<and> map_of spec ''model'' \<noteq> None"

definition submit_fields :: "job_env \<Rightarrow> text_str \<Rightarrow> job_status" where
  "submit_fields E now = [(''state'', SV_Text SUBMITTED), (''submitted_at'', SV_Text now),
     (''client'', SV_Text (the (map_of (je_spec E) ''client''))), (''model'', SV_Text (the (map_of (je_spec E) ''model'')))]"

section \<open>Steps\<close>

text \<open>\<open>_submit_detached\<close> up to \<open>spawn_worker\<close>.\<close>

fun submit_step :: "job_env \<Rightarrow> text_str \<Rightarrow> submit_pc \<Rightarrow> job_disk \<Rightarrow> (job_disk \<times> job_proc) option" where
  "submit_step E now SB_Spec d = Some (d\<lparr>jd_spec := Some (je_spec E)\<rparr>, Submitter SB_Read)"
| "submit_step E now SB_Read d = Some (d, if names_call (je_spec E) then Submitter (SB_Write (jd_status d)) else Exited None)"
| "submit_step E now (SB_Write old) d =
     Some (d\<lparr>jd_status := Some (merge_status (je_id E) old (submit_fields E now))\<rparr>, Submitter SB_Event)"
| "submit_step E now SB_Event d = Some (d\<lparr>jd_events := jd_events d @ [SUBMITTED]\<rparr>, Submitter SB_Spawn)"
| "submit_step E now SB_Spawn d = None"

text \<open>\<open>cmd_worker\<close> with \<open>hold_job_lock\<close>; the run is the event \<open>Outcome\<close>.\<close>

fun worker_step :: "job_env \<Rightarrow> pid \<Rightarrow> text_str \<Rightarrow> worker_pc \<Rightarrow> job_disk \<Rightarrow> (job_disk \<times> job_proc) option" where
  "worker_step E p now WK_Read_Spec d = (case jd_spec d of
     None \<Rightarrow> Some (d, Exited (Some 1))
   | Some spec \<Rightarrow> Some (d, Worker (WK_Connect spec)))"
| "worker_step E p now (WK_Connect spec) d = Some (d\<lparr>jd_lock_file := True\<rparr>, Worker (WK_Begin spec))"
| "worker_step E p now (WK_Begin spec) d =
     (if jd_lock d = None then Some (d\<lparr>jd_lock := Some p\<rparr>, Worker (WK_Read MARK_RUNNING spec)) else Some (d, Exited (Some 1)))"
| "worker_step E p now (WK_Read u spec) d = Some (d, Worker (WK_Write u spec (jd_status d)))"
| "worker_step E p now (WK_Write u spec old) d =
     Some (d\<lparr>jd_status := Some (merge_status (je_id E) old (mark_fields now u))\<rparr>, Worker (WK_Event u spec))"
| "worker_step E p now (WK_Event u spec) d =
     (if u = MARK_RUNNING \<and> \<not> names_call spec
      then Some (d, Worker (WK_Release None))
      else Some (d\<lparr>jd_events := jd_events d @ [mark_event u]\<rparr>, Worker (case u of
          MARK_RUNNING \<Rightarrow> WK_Execute spec
        | MARK_FAILED _ \<Rightarrow> WK_Release (Some 1)
        | MARK_SUCCEEDED _ _ \<Rightarrow> WK_Release (Some 0))))"
| "worker_step E p now (WK_Execute spec) d = None"
| "worker_step E p now (WK_Release code) d = Some (d\<lparr>jd_lock := None\<rparr>, Exited code)"

text \<open>\<open>_job_state\<close>: the status, then the probe \<open>job_lock_held\<close>, which takes the lock to see whether it can.\<close>

fun reader_step :: "pid \<Rightarrow> reader_pc \<Rightarrow> job_disk \<Rightarrow> (job_disk \<times> job_proc) option" where
  "reader_step p RD_Read d = Some (d, Reader (RD_Exists (jd_status d)))"
| "reader_step p (RD_Exists st) d =
     Some (d, if jd_lock_file d then Reader (RD_Begin st) else Answered (derived_state st False))"
| "reader_step p (RD_Begin st) d =
     (if jd_lock d = None then Some (d\<lparr>jd_lock := Some p\<rparr>, Reader (RD_Rollback st)) else Some (d, Answered (derived_state st True)))"
| "reader_step p (RD_Rollback st) d = Some (d\<lparr>jd_lock := None\<rparr>, Answered (derived_state st False))"

section \<open>The system\<close>

text \<open>\<open>jc_lost\<close> records that a worker that held the lock was killed or left by an exception.\<close>

record job_config =
  jc_disk :: job_disk
  jc_procs :: "pid \<Rightarrow> job_proc option"
  jc_lost :: bool

datatype job_event =
    Step pid text_str | Outcome pid run_outcome | Spawn pid pid | Launch pid | Ask pid | Kill pid | Connect_Fails pid

definition set_proc :: "pid \<Rightarrow> job_disk \<times> job_proc \<Rightarrow> job_config \<Rightarrow> job_config" where
  "set_proc p dx c = c\<lparr>jc_disk := fst dx, jc_procs := (jc_procs c)(p \<mapsto> snd dx)\<rparr>"

fun in_section :: "worker_pc \<Rightarrow> bool" where
  "in_section (WK_Read u spec) = True"
| "in_section (WK_Write u spec st) = True"
| "in_section (WK_Event u spec) = True"
| "in_section (WK_Execute spec) = True"
| "in_section (WK_Release code) = True"
| "in_section _ = False"

fun holding :: "job_proc \<Rightarrow> bool" where
  "holding (Worker w) = in_section w"
| "holding (Reader (RD_Rollback st)) = True"
| "holding _ = False"

definition loses :: "job_proc option \<Rightarrow> bool" where
  "loses x = (case x of Some (Worker w) \<Rightarrow> in_section w | _ \<Rightarrow> False)"

fun job_next :: "job_env \<Rightarrow> job_event \<Rightarrow> job_config \<Rightarrow> job_config option" where
  "job_next E (Step p now) c = (case jc_procs c p of
     Some (Submitter s) \<Rightarrow> map_option (\<lambda>dx. set_proc p dx c) (submit_step E now s (jc_disk c))
   | Some (Worker w) \<Rightarrow> map_option (\<lambda>dx. (set_proc p dx c)\<lparr>jc_lost := jc_lost c \<or> snd dx = Worker (WK_Release None)\<rparr>)
       (worker_step E p now w (jc_disk c))
   | Some (Reader r) \<Rightarrow> map_option (\<lambda>dx. set_proc p dx c) (reader_step p r (jc_disk c))
   | _ \<Rightarrow> None)"
| "job_next E (Outcome p out) c = (case jc_procs c p of
     Some (Worker (WK_Execute spec)) \<Rightarrow> Some (set_proc p (jc_disk c, Worker (WK_Read (case out of
         Run_Returns key code \<Rightarrow> MARK_SUCCEEDED key code | Run_Raises err \<Rightarrow> MARK_FAILED err) spec)) c)
   | _ \<Rightarrow> None)"
| "job_next E (Spawn p q) c =
     (if jc_procs c p = Some (Submitter SB_Spawn) \<and> jc_procs c q = None
      then Some (c\<lparr>jc_procs := (jc_procs c)(p \<mapsto> Exited (Some 0), q \<mapsto> Worker WK_Read_Spec)\<rparr>) else None)"
| "job_next E (Launch q) c =
     (if jc_procs c 0 = Some (Exited (Some 0)) \<and> jc_procs c q = None
      then Some (c\<lparr>jc_procs := (jc_procs c)(q \<mapsto> Worker WK_Read_Spec)\<rparr>) else None)"
| "job_next E (Ask q) c =
     (if jc_procs c q = None then Some (c\<lparr>jc_procs := (jc_procs c)(q \<mapsto> Reader RD_Read)\<rparr>) else None)"
| "job_next E (Kill p) c =
     (if jc_procs c p = None then None
      else Some (c\<lparr>jc_disk := (jc_disk c)\<lparr>jd_lock := (if jd_lock (jc_disk c) = Some p then None else jd_lock (jc_disk c))\<rparr>,
             jc_procs := (jc_procs c)(p \<mapsto> Killed), jc_lost := jc_lost c \<or> loses (jc_procs c p)\<rparr>))"
| "job_next E (Connect_Fails p) c = (case jc_procs c p of
     Some (Reader (RD_Begin st)) \<Rightarrow> Some (set_proc p (jc_disk c, Answered (derived_state st False)) c)
   | _ \<Rightarrow> None)"

text \<open>A new job: nothing on disk, and process 0 about to submit it.\<close>

definition job_start :: job_config where
  "job_start = \<lparr>jc_disk = \<lparr>jd_spec = None, jd_status = None, jd_lock_file = False, jd_lock = None, jd_events = []\<rparr>,
     jc_procs = [0 \<mapsto> Submitter SB_Spec], jc_lost = False\<rparr>"

inductive job_reachable :: "job_env \<Rightarrow> job_config \<Rightarrow> bool" for E where
  job_reachable_start: "job_reachable E job_start"
| job_reachable_next: "job_reachable E c \<Longrightarrow> job_next E e c = Some c' \<Longrightarrow> job_reachable E c'"

fun job_runs :: "job_env \<Rightarrow> job_event list \<Rightarrow> job_config \<Rightarrow> job_config option" where
  "job_runs E [] c = Some c"
| "job_runs E (e # es) c = (case job_next E e c of None \<Rightarrow> None | Some c' \<Rightarrow> job_runs E es c')"

lemma runs_reachable: "job_reachable E c \<Longrightarrow> job_runs E es c = Some c' \<Longrightarrow> job_reachable E c'"
  by (induction es arbitrary: c) (auto split: option.splits intro: job_reachable_next)

section \<open>The invariant\<close>

text \<open>A worker that has stored the outcome; a status that is complete for its state.\<close>

fun settled :: "worker_pc \<Rightarrow> bool" where
  "settled (WK_Event u spec) = (u \<noteq> MARK_RUNNING)"
| "settled (WK_Release code) = (code \<noteq> None)"
| "settled _ = False"

definition has_field :: "job_status option \<Rightarrow> text_str \<Rightarrow> bool" where
  "has_field st k \<longleftrightarrow> (case st of None \<Rightarrow> False | Some d \<Rightarrow> map_of d k \<noteq> None)"

definition status_ok :: "job_status option \<Rightarrow> bool" where
  "status_ok st \<longleftrightarrow> st = None \<or> stored_state st \<in> {SUBMITTED, RUNNING}
     \<or> stored_state st = SUCCEEDED \<and> has_field st ''execution_key'' \<and> has_field st ''exit_code''
     \<or> stored_state st = FAILED \<and> has_field st ''error''"

definition has_lock :: "job_config \<Rightarrow> pid \<Rightarrow> bool" where
  "has_lock c p \<longleftrightarrow> (case jc_procs c p of None \<Rightarrow> False | Some x \<Rightarrow> holding x)"

definition lock_inv :: "job_config \<Rightarrow> bool" where
  "lock_inv c \<longleftrightarrow> (\<forall>p. has_lock c p = (jd_lock (jc_disk c) = Some p))"

text \<open>Each step keeps who owns the lock, or passes it between its own process and nobody.\<close>

definition lock_moves :: "pid \<Rightarrow> bool \<Rightarrow> job_disk \<Rightarrow> job_disk \<times> job_proc \<Rightarrow> bool" where
  "lock_moves p held d dx \<longleftrightarrow> (held = (jd_lock d = Some p) \<longrightarrow>
     (holding (snd dx) = (jd_lock (fst dx) = Some p)) \<and> (\<forall>q. q \<noteq> p \<longrightarrow> (jd_lock (fst dx) = Some q) = (jd_lock d = Some q)))"

lemma submit_moves: "submit_step E now s d = Some dx \<Longrightarrow> lock_moves p (holding (Submitter s)) d dx"
  by (cases s) (auto simp: lock_moves_def split: if_splits)

lemma worker_moves: "worker_step E p now w d = Some dx \<Longrightarrow> lock_moves p (holding (Worker w)) d dx"
  by (cases w) (auto simp: lock_moves_def split: if_splits option.splits worker_update.splits)

lemma reader_moves: "reader_step p r d = Some dx \<Longrightarrow> lock_moves p (holding (Reader r)) d dx"
  by (cases r) (auto simp: lock_moves_def split: if_splits)

lemma has_lock_upd: "jc_procs c' = (jc_procs c)(p \<mapsto> x) \<Longrightarrow> has_lock c' q = (if q = p then holding x else has_lock c q)"
  by (simp add: has_lock_def)

lemma has_lock_set: "has_lock (set_proc p dx c) q = (if q = p then holding (snd dx) else has_lock c q)"
  by (simp add: has_lock_def set_proc_def)

lemma lock_inv_moves:
  assumes "lock_inv c" "jc_procs c p = Some x" "lock_moves p (holding x) (jc_disk c) dx"
  shows "lock_inv (set_proc p dx c)"
proof -
  have "holding x = (jd_lock (jc_disk c) = Some p)" "\<And>q. has_lock c q = (jd_lock (jc_disk c) = Some q)"
    using assms(1,2) by (auto simp: lock_inv_def has_lock_def split: option.splits)
  then show ?thesis
    using assms(3) by (simp add: lock_inv_def has_lock_set lock_moves_def) (simp add: set_proc_def)
qed

lemma lock_inv_same: "lock_inv c \<Longrightarrow> has_lock c' = has_lock c \<Longrightarrow> jc_disk c' = jc_disk c \<Longrightarrow> lock_inv c'"
  by (simp add: lock_inv_def)

lemma lock_inv_lost [simp]: "lock_inv (c\<lparr>jc_lost := b\<rparr>) = lock_inv c"
  by (simp add: lock_inv_def has_lock_def)

lemma lock_inv_start: "lock_inv job_start"
  by (simp add: lock_inv_def has_lock_def job_start_def)

text \<open>A step is the step of one of the three programs.\<close>

lemma job_step_cases:
  assumes "job_next E (Step p now) c = Some c'"
  obtains (submit) s dx where "jc_procs c p = Some (Submitter s)" "submit_step E now s (jc_disk c) = Some dx" "c' = set_proc p dx c"
    | (worker) w dx where "jc_procs c p = Some (Worker w)" "worker_step E p now w (jc_disk c) = Some dx"
        "c' = (set_proc p dx c)\<lparr>jc_lost := jc_lost c \<or> snd dx = Worker (WK_Release None)\<rparr>"
    | (reader) r dx where "jc_procs c p = Some (Reader r)" "reader_step p r (jc_disk c) = Some dx" "c' = set_proc p dx c"
  using assms by (auto split: option.splits job_proc.splits)

lemma job_outcome_cases:
  assumes "job_next E (Outcome p out) c = Some c'"
  obtains spec u where "jc_procs c p = Some (Worker (WK_Execute spec))" "u \<noteq> MARK_RUNNING"
    "c' = set_proc p (jc_disk c, Worker (WK_Read u spec)) c"
  using assms by (auto split: option.splits job_proc.splits worker_pc.splits run_outcome.splits)

lemma job_connect_fails_cases:
  assumes "job_next E (Connect_Fails p) c = Some c'"
  obtains st where "jc_procs c p = Some (Reader (RD_Begin st))" "c' = set_proc p (jc_disk c, Answered (derived_state st False)) c"
  using assms by (auto split: option.splits job_proc.splits reader_pc.splits)

lemma lock_inv_step:
  assumes "lock_inv c" "job_next E e c = Some c'"
  shows "lock_inv c'"
proof (cases e)
  case (Step p now)
  with assms(2) have "job_next E (Step p now) c = Some c'" by simp
  then show ?thesis
    by (cases rule: job_step_cases)
      (simp_all add: lock_inv_moves [OF assms(1) _ submit_moves] lock_inv_moves [OF assms(1) _ worker_moves]
        lock_inv_moves [OF assms(1) _ reader_moves])
next
  case (Outcome p out)
  with assms(2) obtain spec u where "jc_procs c p = Some (Worker (WK_Execute spec))"
    "c' = set_proc p (jc_disk c, Worker (WK_Read u spec)) c" by (auto elim!: job_outcome_cases simp del: job_next.simps)
  then show ?thesis using lock_inv_moves [OF assms(1)] by (simp add: lock_moves_def)
next
  case (Kill p)
  with assms(2) have "jc_procs c' = (jc_procs c)(p \<mapsto> Killed)"
    "jd_lock (jc_disk c') = (if jd_lock (jc_disk c) = Some p then None else jd_lock (jc_disk c))"
    by (auto split: if_splits)
  with assms(1) show ?thesis by (simp add: lock_inv_def has_lock_upd)
next
  case (Connect_Fails p)
  with assms(2) obtain st where "jc_procs c p = Some (Reader (RD_Begin st))"
    "c' = set_proc p (jc_disk c, Answered (derived_state st False)) c" by (auto elim!: job_connect_fails_cases simp del: job_next.simps)
  then show ?thesis using lock_inv_moves [OF assms(1)] by (simp add: lock_moves_def)
next
  case (Spawn p q)
  with assms(2) have "jc_procs c p = Some (Submitter SB_Spawn)" "jc_procs c q = None"
    "jc_procs c' = (jc_procs c)(p \<mapsto> Exited (Some 0), q \<mapsto> Worker WK_Read_Spec)" "jc_disk c' = jc_disk c"
    by (auto split: if_splits)
  then show ?thesis by (intro lock_inv_same [OF assms(1)]) (simp_all add: fun_eq_iff has_lock_def)
next
  case (Launch q)
  with assms(2) have "jc_procs c q = None" "jc_procs c' = (jc_procs c)(q \<mapsto> Worker WK_Read_Spec)" "jc_disk c' = jc_disk c"
    by (auto split: if_splits)
  then show ?thesis by (intro lock_inv_same [OF assms(1)]) (simp_all add: fun_eq_iff has_lock_def)
next
  case (Ask q)
  with assms(2) have "jc_procs c q = None" "jc_procs c' = (jc_procs c)(q \<mapsto> Reader RD_Read)" "jc_disk c' = jc_disk c"
    by (auto split: if_splits)
  then show ?thesis by (intro lock_inv_same [OF assms(1)]) (simp_all add: fun_eq_iff has_lock_def)
qed

text \<open>What a process relies on: the status it read is still the one on disk, an outcome it reports is stored, and
  leaving by an exception is recorded.\<close>

fun pending :: "job_proc \<Rightarrow> job_status option option" where
  "pending (Worker (WK_Write u spec st)) = Some st"
| "pending (Submitter (SB_Write st)) = Some st"
| "pending _ = None"

definition proc_ok :: "job_status option \<Rightarrow> bool \<Rightarrow> job_proc \<Rightarrow> bool" where
  "proc_ok st lost x \<longleftrightarrow> (\<forall>s. pending x = Some s \<longrightarrow> s = st)
     \<and> (\<forall>w. x = Worker w \<longrightarrow> settled w \<longrightarrow> stored_state st \<in> {SUCCEEDED, FAILED})
     \<and> (x = Worker (WK_Release None) \<longrightarrow> lost)"

definition procs_inv :: "job_config \<Rightarrow> bool" where
  "procs_inv c \<longleftrightarrow> (\<forall>p x. jc_procs c p = Some x \<longrightarrow> proc_ok (jd_status (jc_disk c)) (jc_lost c) x)"

definition submit_inv :: "job_config \<Rightarrow> bool" where
  "submit_inv c \<longleftrightarrow> (\<forall>p s. jc_procs c p = Some (Submitter s) \<longrightarrow> p = 0)
     \<and> (\<forall>s p w. jc_procs c 0 = Some (Submitter s) \<longrightarrow> jc_procs c p \<noteq> Some (Worker w))"

definition section_inv :: "job_config \<Rightarrow> bool" where
  "section_inv c \<longleftrightarrow> (stored_state (jd_status (jc_disk c)) = RUNNING \<longrightarrow> \<not> jc_lost c \<longrightarrow>
     (\<exists>p w. jc_procs c p = Some (Worker w) \<and> in_section w))"

lemma settled_in_section: "settled w \<Longrightarrow> in_section w"
  by (cases w) auto

lemma pending_cases:
  assumes "pending x = Some st"
  obtains (worker) u spec where "x = Worker (WK_Write u spec st)" | (submitter) "x = Submitter (SB_Write st)"
  using assms by (cases x rule: pending.cases) auto

lemma stored_merge: "map_of (rev upd) ''state'' = Some (SV_Text s) \<Longrightarrow> stored_state (Some (merge_status i old upd)) = s"
  by (simp add: stored_state_def map_of_merge)

lemma has_field_merge: "map_of (rev upd) k \<noteq> None \<Longrightarrow> has_field (Some (merge_status i old upd)) k"
  by (auto simp: has_field_def map_of_merge)

lemma stored_mark:
  "stored_state (Some (merge_status i old (mark_fields now u)))
     = (case u of MARK_RUNNING \<Rightarrow> RUNNING | MARK_FAILED err \<Rightarrow> FAILED | MARK_SUCCEEDED key code \<Rightarrow> SUCCEEDED)"
  by (cases u) (simp_all add: stored_merge)

lemma stored_submit: "stored_state (Some (merge_status i old (submit_fields E now))) = SUBMITTED"
  by (simp add: stored_merge submit_fields_def)

lemma states_distinct:
  "RUNNING \<noteq> SUCCEEDED" "RUNNING \<noteq> FAILED" "RUNNING \<noteq> SUBMITTED" "SUCCEEDED \<noteq> FAILED" "SUBMITTED \<noteq> SUCCEEDED" "SUBMITTED \<noteq> FAILED"
  by (simp_all add: job_states)

lemmas job_status_simps = stored_mark stored_submit states_distinct states_distinct [symmetric]

subsection \<open>Each program's own step\<close>

lemma status_ok_mark: "status_ok (Some (merge_status i old (mark_fields now u)))"
  by (cases u) (simp_all add: status_ok_def stored_merge has_field_merge)

lemma worker_step_status: "worker_step E p now w d = Some dx \<Longrightarrow> status_ok (jd_status d) \<Longrightarrow> status_ok (jd_status (fst dx))"
  by (cases w) (auto simp: status_ok_mark split: if_splits option.splits)

lemma submit_step_status: "submit_step E now s d = Some dx \<Longrightarrow> status_ok (jd_status d) \<Longrightarrow> status_ok (jd_status (fst dx))"
  by (cases s) (auto simp: status_ok_def stored_submit)

lemma reader_step_status: "reader_step p r d = Some dx \<Longrightarrow> jd_status (fst dx) = jd_status d"
  by (cases r) (auto split: if_splits)

lemma worker_step_writes: "worker_step E p now w d = Some dx \<Longrightarrow> jd_status (fst dx) \<noteq> jd_status d \<Longrightarrow> pending (Worker w) \<noteq> None"
  by (cases w) (auto split: if_splits option.splits)

lemma submit_step_writes: "submit_step E now s d = Some dx \<Longrightarrow> jd_status (fst dx) \<noteq> jd_status d \<Longrightarrow> pending (Submitter s) \<noteq> None"
  by (cases s) auto

lemma worker_step_ok:
  assumes "worker_step E p now w d = Some dx" "proc_ok (jd_status d) lost (Worker w)"
  shows "proc_ok (jd_status (fst dx)) (lost \<or> snd dx = Worker (WK_Release None)) (snd dx)"
  using assms by (cases w) (auto simp: proc_ok_def job_status_simps split: if_splits option.splits worker_update.splits)

lemma submit_step_ok: "submit_step E now s d = Some dx \<Longrightarrow> proc_ok (jd_status (fst dx)) lost (snd dx)"
  by (cases s) (auto simp: proc_ok_def split: if_splits)

lemma reader_step_ok: "reader_step p r d = Some dx \<Longrightarrow> proc_ok st lost (snd dx)"
  by (cases r) (auto simp: proc_ok_def split: if_splits)

lemma worker_step_running:
  assumes "worker_step E p now w d = Some dx" "proc_ok (jd_status d) lost (Worker w)" "\<not> lost" "snd dx \<noteq> Worker (WK_Release None)"
    and "stored_state (jd_status (fst dx)) = RUNNING" "in_section w"
  shows "\<exists>w'. snd dx = Worker w' \<and> in_section w'"
  using assms by (cases w) (auto simp: proc_ok_def job_status_simps split: if_splits option.splits worker_update.splits)

lemma submit_step_running:
  "submit_step E now s d = Some dx \<Longrightarrow> stored_state (jd_status (fst dx)) = RUNNING \<Longrightarrow> jd_status (fst dx) = jd_status d"
  by (cases s) (auto simp: job_status_simps)

lemma pending_in_section: "pending (Worker w) \<noteq> None \<Longrightarrow> in_section w"
  by (cases w) auto

lemma submit_step_kind: "submit_step E now s d = Some dx \<Longrightarrow> (\<exists>s'. snd dx = Submitter s') \<or> (\<exists>n. snd dx = Exited n)"
  by (cases s; cases "names_call (je_spec E)") auto

lemma worker_step_kind: "worker_step E p now w d = Some dx \<Longrightarrow> (\<exists>w'. snd dx = Worker w') \<or> (\<exists>n. snd dx = Exited n)"
  by (cases w) (auto split: if_splits option.splits)

lemma reader_step_kind: "reader_step p r d = Some dx \<Longrightarrow> (\<exists>r'. snd dx = Reader r') \<or> (\<exists>a. snd dx = Answered a)"
  by (cases r) (auto split: if_splits)

subsection \<open>Every process of the system\<close>

lemma pending_alone:
  assumes "lock_inv c" "submit_inv c" "jc_procs c p = Some x" "pending x \<noteq> None" "jc_procs c q = Some y" "q \<noteq> p"
  shows "pending y = None" "y = Worker w \<Longrightarrow> \<not> in_section w"
proof -
  have locked: "jd_lock (jc_disk c) = Some r" if "jc_procs c r = Some (Worker v)" "in_section v" for r v
    using assms(1) that by (simp add: lock_inv_def has_lock_def split: option.splits) (metis holding.simps(1) option.case(2))
  from assms(4) obtain st where st: "pending x = Some st" by auto
  show no_section: "\<not> in_section w" if "y = Worker w" for w
    using st
  proof (cases rule: pending_cases)
    case (worker u spec)
    then show ?thesis using assms(3,5,6) locked [of p] locked [of q w] that by auto
  next
    case submitter
    then show ?thesis using assms(2,3,5) that by (auto simp: submit_inv_def)
  qed
  show "pending y = None"
  proof (rule ccontr)
    assume "pending y \<noteq> None"
    then obtain st' where "pending y = Some st'" by auto
    then show False
    proof (cases rule: pending_cases)
      case (worker u spec)
      then show ?thesis using no_section by simp
    next
      case submitter
      then have y: "q = 0" "jc_procs c 0 = Some (Submitter (SB_Write st'))" using assms(2,5) by (auto simp: submit_inv_def)
      from st show ?thesis
        by (cases rule: pending_cases) (use y assms(2,3,6) in \<open>auto simp: submit_inv_def\<close>)
    qed
  qed
qed

lemma procs_inv_upd:
  assumes inv: "procs_inv c" "lock_inv c" "submit_inv c"
    and upd: "jc_procs c' = (jc_procs c)(p \<mapsto> y)" "jc_lost c \<longrightarrow> jc_lost c'" "proc_ok (jd_status (jc_disk c')) (jc_lost c') y"
    and writer: "jd_status (jc_disk c') \<noteq> jd_status (jc_disk c) \<Longrightarrow> \<exists>x. jc_procs c p = Some x \<and> pending x \<noteq> None"
  shows "procs_inv c'"
  unfolding procs_inv_def
proof (intro allI impI)
  fix q z
  assume q: "jc_procs c' q = Some z"
  show "proc_ok (jd_status (jc_disk c')) (jc_lost c') z"
  proof (cases "q = p")
    case True
    then show ?thesis using q upd(1,3) by simp
  next
    case False
    then have old: "jc_procs c q = Some z" using q upd(1) by simp
    then have ok: "proc_ok (jd_status (jc_disk c)) (jc_lost c) z" using inv(1) by (simp add: procs_inv_def)
    show ?thesis
    proof (cases "jd_status (jc_disk c') = jd_status (jc_disk c)")
      case True
      then show ?thesis using ok upd(2) by (auto simp: proc_ok_def)
    next
      case change: False
      then obtain x where "jc_procs c p = Some x" "pending x \<noteq> None" using writer by auto
      then have "pending z = None" "\<And>w. z = Worker w \<Longrightarrow> \<not> settled w"
        using pending_alone [OF inv(2,3) _ _ old] False settled_in_section by blast+
      then show ?thesis using ok upd(2) by (auto simp: proc_ok_def)
    qed
  qed
qed

lemma submit_inv_upd:
  assumes "submit_inv c" "jc_procs c' = (jc_procs c)(p \<mapsto> y)"
    and "\<And>s. y = Submitter s \<Longrightarrow> \<exists>s'. jc_procs c p = Some (Submitter s')"
    and "\<And>w s. y = Worker w \<Longrightarrow> jc_procs c 0 = Some (Submitter s) \<Longrightarrow> \<exists>w'. jc_procs c p = Some (Worker w')"
  shows "submit_inv c'"
proof -
  have "r = 0" if "jc_procs c' r = Some (Submitter s)" for r s
    using that assms(1,2,3) by (cases "r = p") (auto simp: submit_inv_def)
  moreover have False if sub: "jc_procs c' 0 = Some (Submitter s)" and work: "jc_procs c' r = Some (Worker w)" for r s w
  proof -
    obtain s' where s': "jc_procs c 0 = Some (Submitter s')"
      using sub assms(2) assms(3) [of s] by (cases "p = 0") auto
    then obtain w' where "jc_procs c r = Some (Worker w')"
      using work s' assms(2) assms(4) [of w s'] by (cases "r = p") auto
    then show False using assms(1) s' by (simp add: submit_inv_def)
  qed
  ultimately show ?thesis unfolding submit_inv_def by blast
qed

lemma section_inv_upd:
  assumes "section_inv c" "jc_procs c' = (jc_procs c)(p \<mapsto> y)" "jc_lost c \<longrightarrow> jc_lost c'"
    and "stored_state (jd_status (jc_disk c')) = RUNNING \<Longrightarrow> \<not> jc_lost c'
      \<Longrightarrow> jd_status (jc_disk c') \<noteq> jd_status (jc_disk c) \<or> (\<exists>w. jc_procs c p = Some (Worker w) \<and> in_section w)
      \<Longrightarrow> \<exists>w. y = Worker w \<and> in_section w"
  shows "section_inv c'"
  using assms unfolding section_inv_def by (metis fun_upd_apply)

subsection \<open>All of it, at every event\<close>

definition job_inv :: "job_config \<Rightarrow> bool" where
  "job_inv c \<longleftrightarrow> lock_inv c \<and> submit_inv c \<and> procs_inv c \<and> section_inv c \<and> status_ok (jd_status (jc_disk c))"

lemma job_invE:
  assumes "job_inv c"
  obtains "lock_inv c" "submit_inv c" "procs_inv c" "section_inv c" "status_ok (jd_status (jc_disk c))"
  using assms by (simp add: job_inv_def)

text \<open>An event that leaves the status alone and replaces one process by one that relies on nothing.\<close>

lemma job_inv_quiet:
  assumes inv: "job_inv c" and lock: "lock_inv c'"
    and upd: "jc_procs c' = (jc_procs c)(p \<mapsto> y)" "jc_lost c \<longrightarrow> jc_lost c'" "jd_status (jc_disk c') = jd_status (jc_disk c)"
    and y: "pending y = None" "\<And>w. y = Worker w \<Longrightarrow> \<not> settled w" "\<And>s. y \<noteq> Submitter s" "y \<noteq> Worker (WK_Release None)"
      "\<And>w s. y = Worker w \<Longrightarrow> jc_procs c 0 = Some (Submitter s) \<Longrightarrow> \<exists>w'. jc_procs c p = Some (Worker w')"
    and leaves: "\<And>w. jc_procs c p = Some (Worker w) \<Longrightarrow> in_section w \<Longrightarrow> \<not> jc_lost c' \<Longrightarrow> \<exists>w. y = Worker w \<and> in_section w"
  shows "job_inv c'"
  unfolding job_inv_def
proof (intro conjI)
  from inv have old: "lock_inv c" "submit_inv c" "procs_inv c" "section_inv c" "status_ok (jd_status (jc_disk c))"
    by (auto elim: job_invE)
  show "lock_inv c'" by fact
  show "status_ok (jd_status (jc_disk c'))" using old(5) upd(3) by simp
  show "submit_inv c'" using submit_inv_upd [OF old(2) upd(1)] y(3,5) by blast
  show "procs_inv c'"
    by (rule procs_inv_upd [OF old(3,1,2) upd(1,2)]) (use y upd(3) in \<open>auto simp: proc_ok_def\<close>)
  show "section_inv c'"
    by (rule section_inv_upd [OF old(4) upd(1,2)]) (use leaves upd(3) in auto)
qed

lemma job_inv_step:
  assumes inv: "job_inv c" and step: "job_next E e c = Some c'"
  shows "job_inv c'"
proof -
  from inv have old: "lock_inv c" "submit_inv c" "procs_inv c" "section_inv c" "status_ok (jd_status (jc_disk c))"
    by (auto elim: job_invE)
  have lock: "lock_inv c'" by (rule lock_inv_step [OF old(1) step])
  show ?thesis
  proof (cases e)
    case (Step p now)
    with step have "job_next E (Step p now) c = Some c'" by simp
    then show ?thesis
    proof (cases rule: job_step_cases)
      case (submit s dx)
      have upd: "jc_procs c' = (jc_procs c)(p \<mapsto> snd dx)" "jc_lost c \<longrightarrow> jc_lost c'" "jc_disk c' = fst dx"
        using submit(3) by (simp_all add: set_proc_def)
      have kind: "(\<exists>s'. snd dx = Submitter s') \<or> (\<exists>n. snd dx = Exited n)" by (rule submit_step_kind [OF submit(2)])
      have "submit_inv c'" using submit_inv_upd [OF old(2) upd(1)] submit(1) kind by auto
      moreover have "procs_inv c'"
        by (rule procs_inv_upd [OF old(3,1,2) upd(1,2)]) (use submit upd(3) submit_step_ok submit_step_writes in auto)
      moreover have "section_inv c'"
        by (rule section_inv_upd [OF old(4) upd(1,2)]) (use submit upd(3) submit_step_running [OF submit(2)] in auto)
      ultimately show ?thesis using lock submit_step_status [OF submit(2) old(5)] upd(3) by (simp add: job_inv_def)
    next
      case (worker w dx)
      have upd: "jc_procs c' = (jc_procs c)(p \<mapsto> snd dx)" "jc_disk c' = fst dx"
        "jc_lost c' = (jc_lost c \<or> snd dx = Worker (WK_Release None))"
        using worker(3) by (simp_all add: set_proc_def)
      have mono: "jc_lost c \<longrightarrow> jc_lost c'" using upd(3) by simp
      have kind: "(\<exists>w'. snd dx = Worker w') \<or> (\<exists>n. snd dx = Exited n)" by (rule worker_step_kind [OF worker(2)])
      have ok: "proc_ok (jd_status (jc_disk c)) (jc_lost c) (Worker w)" using old(3) worker(1) by (simp add: procs_inv_def)
      have "submit_inv c'" using submit_inv_upd [OF old(2) upd(1)] worker(1) kind by auto
      moreover have "procs_inv c'"
        by (rule procs_inv_upd [OF old(3,1,2) upd(1) mono])
          (use worker(1) upd(2,3) worker_step_ok [OF worker(2) ok] worker_step_writes [OF worker(2)] in auto)
      moreover have "section_inv c'"
      proof (rule section_inv_upd [OF old(4) upd(1) mono])
        assume run: "stored_state (jd_status (jc_disk c')) = RUNNING" "\<not> jc_lost c'"
          and who: "jd_status (jc_disk c') \<noteq> jd_status (jc_disk c) \<or> (\<exists>w. jc_procs c p = Some (Worker w) \<and> in_section w)"
        have "in_section w" using who worker(1) upd(2) worker_step_writes [OF worker(2)] pending_in_section by auto
        then show "\<exists>w. snd dx = Worker w \<and> in_section w"
          using worker_step_running [OF worker(2) ok] run upd(2,3) by simp
      qed
      ultimately show ?thesis using lock worker_step_status [OF worker(2) old(5)] upd(2) by (simp add: job_inv_def)
    next
      case (reader r dx)
      then show ?thesis using reader_step_kind [OF reader(2)] reader_step_status [OF reader(2)]
        by (intro job_inv_quiet [OF inv lock, of p "snd dx"]) (auto simp: set_proc_def)
    qed
  next
    case (Outcome p out)
    with step obtain spec u where "jc_procs c p = Some (Worker (WK_Execute spec))"
      "c' = set_proc p (jc_disk c, Worker (WK_Read u spec)) c" by (auto elim!: job_outcome_cases simp del: job_next.simps)
    then show ?thesis by (intro job_inv_quiet [OF inv lock, of p "Worker (WK_Read u spec)"]) (auto simp: set_proc_def)
  next
    case (Kill p)
    with step have "c' = c\<lparr>jc_disk := (jc_disk c)\<lparr>jd_lock := (if jd_lock (jc_disk c) = Some p then None else jd_lock (jc_disk c))\<rparr>,
             jc_procs := (jc_procs c)(p \<mapsto> Killed), jc_lost := jc_lost c \<or> loses (jc_procs c p)\<rparr>"
      by (auto split: if_splits)
    then show ?thesis by (intro job_inv_quiet [OF inv lock, of p Killed]) (auto simp: loses_def)
  next
    case (Connect_Fails p)
    with step obtain st where "jc_procs c p = Some (Reader (RD_Begin st))"
      "c' = set_proc p (jc_disk c, Answered (derived_state st False)) c" by (auto elim!: job_connect_fails_cases simp del: job_next.simps)
    then show ?thesis by (intro job_inv_quiet [OF inv lock, of p "Answered (derived_state st False)"]) (auto simp: set_proc_def)
  next
    case (Spawn p q)
    with step have spawn: "jc_procs c p = Some (Submitter SB_Spawn)" "jc_procs c q = None"
      "c' = c\<lparr>jc_procs := (jc_procs c)(p \<mapsto> Exited (Some 0), q \<mapsto> Worker WK_Read_Spec)\<rparr>" by (auto split: if_splits)
    let ?c = "c\<lparr>jc_procs := (jc_procs c)(p \<mapsto> Exited (Some 0))\<rparr>"
    have "lock_inv ?c" by (rule lock_inv_same [OF old(1)]) (use spawn(1) in \<open>simp_all add: fun_eq_iff has_lock_def\<close>)
    then have mid: "job_inv ?c" by (rule job_inv_quiet [OF inv, of _ p "Exited (Some 0)"]) (use spawn(1) in auto)
    have "p = 0" using old(2) spawn(1) by (auto simp: submit_inv_def)
    then show ?thesis
      by (intro job_inv_quiet [OF mid lock, of q "Worker WK_Read_Spec"]) (use spawn in \<open>auto split: if_splits\<close>)
  next
    case (Launch q)
    with step have "jc_procs c 0 = Some (Exited (Some 0))" "jc_procs c q = None"
      "c' = c\<lparr>jc_procs := (jc_procs c)(q \<mapsto> Worker WK_Read_Spec)\<rparr>" by (auto split: if_splits)
    then show ?thesis by (intro job_inv_quiet [OF inv lock, of q "Worker WK_Read_Spec"]) auto
  next
    case (Ask q)
    with step have "jc_procs c q = None" "c' = c\<lparr>jc_procs := (jc_procs c)(q \<mapsto> Reader RD_Read)\<rparr>" by (auto split: if_splits)
    then show ?thesis by (intro job_inv_quiet [OF inv lock, of q "Reader RD_Read"]) auto
  qed
qed

lemma job_inv_start: "job_inv job_start"
  by (simp add: job_inv_def lock_inv_start)
    (simp add: job_start_def submit_inv_def procs_inv_def proc_ok_def section_inv_def stored_state_def status_ok_def job_states)

lemma job_inv_reachable: "job_reachable E c \<Longrightarrow> job_inv c"
  by (induction rule: job_reachable.induct) (rule job_inv_start, rule job_inv_step)

section \<open>What the invariant says of a job\<close>

lemma section_has_lock: "lock_inv c \<Longrightarrow> jc_procs c p = Some (Worker w) \<Longrightarrow> in_section w \<Longrightarrow> jd_lock (jc_disk c) = Some p"
  by (simp add: lock_inv_def has_lock_def split: option.splits) (metis holding.simps(1) option.case(2))

text \<open>
  C29: In every reachable state of a job, however the processes interleave and wherever they are killed: two workers
  are never both inside the job, the stored status is complete for its state (a success has the key and the exit
  code, a failure the error), a stored running state means that a live worker holds the lock unless a worker was
  lost, and so a look at status and lock in one state reports an interruption only when a worker was lost.
\<close>
theorem job_status_sound:
  assumes "job_reachable E c"
  shows "(\<forall>p q v w. jc_procs c p = Some (Worker v) \<and> in_section v \<and> jc_procs c q = Some (Worker w) \<and> in_section w \<longrightarrow> p = q)
    \<and> status_ok (jd_status (jc_disk c))
    \<and> (stored_state (jd_status (jc_disk c)) = RUNNING \<and> \<not> jc_lost c \<longrightarrow>
         (\<exists>p w. jd_lock (jc_disk c) = Some p \<and> jc_procs c p = Some (Worker w) \<and> in_section w))
    \<and> (derived_state (jd_status (jc_disk c)) (jd_lock (jc_disk c) \<noteq> None) = INTERRUPTED \<longrightarrow> jc_lost c)"
proof -
  from job_inv_reachable [OF assms] have inv: "lock_inv c" "section_inv c" "status_ok (jd_status (jc_disk c))"
    by (auto elim: job_invE)
  have "p = q" if "jc_procs c p = Some (Worker v)" "in_section v" "jc_procs c q = Some (Worker w)" "in_section w" for p q v w
    using section_has_lock [OF inv(1) that(1,2)] section_has_lock [OF inv(1) that(3,4)] by simp
  moreover have run: "\<exists>p w. jd_lock (jc_disk c) = Some p \<and> jc_procs c p = Some (Worker w) \<and> in_section w"
    if "stored_state (jd_status (jc_disk c)) = RUNNING" "\<not> jc_lost c"
    using inv(2) that section_has_lock [OF inv(1)] unfolding section_inv_def by blast
  moreover have "jc_lost c" if "derived_state (jd_status (jc_disk c)) (jd_lock (jc_disk c) \<noteq> None) = INTERRUPTED"
    using that inv(3) run by (fastforce simp: derived_state_def status_ok_def stored_state_def job_states split: if_splits)
  ultimately show ?thesis using inv(3) by blast
qed

text \<open>A job whose worker is inside the run while a second worker has been started on it.\<close>

theorem job_status_sound_witness:
  "\<exists>c p w. job_reachable \<lparr>je_id = ''a1'', je_spec = [(''client'', ''claude''), (''model'', ''m'')]\<rparr> c
     \<and> stored_state (jd_status (jc_disk c)) = RUNNING \<and> jd_lock (jc_disk c) = Some p \<and> jc_procs c p = Some (Worker w) \<and> in_section w"
proof -
  let ?E = "\<lparr>je_id = ''a1'', je_spec = [(''client'', ''claude''), (''model'', ''m'')]\<rparr>"
  have "\<exists>c. job_runs ?E (replicate 4 (Step 0 ''t'') @ Spawn 0 1 # replicate 6 (Step 1 ''t'') @ [Launch 2, Step 2 ''t'']) job_start = Some c
      \<and> stored_state (jd_status (jc_disk c)) = RUNNING \<and> \<not> jc_lost c"
    by (simp add: job_start_def set_proc_def numeral_eq_Suc names_call_def) (simp add: stored_state_def merge_status_def submit_fields_def)
  then obtain c where c: "job_runs ?E (replicate 4 (Step 0 ''t'') @ Spawn 0 1 # replicate 6 (Step 1 ''t'') @ [Launch 2, Step 2 ''t'']) job_start = Some c"
      "stored_state (jd_status (jc_disk c)) = RUNNING" "\<not> jc_lost c"
    by blast
  have "job_reachable ?E c" by (rule runs_reachable [OF job_reachable_start c(1)])
  with job_status_sound [OF this] c(2,3) show ?thesis by blast
qed

end
