(* ===== verification/Job_Commands.thy ===== *)
theory Job_Commands
  imports Detached_Jobs Cli_Output
begin

text \<open>
  The commands over a detached job (\<open>controllers/execution.py\<close>): its result, its files, and watching it.
  A command is applied to what it read: the status, the lock probe, and what the cache gave. The
  messages it prints on the error stream are left out.
\<close>

section \<open>Status and state\<close>

definition job_exists :: "text_str \<Rightarrow> job_disk \<Rightarrow> bool" where
  "job_exists i d \<longleftrightarrow> (case safe_job_id i of Inl e \<Rightarrow> False | Inr s \<Rightarrow> jd_status d \<noteq> None \<or> jd_spec d \<noteq> None)"

definition field_of :: "job_status option \<Rightarrow> text_str \<Rightarrow> status_value option" where
  "field_of st k = (case st of None \<Rightarrow> None | Some d \<Rightarrow> map_of d k)"

definition key_of :: "job_status option \<Rightarrow> text_str option" where
  "key_of st = (case field_of st ''execution_key'' of Some (SV_Text k) \<Rightarrow> if k = [] then None else Some k | _ \<Rightarrow> None)"

text \<open>The cache as the commands see it: the lookup with its wiring, and the blobs.\<close>

record job_cache =
  jk_find :: "text_str \<Rightarrow> exn + ml_execution option"
  jk_blob :: "text_str \<Rightarrow> exn + bytes"

record cli_reply =
  cl_code :: int
  cl_out :: text_str
  cl_err :: text_str

definition reply_code :: "int \<Rightarrow> exn + cli_reply" where
  "reply_code n = Inr \<lparr>cl_code = n, cl_out = [], cl_err = []\<rparr>"

text \<open>\<open>except (EncryptionTokenRequired, WrongEncryptionToken)\<close>: exit 4.\<close>

definition token_guard :: "exn + cli_reply \<Rightarrow> exn + cli_reply" where
  "token_guard r = (case r of
     Inl e \<Rightarrow> if exn_class_of e \<in> {EncryptionTokenRequired, WrongEncryptionToken} then reply_code 4 else Inl e
   | Inr x \<Rightarrow> Inr x)"

section \<open>The commands\<close>

definition relay_stored :: "job_cache \<Rightarrow> job_status option \<Rightarrow> ml_execution \<Rightarrow> exn + cli_reply" where
  "relay_stored K st e =
     (case stored_artifact_text (jk_blob K) e STDOUT of Inl x \<Rightarrow> Inl x | Inr out \<Rightarrow>
      case stored_artifact_text (jk_blob K) e STDERR of Inl x \<Rightarrow> Inl x | Inr err \<Rightarrow>
      Inr \<lparr>cl_code = (case field_of st ''exit_code'' of Some (SV_Int n) \<Rightarrow> n | _ \<Rightarrow> 0), cl_out = out, cl_err = err\<rparr>)"

definition execution_result :: "job_cache \<Rightarrow> bool \<Rightarrow> job_status option \<Rightarrow> text_str \<Rightarrow> exn + cli_reply" where
  "execution_result K known st state =
     (if \<not> known then reply_code 4
      else if state \<in> {SUBMITTED, RUNNING} then reply_code 75
      else if state = INTERRUPTED then reply_code 1
      else if state \<noteq> SUCCEEDED then reply_code 1
      else case key_of st of None \<Rightarrow> reply_code 4 | Some key \<Rightarrow>
        token_guard (case jk_find K key of
          Inl e \<Rightarrow> Inl e | Inr None \<Rightarrow> reply_code 4 | Inr (Some e) \<Rightarrow> relay_stored K st e))"

definition execution_materialize ::
  "job_cache \<Rightarrow> bool \<Rightarrow> job_status option \<Rightarrow> text_str \<Rightarrow> text_str \<Rightarrow> (out_fs, cli_reply) prog" where
  "execution_materialize K known st state out_dir = (\<lambda>fs.
     if \<not> known then (reply_code 4, fs)
     else if state \<noteq> SUCCEEDED then (reply_code 4, fs)
     else case key_of st of None \<Rightarrow> (reply_code 4, fs) | Some key \<Rightarrow>
       (case jk_find K key of
          Inl e \<Rightarrow> (token_guard (Inl e), fs)
        | Inr None \<Rightarrow> (reply_code 4, fs)
        | Inr (Some e) \<Rightarrow> (case materialize_output_files (jk_blob K) e out_dir fs of
            (Inl x, fs') \<Rightarrow> (token_guard (Inl x), fs')
          | (Inr n, fs') \<Rightarrow> (Inr \<lparr>cl_code = 0, cl_out = ''wrote '' @ dec_str n @ '' file(s) to '' @ out_dir @ [CHR 0x0A],
                cl_err = []\<rparr>, fs'))))"

text \<open>\<open>watch\<close> over the states it observes, one per round; \<open>None\<close> when it is still waiting after them.\<close>

definition watch_round :: "text_str \<Rightarrow> int option" where
  "watch_round state = (if state \<in> {SUCCEEDED, FAILED} then Some 0 else if state = INTERRUPTED then Some 1 else None)"

fun watch_states :: "text_str list \<Rightarrow> int option" where
  "watch_states [] = None"
| "watch_states (s # ss) = (case watch_round s of Some n \<Rightarrow> Some n | None \<Rightarrow> watch_states ss)"

section \<open>A job from submission to result\<close>

text \<open>The events of an undisturbed job: submit, spawn, run with the given outcome.\<close>

definition whole_job :: "text_str \<Rightarrow> run_outcome \<Rightarrow> job_event list" where
  "whole_job now out = replicate 4 (Step 0 now) @ Spawn 0 1 # replicate 6 (Step 1 now) @ Outcome 1 out # replicate 4 (Step 1 now)"

lemma whole_job_runs:
  assumes "names_call (je_spec E)"
  shows "\<exists>c. job_runs E (whole_job now out) job_start = Some c \<and> jc_procs c 1 = Some (Exited (Some (case out of Run_Returns k n \<Rightarrow> 0 | Run_Raises m \<Rightarrow> 1)))
     \<and> jd_lock (jc_disk c) = None \<and> jd_spec (jc_disk c) = Some (je_spec E)
     \<and> jd_events (jc_disk c) = [SUBMITTED, RUNNING, case out of Run_Returns k n \<Rightarrow> SUCCEEDED | Run_Raises m \<Rightarrow> FAILED]
     \<and> (\<exists>old. jd_status (jc_disk c) = Some (merge_status (je_id E) old
          (mark_fields now (case out of Run_Returns k n \<Rightarrow> MARK_SUCCEEDED k n | Run_Raises m \<Rightarrow> MARK_FAILED m))))"
  using assms by (cases out) (auto simp: whole_job_def job_start_def set_proc_def numeral_eq_Suc)

lemma key_of_mark: "key_of (Some (merge_status i old (mark_fields now (MARK_SUCCEEDED key n)))) = (if key = [] then None else Some key)"
  by (simp add: key_of_def field_of_def map_of_merge)

lemma code_of_mark: "field_of (Some (merge_status i old (mark_fields now (MARK_SUCCEEDED key n)))) ''exit_code'' = Some (SV_Int n)"
  by (simp add: field_of_def map_of_merge)

definition result_of :: "job_cache \<Rightarrow> text_str \<Rightarrow> job_disk \<Rightarrow> exn + cli_reply" where
  "result_of K i d = execution_result K (job_exists i d) (jd_status d) (derived_state (jd_status d) (jd_lock d \<noteq> None))"

lemma not_interrupted: "SUCCEEDED \<noteq> INTERRUPTED" "FAILED \<noteq> INTERRUPTED"
  by (simp_all add: job_states)

lemma result_of_mark:
  assumes "safe_job_id i = Inr s" "jd_status d = Some (merge_status i' old (mark_fields now u))"
  shows "u = MARK_SUCCEEDED key n \<Longrightarrow> key \<noteq> [] \<Longrightarrow> result_of K i d = token_guard (case jk_find K key of
           Inl e \<Rightarrow> Inl e | Inr None \<Rightarrow> reply_code 4 | Inr (Some e) \<Rightarrow> relay_stored K (jd_status d) e)"
    and "u = MARK_FAILED m \<Longrightarrow> result_of K i d = reply_code 1"
  using assms
  by (simp_all add: result_of_def job_exists_def derived_state_def stored_mark states_distinct states_distinct [symmetric]
      not_interrupted execution_result_def key_of_mark del: mark_fields.simps cong: sum.case_cong option.case_cong)

text \<open>
  C30: A detached run reports what an attached one prints. For every job id the store accepts, the undisturbed job
  ends with its events in order and its lock free. When the run returned \<open>e\<close>, \<open>execution result\<close> then gives the
  texts of \<open>e\<close> and its exit code if the cache still has them, and exit 4 if it has nothing under the key, whatever
  the exit code of the run was; when the run raised, exit 1.
\<close>
theorem detached_run_result:
  assumes "names_call (je_spec E)" "safe_job_id (je_id E) = Inr s" "key \<noteq> []"
  shows "(\<exists>c. job_runs E (whole_job now (Run_Returns key (run_exit_code e))) job_start = Some c
      \<and> jd_events (jc_disk c) = [SUBMITTED, RUNNING, SUCCEEDED] \<and> jd_lock (jc_disk c) = None
      \<and> (\<forall>K. jk_find K key = Inr None \<longrightarrow> result_of K (je_id E) (jc_disk c) = reply_code 4)
      \<and> (\<forall>K stored. jk_find K key = Inr (Some stored)
              \<and> (\<forall>ty. stored_artifact_text (jk_blob K) stored ty = Inr (artifact_text e ty))
              \<longrightarrow> result_of K (je_id E) (jc_disk c)
                  = Inr \<lparr>cl_code = run_exit_code e, cl_out = artifact_text e STDOUT, cl_err = artifact_text e STDERR\<rparr>))
    \<and> (\<exists>c. job_runs E (whole_job now (Run_Raises m)) job_start = Some c
      \<and> jd_events (jc_disk c) = [SUBMITTED, RUNNING, FAILED] \<and> jd_lock (jc_disk c) = None
      \<and> (\<forall>K. result_of K (je_id E) (jc_disk c) = reply_code 1))"
proof -
  obtain c old where c: "job_runs E (whole_job now (Run_Returns key (run_exit_code e))) job_start = Some c"
    "jd_events (jc_disk c) = [SUBMITTED, RUNNING, SUCCEEDED]" "jd_lock (jc_disk c) = None"
    and st: "jd_status (jc_disk c) = Some (merge_status (je_id E) old (mark_fields now (MARK_SUCCEEDED key (run_exit_code e))))"
    using whole_job_runs [OF assms(1), of now "Run_Returns key (run_exit_code e)"] by auto
  have found: "result_of K (je_id E) (jc_disk c) = token_guard (case jk_find K key of
      Inl x \<Rightarrow> Inl x | Inr None \<Rightarrow> reply_code 4 | Inr (Some x) \<Rightarrow> relay_stored K (jd_status (jc_disk c)) x)" for K
    by (rule result_of_mark(1) [OF assms(2) st refl assms(3)])
  obtain d where d: "job_runs E (whole_job now (Run_Raises m)) job_start = Some d"
    "jd_events (jc_disk d) = [SUBMITTED, RUNNING, FAILED]" "jd_lock (jc_disk d) = None"
    "\<exists>old. jd_status (jc_disk d) = Some (merge_status (je_id E) old (mark_fields now (MARK_FAILED m)))"
    using whole_job_runs [OF assms(1), of now "Run_Raises m"] by auto
  moreover have "result_of K (je_id E) (jc_disk d) = reply_code 1" for K
    using d(4) result_of_mark(2) [OF assms(2) _ refl] by blast
  ultimately show ?thesis
    using c by (intro conjI exI [of _ c] exI [of _ d])
      (simp_all add: found st relay_stored_def code_of_mark token_guard_def reply_code_def del: mark_fields.simps)
qed

text \<open>A sample job.\<close>

definition sample_job :: job_env where
  "sample_job = \<lparr>je_id = ''a1'', je_spec = [(''client'', ''claude''), (''model'', ''m'')]\<rparr>"

definition sample_answer :: ml_execution where
  "sample_answer = \<lparr>ex_call_identity = PassthroughCallIdentity \<lparr>pi_client = ''claude'', pi_native_args_fingerprint = ''f''\<rparr>,
     ex_execution_state = SUCCESS, ex_execution_kind = LOCAL_PASSTHROUGH, ex_output_persisted = True, ex_execution_id = ''e'',
     ex_input_persisted = True, ex_artifacts = [artifact_from_content STDOUT ''b'' ''hi'' None STORED], ex_token_usage = None,
     ex_failure = None, ex_superseded_at = None\<rparr>"

lemma sample_job_ok: "names_call (je_spec sample_job)" "safe_job_id (je_id sample_job) = Inr ''a1''"
  by (simp_all add: sample_job_def names_call_def safe_job_id_def is_job_char_def)

lemma detached_run_result_witness:
  "\<exists>c. job_runs sample_job (whole_job ''t'' (Run_Returns ''k'' 0)) job_start = Some c
     \<and> result_of \<lparr>jk_find = \<lambda>_. Inr (Some sample_answer), jk_blob = \<lambda>_. Inr []\<rparr> ''a1'' (jc_disk c)
         = Inr \<lparr>cl_code = 0, cl_out = ''hi'', cl_err = []\<rparr>"
proof -
  have id: "je_id sample_job = ''a1''" by (simp add: sample_job_def)
  have texts: "stored_artifact_text b sample_answer ty = Inr (artifact_text sample_answer ty)" for b ty
    by (simp add: stored_artifact_text_def artifact_text_def find_artifact_def sample_answer_def content_or_blob_def artifact_from_content_def)
  have vals: "run_exit_code sample_answer = 0" "artifact_text sample_answer STDOUT = ''hi''" "artifact_text sample_answer STDERR = []"
    by (simp_all add: run_exit_code_def artifact_text_def find_artifact_def sample_answer_def artifact_from_content_def
        decode_replace_id is_utf8_ascii)
  let ?K = "\<lparr>jk_find = \<lambda>_. Inr (Some sample_answer), jk_blob = \<lambda>_. Inr []\<rparr>"
  have premise: "jk_find ?K ''k'' = Inr (Some sample_answer)
      \<and> (\<forall>ty. stored_artifact_text (jk_blob ?K) sample_answer ty = Inr (artifact_text sample_answer ty))"
    by (simp add: texts)
  obtain c where c: "job_runs sample_job (whole_job ''t'' (Run_Returns ''k'' (run_exit_code sample_answer))) job_start = Some c"
    and result: "result_of ?K (je_id sample_job) (jc_disk c)
      = Inr \<lparr>cl_code = run_exit_code sample_answer, cl_out = artifact_text sample_answer STDOUT, cl_err = artifact_text sample_answer STDERR\<rparr>"
    using detached_run_result [OF sample_job_ok, of "''k''" "''t''" sample_answer "[]"] premise by blast
  then show ?thesis by (auto simp: vals id)
qed

section \<open>What the probe does to a job\<close>

text \<open>
  \<open>_job_state\<close> reads the status and then the lock, which the worker may release in between: a job that has succeeded
  is then reported as interrupted.
\<close>

lemma probe_misreads:
  assumes "names_call (je_spec E)"
  shows "\<exists>c. job_reachable E c \<and> \<not> jc_lost c \<and> stored_state (jd_status (jc_disk c)) = SUCCEEDED
    \<and> jc_procs c 1 = Some (Exited (Some 0)) \<and> jc_procs c 2 = Some (Answered INTERRUPTED)"
proof -
  define es where "es = replicate 4 (Step 0 []) @ Spawn 0 1 # replicate 6 (Step 1 []) @ Ask 2 # Step 2 []
    # Outcome 1 (Run_Returns ''k'' 0) # replicate 4 (Step 1 []) @ replicate 3 (Step 2 [])"
  obtain c where c: "job_runs E es job_start = Some c" "\<not> jc_lost c" "jc_procs c 1 = Some (Exited (Some 0))"
    "stored_state (jd_status (jc_disk c)) = SUCCEEDED" "jc_procs c 2 = Some (Answered INTERRUPTED)"
    using assms by (simp add: es_def job_start_def set_proc_def numeral_eq_Suc stored_merge derived_state_def)
  then show ?thesis using runs_reachable [OF job_reachable_start] by blast
qed

text \<open>With no process at work and nobody starting one, a submitted job stays submitted.\<close>

definition abandoned :: "job_config \<Rightarrow> bool" where
  "abandoned c \<longleftrightarrow> stored_state (jd_status (jc_disk c)) = SUBMITTED
     \<and> (\<forall>p s. jc_procs c p \<noteq> Some (Submitter s)) \<and> (\<forall>p w. jc_procs c p \<noteq> Some (Worker w))"

fun launches :: "job_event \<Rightarrow> bool" where
  "launches (Launch q) = True"
| "launches _ = False"

lemma abandoned_step:
  assumes "abandoned c" "job_next E e c = Some c'" "\<not> launches e"
  shows "abandoned c'"
proof (cases e)
  case (Step p now)
  with assms(2) have "job_next E (Step p now) c = Some c'" by simp
  then show ?thesis
  proof (cases rule: job_step_cases)
    case (reader r dx)
    then show ?thesis
      using assms(1) reader_step_kind [OF reader(2)] reader_step_status [OF reader(2)] by (auto simp: abandoned_def set_proc_def)
  qed (use assms(1) in \<open>auto simp: abandoned_def\<close>)
next
  case (Connect_Fails p)
  with assms(2) obtain st where "c' = set_proc p (jc_disk c, Answered (derived_state st False)) c"
    by (auto elim!: job_connect_fails_cases simp del: job_next.simps)
  then show ?thesis using assms(1) by (auto simp: abandoned_def set_proc_def)
next
  case (Outcome p out)
  then show ?thesis
    using assms by (auto simp: abandoned_def elim!: job_outcome_cases simp del: job_next.simps)
qed (use assms in \<open>auto simp: abandoned_def split: if_splits\<close>)

lemma abandoned_runs: "abandoned c \<Longrightarrow> job_runs E es c = Some c' \<Longrightarrow> list_all (\<lambda>e. \<not> launches e) es \<Longrightarrow> abandoned c'"
  by (induction es arbitrary: c) (auto split: option.splits dest: abandoned_step)

lemma watch_waits: "list_all (\<lambda>s. s \<in> {SUBMITTED, RUNNING}) ss \<Longrightarrow> watch_states ss = None"
  by (induction ss) (auto simp: watch_round_def job_states)

text \<open>
  C31: Asking for the state of a job can kill it. In a run with no crash and no lost worker, a probe that holds the lock at
  the moment the worker asks for it makes the worker exit with code 1, and the job stays submitted whatever
  happens after that short of starting another worker: every later look reports \<open>submitted\<close>, \<open>execution result\<close> says
  to try again later, and \<open>execution watch\<close> waits for any number of rounds.
\<close>
theorem probe_strands_job:
  assumes "names_call (je_spec E)"
  shows "\<exists>c. job_reachable E c \<and> \<not> jc_lost c \<and> jc_procs c 1 = Some (Exited (Some 1)) \<and> jc_procs c 2 = Some (Answered SUBMITTED)
    \<and> (\<forall>es c'. list_all (\<lambda>e. \<not> launches e) es \<and> job_runs E es c = Some c' \<longrightarrow>
         (\<forall>held. derived_state (jd_status (jc_disk c')) held = SUBMITTED)
         \<and> (\<forall>K held. execution_result K True (jd_status (jc_disk c')) (derived_state (jd_status (jc_disk c')) held) = reply_code 75)
         \<and> (\<forall>n. watch_states (replicate n (derived_state (jd_status (jc_disk c')) False)) = None))"
proof -
  define es where "es = replicate 4 (Step 0 []) @ Spawn 0 1 # replicate 2 (Step 1 []) @ Ask 2 # replicate 3 (Step 2 [])
    @ Step 1 [] # [Step 2 []]"
  obtain c where c: "job_runs E es job_start = Some c" "\<not> jc_lost c" "jc_procs c 1 = Some (Exited (Some 1))"
    "jc_procs c 2 = Some (Answered SUBMITTED)" "abandoned c"
    using assms by (simp add: es_def job_start_def set_proc_def numeral_eq_Suc derived_state_def abandoned_def job_status_simps)
  have later: "derived_state (jd_status (jc_disk c')) held = SUBMITTED"
    if "list_all (\<lambda>e. \<not> launches e) es'" "job_runs E es' c = Some c'" for es' c' held
    using abandoned_runs [OF c(5) that(2,1)] by (simp add: abandoned_def derived_state_def states_distinct(3) [symmetric])
  have again: "execution_result K True st SUBMITTED = reply_code 75" for K st by (simp add: execution_result_def)
  have waits: "watch_states (replicate n SUBMITTED) = None" for n by (rule watch_waits) (simp add: list_all_iff)
  show ?thesis
    using c(2,3,4) runs_reachable [OF job_reachable_start c(1)] by (intro exI [of _ c]) (auto simp: later again waits)
qed

lemma probe_strands_job_witness:
  "\<exists>c. job_reachable sample_job c \<and> jc_procs c 1 = Some (Exited (Some 1)) \<and> derived_state (jd_status (jc_disk c)) False = SUBMITTED"
proof -
  obtain c where "job_reachable sample_job c" "jc_procs c 1 = Some (Exited (Some 1))"
    "\<And>es c'. list_all (\<lambda>e. \<not> launches e) es \<and> job_runs sample_job es c = Some c' \<Longrightarrow> derived_state (jd_status (jc_disk c')) False = SUBMITTED"
    using probe_strands_job [OF sample_job_ok(1)] by blast
  then show ?thesis by (metis job_runs.simps(1) list.pred_inject(1))
qed

end
