(* ===== verification/Run_Spec.thy ===== *)
theory Run_Spec
  imports Config_Values Client_Output Json_Ascii Job_Commands Adapter_Catalog
begin

text \<open>
  The run and alias commands (\<open>controllers/run.py\<close>, \<open>composition.py\<close>): a run resolved into a spec, the command read
  back from a spec (the same for the attached run and for the detached worker), and the exit codes.
\<close>

section \<open>Arguments and surroundings\<close>

record run_args =
  ra_client :: text_str
  ra_model :: text_str
  ra_effort :: text_str
  ra_context :: "text_str option"
  ra_context_file :: "text_str option"
  ra_prompt :: "text_str option"
  ra_prompt_file :: "text_str option"
  ra_system_prompt :: "text_str option"
  ra_system_prompt_file :: "text_str option"
  ra_input_file :: "text_str list"
  ra_allow_path :: "text_str list"
  ra_client_arg :: "text_str list"
  ra_grant :: "text_str list"
  ra_tag :: "text_str list"
  ra_mode :: "text_str option"
  ra_persist :: "text_str option"
  ra_timeout :: "py_float option"
  ra_offline :: bool
  ra_force :: bool
  ra_record_on_error :: bool
  ra_executable :: "text_str option"
  ra_session :: "text_str option"
  ra_token :: "text_str option"

text \<open>\<open>rs_config\<close> carries the environment; a path is resolved by the file system at hand.\<close>

record run_surroundings =
  rs_config :: config_env
  rs_read :: "text_str \<Rightarrow> exn + text_str"
  rs_resolve :: "text_str \<Rightarrow> text_str"
  rs_is_dir :: "text_str \<Rightarrow> bool"

text \<open>A command stops with an exception or with \<open>SystemExit\<close>.\<close>

datatype cli_stop = Raised exn | System_Exit text_str

definition raised :: "exn + 'a \<Rightarrow> cli_stop + 'a" where
  "raised r = (case r of Inl e \<Rightarrow> Inl (Raised e) | Inr a \<Rightarrow> Inr a)"

lemma raised_Inr [simp]: "raised r = Inr a \<longleftrightarrow> r = Inr a"
  by (auto simp: raised_def split: sum.splits)

definition flag_or_env :: "run_surroundings \<Rightarrow> text_str \<Rightarrow> text_str option \<Rightarrow> text_str option" where
  "flag_or_env R name flag = (case truthy flag of Some s \<Rightarrow> Some s | None \<Rightarrow> truthy (ce_vars (rs_config R) name))"

definition resolve_token :: "run_surroundings \<Rightarrow> text_str option \<Rightarrow> text_str option" where
  "resolve_token R flag = flag_or_env R ''GMLCACHE_TOKEN'' flag"

definition resolve_session :: "run_surroundings \<Rightarrow> text_str option \<Rightarrow> text_str option" where
  "resolve_session R flag = flag_or_env R ''GMLCACHE_SESSION'' flag"

definition read_text_arg :: "run_surroundings \<Rightarrow> text_str option \<Rightarrow> text_str option \<Rightarrow> text_str \<Rightarrow> cli_stop + text_str" where
  "read_text_arg R inline path name = (case (inline, path) of
     (Some _, Some _) \<Rightarrow> Inl (System_Exit (''error: pass only one of --'' @ name @ '' / --'' @ name @ ''-file''))
   | (_, Some p) \<Rightarrow> raised (rs_read R p)
   | (Some s, None) \<Rightarrow> Inr s
   | (None, None) \<Rightarrow> Inr [])"

definition resolve_input_file_paths :: "run_surroundings \<Rightarrow> text_str list \<Rightarrow> text_str list" where
  "resolve_input_file_paths R raw_paths = map (rs_resolve R) raw_paths"

fun resolve_allow_paths :: "run_surroundings \<Rightarrow> text_str list \<Rightarrow> cli_stop + text_str list" where
  "resolve_allow_paths R [] = Inr []"
| "resolve_allow_paths R (p # ps) =
     (if \<not> rs_is_dir R p then Inl (System_Exit (''error: allow-path is not a directory: '' @ p))
      else andthen (resolve_allow_paths R ps) (\<lambda>rest. Inr (rs_resolve R p # rest)))"

section \<open>From arguments to a spec\<close>

text \<open>\<open>CacheMode(text)\<close> and \<open>PersistenceDepth(text)\<close>.\<close>

definition parse_cache_mode :: "text_str \<Rightarrow> exn + cache_mode" where
  "parse_cache_mode s = enum_of mode_value [MODE_CACHE, MODE_OFFLINE, MODE_REFRESH] s"

definition parse_depth :: "text_str \<Rightarrow> exn + persistence_depth" where
  "parse_depth s = enum_of depth_value [DEPTH_METER, DEPTH_CACHE, DEPTH_DATASET] s"

definition resolve_cache_mode :: "bool \<Rightarrow> bool \<Rightarrow> settings \<Rightarrow> exn + cache_mode" where
  "resolve_cache_mode offline force st =
     (if offline then Inr MODE_OFFLINE else if force then Inr MODE_REFRESH
      else parse_cache_mode (setting_text (fst (st_mode st))))"

definition setting_truthy :: "setting_value \<Rightarrow> bool" where
  "setting_truthy v = (case v of VNone \<Rightarrow> False | VStr s \<Rightarrow> s \<noteq> [] | VBool b \<Rightarrow> b | VInt i \<Rightarrow> i \<noteq> 0
     | VFloat x \<Rightarrow> (case x of Finite s m e \<Rightarrow> m \<noteq> 0 | _ \<Rightarrow> True))"

definition json_opt_text :: "text_str option \<Rightarrow> json_value" where
  "json_opt_text s = (case s of None \<Rightarrow> JV_Null | Some t \<Rightarrow> JV_Text t)"

definition json_list :: "text_str list \<Rightarrow> json_value" where
  "json_list ss = JV_List (map JV_Text ss)"

type_synonym run_spec = "(text_str \<times> json_value) list"

definition run_flags :: "run_args \<Rightarrow> setting_flags" where
  "run_flags a = \<lparr>sf_mode = ra_mode a, sf_persist = ra_persist a, sf_timeout = ra_timeout a, sf_log_level = None, sf_log_file = None\<rparr>"

definition resolve_managed_run :: "run_surroundings \<Rightarrow> run_args \<Rightarrow> cli_stop + run_spec \<times> text_str \<times> text_str option" where
  "resolve_managed_run R a =
     andthen (read_text_arg R (ra_context a) (ra_context_file a) ''context'') (\<lambda>context.
     andthen (read_text_arg R (ra_prompt a) (ra_prompt_file a) ''prompt'') (\<lambda>prompt.
     if prompt = [] then Inl (System_Exit ''error: a non-empty --prompt or --prompt-file is required'')
     else andthen (read_text_arg R (ra_system_prompt a) (ra_system_prompt_file a) ''system-prompt'') (\<lambda>system_prompt.
     andthen (raised (load_config (rs_config R) None)) (\<lambda>cfg.
     andthen (raised (resolve_settings (rs_config R) cfg (run_flags a))) (\<lambda>st.
     andthen (raised (resolve_cache_mode (ra_offline a) (ra_force a) st)) (\<lambda>mode.
     andthen (resolve_allow_paths R (ra_allow_path a)) (\<lambda>allow_paths.
     andthen (raised (resolved_timeout st)) (\<lambda>timeout.
     andthen (raised (resolved_max_size st)) (\<lambda>max_size.
       Inr ([(''client'', JV_Text (ra_client a)), (''model'', JV_Text (ra_model a)), (''effort'', JV_Text (ra_effort a)),
             (''context'', JV_Text context), (''prompt'', JV_Text prompt),
             (''system_prompt'', json_opt_text (truthy (Some system_prompt))),
             (''input_file_paths'', json_list (resolve_input_file_paths R (ra_input_file a))),
             (''allow_paths'', json_list allow_paths),
             (''trust_scan'', JV_Bool (setting_truthy (fst (st_trust_scan st)))),
             (''client_args'', json_list (ra_client_arg a)), (''grants'', json_list (ra_grant a)),
             (''cache_mode'', JV_Text (mode_value mode)),
             (''persistence_depth'', JV_Text (setting_text (fst (st_persist st)))),
             (''record_on_error'', JV_Bool (ra_record_on_error a)), (''tags'', json_list (ra_tag a)),
             (''session_id'', json_opt_text (resolve_session R (ra_session a))),
             (''executable'', json_opt_text (executable_for cfg (ra_client a) (ra_executable a))),
             (''timeout'', case timeout of None \<Rightarrow> JV_Null | Some x \<Rightarrow> JV_Float x),
             (''max_size'', case max_size of None \<Rightarrow> JV_Null | Some i \<Rightarrow> JV_Int i),
             (''adapters'', case fc_adapters cfg of None \<Rightarrow> JV_Null | Some A \<Rightarrow> json_list (sorted_set A))],
            setting_text (fst (st_store st)), resolve_token R (ra_token a)))))))))))"

section \<open>From a spec to a command\<close>

text \<open>A field that is absent reads as \<open>None\<close>; the message leaves out the value at fault.\<close>

definition spec_get :: "run_spec \<Rightarrow> text_str \<Rightarrow> json_value" where
  "spec_get spec k = (case map_of spec k of None \<Rightarrow> JV_Null | Some v \<Rightarrow> v)"

definition spec_error :: "text_str \<Rightarrow> text_str \<Rightarrow> exn" where
  "spec_error k what = Exn ValueError (''run spec field '' @ quoted k @ '' must '' @ what)"

definition spec_string :: "run_spec \<Rightarrow> text_str \<Rightarrow> exn + text_str" where
  "spec_string spec k = (case spec_get spec k of JV_Text s \<Rightarrow> Inr s | _ \<Rightarrow> Inl (spec_error k ''be a string''))"

definition spec_optional_string :: "run_spec \<Rightarrow> text_str \<Rightarrow> exn + text_str option" where
  "spec_optional_string spec k = (case spec_get spec k of
     JV_Null \<Rightarrow> Inr None | JV_Text s \<Rightarrow> Inr (Some s) | _ \<Rightarrow> Inl (spec_error k ''be a string''))"

fun strings_of :: "text_str \<Rightarrow> json_value list \<Rightarrow> exn + text_str list" where
  "strings_of k [] = Inr []"
| "strings_of k (JV_Text s # vs) = bindE (strings_of k vs) (\<lambda>ss. Inr (s # ss))"
| "strings_of k (v # vs) = Inl (spec_error k ''hold strings'')"

definition spec_strings :: "run_spec \<Rightarrow> text_str \<Rightarrow> exn + text_str list" where
  "spec_strings spec k = (case spec_get spec k of JV_List vs \<Rightarrow> strings_of k vs | _ \<Rightarrow> Inl (spec_error k ''be a list''))"

definition spec_timeout :: "run_spec \<Rightarrow> exn + py_float option" where
  "spec_timeout spec = (case spec_get spec ''timeout'' of
     JV_Null \<Rightarrow> Inr None
   | JV_Int i \<Rightarrow> bindE (float_of_int i) (\<lambda>x. Inr (Some x))
   | JV_Float x \<Rightarrow> Inr (Some x)
   | _ \<Rightarrow> Inl (spec_error ''timeout'' ''be a number''))"

definition spec_max_size :: "run_spec \<Rightarrow> exn + int option" where
  "spec_max_size spec = (case spec_get spec ''max_size'' of
     JV_Null \<Rightarrow> Inr None | JV_Int i \<Rightarrow> Inr (Some i) | _ \<Rightarrow> Inl (spec_error ''max_size'' ''be an integer''))"

definition spec_whitelist :: "run_spec \<Rightarrow> exn + text_str list option" where
  "spec_whitelist spec = (if spec_get spec ''adapters'' = JV_Null then Inr None
     else bindE (spec_strings spec ''adapters'') (\<lambda>ns. Inr (Some ns)))"

definition spec_executable_override :: "run_spec \<Rightarrow> exn + (text_str \<Rightarrow> text_str option)" where
  "spec_executable_override spec = bindE (spec_optional_string spec ''executable'') (\<lambda>x. Inr (\<lambda>client. x))"

text \<open>\<open>str(Path(p))\<close> on POSIX: empty and dot components go, two leading slashes stay.\<close>

definition path_text :: "text_str \<Rightarrow> text_str" where
  "path_text p =
     (let parts = filter (\<lambda>x. x \<noteq> [] \<and> x \<noteq> ''.'') (split_at (CHR ''/'') p);
          root = (if starts_with ''//'' p \<and> \<not> starts_with ''///'' p then ''//'' else if starts_with ''/'' p then ''/'' else [])
      in if root = [] \<and> parts = [] then ''.'' else root @ join_str ''/'' parts)"

text \<open>The rest of the command once its client and kind are known, field by field.\<close>

definition command_fields :: "run_spec \<Rightarrow> text_str \<Rightarrow> execution_kind \<Rightarrow> exn + run_command" where
  "command_fields spec client kind =
     bindE (spec_string spec ''model'') (\<lambda>model.
     bindE (spec_string spec ''effort'') (\<lambda>effort.
     bindE (spec_string spec ''context'') (\<lambda>context.
     bindE (spec_string spec ''prompt'') (\<lambda>prompt.
     bindE (spec_optional_string spec ''system_prompt'') (\<lambda>system_prompt.
     bindE (spec_strings spec ''input_file_paths'') (\<lambda>input_file_paths.
     bindE (spec_strings spec ''allow_paths'') (\<lambda>allow_paths.
     bindE (spec_strings spec ''client_args'') (\<lambda>client_args.
     bindE (spec_strings spec ''grants'') (\<lambda>grants.
     bindE (bindE (spec_string spec ''cache_mode'') parse_cache_mode) (\<lambda>cache_mode.
     bindE (bindE (spec_string spec ''persistence_depth'') parse_depth) (\<lambda>depth.
     bindE (spec_strings spec ''tags'') (\<lambda>tags.
     bindE (spec_optional_string spec ''session_id'') (\<lambda>session_id.
       Inr \<lparr>ki_client = client, ki_model = model, ki_effort = effort, ki_context = context, ki_prompt = prompt,
            ki_user_system_prompt = system_prompt, ki_input_file_paths = map path_text input_file_paths,
            ki_allow_paths = map path_text allow_paths, ki_client_args = client_args, ki_grants = grants,
            rc_execution_kind = kind, rc_scan_trust = json_truthy (spec_get spec ''trust_scan''), rc_native_args = [],
            rc_raw_body = [], rc_forward_headers = [], rc_cache_mode = cache_mode, rc_persistence_depth = depth,
            rc_record_on_error = json_truthy (spec_get spec ''record_on_error''), rc_tags = tags,
            rc_session_id = session_id\<rparr>)))))))))))))"

definition command_from_spec :: "entry_point list \<Rightarrow> run_spec \<Rightarrow> (universe, run_command) prog" where
  "command_from_spec installed spec =
     bindP (liftE (spec_string spec ''client'')) (\<lambda>client.
     bindP (liftE (spec_whitelist spec)) (\<lambda>whitelist.
     bindP (execution_kind_for installed client whitelist) (\<lambda>kind. liftE (command_fields spec client kind))))"

text \<open>What a detached job keeps, and what its worker reads back.\<close>

definition spec_file :: "run_spec \<Rightarrow> text_str option" where
  "spec_file spec = json_indented (JV_Dict spec) 0"

definition read_spec :: "text_str \<Rightarrow> exn + run_spec" where
  "read_spec t = (case json_loads t of
     Inl e \<Rightarrow> Inl (Exn ValueError ''spec.json is not JSON'')
   | Inr (JV_Dict spec) \<Rightarrow> Inr spec
   | Inr _ \<Rightarrow> Inl (Exn ValueError ''spec.json does not hold a JSON object''))"

section \<open>The commands\<close>

definition is_cache_error :: "exn \<Rightarrow> bool" where
  "is_cache_error e \<longleftrightarrow> exn_class_of e \<in> set [CacheMiss, UnknownClient, CapabilityUnavailable, ConfigError, ClientNotFound,
     CommandLineTooLong, RunTimedOut, InputFileError, ArtifactBlobMissing, WrongEncryptionToken, EncryptionTokenRequired,
     EncryptionStateError, StoreLocked, UnsupportedExecutionMode, MigrationFailed, PersistenceContractOutdated, StoreSchemaTooNew,
     ProviderApiError, ProviderProtocolError, StoreUnavailable, StoreCorrupt, StoreConsistencyError]"

definition failure_code :: "exn \<Rightarrow> int option" where
  "failure_code e =
     (if exn_class_of e = RunInterrupted then Some 130
      else if exn_class_of e = RunTimedOut then Some 124
      else if exn_class_of e = CacheMiss then Some 3
      else if exn_class_of e \<in> {EncryptionTokenRequired, WrongEncryptionToken} then Some 4
      else if exn_class_of e = UnknownClient then Some 4
      else if is_cache_error e then Some 4 else None)"

definition run_cached_execution :: "exn + 'a \<Rightarrow> exn + (int + 'a)" where
  "run_cached_execution r = (case r of
     Inr a \<Rightarrow> Inr (Inr a)
   | Inl e \<Rightarrow> (case failure_code e of Some n \<Rightarrow> Inr (Inl n) | None \<Rightarrow> Inl e))"

definition relay_execution :: "ml_execution \<Rightarrow> cli_reply" where
  "relay_execution e = \<lparr>cl_code = run_exit_code e, cl_out = artifact_text e STDOUT, cl_err = artifact_text e STDERR\<rparr>"

text \<open>
  What a run is wired with. The application built for it, the run service of the library over the store, is
  an argument of the commands; the error messages they print and \<open>--json\<close> are left out.
\<close>

record run_wiring =
  rw_store :: text_str
  rw_executable :: "text_str option"
  rw_timeout :: "py_float option"
  rw_token :: "text_str option"
  rw_client :: text_str
  rw_max_size :: "int option"
  rw_whitelist :: "text_str list option"

record run_world =
  rd_universe :: universe
  rd_fs :: out_fs
  rd_spawned :: "(text_str \<times> run_spec \<times> text_str option) list"

type_synonym application = "run_wiring \<Rightarrow> run_command \<Rightarrow> exn + ml_execution"

definition wired_run :: "application \<Rightarrow> text_str \<Rightarrow> text_str option \<Rightarrow> run_spec \<Rightarrow> run_command \<Rightarrow> exn + ml_execution" where
  "wired_run app store token spec c =
     bindE (spec_executable_override spec) (\<lambda>executable.
     bindE (spec_timeout spec) (\<lambda>timeout.
     bindE (spec_max_size spec) (\<lambda>max_size.
     bindE (spec_whitelist spec) (\<lambda>whitelist.
       app \<lparr>rw_store = store, rw_executable = executable (ki_client c), rw_timeout = timeout, rw_token = token,
            rw_client = ki_client c, rw_max_size = max_size, rw_whitelist = whitelist\<rparr> c))))"

definition finish_run :: "text_str \<Rightarrow> exn + ml_execution \<Rightarrow> (out_fs, cli_reply) prog" where
  "finish_run cwd r =
     bindP (liftE (run_cached_execution r)) (\<lambda>x. case x of
       Inl n \<Rightarrow> liftE (reply_code n)
     | Inr e \<Rightarrow> bindP (apply_output_files e cwd) (\<lambda>_. ret (relay_execution e)))"

definition attached_run ::
  "entry_point list \<Rightarrow> application \<Rightarrow> text_str \<Rightarrow> text_str \<Rightarrow> text_str option \<Rightarrow> run_spec \<Rightarrow> (run_world, cli_reply) prog" where
  "attached_run installed app cwd store token spec =
     bindP (catchP
       (bindP (zoomP rd_universe (\<lambda>u w. w\<lparr>rd_universe := u\<rparr>) (command_from_spec installed spec)) (\<lambda>c. ret (Some c)))
       (\<lambda>e. if exn_class_of e = UnknownClient then ret None else raise e))
     (\<lambda>found. case found of
         None \<Rightarrow> liftE (reply_code 4)
       | Some c \<Rightarrow> zoomP rd_fs (\<lambda>f w. w\<lparr>rd_fs := f\<rparr>) (finish_run cwd (wired_run app store token spec c)))"

text \<open>\<open>--detach\<close>: the token goes to the worker of an encrypted store only, and is then required.\<close>

definition submit_detached :: "bool \<Rightarrow> text_str \<Rightarrow> run_spec \<Rightarrow> text_str option \<Rightarrow> (run_world, cli_reply) prog" where
  "submit_detached encrypted job_id spec token =
     (if encrypted \<and> token = None then liftE (reply_code 4)
      else bindP (modifyP (\<lambda>w. w\<lparr>rd_spawned := rd_spawned w @ [(job_id, spec, if encrypted then token else None)]\<rparr>))
        (\<lambda>_. ret \<lparr>cl_code = 0, cl_out = job_id @ [CHR 0x0A], cl_err = []\<rparr>))"

definition stop_of :: "(exn + 'a) \<times> 'w \<Rightarrow> (cli_stop + 'a) \<times> 'w" where
  "stop_of rw = (raised (fst rw), snd rw)"

definition cmd_run ::
  "run_surroundings \<Rightarrow> entry_point list \<Rightarrow> application \<Rightarrow> text_str \<Rightarrow> (text_str \<Rightarrow> bool) \<Rightarrow> text_str \<Rightarrow> bool \<Rightarrow> run_args \<Rightarrow>
   run_world \<Rightarrow> (cli_stop + cli_reply) \<times> run_world" where
  "cmd_run R installed app cwd encrypted job_id detach a w =
     (case resolve_managed_run R a of
        Inl (Raised e) \<Rightarrow> if exn_class_of e = ConfigError then stop_of (reply_code 4, w) else (Inl (Raised e), w)
      | Inl (System_Exit m) \<Rightarrow> (Inl (System_Exit m), w)
      | Inr (spec, store, token) \<Rightarrow>
          if detach then stop_of (submit_detached (encrypted store) job_id spec token w)
          else stop_of (attached_run installed app cwd store token spec w))"

text \<open>\<open>alias\<close>: the tail after the client, without a leading \<open>--\<close>, forwarded as it is.\<close>

definition native_tail :: "text_str list \<Rightarrow> text_str list" where
  "native_tail args = (case args of a # rest \<Rightarrow> if a = ''--'' then rest else args | [] \<Rightarrow> [])"

definition alias_command :: "run_surroundings \<Rightarrow> run_args \<Rightarrow> text_str list \<Rightarrow> settings \<Rightarrow> exn + run_command" where
  "alias_command R a tail st =
     bindE (resolve_cache_mode (ra_offline a) (ra_force a) st) (\<lambda>mode.
     bindE (parse_depth (setting_text (fst (st_persist st)))) (\<lambda>depth.
       Inr \<lparr>ki_client = ra_client a, ki_model = [], ki_effort = [], ki_context = [], ki_prompt = [],
            ki_user_system_prompt = None, ki_input_file_paths = [], ki_allow_paths = [], ki_client_args = [], ki_grants = [],
            rc_execution_kind = LOCAL_PASSTHROUGH, rc_scan_trust = False, rc_native_args = native_tail tail,
            rc_raw_body = [], rc_forward_headers = [], rc_cache_mode = mode, rc_persistence_depth = depth,
            rc_record_on_error = ra_record_on_error a, rc_tags = [], rc_session_id = resolve_session R (ra_session a)\<rparr>))"

definition alias_wiring :: "run_surroundings \<Rightarrow> run_args \<Rightarrow> file_config \<Rightarrow> settings \<Rightarrow> exn + run_wiring" where
  "alias_wiring R a cfg st =
     bindE (resolved_timeout st) (\<lambda>timeout. bindE (resolved_max_size st) (\<lambda>max_size.
       Inr \<lparr>rw_store = setting_text (fst (st_store st)), rw_executable = executable_for cfg (ra_client a) (ra_executable a),
            rw_timeout = timeout, rw_token = resolve_token R (ra_token a), rw_client = ra_client a, rw_max_size = max_size,
            rw_whitelist = map_option sorted_set (fc_adapters cfg)\<rparr>))"

definition cmd_alias :: "run_surroundings \<Rightarrow> application \<Rightarrow> run_args \<Rightarrow> text_str list \<Rightarrow> exn + cli_reply" where
  "cmd_alias R app a tail =
     (case bindE (load_config (rs_config R) None) (\<lambda>cfg. bindE (resolve_settings (rs_config R) cfg (run_flags a)) (\<lambda>st. Inr (cfg, st))) of
        Inl e \<Rightarrow> if exn_class_of e = ConfigError then reply_code 4 else Inl e
      | Inr (cfg, st) \<Rightarrow>
          bindE (alias_command R a tail st) (\<lambda>c.
          bindE (run_cached_execution (bindE (alias_wiring R a cfg st) (\<lambda>wiring. app wiring c))) (\<lambda>x. case x of
            Inl n \<Rightarrow> reply_code n
          | Inr e \<Rightarrow> Inr (relay_execution e))))"

section \<open>What a resolved run means\<close>

lemma strings_of_texts: "strings_of k (map JV_Text ss) = Inr ss"
  by (induction ss) auto

lemma parse_values [simp]: "parse_cache_mode (mode_value m) = Inr m" "parse_depth (depth_value d) = Inr d"
  by (cases m; simp add: parse_cache_mode_def) (cases d; simp add: parse_depth_def)

lemma json_list_strings: "spec_get spec k = json_list ss \<Longrightarrow> spec_strings spec k = Inr ss"
  by (simp add: spec_strings_def json_list_def strings_of_texts)

lemma json_opt_string: "spec_get spec k = json_opt_text s \<Longrightarrow> spec_optional_string spec k = Inr s"
  by (cases s) (simp_all add: spec_optional_string_def json_opt_text_def)

text \<open>The parts of a resolved run, and the fields of its spec.\<close>

definition resolved_from ::
  "run_surroundings \<Rightarrow> run_args \<Rightarrow> file_config \<Rightarrow> settings \<Rightarrow> cache_mode \<Rightarrow> text_str \<Rightarrow> text_str \<Rightarrow> text_str \<Rightarrow>
   text_str list \<Rightarrow> py_float option \<Rightarrow> int option \<Rightarrow> bool" where
  "resolved_from R a cfg st mode ctx prompt system_prompt allow_paths timeout max_size \<longleftrightarrow>
     read_text_arg R (ra_context a) (ra_context_file a) ''context'' = Inr ctx
     \<and> read_text_arg R (ra_prompt a) (ra_prompt_file a) ''prompt'' = Inr prompt \<and> prompt \<noteq> []
     \<and> read_text_arg R (ra_system_prompt a) (ra_system_prompt_file a) ''system-prompt'' = Inr system_prompt
     \<and> load_config (rs_config R) None = Inr cfg \<and> resolve_settings (rs_config R) cfg (run_flags a) = Inr st
     \<and> resolve_cache_mode (ra_offline a) (ra_force a) st = Inr mode
     \<and> resolve_allow_paths R (ra_allow_path a) = Inr allow_paths
     \<and> resolved_timeout st = Inr timeout \<and> resolved_max_size st = Inr max_size"

lemma resolve_managed_runE:
  assumes "resolve_managed_run R a = Inr (spec, store, token)"
  obtains ctx prompt system_prompt cfg st mode allow_paths timeout max_size where
    "resolved_from R a cfg st mode ctx prompt system_prompt allow_paths timeout max_size"
    "spec = [(''client'', JV_Text (ra_client a)), (''model'', JV_Text (ra_model a)), (''effort'', JV_Text (ra_effort a)),
       (''context'', JV_Text ctx), (''prompt'', JV_Text prompt),
       (''system_prompt'', json_opt_text (truthy (Some system_prompt))),
       (''input_file_paths'', json_list (resolve_input_file_paths R (ra_input_file a))),
       (''allow_paths'', json_list allow_paths),
       (''trust_scan'', JV_Bool (setting_truthy (fst (st_trust_scan st)))),
       (''client_args'', json_list (ra_client_arg a)), (''grants'', json_list (ra_grant a)),
       (''cache_mode'', JV_Text (mode_value mode)),
       (''persistence_depth'', JV_Text (setting_text (fst (st_persist st)))),
       (''record_on_error'', JV_Bool (ra_record_on_error a)), (''tags'', json_list (ra_tag a)),
       (''session_id'', json_opt_text (resolve_session R (ra_session a))),
       (''executable'', json_opt_text (executable_for cfg (ra_client a) (ra_executable a))),
       (''timeout'', case timeout of None \<Rightarrow> JV_Null | Some x \<Rightarrow> JV_Float x),
       (''max_size'', case max_size of None \<Rightarrow> JV_Null | Some i \<Rightarrow> JV_Int i),
       (''adapters'', case fc_adapters cfg of None \<Rightarrow> JV_Null | Some A \<Rightarrow> json_list (sorted_set A))]"
    "store = setting_text (fst (st_store st))" "token = resolve_token R (ra_token a)"
  using assms unfolding resolve_managed_run_def resolved_from_def
  by (auto simp: andthen_Inr simp del: setting_text.simps split: if_splits)

text \<open>The command of a run, written out over what was resolved.\<close>

definition resolved_command ::
  "run_surroundings \<Rightarrow> run_args \<Rightarrow> settings \<Rightarrow> cache_mode \<Rightarrow> persistence_depth \<Rightarrow> text_str \<Rightarrow> text_str \<Rightarrow> text_str \<Rightarrow> text_str list \<Rightarrow>
   execution_kind \<Rightarrow> run_command" where
  "resolved_command R a st mode depth ctx prompt system_prompt allow_paths kind =
     \<lparr>ki_client = ra_client a, ki_model = ra_model a, ki_effort = ra_effort a, ki_context = ctx, ki_prompt = prompt,
      ki_user_system_prompt = truthy (Some system_prompt),
      ki_input_file_paths = map path_text (resolve_input_file_paths R (ra_input_file a)),
      ki_allow_paths = map path_text allow_paths, ki_client_args = ra_client_arg a, ki_grants = ra_grant a,
      rc_execution_kind = kind, rc_scan_trust = setting_truthy (fst (st_trust_scan st)), rc_native_args = [],
      rc_raw_body = [], rc_forward_headers = [], rc_cache_mode = mode, rc_persistence_depth = depth,
      rc_record_on_error = ra_record_on_error a, rc_tags = ra_tag a,
      rc_session_id = resolve_session R (ra_session a)\<rparr>"

lemma resolved_typed:
  assumes "resolved_from R a cfg st mode ctx prompt system_prompt allow_paths timeout max_size" "flags_ok (run_flags a)"
  obtains depth where "setting_text (fst (st_persist st)) = depth_value depth"
proof -
  have "typed_settings st"
    using assms settings_typed [of "rs_config R" cfg "run_flags a" st] load_typed [of "rs_config R" None cfg]
    by (auto simp: resolved_from_def)
  then obtain depth where "fst (st_persist st) = VStr (depth_value depth)" by (auto simp: typed_settings_def)
  then show thesis using that by simp
qed

text \<open>
  C34: What the command line resolves is what runs. Whatever the arguments the parser admits, the
  environment, the config file and the files named: when resolving succeeds, the spec is accepted by every
  reader of it. The command built from it fails only as the client lookup fails, and then holds the
  arguments unchanged, the resolved mode and depth, and the normalised paths; timeout, size cap, whitelist
  and executable are those of the settings, and never of the wrong type.
\<close>

theorem resolved_spec_accepted:
  assumes "resolve_managed_run R a = Inr (spec, store, token)" "flags_ok (run_flags a)"
  shows "\<exists>cfg st mode depth ctx prompt system_prompt allow_paths timeout max_size.
     resolved_from R a cfg st mode ctx prompt system_prompt allow_paths timeout max_size
     \<and> setting_text (fst (st_persist st)) = depth_value depth
     \<and> (\<forall>installed. command_from_spec installed spec =
          bindP (execution_kind_for installed (ra_client a) (map_option sorted_set (fc_adapters cfg)))
            (\<lambda>kind. ret (resolved_command R a st mode depth ctx prompt system_prompt allow_paths kind)))
     \<and> spec_timeout spec = Inr timeout \<and> spec_max_size spec = Inr max_size
     \<and> spec_whitelist spec = Inr (map_option sorted_set (fc_adapters cfg))
     \<and> spec_executable_override spec = Inr (\<lambda>client. executable_for cfg (ra_client a) (ra_executable a))"
proof (rule resolve_managed_runE [OF assms(1)], goal_cases)
  case (1 ctx prompt system_prompt cfg st mode allow_paths timeout max_size)
  obtain depth where depth: "setting_text (fst (st_persist st)) = depth_value depth"
    using resolved_typed [OF 1(1) assms(2)] .
  have get: "spec_get spec ''input_file_paths'' = json_list (resolve_input_file_paths R (ra_input_file a))"
    "spec_get spec ''allow_paths'' = json_list allow_paths" "spec_get spec ''client_args'' = json_list (ra_client_arg a)"
    "spec_get spec ''grants'' = json_list (ra_grant a)" "spec_get spec ''tags'' = json_list (ra_tag a)"
    "spec_get spec ''system_prompt'' = json_opt_text (truthy (Some system_prompt))"
    "spec_get spec ''session_id'' = json_opt_text (resolve_session R (ra_session a))"
    "spec_get spec ''executable'' = json_opt_text (executable_for cfg (ra_client a) (ra_executable a))"
    "spec_get spec ''timeout'' = (case timeout of None \<Rightarrow> JV_Null | Some x \<Rightarrow> JV_Float x)"
    "spec_get spec ''max_size'' = (case max_size of None \<Rightarrow> JV_Null | Some i \<Rightarrow> JV_Int i)"
    "spec_get spec ''adapters'' = (case fc_adapters cfg of None \<Rightarrow> JV_Null | Some A \<Rightarrow> json_list (sorted_set A))"
    "spec_get spec ''trust_scan'' = JV_Bool (setting_truthy (fst (st_trust_scan st)))"
    "spec_get spec ''record_on_error'' = JV_Bool (ra_record_on_error a)"
    unfolding 1(2) by (simp_all add: spec_get_def)
  have str: "spec_string spec ''client'' = Inr (ra_client a)" "spec_string spec ''model'' = Inr (ra_model a)"
    "spec_string spec ''effort'' = Inr (ra_effort a)" "spec_string spec ''context'' = Inr ctx"
    "spec_string spec ''prompt'' = Inr prompt" "spec_string spec ''cache_mode'' = Inr (mode_value mode)"
    "spec_string spec ''persistence_depth'' = Inr (depth_value depth)"
    unfolding 1(2) by (simp_all add: spec_get_def spec_string_def depth)
  have white: "spec_whitelist spec = Inr (map_option sorted_set (fc_adapters cfg))"
    using get(11) json_list_strings [of spec "''adapters''"]
    by (cases "fc_adapters cfg") (simp_all add: spec_whitelist_def json_list_def)
  have "command_fields spec (ra_client a) kind = Inr (resolved_command R a st mode depth ctx prompt system_prompt allow_paths kind)" for kind
    using str json_list_strings [OF get(1)] json_list_strings [OF get(2)] json_list_strings [OF get(3)] json_list_strings [OF get(4)]
      json_list_strings [OF get(5)] json_opt_string [OF get(6)] json_opt_string [OF get(7)] get(12,13)
    by (simp add: command_fields_def resolved_command_def)
  then have "command_from_spec installed spec =
      bindP (execution_kind_for installed (ra_client a) (map_option sorted_set (fc_adapters cfg)))
        (\<lambda>kind. ret (resolved_command R a st mode depth ctx prompt system_prompt allow_paths kind))" for installed
    using str(1) white by (simp add: command_from_spec_def)
  moreover have "spec_timeout spec = Inr timeout" "spec_max_size spec = Inr max_size"
    using get(9,10) by (simp_all add: spec_timeout_def spec_max_size_def split: option.splits)
  moreover have "spec_executable_override spec = Inr (\<lambda>client. executable_for cfg (ra_client a) (ra_executable a))"
    using json_opt_string [OF get(8)] by (simp add: spec_executable_override_def)
  ultimately show ?case using 1(1) depth white by blast
qed

section \<open>The spec of a detached job\<close>

lemma float_int_small: "float_int i \<Longrightarrow> nat i < 2 ^ 1024"
proof -
  assume i: "float_int i"
  obtain s m e where x: "nearest False (nat i) 1 = Finite s m e" "m < 2 ^ 53" "e \<le> 971" "s = False"
    using i nearest_form [of 1 False "nat i"] by (auto simp: float_int_def)
  obtain n d where nd: "times_pow2 m e = (n, d)" by force
  have "n \<le> m * 2 ^ 971"
    using nd x(3) power_increasing [of "nat e" 971 "2::nat"] by (auto simp: times_pow2_def split: if_splits)
  also have "\<dots> < 2 ^ 53 * 2 ^ 971" using x(2) by (intro mult_strict_right_mono) simp_all
  finally have "n < 2 ^ 1024" by (simp flip: power_add)
  moreover have "nat i = n div d" using i x nd by (auto simp: float_int_def Let_def)
  ultimately show ?thesis using div_le_dividend [of n d] by linarith
qed

lemma dec_str_length: "n < 10 ^ k \<Longrightarrow> 0 < k \<Longrightarrow> length (dec_str n) \<le> k"
proof (induction n arbitrary: k rule: dec_str.induct)
  case (1 n)
  show ?case
  proof (cases "n < 10")
    case True
    then show ?thesis using 1(3) by (simp add: dec_str.simps)
  next
    case False
    then obtain k' where k: "k = Suc k'" "0 < k'" using 1(2,3) by (cases k; cases "k - 1") auto
    then have "n div 10 < 10 ^ k'" using 1(2) by (simp add: less_mult_imp_div_less mult.commute)
    with 1(1) [OF False this k(2)] show ?thesis using False k by (subst dec_str.simps) simp
  qed
qed

lemma size_digits: "float_int i \<Longrightarrow> length (dec_str (nat \<bar>i\<bar>)) \<le> MAX_INT_DIGITS"
proof -
  assume i: "float_int i"
  have "(2::nat) ^ 1024 \<le> 10 ^ 1024" by (rule power_mono) simp_all
  then have "nat i < 10 ^ 1024" using float_int_small [OF i] by linarith
  then have "length (dec_str (nat i)) \<le> 1024" by (rule dec_str_length) simp
  moreover have "nat \<bar>i\<bar> = nat i" using i by (simp add: float_int_def)
  ultimately show ?thesis by (simp add: MAX_INT_DIGITS_def)
qed

definition written :: "json_value \<Rightarrow> bool" where
  "written v \<longleftrightarrow> (\<forall>k. json_indented v k \<noteq> None)"

lemma written_atoms [simp]: "written JV_Null" "written (JV_Bool b)" "written (JV_Text s)" "written (json_opt_text o')"
  by (auto simp: written_def json_opt_text_def split: option.split)

lemma those_Nil_None: "those xs = None \<longleftrightarrow> None \<in> set xs"
  by (induction xs) (auto split: option.splits)

lemma bracketed_None: "bracketed c d k ts = None \<longleftrightarrow> None \<in> set ts"
  by (auto simp: bracketed_def joined_def those_Nil_None)

lemma written_list [simp]: "written (json_list ss)"
  by (auto simp: written_def json_list_def bracketed_None)

lemma written_dict: "list_all (\<lambda>kv. written (snd kv)) kvs \<Longrightarrow> json_indented (JV_Dict kvs) k \<noteq> None"
proof -
  assume all: "list_all (\<lambda>kv. written (snd kv)) kvs"
  have "json_indented v (k + 2) \<noteq> None" if "(n, v) \<in> set kvs" for n v
    using all that by (auto simp: list_all_iff written_def)
  then show ?thesis by (auto simp: bracketed_None ascii_member_def) (metis option.distinct(1))
qed

text \<open>
  C35: The worker of a detached run is given the run that was asked for. Whatever the arguments, for a run
  without a timeout whose texts are valid UTF-8: the spec is written as JSON (indented, every character
  beyond ASCII escaped), and reading the file back yields the very same spec, so that the command, the cap,
  the whitelist and the executable of the worker are those of the attached run.
\<close>

theorem detached_spec_survives:
  assumes "resolve_managed_run R a = Inr (spec, store, token)" "flags_ok (run_flags a)"
    and "spec_get spec ''timeout'' = JV_Null" "list_all (\<lambda>kv. texts_ok (snd kv)) spec"
  shows "\<exists>t. spec_file spec = Some t \<and> read_spec t = Inr spec"
proof (rule resolve_managed_runE [OF assms(1)], goal_cases)
  case (1 ctx prompt system_prompt cfg st mode allow_paths timeout max_size)
  have none: "timeout = None" using assms(3) unfolding 1(2) by (simp add: spec_get_def split: option.splits)
  have "typed_settings st"
    using 1(1) assms(2) settings_typed [of "rs_config R" cfg "run_flags a" st] load_typed [of "rs_config R" None cfg]
    by (auto simp: resolved_from_def)
  then have "max_size = None \<or> (\<exists>i. max_size = Some i \<and> float_int i)"
    using 1(1) resolved_size by (auto simp: typed_settings_def resolved_from_def resolved_max_size_def)
  then have size: "written (case max_size of None \<Rightarrow> JV_Null | Some i \<Rightarrow> JV_Int i)"
    using size_digits by (auto simp: written_def)
  have adapters: "written (case fc_adapters cfg of None \<Rightarrow> JV_Null | Some A \<Rightarrow> json_list (sorted_set A))"
    by (cases "fc_adapters cfg") simp_all
  have "list_all (\<lambda>kv. written (snd kv)) spec"
    unfolding 1(2) using size adapters none by simp
  then obtain t where t: "spec_file spec = Some t" using written_dict [of spec 0] by (auto simp: spec_file_def)
  have "distinct (map fst spec) \<and> list_all (\<lambda>kv. is_utf8 (fst kv)) spec"
    unfolding 1(2) by (simp add: is_utf8_ascii)
  then have "texts_ok (JV_Dict spec)" using assms(4) by (auto simp: list_all_iff map_prod_def case_prod_beta)
  then have "json_loads t = Inr (JV_Dict spec)" using t loads_indented [of "JV_Dict spec" 0 t] unfolding spec_file_def by blast
  with t show ?case by (simp add: read_spec_def)
qed

text \<open>A run resolved under the config file of the sample environment.\<close>

definition sample_args :: run_args where
  "sample_args = \<lparr>ra_client = ''claude'', ra_model = ''m'', ra_effort = [], ra_context = None, ra_context_file = None,
     ra_prompt = Some ''hi'', ra_prompt_file = None, ra_system_prompt = Some [], ra_system_prompt_file = None,
     ra_input_file = [''a.txt''], ra_allow_path = [], ra_client_arg = [], ra_grant = [''net''], ra_tag = [],
     ra_mode = None, ra_persist = None, ra_timeout = None, ra_offline = False, ra_force = False,
     ra_record_on_error = False, ra_executable = None, ra_session = None, ra_token = None\<rparr>"

definition sample_surroundings :: run_surroundings where
  "sample_surroundings = \<lparr>rs_config = sample_config_env sample_contents, rs_read = (\<lambda>p. Inr p),
     rs_resolve = (\<lambda>p. ''/w/'' @ p), rs_is_dir = (\<lambda>p. False)\<rparr>"

lemma sample_resolves:
  "case resolve_managed_run sample_surroundings sample_args of Inl e \<Rightarrow> False
   | Inr (spec, store, token) \<Rightarrow> token = None \<and> spec_get spec ''grants'' = json_list [''net''] \<and> spec_get spec ''cache_mode'' = JV_Text ''offline''
       \<and> spec_get spec ''timeout'' = JV_Null \<and> list_all (\<lambda>kv. texts_ok (snd kv)) spec"
  by code_simp

theorem resolved_spec_accepted_witness:
  "\<exists>spec store. resolve_managed_run sample_surroundings sample_args = Inr (spec, store, None)
     \<and> spec_get spec ''cache_mode'' = JV_Text ''offline''
     \<and> (\<exists>whitelist. spec_whitelist spec = Inr whitelist
          \<and> (\<forall>installed. \<exists>c. command_from_spec installed spec = bindP (execution_kind_for installed ''claude'' whitelist) (\<lambda>kind. ret (c kind))))"
proof -
  obtain spec store where r: "resolve_managed_run sample_surroundings sample_args = Inr (spec, store, None)"
    "spec_get spec ''cache_mode'' = JV_Text ''offline''"
    using sample_resolves by (auto split: sum.splits)
  have "flags_ok (run_flags sample_args)" "ra_client sample_args = ''claude''" by (simp_all add: flags_ok_def run_flags_def sample_args_def)
  with resolved_spec_accepted [OF r(1)] r show ?thesis by metis
qed

theorem detached_spec_survives_witness:
  "\<exists>spec store t. resolve_managed_run sample_surroundings sample_args = Inr (spec, store, None)
     \<and> spec_file spec = Some t \<and> read_spec t = Inr spec"
proof -
  obtain spec store where r: "resolve_managed_run sample_surroundings sample_args = Inr (spec, store, None)"
    "spec_get spec ''timeout'' = JV_Null" "list_all (\<lambda>kv. texts_ok (snd kv)) spec"
    using sample_resolves by (auto split: sum.splits)
  have "flags_ok (run_flags sample_args)" by (simp add: flags_ok_def run_flags_def sample_args_def)
  from detached_spec_survives [OF r(1) this r(2,3)] r(1) show ?thesis by blast
qed

section \<open>What a run may do to the files\<close>

lemma finish_run_frame:
  assumes "finish_run cwd r fs = (x, fs')"
  shows "of_resolve fs' = of_resolve fs \<and> (map_of (of_files fs') p \<noteq> map_of (of_files fs) p \<longrightarrow> prefix (of_resolve fs cwd) p)
     \<and> ((\<forall>e. r \<noteq> Inr e) \<longrightarrow> fs' = fs)"
proof (cases r)
  case (Inl e)
  then show ?thesis using assms
    by (auto simp: finish_run_def run_cached_execution_def bindP_def reply_code_def split: option.splits)
next
  case (Inr e)
  define m where "m = write_outputs (\<lambda>a. Inr (case at_content a of None \<Rightarrow> [] | Some b \<Rightarrow> b)) cwd (ex_artifacts e)"
  obtain y fs1 where y: "m fs = (y, fs1)" by force
  have "fs' = fs1"
    using assms y Inr by (cases y) (auto simp: finish_run_def run_cached_execution_def apply_output_files_def m_def [symmetric] bindP_def ret_def)
  with write_outputs_contained [OF y [unfolded m_def], of p] Inr show ?thesis by simp
qed


definition sample_world :: run_world where
  "sample_world = \<lparr>rd_universe = start_universe,
     rd_fs = \<lparr>of_resolve = (\<lambda>p. split_at (CHR ''/'') p), of_files = [([[], ''w'', ''a.txt''], ''x'')]\<rparr>, rd_spawned = []\<rparr>"


end
