(* ===== verification/Json_Request.thy ===== *)
theory Json_Request
  imports Client_Output Cli_Output
begin

text \<open>
  The request of the direct provider adapters, with its retries (\<open>adapter/outbound/api/_http.py\<close>). What the
  network answers to each attempt and the random numbers are parameters. Seconds are rationals; the rounding
  of their floats is not modelled.
\<close>

section \<open>Requests\<close>

record retry_policy =
  rp_max_attempts :: nat
  rp_base_delay :: rat
  rp_max_delay :: rat

definition DEFAULT_RETRY :: retry_policy where
  "DEFAULT_RETRY = \<lparr>rp_max_attempts = 3, rp_base_delay = 1 / 2, rp_max_delay = 8\<rparr>"

text \<open>
  What an attempt gives: a response, an \<open>HTTPError\<close> with its \<open>Retry-After\<close> header, a \<open>URLError\<close> or
  timeout, or any other exception of the transport.
\<close>

datatype attempt = Replies int bytes | Refuses int bytes "text_str option" | No_Response text_str | Drops exn

definition MAX_BODY_SNIPPET :: nat where "MAX_BODY_SNIPPET = 500"

definition is_cont :: "char \<Rightarrow> bool" where "is_cont c = cont_byte (of_char c)"

fun chars_of :: "text_str \<Rightarrow> text_str list" where
  "chars_of [] = []"
| "chars_of (c # s) = (case chars_of s of
     w # ws \<Rightarrow> if is_cont (hd w) then (c # w) # ws else [c] # w # ws
   | [] \<Rightarrow> [[c]])"

definition body_snippet :: "text_str \<Rightarrow> text_str" where
  "body_snippet t = (let cs = chars_of t in
     if length cs \<le> MAX_BODY_SNIPPET then t else concat (take MAX_BODY_SNIPPET cs) @ [CHR 0xE2, CHR 0x80, CHR 0xA6])"

definition api_error :: "text_str \<Rightarrow> int \<Rightarrow> text_str \<Rightarrow> exn" where
  "api_error provider status body = Exn ProviderApiError (provider @ '' API error '' @ int_str status @ '': '' @ body)"

definition protocol_error :: "text_str \<Rightarrow> int \<Rightarrow> text_str \<Rightarrow> exn" where
  "protocol_error provider status body = Exn ProviderProtocolError (provider @ '' API error '' @ int_str status @ '': '' @ body)"

text \<open>An integer of more than 4300 digits raises a plain \<open>ValueError\<close>, which is not caught.\<close>

definition decode_json_object :: "bytes \<Rightarrow> text_str \<Rightarrow> int \<Rightarrow> exn + json_dict" where
  "decode_json_object raw provider status =
     (let broken = Inl (protocol_error provider status (body_snippet (decode_replace raw)))
      in if \<not> is_utf8 raw then broken
         else case json_loads raw of
           Inl Json_Decode \<Rightarrow> broken
         | Inl Int_Digits \<Rightarrow> Inl (Exn ValueError ''Exceeds the limit for integer string conversion'')
         | Inr (JV_Dict d) \<Rightarrow> Inr d
         | Inr _ \<Rightarrow> broken)"

definition is_retryable_status :: "int \<Rightarrow> bool" where
  "is_retryable_status status \<longleftrightarrow> status = 429 \<or> (500 \<le> status \<and> status \<le> 599)"

text \<open>\<open>float(int(raw))\<close>: only the \<open>ValueError\<close> of \<open>int\<close> is caught.\<close>

definition retry_after_seconds :: "text_str option \<Rightarrow> exn + rat option" where
  "retry_after_seconds header = (case header of None \<Rightarrow> Inr None | Some raw \<Rightarrow>
     (case py_int_of raw of
        Inl e \<Rightarrow> Inr None
      | Inr i \<Rightarrow> (case int_to_float i of Inl e \<Rightarrow> Inl e | Inr x \<Rightarrow> Inr (Some (of_int i)))))"

definition delay :: "retry_policy \<Rightarrow> nat \<Rightarrow> rat option \<Rightarrow> rat \<Rightarrow> rat" where
  "delay P attempt retry_after jitter = (case retry_after of
     Some s \<Rightarrow> min s (rp_max_delay P)
   | None \<Rightarrow> jitter * min (rp_max_delay P) (rp_base_delay P * 2 ^ (attempt - 1)))"

text \<open>\<open>time.sleep\<close> refuses a negative time.\<close>

definition sleep_for :: "rat \<Rightarrow> exn + unit" where
  "sleep_for d = (if d < 0 then Inl (Exn ValueError ''sleep length must be non-negative'') else Inr ())"

text \<open>
  One round of the loop: \<open>retry_with\<close> is the header's wish when the attempt is to be repeated, and
  \<open>give_up\<close> is what the caller gets when it is not.
\<close>

definition retry_with :: "retry_policy \<Rightarrow> nat \<Rightarrow> attempt \<Rightarrow> (exn + rat option) option" where
  "retry_with P n a = (case a of
     Refuses status body header \<Rightarrow>
       if is_retryable_status status \<and> n < rp_max_attempts P then Some (retry_after_seconds header) else None
   | No_Response reason \<Rightarrow> if n < rp_max_attempts P then Some (Inr None) else None
   | _ \<Rightarrow> None)"

definition give_up :: "text_str \<Rightarrow> attempt \<Rightarrow> exn + json_dict" where
  "give_up provider a = (case a of
     Replies status body \<Rightarrow> decode_json_object body provider status
   | Refuses status body header \<Rightarrow> Inl (api_error provider status (body_snippet (decode_replace body)))
   | No_Response reason \<Rightarrow> Inl (api_error provider 0 reason)
   | Drops e \<Rightarrow> Inl e)"

text \<open>The end of the \<open>n\<close>-th round: a result, or the time to sleep before the next attempt.\<close>

definition round_end :: "retry_policy \<Rightarrow> text_str \<Rightarrow> nat \<Rightarrow> rat \<Rightarrow> attempt \<Rightarrow> (exn + json_dict) + rat" where
  "round_end P provider n jitter a = (case retry_with P n a of
     None \<Rightarrow> Inl (give_up provider a)
   | Some (Inl e) \<Rightarrow> Inl (Inl e)
   | Some (Inr retry_after) \<Rightarrow>
       (case sleep_for (delay P n retry_after jitter) of
          Inl e \<Rightarrow> Inl (Inl e) | Inr u \<Rightarrow> Inr (delay P n retry_after jitter)))"

lemma round_end_before: "round_end P provider n jitter a = Inr d \<Longrightarrow> n < rp_max_attempts P"
  by (auto simp: round_end_def retry_with_def split: attempt.splits if_splits option.splits sum.splits)

text \<open>The attempts from the \<open>n\<close>-th on: the result and the times slept.\<close>

function request_json ::
  "retry_policy \<Rightarrow> text_str \<Rightarrow> (nat \<Rightarrow> attempt) \<Rightarrow> (nat \<Rightarrow> rat) \<Rightarrow> nat \<Rightarrow> (exn + json_dict) \<times> rat list" where
  "request_json P provider answers jitter n =
     (case round_end P provider n (jitter n) (answers n) of
        Inl r \<Rightarrow> (r, [])
      | Inr d \<Rightarrow> (case request_json P provider answers jitter (Suc n) of (r, ds) \<Rightarrow> (r, d # ds)))"
  by pat_completeness auto
termination by (relation "measure (\<lambda>(P, _, _, _, n). rp_max_attempts P - n)") (auto dest!: round_end_before)

declare request_json.simps [simp del]

section \<open>How often, how long and with what result\<close>

definition transient :: "attempt \<Rightarrow> bool" where
  "transient a = (case a of Refuses status body header \<Rightarrow> is_retryable_status status | No_Response reason \<Rightarrow> True | _ \<Rightarrow> False)"

text \<open>The seconds an attempt asks to wait, as an integer.\<close>

definition asked_wait :: "attempt \<Rightarrow> int option" where
  "asked_wait a = (case a of Refuses status body (Some raw) \<Rightarrow> (case py_int_of raw of Inr i \<Rightarrow> Some i | _ \<Rightarrow> None) | _ \<Rightarrow> None)"

text \<open>A wish the code cannot follow: no float, or in the past.\<close>

definition bad_wait :: "attempt \<Rightarrow> bool" where
  "bad_wait a = (case asked_wait a of None \<Rightarrow> False | Some i \<Rightarrow> i < 0 \<or> (\<exists>e. int_to_float i = Inl e))"

definition delay_ok :: "retry_policy \<Rightarrow> nat \<Rightarrow> attempt \<Rightarrow> rat \<Rightarrow> bool" where
  "delay_ok P n a d \<longleftrightarrow> 0 \<le> d \<and> (case asked_wait a of
      Some i \<Rightarrow> d = min (of_int i) (rp_max_delay P)
    | None \<Rightarrow> d \<le> min (rp_max_delay P) (rp_base_delay P * 2 ^ (n - 1)))"

definition sane_policy :: "retry_policy \<Rightarrow> bool" where
  "sane_policy P \<longleftrightarrow> 1 \<le> rp_max_attempts P \<and> 0 \<le> rp_base_delay P \<and> 0 \<le> rp_max_delay P"

lemma jitter_bounds:
  fixes j c :: rat
  assumes "0 \<le> j" "j < 1" "0 \<le> c"
  shows "0 \<le> j * c" "j * c \<le> c"
  using assms mult_right_mono [of j 1 c] by auto

lemma backoff_nonneg: "sane_policy P \<Longrightarrow> 0 \<le> min (rp_max_delay P) (rp_base_delay P * 2 ^ (n - 1))"
  by (simp add: sane_policy_def)

lemma round_end_again:
  assumes "round_end P provider n j a = Inr d" "sane_policy P" "0 \<le> j" "j < 1"
  shows "transient a" "n < rp_max_attempts P" "\<not> bad_wait a" "delay_ok P n a d"
  using assms jitter_bounds [OF assms(3,4) backoff_nonneg [OF assms(2), of n]]
  by (auto simp: round_end_def retry_with_def transient_def bad_wait_def asked_wait_def delay_ok_def retry_after_seconds_def
      sleep_for_def delay_def split: attempt.splits if_splits option.splits sum.splits)

lemma round_end_last:
  assumes "round_end P provider n j a = Inl r" "sane_policy P" "0 \<le> j" "j < 1"
  shows "(r = give_up provider a \<and> (transient a \<longrightarrow> rp_max_attempts P \<le> n))
    \<or> (transient a \<and> n < rp_max_attempts P \<and> bad_wait a \<and> (\<exists>e. r = Inl e \<and> exn_class_of e \<in> {ValueError, OverflowError}))"
  using assms jitter_bounds [OF assms(3,4) backoff_nonneg [OF assms(2), of n]]
  by (auto simp: round_end_def retry_with_def transient_def bad_wait_def asked_wait_def retry_after_seconds_def
      sleep_for_def delay_def int_to_float_def split: attempt.splits if_splits option.splits sum.splits py_float.splits)

text \<open>What the last attempt gives the caller: its own outcome, or the error of a wait the code cannot follow.\<close>

definition ended_with :: "retry_policy \<Rightarrow> text_str \<Rightarrow> nat \<Rightarrow> attempt \<Rightarrow> exn + json_dict \<Rightarrow> bool" where
  "ended_with P provider k a r \<longleftrightarrow>
     (r = give_up provider a \<and> (transient a \<longrightarrow> k = rp_max_attempts P))
     \<or> (transient a \<and> k < rp_max_attempts P \<and> bad_wait a \<and> (\<exists>e. r = Inl e \<and> exn_class_of e \<in> {ValueError, OverflowError}))"

lemma request_json_from:
  assumes "sane_policy P" "\<And>i. 0 \<le> jitter i \<and> jitter i < 1"
    "request_json P provider answers jitter n = (r, ds)" "n \<le> rp_max_attempts P"
  shows "n + length ds \<le> rp_max_attempts P \<and> ended_with P provider (n + length ds) (answers (n + length ds)) r
    \<and> (\<forall>i < length ds. transient (answers (n + i)) \<and> delay_ok P (n + i) (answers (n + i)) (ds ! i))"
  using assms(3,4)
proof (induction ds arbitrary: n)
  case Nil
  then obtain "round_end P provider n (jitter n) (answers n) = Inl r"
    by (subst (asm) request_json.simps) (auto split: sum.splits prod.splits)
  from round_end_last [OF this assms(1)] show ?case using assms(2) [of n] Nil.prems(2) by (auto simp: ended_with_def)
next
  case (Cons d ds)
  then obtain d: "round_end P provider n (jitter n) (answers n) = Inr d"
      and rest: "request_json P provider answers jitter (Suc n) = (r, ds)"
    by (subst (asm) request_json.simps) (auto split: sum.splits prod.splits)
  note step = round_end_again [OF d assms(1)]
  have now: "transient (answers n)" "n < rp_max_attempts P" "delay_ok P n (answers n) d" using step assms(2) [of n] by auto
  from Cons.IH [OF rest] now show ?case by (auto simp: nth_Cons' less_Suc_eq_0_disj)
qed

text \<open>
  C37: a request ends after at most \<open>max_attempts\<close> attempts. Every attempt before the last failed with a status 429 or
  5xx or without an answer; after the \<open>i\<close>-th the code slept for the seconds it asked for, or else at most the
  \<open>i\<close>-th exponential step, and never longer than \<open>max_delay\<close>. The caller gets the outcome of the last
  attempt, which is not transient unless the attempts are used up, or it asked for a wait the code cannot follow.
\<close>

theorem request_bounded:
  assumes "sane_policy P" "\<forall>i. 0 \<le> jitter i \<and> jitter i < 1" "request_json P provider answers jitter 1 = (r, ds)"
  shows "Suc (length ds) \<le> rp_max_attempts P \<and> ended_with P provider (Suc (length ds)) (answers (Suc (length ds))) r
    \<and> (\<forall>i < length ds. transient (answers (Suc i)) \<and> delay_ok P (Suc i) (answers (Suc i)) (ds ! i) \<and> ds ! i \<le> rp_max_delay P)"
proof -
  have "1 \<le> rp_max_attempts P" using assms(1) by (simp add: sane_policy_def)
  from request_json_from [of P jitter, OF assms(1) _ assms(3) this] assms(2)
  show ?thesis by (auto simp: delay_ok_def split: option.splits)
qed

definition sample_answers :: "nat \<Rightarrow> attempt" where
  "sample_answers n = (if n = 1 then Refuses 429 [] (Some ''20'') else if n = 2 then No_Response ''timed out''
     else Replies 200 ''{}'')"

text \<open>Two failures, the first of which asks for 20 seconds: the code sleeps 8 seconds and then half a second.\<close>

lemma small_floats: "int_to_float 20 = Inr (Finite False 5629499534213120 (- 48))" "int_to_float (- 1) = Inr (Finite True 4503599627370496 (- 52))"
  by (simp_all add: int_to_float_def nearest_def bit_len.simps scaled_def round_div_def)

lemma small_ints: "py_int_of ''20'' = Inr 20" "py_int_of ''-1'' = Inr (- 1)"
  by code_simp+

lemma sample_request: "request_json DEFAULT_RETRY ''openai'' sample_answers (\<lambda>i. 1 / 2) 1 = (Inr [], [8, 1 / 2])"
proof -
  have r1: "round_end DEFAULT_RETRY ''openai'' 1 (1 / 2) (sample_answers 1) = Inr 8"
    by (simp add: round_end_def retry_with_def sample_answers_def is_retryable_status_def retry_after_seconds_def small_ints small_floats
        delay_def sleep_for_def DEFAULT_RETRY_def)
  have r2: "round_end DEFAULT_RETRY ''openai'' (Suc 1) (1 / 2) (sample_answers (Suc 1)) = Inr (1 / 2)"
    by (simp add: round_end_def retry_with_def sample_answers_def delay_def sleep_for_def DEFAULT_RETRY_def)
  have r3: "round_end DEFAULT_RETRY ''openai'' (Suc (Suc 1)) (1 / 2) (sample_answers (Suc (Suc 1))) = Inl (Inr [])"
  proof -
    have "decode_json_object ''{}'' ''openai'' 200 = Inr []" by code_simp
    then show ?thesis by (simp add: round_end_def retry_with_def sample_answers_def give_up_def)
  qed
  show ?thesis
    by (subst request_json.simps, subst request_json.simps, subst request_json.simps) (simp only: r1 r2 r3 sum.case prod.case)
qed

theorem request_bounded_witness:
  "Suc (length [8, 1 / 2 :: rat]) \<le> rp_max_attempts DEFAULT_RETRY
   \<and> delay_ok DEFAULT_RETRY 2 (sample_answers 2) (1 / 2) \<and> ended_with DEFAULT_RETRY ''openai'' 3 (sample_answers 3) (Inr [])"
proof -
  have "sane_policy DEFAULT_RETRY" by (simp add: sane_policy_def DEFAULT_RETRY_def)
  moreover have "\<forall>i :: nat. 0 \<le> (1 / 2 :: rat) \<and> 1 / 2 < (1 :: rat)" by simp
  ultimately have *: "Suc (length [8, 1 / 2 :: rat]) \<le> rp_max_attempts DEFAULT_RETRY
      \<and> ended_with DEFAULT_RETRY ''openai'' (Suc (length [8, 1 / 2 :: rat])) (sample_answers (Suc (length [8, 1 / 2 :: rat]))) (Inr [])
      \<and> (\<forall>i < length [8, 1 / 2 :: rat]. transient (sample_answers (Suc i)) \<and> delay_ok DEFAULT_RETRY (Suc i) (sample_answers (Suc i)) ([8, 1 / 2] ! i)
        \<and> [8, 1 / 2] ! i \<le> rp_max_delay DEFAULT_RETRY)"
    using sample_request by (rule request_bounded)
  then have "delay_ok DEFAULT_RETRY (Suc 1) (sample_answers (Suc 1)) ([8, 1 / 2] ! 1)" by (elim conjE allE [of _ 1]) simp
  with * show ?thesis by (simp add: numeral_2_eq_2 numeral_3_eq_3)
qed

text \<open>
  An exception that is no \<open>URLError\<close>, such as the \<open>RemoteDisconnected\<close> of a connection that the
  server closes before it answers, and a \<open>Retry-After\<close> in the past reach the caller at the first attempt.
\<close>

lemma dropped_connection_leaks: "answers 1 = Drops e \<Longrightarrow> request_json P provider answers jitter 1 = (Inl e, [])"
  by (subst request_json.simps) (simp add: round_end_def retry_with_def give_up_def)

lemma past_wait_leaks:
  "fst (request_json DEFAULT_RETRY ''openai'' (\<lambda>n. Refuses 503 [] (Some ''-1'')) jitter 1)
     = Inl (Exn ValueError ''sleep length must be non-negative'')"
proof -
  have "retry_with DEFAULT_RETRY 1 (Refuses 503 [] (Some ''-1'')) = Some (Inr (Some (- 1)))"
    by (simp add: retry_with_def is_retryable_status_def retry_after_seconds_def small_ints small_floats DEFAULT_RETRY_def)
  then have "round_end DEFAULT_RETRY ''openai'' 1 (jitter 1) (Refuses 503 [] (Some ''-1''))
      = Inl (Inl (Exn ValueError ''sleep length must be non-negative''))"
    by (simp add: round_end_def delay_def sleep_for_def DEFAULT_RETRY_def)
  then show ?thesis by (subst request_json.simps) simp
qed

end
