(* ===== verification/Provider_Api.thy ===== *)
theory Provider_Api
  imports Json_Request Cipher
begin

text \<open>
  The direct provider adapters (\<open>adapter/outbound/api\<close>) of Anthropic, OpenAI, Gemini and Mistral: the body
  and headers they send, and the text, counts and models they read out of a response. The environment and the
  network are parameters. A table with one equation per provider takes each from the module of that provider,
  \<open>anthropic_direct_adapter.py\<close> and so on. Of the text of a \<open>ProviderProtocolError\<close> for a malformed field the dump of the
  response is left out.
\<close>

section \<open>Reading a response\<close>

text \<open>
  \<open>Broken\<close> is one of \<open>KeyError\<close>, \<open>TypeError\<close>, \<open>IndexError\<close> and \<open>AttributeError\<close>, which
  \<open>translate_protocol_errors\<close> takes together; \<open>Escapes\<close> is any other exception.
\<close>

datatype parse_error = Broken | Escapes exn

text \<open>\<open>v.get(k, dflt)\<close>, \<open>v[k]\<close>, \<open>k in v\<close>, \<open>v[0]\<close> and iteration.\<close>

definition field_or :: "json_value \<Rightarrow> text_str \<Rightarrow> json_value \<Rightarrow> parse_error + json_value" where
  "field_or v k dflt = (case v of JV_Dict d \<Rightarrow> Inr (case map_of d k of None \<Rightarrow> dflt | Some x \<Rightarrow> x) | _ \<Rightarrow> Inl Broken)"

definition field_at :: "json_value \<Rightarrow> text_str \<Rightarrow> parse_error + json_value" where
  "field_at v k = (case v of JV_Dict d \<Rightarrow> (case map_of d k of None \<Rightarrow> Inl Broken | Some x \<Rightarrow> Inr x) | _ \<Rightarrow> Inl Broken)"

definition has_key :: "text_str \<Rightarrow> json_value \<Rightarrow> parse_error + bool" where
  "has_key k v = (case v of
     JV_Dict d \<Rightarrow> Inr (map_of d k \<noteq> None)
   | JV_List vs \<Rightarrow> Inr (JV_Text k \<in> set vs)
   | JV_Text s \<Rightarrow> Inr (contains_str k s)
   | _ \<Rightarrow> Inl Broken)"

definition items_of :: "json_value \<Rightarrow> parse_error + json_value list" where
  "items_of v = (case v of
     JV_List vs \<Rightarrow> Inr vs
   | JV_Dict d \<Rightarrow> Inr (map (\<lambda>kv. JV_Text (fst kv)) d)
   | JV_Text s \<Rightarrow> Inr (map JV_Text (chars_of s))
   | _ \<Rightarrow> Inl Broken)"

definition first_of :: "json_value \<Rightarrow> parse_error + json_value" where
  "first_of v = (case v of
     JV_List (x # xs) \<Rightarrow> Inr x
   | JV_Text s \<Rightarrow> (case chars_of s of c # cs \<Rightarrow> Inr (JV_Text c) | [] \<Rightarrow> Inl Broken)
   | _ \<Rightarrow> Inl Broken)"

fun each :: "('a \<Rightarrow> 'e + 'b list) \<Rightarrow> 'a list \<Rightarrow> 'e + 'b list" where
  "each f [] = Inr []"
| "each f (x # xs) = andthen (f x) (\<lambda>y. andthen (each f xs) (\<lambda>ys. Inr (y @ ys)))"

definition as_text :: "json_value \<Rightarrow> parse_error + text_str list" where
  "as_text v = (case v of JV_Text s \<Rightarrow> Inr [s] | _ \<Rightarrow> Inl Broken)"

text \<open>\<open>"".join(vs)\<close>.\<close>

definition join_texts :: "json_value list \<Rightarrow> parse_error + text_str" where
  "join_texts vs = andthen (each as_text vs) (\<lambda>ss. Inr (concat ss))"

text \<open>\<open>v or {}\<close>.\<close>

definition or_empty :: "json_value \<Rightarrow> json_value" where
  "or_empty v = (if json_truthy v then v else JV_Dict [])"

text \<open>\<open>int_or_none(v.get(k))\<close>.\<close>

definition count_at :: "json_value \<Rightarrow> text_str \<Rightarrow> parse_error + int option" where
  "count_at v k = andthen (field_or v k JV_Null) (\<lambda>x.
     case int_or_none (Some x) of Inl e \<Rightarrow> Inl (Escapes e) | Inr n \<Rightarrow> Inr n)"

definition raw_of :: "json_value \<Rightarrow> json_dict" where
  "raw_of v = (case v of JV_Dict d \<Rightarrow> d | _ \<Rightarrow> [])"

definition EOL :: text_str where "EOL = [CHR 0x0A]"

text \<open>How the answers end: \<open>text if text.endswith("\n") else text + "\n"\<close>, and a new line alone when empty.\<close>

definition line_ended :: "text_str \<Rightarrow> text_str" where
  "line_ended s = (if s = [] then EOL else if last s = CHR 0x0A then s else s @ EOL)"

datatype provider = ANTHROPIC | OPENAI | GEMINI | MISTRAL

primrec provider_name :: "provider \<Rightarrow> text_str" where
  "provider_name ANTHROPIC = ''anthropic''"
| "provider_name OPENAI = ''openai''"
| "provider_name GEMINI = ''gemini''"
| "provider_name MISTRAL = ''mistral''"

subsection \<open>The text of an answer\<close>

definition anthropic_block :: "json_value \<Rightarrow> parse_error + json_value list" where
  "anthropic_block b = andthen (field_or b ''type'' JV_Null) (\<lambda>t.
     if t = JV_Text ''text'' then andthen (field_at b ''text'') (\<lambda>x. Inr [x]) else Inr [])"

definition anthropic_text :: "json_dict \<Rightarrow> parse_error + text_str" where
  "anthropic_text r =
     andthen (field_or (JV_Dict r) ''content'' (JV_List [])) (\<lambda>c.
     andthen (items_of c) (\<lambda>blocks.
     andthen (each anthropic_block blocks) (\<lambda>xs.
     andthen (join_texts xs) (\<lambda>s. Inr (line_ended s)))))"

definition openai_part :: "json_value \<Rightarrow> parse_error + json_value list" where
  "openai_part p = andthen (field_or p ''type'' JV_Null) (\<lambda>t.
     if t = JV_Text ''output_text'' then andthen (field_or p ''text'' (JV_Text [])) (\<lambda>x. Inr [x]) else Inr [])"

definition openai_item :: "json_value \<Rightarrow> parse_error + json_value list" where
  "openai_item i = andthen (field_or i ''type'' JV_Null) (\<lambda>t.
     if t = JV_Text ''message''
     then andthen (field_or i ''content'' (JV_List [])) (\<lambda>c. andthen (items_of c) (\<lambda>parts. each openai_part parts))
     else Inr [])"

definition openai_text :: "json_dict \<Rightarrow> parse_error + text_str" where
  "openai_text r =
     andthen (field_or (JV_Dict r) ''output'' (JV_List [])) (\<lambda>out.
     andthen (items_of out) (\<lambda>items.
     andthen (each openai_item items) (\<lambda>xs.
     andthen (join_texts xs) (\<lambda>s. Inr (line_ended s)))))"

definition gemini_part :: "json_value \<Rightarrow> parse_error + json_value list" where
  "gemini_part p = andthen (has_key ''text'' p) (\<lambda>b.
     if b then andthen (field_at p ''text'') (\<lambda>x. Inr [x]) else Inr [])"

definition gemini_text :: "json_dict \<Rightarrow> parse_error + text_str" where
  "gemini_text r =
     andthen (field_or (JV_Dict r) ''candidates'' (JV_List [])) (\<lambda>candidates.
     if \<not> json_truthy candidates then Inr EOL
     else andthen (first_of candidates) (\<lambda>c.
       andthen (field_or c ''content'' (JV_Dict [])) (\<lambda>content.
       andthen (field_or content ''parts'' (JV_List [])) (\<lambda>ps.
       andthen (items_of ps) (\<lambda>parts.
       andthen (each gemini_part parts) (\<lambda>xs.
       andthen (join_texts xs) (\<lambda>s. Inr (line_ended s))))))))"

text \<open>The first choice with a text that is not empty.\<close>

fun mistral_choices :: "json_value list \<Rightarrow> parse_error + text_str" where
  "mistral_choices [] = Inr EOL"
| "mistral_choices (c # cs) =
     andthen (field_or c ''message'' (JV_Dict [])) (\<lambda>m.
     andthen (field_or m ''content'' (JV_Text [])) (\<lambda>content.
       case content of JV_Text s \<Rightarrow> if s \<noteq> [] then Inr (line_ended s) else mistral_choices cs | _ \<Rightarrow> mistral_choices cs))"

definition mistral_text :: "json_dict \<Rightarrow> parse_error + text_str" where
  "mistral_text r =
     andthen (field_or (JV_Dict r) ''choices'' (JV_List [])) (\<lambda>cs. andthen (items_of cs) mistral_choices)"

primrec extract_text :: "provider \<Rightarrow> json_dict \<Rightarrow> parse_error + text_str" where
  "extract_text ANTHROPIC r = anthropic_text r"
| "extract_text OPENAI r = openai_text r"
| "extract_text GEMINI r = gemini_text r"
| "extract_text MISTRAL r = mistral_text r"

subsection \<open>Its usage\<close>

definition anthropic_usage :: "json_dict \<Rightarrow> parse_error + usage" where
  "anthropic_usage r =
     andthen (field_or (JV_Dict r) ''usage'' (JV_Dict [])) (\<lambda>u.
     andthen (count_at u ''input_tokens'') (\<lambda>i.
     andthen (count_at u ''output_tokens'') (\<lambda>out.
     andthen (count_at u ''cache_read_input_tokens'') (\<lambda>rd.
     andthen (count_at u ''cache_creation_input_tokens'') (\<lambda>wr.
       Inr \<lparr>us_input_tokens = i, us_output_tokens = out, us_cache_read_tokens = rd, us_cache_write_tokens = wr,
         us_reasoning_tokens = None, us_cost_usd = None, us_raw = raw_of u\<rparr>)))))"

definition openai_usage :: "json_dict \<Rightarrow> parse_error + usage" where
  "openai_usage r =
     andthen (field_or (JV_Dict r) ''usage'' (JV_Dict [])) (\<lambda>u.
     andthen (field_or u ''input_tokens_details'' JV_Null) (\<lambda>di.
     andthen (field_or u ''output_tokens_details'' JV_Null) (\<lambda>do.
     andthen (count_at u ''input_tokens'') (\<lambda>i.
     andthen (count_at u ''output_tokens'') (\<lambda>out.
     andthen (count_at (or_empty di) ''cached_tokens'') (\<lambda>rd.
     andthen (count_at (or_empty do) ''reasoning_tokens'') (\<lambda>th.
       Inr \<lparr>us_input_tokens = i, us_output_tokens = out, us_cache_read_tokens = rd, us_cache_write_tokens = None,
         us_reasoning_tokens = th, us_cost_usd = None, us_raw = raw_of u\<rparr>)))))))"

definition gemini_usage :: "json_dict \<Rightarrow> parse_error + usage" where
  "gemini_usage r =
     andthen (field_or (JV_Dict r) ''usageMetadata'' (JV_Dict [])) (\<lambda>u.
     andthen (count_at u ''promptTokenCount'') (\<lambda>i.
     andthen (count_at u ''candidatesTokenCount'') (\<lambda>out.
     andthen (count_at u ''cachedContentTokenCount'') (\<lambda>rd.
     andthen (count_at u ''thoughtsTokenCount'') (\<lambda>th.
       Inr \<lparr>us_input_tokens = i, us_output_tokens = out, us_cache_read_tokens = rd, us_cache_write_tokens = None,
         us_reasoning_tokens = th, us_cost_usd = None, us_raw = raw_of u\<rparr>)))))"

definition mistral_usage :: "json_dict \<Rightarrow> parse_error + usage" where
  "mistral_usage r =
     andthen (field_or (JV_Dict r) ''usage'' (JV_Dict [])) (\<lambda>u.
     andthen (field_or u ''prompt_tokens_details'' JV_Null) (\<lambda>d.
     andthen (count_at u ''prompt_tokens'') (\<lambda>i.
     andthen (count_at u ''completion_tokens'') (\<lambda>out.
     andthen (count_at (or_empty d) ''cached_tokens'') (\<lambda>rd.
       Inr \<lparr>us_input_tokens = i, us_output_tokens = out, us_cache_read_tokens = rd, us_cache_write_tokens = None,
         us_reasoning_tokens = None, us_cost_usd = None, us_raw = raw_of u\<rparr>)))))"

primrec extract_usage :: "provider \<Rightarrow> json_dict \<Rightarrow> parse_error + usage" where
  "extract_usage ANTHROPIC r = anthropic_usage r"
| "extract_usage OPENAI r = openai_usage r"
| "extract_usage GEMINI r = gemini_usage r"
| "extract_usage MISTRAL r = mistral_usage r"

section \<open>What is sent\<close>

datatype effort_type = EFFORT_LEVEL | EFFORT_BUDGET

definition LEVEL_TO_BUDGET :: "(text_str \<times> int) list" where
  "LEVEL_TO_BUDGET = [(''low'', 1024), (''medium'', 8192), (''high'', 24576)]"

definition BUDGET_MODEL_BASES :: "text_str list" where
  "BUDGET_MODEL_BASES = [''gemini-2.5-pro'', ''gemini-2.5-flash'', ''gemini-2.5-flash-lite'', ''gemini-2.5-flash-preview'',
     ''gemini-2.5-flash-image'', ''gemini-2.5-computer-use-preview'', ''gemini-robotics-er-1.5-preview'', ''gemini-robotics-er-1.6-preview'']"

definition effort_type_for_model :: "text_str \<Rightarrow> effort_type" where
  "effort_type_for_model model = (let base = removeprefix ''models/'' model in
     if list_ex (\<lambda>known. base = known \<or> starts_with (known @ ''-'') base) BUDGET_MODEL_BASES then EFFORT_BUDGET else EFFORT_LEVEL)"

record thinking_config =
  th_effort_type :: effort_type
  th_level :: text_str
  th_budget :: int

text \<open>\<open>isdigit\<close> and \<open>int\<close> are those of ASCII text.\<close>

definition from_effort :: "text_str \<Rightarrow> text_str \<Rightarrow> exn + thinking_config" where
  "from_effort effort model =
     (if effort_type_for_model model = EFFORT_BUDGET
      then if effort \<noteq> [] \<and> list_all is_digit effort
        then andthen (py_int_of effort) (\<lambda>n. Inr \<lparr>th_effort_type = EFFORT_BUDGET, th_level = [], th_budget = n\<rparr>)
        else Inr \<lparr>th_effort_type = EFFORT_BUDGET, th_level = [],
               th_budget = (case map_of LEVEL_TO_BUDGET effort of Some n \<Rightarrow> n | None \<Rightarrow> 8192)\<rparr>
      else Inr \<lparr>th_effort_type = EFFORT_LEVEL, th_level = effort, th_budget = 0\<rparr>)"

definition thinking_dict :: "thinking_config \<Rightarrow> json_value" where
  "thinking_dict c = JV_Dict (if th_effort_type c = EFFORT_BUDGET then [(''thinkingBudget'', JV_Int (th_budget c))]
     else [(''thinkingLevel'', JV_Text (th_level c))])"

definition system_parts :: "ml_request \<Rightarrow> text_str list" where
  "system_parts q = (if mq_context q \<noteq> [] then [mq_context q] else [])
     @ (case mq_user_system_prompt q of Some s \<Rightarrow> if s \<noteq> [] then [s] else [] | None \<Rightarrow> [])"

definition system_text :: "ml_request \<Rightarrow> text_str" where
  "system_text q = join_str (EOL @ EOL) (system_parts q)"

definition chat_message :: "text_str \<Rightarrow> text_str \<Rightarrow> json_value" where
  "chat_message role content = JV_Dict [(''role'', JV_Text role), (''content'', JV_Text content)]"

definition text_part :: "text_str \<Rightarrow> json_value" where
  "text_part s = JV_Dict [(''text'', JV_Text s)]"

definition DEFAULT_MAX_TOKENS :: int where "DEFAULT_MAX_TOKENS = 8192"

definition anthropic_body :: "ml_request \<Rightarrow> json_value" where
  "anthropic_body q = JV_Dict (
     [(''model'', JV_Text (mq_model q)), (''max_tokens'', JV_Int DEFAULT_MAX_TOKENS),
      (''messages'', JV_List [chat_message ''user'' (mq_prompt q)])]
     @ (if system_parts q \<noteq> [] then [(''system'', JV_Text (system_text q))] else []))"

definition openai_body :: "ml_request \<Rightarrow> json_value" where
  "openai_body q = JV_Dict (
     [(''model'', JV_Text (mq_model q)), (''input'', JV_List [chat_message ''user'' (mq_prompt q)])]
     @ (if system_parts q \<noteq> [] then [(''instructions'', JV_Text (system_text q))] else []))"

definition gemini_body :: "ml_request \<Rightarrow> exn + json_value" where
  "gemini_body q =
     (let body = [(''contents'', JV_List [JV_Dict [(''role'', JV_Text ''user''), (''parts'', JV_List [text_part (mq_prompt q)])]])]
        @ (if system_parts q \<noteq> [] then [(''systemInstruction'', JV_Dict [(''parts'', JV_List (map text_part (system_parts q)))])] else [])
      in if mq_effort q = [] then Inr (JV_Dict body)
         else andthen (from_effort (mq_effort q) (mq_model q)) (\<lambda>c.
           Inr (JV_Dict (body @ [(''generationConfig'', JV_Dict [(''thinkingConfig'', thinking_dict c)])]))))"

definition mistral_body :: "ml_request \<Rightarrow> json_value" where
  "mistral_body q = JV_Dict [(''model'', JV_Text (mq_model q)),
     (''messages'', JV_List ((if system_parts q \<noteq> [] then [chat_message ''system'' (system_text q)] else [])
        @ [chat_message ''user'' (mq_prompt q)]))]"

primrec build_body :: "provider \<Rightarrow> ml_request \<Rightarrow> exn + json_value" where
  "build_body ANTHROPIC q = Inr (anthropic_body q)"
| "build_body OPENAI q = Inr (openai_body q)"
| "build_body GEMINI q = gemini_body q"
| "build_body MISTRAL q = Inr (mistral_body q)"

primrec key_variable :: "provider \<Rightarrow> text_str" where
  "key_variable ANTHROPIC = ''ANTHROPIC_API_KEY''"
| "key_variable OPENAI = ''OPENAI_API_KEY''"
| "key_variable GEMINI = ''GEMINI_API_KEY''"
| "key_variable MISTRAL = ''MISTRAL_API_KEY''"

primrec adapter_class_name :: "provider \<Rightarrow> text_str" where
  "adapter_class_name ANTHROPIC = ''AnthropicDirectAdapter''"
| "adapter_class_name OPENAI = ''OpenAIDirectAdapter''"
| "adapter_class_name GEMINI = ''GeminiDirectAdapter''"
| "adapter_class_name MISTRAL = ''MistralDirectAdapter''"

text \<open>\<open>self._api_key or os.environ.get(NAME, "")\<close>.\<close>

definition api_key_value :: "provider \<Rightarrow> text_str option \<Rightarrow> (text_str \<Rightarrow> text_str option) \<Rightarrow> exn + text_str" where
  "api_key_value p given env =
     (let key = (if given \<noteq> None \<and> given \<noteq> Some [] then the given
        else case env (key_variable p) of Some k \<Rightarrow> k | None \<Rightarrow> [])
      in if key = [] then Inl (Exn ConfigError (key_variable p @ '' is not set. Export it or pass api_key= to '' @ adapter_class_name p @ ''.''))
         else Inr key)"

record http_request =
  hr_method :: text_str
  hr_url :: text_str
  hr_headers :: "(text_str \<times> text_str) list"
  hr_body :: "json_value option"

primrec base_url :: "provider \<Rightarrow> text_str" where
  "base_url ANTHROPIC = ''https://api.anthropic.com/v1''"
| "base_url OPENAI = ''https://api.openai.com/v1''"
| "base_url GEMINI = ''https://generativelanguage.googleapis.com/v1beta/models''"
| "base_url MISTRAL = ''https://api.mistral.ai/v1''"

definition json_type :: "text_str \<times> text_str" where
  "json_type = (''Content-Type'', ''application/json'')"

primrec post_headers :: "provider \<Rightarrow> text_str \<Rightarrow> (text_str \<times> text_str) list" where
  "post_headers ANTHROPIC key = [(''x-api-key'', key), (''anthropic-version'', ''2023-06-01''), json_type]"
| "post_headers OPENAI key = [(''Authorization'', ''Bearer '' @ key), json_type]"
| "post_headers GEMINI key = [json_type, (''X-goog-api-key'', key)]"
| "post_headers MISTRAL key = [(''Authorization'', ''Bearer '' @ key), json_type]"

definition get_headers :: "provider \<Rightarrow> text_str \<Rightarrow> (text_str \<times> text_str) list" where
  "get_headers p key = (if p = GEMINI then [(''X-goog-api-key'', key)] else post_headers p key)"

primrec run_url :: "provider \<Rightarrow> text_str \<Rightarrow> text_str" where
  "run_url ANTHROPIC model = base_url ANTHROPIC @ ''/messages''"
| "run_url OPENAI model = base_url OPENAI @ ''/responses''"
| "run_url GEMINI model = base_url GEMINI @ ''/'' @ model @ '':generateContent''"
| "run_url MISTRAL model = base_url MISTRAL @ ''/chat/completions''"

definition models_url :: "provider \<Rightarrow> text_str" where
  "models_url p = (if p = GEMINI then base_url p else base_url p @ ''/models'')"

definition post_request :: "provider \<Rightarrow> ml_request \<Rightarrow> json_value \<Rightarrow> text_str \<Rightarrow> http_request" where
  "post_request p q body key = \<lparr>hr_method = ''POST'', hr_url = run_url p (mq_model q), hr_headers = post_headers p key, hr_body = Some body\<rparr>"

definition get_request :: "provider \<Rightarrow> text_str \<Rightarrow> http_request" where
  "get_request p key = \<lparr>hr_method = ''GET'', hr_url = models_url p, hr_headers = get_headers p key, hr_body = None\<rparr>"

section \<open>The calls\<close>

type_synonym network = "http_request \<Rightarrow> nat \<Rightarrow> attempt"

definition translate :: "provider \<Rightarrow> parse_error + 'a \<Rightarrow> exn + 'a" where
  "translate p r = (case r of Inr a \<Rightarrow> Inr a
     | Inl Broken \<Rightarrow> Inl (protocol_error (provider_name p) 200 [])
     | Inl (Escapes e) \<Rightarrow> Inl e)"

record api_answer =
  aa_exit_code :: int
  aa_stdout :: text_str
  aa_token_usage :: usage

definition api_run ::
  "provider \<Rightarrow> text_str option \<Rightarrow> (text_str \<Rightarrow> text_str option) \<Rightarrow> network \<Rightarrow> (nat \<Rightarrow> rat) \<Rightarrow> ml_request \<Rightarrow> exn + api_answer" where
  "api_run p given env net jitter q =
     andthen (build_body p q) (\<lambda>body.
     andthen (api_key_value p given env) (\<lambda>key.
     andthen (fst (request_json DEFAULT_RETRY (provider_name p) (net (post_request p q body key)) jitter 1)) (\<lambda>r.
     translate p (andthen (extract_text p r) (\<lambda>s.
       andthen (extract_usage p r) (\<lambda>u. Inr \<lparr>aa_exit_code = 0, aa_stdout = s, aa_token_usage = u\<rparr>))))))"

text \<open>Models as pairs of an id and a name; outside \<open>translate_protocol_errors\<close>.\<close>

type_synonym model_info = "json_value \<times> json_value"

definition anthropic_model :: "json_value \<Rightarrow> parse_error + model_info list" where
  "anthropic_model m = andthen (field_or m ''type'' JV_Null) (\<lambda>t.
     if t \<noteq> JV_Text ''model'' then Inr []
     else andthen (field_at m ''id'') (\<lambda>i. andthen (field_or m ''display_name'' i) (\<lambda>n. Inr [(i, n)])))"

definition openai_model :: "json_value \<Rightarrow> parse_error + model_info list" where
  "openai_model m = andthen (field_or m ''owned_by'' JV_Null) (\<lambda>t.
     if t \<noteq> JV_Text ''openai'' then Inr [] else andthen (field_at m ''id'') (\<lambda>i. Inr [(i, i)]))"

definition gemini_model :: "json_value \<Rightarrow> parse_error + model_info list" where
  "gemini_model m =
     andthen (field_or m ''supportedGenerationMethods'' (JV_List [])) (\<lambda>methods.
     andthen (has_key ''generateContent'' methods) (\<lambda>supported.
     if \<not> supported then Inr []
     else andthen (field_or m ''name'' (JV_Text [])) (\<lambda>name.
       case name of JV_Text s \<Rightarrow>
         (let i = removeprefix ''models/'' s in
          if i = [] then Inr [] else andthen (field_or m ''displayName'' (JV_Text i)) (\<lambda>n. Inr [(JV_Text i, n)]))
       | _ \<Rightarrow> Inl Broken)))"

definition mistral_model :: "json_value \<Rightarrow> parse_error + model_info list" where
  "mistral_model m = andthen (field_or m ''id'' JV_Null) (\<lambda>i. Inr (if json_truthy i then [(i, i)] else []))"

primrec model_of :: "provider \<Rightarrow> json_value \<Rightarrow> parse_error + model_info list" where
  "model_of ANTHROPIC m = anthropic_model m"
| "model_of OPENAI m = openai_model m"
| "model_of GEMINI m = gemini_model m"
| "model_of MISTRAL m = mistral_model m"

definition models_of :: "provider \<Rightarrow> json_dict \<Rightarrow> parse_error + model_info list" where
  "models_of p r =
     andthen (field_or (JV_Dict r) (if p = GEMINI then ''models'' else ''data'') (JV_List [])) (\<lambda>ms.
     andthen (items_of ms) (each (model_of p)))"

definition list_models ::
  "provider \<Rightarrow> text_str option \<Rightarrow> (text_str \<Rightarrow> text_str option) \<Rightarrow> network \<Rightarrow> (nat \<Rightarrow> rat) \<Rightarrow> parse_error + model_info list" where
  "list_models p given env net jitter =
     (case andthen (api_key_value p given env) (\<lambda>key.
         fst (request_json DEFAULT_RETRY (provider_name p) (net (get_request p key)) jitter 1)) of
        Inl e \<Rightarrow> Inl (Escapes e)
      | Inr r \<Rightarrow> models_of p r)"

section \<open>What a caller can get\<close>

text \<open>Every number of a value is finite or NaN.\<close>

definition finite_float :: "py_float \<Rightarrow> bool" where
  "finite_float x = (case x of Infinite s \<Rightarrow> False | _ \<Rightarrow> True)"

primrec finite_numbers :: "json_value \<Rightarrow> bool" where
  "finite_numbers JV_Null = True"
| "finite_numbers (JV_Bool b) = True"
| "finite_numbers (JV_Int i) = True"
| "finite_numbers (JV_Float x) = finite_float x"
| "finite_numbers (JV_Text s) = True"
| "finite_numbers (JV_List vs) = list_all id (map finite_numbers vs)"
| "finite_numbers (JV_Dict kvs) = list_all snd (map (map_prod id finite_numbers) kvs)"

definition no_escape :: "parse_error + 'a \<Rightarrow> bool" where
  "no_escape r = (case r of Inl (Escapes e) \<Rightarrow> False | _ \<Rightarrow> True)"

lemma no_escape_simps [simp]: "no_escape (Inr a)" "no_escape (Inl Broken)" "\<not> no_escape (Inl (Escapes e))"
  by (simp_all add: no_escape_def)

lemma no_escape_andthen [intro!]: "no_escape m \<Longrightarrow> (\<And>a. m = Inr a \<Longrightarrow> no_escape (f a)) \<Longrightarrow> no_escape (andthen m f)"
  by (cases m) (auto simp: no_escape_def split: sum.splits)

lemma no_escape_reads [simp]:
  "no_escape (field_or v k d)" "no_escape (field_at v k)" "no_escape (has_key k v)" "no_escape (items_of v)"
  "no_escape (first_of v)" "no_escape (as_text v)"
  by (simp_all add: field_or_def field_at_def has_key_def items_of_def first_of_def as_text_def
      split: json_value.split option.split list.split)

lemma no_escape_each: "(\<And>x. no_escape (f x)) \<Longrightarrow> no_escape (each f xs)"
  by (induction xs) auto

lemma no_escape_parts [simp]:
  "no_escape (join_texts vs)" "no_escape (anthropic_block v)" "no_escape (openai_part v)" "no_escape (openai_item v)"
  "no_escape (gemini_part v)" "no_escape (mistral_choices vs)"
proof -
  show "no_escape (join_texts vs)" "no_escape (anthropic_block v)" "no_escape (gemini_part v)" "no_escape (openai_part v)" for v
    by (auto simp: join_texts_def anthropic_block_def gemini_part_def openai_part_def intro!: no_escape_each)
  then show "no_escape (openai_item v)" by (auto simp: openai_item_def intro!: no_escape_each)
  show "no_escape (mistral_choices vs)" by (induction vs) (auto split: json_value.split)
qed

lemma text_no_escape: "no_escape (extract_text p r)"
  by (cases p) (auto simp: anthropic_text_def openai_text_def gemini_text_def mistral_text_def intro!: no_escape_each)

lemma finite_field: "field_or v k d = Inr x \<Longrightarrow> finite_numbers v \<Longrightarrow> finite_numbers d \<Longrightarrow> finite_numbers x"
  by (auto simp: field_or_def list_all_iff dest!: map_of_SomeD split: json_value.splits option.splits)

lemma int_or_none_finite: "finite_numbers v \<Longrightarrow> \<exists>n. int_or_none (Some v) = Inr n"
  by (cases v) (auto simp: value_or_none_def finite_float_def py_int_of_def Let_def split: py_float.splits prod.splits option.splits sum.splits)

lemma count_no_escape: "finite_numbers v \<Longrightarrow> no_escape (count_at v k)"
  using finite_field [of v k JV_Null] int_or_none_finite by (fastforce simp: count_at_def intro!: no_escape_andthen split: sum.split)

lemma usage_no_escape: "finite_numbers (JV_Dict r) \<Longrightarrow> no_escape (extract_usage p r)"
proof -
  assume r: "finite_numbers (JV_Dict r)"
  have u: "finite_numbers u" if "field_or (JV_Dict r) k (JV_Dict []) = Inr u" for k u
    using finite_field [OF that r] by simp
  have d: "finite_numbers (or_empty x)" if "field_or u k JV_Null = Inr x" "finite_numbers u" for u k x
    using finite_field [OF that] by (simp add: or_empty_def)
  show ?thesis
    by (cases p) (auto simp: anthropic_usage_def openai_usage_def gemini_usage_def mistral_usage_def intro!: no_escape_andthen count_no_escape dest: u d)
qed

text \<open>A text that ends in a new line.\<close>

definition ends_line :: "parse_error + text_str \<Rightarrow> bool" where
  "ends_line r = (case r of Inr s \<Rightarrow> s \<noteq> [] \<and> last s = CHR 0x0A | Inl e \<Rightarrow> True)"

lemma ends_line_simps [simp]: "ends_line (Inl e)" "ends_line (Inr EOL)" "ends_line (Inr (line_ended s))"
  by (simp_all add: ends_line_def line_ended_def EOL_def)

lemma ends_line_andthen [intro!]: "(\<And>a. m = Inr a \<Longrightarrow> ends_line (f a)) \<Longrightarrow> ends_line (andthen m f)"
  by (cases m) auto

lemma mistral_choices_line [simp]: "ends_line (mistral_choices cs)"
  by (induction cs) (auto split: json_value.split)

lemma extract_text_line: "ends_line (extract_text p r)"
  by (cases p) (auto simp: anthropic_text_def openai_text_def gemini_text_def mistral_text_def)

lemma extract_text_ended: "extract_text p r = Inr s \<Longrightarrow> s \<noteq> [] \<and> last s = CHR 0x0A"
  using extract_text_line [of p r] by (simp add: ends_line_def)

text \<open>
  An attempt that leaves the code only errors it translates: the connection is not dropped, no wait is asked for
  that it cannot follow, and a JSON body has no integer of more than 4300 digits and no infinite number.
\<close>

definition tame_body :: "bytes \<Rightarrow> bool" where
  "tame_body b = (is_utf8 b \<longrightarrow> (case json_loads b of Inl Json_Decode \<Rightarrow> True | Inl Int_Digits \<Rightarrow> False | Inr v \<Rightarrow> finite_numbers v))"

definition tame :: "attempt \<Rightarrow> bool" where
  "tame a = (case a of Replies status body \<Rightarrow> tame_body body | Refuses status body header \<Rightarrow> \<not> bad_wait a
     | No_Response reason \<Rightarrow> True | Drops e \<Rightarrow> False)"

definition API_ERRORS :: "exn_class set" where
  "API_ERRORS = {ConfigError, ProviderApiError, ProviderProtocolError}"

lemma give_up_tame:
  assumes "tame a"
  shows "case give_up provider a of Inl e \<Rightarrow> exn_class_of e \<in> {ProviderApiError, ProviderProtocolError} | Inr r \<Rightarrow> finite_numbers (JV_Dict r)"
  using assms
  by (auto simp: give_up_def tame_def tame_body_def decode_json_object_def api_error_def protocol_error_def Let_def
      split: attempt.splits sum.splits json_error.splits json_value.splits if_splits)

lemma request_tame:
  assumes "\<forall>i. 0 \<le> jitter i \<and> jitter i < 1" "\<forall>n. tame (answers n)"
  shows "case fst (request_json DEFAULT_RETRY provider answers jitter 1) of
     Inl e \<Rightarrow> exn_class_of e \<in> {ProviderApiError, ProviderProtocolError} | Inr r \<Rightarrow> finite_numbers (JV_Dict r)"
proof -
  obtain r ds where r: "request_json DEFAULT_RETRY provider answers jitter 1 = (r, ds)" by force
  have "ended_with DEFAULT_RETRY provider (1 + length ds) (answers (1 + length ds)) r"
    using request_json_from [OF _ _ r] assms(1) by (simp add: sane_policy_def DEFAULT_RETRY_def)
  moreover have "\<not> bad_wait (answers k)" for k
    using assms(2) [THEN spec, of k] by (cases "answers k") (auto simp: tame_def bad_wait_def asked_wait_def)
  ultimately show ?thesis using give_up_tame [of "answers (1 + length ds)" provider] assms(2) r by (simp add: ended_with_def)
qed

lemma digits_int: "list_all is_digit s \<Longrightarrow> s \<noteq> [] \<Longrightarrow> length s \<le> 4300 \<Longrightarrow> \<exists>n. py_int_of s = Inr n"
proof -
  assume s: "list_all is_digit s" "s \<noteq> []" "length s \<le> 4300"
  then have "is_digit (hd s)" "is_digit (last s)" by (auto simp: list_all_iff)
  then have "py_strip s = s" using s(2) by (intro py_strip_clean) (auto simp: is_digit_def)
  moreover have "signed_text s = (False, s)" using \<open>is_digit (hd s)\<close> s(2) by (cases s) (auto simp: signed_text_def is_digit_def)
  ultimately show ?thesis using digits_groups [OF s(1,2)] s(3) by (simp add: py_int_of_def MAX_INT_DIGITS_def)
qed

lemma body_built: "length (mq_effort q) \<le> 4300 \<Longrightarrow> \<exists>b. build_body p q = Inr b"
  using digits_int [of "mq_effort q"] by (cases p) (auto simp: gemini_body_def from_effort_def Let_def)

lemma parsed_ended:
  "andthen (extract_text p r) (\<lambda>s. andthen (extract_usage p r) (\<lambda>u. Inr \<lparr>aa_exit_code = 0, aa_stdout = s, aa_token_usage = u\<rparr>)) = Inr a
     \<Longrightarrow> aa_exit_code a = 0 \<and> aa_stdout a \<noteq> [] \<and> last (aa_stdout a) = CHR 0x0A"
  by (auto simp: andthen_Inr dest: extract_text_ended)


section \<open>Which text is delivered\<close>

text \<open>The text of a response, read off leniently: whatever has another shape counts as absent.\<close>

definition dict_of :: "json_value \<Rightarrow> json_dict" where
  "dict_of v = (case v of JV_Dict d \<Rightarrow> d | _ \<Rightarrow> [])"

definition list_in :: "json_dict \<Rightarrow> text_str \<Rightarrow> json_dict list" where
  "list_in d k = (case map_of d k of Some (JV_List vs) \<Rightarrow> map dict_of vs | _ \<Rightarrow> [])"

definition dict_in :: "json_dict \<Rightarrow> text_str \<Rightarrow> json_dict" where
  "dict_in d k = (case map_of d k of Some (JV_Dict u) \<Rightarrow> u | _ \<Rightarrow> [])"

definition text_in :: "text_str \<Rightarrow> json_dict \<Rightarrow> text_str" where
  "text_in k d = (case map_of d k of Some (JV_Text s) \<Rightarrow> s | _ \<Rightarrow> [])"

definition typed :: "text_str \<Rightarrow> json_dict list \<Rightarrow> json_dict list" where
  "typed ty ds = filter (\<lambda>d. has_type d ty) ds"

primrec answer_text :: "provider \<Rightarrow> json_dict \<Rightarrow> text_str" where
  "answer_text ANTHROPIC r = concat (map (text_in ''text'') (typed ''text'' (list_in r ''content'')))"
| "answer_text OPENAI r = concat (map (text_in ''text'')
     (typed ''output_text'' (concat (map (\<lambda>i. list_in i ''content'') (typed ''message'' (list_in r ''output''))))))"
| "answer_text GEMINI r = (case list_in r ''candidates'' of [] \<Rightarrow> []
     | c # cs \<Rightarrow> concat (map (text_in ''text'') (list_in (dict_in c ''content'') ''parts'')))"
| "answer_text MISTRAL r =
     (case filter (\<lambda>s. s \<noteq> []) (map (\<lambda>c. text_in ''content'' (dict_in c ''message'')) (list_in r ''choices'')) of [] \<Rightarrow> [] | s # ss \<Rightarrow> s)"

lemma as_text_Inr: "as_text v = Inr ys \<longleftrightarrow> (\<exists>s. v = JV_Text s \<and> ys = [s])"
  by (cases v) (auto simp: as_text_def)

lemma join_texts_Inr: "join_texts vs = Inr s \<longleftrightarrow> (\<exists>ss. vs = map JV_Text ss \<and> s = concat ss)"
proof -
  have "each as_text vs = Inr ss \<longleftrightarrow> vs = map JV_Text ss" for ss
  proof (induction vs arbitrary: ss)
    case (Cons v vs)
    show ?case by (cases ss) (auto simp: as_text_Inr andthen_Inr Cons.IH)
  qed auto
  then show ?thesis by (auto simp: join_texts_def andthen_Inr)
qed

definition dicts_of :: "json_value \<Rightarrow> json_dict list" where
  "dicts_of v = (case v of JV_List vs \<Rightarrow> map dict_of vs | _ \<Rightarrow> [])"

lemma read_fields:
  "field_or v k (JV_List []) = Inr c \<Longrightarrow> dicts_of c = list_in (dict_of v) k"
  "field_or v k (JV_Dict []) = Inr c \<Longrightarrow> dict_of c = dict_in (dict_of v) k"
  "field_or v ''type'' JV_Null = Inr t \<Longrightarrow> \<forall>ty. has_type (dict_of v) ty \<longleftrightarrow> t = JV_Text ty"
  "field_at v k = Inr (JV_Text s) \<Longrightarrow> text_in k (dict_of v) = s"
  "field_or v k (JV_Text []) = Inr (JV_Text s) \<Longrightarrow> text_in k (dict_of v) = s"
  by (auto simp: field_or_def field_at_def dicts_of_def list_in_def dict_in_def dict_of_def text_in_def has_type_def
      split: json_value.splits option.splits)

lemma each_texts:
  assumes "each f xs = Inr (map JV_Text ss)" "\<And>x ys. x \<in> set xs \<Longrightarrow> f x = Inr (map JV_Text ys) \<Longrightarrow> concat ys = g x"
  shows "concat ss = concat (map g xs)"
  using assms
proof (induction xs arbitrary: ss)
  case (Cons x xs)
  then obtain ys zs where x: "f x = Inr (map JV_Text ys)" and xs: "each f xs = Inr (map JV_Text zs)" and ss: "ss = ys @ zs"
    by (auto simp: andthen_Inr append_eq_map_conv)
  have "concat zs = concat (map g xs)" using Cons.IH [OF xs] Cons.prems(2) by simp
  moreover have "concat ys = g x" using Cons.prems(2) [OF _ x] by simp
  ultimately show ?case using ss by simp
qed simp

text \<open>The items of a dict or of a text are texts, which say nothing.\<close>

lemma items_texts:
  assumes "items_of c = Inr xs" "each f xs = Inr (map JV_Text ss)" "\<And>x ys. f x = Inr (map JV_Text ys) \<Longrightarrow> concat ys = g (dict_of x)" "g [] = []"
  shows "concat ss = concat (map g (dicts_of c))"
proof -
  have "concat ss = concat (map (\<lambda>x. g (dict_of x)) xs)" by (rule each_texts [OF assms(2)]) (rule assms(3))
  also have "\<dots> = concat (map g (dicts_of c))"
    using assms(1,4) by (auto simp: items_of_def dicts_of_def comp_def dict_of_def concat_eq_Nil_conv split: json_value.splits)
  finally show ?thesis .
qed

lemma concat_typed: "concat (map (\<lambda>d. if has_type d ty then h d else []) ds) = concat (map h (typed ty ds))"
  by (induction ds) (simp_all add: typed_def)

lemma texts_append: "[x] = map JV_Text ys \<longleftrightarrow> (\<exists>s. x = JV_Text s \<and> ys = [s])"
  by (cases ys) auto

lemma block_text:
  "anthropic_block b = Inr (map JV_Text ys) \<Longrightarrow> concat ys = (if has_type (dict_of b) ''text'' then text_in ''text'' (dict_of b) else [])"
  "openai_part b = Inr (map JV_Text ys) \<Longrightarrow> concat ys = (if has_type (dict_of b) ''output_text'' then text_in ''text'' (dict_of b) else [])"
proof -
  assume "anthropic_block b = Inr (map JV_Text ys)"
  then obtain t where t: "field_or b ''type'' JV_Null = Inr t"
      "(if t = JV_Text ''text'' then andthen (field_at b ''text'') (\<lambda>x. Inr [x]) else Inr []) = Inr (map JV_Text ys)"
    by (auto simp: anthropic_block_def andthen_Inr)
  then show "concat ys = (if has_type (dict_of b) ''text'' then text_in ''text'' (dict_of b) else [])"
    using read_fields(3) [OF t(1), rule_format, of "''text''"]
    by (cases "t = JV_Text ''text''") (auto simp: andthen_Inr texts_append read_fields(4))
next
  assume "openai_part b = Inr (map JV_Text ys)"
  then obtain t where t: "field_or b ''type'' JV_Null = Inr t"
      "(if t = JV_Text ''output_text'' then andthen (field_or b ''text'' (JV_Text [])) (\<lambda>x. Inr [x]) else Inr []) = Inr (map JV_Text ys)"
    by (auto simp: openai_part_def andthen_Inr)
  then show "concat ys = (if has_type (dict_of b) ''output_text'' then text_in ''text'' (dict_of b) else [])"
    using read_fields(3) [OF t(1), rule_format, of "''output_text''"]
    by (cases "t = JV_Text ''output_text''") (auto simp: andthen_Inr texts_append read_fields(5))
qed

lemma part_text: "gemini_part b = Inr (map JV_Text ys) \<Longrightarrow> concat ys = text_in ''text'' (dict_of b)"
  by (auto simp: gemini_part_def andthen_Inr texts_append has_key_def field_at_def text_in_def dict_of_def
      split: if_splits json_value.splits option.splits)

lemma item_text:
  assumes "openai_item i = Inr (map JV_Text ys)"
  shows "concat ys = (if has_type (dict_of i) ''message''
     then concat (map (text_in ''text'') (typed ''output_text'' (list_in (dict_of i) ''content''))) else [])"
proof -
  obtain t where t: "field_or i ''type'' JV_Null = Inr t"
      "(if t = JV_Text ''message''
        then andthen (field_or i ''content'' (JV_List [])) (\<lambda>c. andthen (items_of c) (\<lambda>parts. each openai_part parts))
        else Inr []) = Inr (map JV_Text ys)"
    using assms by (auto simp: openai_item_def andthen_Inr)
  note ty = read_fields(3) [OF t(1), rule_format, of "''message''"]
  show ?thesis
  proof (cases "t = JV_Text ''message''")
    case True
    then obtain c xs where c: "field_or i ''content'' (JV_List []) = Inr c" "items_of c = Inr xs" "each openai_part xs = Inr (map JV_Text ys)"
      using t(2) by (auto simp: andthen_Inr)
    have "concat ys = concat (map (\<lambda>d. if has_type d ''output_text'' then text_in ''text'' d else []) (dicts_of c))"
      by (rule items_texts [OF c(2,3)]) (simp_all add: block_text(2) has_type_def)
    then show ?thesis using read_fields(1) [OF c(1)] True ty by (simp add: concat_typed)
  qed (use t(2) ty in simp)
qed

lemma anthropic_reads: "anthropic_text r = Inr s \<Longrightarrow> s = line_ended (answer_text ANTHROPIC r)"
proof -
  assume "anthropic_text r = Inr s"
  then obtain c bs ss where c: "field_or (JV_Dict r) ''content'' (JV_List []) = Inr c" "items_of c = Inr bs"
      "each anthropic_block bs = Inr (map JV_Text ss)" "s = line_ended (concat ss)"
    by (auto simp: anthropic_text_def andthen_Inr join_texts_Inr)
  have "concat ss = concat (map (\<lambda>d. if has_type d ''text'' then text_in ''text'' d else []) (dicts_of c))"
    by (rule items_texts [OF c(2,3)]) (simp_all add: block_text(1) has_type_def)
  then show ?thesis using read_fields(1) [OF c(1)] c(4) by (simp add: concat_typed dict_of_def)
qed

lemma concat_nested: "concat (map (\<lambda>d. if has_type d ty then concat (map h (k d)) else []) ds) = concat (map h (concat (map k (typed ty ds))))"
  by (induction ds) (simp_all add: typed_def)

lemma typed_concat: "typed ty (concat dss) = concat (map (typed ty) dss)"
  by (induction dss) (simp_all add: typed_def)

lemma openai_reads: "openai_text r = Inr s \<Longrightarrow> s = line_ended (answer_text OPENAI r)"
proof -
  assume "openai_text r = Inr s"
  then obtain c bs ss where c: "field_or (JV_Dict r) ''output'' (JV_List []) = Inr c" "items_of c = Inr bs"
      "each openai_item bs = Inr (map JV_Text ss)" "s = line_ended (concat ss)"
    by (auto simp: openai_text_def andthen_Inr join_texts_Inr)
  have "concat ss = concat (map (\<lambda>d. if has_type d ''message''
      then concat (map (text_in ''text'') (typed ''output_text'' (list_in d ''content''))) else []) (dicts_of c))"
    by (rule items_texts [OF c(2,3)]) (simp_all add: item_text has_type_def)
  then show ?thesis using read_fields(1) [OF c(1)] c(4) by (simp add: concat_nested typed_concat dict_of_def comp_def)
qed

lemma first_reads: "first_of v = Inr c \<Longrightarrow> field_or c k d = Inr x \<Longrightarrow> \<exists>cs. dicts_of v = dict_of c # cs"
  by (auto simp: first_of_def dicts_of_def field_or_def split: json_value.splits list.splits)

lemma gemini_reads: "gemini_text r = Inr s \<Longrightarrow> s = line_ended (answer_text GEMINI r)"
proof -
  assume s: "gemini_text r = Inr s"
  then obtain v where v: "field_or (JV_Dict r) ''candidates'' (JV_List []) = Inr v" by (auto simp: gemini_text_def andthen_Inr)
  note list = read_fields(1) [OF v, unfolded dict_of_def, simplified]
  show ?thesis
  proof (cases "json_truthy v")
    case False
    then have "dicts_of v = []" by (cases v) (auto simp: dicts_of_def)
    then show ?thesis using s v list False by (auto simp: gemini_text_def line_ended_def)
  next
    case True
    then obtain c content ps xs ss where c: "first_of v = Inr c" "field_or c ''content'' (JV_Dict []) = Inr content"
        "field_or content ''parts'' (JV_List []) = Inr ps" "items_of ps = Inr xs" "each gemini_part xs = Inr (map JV_Text ss)"
        "s = line_ended (concat ss)"
      using s v by (auto simp: gemini_text_def andthen_Inr join_texts_Inr)
    have "concat ss = concat (map (text_in ''text'') (dicts_of ps))"
      by (rule items_texts [OF c(4,5)]) (simp_all add: part_text text_in_def)
    then show ?thesis using first_reads [OF c(1,2)] read_fields(1) [OF c(3)] read_fields(2) [OF c(2)] list c(6) by auto
  qed
qed

lemma mistral_choices_reads:
  "mistral_choices cs = Inr s \<Longrightarrow> s = line_ended (case filter (\<lambda>s. s \<noteq> []) (map (\<lambda>c. text_in ''content'' (dict_in (dict_of c) ''message'')) cs) of
     [] \<Rightarrow> [] | s # ss \<Rightarrow> s)"
proof (induction cs)
  case (Cons c cs)
  then obtain m x where m: "field_or c ''message'' (JV_Dict []) = Inr m" "field_or m ''content'' (JV_Text []) = Inr x"
    by (auto simp: andthen_Inr)
  note d = read_fields(2) [OF m(1), symmetric]
  show ?case
  proof (cases "\<exists>t. x = JV_Text t \<and> t \<noteq> []")
    case True
    then obtain t where t: "x = JV_Text t" "t \<noteq> []" by blast
    then have "s = line_ended t" using Cons.prems m by simp
    moreover have "text_in ''content'' (dict_in (dict_of c) ''message'') = t" using read_fields(5) [OF m(2) [unfolded t(1)]] d by simp
    ultimately show ?thesis using t(2) by simp
  next
    case False
    then have "mistral_choices cs = Inr s" using Cons.prems m by (auto split: json_value.splits if_splits)
    moreover have "text_in ''content'' (dict_of m) = []"
      using m(2) False by (auto simp: field_or_def text_in_def dict_of_def split: json_value.splits option.splits)
    ultimately show ?thesis using Cons.IH d by simp
  qed
qed (simp add: line_ended_def)

lemma mistral_reads: "mistral_text r = Inr s \<Longrightarrow> s = line_ended (answer_text MISTRAL r)"
proof -
  assume "mistral_text r = Inr s"
  then obtain c cs where c: "field_or (JV_Dict r) ''choices'' (JV_List []) = Inr c" "items_of c = Inr cs" "mistral_choices cs = Inr s"
    by (auto simp: mistral_text_def andthen_Inr)
  have "filter (\<lambda>s. s \<noteq> []) (map (\<lambda>c. text_in ''content'' (dict_in (dict_of c) ''message'')) cs)
      = filter (\<lambda>s. s \<noteq> []) (map (\<lambda>c. text_in ''content'' (dict_in c ''message'')) (dicts_of c))"
  proof (cases "\<exists>vs. c = JV_List vs")
    case False
    then have "list_all (\<lambda>v. \<exists>t. v = JV_Text t) cs" "dicts_of c = []"
      using c(2) by (auto simp: items_of_def dicts_of_def list_all_iff split: json_value.splits)
    moreover from this(1) have "cs = []" using c(3) by (cases cs) (auto simp: field_or_def)
    ultimately show ?thesis by simp
  qed (use c(2) in \<open>auto simp: items_of_def dicts_of_def comp_def\<close>)
  then show ?thesis using mistral_choices_reads [OF c(3)] read_fields(1) [OF c(1), unfolded dict_of_def, simplified]
    by (simp del: filter_map)
qed

lemma extracted_line: "extract_text p r = Inr s \<Longrightarrow> s = line_ended (answer_text p r)"
  by (cases p) (simp_all add: anthropic_reads openai_reads gemini_reads mistral_reads del: answer_text.simps)

text \<open>
  The text an adapter takes from a response is the concatenation, in order, of the parts the protocol of the provider calls
  text, for Mistral the first choice that has one, with one new line at the end; thinking and every
  other part is left out. A response of another shape is refused as malformed, never read differently.
\<close>

lemma extracted_text:
  "extract_text p r = Inl Broken \<or> extract_text p r = Inr (line_ended (answer_text p r))"
proof (cases "extract_text p r")
  case (Inl e)
  then show ?thesis using text_no_escape [of p r] by (cases e) auto
next
  case (Inr s)
  then show ?thesis using extracted_line by simp
qed

text \<open>An answer after failures the code retries is the one the loop returns.\<close>

lemma request_succeeds:
  assumes "\<forall>i. 0 \<le> jitter i \<and> jitter i < 1" "sane_policy P" "1 \<le> k" "k \<le> rp_max_attempts P"
    "\<forall>i. 1 \<le> i \<longrightarrow> i < k \<longrightarrow> transient (answers i) \<and> \<not> bad_wait (answers i)" "\<not> transient (answers k)"
  shows "fst (request_json P provider answers jitter 1) = give_up provider (answers k)"
proof -
  obtain r ds where r: "request_json P provider answers jitter 1 = (r, ds)" by force
  have run: "1 + length ds \<le> rp_max_attempts P" "ended_with P provider (1 + length ds) (answers (1 + length ds)) r"
      "\<forall>i < length ds. transient (answers (1 + i))"
    using request_json_from [OF assms(2) _ r] assms(1,3,4) by auto
  have "\<not> k < 1 + length ds"
  proof
    assume "k < 1 + length ds"
    then have "k - 1 < length ds" using assms(3) by linarith
    then show False using run(3) [rule_format, of "k - 1"] assms(3,6) by simp
  qed
  moreover have "\<not> 1 + length ds < k"
    using run(2) assms(4) assms(5) [rule_format, of "1 + length ds"] by (auto simp: ended_with_def)
  ultimately have "1 + length ds = k" by simp
  then show ?thesis using run(2) assms(6) r by (simp add: ended_with_def)
qed


section \<open>Samples\<close>

definition sample_reply :: json_dict where
  "sample_reply = [(''content'', JV_List [
     JV_Dict [(''type'', JV_Text ''thinking''), (''thinking'', JV_Text ''so'')],
     JV_Dict [(''type'', JV_Text ''text''), (''text'', JV_Text ''hel'')],
     JV_Dict [(''type'', JV_Text ''text''), (''text'', JV_Text ''lo'')]]),
   (''usage'', JV_Dict [(''input_tokens'', JV_Int 3)])]"

definition sample_body :: bytes where "sample_body = the (json_dumps [] (JV_Dict sample_reply))"

definition sample_query :: ml_request where
  "sample_query = \<lparr>mq_model = ''claude'', mq_effort = [], mq_context = ''Be brief.'', mq_prompt = ''Hello?'', mq_input_file_paths = [],
     mq_allow_paths = [], mq_client_args = [], mq_grants = {}, mq_user_system_prompt = None\<rparr>"

definition sample_net :: network where
  "sample_net r n = (if n = 1 then Refuses 503 [] None else Replies 200 sample_body)"

lemma sample_body_reads: "json_loads sample_body = Inr (JV_Dict sample_reply)" "is_utf8 sample_body"
  by code_simp+

lemma sample_finite: "finite_numbers (JV_Dict sample_reply)"
  by code_simp

lemma sample_key: "api_key_value ANTHROPIC (Some ''k'') env = Inr ''k''"
  by (simp add: api_key_value_def)



text \<open>A count of infinity passes the translation, and \<open>list_models\<close> has none: a model without an id is a raw \<open>KeyError\<close>.\<close>

lemma infinite_count_leaks:
  "extract_usage OPENAI [(''usage'', JV_Dict [(''input_tokens'', JV_Float (Infinite False))])]
     = Inl (Escapes (Exn OverflowError ''cannot convert float infinity to integer''))"
  by (simp add: openai_usage_def field_or_def count_at_def value_or_none_def)

lemma list_models_untranslated:
  assumes "api_key_value MISTRAL given env = Inr key"
    and "fst (request_json DEFAULT_RETRY ''mistral'' (net (get_request MISTRAL key)) jitter 1) = Inr [(''data'', JV_List [JV_Null])]"
  shows "list_models MISTRAL given env net jitter = Inl Broken"
  using assms by (simp add: list_models_def models_of_def field_or_def items_of_def mistral_model_def)

end
