(* ===== verification/Gateway_Relay.thy ===== *)
theory Gateway_Relay
  imports Provider_Api
begin

text \<open>
  The relay behind the caching gateway (\<open>anthropic_subscription_relay_adapter.py\<close>): the headers it forwards, the
  answer it makes of what comes back, and the usage it reads from a JSON body or an event stream. What comes
  back is a parameter.
\<close>

section \<open>Forwarding\<close>

definition SKIP_HEADERS :: "text_str list" where
  "SKIP_HEADERS = [''host'', ''connection'', ''content-length'', ''accept-encoding'', ''transfer-encoding'', ''content-type'']"

definition upstream_headers :: "(text_str \<times> text_str) list \<Rightarrow> (text_str \<times> text_str) list" where
  "upstream_headers hs = dict_set ''content-type'' ''application/json'' (filter (\<lambda>(name, v). lower_str name \<notin> set SKIP_HEADERS) hs)"

text \<open>A response of any status with its content type, an error of the network, or another exception.\<close>

datatype upstream = Replied int "text_str option" bytes | Unreached text_str | Interrupted exn

definition RELAY_NAME :: text_str where "RELAY_NAME = ''anthropic-subscription''"

definition forward :: "upstream \<Rightarrow> exn + int \<times> text_str \<times> bytes" where
  "forward u = (case u of
     Replied status ct body \<Rightarrow> Inr (status, case ct of Some t \<Rightarrow> t | None \<Rightarrow> [], body)
   | Unreached reason \<Rightarrow> Inl (api_error RELAY_NAME 0 reason)
   | Interrupted e \<Rightarrow> Inl e)"

section \<open>Usage\<close>

text \<open>
  \<open>json.loads\<close> of bytes that are valid UTF-8: zero bytes at the front make it read UTF-16 or UTF-32, in which
  lone surrogates pass. A \<open>UnicodeDecodeError\<close> counts as \<open>Json_Decode\<close>: both are caught.
\<close>

fun units16 :: "bool \<Rightarrow> nat list \<Rightarrow> nat list option" where
  "units16 be [] = Some []"
| "units16 be [a] = None"
| "units16 be (a # b # s) = map_option ((#) (if be then 256 * a + b else a + 256 * b)) (units16 be s)"

fun utf16_text :: "nat list \<Rightarrow> text_str" where
  "utf16_text [] = []"
| "utf16_text [u] = utf8_char u"
| "utf16_text (u # v # s) =
     (if 55296 \<le> u \<and> u < 56320 \<and> 56320 \<le> v \<and> v < 57344 then utf8_char (65536 + 1024 * (u - 55296) + (v - 56320)) @ utf16_text s
      else utf8_char u @ utf16_text (v # s))"

fun utf32_text :: "bool \<Rightarrow> nat list \<Rightarrow> text_str option" where
  "utf32_text be [] = Some []"
| "utf32_text be (a # b # c # d # s) =
     (let n = (if be then 16777216 * a + 65536 * b + 256 * c + d else a + 256 * b + 65536 * c + 16777216 * d)
      in if n < 1114112 then map_option ((@) (utf8_char n)) (utf32_text be s) else None)"
| "utf32_text be _ = None"

definition decoded_json :: "bytes \<Rightarrow> text_str option" where
  "decoded_json b = (let ns = map of_char b :: nat list in
     if starts_with BOM b then Some (drop 3 b)
     else case ns of
       a # x # y # z # s \<Rightarrow>
         if a = 0 then (if x \<noteq> 0 then map_option utf16_text (units16 True ns) else utf32_text True ns)
         else if x = 0 then (if y \<noteq> 0 \<or> z \<noteq> 0 then map_option utf16_text (units16 False ns) else utf32_text False ns)
         else Some b
     | [a, x] \<Rightarrow> if a = 0 then map_option utf16_text (units16 True ns)
         else if x = 0 then map_option utf16_text (units16 False ns) else Some b
     | _ \<Rightarrow> Some b)"

definition loads_bytes :: "bytes \<Rightarrow> json_error + json_value" where
  "loads_bytes b = (case decoded_json b of None \<Rightarrow> Inl Json_Decode | Some t \<Rightarrow> json_loads t)"

definition int_digits_error :: exn where
  "int_digits_error = Exn ValueError ''Exceeds the limit for integer string conversion''"

definition usage_from_block :: "json_value option \<Rightarrow> exn + usage option" where
  "usage_from_block v = (case v of
     Some (JV_Dict block) \<Rightarrow>
       andthen (get_int block ''input_tokens'') (\<lambda>i.
       andthen (get_int block ''output_tokens'') (\<lambda>out.
       andthen (get_int block ''cache_read_input_tokens'') (\<lambda>rd.
       andthen (get_int block ''cache_creation_input_tokens'') (\<lambda>wr.
         Inr (Some \<lparr>us_input_tokens = i, us_output_tokens = out, us_cache_read_tokens = rd, us_cache_write_tokens = wr,
           us_reasoning_tokens = None, us_cost_usd = None, us_raw = block\<rparr>)))))
   | _ \<Rightarrow> Inr None)"

definition parse_usage_json :: "bytes \<Rightarrow> exn + usage option" where
  "parse_usage_json body = (case loads_bytes body of
     Inl Json_Decode \<Rightarrow> Inr None
   | Inl Int_Digits \<Rightarrow> Inl int_digits_error
   | Inr (JV_Dict d) \<Rightarrow> usage_from_block (map_of d ''usage'')
   | Inr _ \<Rightarrow> Inr None)"

text \<open>\<open>event.get("message", {}).get("usage") or event.get("usage")\<close>, kept when it is a mapping.\<close>

definition event_usage :: "json_dict \<Rightarrow> json_dict" where
  "event_usage event =
     (case (case map_of event ''message'' of None \<Rightarrow> Some [] | Some (JV_Dict m) \<Rightarrow> Some m | Some _ \<Rightarrow> None) of
        None \<Rightarrow> []
      | Some m \<Rightarrow>
          (case (case map_of m ''usage'' of Some v \<Rightarrow> if json_truthy v then Some v else map_of event ''usage'' | None \<Rightarrow> map_of event ''usage'') of
             Some (JV_Dict u) \<Rightarrow> u | _ \<Rightarrow> []))"

definition sse_line_usage :: "text_str \<Rightarrow> exn + json_dict" where
  "sse_line_usage raw_line =
     (let line = py_strip raw_line; payload = py_strip (drop 5 line)
      in if \<not> starts_with ''data:'' line \<or> payload = [] \<or> payload = ''[DONE]'' then Inr []
         else case json_loads payload of
           Inl Json_Decode \<Rightarrow> Inr []
         | Inl Int_Digits \<Rightarrow> Inl int_digits_error
         | Inr (JV_Dict event) \<Rightarrow> Inr (event_usage event)
         | Inr _ \<Rightarrow> Inr [])"

definition dict_update :: "json_dict \<Rightarrow> json_dict \<Rightarrow> json_dict" where
  "dict_update d u = foldl (\<lambda>d (k, v). dict_set k v d) d u"

fun merge_lines :: "json_dict \<Rightarrow> text_str list \<Rightarrow> exn + json_dict" where
  "merge_lines merged [] = Inr merged"
| "merge_lines merged (l # ls) = andthen (sse_line_usage l) (\<lambda>block. merge_lines (dict_update merged block) ls)"

definition parse_usage_sse :: "bytes \<Rightarrow> exn + usage option" where
  "parse_usage_sse body = andthen (merge_lines [] (split_lines (decode_replace body))) (\<lambda>merged.
     if merged = [] then Inr None else usage_from_block (Some (JV_Dict merged)))"

definition parse_usage :: "bytes \<Rightarrow> text_str \<Rightarrow> exn + usage option" where
  "parse_usage body ct = (if contains_str ''text/event-stream'' (lower_str ct) then parse_usage_sse body else parse_usage_json body)"

section \<open>The answer\<close>

record relay_answer =
  ra_exit_code :: int
  ra_stdout :: text_str
  ra_token_usage :: "usage option"

definition to_answer :: "int \<Rightarrow> text_str \<Rightarrow> bytes \<Rightarrow> exn + relay_answer" where
  "to_answer status ct body =
     (if status = 200
      then if \<not> is_utf8 body then Inl (protocol_error RELAY_NAME 200 (decode_replace (take 500 body)))
        else andthen (parse_usage body ct) (\<lambda>u. Inr \<lparr>ra_exit_code = 0, ra_stdout = body, ra_token_usage = u\<rparr>)
      else Inr \<lparr>ra_exit_code = status, ra_stdout = decode_replace body, ra_token_usage = None\<rparr>)"

definition relayed :: "upstream \<Rightarrow> exn + relay_answer" where
  "relayed u = andthen (forward u) (\<lambda>(status, ct, body). to_answer status ct body)"

record upstream_request =
  uq_url :: text_str
  uq_headers :: "(text_str \<times> text_str) list"
  uq_body :: bytes

definition MESSAGES_URL :: text_str where "MESSAGES_URL = ''https://api.anthropic.com/v1/messages''"

definition sent_upstream :: "api_passthrough_request \<Rightarrow> upstream_request" where
  "sent_upstream q = \<lparr>uq_url = MESSAGES_URL, uq_headers = upstream_headers (ar_forward_headers q), uq_body = ar_raw_body q\<rparr>"

definition execute_api_passthrough :: "(upstream_request \<Rightarrow> upstream) \<Rightarrow> api_passthrough_request \<Rightarrow> exn + relay_answer" where
  "execute_api_passthrough net q = relayed (net (sent_upstream q))"

section \<open>What the relay gives back\<close>

lemma forwarded_headers:
  "(''content-type'', ''application/json'') \<in> set (upstream_headers hs)"
  "(name, v) \<in> set hs \<Longrightarrow> lower_str name \<notin> set SKIP_HEADERS \<Longrightarrow> (name, v) \<in> set (upstream_headers hs)"
  "(name, v) \<in> set (upstream_headers hs) \<Longrightarrow> lower_str name \<in> set SKIP_HEADERS \<Longrightarrow> (name, v) = (''content-type'', ''application/json'')"
proof -
  let ?kept = "filter (\<lambda>(name, v). lower_str name \<notin> set SKIP_HEADERS) hs"
  have "lower_str ''content-type'' \<in> set SKIP_HEADERS" by code_simp
  then have "''content-type'' \<notin> fst ` set ?kept" by auto
  then have "upstream_headers hs = ?kept @ [(''content-type'', ''application/json'')]"
    unfolding upstream_headers_def by (rule dict_set_new)
  then show "(''content-type'', ''application/json'') \<in> set (upstream_headers hs)"
    "(name, v) \<in> set hs \<Longrightarrow> lower_str name \<notin> set SKIP_HEADERS \<Longrightarrow> (name, v) \<in> set (upstream_headers hs)"
    "(name, v) \<in> set (upstream_headers hs) \<Longrightarrow> lower_str name \<in> set SKIP_HEADERS \<Longrightarrow> (name, v) = (''content-type'', ''application/json'')"
    by auto
qed

definition ACCOUNTING_ERRORS :: "exn_class set" where "ACCOUNTING_ERRORS = {ValueError, OverflowError}"

definition accounting_error :: "exn + 'a \<Rightarrow> bool" where
  "accounting_error r = (case r of Inl e \<Rightarrow> exn_class_of e \<in> ACCOUNTING_ERRORS | Inr a \<Rightarrow> True)"

lemma accounting_simps [simp]: "accounting_error (Inr a)" "accounting_error (Inl int_digits_error)"
  by (simp_all add: accounting_error_def int_digits_error_def ACCOUNTING_ERRORS_def)

lemma accounting_andthen [intro!]: "accounting_error m \<Longrightarrow> (\<And>a. m = Inr a \<Longrightarrow> accounting_error (f a)) \<Longrightarrow> accounting_error (andthen m f)"
  by (cases m) (auto simp: accounting_error_def)

lemma int_or_none_errors: "accounting_error (int_or_none v)"
proof (cases v)
  case (Some x)
  show ?thesis
  proof (cases "finite_numbers x")
    case True
    then show ?thesis using int_or_none_finite [OF True] Some by auto
  next
    case False
    then show ?thesis using Some
      by (cases x) (auto simp: value_or_none_def accounting_error_def ACCOUNTING_ERRORS_def finite_float_def split: py_float.splits)
  qed
qed simp

lemma usage_errors: "accounting_error (usage_from_block v)"
  by (auto simp: usage_from_block_def get_int_def int_or_none_errors split: option.split json_value.split)

lemma merge_errors: "accounting_error (merge_lines m ls)"
proof (induction ls arbitrary: m)
  case (Cons l ls)
  have "accounting_error (sse_line_usage l)" by (auto simp: sse_line_usage_def Let_def split: sum.split json_error.split json_value.split)
  then show ?case using Cons.IH by auto
qed simp

lemma parse_usage_errors: "accounting_error (parse_usage body ct)"
  by (auto simp: parse_usage_def parse_usage_sse_def parse_usage_json_def merge_errors usage_errors
      split: sum.split json_error.split json_value.split)

text \<open>
  What the relay answers is what came back. Every response of another status than 200 is answered with that status
  as the exit code and no usage; a 200 with exit code 0 and its body unchanged; bytes that are no text are refused
  on a 200 and replaced otherwise. Its only errors are the two of the provider, an exception of the
  transport, and those of counting tokens.
\<close>

lemma relay_verbatim:
  "case relayed u of
     Inr a \<Rightarrow> (case u of
         Replied status ct body \<Rightarrow> ra_exit_code a = (if status = 200 then 0 else status) \<and> is_utf8 (ra_stdout a)
           \<and> (is_utf8 body \<longrightarrow> ra_stdout a = body) \<and> (status = 200 \<longrightarrow> is_utf8 body) \<and> (status \<noteq> 200 \<longrightarrow> ra_token_usage a = None)
       | _ \<Rightarrow> False)
   | Inl e \<Rightarrow> (case u of
         Replied status ct body \<Rightarrow> status = 200
           \<and> (if is_utf8 body then exn_class_of e \<in> ACCOUNTING_ERRORS else exn_class_of e = ProviderProtocolError)
       | Unreached reason \<Rightarrow> exn_class_of e = ProviderApiError
       | Interrupted e' \<Rightarrow> e = e')"
proof (cases u)
  case (Replied status ct body)
  let ?ct = "case ct of Some t \<Rightarrow> t | None \<Rightarrow> []"
  show ?thesis
  proof (cases "status = 200 \<and> is_utf8 body")
    case True
    have "accounting_error (parse_usage body ?ct)" by (rule parse_usage_errors)
    with True Replied show ?thesis
      by (cases "parse_usage body ?ct") (simp_all add: relayed_def forward_def to_answer_def accounting_error_def)
  next
    case False
    then show ?thesis using Replied
      by (auto simp: relayed_def forward_def to_answer_def protocol_error_def decode_replace_utf8 decode_replace_id)
  qed
qed (simp_all add: relayed_def forward_def api_error_def)

text \<open>Counting tokens can break the relay, which it is meant never to do.\<close>

definition infinite_body :: bytes where
  "infinite_body = ''{'' @ quote_text ''usage'' @ '':{'' @ quote_text ''input_tokens'' @ '':Infinity}}''"

lemma counting_breaks_relay:
  "relayed (Replied 200 (Some ''application/json'') infinite_body)
     = Inl (Exn OverflowError ''cannot convert float infinity to integer'')"
proof -
  have "is_utf8 infinite_body" by code_simp
  moreover have "loads_bytes infinite_body = Inr (JV_Dict [(''usage'', JV_Dict [(''input_tokens'', JV_Float (Infinite False))])])" by code_simp
  moreover have "\<not> contains_str ''text/event-stream'' (lower_str ''application/json'')" by code_simp
  ultimately show ?thesis
    by (simp add: relayed_def forward_def to_answer_def parse_usage_def parse_usage_json_def usage_from_block_def
        get_int_def value_or_none_def)
qed

section \<open>The usage of a stream\<close>

text \<open>A line of a stream: an event in a \<open>data:\<close> line, or any other line.\<close>

datatype stream_item = Data_Line text_str json_dict | Other_Line text_str

primrec line_text :: "stream_item \<Rightarrow> text_str" where
  "line_text (Data_Line t d) = ''data: '' @ t"
| "line_text (Other_Line l) = l"

primrec line_usage :: "stream_item \<Rightarrow> json_dict" where
  "line_usage (Data_Line t d) = event_usage d"
| "line_usage (Other_Line l) = []"

primrec item_ok :: "stream_item \<Rightarrow> bool" where
  "item_ok (Data_Line t d) \<longleftrightarrow> json_line t d \<and> distinct (map fst (event_usage d)) \<and> finite_numbers (JV_Dict (event_usage d))"
| "item_ok (Other_Line l) \<longleftrightarrow> one_line l \<and> \<not> starts_with ''data:'' (py_strip l)"

text \<open>The last value the events give for a key.\<close>

definition last_value :: "text_str \<Rightarrow> json_dict list \<Rightarrow> json_value option" where
  "last_value k us = foldl (\<lambda>v u. case map_of u k of Some x \<Rightarrow> Some x | None \<Rightarrow> v) None us"

definition token_count :: "json_value option \<Rightarrow> int option" where
  "token_count v = (case int_or_none v of Inr n \<Rightarrow> n | Inl e \<Rightarrow> None)"

lemma count_Inr: "(\<And>x. v = Some x \<Longrightarrow> finite_numbers x) \<Longrightarrow> int_or_none v = Inr (token_count v)"
  using int_or_none_finite by (cases v) (force simp: token_count_def)+

lemma map_of_update: "distinct (map fst u) \<Longrightarrow> map_of (dict_update d u) k = (case map_of u k of Some x \<Rightarrow> Some x | None \<Rightarrow> map_of d k)"
proof (induction u arbitrary: d)
  case (Cons kv u)
  then have "map_of (dict_update (dict_set (fst kv) (snd kv) d) u) k
      = (case map_of u k of Some x \<Rightarrow> Some x | None \<Rightarrow> map_of (dict_set (fst kv) (snd kv) d) k)" by simp
  moreover have "fst kv \<notin> dom (map_of u)" using Cons.prems by (auto simp: dom_map_of_conv_image_fst)
  ultimately show ?case by (cases kv) (auto simp: dict_update_def update_conv split: option.splits)
qed (simp add: dict_update_def)

lemma update_nonempty: "u \<noteq> [] \<or> d \<noteq> [] \<Longrightarrow> dict_update d u \<noteq> []"
proof (induction u arbitrary: d)
  case (Cons kv u)
  have "dict_set (fst kv) (snd kv) d \<noteq> []" by (cases d) auto
  then show ?case using Cons.IH [of "dict_set (fst kv) (snd kv) d"] by (simp add: dict_update_def case_prod_beta)
qed (simp add: dict_update_def)

lemma strip_front_space: "strip_front WHITESPACE (CHR 0x20 # s) = strip_front WHITESPACE s"
proof -
  have "find (\<lambda>w. w \<noteq> [] \<and> starts_with w (CHR 0x20 # s)) WHITESPACE = Some [CHR 0x20]" by (simp add: WHITESPACE_def)
  then show ?thesis by (subst strip_front.simps) simp
qed

lemma data_line_strip: "json_line t d \<Longrightarrow> py_strip (''data: '' @ t) = ''data: '' @ t" "json_line t d \<Longrightarrow> py_strip (CHR 0x20 # t) = t"
proof -
  assume t: "json_line t d"
  show "py_strip (''data: '' @ t) = ''data: '' @ t" using t by (intro py_strip_clean) (auto simp: json_line_def)
  have "strip_front WHITESPACE (CHR 0x20 # t) = strip_front WHITESPACE t" by (rule strip_front_space)
  then show "py_strip (CHR 0x20 # t) = t" using json_line_strip(1) [OF t] by (simp add: py_strip_def)
qed

lemma one_line_Cons:
  assumes "one_line t" "list_all (\<lambda>w. hd w \<noteq> c) LINE_ENDS"
  shows "one_line (c # t)"
  unfolding one_line_def
proof
  fix x
  have "\<not> starts_with w (c # t @ CHR 0x0A # x)" if "w \<in> set LINE_ENDS" for w
    using LINE_ENDS_nonempty [OF that] that assms(2) by (cases w) (auto simp: starts_with_iff list_all_iff)
  then have "find (\<lambda>w. starts_with w (c # t @ CHR 0x0A # x)) LINE_ENDS = None" by (auto simp: find_None_iff)
  then show "take_line ((c # t) @ CHR 0x0A # x) = (c # t, x)" using assms(1) by (simp add: one_line_def)
qed

lemma data_line_one: "one_line t \<Longrightarrow> one_line (''data: '' @ t)"
  unfolding append_Cons append_Nil by (intro one_line_Cons) (simp_all add: LINE_ENDS_def)

lemma item_usage: "item_ok e \<Longrightarrow> sse_line_usage (line_text e) = Inr (line_usage e)"
proof (cases e)
  case (Data_Line t d)
  assume "item_ok e"
  then have t: "json_line t d" using Data_Line by simp
  then have "json_loads t = Inr (JV_Dict d)" "t \<noteq> []" "t \<noteq> ''[DONE]''" by (auto simp: json_line_def)
  then show ?thesis using data_line_strip [OF t] Data_Line by (simp add: sse_line_usage_def Let_def)
qed (simp add: sse_line_usage_def Let_def)

lemma item_line: "item_ok e \<Longrightarrow> one_line (line_text e)"
proof (cases e)
  case (Data_Line t d)
  assume "item_ok e"
  then have "one_line t" using Data_Line by (simp add: json_line_def)
  then show ?thesis unfolding Data_Line line_text.simps by (rule data_line_one)
qed simp

lemma merge_items:
  "list_all item_ok es \<Longrightarrow> merge_lines m (map line_text es) = Inr (foldl dict_update m (map line_usage es))"
  by (induction es arbitrary: m) (simp_all add: item_usage)

lemma item_keys: "item_ok e \<Longrightarrow> distinct (map fst (line_usage e))"
  by (cases e) auto

lemma map_of_merged:
  "list_all item_ok es \<Longrightarrow> map_of (foldl dict_update m (map line_usage es)) k
     = foldl (\<lambda>v u. case map_of u k of Some x \<Rightarrow> Some x | None \<Rightarrow> v) (map_of m k) (map line_usage es)"
  by (induction es arbitrary: m) (simp_all add: map_of_update item_keys)

lemma merged_nonempty: "(\<exists>u \<in> set us. u \<noteq> []) \<or> m \<noteq> [] \<Longrightarrow> foldl dict_update m us \<noteq> []"
proof (induction us arbitrary: m)
  case (Cons u us)
  show ?case using Cons.IH [of "dict_update m u"] Cons.prems update_nonempty [of u m] by (cases "u = []"; cases "m = []") auto
qed simp

lemma item_finite: "item_ok e \<Longrightarrow> map_of (line_usage e) k = Some y \<Longrightarrow> finite_numbers y"
  by (cases e) (auto simp: list_all_iff dest!: map_of_SomeD)

lemma last_finite:
  "list_all item_ok es \<Longrightarrow> (\<And>y. v = Some y \<Longrightarrow> finite_numbers y) \<Longrightarrow>
    foldl (\<lambda>v u. case map_of u k of Some x \<Rightarrow> Some x | None \<Rightarrow> v) v (map line_usage es) = Some x \<Longrightarrow> finite_numbers x"
proof (induction es arbitrary: v)
  case (Cons e es)
  let ?v = "case map_of (line_usage e) k of Some x \<Rightarrow> Some x | None \<Rightarrow> v"
  have "finite_numbers y" if "?v = Some y" for y
    using that item_finite [of e k] Cons.prems(1,2) by (auto split: option.splits)
  then show ?case using Cons.IH [of ?v] Cons.prems(1,3) by simp
qed simp

lemma last_value_finite: "list_all item_ok es \<Longrightarrow> last_value k (map line_usage es) = Some x \<Longrightarrow> finite_numbers x"
  unfolding last_value_def by (rule last_finite) simp_all

definition last_count :: "stream_item list \<Rightarrow> text_str \<Rightarrow> int option" where
  "last_count es k = token_count (last_value k (map line_usage es))"


definition sample_event :: "int \<Rightarrow> json_dict" where
  "sample_event n = [(''usage'', JV_Dict [(''output_tokens'', JV_Int n)])]"

definition sample_event_text :: "int \<Rightarrow> text_str" where
  "sample_event_text n = ''{'' @ quote_text ''usage'' @ '':'' @ ''{'' @ quote_text ''output_tokens'' @ '':'' @ int_str n @ ''}}''"

definition sample_stream :: "stream_item list" where
  "sample_stream = [Other_Line ''event: message_delta'', Data_Line (sample_event_text 1) (sample_event 1), Other_Line [],
     Data_Line (sample_event_text 7) (sample_event 7), Data_Line ''{}'' []]"

lemma sample_ints: "int_str 1 = ''1''" "int_str 7 = ''7''"
  by code_simp+

lemma sample_event_json: "json_line (sample_event_text 1) (sample_event 1)" "json_line (sample_event_text 7) (sample_event 7)"
proof -
  have "json_loads (sample_event_text 1) = Inr (JV_Dict (sample_event 1))" "json_loads (sample_event_text 7) = Inr (JV_Dict (sample_event 7))"
    by code_simp+
  moreover have "one_line (sample_event_text 1)" "one_line (sample_event_text 7)"
    by (rule one_line_clean; simp add: sample_event_text_def sample_text sample_ints)+
  ultimately show "json_line (sample_event_text 1) (sample_event 1)" "json_line (sample_event_text 7) (sample_event 7)"
    by (simp_all add: json_line_def sample_event_text_def)
qed

lemma sample_stream_ok: "list_all item_ok sample_stream"
proof -
  have a: "json_line ''{}'' []"
    using one_line_clean [of "''{}''"] loads_dumps [of "[]" "JV_Dict []" "''{}''" "[]" "[]"]
    by (simp add: json_line_def joined_def printable_def SEPARATORS_def)
  have b: "one_line ''event: message_delta''" "one_line []"
    by (rule one_line_clean; simp add: printable_def SEPARATORS_def)+
  have c: "py_strip ''event: message_delta'' = ''event: message_delta''" by (rule py_strip_clean) simp_all
  have d: "py_strip [] = []" by (simp add: py_strip_def strip_front.simps WHITESPACE_def)
  show ?thesis using a b sample_event_json
    by (simp add: sample_stream_def c d event_usage_def sample_event_def)
qed


end
