(* ===== verification/Spec2Isabelle.thy ===== *)
theory Spec2Isabelle
  imports Record_Replay Repository_Refinement Migration_Safety Key_Lock Session_Report Adapter_Discovery Probe_Service
    Schema_Migrations Config_File Client_Launch Run_Spec Gateway_Relay
begin

text \<open>
  Verification library of generic-ml-cache: a cache that records the answer of a call to a language model
  once and replays it, kept in a SQLite database and a directory of blobs, and driven by a command line
  and a daemon.

  \<^bold>\<open>The parts and their theories.\<close> Paths are under \<open>src/packages\<close>; each definition carries the
  name of the function or class it translates, in Python's spelling where Isabelle allows it.

  \<^item> \<open>Prelude\<close>, \<open>Py_Text\<close>, \<open>Py_Float\<close>, \<open>Ini_File\<close>, \<open>Json_Text\<close>, \<open>Json_Ascii\<close>, \<open>Sha256\<close>: Python itself. Exceptions are
    values (\<open>exn\<close>), a stateful function is a program \<open>'w \<Rightarrow> (exn + 'a) \<times> 'w\<close> built from
    \<open>bindP\<close>, \<open>catchP\<close>, \<open>finallyP\<close>; a pure fallible one returns \<open>exn + 'a\<close>. Text is its UTF-8
    bytes; floats are binary64 with rounding; \<open>configparser\<close>, the reader and the two layouts of the
    writer of \<open>json\<close>, and SHA-256 are modelled.
  \<^item> \<open>Checksum\<close>, \<open>Call_Identity\<close>: what makes two calls the same
    (\<open>core/common/checksum.py\<close>, \<open>domain/model/identity\<close>, the JSON codec and its row form).
  \<^item> \<open>Domain_Model\<close>, \<open>Run_Command\<close>: the value objects and the commands of the use cases.
  \<^item> \<open>Cipher\<close>, \<open>Encryption_Manifest\<close>, \<open>Blob_Store\<close>, \<open>Store_Encryptor\<close>, \<open>Migration_Safety\<close>: the
    blob stores, encryption at rest, and the migrations that encrypt, re-key and decrypt a store.
  \<^item> \<open>Execution_Repository\<close>, \<open>Repository_Invariant\<close>, \<open>Row_Lifecycle\<close>, \<open>Repository_Refinement\<close>:
    \<open>persistence/sqlite/execution_repository.py\<close> over its tables; \<open>Schema_Migrations\<close>: the schema
    runner (\<open>migration_runner.py\<close>).
  \<^item> \<open>Call_Journal\<close>, \<open>Session_Report\<close>: the access journal and the reports projected from it.
  \<^item> \<open>Key_Lock\<close>: the record-once lock between threads and processes; \<open>Workspace\<close>: the run folder
    of a managed call.
  \<^item> \<open>Runtime\<close>, \<open>Cached_Service\<close>, \<open>Run_Service\<close>, \<open>Purge_Service\<close>, \<open>Repair_Service\<close>,
    \<open>Probe_Service\<close>: the use cases (\<open>application/usecase\<close>) over one \<open>world\<close>.
  \<^item> \<open>Service_Frame\<close>, \<open>Service_Invariants\<close>, \<open>Call_Bounds\<close>, \<open>Quiet_Runs\<close>, \<open>Record_Replay\<close>:
    what holds of all of them together.
  \<^item> \<open>Adapter_Catalog\<close>, \<open>Adapter_Discovery\<close>: descriptors, selection, the gated loading of plugins
    and the resolver (\<open>bootstrap/discovery\<close>).
  \<^item> \<open>Cli_Config\<close>, \<open>Config_Values\<close>, \<open>Config_File\<close>: the configuration of the command line
    (\<open>cli/config.py\<close>).
  \<^item> \<open>Client_Output\<close>: what the clients print, parsed into answer and usage, and the live events
    (\<open>adapters/adapter/outbound/client\<close>, \<open>stream.py\<close>, \<open>domain/model/usage\<close>).
    \<open>Client_Launch\<close>: prompts, command lines, grant files, the size check and the call engine of the four
    clients (\<open>cli_runtime.py\<close>, \<open>cli_process_runner.py\<close>, \<open>prime_directive.py\<close>).
  \<^item> \<open>Json_Request\<close>, \<open>Provider_Api\<close>, \<open>Gateway_Relay\<close>: the HTTP adapters
    (\<open>adapters/adapter/outbound/api\<close>): the request with its retries (\<open>_http.py\<close>), what is sent to and read from
    Anthropic, OpenAI, Gemini and Mistral, and the relay behind the gateway.
  \<^item> \<open>Run_Spec\<close>: the run and alias commands (\<open>cli/controllers/run.py\<close>, \<open>composition.py\<close>): the
    arguments resolved into a spec, the spec stored for a detached worker, the command read back from it,
    exit codes and output files. \<open>Cli_Output\<close>: what the commands print and write of an execution
    (\<open>cli/presenters/shared.py\<close>).
  \<^item> \<open>Detached_Jobs\<close>, \<open>Job_Commands\<close>: the job directory, the liveness lock and the processes around
    a detached run as a step relation, and the commands that ask for it (\<open>cli/async_jobs.py\<close>,
    \<open>cli/controllers/execution.py\<close>).
  \<^bold>\<open>How they interact.\<close> A run resolves its identity to a key (\<open>Call_Identity\<close>), asks the
  repository for the servable execution of the key, and replays it from the blob store; on a miss it takes
  the key lock, asks again, calls the client in a workspace, writes the row, the blobs and the artifact
  rows, and finalizes (\<open>Cached_Service.execute\<close> with the hooks of \<open>Run_Service\<close>). Eviction and the
  purges remove rows and blobs under the same locks; repair finishes or abandons what a crash left; the
  encryption migrations rewrite the blob directory under the store lock. Every step is journalled. A
  \<open>world\<close> holds the database, the blobs, the journal, the locks held and the counters that index the
  environment's answers; a \<open>runtime\<close> holds the environment: the hash, the clocks and ids, the client's
  answers, what other processes do while a lock is awaited, and which statement, blob access or journal
  write fails, before or after its effect. The theorems quantify over runtimes, that is, over every
  failure and every interference of that kind.

  \<^bold>\<open>What the groups of lemmas show.\<close>

  \<^item> Keys: calls of different kinds never share a key, managed calls share one exactly when they are the
    same call, under a hash without collisions on the inputs; the stored identity is recovered.
  \<^item> Stores: what is put is read back through every encryption state; no key leaves the directory; an
    encryption migration interrupted anywhere leaves the content intact and the next one completes.
  \<^item> Repository: the tables keep their invariant under every operation and every fault, and every write
    refines its specification on the map from keys to servable executions.
  \<^item> Services: through the locales \<open>store_frame\<close> and \<open>service_frame\<close>, interpreted on the modelled
    ports, the invariants of the tables, locks, journal and blob names hold after any sequence of use
    cases; the client is called at most once by a run; without faults a recorded answer is replayed byte
    for byte for ever, and the probe forecasts it.
  \<^item> Reports: the one-pass projection equals its declarative specification and counts nothing twice
    (\<open>additive_count\<close>, interpreted for each counter).
  \<^item> Locks: exclusion for every interleaving and crash, a bounded wait, and the deadlock of the in-process
    stripes.
  \<^item> Adapters: a plugin that is neither trusted nor whitelisted is never loaded; listing, selection and
    validation agree.
  \<^item> Schema: a migration run can be cut at any statement and repeated.
  \<^item> Configuration: settings are well typed, sizes exact, the generated file is neutral, checking predicts
    loading.
  \<^item> JSON: what is written is read back, in both layouts (\<open>loads_dumps\<close>, \<open>loads_indented\<close>).
  \<^item> Clients: the streamed form of an answer is recorded as the plain form is; the directive is in every
    command line; which prompts are too large is decided by the transport of the client.
  \<^item> Providers: the retries are bounded in number and time; a foreseen failure reaches the caller as one of
    three errors, a good response as its text and usage; the relay changes no answer and records the last
    counts of a stream.
  \<^item> Commands: what resolves is accepted by every reader of the spec and survives its file; a run writes
    under the working folder only.
  \<^item> Jobs: with any interleaving and any kill one worker at most is inside a job and its status is
    complete; an undisturbed job reports what an attached run prints; a probe at the wrong moment strands it.
  \<^bold>\<open>Bounds and fuel.\<close> The JSON reader recurses on fuel, twice the length of the text plus one,
  which is enough: more changes nothing (\<open>parse_value_fuel\<close>). Other loops are structural or carry a measure, the wait for a lock is bounded by its deadline and poll interval, the interpolation
  depth of the configuration is the 10 of \<open>configparser\<close>. Faults are functions of a step counter, so a
  run meets every finite or infinite pattern of failures.

  \<^bold>\<open>Parameters.\<close> The hash of the properties on keys (SHA-256 is modelled, but freedom from
  collisions on the inputs at hand is a hypothesis), the AEAD cipher and the key derivation (documented
  laws of \<open>cryptography\<close>), the processes of the clients and the providers, the installed entry points, \<open>pathlib\<close> of the
  platform, and the peers of a lock.

  \<^bold>\<open>Not modelled.\<close> The argument parser, the presenters and the remaining controllers of the command line
  and the FastAPI application of the daemon (input and output around the use cases modelled here); the
  time-outs and the transport of the HTTP adapters, which appear as the client of a \<open>runtime\<close> to the use cases; the threads and signals
  that carry the output of a client process, and the credentials copied for it; the numeral of a float,
  so that the file of a detached run with a timeout is not written in the model; the diagnostics
  adapters; the wiring modules; the pure ports (\<open>Protocol\<close> classes without code); the in-memory test
  doubles; the status-line tool. Error messages
  are shortened throughout; logging, metrics and the terminal are left out.
\<close>

end
